(* ===== verification/Fla_Prelude.thy ===== *)
theory Fla_Prelude
  imports Main "HOL-Library.Word" "HOL-Library.Monad_Syntax"
begin

text \<open>
  Shared vocabulary of the FlexAlloc development: the C integer types as words, the
  conversion of an unsigned value to a C \<open>int\<close>, the error numbers the code returns, and
  generic facts on words, lists and counting that the components use.

  A C function that may touch memory is a function into \<open>option\<close>: \<open>None\<close> stands for an
  execution with no defined result, an access outside the array it indexes or a loop that
  never ends, and \<open>Some (err, state)\<close> for a return with code \<open>err\<close>. A theorem that
  states \<open>= Some \<dots>\<close> therefore also states termination and absence of out-of-range accesses.
  \<open>rd\<close> and \<open>wr\<close> are the checked array accesses.
\<close>

unbundle bit_operations_syntax

type_synonym u8 = "8 word"
type_synonym u16 = "16 word"
type_synonym u32 = "32 word"
type_synonym u64 = "64 word"

text \<open>An error code: zero is success; the code's functions return a C \<open>int\<close>.\<close>

type_synonym errcode = int

abbreviation EINVAL :: int where "EINVAL \<equiv> 22"
abbreviation ENOMEM :: int where "ENOMEM \<equiv> 12"
abbreviation ENOSPC :: int where "ENOSPC \<equiv> 28"
abbreviation EIO :: int where "EIO \<equiv> 5"

text \<open>Conversion of an unsigned machine value to a 32-bit C \<open>int\<close>.\<close>

definition c_int :: "'a::len word \<Rightarrow> int" where
  "c_int w = signed_take_bit 31 (uint w)"

lemma unat_less_exp: "unat (w :: 'a::len word) < 2 ^ LENGTH('a)"
  by (rule unsigned_less)

text \<open>A C condition used as an \<open>int\<close>: 1 when it holds, 0 otherwise.\<close>

abbreviation c_bool :: "bool \<Rightarrow> int" where
  "c_bool b \<equiv> of_bool b"

lemma c_int_of_small:
  assumes "unat w < 2 ^ 31"
  shows "c_int w = int (unat w)"
proof -
  have "int (unat w) < int (2 ^ 31)" using assms of_nat_less_iff by blast
  then have "uint w < 2 ^ 31" by simp
  then show ?thesis
    unfolding c_int_def by (subst signed_take_bit_int_eq_self) (auto intro: order_trans [of _ 0])
qed

section \<open>Checked array accesses\<close>

definition rd :: "'a list \<Rightarrow> nat \<Rightarrow> 'a option" where
  "rd xs i = (if i < length xs then Some (xs ! i) else None)"

definition wr :: "'a list \<Rightarrow> nat \<Rightarrow> 'a \<Rightarrow> 'a list option" where
  "wr xs i v = (if i < length xs then Some (xs[i := v]) else None)"

lemma rd_in [simp]: "i < length xs \<Longrightarrow> rd xs i = Some (xs ! i)"
  by (simp add: rd_def)

lemma rd_out [simp]: "length xs \<le> i \<Longrightarrow> rd xs i = None"
  by (simp add: rd_def)

lemma wr_in [simp]: "i < length xs \<Longrightarrow> wr xs i v = Some (xs[i := v])"
  by (simp add: wr_def)

lemma wr_out [simp]: "length xs \<le> i \<Longrightarrow> wr xs i v = None"
  by (simp add: wr_def)

lemma rd_SomeD: "rd xs i = Some x \<Longrightarrow> i < length xs \<and> x = xs ! i"
  by (simp add: rd_def split: if_splits)

lemma wr_SomeD: "wr xs i v = Some ys \<Longrightarrow> i < length xs \<and> ys = xs[i := v]"
  by (simp add: wr_def split: if_splits)

lemma wr_length: "wr xs i v = Some ys \<Longrightarrow> length ys = length xs"
  by (auto dest: wr_SomeD)

section \<open>Machine arithmetic without wrap-around\<close>

named_theorems word_nat \<open>equations that read a word computation as a computation on nat\<close>

lemma unat_add_no_wrap [word_nat]:
  "unat a + unat b < 2 ^ LENGTH('a::len) \<Longrightarrow> unat (a + b :: 'a word) = unat a + unat b"
  by (simp add: unat_word_ariths)

lemma unat_mult_no_wrap [word_nat]:
  "unat a * unat b < 2 ^ LENGTH('a::len) \<Longrightarrow> unat (a * b :: 'a word) = unat a * unat b"
  by (simp add: unat_word_ariths)

lemma unat_sub_no_wrap [word_nat]:
  "unat b \<le> unat a \<Longrightarrow> unat (a - b :: 'a::len word) = unat a - unat b"
  by (simp add: unat_sub word_le_nat_alt)

lemma unat_ucast_mod: "unat (ucast (w :: 'b::len word) :: 'a::len word) = unat w mod 2 ^ LENGTH('a)"
  by (simp add: unsigned_ucast_eq take_bit_eq_mod)

lemma unat_ucast_widen [word_nat]:
  "LENGTH('b::len) \<le> LENGTH('a::len) \<Longrightarrow> unat (ucast (w :: 'b word) :: 'a word) = unat w"
  by (simp add: unat_ucast_mod)
    (rule mod_less, rule less_le_trans [OF unat_less_exp], simp)

lemma unat_ucast_small [word_nat]:
  "unat w < 2 ^ LENGTH('a::len) \<Longrightarrow> unat (ucast (w :: 'b::len word) :: 'a word) = unat w"
  by (simp add: unat_ucast_mod)

lemma unat_of_nat_small [word_nat]:
  "n < 2 ^ LENGTH('a::len) \<Longrightarrow> unat (of_nat n :: 'a word) = n"
  by (simp add: unat_of_nat)

lemma unat_dec: "w \<noteq> 0 \<Longrightarrow> unat (w - 1 :: 'a::len word) = unat w - 1"
  by (simp add: unat_gt_0 unat_minus_one)

lemma unat_inc_below [word_nat]: "i < n \<Longrightarrow> unat (i + 1 :: 'a::len word) = Suc (unat i)"
proof -
  assume "i < n"
  then have "unat i < unat n" by (simp add: word_less_nat_alt)
  moreover have "unat n < 2 ^ LENGTH('a)" by (rule unat_less_exp)
  ultimately have "unat i + unat (1 :: 'a word) < 2 ^ LENGTH('a)" unfolding unsigned_1 by linarith
  then show ?thesis by (simp add: unat_add_no_wrap)
qed

end
