(* ===== verification/Fla_Bits.thy ===== *)
theory Fla_Bits
  imports Fla_Prelude
begin

text \<open>
  \<open>src/src/flexalloc_bits.c\<close>: the two bit-counting routines the freelist is built on.
  \<open>ntz\<close> counts trailing zero bits by halving the window; \<open>count_set_bits\<close> adds
  neighbouring bit fields in place. Both are shown equal to what they count.
\<close>

section \<open>Definitions\<close>

text \<open>One window of \<open>ntz\<close>: when the low \<open>k\<close> bits are clear, count and shift them out.\<close>

definition ntz_step :: "u32 \<Rightarrow> nat \<Rightarrow> u32 \<times> u32 \<Rightarrow> u32 \<times> u32" where
  "ntz_step m k = (\<lambda>(n, x). if x AND m = 0 then (n + of_nat k, drop_bit k x) else (n, x))"

definition ntz :: "u32 \<Rightarrow> u32" where
  "ntz x =
     (if x = 0 then 32
      else let s = (1, x);
               s = ntz_step 0x0000FFFF 16 s;
               s = ntz_step 0x000000FF 8 s;
               s = ntz_step 0x0000000F 4 s;
               (n, x) = ntz_step 0x00000003 2 s
           in n - (x AND 1))"

definition count_set_bits :: "u32 \<Rightarrow> u32" where
  "count_set_bits val =
     (let val = (val AND 0x55555555) + (drop_bit 1 val AND 0x55555555);
          val = (val AND 0x33333333) + (drop_bit 2 val AND 0x33333333);
          val = (val AND 0x0F0F0F0F) + (drop_bit 4 val AND 0x0F0F0F0F);
          val = (val AND 0x00FF00FF) + (drop_bit 8 val AND 0x00FF00FF)
      in (val AND 0x0000FFFF) + (drop_bit 16 val AND 0x0000FFFF))"

section \<open>Trailing zeros\<close>

text \<open>
  The window invariant: \<open>pos\<close> bits have been shifted out, the lowest set bit \<open>l\<close> of the
  original word lies in the next \<open>k\<close> bits.
\<close>

definition ntz_window :: "u32 \<Rightarrow> nat \<Rightarrow> nat \<Rightarrow> u32 \<times> u32 \<Rightarrow> bool" where
  "ntz_window x l k s \<longleftrightarrow>
     (\<exists>pos. s = (of_nat (Suc pos), drop_bit pos x) \<and> pos \<le> l \<and> l < pos + k)"

lemma and_mask_zero_iff:
  fixes x :: "'a::len word"
  shows "x AND mask k = 0 \<longleftrightarrow> (\<forall>i<k. i < LENGTH('a) \<longrightarrow> \<not> bit x i)"
  by (auto simp: bit_eq_iff bit_simps)

lemma ntz_step_window:
  assumes win: "ntz_window x l (2 * k) s"
    and low: "bit x l" "\<forall>i<l. \<not> bit x i" "l < 32"
  shows "ntz_window x l k (ntz_step (mask k) k s)"
proof -
  from win obtain pos where s: "s = (of_nat (Suc pos), drop_bit pos x)"
    and pos: "pos \<le> l" "l < pos + 2 * k"
    by (auto simp: ntz_window_def)
  show ?thesis
  proof (cases "l < pos + k")
    case True
    have "bit (drop_bit pos x) (l - pos)" using low(1) pos by (simp add: bit_simps)
    moreover have "l - pos < k" using True pos by simp
    ultimately have "drop_bit pos x AND mask k \<noteq> 0"
      using low(3) by (auto simp: and_mask_zero_iff)
    then show ?thesis
      using s pos True by (auto simp: ntz_window_def ntz_step_def)
  next
    case False
    then have "drop_bit pos x AND mask k = 0"
      using low(2) by (auto simp: and_mask_zero_iff bit_simps)
    then show ?thesis
      using s pos False
      by (auto simp: ntz_window_def ntz_step_def drop_bit_drop_bit ac_simps
          intro!: exI [of _ "pos + k"])
  qed
qed

lemma ntz_window_last:
  assumes "ntz_window x l 2 (n, y)" "bit x l" "\<forall>i<l. \<not> bit x i" "l < 32"
  shows "unat (n - (y AND 1)) = l"
proof -
  from assms(1) obtain pos where n: "n = of_nat (Suc pos)" and y: "y = drop_bit pos x"
    and pos: "pos \<le> l" "l < pos + 2"
    by (auto simp: ntz_window_def)
  have "y AND 1 = of_bool (bit x pos)"
    by (simp add: y and_one_eq mod_2_eq_odd bit_iff_odd_drop_bit)
  moreover from pos assms(2,3) have "l = (if bit x pos then pos else Suc pos)"
    by (cases "l = pos") (auto simp: le_less)
  moreover have "unat (of_nat (Suc l) :: u32) = Suc l" "unat (of_nat l :: u32) = l"
    using assms(4) by (simp_all add: unat_of_nat del: of_nat_Suc)
  ultimately show ?thesis
    using n by (auto split: if_splits)
qed

lemma ex_lowest_bit:
  fixes x :: "'a::len word"
  assumes "x \<noteq> 0"
  shows "\<exists>l<LENGTH('a). bit x l \<and> (\<forall>i<l. \<not> bit x i)"
proof -
  from assms obtain i where "bit x i" by (auto simp: bit_eq_iff)
  then have "bit x (LEAST i. bit x i)" "\<forall>j<(LEAST i. bit x i). \<not> bit x j"
    by (auto intro: LeastI dest: not_less_Least)
  then show ?thesis using bit_imp_le_length by blast
qed

lemma ntz_lowest:
  assumes "bit x l" "\<forall>i<l. \<not> bit x i" "l < 32"
  shows "unat (ntz x) = l"
proof -
  note step = ntz_step_window [where x = x and l = l, OF _ assms]
  have "x \<noteq> 0" using assms(1) by auto
  have w0: "ntz_window x l (2 * 16) (1, x)"
    using assms(3) by (auto simp: ntz_window_def intro!: exI [of _ 0])
  have w1: "ntz_window x l (2 * 8) (ntz_step (mask 16) 16 (1, x))"
    using step [OF w0] by simp
  have w2: "ntz_window x l (2 * 4) (ntz_step (mask 8) 8 (ntz_step (mask 16) 16 (1, x)))"
    using step [OF w1] by simp
  have w3: "ntz_window x l (2 * 2) (ntz_step (mask 4) 4 (ntz_step (mask 8) 8 (ntz_step (mask 16) 16 (1, x))))"
    using step [OF w2] by simp
  have w4: "ntz_window x l 2
      (ntz_step (mask 2) 2 (ntz_step (mask 4) 4 (ntz_step (mask 8) 8 (ntz_step (mask 16) 16 (1, x)))))"
    using step [OF w3] by simp
  obtain n y where ny: "ntz_step (mask 2) 2 (ntz_step (mask 4) 4
      (ntz_step (mask 8) 8 (ntz_step (mask 16) 16 (1, x)))) = (n, y)"
    by fastforce
  have masks: "mask 16 = (0xFFFF :: u32)" "mask 8 = (0xFF :: u32)" "mask 4 = (0xF :: u32)"
    "mask 2 = (0x3 :: u32)" by (simp_all add: mask_eq_exp_minus_1)
  have "ntz x = n - (y AND 1)"
    using \<open>x \<noteq> 0\<close> ny unfolding masks by (simp add: ntz_def)
  then show ?thesis
    using ntz_window_last [OF w4 [unfolded ny] assms] by simp
qed

lemma ntz_isolated:
  assumes "l < 32"
  shows "unat (ntz (push_bit l 1)) = l"
  using assms by (intro ntz_lowest) (auto simp: bit_simps)

section \<open>Population count\<close>

text \<open>
  The value is read as a sequence of fields of \<open>w\<close> bits. \<open>field_sum w n v\<close> adds the first
  \<open>n\<close> fields; \<open>fold_fields w n v\<close> is what one line of \<open>count_set_bits\<close> makes of \<open>2 n\<close>
  fields: \<open>n\<close> fields of twice the width, each the sum of two neighbours.
\<close>

fun field_sum :: "nat \<Rightarrow> nat \<Rightarrow> nat \<Rightarrow> nat" where
  "field_sum w 0 v = 0"
| "field_sum w (Suc n) v = v mod 2 ^ w + field_sum w n (v div 2 ^ w)"

fun fold_fields :: "nat \<Rightarrow> nat \<Rightarrow> nat \<Rightarrow> nat" where
  "fold_fields w 0 v = 0"
| "fold_fields w (Suc n) v =
     (v mod 2 ^ w + v div 2 ^ w mod 2 ^ w) + 2 ^ (2 * w) * fold_fields w n (v div 2 ^ (2 * w))"

fun field_mask :: "nat \<Rightarrow> nat \<Rightarrow> nat" where
  "field_mask w 0 = 0"
| "field_mask w (Suc n) = mask w + 2 ^ (2 * w) * field_mask w n"

lemma two_fields_fit:
  assumes "0 < w"
  shows "v mod 2 ^ w + v div 2 ^ w mod 2 ^ w < (2::nat) ^ (2 * w)"
proof -
  have "v mod 2 ^ w + v div 2 ^ w mod 2 ^ w \<le> 2 * (2 ^ w - 1)"
    by (metis (no_types, lifting) add_mono diff_Suc_1 le_simps(2) mod_less_divisor mult_2
        Suc_diff_1 zero_less_numeral zero_less_power)
  also have "\<dots> < 2 * 2 ^ w" by simp
  also have "\<dots> \<le> 2 ^ (2 * w)"
    using assms by (simp add: power_increasing flip: power_Suc)
  finally show ?thesis .
qed

lemma field_sum_fold:
  assumes "0 < w"
  shows "field_sum (2 * w) n (fold_fields w n v) = field_sum w (2 * n) v"
proof (induction n arbitrary: v)
  case 0
  then show ?case by simp
next
  case (Suc n)
  note lt = two_fields_fit [OF assms, of v]
  have "v div 2 ^ w div 2 ^ w = v div 2 ^ (2 * w)"
    by (simp add: div_mult2_eq power_add mult_2)
  then show ?case
    using lt Suc.IH by (simp add: div_mult_self1 mult.commute [of "2 ^ (2 * w)"])
qed

lemma nat_and_split:
  fixes a b c d :: nat
  assumes "a < 2 ^ k" "b < 2 ^ k"
  shows "(a + 2 ^ k * c) AND (b + 2 ^ k * d) = (a AND b) + 2 ^ k * (c AND d)"
    (is "?l = _")
proof -
  have "?l mod 2 ^ k = a AND b"
    using assms by (simp add: take_bit_and flip: take_bit_eq_mod)
      (simp add: take_bit_eq_mod)
  moreover have "?l div 2 ^ k = c AND d"
    using assms by (simp add: drop_bit_and flip: drop_bit_eq_div)
      (simp add: drop_bit_eq_div)
  ultimately show ?thesis
    by (metis add.commute mult.commute div_mult_mod_eq)
qed

lemma and_field_mask_Suc:
  "v AND field_mask w (Suc n) = v mod 2 ^ w + 2 ^ (2 * w) * (v div 2 ^ (2 * w) AND field_mask w n)"
proof -
  have m: "mask w < (2::nat) ^ (2 * w)"
    by (rule less_le_trans [of _ "2 ^ w"]) (simp_all add: mask_eq_exp_minus_1)
  have "v = v mod 2 ^ (2 * w) + 2 ^ (2 * w) * (v div 2 ^ (2 * w))" by simp
  then have "v AND field_mask w (Suc n)
      = (v mod 2 ^ (2 * w) AND mask w) + 2 ^ (2 * w) * (v div 2 ^ (2 * w) AND field_mask w n)"
    using nat_and_split [of "v mod 2 ^ (2 * w)" "2 * w" "mask w" "v div 2 ^ (2 * w)" "field_mask w n"] m
    by simp
  moreover have "v mod 2 ^ (2 * w) AND mask w = v mod 2 ^ w"
    by (simp add: take_bit_take_bit flip: take_bit_eq_mask take_bit_eq_mod)
  ultimately show ?thesis by simp
qed

lemma fold_fields_mask:
  "fold_fields w n v = (v AND field_mask w n) + (v div 2 ^ w AND field_mask w n)"
proof (induction n arbitrary: v)
  case 0
  then show ?case by simp
next
  case (Suc n)
  have "v div 2 ^ w div 2 ^ (2 * w) = v div 2 ^ (2 * w) div 2 ^ w"
    by (metis add.commute div_mult2_eq power_add)
  then show ?case
    using Suc.IH [of "v div 2 ^ (2 * w)"]
    by (simp add: and_field_mask_Suc algebra_simps del: field_mask.simps)
qed

lemma fold_fields_less:
  assumes "0 < w"
  shows "fold_fields w n v < 2 ^ (2 * w * n)"
proof (induction n arbitrary: v)
  case 0
  then show ?case by simp
next
  case (Suc n)
  have "fold_fields w n (v div 2 ^ (2 * w)) + 1 \<le> 2 ^ (2 * w * n)"
    using Suc.IH [of "v div 2 ^ (2 * w)"] by simp
  then have "2 ^ (2 * w) * (fold_fields w n (v div 2 ^ (2 * w)) + 1) \<le> 2 ^ (2 * w) * 2 ^ (2 * w * n)"
    by (rule mult_le_mono2)
  then show ?case
    using two_fields_fit [OF assms, of v] by (simp add: power_add algebra_simps)
qed

lemma fold_fields_word:
  fixes v M :: u32
  assumes "0 < w" "2 * w * n = 32" and m: "unat M = field_mask w n"
  shows "unat ((v AND M) + (drop_bit w v AND M)) = fold_fields w n (unat v)"
proof -
  have "unat (v AND M) = unat v AND field_mask w n"
    "unat (drop_bit w v AND M) = unat v div 2 ^ w AND field_mask w n"
    by (simp_all add: unsigned_and_eq m unat_drop_bit_eq flip: drop_bit_eq_div)
  then show ?thesis
    using fold_fields_less [OF assms(1), of n "unat v"] assms(2)
    by (simp add: unat_word_ariths fold_fields_mask)
qed

lemma field_sum_step:
  fixes v M :: u32
  assumes "0 < w" "2 * w * n = 32" "unat M = field_mask w n"
  shows "field_sum (2 * w) n (unat ((v AND M) + (drop_bit w v AND M))) = field_sum w (2 * n) (unat v)"
  using assms by (simp add: fold_fields_word field_sum_fold)

lemma field_sum_bits:
  "field_sum 1 n v = card {i. i < n \<and> bit v i}"
proof (induction n arbitrary: v)
  case 0
  then show ?case by simp
next
  case (Suc n)
  have "{i. i < Suc n \<and> bit v i} = (if odd v then {0} else {}) \<union> Suc ` {i. i < n \<and> bit (v div 2) i}"
    by (auto simp: bit_Suc bit_0 image_iff less_Suc_eq_0_disj)
  then have "card {i. i < Suc n \<and> bit v i} = v mod 2 + card {i. i < n \<and> bit (v div 2) i}"
    by (auto simp: card_image card_insert_if mod_2_eq_odd)
  then show ?case using Suc.IH by simp
qed

lemma field_mask_unfold:
  "0 < n \<Longrightarrow> field_mask w n = 2 ^ w - 1 + 2 ^ (2 * w) * field_mask w (n - 1)"
  by (cases n) (simp_all add: mask_eq_exp_minus_1)

lemma count_set_bits_card: "unat (count_set_bits x) = card {i. i < 32 \<and> bit x i}"
proof -
  define v1 where "v1 = (x AND 0x55555555) + (drop_bit 1 x AND 0x55555555)"
  define v2 where "v2 = (v1 AND 0x33333333) + (drop_bit 2 v1 AND 0x33333333)"
  define v3 where "v3 = (v2 AND 0x0F0F0F0F) + (drop_bit 4 v2 AND 0x0F0F0F0F)"
  define v4 where "v4 = (v3 AND 0x00FF00FF) + (drop_bit 8 v3 AND 0x00FF00FF)"
  define v5 where "v5 = (v4 AND 0x0000FFFF) + (drop_bit 16 v4 AND 0x0000FFFF)"
  have "field_sum 2 16 (unat v1) = field_sum 1 32 (unat x)"
    using field_sum_step [of 1 16 "0x55555555" x] by (simp add: v1_def field_mask_unfold mask_eq_exp_minus_1)
  moreover have "field_sum 4 8 (unat v2) = field_sum 2 16 (unat v1)"
    using field_sum_step [of 2 8 "0x33333333" v1] by (simp add: v2_def field_mask_unfold mask_eq_exp_minus_1)
  moreover have "field_sum 8 4 (unat v3) = field_sum 4 8 (unat v2)"
    using field_sum_step [of 4 4 "0x0F0F0F0F" v2] by (simp add: v3_def field_mask_unfold mask_eq_exp_minus_1)
  moreover have "field_sum 16 2 (unat v4) = field_sum 8 4 (unat v3)"
    using field_sum_step [of 8 2 "0x00FF00FF" v3] by (simp add: v4_def field_mask_unfold mask_eq_exp_minus_1)
  moreover have "field_sum 32 1 (unat v5) = field_sum 16 2 (unat v4)"
    using field_sum_step [of 16 1 "0x0000FFFF" v4] by (simp add: v5_def field_mask_unfold mask_eq_exp_minus_1)
  moreover have "field_sum 32 1 (unat v5) = unat v5"
    using unat_less_exp [of v5] by simp
  moreover have "count_set_bits x = v5"
    unfolding count_set_bits_def Let_def v5_def v4_def v3_def v2_def v1_def by (rule refl)
  ultimately show ?thesis
    using field_sum_bits [of 32 "unat x"] by (simp add: bit_unsigned_iff)
qed

end
