(* ===== verification/Fla_Util.thy ===== *)
theory Fla_Util
  imports Fla_Prelude
begin

text \<open>
  \<open>src/src/flexalloc_util.h\<close> and \<open>src/src/flexalloc_util.c\<close>: ceiling division, the error
  helpers, the bounded string functions and the search for the largest number of elements
  that fits beside its own metadata. A character buffer is a list of bytes; a read past
  its end has no result.
\<close>

section \<open>Definitions\<close>

text \<open>The macro \<open>FLA_CEIL_DIV\<close>, at the width its operands have where it is used.\<close>

definition FLA_CEIL_DIV :: "'a::len word \<Rightarrow> 'a word \<Rightarrow> 'a word" where
  "FLA_CEIL_DIV x y = (x + y - 1) div y"

text \<open>\<open>FLA_ERRNO_VAL\<close> and the value \<open>fla_err_errno_fl\<close> returns for a condition and \<open>errno\<close>.\<close>

definition FLA_ERRNO_VAL :: "int \<Rightarrow> int" where
  "FLA_ERRNO_VAL e = (if e = 0 then 0 else if e > 0 then - e else -1)"

definition fla_err_errno_fl :: "int \<Rightarrow> int \<Rightarrow> int" where
  "fla_err_errno_fl condition errno =
     (let e = FLA_ERRNO_VAL errno
      in if condition \<noteq> 0 then (if e \<noteq> 0 then e else condition) else condition)"

text \<open>\<open>fla_strnlen\<close>: the loop looks at offset \<open>off\<close> of the buffer.\<close>

function fla_strnlen_from :: "u8 list \<Rightarrow> nat \<Rightarrow> nat \<Rightarrow> nat option" where
  "fla_strnlen_from s maxlen off =
     (if off < maxlen
      then do {
        c \<leftarrow> rd s off;
        if c = 0 then Some off else fla_strnlen_from s maxlen (Suc off)
      }
      else Some maxlen)"
  by pat_completeness auto
termination
  by (relation "measure (\<lambda>(s, maxlen, off). maxlen - off)") auto

definition fla_strnlen :: "u8 list \<Rightarrow> nat \<Rightarrow> nat option" where
  "fla_strnlen s maxlen = fla_strnlen_from s maxlen 0"

text \<open>The C string at the start of a buffer, and its \<open>strlen\<close>.\<close>

definition cstr :: "u8 list \<Rightarrow> u8 list" where
  "cstr s = takeWhile (\<lambda>c. c \<noteq> 0) s"

text \<open>
  \<open>fla_strndup\<close> copies \<open>len\<close> bytes and terminates them; \<open>alloc_ok\<close> is whether
  \<open>malloc\<close> gave memory. The outer option is a read out of range, the inner one the
  \<open>NULL\<close> result.
\<close>

definition fla_strndup :: "bool \<Rightarrow> u8 list \<Rightarrow> nat \<Rightarrow> u8 list option option" where
  "fla_strndup alloc_ok s len =
     (if \<not> alloc_ok then Some None
      else if length s < len then None
      else Some (Some (take len s @ [0])))"

definition fla_strdup :: "bool \<Rightarrow> u8 list \<Rightarrow> u8 list option option" where
  "fla_strdup alloc_ok s =
     (if 0 \<in> set s then fla_strndup alloc_ok s (length (cstr s)) else None)"

text \<open>
  \<open>fla_nelems_max\<close>: the products are taken at 32 bits, as the operands' types say, and the
  difference at 64 bits. \<open>calc_md\<close> stands for the callback with its variadic arguments
  applied.
\<close>

function fla_nelems_loop :: "u64 \<Rightarrow> u32 \<Rightarrow> (u32 \<Rightarrow> u32) \<Rightarrow> u32 \<Rightarrow> u32" where
  "fla_nelems_loop units_total elem_sz calc_md nelems =
     (if nelems = 0 then 0
      else if ucast (calc_md nelems) \<le> units_total - ucast (nelems * elem_sz) then nelems
      else fla_nelems_loop units_total elem_sz calc_md (nelems - 1))"
  by pat_completeness auto
termination
  by (relation "measure (\<lambda>(_, _, _, n). unat n)") (auto simp: unat_dec unat_gt_0)

definition fla_nelems_max :: "u64 \<Rightarrow> u32 \<Rightarrow> (u32 \<Rightarrow> u32) \<Rightarrow> u32" where
  "fla_nelems_max units_total elem_sz calc_md =
     fla_nelems_loop units_total elem_sz calc_md (ucast (units_total div ucast elem_sz))"

declare fla_strnlen_from.simps [simp del] fla_nelems_loop.simps [simp del]

section \<open>Ceiling division\<close>

lemma unat_FLA_CEIL_DIV:
  fixes x y :: "'a::len word"
  assumes "0 < unat y" "unat x + unat y \<le> 2 ^ LENGTH('a)"
  shows "unat (FLA_CEIL_DIV x y) = (unat x + unat y - 1) div unat y"
proof -
  have "y \<noteq> 0" using assms(1) by auto
  have "unat (x + (y - 1)) = unat x + (unat y - 1)"
    using assms \<open>y \<noteq> 0\<close> by (subst unat_add_no_wrap) (auto simp: unat_dec)
  then show ?thesis
    using assms by (simp add: FLA_CEIL_DIV_def unat_div add_diff_eq)
qed

lemma ceil_div_bounds:
  fixes x y :: nat
  assumes "0 < y"
  shows "x \<le> (x + y - 1) div y * y" "(x + y - 1) div y * y < x + y"
proof -
  have "(x + y - 1) div y * y + (x + y - 1) mod y = x + y - 1" by simp
  moreover have "(x + y - 1) mod y < y" using assms by simp
  ultimately show "x \<le> (x + y - 1) div y * y" "(x + y - 1) div y * y < x + y"
    using assms by linarith+
qed

lemma ceil_div_mono: "x \<le> x' \<Longrightarrow> (x + y - 1) div y \<le> (x' + y - 1) div (y::nat)"
  by (intro div_le_mono) simp

section \<open>Bounded strings\<close>

lemma fla_strnlen_from_eq:
  assumes "off \<le> maxlen" "maxlen \<le> length s \<or> 0 \<in> set (drop off s)"
  shows "fla_strnlen_from s maxlen off = Some (off + length (takeWhile (\<lambda>c. c \<noteq> 0) (take (maxlen - off) (drop off s))))"
  using assms
proof (induction s maxlen off rule: fla_strnlen_from.induct)
  case (1 s maxlen off)
  show ?case
  proof (cases "off < maxlen")
    case True
    have len: "off < length s"
      using True 1(3) by (cases "off < length s") auto
    then have dr: "drop off s = s ! off # drop (Suc off) s" by (simp add: Cons_nth_drop_Suc)
    have tk: "take (maxlen - off) (drop off s) = s ! off # take (maxlen - Suc off) (drop (Suc off) s)"
      using True by (simp add: dr take_Cons' Suc_diff_Suc)
    show ?thesis
    proof (cases "s ! off = 0")
      case True
      with len \<open>off < maxlen\<close> show ?thesis
        by (subst fla_strnlen_from.simps) (simp add: tk)
    next
      case False
      have "maxlen \<le> length s \<or> 0 \<in> set (drop (Suc off) s)"
        using 1(3) False by (auto simp: dr)
      with 1(1) [OF True, of "s ! off"] False len True show ?thesis
        by (subst fla_strnlen_from.simps) (simp add: tk)
    qed
  next
    case False
    with 1(2) show ?thesis by (subst fla_strnlen_from.simps) simp
  qed
qed

lemma cstr_no_zero: "0 \<notin> set (cstr s)"
  by (auto simp: cstr_def dest: set_takeWhileD)

lemma fla_strdup_cstr:
  assumes "0 \<in> set s"
  shows "fla_strdup True s = Some (Some (cstr s @ [0]))"
  using assms
  by (simp add: fla_strdup_def fla_strndup_def cstr_def takeWhile_eq_take [symmetric]
      length_takeWhile_le not_less)

section \<open>The largest number of elements that fits\<close>

lemma fla_nelems_loop_le: "unat (fla_nelems_loop t sz f n) \<le> unat n"
proof (induction t sz f n rule: fla_nelems_loop.induct)
  case (1 t sz f n)
  show ?case
  proof (cases "n = 0 \<or> ucast (f n) \<le> t - ucast (n * sz)")
    case True
    then show ?thesis by (subst fla_nelems_loop.simps) auto
  next
    case False
    then show ?thesis
      using "1.IH" by (subst fla_nelems_loop.simps) (auto simp: unat_dec intro: order_trans)
  qed
qed

lemma fla_nelems_fits_iff:
  fixes t :: u64
  assumes "unat t < 2 ^ 32" "unat n * unat sz \<le> unat t"
  shows "ucast (f n :: u32) \<le> t - ucast (n * sz :: u32)
    \<longleftrightarrow> unat n * unat sz + unat (f n) \<le> unat t"
proof -
  have p: "unat (ucast (n * sz) :: u64) = unat n * unat sz"
    using assms by (simp add: word_nat)
  then have "unat (t - ucast (n * sz)) = unat t - unat n * unat sz"
    using assms by (simp add: word_nat)
  then show ?thesis
    using assms(2) by (auto simp: word_le_nat_alt word_nat)
qed

lemma fla_nelems_loop_spec:
  assumes "unat t < 2 ^ 32" "unat n * unat sz \<le> unat t"
  shows "(let r = unat (fla_nelems_loop t sz f n) in
      (r \<noteq> 0 \<longrightarrow> r * unat sz + unat (f (of_nat r)) \<le> unat t)
    \<and> (\<forall>m. r < m \<and> m \<le> unat n \<longrightarrow> unat t < m * unat sz + unat (f (of_nat m))))"
  using assms
proof (induction t sz f n rule: fla_nelems_loop.induct)
  case (1 t sz f n)
  note fits = fla_nelems_fits_iff [OF "1.prems", of f]
  consider "n = 0" | "n \<noteq> 0" "unat n * unat sz + unat (f n) \<le> unat t"
    | "n \<noteq> 0" "\<not> unat n * unat sz + unat (f n) \<le> unat t" by blast
  then show ?case
  proof cases
    case 3
    have "unat (n - 1) * unat sz \<le> unat t"
      using "1.prems"(2) by (simp add: unat_dec[OF 3(1)] diff_mult_distrib)
    note IH = "1.IH" [OF 3(1), unfolded fits, OF 3(2) "1.prems"(1) this]
    have "m \<le> unat n \<longleftrightarrow> m \<le> unat (n - 1) \<or> m = unat n" for m
      using 3(1) by (auto simp: unat_dec unat_gt_0)
    moreover have "fla_nelems_loop t sz f n = fla_nelems_loop t sz f (n - 1)"
      using 3 fits by (simp add: fla_nelems_loop.simps [of t sz f n])
    ultimately show ?thesis
      using IH 3 by (auto simp: Let_def not_le)
  next
    case 1
    then have "fla_nelems_loop t sz f n = 0" by (subst fla_nelems_loop.simps) simp
    with 1 show ?thesis by simp
  next
    case 2
    then have "fla_nelems_loop t sz f n = n"
      using fits by (simp add: fla_nelems_loop.simps [of t sz f n])
    with 2 show ?thesis by simp
  qed
qed

lemma fla_nelems_max_start:
  fixes t :: u64 and sz :: u32
  assumes "unat t < 2 ^ 32"
  shows "unat (ucast (t div ucast sz) :: u32) = unat t div unat sz"
proof -
  have "unat (t div ucast sz) = unat t div unat sz"
    by (simp add: unat_div word_nat)
  moreover have "unat t div unat sz < 2 ^ 32"
    using assms div_le_dividend le_less_trans by blast
  ultimately show ?thesis by (simp add: word_nat)
qed

lemma fla_nelems_max_spec:
  assumes "unat t < 2 ^ 32"
  shows "(let n = unat (fla_nelems_max t sz f) in
      (n \<noteq> 0 \<longrightarrow> n * unat sz + unat (f (of_nat n)) \<le> unat t)
    \<and> (\<forall>m. n < m \<and> m \<le> unat t div unat sz \<longrightarrow> unat t < m * unat sz + unat (f (of_nat m))))"
  using fla_nelems_loop_spec [of t "ucast (t div ucast sz)" sz f] assms
  by (simp add: fla_nelems_max_def fla_nelems_max_start)

end
