(* ===== verification/Fla_Freelist.thy ===== *)
theory Fla_Freelist
  imports Fla_Bits Fla_Util
begin

text \<open>
  \<open>src/src/flexalloc_freelist.c\<close>: a freelist is an array of 32-bit words. Word 0 holds the
  number of entries, the following words one bit per entry, 1 for free. The array is the
  buffer that backs the freelist and may be longer than the freelist needs (the slab cache
  and the pool segment round it up to logical blocks).

  The abstraction is the set of free indices (\<open>flist_free\<close>). Allocation is first fit,
  freeing inserts the index, and both keep the bits beyond the last entry clear
  (\<open>flist_inv\<close>). The locale \<open>slot_allocator\<close> is the contract the pool table and the
  slab cache rely on.
\<close>

section \<open>Definitions\<close>

type_synonym freelist = "u32 list"

definition FLA_FREELIST_U32_ELEMS :: "u32 \<Rightarrow> u64" where
  "FLA_FREELIST_U32_ELEMS b = FLA_CEIL_DIV (ucast b) (4 * 8)"

definition fla_flist_size :: "u32 \<Rightarrow> u64" where
  "fla_flist_size len = 4 * (1 + FLA_FREELIST_U32_ELEMS len)"

definition fla_flist_len :: "freelist \<Rightarrow> u32 option" where
  "fla_flist_len flist = rd flist 0"

text \<open>The pointer loop of \<open>fla_flist_num_reserved\<close>, from \<open>ptr\<close> up to \<open>end\<close>.\<close>

function flist_count_free :: "freelist \<Rightarrow> nat \<Rightarrow> nat \<Rightarrow> u32 \<Rightarrow> u32 option" where
  "flist_count_free flist ptr end_ptr free_entries =
     (if ptr = end_ptr then Some free_entries
      else do {
        w \<leftarrow> rd flist ptr;
        flist_count_free flist (Suc ptr) end_ptr (free_entries + count_set_bits w)
      })"
  by pat_completeness auto
termination
  by (relation "measure (\<lambda>(f, p, _). length f - p)") (auto dest: rd_SomeD)

definition fla_flist_num_reserved :: "freelist \<Rightarrow> u32 option" where
  "fla_flist_num_reserved flist = do {
     len \<leftarrow> rd flist 0;
     free_entries \<leftarrow> flist_count_free flist 1 (unat (fla_flist_size len div 4)) 0;
     Some (len - free_entries)
   }"

text \<open>\<open>fla_flist_reset\<close>: the pointer loop writes ones up to the last word.\<close>

function flist_fill :: "freelist \<Rightarrow> nat \<Rightarrow> nat \<Rightarrow> freelist option" where
  "flist_fill flist elem elem_last =
     (if elem = elem_last then Some flist
      else do {
        flist \<leftarrow> wr flist elem (NOT 0);
        flist_fill flist (Suc elem) elem_last
      })"
  by pat_completeness auto
termination
  by (relation "measure (\<lambda>(f, e, _). length f - e)") (auto dest!: wr_SomeD)

definition fla_flist_reset :: "freelist \<Rightarrow> freelist option" where
  "fla_flist_reset flist = do {
     len \<leftarrow> rd flist 0;
     let elems = (ucast (FLA_FREELIST_U32_ELEMS len) :: u32);
     let elem_last = unat elems;
     flist \<leftarrow> flist_fill flist 1 elem_last;
     let unused_spots = (ucast (ucast elems * 4 * 8 - ucast len :: u64) :: u32);
     wr flist elem_last (drop_bit (unat unused_spots) (NOT 0))
   }"

definition fla_flist_init :: "freelist \<Rightarrow> u32 \<Rightarrow> freelist option" where
  "fla_flist_init flist len = do {
     flist \<leftarrow> wr flist 0 len;
     fla_flist_reset flist
   }"

text \<open>
  \<open>fla_flist_new\<close>: \<open>alloc_ok\<close> is whether \<open>malloc\<close> succeeded, \<open>uninit\<close> the contents of
  the memory it returned.
\<close>

definition fla_flist_new :: "bool \<Rightarrow> (nat \<Rightarrow> u32) \<Rightarrow> u32 \<Rightarrow> (errcode \<times> freelist option) option" where
  "fla_flist_new alloc_ok uninit len =
     (if \<not> alloc_ok then Some (- ENOMEM, None)
      else do {
        flist \<leftarrow> fla_flist_init (map uninit [0..<unat (fla_flist_size len div 4)]) len;
        Some (0, Some flist)
      })"

definition fla_flist_load :: "u32 list \<Rightarrow> freelist" where
  "fla_flist_load data = data"

text \<open>\<open>fla_flist_entry_alloc\<close>: take the rightmost set bit of the first non-zero word.\<close>

function flist_entry_alloc_from :: "freelist \<Rightarrow> nat \<Rightarrow> nat \<Rightarrow> (int \<times> freelist) option" where
  "flist_entry_alloc_from flist elems i =
     (if i < elems
      then do {
        elem \<leftarrow> rd flist (1 + i);
        if elem = 0 then flist_entry_alloc_from flist elems (Suc i)
        else do {
          let wndx = elem AND (- elem);
          flist \<leftarrow> wr flist (1 + i) (elem AND NOT wndx);
          Some (c_int (of_nat i * 4 * 8 + ucast (ntz wndx) :: u64), flist)
        }
      }
      else Some (-1, flist))"
  by pat_completeness auto
termination
  by (relation "measure (\<lambda>(_, n, i). n - i)") auto

definition fla_flist_entry_alloc :: "freelist \<Rightarrow> u32 \<Rightarrow> (int \<times> freelist) option" where
  "fla_flist_entry_alloc flist elems = flist_entry_alloc_from flist (unat elems) 0"

text \<open>The counting loop of \<open>fla_flist_entries_alloc\<close>; the counter has 32 bits.\<close>

function flist_alloc_more :: "freelist \<Rightarrow> u32 \<Rightarrow> u32 \<Rightarrow> u32 \<Rightarrow> int \<Rightarrow> (int \<times> freelist) option" where
  "flist_alloc_more flist elems num alloc_count alloc_ret =
     (if alloc_count = num then Some (alloc_ret, flist)
      else do {
        (r, flist) \<leftarrow> fla_flist_entry_alloc flist elems;
        if r = -1 then Some (-1, flist)
        else flist_alloc_more flist elems num (alloc_count + 1) alloc_ret
      })"
  by pat_completeness auto
termination
  by (relation "measure (\<lambda>(_, _, num, c, _). unat (num - c))")
    (auto simp: diff_diff_eq [symmetric] unat_dec unat_gt_0 simp flip: add_diff_eq diff_diff_eq)

definition fla_flist_entries_alloc :: "freelist \<Rightarrow> u32 \<Rightarrow> (int \<times> freelist) option" where
  "fla_flist_entries_alloc flist num = do {
     len \<leftarrow> rd flist 0;
     let elems = (ucast (FLA_FREELIST_U32_ELEMS len) :: u32);
     (alloc_ret, flist) \<leftarrow> fla_flist_entry_alloc flist elems;
     if num = 1 then Some (alloc_ret, flist)
     else flist_alloc_more flist elems num 1 alloc_ret
   }"

text \<open>\<open>fla_flist_entry_free\<close>: the word is found by subtracting 32 from the index.\<close>

function flist_seek :: "nat \<Rightarrow> u32 \<Rightarrow> nat \<times> u32" where
  "flist_seek elem ndx = (if 32 \<le> ndx then flist_seek (Suc elem) (ndx - 32) else (elem, ndx))"
  by pat_completeness auto
termination
  by (relation "measure (\<lambda>(_, n). unat n)")
    (auto simp: unat_sub word_le_nat_alt)

definition fla_flist_entry_free :: "freelist \<Rightarrow> u32 \<Rightarrow> (int \<times> freelist) option" where
  "fla_flist_entry_free flist ndx = do {
     len \<leftarrow> rd flist 0;
     if ndx > len then Some (-1, flist)
     else do {
       let (elem, ndx) = flist_seek 1 ndx;
       w \<leftarrow> rd flist elem;
       flist \<leftarrow> wr flist elem (w OR push_bit (unat ndx) 1);
       Some (0, flist)
     }
   }"

fun flist_entries_free_loop :: "freelist \<Rightarrow> u32 \<Rightarrow> nat \<Rightarrow> nat \<Rightarrow> (int \<times> freelist) option" where
  "flist_entries_free_loop flist ndx i 0 = Some (0, flist)"
| "flist_entries_free_loop flist ndx i (Suc left) = do {
     (r, flist) \<leftarrow> fla_flist_entry_free flist (ndx + of_nat i);
     if r \<noteq> 0 then Some (-1, flist) else flist_entries_free_loop flist ndx (Suc i) left
   }"

definition fla_flist_entries_free :: "freelist \<Rightarrow> u32 \<Rightarrow> u32 \<Rightarrow> (int \<times> freelist) option" where
  "fla_flist_entries_free flist ndx num = flist_entries_free_loop flist ndx 0 (unat num)"

text \<open>
  \<open>fla_flist_search_wfunc\<close>: the callback \<open>f\<close> gets the caller's state with the index, its
  return value is kept in an unsigned variable. \<open>found\<close> is \<open>None\<close> when the function
  returned before it wrote it.
\<close>

type_synonym 's flist_callback = "'s \<Rightarrow> u32 \<Rightarrow> (u32 \<times> 's) option"

datatype 's search_step = Search_Return int u32 's | Search_Next u32 's

fun flist_search_word ::
  "'s flist_callback \<Rightarrow> u32 \<Rightarrow> nat \<Rightarrow> u32 \<Rightarrow> u32 \<Rightarrow> 's \<Rightarrow> 's search_step option" where
  "flist_search_word f u32_elem 0 elem_cpy found s = Some (Search_Next found s)"
| "flist_search_word f u32_elem (Suc left) elem_cpy found s =
     (if elem_cpy = 0xFFFFFFFF then Some (Search_Next found s)
      else do {
        let wndx = NOT elem_cpy AND (elem_cpy + 1);
        (ret, s) \<leftarrow> f s (ucast (ucast u32_elem * 4 * 8 + ucast (ntz wndx) :: u64));
        if ret = 1 then flist_search_word f u32_elem left (elem_cpy OR wndx) (found + ret) s
        else if ret = 0 then flist_search_word f u32_elem left (elem_cpy OR wndx) found s
        else Some (Search_Return (c_int ret) found s)
      })"

function flist_search_from ::
  "'s flist_callback \<Rightarrow> freelist \<Rightarrow> u32 \<Rightarrow> u32 \<Rightarrow> u32 \<Rightarrow> u32 \<Rightarrow> 's \<Rightarrow> (int \<times> u32 \<times> 's) option" where
  "flist_search_from f flist len u32_elems u32_elem found s =
     (if u32_elem < u32_elems
      then do {
        elem \<leftarrow> rd flist (1 + unat u32_elem);
        let elem_cpy = (if u32_elem + 1 = u32_elems
                        then elem OR push_bit (unat (len mod 32)) (NOT 0) else elem);
        st \<leftarrow> (if elem_cpy = 0xFFFFFFFF then Some (Search_Next found s)
               else flist_search_word f u32_elem 32 elem_cpy found s);
        (case st of
           Search_Return r found s \<Rightarrow> Some (r, found, s)
         | Search_Next found s \<Rightarrow> flist_search_from f flist len u32_elems (u32_elem + 1) found s)
      }
      else Some (0, found, s))"
  by pat_completeness auto
termination
  by (relation "measure (\<lambda>(_, _, _, n, i, _). unat n - unat i)")
    (auto simp: unat_inc_below intro!: diff_less_mono2 simp flip: word_less_nat_alt)

definition fla_flist_search_wfunc ::
  "freelist \<Rightarrow> u64 \<Rightarrow> 's flist_callback \<Rightarrow> 's \<Rightarrow> (int \<times> u32 option \<times> 's) option" where
  "fla_flist_search_wfunc flist flags f s = do {
     len \<leftarrow> rd flist 0;
     let u32_elems = (ucast (FLA_FREELIST_U32_ELEMS len) :: u32);
     if flags AND 1 = 0 then Some (- EINVAL, None, s)
     else do {
       (r, found, s) \<leftarrow> flist_search_from f flist len u32_elems 0 0 s;
       Some (r, Some found, s)
     }
   }"

declare flist_count_free.simps [simp del] flist_fill.simps [simp del]
  flist_entry_alloc_from.simps [simp del] flist_alloc_more.simps [simp del]
  flist_seek.simps [simp del] flist_search_from.simps [simp del]

section \<open>Abstraction: the set of free entries\<close>

abbreviation flist_words :: "nat \<Rightarrow> nat" where
  "flist_words n \<equiv> (n + 31) div 32"

definition flist_cap :: "freelist \<Rightarrow> nat" where
  "flist_cap f = unat (f ! 0)"

definition fbit :: "freelist \<Rightarrow> nat \<Rightarrow> bool" where
  "fbit f i \<longleftrightarrow> bit (f ! Suc (i div 32)) (i mod 32)"

definition flist_free :: "freelist \<Rightarrow> nat set" where
  "flist_free f = {i \<in> {..<flist_cap f}. fbit f i}"

definition flist_inv :: "freelist \<Rightarrow> bool" where
  "flist_inv f \<longleftrightarrow> 0 < flist_cap f \<and> flist_cap f < 2 ^ 31 \<and> flist_words (flist_cap f) < length f
     \<and> (\<forall>i\<in>{flist_cap f..<32 * flist_words (flist_cap f)}. \<not> fbit f i)"

text \<open>Taking and giving back one entry, on the words.\<close>

definition flist_clear :: "freelist \<Rightarrow> nat \<Rightarrow> freelist" where
  "flist_clear f m = f[Suc (m div 32) := f ! Suc (m div 32) AND NOT (push_bit (m mod 32) 1)]"

definition flist_set :: "freelist \<Rightarrow> nat \<Rightarrow> freelist" where
  "flist_set f m = f[Suc (m div 32) := f ! Suc (m div 32) OR push_bit (m mod 32) 1]"

lemma words_bounds: "n \<le> 32 * flist_words n" "i < n \<Longrightarrow> i div 32 < flist_words n"
  by auto

lemma FLA_FREELIST_U32_ELEMS_nat [word_nat]:
  "unat (FLA_FREELIST_U32_ELEMS b) = flist_words (unat b)"
proof -
  have "unat b < 2 ^ 32" using unat_less_exp [of b] by simp
  then show ?thesis
    unfolding FLA_FREELIST_U32_ELEMS_def
    by (subst unat_FLA_CEIL_DIV) (simp_all add: word_nat)
qed

lemma flist_elems_nat [word_nat]:
  "unat (ucast (FLA_FREELIST_U32_ELEMS b) :: u32) = flist_words (unat b)"
proof -
  have "unat b < 2 ^ 32" using unat_less_exp [of b] by simp
  then have "flist_words (unat b) < 2 ^ 32" by simp
  then show ?thesis by (simp add: word_nat)
qed

lemma fla_flist_size_nat [word_nat]:
  "unat (fla_flist_size b) = 4 * (1 + flist_words (unat b))"
proof -
  have "unat b < 2 ^ 32" using unat_less_exp [of b] by simp
  then show ?thesis
    by (simp add: fla_flist_size_def word_nat)
qed

lemma length_flist_clear [simp]: "length (flist_clear f m) = length f"
  by (simp add: flist_clear_def)

lemma length_flist_set [simp]: "length (flist_set f m) = length f"
  by (simp add: flist_set_def)

lemma flist_cap_clear [simp]: "flist_cap (flist_clear f m) = flist_cap f"
  by (simp add: flist_cap_def flist_clear_def)

lemma flist_cap_set [simp]: "flist_cap (flist_set f m) = flist_cap f"
  by (simp add: flist_cap_def flist_set_def)

lemma fbit_clear:
  assumes "Suc (m div 32) < length f"
  shows "fbit (flist_clear f m) i \<longleftrightarrow> fbit f i \<and> i \<noteq> m"
proof (cases "i div 32 = m div 32")
  case True
  then have "i = m \<longleftrightarrow> i mod 32 = m mod 32" by (metis div_mult_mod_eq)
  with True assms show ?thesis
    by (auto simp: fbit_def flist_clear_def bit_simps)
next
  case False
  then show ?thesis by (auto simp: fbit_def flist_clear_def)
qed

lemma fbit_set:
  assumes "Suc (m div 32) < length f"
  shows "fbit (flist_set f m) i \<longleftrightarrow> fbit f i \<or> i = m"
proof (cases "i div 32 = m div 32")
  case True
  then have "i = m \<longleftrightarrow> i mod 32 = m mod 32" by (metis div_mult_mod_eq)
  with True assms show ?thesis
    by (auto simp: fbit_def flist_set_def bit_simps)
next
  case False
  then show ?thesis by (auto simp: fbit_def flist_set_def)
qed

lemma flist_inv_slot: "flist_inv f \<Longrightarrow> m < flist_cap f \<Longrightarrow> Suc (m div 32) < length f"
  by (auto simp: flist_inv_def)

lemma flist_inv_clear: "flist_inv f \<Longrightarrow> m < flist_cap f \<Longrightarrow> flist_inv (flist_clear f m)"
  using flist_inv_slot [of f m] by (auto simp: flist_inv_def fbit_clear)

lemma flist_inv_set: "flist_inv f \<Longrightarrow> m < flist_cap f \<Longrightarrow> flist_inv (flist_set f m)"
  using flist_inv_slot [of f m] by (auto simp: flist_inv_def fbit_set)

lemma flist_free_clear:
  "flist_inv f \<Longrightarrow> m < flist_cap f \<Longrightarrow> flist_free (flist_clear f m) = flist_free f - {m}"
  using flist_inv_slot [of f m] by (auto simp: flist_free_def fbit_clear)

lemma flist_free_set:
  "flist_inv f \<Longrightarrow> m < flist_cap f \<Longrightarrow> flist_free (flist_set f m) = insert m (flist_free f)"
  using flist_inv_slot [of f m] by (auto simp: flist_free_def fbit_set)

lemma finite_flist_free [simp]: "finite (flist_free f)"
  by (simp add: flist_free_def)

lemma flist_free_less: "m \<in> flist_free f \<Longrightarrow> m < flist_cap f"
  by (simp add: flist_free_def)

section \<open>Allocation of one entry\<close>

lemma isolate_rightmost:
  fixes e :: "'a::len word"
  assumes "bit e l" "\<forall>i<l. \<not> bit e i" "l < LENGTH('a)"
  shows "e AND (- e) = push_bit l 1"
proof -
  define u where "u = e AND NOT (mask (Suc l))"
  have e: "e = u OR push_bit l 1"
  proof (rule bit_word_eqI)
    fix n assume "n < LENGTH('a)"
    then show "bit e n = bit (u OR push_bit l 1) n"
      using assms by (cases n l rule: linorder_cases) (auto simp: bit_simps u_def)
  qed
  have "u + push_bit l 1 = u OR push_bit l 1" "u + mask l = u OR mask l"
    by (rule disjunctive_add; auto simp: bit_simps u_def)+
  moreover have "push_bit l 1 = mask l + (1 :: 'a word)"
    by (simp add: mask_eq_exp_minus_1 push_bit_eq_mult)
  ultimately have "e = (u OR mask l) + 1" using e by (metis add.assoc)
  then have "e - 1 = u OR mask l" by simp
  then have ne: "- e = NOT (u OR mask l)" by (simp add: minus_eq_not_minus_1)
  show ?thesis
  proof (rule bit_word_eqI)
    fix n assume "n < LENGTH('a)"
    then show "bit (e AND - e) n = bit (push_bit l 1 :: 'a word) n"
      using assms unfolding ne
      by (cases n l rule: linorder_cases) (auto simp: bit_simps u_def)
  qed
qed

text \<open>
  The scan stops at the first word with a set bit; the entry it takes is the least free one
  from the word it starts at.
\<close>

lemma flist_word_zero_iff:
  "f ! Suc i = 0 \<longleftrightarrow> (\<forall>k\<in>{32 * i..<32 * Suc i}. \<not> fbit f k)"
proof
  assume "\<forall>k\<in>{32 * i..<32 * Suc i}. \<not> fbit f k"
  then have "\<not> bit (f ! Suc i) n" if "n < 32" for n
    using that by (auto simp: fbit_def dest: bspec [of _ _ "32 * i + n"])
  then show "f ! Suc i = 0" by (intro bit_word_eqI) simp
next
  assume "f ! Suc i = 0"
  moreover have "k div 32 = i" if "k \<in> {32 * i..<32 * Suc i}" for k
    using that by (auto intro: div_nat_eqI)
  ultimately show "\<forall>k\<in>{32 * i..<32 * Suc i}. \<not> fbit f k"
    by (auto simp: fbit_def)
qed

lemma flist_alloc_hit:
  assumes "f ! Suc i \<noteq> 0" "Suc i < length f" "32 * i + 31 < 2 ^ 31" "i < elems"
  shows "\<exists>m. m div 32 = i \<and> fbit f m \<and> (\<forall>k\<in>{32 * i..<m}. \<not> fbit f k)
    \<and> flist_entry_alloc_from f elems i = Some (int m, flist_clear f m)"
proof -
  from ex_lowest_bit [OF assms(1)] obtain l where l: "l < 32" "bit (f ! Suc i) l"
    "\<forall>j<l. \<not> bit (f ! Suc i) j" by auto
  define m where "m = 32 * i + l"
  have m: "m div 32 = i" "m mod 32 = l" using l(1) by (auto simp: m_def)
  have iso: "f ! Suc i AND (- (f ! Suc i)) = push_bit l 1"
    using l by (intro isolate_rightmost) auto
  have "unat (of_nat i * 4 * 8 + ucast (ntz (push_bit l 1)) :: u64) = m"
    using assms(3) l(1) ntz_isolated [OF l(1)]
    by (simp add: unat_add_no_wrap unat_mult_no_wrap unat_of_nat_small unat_ucast_widen m_def)
  then have "c_int (of_nat i * 4 * 8 + ucast (ntz (push_bit l 1)) :: u64) = int m"
    using assms(3) l(1) by (subst c_int_of_small) (auto simp: m_def)
  then have "flist_entry_alloc_from f elems i = Some (int m, flist_clear f m)"
    using assms by (subst flist_entry_alloc_from.simps) (simp add: iso flist_clear_def m)
  moreover have "\<not> fbit f k" if "k \<in> {32 * i..<m}" for k
  proof -
    from that have "k = 32 * i + (k - 32 * i)" "k - 32 * i < l" by (auto simp: m_def)
    then have "k div 32 = i" "k mod 32 < l"
      using l(1) by (metis div_mult_self4 div_less add.left_neutral add.commute less_trans zero_neq_numeral,
        metis mod_mult_self4 mod_less less_trans)
    then show ?thesis using l(3) by (simp add: fbit_def)
  qed
  moreover have "fbit f m" using l m by (simp add: fbit_def)
  ultimately show ?thesis using m by blast
qed

lemma flist_alloc_from_full:
  assumes "\<forall>k\<in>{32 * i..<32 * elems}. \<not> fbit f k" "elems < length f"
  shows "flist_entry_alloc_from f elems i = Some (-1, f)"
  using assms
proof (induction f elems i rule: flist_entry_alloc_from.induct)
  case (1 f elems i)
  show ?case
  proof (cases "i < elems")
    case True
    then have "\<forall>k\<in>{32 * i..<32 * Suc i}. \<not> fbit f k" using "1.prems" by auto
    then have "f ! Suc i = 0" by (simp add: flist_word_zero_iff)
    with True "1.prems" "1.IH" [OF True, of 0] show ?thesis
      by (subst flist_entry_alloc_from.simps) auto
  next
    case False
    then show ?thesis by (subst flist_entry_alloc_from.simps) simp
  qed
qed

lemma flist_alloc_from_first:
  assumes "fbit f m" "m \<in> {32 * i..<32 * elems}" "\<forall>k\<in>{32 * i..<m}. \<not> fbit f k"
    "elems < length f" "elems \<le> 2 ^ 26"
  shows "flist_entry_alloc_from f elems i = Some (int m, flist_clear f m)"
  using assms
proof (induction f elems i rule: flist_entry_alloc_from.induct)
  case (1 f elems i)
  then have i: "i < elems" by auto
  show ?case
  proof (cases "f ! Suc i = 0")
    case True
    then have "m \<notin> {32 * i..<32 * Suc i}" using "1.prems"(1) by (auto simp: flist_word_zero_iff)
    with "1.prems"(2) have "m \<in> {32 * Suc i..<32 * elems}" by auto
    moreover from "1.prems"(3) have "\<forall>k\<in>{32 * Suc i..<m}. \<not> fbit f k" by auto
    ultimately have "flist_entry_alloc_from f elems (Suc i) = Some (int m, flist_clear f m)"
      using "1.IH" [OF i, of 0] True "1.prems" i by simp
    with True i "1.prems" show ?thesis by (subst flist_entry_alloc_from.simps) simp
  next
    case False
    from i "1.prems"(4,5) have "Suc i < length f" "32 * i + 31 < 2 ^ 31" by auto
    from flist_alloc_hit [OF False this i] obtain m' where m': "m' div 32 = i" "fbit f m'"
      "\<forall>k\<in>{32 * i..<m'}. \<not> fbit f k"
      "flist_entry_alloc_from f elems i = Some (int m', flist_clear f m')" by blast
    from m'(1) have "32 * i \<le> m'" by auto
    with m'(2,3) "1.prems"(1-3) have "m = m'"
      by (metis atLeastLessThan_iff linorder_neqE_nat)
    with m'(4) show ?thesis by simp
  qed
qed

lemma flist_free_Min:
  assumes "flist_inv f" "flist_free f \<noteq> {}"
  defines "m \<equiv> Min (flist_free f)"
  shows "m < flist_cap f" "fbit f m" "\<forall>k\<in>{32 * 0..<m}. \<not> fbit f k"
proof -
  have m: "m \<in> flist_free f" using assms by (simp add: m_def)
  then show "m < flist_cap f" "fbit f m" by (auto simp: flist_free_def)
  have "\<not> fbit f k" if "k < m" for k
  proof
    assume "fbit f k"
    with that \<open>m < flist_cap f\<close> have "k \<in> flist_free f" by (simp add: flist_free_def)
    then have "m \<le> k" by (simp add: m_def)
    with that show False by simp
  qed
  then show "\<forall>k\<in>{32 * 0..<m}. \<not> fbit f k" by auto
qed

lemma fla_flist_entry_alloc_eq:
  assumes inv: "flist_inv f" and n: "unat elems = flist_words (flist_cap f)"
  shows "fla_flist_entry_alloc f elems =
    Some (if flist_free f = {} then (-1, f)
          else (int (Min (flist_free f)), flist_clear f (Min (flist_free f))))"
proof (cases "flist_free f = {}")
  case True
  then have "\<not> fbit f k" if "k < 32 * flist_words (flist_cap f)" for k
    using inv that by (cases "k < flist_cap f") (auto simp: flist_free_def flist_inv_def)
  then show ?thesis
    using True inv n by (simp add: fla_flist_entry_alloc_def flist_alloc_from_full flist_inv_def)
next
  case False
  note m = flist_free_Min [OF inv False]
  have "flist_words (flist_cap f) < length f" "flist_words (flist_cap f) \<le> 2 ^ 26"
    using inv by (auto simp: flist_inv_def)
  moreover have "Min (flist_free f) \<in> {32 * 0..<32 * flist_words (flist_cap f)}"
    using m(1) words_bounds(1) [of "flist_cap f"] by simp
  ultimately show ?thesis
    using False n flist_alloc_from_first [OF m(2) _ m(3)]
    by (simp add: fla_flist_entry_alloc_def)
qed

lemma flist_inv_rd0: "flist_inv f \<Longrightarrow> rd f 0 = Some (f ! 0)"
  by (rule rd_in) (auto simp: flist_inv_def)

lemma flist_elems_cap:
  "unat (ucast (FLA_FREELIST_U32_ELEMS (f ! 0)) :: u32) = flist_words (flist_cap f)"
  by (simp add: flist_elems_nat flist_cap_def)

lemma fla_flist_entries_alloc_one:
  assumes "flist_inv f"
  shows "fla_flist_entries_alloc f 1 =
    Some (if flist_free f = {} then (-1, f)
          else (int (Min (flist_free f)), flist_clear f (Min (flist_free f))))"
  unfolding fla_flist_entries_alloc_def flist_inv_rd0 [OF assms]
  by (simp add: fla_flist_entry_alloc_eq [OF assms flist_elems_cap] split: if_splits)

section \<open>Release of one entry\<close>

lemma flist_seek_eq: "flist_seek e n = (e + unat n div 32, of_nat (unat n mod 32))"
proof (induction e n rule: flist_seek.induct)
  case (1 e n)
  show ?case
  proof (cases "32 \<le> n")
    case True
    then have u: "32 \<le> unat n" by (simp add: word_le_nat_alt)
    have "unat (n - 32) = unat n - 32" using True by (simp add: unat_sub)
    with 1 True u show ?thesis
      by (subst flist_seek.simps) (simp add: le_div_geq le_mod_geq)
  next
    case False
    then have "unat n < 32" by (simp add: word_le_nat_alt not_le)
    with False show ?thesis by (subst flist_seek.simps) simp
  qed
qed

lemma fla_flist_entry_free_eq:
  assumes "Suc (unat ndx div 32) < length f" "unat ndx \<le> flist_cap f"
  shows "fla_flist_entry_free f ndx = Some (0, flist_set f (unat ndx))"
proof -
  have "unat (of_nat (unat ndx mod 32) :: u32) = unat ndx mod 32"
    by (simp add: unat_of_nat_small order.strict_trans [of _ 32])
  moreover have "rd f 0 = Some (f ! 0)"
    using assms(1) by (intro rd_in) linarith
  moreover have "\<not> ndx > f ! 0"
    using assms(2) by (simp add: flist_cap_def word_less_nat_alt)
  ultimately show ?thesis
    using assms(1) by (simp add: fla_flist_entry_free_def flist_seek_eq flist_set_def)
qed

lemma fla_flist_entry_free_ok:
  assumes "flist_inv f" "unat ndx < flist_cap f"
  shows "fla_flist_entry_free f ndx = Some (0, flist_set f (unat ndx))"
  using assms by (intro fla_flist_entry_free_eq flist_inv_slot) simp_all

lemma fla_flist_entry_free_beyond:
  assumes "flist_inv f" "flist_cap f < unat ndx"
  shows "fla_flist_entry_free f ndx = Some (-1, f)"
  using assms by (simp add: fla_flist_entry_free_def flist_inv_rd0 flist_cap_def word_less_nat_alt)

section \<open>Initialisation\<close>

lemma flist_fill_eq:
  assumes "e \<le> lst" "lst \<le> length f"
  shows "\<exists>f'. flist_fill f e lst = Some f' \<and> length f' = length f
    \<and> (\<forall>i<length f. f' ! i = (if e \<le> i \<and> i < lst then NOT 0 else f ! i))"
  using assms
proof (induction f e lst rule: flist_fill.induct)
  case (1 f e lst)
  show ?case
  proof (cases "e = lst")
    case True
    then show ?thesis by (subst flist_fill.simps) auto
  next
    case False
    then have e: "e < lst" "e < length f" using "1.prems" by auto
    then have "wr f e (NOT 0) = Some (f[e := NOT 0])" by simp
    from "1.IH" [OF False this] "1.prems" e obtain f' where f':
      "flist_fill (f[e := NOT 0]) (Suc e) lst = Some f'" "length f' = length f"
      "\<forall>i<length f. f' ! i = (if Suc e \<le> i \<and> i < lst then NOT 0 else f[e := NOT 0] ! i)"
      by auto
    have "flist_fill f e lst = Some f'"
      using False e f'(1) by (subst flist_fill.simps) simp
    moreover have "\<forall>i<length f. f' ! i = (if e \<le> i \<and> i < lst then NOT 0 else f ! i)"
      using f'(3) e by (auto simp: nth_list_update)
    ultimately show ?thesis using f'(2) by blast
  qed
qed

lemma bit_drop_ones: "bit (drop_bit k (NOT 0) :: 'a::len word) j \<longleftrightarrow> k + j < LENGTH('a)"
  unfolding bit_drop_bit_eq comp_def bit_not_iff by simp

lemma len_u32: "LENGTH(32) = 32" by simp

lemma fla_flist_init_free:
  assumes len: "0 < unat len" "unat len < 2 ^ 31" and sz: "flist_words (unat len) < length f"
  shows "\<exists>f'. fla_flist_init f len = Some f' \<and> flist_inv f' \<and> length f' = length f
    \<and> flist_cap f' = unat len \<and> flist_free f' = {..<unat len}"
proof -
  define n where "n = unat len"
  define lst where "lst = flist_words n"
  define f0 where "f0 = f[0 := len]"
  have n: "0 < n" "n < 2 ^ 31" using len by (auto simp: n_def)
  have pos: "0 < length f" using sz by linarith
  have lst: "1 \<le> lst" "lst < length f" "lst \<le> 2 ^ 26" "n \<le> 32 * lst" "32 * lst < n + 32"
    using n sz by (auto simp: lst_def n_def)
  obtain f1 where f1: "flist_fill f0 1 lst = Some f1" "length f1 = length f"
    "\<forall>i<length f. f1 ! i = (if 1 \<le> i \<and> i < lst then NOT 0 else f0 ! i)"
    using flist_fill_eq [of 1 lst f0] lst by (auto simp: f0_def)
  define elems where "elems = (ucast (FLA_FREELIST_U32_ELEMS len) :: u32)"
  have elems: "unat elems = lst" by (simp add: elems_def flist_elems_nat lst_def n_def)
  define unused where "unused = (ucast (ucast elems * 4 * 8 - ucast len :: u64) :: u32)"
  have "unat (ucast elems * 4 * 8 :: u64) = 32 * lst"
    using lst by (simp add: unat_mult_no_wrap unat_ucast_widen elems)
  then have "unat (ucast elems * 4 * 8 - ucast len :: u64) = 32 * lst - n"
    using lst by (simp add: unat_sub_no_wrap unat_ucast_widen n_def)
  then have un: "unat unused = 32 * lst - n"
    unfolding unused_def using lst by (subst unat_ucast_small) auto
  define f2 where "f2 = f1[lst := drop_bit (unat unused) (NOT 0)]"
  have "fla_flist_init f len = Some f2"
    using pos f1(1,2) elems lst
    by (simp add: fla_flist_init_def fla_flist_reset_def f0_def f2_def unused_def Let_def
        flip: elems_def)
  moreover have cap: "flist_cap f2 = n"
    using f1(2) f1(3) [rule_format, OF pos] lst pos
    by (simp add: f2_def flist_cap_def nth_list_update f0_def n_def)
  moreover have bits: "fbit f2 i \<longleftrightarrow> i < n" if i: "i < 32 * lst" for i
  proof (cases "Suc (i div 32) = lst")
    case True
    have "i mod 32 < 32" by simp
    moreover have "i = 32 * (i div 32) + i mod 32" by simp
    ultimately have "i mod 32 + (32 * lst - n) < 32 \<longleftrightarrow> i < n" using lst True by linarith
    moreover have "fbit f2 i \<longleftrightarrow> bit (drop_bit (32 * lst - n) (NOT 0) :: u32) (i mod 32)"
      using True f1(2) lst by (simp add: fbit_def f2_def un)
    ultimately show ?thesis by (simp only: bit_drop_ones len_u32 add.commute)
  next
    case False
    then have "Suc (i div 32) < lst" using i by auto
    moreover from this have "i < n" using lst by linarith
    ultimately show ?thesis
      using f1(2,3) lst by (auto simp: fbit_def f2_def bit_simps)
  qed
  moreover have "length f2 = length f" using f1 by (simp add: f2_def)
  ultimately show ?thesis
    using n lst by (auto simp: flist_inv_def flist_free_def lst_def n_def)
qed

section \<open>Counting reserved entries\<close>

lemma flist_word_card:
  "card {i. i < 32 \<and> bit (f ! Suc p) i} = card {k \<in> {32 * p..<32 * Suc p}. fbit f k}"
proof -
  have "fbit f k \<longleftrightarrow> bit (f ! Suc p) (k - 32 * p)" if "k \<in> {32 * p..<32 * Suc p}" for k
  proof -
    from that have "k = 32 * p + (k - 32 * p)" "k - 32 * p < 32" by auto
    then have "k div 32 = p" "k mod 32 = k - 32 * p" using that
      by (auto intro!: div_nat_eqI mod_nat_eqI)
    then show ?thesis by (simp add: fbit_def)
  qed
  note b = this
  have "{k \<in> {32 * p..<32 * Suc p}. fbit f k} = (+) (32 * p) ` {i. i < 32 \<and> bit (f ! Suc p) i}"
  proof (intro equalityI subsetI)
    fix k assume k: "k \<in> {k \<in> {32 * p..<32 * Suc p}. fbit f k}"
    then have "k = 32 * p + (k - 32 * p)" "k - 32 * p < 32" "bit (f ! Suc p) (k - 32 * p)"
      using b [of k] by auto
    then show "k \<in> (+) (32 * p) ` {i. i < 32 \<and> bit (f ! Suc p) i}" by blast
  qed (auto simp: b)
  then show ?thesis by (simp add: card_image)
qed

lemma flist_count_free_eq:
  assumes "p \<le> q" "q < length f"
  shows "flist_count_free f (Suc p) (Suc q) acc
    = Some (acc + of_nat (card {k \<in> {32 * p..<32 * q}. fbit f k}))"
  using assms
proof (induction "q - p" arbitrary: p acc)
  case 0
  then show ?case by (subst flist_count_free.simps) simp
next
  case (Suc d)
  then have p: "p < q" "Suc p < length f" by auto
  have split: "{k \<in> {32 * p..<32 * q}. fbit f k}
      = {k \<in> {32 * p..<32 * Suc p}. fbit f k} \<union> {k \<in> {32 * Suc p..<32 * q}. fbit f k}"
    using p by auto
  have "count_set_bits (f ! Suc p) = of_nat (card {i. i < 32 \<and> bit (f ! Suc p) i})"
    by (simp flip: count_set_bits_card)
  then show ?case
    using Suc.hyps(1) [of "Suc p"] Suc.hyps(2) Suc.prems p
    by (subst flist_count_free.simps, subst split, subst card_Un_disjoint)
      (auto simp: flist_word_card algebra_simps)
qed

lemma fla_flist_num_reserved_eq:
  assumes "flist_inv f"
  shows "fla_flist_num_reserved f = Some (of_nat (flist_cap f - card (flist_free f)))"
proof -
  have w: "flist_words (flist_cap f) < length f" using assms by (simp add: flist_inv_def)
  have "{k \<in> {0..<32 * flist_words (flist_cap f)}. fbit f k} = flist_free f"
    using assms words_bounds(1) [of "flist_cap f"] by (auto simp: flist_inv_def flist_free_def not_less)
  moreover have "unat (fla_flist_size (f ! 0) div 4) = Suc (flist_words (flist_cap f))"
    by (simp add: unat_div fla_flist_size_nat flist_cap_def)
  moreover have "card (flist_free f) \<le> flist_cap f"
    using card_mono [of "{..<flist_cap f}" "flist_free f"] by (auto simp: flist_free_def)
  moreover have "f ! 0 = of_nat (flist_cap f)" by (simp add: flist_cap_def)
  ultimately show ?thesis
    using flist_count_free_eq [of 0 "flist_words (flist_cap f)" f 0, OF _ w]
    by (simp add: fla_flist_num_reserved_def flist_inv_rd0 [OF assms] of_nat_diff)
qed

section \<open>Allocation and release of a run of entries\<close>

text \<open>\<open>flist_upd f f' S\<close>: \<open>f'\<close> is \<open>f\<close> with \<open>S\<close> as its free entries.\<close>

definition flist_upd :: "freelist \<Rightarrow> freelist \<Rightarrow> nat set \<Rightarrow> bool" where
  "flist_upd f f' S \<longleftrightarrow> flist_inv f' \<and> length f' = length f \<and> flist_cap f' = flist_cap f
     \<and> flist_free f' = S"

lemma flist_upd_refl: "flist_inv f \<Longrightarrow> flist_upd f f (flist_free f)"
  by (simp add: flist_upd_def)

lemma flist_upd_trans: "flist_upd f g S \<Longrightarrow> flist_upd g h T \<Longrightarrow> flist_upd f h T"
  by (simp add: flist_upd_def)

lemma flist_upd_clear:
  "flist_inv f \<Longrightarrow> m < flist_cap f \<Longrightarrow> flist_upd f (flist_clear f m) (flist_free f - {m})"
  by (simp add: flist_upd_def flist_inv_clear flist_free_clear)

lemma flist_upd_set:
  "flist_inv f \<Longrightarrow> m < flist_cap f \<Longrightarrow> flist_upd f (flist_set f m) (insert m (flist_free f))"
  by (simp add: flist_upd_def flist_inv_set flist_free_set)

lemma fla_flist_entry_alloc_upd:
  assumes "flist_inv f" "unat elems = flist_words (flist_cap f)" "flist_free f \<noteq> {}"
  shows "\<exists>f'. fla_flist_entry_alloc f elems = Some (int (Min (flist_free f)), f')
    \<and> flist_upd f f' (flist_free f - {Min (flist_free f)})"
  using assms fla_flist_entry_alloc_eq [OF assms(1,2)] flist_upd_clear [OF assms(1)]
    flist_free_Min(1) [OF assms(1,3)] by simp

lemma unat_diff_Suc: "c \<noteq> (n :: 'a::len word) \<Longrightarrow> unat (n - c) = Suc (unat (n - (c + 1)))"
proof -
  assume "c \<noteq> n"
  then have "n - c \<noteq> 0" by auto
  then have "0 < unat (n - c)" "unat (n - c - 1) = unat (n - c) - 1"
    by (simp_all only: unat_dec unat_gt_0 not_False_eq_True)
  moreover have "n - (c + 1) = n - c - 1" by simp
  ultimately show ?thesis by (simp only: Suc_diff_1)
qed

lemma minus_run: "S - {m} - {Suc m..<Suc m + k} = S - {m..<m + Suc k}"
  by auto

text \<open>The counting loop takes the least free entries, one for each missing count.\<close>

lemma flist_alloc_more_run:
  assumes "flist_inv f" "unat elems = flist_words (flist_cap f)"
    "{m..<m + unat (num - c)} \<subseteq> flist_free f" "\<forall>k\<in>flist_free f. m \<le> k"
  shows "\<exists>f'. flist_alloc_more f elems num c r = Some (r, f')
    \<and> flist_upd f f' (flist_free f - {m..<m + unat (num - c)})"
  using assms
proof (induction "unat (num - c)" arbitrary: f c m)
  case 0
  then have "num = c" by (metis eq_iff_diff_eq_0 unat_eq_zero)
  with 0 show ?case by (subst flist_alloc_more.simps) (simp add: flist_upd_refl)
next
  case (Suc d)
  then have ne: "c \<noteq> num" by auto
  note d = unat_diff_Suc [OF ne]
  have m: "m \<in> flist_free f" using Suc.prems(3) d by auto
  then have min: "Min (flist_free f) = m"
    using Suc.prems(4) by (intro Min_eqI) auto
  from m fla_flist_entry_alloc_upd [OF Suc.prems(1,2)] obtain f1 where f1:
    "fla_flist_entry_alloc f elems = Some (int m, f1)" "flist_upd f f1 (flist_free f - {m})"
    unfolding min by blast
  have sub: "{Suc m..<Suc m + unat (num - (c + 1))} \<subseteq> flist_free f1"
    using Suc.prems(3) f1(2) d by (auto simp: flist_upd_def)
  have "\<forall>k\<in>flist_free f1. Suc m \<le> k"
    using Suc.prems(4) f1(2) by (auto simp: flist_upd_def le_less Suc_le_eq)
  with sub Suc.hyps(1) [of "c + 1" f1 "Suc m"] Suc.hyps(2) Suc.prems(2) d f1(2) obtain f' where f':
    "flist_alloc_more f1 elems num (c + 1) r = Some (r, f')"
    "flist_upd f1 f' (flist_free f1 - {Suc m..<Suc m + unat (num - (c + 1))})"
    by (auto simp: flist_upd_def)
  have "flist_free f1 - {Suc m..<Suc m + unat (num - (c + 1))} = flist_free f - {m..<m + unat (num - c)}"
    using f1(2) unfolding d flist_upd_def by (simp only: minus_run)
  with f'(2) flist_upd_trans [OF f1(2)] have "flist_upd f f' (flist_free f - {m..<m + unat (num - c)})"
    by simp
  moreover have "flist_alloc_more f elems num c r = Some (r, f')"
    using ne f1(1) f'(1) by (subst flist_alloc_more.simps) simp
  ultimately show ?case by blast
qed

lemma flist_alloc_more_short:
  assumes "flist_inv f" "unat elems = flist_words (flist_cap f)"
    "card (flist_free f) < unat (num - c)"
  shows "\<exists>f'. flist_alloc_more f elems num c r = Some (-1, f') \<and> flist_upd f f' {}"
  using assms
proof (induction "unat (num - c)" arbitrary: f c)
  case 0
  then show ?case by simp
next
  case (Suc d)
  then have ne: "c \<noteq> num" by auto
  show ?case
  proof (cases "flist_free f = {}")
    case True
    with ne fla_flist_entry_alloc_eq [OF Suc.prems(1,2)] Suc.prems(1) show ?thesis
      by (subst flist_alloc_more.simps) (auto simp: flist_upd_def)
  next
    case False
    from fla_flist_entry_alloc_upd [OF Suc.prems(1,2) False] obtain f1 where f1:
      "fla_flist_entry_alloc f elems = Some (int (Min (flist_free f)), f1)"
      "flist_upd f f1 (flist_free f - {Min (flist_free f)})" by blast
    have "card (flist_free f1) < unat (num - (c + 1))"
      using Suc.prems(3) f1(2) unat_diff_Suc [OF ne] False
      by (simp add: flist_upd_def card_Diff_singleton) (metis Suc_pred card_gt_0_iff finite_flist_free not_less_eq)
    with Suc.hyps(1) [of "c + 1" f1] Suc.hyps(2) Suc.prems(2) f1(2) unat_diff_Suc [OF ne] obtain f' where
      "flist_alloc_more f1 elems num (c + 1) r = Some (-1, f')" "flist_upd f1 f' {}"
      by (auto simp: flist_upd_def)
    with ne f1 flist_upd_trans show ?thesis
      by (subst flist_alloc_more.simps) auto
  qed
qed

lemma fla_flist_entries_alloc_run:
  assumes "flist_inv f" "num \<noteq> 0" "flist_free f \<noteq> {}"
    "{Min (flist_free f)..<Min (flist_free f) + unat num} \<subseteq> flist_free f"
  shows "\<exists>f'. fla_flist_entries_alloc f num = Some (int (Min (flist_free f)), f')
    \<and> flist_upd f f' (flist_free f - {Min (flist_free f)..<Min (flist_free f) + unat num})"
proof -
  define m where "m = Min (flist_free f)"
  have "1 \<noteq> num \<or> num = 1" by auto
  have n: "unat num = Suc (unat (num - 1))" using assms(2) by (simp add: unat_dec unat_gt_0)
  from fla_flist_entry_alloc_upd [OF assms(1) flist_elems_cap assms(3)] obtain f1 where f1:
    "fla_flist_entry_alloc f (ucast (FLA_FREELIST_U32_ELEMS (f ! 0))) = Some (int m, f1)"
    "flist_upd f f1 (flist_free f - {m})" unfolding m_def by blast
  have inv1: "flist_inv f1" using f1(2) by (simp add: flist_upd_def)
  have "unat (ucast (FLA_FREELIST_U32_ELEMS (f ! 0)) :: u32) = flist_words (flist_cap f1)"
    using f1(2) by (simp only: flist_upd_def flist_elems_cap)
  moreover have "{Suc m..<Suc m + unat (num - 1)} \<subseteq> flist_free f1"
    using assms(4) f1(2) n by (auto simp: flist_upd_def m_def)
  moreover have "\<forall>k\<in>flist_free f1. Suc m \<le> k"
    using f1(2) by (auto simp: flist_upd_def m_def Suc_le_eq le_neq_implies_less)
  ultimately obtain f' where f':
    "flist_alloc_more f1 (ucast (FLA_FREELIST_U32_ELEMS (f ! 0))) num 1 (int m) = Some (int m, f')"
    "flist_upd f1 f' (flist_free f1 - {Suc m..<Suc m + unat (num - 1)})"
    using flist_alloc_more_run [of f1 "ucast (FLA_FREELIST_U32_ELEMS (f ! 0))" "Suc m" num 1 "int m"] inv1
    by blast
  have "flist_free f1 - {Suc m..<Suc m + unat (num - 1)} = flist_free f - {m..<m + unat num}"
    using f1(2) unfolding n flist_upd_def by (simp only: minus_run)
  with f'(2) flist_upd_trans [OF f1(2)] have "flist_upd f f' (flist_free f - {m..<m + unat num})"
    by simp
  moreover have "fla_flist_entries_alloc f num = Some (int m, f')"
    using f1(1) f'(1) flist_alloc_more.simps [of f1 _ num 1]
    by (auto simp: fla_flist_entries_alloc_def flist_inv_rd0 [OF assms(1)])
  ultimately show ?thesis unfolding m_def by blast
qed

lemma fla_flist_entries_alloc_short:
  assumes "flist_inv f" "num \<noteq> 0" "card (flist_free f) < unat num"
  shows "\<exists>f'. fla_flist_entries_alloc f num = Some (-1, f') \<and> flist_upd f f' {}"
proof (cases "flist_free f = {}")
  case True
  then have a: "fla_flist_entry_alloc f (ucast (FLA_FREELIST_U32_ELEMS (f ! 0))) = Some (-1, f)"
    by (simp add: fla_flist_entry_alloc_eq [OF assms(1) flist_elems_cap])
  have "flist_upd f f {}" using True assms(1) by (simp add: flist_upd_def)
  moreover have "flist_alloc_more f (ucast (FLA_FREELIST_U32_ELEMS (f ! 0))) num 1 (-1) = Some (-1, f)"
    using a by (subst flist_alloc_more.simps) simp
  ultimately show ?thesis using a
    by (auto simp: fla_flist_entries_alloc_def flist_inv_rd0 [OF assms(1)])
next
  case False
  from fla_flist_entry_alloc_upd [OF assms(1) flist_elems_cap False] obtain f1 where f1:
    "fla_flist_entry_alloc f (ucast (FLA_FREELIST_U32_ELEMS (f ! 0))) = Some (int (Min (flist_free f)), f1)"
    "flist_upd f f1 (flist_free f - {Min (flist_free f)})" by blast
  have inv1: "flist_inv f1" using f1(2) by (simp add: flist_upd_def)
  have "0 < card (flist_free f)" using False by (simp add: card_gt_0_iff)
  moreover have "card (flist_free f1) = card (flist_free f) - 1"
    using f1(2) False by (simp add: flist_upd_def card_Diff_singleton)
  ultimately have "card (flist_free f1) < unat (num - 1)"
    using assms(3) unat_dec [OF assms(2)] by linarith
  moreover have "unat (ucast (FLA_FREELIST_U32_ELEMS (f ! 0)) :: u32) = flist_words (flist_cap f1)"
    using f1(2) by (simp only: flist_upd_def flist_elems_cap)
  ultimately obtain f' where
    "flist_alloc_more f1 (ucast (FLA_FREELIST_U32_ELEMS (f ! 0))) num 1 (int (Min (flist_free f)))
      = Some (-1, f')" "flist_upd f1 f' {}"
    using flist_alloc_more_short [of f1 "ucast (FLA_FREELIST_U32_ELEMS (f ! 0))" num 1
        "int (Min (flist_free f))"] inv1 by blast
  moreover have "num \<noteq> 1" using assms(3) \<open>0 < card (flist_free f)\<close> by auto
  ultimately show ?thesis
    using f1 flist_upd_trans [OF f1(2)]
    by (auto simp: fla_flist_entries_alloc_def flist_inv_rd0 [OF assms(1)])
qed

lemma union_run: "insert m S \<union> {Suc m..<Suc m + k} = S \<union> {m..<m + Suc k}"
  by auto

lemma flist_entries_free_loop_run:
  assumes "flist_inv f" "unat ndx + i + n \<le> flist_cap f"
  shows "\<exists>f'. flist_entries_free_loop f ndx i n = Some (0, f')
    \<and> flist_upd f f' (flist_free f \<union> {unat ndx + i..<unat ndx + i + n})"
  using assms
proof (induction n arbitrary: f i)
  case 0
  then show ?case by (simp add: flist_upd_refl)
next
  case (Suc n)
  have cap: "flist_cap f < 2 ^ 31" using Suc.prems(1) by (simp add: flist_inv_def)
  have "unat (of_nat i :: u32) = i" using Suc.prems(2) cap by (simp add: unat_of_nat_small)
  then have u: "unat (ndx + of_nat i) = unat ndx + i"
    using Suc.prems(2) cap by (subst unat_add_no_wrap) simp_all
  then have lt: "unat (ndx + of_nat i) < flist_cap f" using Suc.prems(2) by simp
  define f1 where "f1 = flist_set f (unat ndx + i)"
  have f1: "fla_flist_entry_free f (ndx + of_nat i) = Some (0, f1)"
    "flist_upd f f1 (insert (unat ndx + i) (flist_free f))"
    using fla_flist_entry_free_ok [OF Suc.prems(1) lt] flist_upd_set [OF Suc.prems(1) lt]
    by (simp_all add: u f1_def)
  from f1(2) Suc.prems(2) have "flist_inv f1" "unat ndx + Suc i + n \<le> flist_cap f1"
    by (simp_all add: flist_upd_def)
  from Suc.IH [OF this] obtain f' where f': "flist_entries_free_loop f1 ndx (Suc i) n = Some (0, f')"
    "flist_upd f1 f' (flist_free f1 \<union> {unat ndx + Suc i..<unat ndx + Suc i + n})" by blast
  have "flist_free f1 \<union> {unat ndx + Suc i..<unat ndx + Suc i + n}
      = flist_free f \<union> {unat ndx + i..<unat ndx + i + Suc n}"
    using f1(2) unfolding flist_upd_def add_Suc_right [of "unat ndx" i] by (simp only: union_run)
  with f' f1 flist_upd_trans [OF f1(2) f'(2)] show ?case by simp
qed

lemma fla_flist_entries_free_run:
  assumes "flist_inv f" "unat ndx + unat num \<le> flist_cap f"
  shows "\<exists>f'. fla_flist_entries_free f ndx num = Some (0, f')
    \<and> flist_upd f f' (flist_free f \<union> {unat ndx..<unat ndx + unat num})"
  using flist_entries_free_loop_run [of f ndx 0 "unat num"] assms
  by (simp add: fla_flist_entries_free_def)

text \<open>Whatever the number of entries asked for, what is left is a freelist of the same size.\<close>

lemma flist_alloc_more_upd:
  assumes "flist_inv f" "unat elems = flist_words (flist_cap f)"
  shows "\<exists>q f' S. flist_alloc_more f elems num c r = Some (q, f') \<and> (q = -1 \<or> q = r) \<and> flist_upd f f' S"
  using assms
proof (induction "unat (num - c)" arbitrary: f c)
  case 0
  then have "num = c" by (metis eq_iff_diff_eq_0 unat_eq_zero)
  then show ?case using flist_upd_refl [OF 0(2)] by (subst flist_alloc_more.simps) auto
next
  case (Suc d)
  then have nc: "c \<noteq> num" by auto
  show ?case
  proof (cases "flist_free f = {}")
    case True
    then have "flist_alloc_more f elems num c r = Some (-1, f)"
      using fla_flist_entry_alloc_eq [OF Suc(3,4)] nc by (subst flist_alloc_more.simps) simp
    then show ?thesis using flist_upd_refl [OF Suc(3)] by blast
  next
    case False
    from fla_flist_entry_alloc_upd [OF Suc(3,4) this] obtain f1 where
      f1: "fla_flist_entry_alloc f elems = Some (int (Min (flist_free f)), f1)" "flist_upd f f1 (flist_free f - {Min (flist_free f)})" by blast
    then have "flist_alloc_more f elems num c r = flist_alloc_more f1 elems num (c + 1) r"
      using nc by (subst flist_alloc_more.simps) simp
    moreover have "d = unat (num - (c + 1))" using Suc(2) unat_diff_Suc [OF nc] by simp
    then have "\<exists>q f' S. flist_alloc_more f1 elems num (c + 1) r = Some (q, f') \<and> (q = -1 \<or> q = r) \<and> flist_upd f1 f' S"
      using f1(2) Suc(4) by (intro Suc(1)) (simp_all add: flist_upd_def)
    ultimately show ?thesis using flist_upd_trans [OF f1(2)] by metis
  qed
qed

lemma fla_flist_entries_alloc_upd:
  assumes "flist_inv f"
  shows "\<exists>q f' S. fla_flist_entries_alloc f num = Some (q, f') \<and> flist_upd f f' S"
proof -
  let ?e = "ucast (FLA_FREELIST_U32_ELEMS (f ! 0)) :: u32"
  obtain q f1 S where f1: "fla_flist_entry_alloc f ?e = Some (q, f1)" "flist_upd f f1 S"
    using fla_flist_entry_alloc_eq [OF assms flist_elems_cap] fla_flist_entry_alloc_upd [OF assms flist_elems_cap] flist_upd_refl [OF assms]
    by (cases "flist_free f = {}") auto
  have "unat ?e = flist_words (flist_cap f1)" using f1(2) flist_elems_cap [of f] by (simp add: flist_upd_def)
  from flist_alloc_more_upd [OF _ this, of num 1 q] f1(2) obtain q' f2 S' where
    "flist_alloc_more f1 ?e num 1 q = Some (q', f2)" "flist_upd f1 f2 S'" by (auto simp: flist_upd_def)
  then show ?thesis using f1 flist_upd_trans [OF f1(2)]
    unfolding fla_flist_entries_alloc_def flist_inv_rd0 [OF assms] by (auto simp: Let_def)
qed

section \<open>Search over the reserved entries\<close>

text \<open>The reference: call \<open>f\<close> on the indices in turn, stop at a result other than 0 and 1.\<close>

fun search_seq :: "'s flist_callback \<Rightarrow> nat list \<Rightarrow> u32 \<Rightarrow> 's \<Rightarrow> 's search_step option" where
  "search_seq f [] found s = Some (Search_Next found s)"
| "search_seq f (i # is) found s = do {
     (ret, s) \<leftarrow> f s (of_nat i);
     if ret = 1 then search_seq f is (found + 1) s
     else if ret = 0 then search_seq f is found s
     else Some (Search_Return (c_int ret) found s)
   }"

lemma search_seq_append:
  "search_seq f (xs @ ys) found s = do {
     st \<leftarrow> search_seq f xs found s;
     (case st of Search_Return r found s \<Rightarrow> Some (Search_Return r found s)
      | Search_Next found s \<Rightarrow> search_seq f ys found s)
   }"
proof (induction xs arbitrary: found s)
  case Nil
  then show ?case by simp
next
  case (Cons i xs)
  show ?case
    by (cases "f s (of_nat i)") (auto simp: Cons.IH)
qed

lemma filter_upt_first:
  assumes "l < n" "P l" "\<forall>j<l. \<not> P j"
  shows "filter P [0..<n] = l # filter (\<lambda>j. P j \<and> j \<noteq> l) [0..<n]"
proof -
  have split: "[0..<n] = [0..<l] @ l # [Suc l..<n]"
    using assms(1) by (metis upt_add_eq_append upt_conv_Cons le0 less_imp_le add_diff_inverse_nat
        less_imp_add_positive not_less_zero)
  have "filter P [Suc l..<n] = filter (\<lambda>j. P j \<and> j \<noteq> l) [Suc l..<n]"
    by (rule filter_cong) auto
  with assms(2,3) show ?thesis
    unfolding split by (simp add: filter_empty_conv)
qed

lemma isolate_rightmost_zero:
  fixes e :: "'a::len word"
  assumes "\<not> bit e l" "\<forall>i<l. bit e i" "l < LENGTH('a)"
  shows "NOT e AND (e + 1) = push_bit l 1"
proof -
  have "- (NOT e) = e + 1" by (simp add: minus_eq_not_plus_1)
  moreover have "NOT e AND (- (NOT e)) = push_bit l 1"
    using assms by (intro isolate_rightmost) (auto simp: bit_not_iff)
  ultimately show ?thesis by simp
qed

lemma flist_search_word_eq:
  assumes "length (filter (\<lambda>j. \<not> bit e j) [0..<32]) \<le> n" "unat ue < 2 ^ 27"
  shows "flist_search_word f ue n e found s
    = search_seq f (map (\<lambda>j. 32 * unat ue + j) (filter (\<lambda>j. \<not> bit e j) [0..<32])) found s"
  using assms
proof (induction n arbitrary: e found s)
  case 0
  then show ?case by simp
next
  case (Suc n)
  show ?case
  proof (cases "e = 0xFFFFFFFF")
    case True
    have "bit (0xFFFFFFFF :: u32) j" if "j < 32" for j
    proof -
      have "(0xFFFFFFFF :: u32) = mask 32" by (simp add: mask_eq_exp_minus_1)
      then show ?thesis using that by (simp only: bit_mask_iff) simp
    qed
    with True show ?thesis by (simp add: filter_empty_conv)
  next
    case False
    have "NOT e \<noteq> 0"
    proof
      assume "NOT e = 0"
      then have "NOT (NOT e) = NOT 0" by simp
      with False show False by simp
    qed
    from ex_lowest_bit [OF this] obtain l where l: "l < 32" "\<not> bit e l" "\<forall>i<l. bit e i"
      by (auto simp: bit_not_iff)
    define w :: u32 where "w = push_bit l 1"
    have wl: "NOT e AND (e + 1) = w" unfolding w_def using l by (intro isolate_rightmost_zero) auto
    have fl: "filter (\<lambda>j. \<not> bit e j) [0..<32] = l # filter (\<lambda>j. \<not> bit e j \<and> j \<noteq> l) [0..<32]"
      using l by (intro filter_upt_first) auto
    have eq: "(\<lambda>j. \<not> bit e j \<and> j \<noteq> l) = (\<lambda>j. \<not> bit (e OR w) j)"
      using l by (auto simp: w_def bit_simps fun_eq_iff)
    have len: "length (filter (\<lambda>j. \<not> bit (e OR w) j) [0..<32]) \<le> n"
      using Suc.prems(1) unfolding fl eq by simp
    have "unat (ucast ue * 4 * 8 + ucast (ntz w) :: u64) = 32 * unat ue + l"
      using l(1) ntz_isolated [OF l(1)] Suc.prems(2)
      by (simp add: unat_add_no_wrap unat_mult_no_wrap unat_ucast_widen w_def)
    then have arg: "(ucast (ucast ue * 4 * 8 + ucast (ntz w) :: u64) :: u32) = of_nat (32 * unat ue + l)"
      by (metis of_nat_unat)
    note IH = Suc.IH [OF len Suc.prems(2)]
    have step: "flist_search_word f ue (Suc n) e found s =
      (f s (of_nat (32 * unat ue + l)) \<bind> (\<lambda>(ret, s).
        if ret = 1 then flist_search_word f ue n (e OR w) (found + 1) s
        else if ret = 0 then flist_search_word f ue n (e OR w) found s
        else Some (Search_Return (c_int ret) found s)))"
      unfolding flist_search_word.simps Let_def wl arg
      using False by (cases "f s (of_nat (32 * unat ue + l))") auto
    show ?thesis
      unfolding step fl eq IH by (simp only: list.map search_seq.simps)
  qed
qed

lemma flist_search_word_ones: "flist_search_word f ue n 0xFFFFFFFF found s = Some (Search_Next found s)"
  by (cases n) simp_all

text \<open>
  The last word is searched below \<open>len mod 32\<close>, so a freelist whose length is a multiple
  of 32 is not searched in its last word.
\<close>

definition flist_search_bound :: "nat \<Rightarrow> nat" where
  "flist_search_bound n = 32 * (flist_words n - 1) + n mod 32"

lemma flist_search_bound_eq:
  "flist_search_bound n = (if n mod 32 = 0 then n - 32 else n)"
proof -
  obtain q r where n: "n = 32 * q + r" "r < 32"
    by (metis mult_div_mod_eq mod_less_divisor zero_less_numeral)
  have "flist_words n = (if r = 0 then q else Suc q)"
    using n by (auto intro!: div_nat_eqI)
  moreover have "n mod 32 = r" using n by simp
  ultimately show ?thesis using n(1) by (auto simp: flist_search_bound_def diff_mult_distrib2)
qed

lemma filter_word_shift:
  assumes "m \<le> 32" "\<forall>j<32. bit e j \<longleftrightarrow> fbit fl (32 * u + j) \<or> m \<le> j"
  shows "map (\<lambda>j. 32 * u + j) (filter (\<lambda>j. \<not> bit e j) [0..<32])
    = filter (\<lambda>k. \<not> fbit fl k) [32 * u..<32 * u + m]"
proof -
  have "filter (\<lambda>j. \<not> bit e j) [0..<32] = filter (\<lambda>j. \<not> fbit fl (32 * u + j)) [0..<m]"
  proof -
    have "[0..<32] = [0..<m] @ [m..<32]" using assms(1) by (metis le0 upt_add_eq_append le_add_diff_inverse)
    moreover have "filter (\<lambda>j. \<not> bit e j) [m..<32] = []" using assms(2) by (auto simp: filter_empty_conv)
    moreover have "filter (\<lambda>j. \<not> bit e j) [0..<m] = filter (\<lambda>j. \<not> fbit fl (32 * u + j)) [0..<m]"
      using assms by (intro filter_cong) auto
    ultimately show ?thesis by simp
  qed
  moreover have "[32 * u..<32 * u + m] = map (\<lambda>j. 32 * u + j) [0..<m]"
    by (rule nth_equalityI) simp_all
  ultimately show ?thesis by (simp add: filter_map comp_def)
qed

lemma flist_search_from_eq:
  assumes inv: "flist_inv fl" and n: "unat ues = flist_words (flist_cap fl)"
    and u: "unat u \<le> unat ues"
  shows "flist_search_from f fl (fl ! 0) ues u found s = do {
      st \<leftarrow> search_seq f (filter (\<lambda>k. \<not> fbit fl k) [32 * unat u..<flist_search_bound (flist_cap fl)]) found s;
      (case st of Search_Return r found s \<Rightarrow> Some (r, found, s) | Search_Next found s \<Rightarrow> Some (0, found, s))
    }"
  using u
proof (induction "unat ues - unat u" arbitrary: u found s)
  case 0
  then have "[32 * unat u..<flist_search_bound (flist_cap fl)] = []"
    using n by (auto simp: flist_search_bound_def)
  moreover have "\<not> u < ues" using 0 by (simp add: word_less_nat_alt)
  ultimately show ?case by (subst flist_search_from.simps) (simp del: upt_eq_Nil_conv)
next
  case (Suc d)
  then have lt: "unat u < unat ues" by simp
  then have ltw: "u < ues" by (simp add: word_less_nat_alt)
  note u1 = unat_inc_below [OF ltw]
  have "d = unat ues - unat (u + 1)" "unat (u + 1) \<le> unat ues" using Suc.hyps(2) u1 lt by auto
  note IH = Suc.hyps(1) [OF this]
  define e where "e = (if u + 1 = ues then fl ! Suc (unat u) OR push_bit (unat (fl ! 0 mod 32)) (NOT 0)
    else fl ! Suc (unat u))"
  define m where "m = (if u + 1 = ues then flist_cap fl mod 32 else 32)"
  have wl: "unat ues < length fl" "unat ues \<le> 2 ^ 26" using inv n by (auto simp: flist_inv_def)
  have lastw: "u + 1 = ues \<longleftrightarrow> Suc (unat u) = unat ues" using u1 by (auto simp: word_unat_eq_iff)
  have mod: "unat (fl ! 0 mod 32) = flist_cap fl mod 32" by (simp add: flist_cap_def unat_mod)
  have "bit e j \<longleftrightarrow> fbit fl (32 * unat u + j) \<or> m \<le> j" if "j < 32" for j
    using that by (auto simp: e_def m_def fbit_def bit_simps mod)
  then have wd: "map (\<lambda>j. 32 * unat u + j) (filter (\<lambda>j. \<not> bit e j) [0..<32])
      = filter (\<lambda>k. \<not> fbit fl k) [32 * unat u..<32 * unat u + m]"
    by (intro filter_word_shift) (auto simp: m_def less_imp_le)
  have bound: "32 * unat u + m \<le> flist_search_bound (flist_cap fl)"
    using n lt lastw by (auto simp: flist_search_bound_def m_def)
  have rest: "[32 * unat u + m..<flist_search_bound (flist_cap fl)]
      = [32 * unat (u + 1)..<flist_search_bound (flist_cap fl)]"
    using n lt lastw u1 by (auto simp: flist_search_bound_def m_def add.commute)
  have cut: "filter (\<lambda>k. \<not> fbit fl k) [32 * unat u..<flist_search_bound (flist_cap fl)]
      = map (\<lambda>j. 32 * unat u + j) (filter (\<lambda>j. \<not> bit e j) [0..<32])
        @ filter (\<lambda>k. \<not> fbit fl k) [32 * unat (u + 1)..<flist_search_bound (flist_cap fl)]"
    unfolding wd rest [symmetric] filter_append [symmetric]
    using bound upt_add_eq_append [of "32 * unat u" "32 * unat u + m"] by (metis le_add1 le_add_diff_inverse)
  have "length (filter (\<lambda>j. \<not> bit e j) [0..<32]) \<le> 32"
    by (metis length_filter_le length_upt diff_zero)
  then have word: "flist_search_word f u 32 e found s
      = search_seq f (map (\<lambda>j. 32 * unat u + j) (filter (\<lambda>j. \<not> bit e j) [0..<32])) found s" for found s
    using lt wl by (intro flist_search_word_eq) auto
  have "(if e = 0xFFFFFFFF then Some (Search_Next found s) else flist_search_word f u 32 e found s)
      = flist_search_word f u 32 e found s"
    by (simp add: flist_search_word_ones)
  then have "flist_search_from f fl (fl ! 0) ues u found s = do {
      st \<leftarrow> flist_search_word f u 32 e found s;
      (case st of Search_Return r found s \<Rightarrow> Some (r, found, s)
       | Search_Next found s \<Rightarrow> flist_search_from f fl (fl ! 0) ues (u + 1) found s)
    }"
    using ltw lt wl by (subst flist_search_from.simps) (simp add: Let_def e_def flist_search_word_ones)
  also have "\<dots> = do {
      st \<leftarrow> search_seq f (filter (\<lambda>k. \<not> fbit fl k) [32 * unat u..<flist_search_bound (flist_cap fl)]) found s;
      (case st of Search_Return r found s \<Rightarrow> Some (r, found, s) | Search_Next found s \<Rightarrow> Some (0, found, s))
    }"
    unfolding cut search_seq_append word
    using IH by (cases "search_seq f (map ((+) (32 * unat u)) (filter (\<lambda>j. \<not> bit e j) [0..<32])) found s")
      (auto split: search_step.split)
  finally show ?case .
qed

section \<open>The contract of a slot allocator\<close>

text \<open>
  What the pool table and the slab cache rely on: an allocator of numbered slots hands out a
  slot that is free, refuses only when none is, and a released slot is free again.
\<close>

locale slot_allocator =
  fixes alloc :: "'s \<Rightarrow> (int \<times> 's) option"
    and release :: "'s \<Rightarrow> u32 \<Rightarrow> (int \<times> 's) option"
    and inv :: "'s \<Rightarrow> bool"
    and cap :: "'s \<Rightarrow> nat"
    and free :: "'s \<Rightarrow> nat set"
  assumes cap_bound: "inv s \<Longrightarrow> cap s < 2 ^ 31"
    and free_cap: "free s \<subseteq> {..<cap s}"
    and alloc_full: "inv s \<Longrightarrow> free s = {} \<Longrightarrow> alloc s = Some (-1, s)"
    and alloc_slot: "inv s \<Longrightarrow> free s \<noteq> {} \<Longrightarrow>
      \<exists>i s'. alloc s = Some (int i, s') \<and> i \<in> free s \<and> inv s' \<and> cap s' = cap s \<and> free s' = free s - {i}"
    and release_slot: "inv s \<Longrightarrow> unat i < cap s \<Longrightarrow>
      \<exists>s'. release s i = Some (0, s') \<and> inv s' \<and> cap s' = cap s \<and> free s' = insert (unat i) (free s)"
begin

lemma finite_free: "finite (free s)"
  using free_cap finite_subset by blast

lemma alloc_cases:
  assumes "inv s" "alloc s = Some (r, s')"
  obtains (full) "free s = {}" "r = -1" "s' = s"
  | (slot) i where "i \<in> free s" "r = int i" "inv s'" "cap s' = cap s" "free s' = free s - {i}"
  using alloc_full [OF assms(1)] alloc_slot [OF assms(1)] assms(2)
  by (cases "free s = {}") auto

lemma alloc_total: "inv s \<Longrightarrow> \<exists>r s'. alloc s = Some (r, s') \<and> inv s' \<and> cap s' = cap s"
  using alloc_full [of s] alloc_slot [of s] by (cases "free s = {}") auto

lemma alloc_release:
  assumes "inv s" "alloc s = Some (r, s')" "r \<noteq> -1"
  shows "\<exists>s''. release s' (of_int r) = Some (0, s'') \<and> inv s'' \<and> cap s'' = cap s \<and> free s'' = free s"
proof -
  from assms obtain i where i: "i \<in> free s" "r = int i" "inv s'" "cap s' = cap s" "free s' = free s - {i}"
    by (metis alloc_cases)
  have "i < cap s" using i(1) free_cap by auto
  then have "unat (of_int r :: u32) = i"
    using cap_bound [OF assms(1)] i(2) by (simp add: unat_of_nat_small)
  with release_slot [OF i(3), of "of_int r"] i \<open>i < cap s\<close> show ?thesis
    by (auto simp: insert_absorb)
qed

text \<open>A run of allocations hands out distinct slots until none is free.\<close>

lemma alloc_distinct:
  assumes "inv s" "alloc s = Some (r, s')" "alloc s' = Some (r', s'')" "r \<noteq> -1"
  shows "r' \<noteq> r"
proof -
  from assms obtain i where i: "i \<in> free s" "r = int i" "inv s'" "free s' = free s - {i}"
    by (metis alloc_cases)
  show ?thesis
    using i(3) assms(3) by (cases rule: alloc_cases) (use i in auto)
qed

lemma alloc_succeeds_iff:
  assumes "inv s" "alloc s = Some (r, s')"
  shows "r \<noteq> -1 \<longleftrightarrow> free s \<noteq> {}"
  using assms by (cases rule: alloc_cases) auto

end

interpretation fl: slot_allocator "\<lambda>f. fla_flist_entries_alloc f 1" fla_flist_entry_free flist_inv
  flist_cap flist_free
proof (unfold_locales, goal_cases)
  case (4 s)
  then show ?case
    using fla_flist_entries_alloc_one [OF 4(1)] flist_upd_clear [OF 4(1) flist_free_Min(1) [OF 4]]
    by (intro exI [of _ "Min (flist_free s)"]) (auto simp: flist_upd_def)
next
  case (5 s i)
  then show ?case
    using fla_flist_entry_free_ok [OF 5] flist_upd_set [OF 5] by (auto simp: flist_upd_def)
qed (auto simp: flist_inv_def flist_free_def fla_flist_entries_alloc_one)

section \<open>Aligned runs\<close>

text \<open>
  A striped pool takes and gives back runs of \<open>n\<close> entries. When the free entries form whole
  blocks of \<open>n\<close>, a run is one block and blocks stay whole.
\<close>

definition block_closed :: "nat \<Rightarrow> nat set \<Rightarrow> bool" where
  "block_closed n S \<longleftrightarrow> (\<forall>i\<in>S. {n * (i div n)..<n * (i div n) + n} \<subseteq> S)"

lemma block_closed_Min:
  assumes "block_closed n S" "0 < n" "finite S" "S \<noteq> {}"
  shows "n dvd Min S" "{Min S..<Min S + n} \<subseteq> S"
proof -
  have m: "Min S \<in> S" using assms by simp
  with assms(1) have b: "{n * (Min S div n)..<n * (Min S div n) + n} \<subseteq> S"
    unfolding block_closed_def by blast
  then have "n * (Min S div n) \<in> S" using assms(2) by auto
  then have "Min S \<le> n * (Min S div n)" using assms(3) by simp
  moreover have "n * (Min S div n) \<le> Min S" by simp
  ultimately have "n * (Min S div n) = Min S" by linarith
  then show "n dvd Min S" "{Min S..<Min S + n} \<subseteq> S" using b by (metis dvd_triv_left, simp)
qed

lemma in_block_iff: "0 < n \<Longrightarrow> i \<in> {n * q..<n * q + n} \<longleftrightarrow> i div n = (q::nat)"
  by (auto simp: div_nat_eqI algebra_simps) (metis div_le_mono div_mult_self1_is_m dividend_less_div_times
    add.commute mult.commute times_div_less_eq_dividend)+

lemma block_closed_minus:
  assumes "block_closed n S" "0 < n" "n dvd m"
  shows "block_closed n (S - {m..<m + n})"
proof -
  from assms(3) obtain q where m: "m = n * q" by blast
  then have out: "i \<notin> {m..<m + n} \<longleftrightarrow> i div n \<noteq> q" for i using in_block_iff [OF assms(2)] by simp
  show ?thesis
    using assms(1) in_block_iff [OF assms(2)] unfolding block_closed_def out m
    by (auto simp: subset_iff)
qed

lemma block_closed_init: "n dvd cap \<Longrightarrow> block_closed n {..<cap}"
proof (cases "n = 0")
  case False
  assume "n dvd cap"
  then obtain q where q: "cap = n * q" by blast
  have "n * (i div n) + n \<le> n * q" if "i < n * q" for i
  proof -
    have "Suc (i div n) \<le> q" using that by (simp add: Suc_le_eq less_mult_imp_div_less mult.commute)
    then have "n * Suc (i div n) \<le> n * q" by (rule mult_le_mono2)
    then show ?thesis by simp
  qed
  then show ?thesis by (auto simp: block_closed_def q) (meson less_le_trans)
qed (simp add: block_closed_def)

lemma fla_flist_search_wfunc_run:
  assumes "flist_inv fl" "flags AND 1 \<noteq> 0"
  shows "fla_flist_search_wfunc fl flags f s = do {
      st \<leftarrow> search_seq f (filter (\<lambda>k. k \<notin> flist_free fl) [0..<flist_search_bound (flist_cap fl)]) 0 s;
      (case st of Search_Return r found s \<Rightarrow> Some (r, Some found, s)
       | Search_Next found s \<Rightarrow> Some (0, Some found, s))
    }"
proof -
  have "flist_search_bound (flist_cap fl) \<le> flist_cap fl" by (simp add: flist_search_bound_eq)
  then have "filter (\<lambda>k. k \<notin> flist_free fl) [0..<flist_search_bound (flist_cap fl)]
      = filter (\<lambda>k. \<not> fbit fl k) [0..<flist_search_bound (flist_cap fl)]"
    by (intro filter_cong) (auto simp: flist_free_def)
  moreover have "unat (ucast (FLA_FREELIST_U32_ELEMS (fl ! 0)) :: u32) = flist_words (flist_cap fl)"
    by (rule flist_elems_cap)
  ultimately show ?thesis
    using assms flist_search_from_eq [OF assms(1), of _ 0 f 0 s]
    by (cases "search_seq f (filter (\<lambda>k. \<not> fbit fl k) [0..<flist_search_bound (flist_cap fl)]) 0 s")
      (auto simp: fla_flist_search_wfunc_def flist_inv_rd0 split: search_step.split)
qed

section \<open>Properties\<close>

lemma flist_inv_small:
  assumes "0 < n" "n < 32"
  shows "flist_inv [of_nat n, w AND mask n]" "flist_cap [of_nat n, w AND mask n] = n"
proof -
  have "unat (of_nat n :: u32) = n" using assms by (simp add: unat_of_nat_small)
  then show c: "flist_cap [of_nat n, w AND mask n] = n" by (simp add: flist_cap_def)
  have "flist_words n = 1" using assms by (auto intro: div_nat_eqI)
  moreover have "\<not> fbit [of_nat n, w AND mask n] i" if "n \<le> i" "i < 32" for i
    using that by (auto simp: fbit_def bit_simps)
  ultimately show "flist_inv [of_nat n, w AND mask n]"
    unfolding flist_inv_def c using assms by auto
qed

text \<open>
  A freelist of five entries with entries 1 and 4 free, and one of 32 entries with entry 0
  reserved.
\<close>

lemma flist_example: "flist_inv [5, 18]" "flist_cap [5, 18] = 5" "flist_free [5, 18] = {1, 4}"
proof -
  have "(18 :: u32) AND mask 5 = 18" by (simp add: mask_eq_exp_minus_1)
  then show "flist_inv [5, 18]" "flist_cap [5, 18] = 5"
    using flist_inv_small [of 5 18] by simp_all
  have "{..<5} = {0, 1, 2, 3, 4 :: nat}" by auto
  moreover have "fbit [5, 18] 1" "fbit [5, 18] 4" "\<not> fbit [5, 18] 0" "\<not> fbit [5, 18] 2" "\<not> fbit [5, 18] 3"
    by (simp_all add: fbit_def bit_iff_odd)
  ultimately show "flist_free [5, 18] = {1, 4}"
    unfolding flist_free_def \<open>flist_cap [5, 18] = 5\<close> by auto
qed

text \<open>
  Initialising a freelist of \<open>len\<close> entries on a buffer of the size \<open>fla_flist_size\<close>
  asks for succeeds without touching memory outside it, and every entry, and no other bit, is
  free.
\<close>

theorem fla_flist_init_all_free:
  assumes "0 < unat len" "unat len < 2 ^ 31" "unat (fla_flist_size len) \<le> 4 * length f"
  shows "\<exists>f'. fla_flist_init f len = Some f' \<and> flist_inv f' \<and> length f' = length f
    \<and> flist_cap f' = unat len \<and> flist_free f' = {..<unat len}"
  using assms by (intro fla_flist_init_free) (auto simp: fla_flist_size_nat)

theorem fla_flist_init_all_free_witness:
  "\<exists>f'. fla_flist_init [0, 0, 0] 40 = Some f' \<and> flist_inv f' \<and> length f' = 3
    \<and> flist_cap f' = 40 \<and> flist_free f' = {..<40}"
  using fla_flist_init_all_free [of 40 "[0, 0, 0]"] by (simp add: fla_flist_size_nat numeral_3_eq_3)

text \<open>
  C14: Allocation of one entry is first fit: it fails with -1 and changes nothing exactly when
  no entry is free; otherwise it returns the least free index and takes it and no other.
\<close>

theorem fla_flist_alloc_first_fit:
  assumes "flist_inv f"
  shows "\<exists>r f'. fla_flist_entries_alloc f 1 = Some (r, f') \<and> flist_inv f' \<and> flist_cap f' = flist_cap f
    \<and> (if flist_free f = {} then r = -1 \<and> f' = f
       else r = int (Min (flist_free f)) \<and> flist_free f' = flist_free f - {Min (flist_free f)})"
  using fla_flist_entries_alloc_one [OF assms] assms flist_free_Min(1) [OF assms]
    flist_inv_clear [OF assms] flist_free_clear [OF assms]
  by (cases "flist_free f = {}") auto

theorem fla_flist_alloc_first_fit_witness:
  "\<exists>f'. fla_flist_entries_alloc [5, 18] 1 = Some (1, f') \<and> flist_free f' = {4}"
  using fla_flist_alloc_first_fit [OF flist_example(1)] by (auto simp: flist_example)

text \<open>
  C25: An entry that was allocated can be released, and allocation followed by release gives
  back the same set of free entries.
\<close>

theorem fla_flist_alloc_free_roundtrip:
  assumes "flist_inv f" "fla_flist_entries_alloc f 1 = Some (r, f')" "r \<noteq> -1"
  shows "\<exists>f''. fla_flist_entry_free f' (of_int r) = Some (0, f'') \<and> flist_inv f''
    \<and> flist_cap f'' = flist_cap f \<and> flist_free f'' = flist_free f"
  using assms by (rule fl.alloc_release)

theorem fla_flist_alloc_free_roundtrip_witness:
  "\<exists>f''. fla_flist_entry_free (flist_clear [5, 18] 1) 1 = Some (0, f'') \<and> flist_free f'' = {1, 4}"
  using fla_flist_alloc_free_roundtrip [OF flist_example(1), of 1 "flist_clear [5, 18] 1"]
    fla_flist_entries_alloc_one [OF flist_example(1)]
  by (auto simp: flist_example)

text \<open>
  \<open>fla_flist_num_reserved\<close>, which counts set bits word by word with the population
  count, returns the number of entries that are not free.
\<close>

theorem fla_flist_num_reserved_card:
  assumes "flist_inv f"
  shows "\<exists>n. fla_flist_num_reserved f = Some n \<and> unat n = card ({..<flist_cap f} - flist_free f)"
proof -
  have sub: "flist_free f \<subseteq> {..<flist_cap f}" by (auto simp: flist_free_def)
  then have "card ({..<flist_cap f} - flist_free f) = flist_cap f - card (flist_free f)"
    by (simp add: card_Diff_subset)
  moreover have "flist_cap f < 2 ^ 32" using assms by (simp add: flist_inv_def)
  ultimately show ?thesis
    using fla_flist_num_reserved_eq [OF assms] by (auto simp: unat_of_nat_small)
qed

theorem fla_flist_num_reserved_card_witness:
  "\<exists>n. fla_flist_num_reserved [5, 18] = Some n \<and> unat n = 3"
  using fla_flist_num_reserved_card [OF flist_example(1)]
  by (auto simp: flist_example card_Diff_subset)

text \<open>
  When the free entries form whole blocks of \<open>n\<close>, as they do at the start for a length
  that \<open>n\<close> divides, allocating \<open>n\<close> entries takes one whole block and returns its first
  index, a multiple of \<open>n\<close>; the remaining free entries still form whole blocks.
\<close>

theorem fla_flist_entries_alloc_block:
  assumes "flist_inv f" "num \<noteq> 0" "flist_free f \<noteq> {}" "block_closed (unat num) (flist_free f)"
  shows "\<exists>m f'. fla_flist_entries_alloc f num = Some (int m, f') \<and> unat num dvd m
    \<and> {m..<m + unat num} \<subseteq> flist_free f \<and> flist_inv f' \<and> flist_cap f' = flist_cap f
    \<and> flist_free f' = flist_free f - {m..<m + unat num} \<and> block_closed (unat num) (flist_free f')"
proof -
  define m where "m = Min (flist_free f)"
  have "0 < unat num" using assms(2) by (simp add: unat_gt_0)
  note b = block_closed_Min [OF assms(4) this finite_flist_free assms(3), folded m_def]
  from fla_flist_entries_alloc_run [OF assms(1-3)] b(2) obtain f' where
    "fla_flist_entries_alloc f num = Some (int m, f')"
    "flist_upd f f' (flist_free f - {m..<m + unat num})" unfolding m_def by blast
  with b block_closed_minus [OF assms(4) \<open>0 < unat num\<close> b(1)] show ?thesis
    by (auto simp: flist_upd_def)
qed

theorem fla_flist_entries_alloc_block_witness:
  "\<exists>f m f'. fla_flist_init [0, 0] 6 = Some f \<and> fla_flist_entries_alloc f 3 = Some (int m, f')
    \<and> 3 dvd m \<and> flist_free f' = {..<6} - {m..<m + 3}"
proof -
  from fla_flist_init_free [of 6 "[0, 0]"] obtain f where f: "fla_flist_init [0, 0] 6 = Some f"
    "flist_inv f" "flist_free f = {..<6}" by auto
  moreover have "block_closed 3 {..<6}" by (rule block_closed_init) simp
  ultimately show ?thesis
    using fla_flist_entries_alloc_block [OF f(2), of 3] by (simp add: lessThan_empty_iff) blast
qed

text \<open>
  The header promises that with the flag the search returns on the first find. It goes on: here all
  three reserved entries are visited although the function finds the first.
\<close>

lemma flist_search_past_find:
  "fla_flist_search_wfunc [5, 18] 1 (\<lambda>s i. Some (1, i # s)) [] = Some (0, Some 3, [3, 2, 0])"
proof -
  have "[0..<5] = [0, 1, 2, 3, 4]" by (simp add: upt_rec)
  then show ?thesis
    using fla_flist_search_wfunc_run [OF flist_example(1), of 1 "\<lambda>s i. Some (1, i # s)" "[]"]
    by (simp add: flist_example flist_search_bound_eq)
qed

text \<open>Of 32 reserved entries none is visited.\<close>

lemma flist_search_last_word: "fla_flist_search_wfunc [32, 0] 1 f s = Some (0, Some 0, s)"
proof -
  have "flist_inv [32, 0]" "flist_cap [32, 0] = 32" by (auto simp: flist_inv_def flist_cap_def fbit_def nth_Cons')
  then show ?thesis
    using fla_flist_search_wfunc_run [of "[32, 0]" 1 f s] by (simp add: flist_search_bound_eq)
qed

end
