(* ===== verification/Fla_Hash.thy ===== *)
theory Fla_Hash
  imports Fla_Util
begin

text \<open>
  \<open>src/src/flexalloc_hash.c\<close>: the two string hashes, the compression of a hash to a table
  index, and the hash table with Robin Hood placement: an entry keeps the distance from the
  index its key hashes to (its probe sequence length), an insertion displaces entries that
  are nearer to their index, and a removal shifts the following entries back.

  A table pointer is an \<open>option\<close>, \<open>None\<close> for \<open>NULL\<close>; an entry pointer is an index. The
  loops of the code have no bound of their own, so they are \<open>partial_function\<close>s, and that
  they return is part of what is proved. Characters are signed, as on the platforms the code
  is built for.
\<close>

section \<open>Definitions\<close>

definition FLA_HTBL_ENTRY_UNSET :: u64 where
  "FLA_HTBL_ENTRY_UNSET = NOT 0"

definition fla_hash_djb2 :: "u8 list \<Rightarrow> u64" where
  "fla_hash_djb2 key = foldl (\<lambda>hash c. (push_bit 5 hash + hash) + scast c) 5381 (cstr key)"

definition fla_hash_sdbm :: "u8 list \<Rightarrow> u64" where
  "fla_hash_sdbm key =
     foldl (\<lambda>hash c. scast c + push_bit 6 hash + push_bit 16 hash - hash) 0 (cstr key)"

text \<open>A remainder by 0 has no result.\<close>

definition fla_mad_compression :: "u64 \<Rightarrow> u64 \<Rightarrow> u64 \<Rightarrow> u64 \<Rightarrow> u64 option" where
  "fla_mad_compression key a b n = (if n = 0 then None else Some ((a * key + b) mod n))"

abbreviation FLA_HTBL_H1 :: "u8 list \<Rightarrow> u64" where
  "FLA_HTBL_H1 \<equiv> fla_hash_djb2"

abbreviation FLA_HTBL_H2 :: "u8 list \<Rightarrow> u64" where
  "FLA_HTBL_H2 \<equiv> fla_hash_sdbm"

definition FLA_HTBL_COMPRESS :: "u64 \<Rightarrow> u32 \<Rightarrow> u64 option" where
  "FLA_HTBL_COMPRESS hval tbl_size = fla_mad_compression hval 31 5745 (ucast tbl_size)"

record fla_htbl_entry =
  he_h2 :: u64
  he_val :: u32
  he_psl :: u16

record fla_htbl =
  ht_tbl :: "fla_htbl_entry list option"
  ht_tbl_size :: u32
  ht_len :: u32
  ht_stat_insert_calls :: u32
  ht_stat_insert_failed :: u32
  ht_stat_insert_tries :: u32

definition htbl_unset_entry :: fla_htbl_entry where
  "htbl_unset_entry = \<lparr>he_h2 = FLA_HTBL_ENTRY_UNSET, he_val = 0, he_psl = 0\<rparr>"

definition fla_htbl_entries_init :: "fla_htbl_entry list \<Rightarrow> u32 \<Rightarrow> fla_htbl_entry list option" where
  "fla_htbl_entries_init tbl tbl_size =
     (let n = unat tbl_size
      in if length tbl < n then None
         else Some (map (\<lambda>_. htbl_unset_entry) (take n tbl) @ drop n tbl))"

text \<open>\<open>htbl_init\<close>: \<open>alloc_ok\<close> is whether \<open>calloc\<close> gave the table, which is then all zero.\<close>

definition htbl_init :: "bool \<Rightarrow> fla_htbl \<Rightarrow> u32 \<Rightarrow> (errcode \<times> fla_htbl) option" where
  "htbl_init alloc_ok htbl tbl_size =
     (if ht_tbl htbl \<noteq> None then Some (1, htbl)
      else if \<not> alloc_ok then Some (- ENOMEM, htbl)
      else do {
        let table = replicate (unat tbl_size) \<lparr>he_h2 = 0, he_val = 0, he_psl = 0\<rparr>;
        table \<leftarrow> fla_htbl_entries_init table tbl_size;
        Some (0, htbl\<lparr>ht_tbl := Some table, ht_tbl_size := tbl_size,
          ht_len := 0, ht_stat_insert_calls := 0, ht_stat_insert_failed := 0,
          ht_stat_insert_tries := 0\<rparr>)
      })"

text \<open>\<open>htbl_new\<close>: \<open>uninit\<close> is the memory \<open>malloc\<close> returned; \<open>None\<close> when it returned none.\<close>

definition htbl_new :: "fla_htbl option \<Rightarrow> bool \<Rightarrow> u32 \<Rightarrow> (errcode \<times> fla_htbl option) option" where
  "htbl_new uninit alloc_ok tbl_size =
     (case uninit of
        None \<Rightarrow> Some (- ENOMEM, None)
      | Some htbl \<Rightarrow> do {
          (err, htbl) \<leftarrow> htbl_init alloc_ok (htbl\<lparr>ht_tbl := None\<rparr>) tbl_size;
          if err \<noteq> 0 then Some (err, None) else Some (0, Some htbl)
        })"

definition htbl_next :: "fla_htbl \<Rightarrow> nat \<Rightarrow> nat" where
  "htbl_next htbl ndx = (let ndx = ndx + 1 in if ndx = unat (ht_tbl_size htbl) then 0 else ndx)"

partial_function (option) htbl_insert_loop ::
  "fla_htbl \<Rightarrow> nat \<Rightarrow> fla_htbl_entry \<Rightarrow> u32 \<Rightarrow> (int \<times> fla_htbl) option" where
  "htbl_insert_loop htbl ndx current n_tries = do {
     tbl \<leftarrow> ht_tbl htbl;
     entry \<leftarrow> rd tbl ndx;
     let n_tries = n_tries + 1;
     if he_h2 entry = FLA_HTBL_ENTRY_UNSET
     then Some (0, htbl\<lparr>ht_tbl := Some (tbl[ndx := current]), ht_len := ht_len htbl + 1,
            ht_stat_insert_tries := ht_stat_insert_tries htbl + n_tries\<rparr>)
     else if he_psl entry < he_psl current
     then htbl_insert_loop (htbl\<lparr>ht_tbl := Some (tbl[ndx := current])\<rparr>) (htbl_next htbl ndx)
            (entry\<lparr>he_psl := he_psl entry + 1\<rparr>) n_tries
     else if he_h2 entry = he_h2 current
     then Some (0, htbl\<lparr>ht_tbl := Some (tbl[ndx := entry\<lparr>he_val := he_val current\<rparr>])\<rparr>)
     else htbl_insert_loop htbl (htbl_next htbl ndx)
            (current\<lparr>he_psl := he_psl current + 1\<rparr>) n_tries
   }"

definition htbl_insert :: "fla_htbl \<Rightarrow> u8 list \<Rightarrow> u32 \<Rightarrow> (int \<times> fla_htbl) option" where
  "htbl_insert htbl key val = do {
     ndx \<leftarrow> FLA_HTBL_COMPRESS (FLA_HTBL_H1 key) (ht_tbl_size htbl);
     let current = \<lparr>he_h2 = FLA_HTBL_H2 key, he_val = val, he_psl = 0\<rparr>;
     let htbl = htbl\<lparr>ht_stat_insert_calls := ht_stat_insert_calls htbl + 1\<rparr>;
     if ht_len htbl = ht_tbl_size htbl then Some (2, htbl)
     else htbl_insert_loop htbl (unat ndx) current 0
   }"

text \<open>\<open>__htbl_lookup\<close>: the index of the entry, or \<open>None\<close> for \<open>NULL\<close>.\<close>

partial_function (option) htbl_lookup_at :: "fla_htbl \<Rightarrow> u64 \<Rightarrow> nat \<Rightarrow> u32 \<Rightarrow> nat option option" where
  "htbl_lookup_at htbl h2 ndx psl = do {
     tbl \<leftarrow> ht_tbl htbl;
     entry \<leftarrow> rd tbl ndx;
     if he_h2 entry = h2 then Some (Some ndx)
     else if he_h2 entry = FLA_HTBL_ENTRY_UNSET \<or> ucast (he_psl entry) < psl then Some None
     else htbl_lookup_at htbl h2 (htbl_next htbl ndx) (psl + 1)
   }"

definition htbl_lookup_h2 :: "fla_htbl \<Rightarrow> u64 \<Rightarrow> nat \<Rightarrow> nat option option" where
  "htbl_lookup_h2 htbl h2 ndx = htbl_lookup_at htbl h2 ndx 0"

definition htbl_lookup :: "fla_htbl \<Rightarrow> u8 list \<Rightarrow> nat option option" where
  "htbl_lookup htbl key = do {
     ndx \<leftarrow> FLA_HTBL_COMPRESS (FLA_HTBL_H1 key) (ht_tbl_size htbl);
     htbl_lookup_h2 htbl (FLA_HTBL_H2 key) (unat ndx)
   }"

partial_function (option) htbl_remove_loop :: "fla_htbl \<Rightarrow> nat \<Rightarrow> fla_htbl option" where
  "htbl_remove_loop htbl entry = do {
     tbl \<leftarrow> ht_tbl htbl;
     let nxt = htbl_next htbl entry;
     n \<leftarrow> rd tbl nxt;
     e \<leftarrow> rd tbl entry;
     if he_psl n = 0
     then Some (htbl\<lparr>ht_tbl := Some (tbl[entry := e\<lparr>he_h2 := FLA_HTBL_ENTRY_UNSET, he_psl := 0\<rparr>]),
            ht_len := ht_len htbl - 1\<rparr>)
     else htbl_remove_loop (htbl\<lparr>ht_tbl := Some (tbl[entry := n\<lparr>he_psl := he_psl n - 1\<rparr>])\<rparr>) nxt
   }"

definition htbl_remove :: "fla_htbl \<Rightarrow> u8 list \<Rightarrow> fla_htbl option" where
  "htbl_remove htbl key = do {
     ndx \<leftarrow> FLA_HTBL_COMPRESS (FLA_HTBL_H1 key) (ht_tbl_size htbl);
     found \<leftarrow> htbl_lookup_h2 htbl (FLA_HTBL_H2 key) (unat ndx);
     (case found of None \<Rightarrow> Some htbl | Some entry \<Rightarrow> htbl_remove_loop htbl entry)
   }"

section \<open>Positions on a ring\<close>

definition nxt :: "nat \<Rightarrow> nat \<Rightarrow> nat" where
  "nxt n i = (if Suc i = n then 0 else Suc i)"

definition ring_dist :: "nat \<Rightarrow> nat \<Rightarrow> nat \<Rightarrow> nat" where
  "ring_dist n h i = (if h \<le> i then i - h else i + n - h)"

lemmas ring_defs = nxt_def ring_dist_def

lemma nxt_less [simp]: "i < n \<Longrightarrow> nxt n i < n"
  by (auto simp: nxt_def)

lemma nxt_inj: "i < n \<Longrightarrow> j < n \<Longrightarrow> nxt n i = nxt n j \<longleftrightarrow> i = j"
  by (auto simp: nxt_def split: if_splits)

lemma ring_dist_less: "h < n \<Longrightarrow> i < n \<Longrightarrow> ring_dist n h i < n"
  by (auto simp: ring_dist_def)

lemma ring_dist_self [simp]: "ring_dist n h h = 0"
  by (simp add: ring_dist_def)

lemma ring_dist_zero_iff: "h < n \<Longrightarrow> i < n \<Longrightarrow> ring_dist n h i = 0 \<longleftrightarrow> i = h"
  by (auto simp: ring_dist_def split: if_splits)

lemma ring_dist_inj: "h < n \<Longrightarrow> i < n \<Longrightarrow> j < n \<Longrightarrow> ring_dist n h i = ring_dist n h j \<longleftrightarrow> i = j"
  by (auto simp: ring_dist_def split: if_splits)

lemma ring_dist_nxt:
  "h < n \<Longrightarrow> i < n \<Longrightarrow> Suc (ring_dist n h i) < n \<Longrightarrow> ring_dist n h (nxt n i) = Suc (ring_dist n h i)"
  by (auto simp: ring_defs split: if_splits)

lemma ring_dist_nxt_eq:
  "h < n \<Longrightarrow> i < n \<Longrightarrow> nxt n i \<noteq> h \<Longrightarrow> ring_dist n h (nxt n i) = Suc (ring_dist n h i)"
  by (auto simp: ring_defs split: if_splits)

text \<open>Moving on brings a slot ahead nearer.\<close>

lemma ring_dist_ahead:
  "i < n \<Longrightarrow> e < n \<Longrightarrow> i \<noteq> e \<Longrightarrow> ring_dist n i e = Suc (ring_dist n (nxt n i) e)"
  by (auto simp: ring_defs split: if_splits)

section \<open>The Robin Hood invariant\<close>

text \<open>
  \<open>hm\<close> gives the index a stored secondary hash belongs to. \<open>rank\<close> is 0 for an unset slot
  and one more than the probe sequence length for an entry; from one slot to the next it
  grows by at most one. \<open>rh_at\<close> and \<open>rh_uniq\<close> say that an entry's probe sequence length
  is its distance from its index, and that no hash is stored twice.
\<close>

abbreviation occ :: "fla_htbl_entry \<Rightarrow> bool" where
  "occ e \<equiv> he_h2 e \<noteq> FLA_HTBL_ENTRY_UNSET"

definition rank :: "fla_htbl_entry \<Rightarrow> nat" where
  "rank e = (if occ e then Suc (unat (he_psl e)) else 0)"

definition rh_ord :: "fla_htbl_entry list \<Rightarrow> bool" where
  "rh_ord T \<longleftrightarrow> (\<forall>i<length T. rank (T ! nxt (length T) i) \<le> Suc (rank (T ! i)))"

definition rh_at :: "(u64 \<Rightarrow> nat) \<Rightarrow> fla_htbl_entry list \<Rightarrow> bool" where
  "rh_at hm T \<longleftrightarrow> (\<forall>i<length T. occ (T ! i) \<longrightarrow>
     hm (he_h2 (T ! i)) < length T \<and> unat (he_psl (T ! i)) = ring_dist (length T) (hm (he_h2 (T ! i))) i)"

definition rh_uniq :: "fla_htbl_entry list \<Rightarrow> bool" where
  "rh_uniq T \<longleftrightarrow> (\<forall>i<length T. \<forall>j<length T.
     occ (T ! i) \<longrightarrow> he_h2 (T ! i) = he_h2 (T ! j) \<longrightarrow> i = j)"

definition rh_unset :: "fla_htbl_entry list \<Rightarrow> bool" where
  "rh_unset T \<longleftrightarrow> (\<forall>i<length T. occ (T ! i) \<or> he_psl (T ! i) = 0)"

definition rh_table :: "(u64 \<Rightarrow> nat) \<Rightarrow> fla_htbl_entry list \<Rightarrow> bool" where
  "rh_table hm T \<longleftrightarrow> length T \<le> 2 ^ 16 \<and> rh_ord T \<and> rh_at hm T \<and> rh_uniq T \<and> rh_unset T"

definition rh_count :: "fla_htbl_entry list \<Rightarrow> nat" where
  "rh_count T = card {i. i < length T \<and> occ (T ! i)}"

definition rh_map :: "fla_htbl_entry list \<Rightarrow> u64 \<rightharpoonup> u32" where
  "rh_map T = map_of (map (\<lambda>e. (he_h2 e, he_val e)) (filter occ T))"

lemma rh_map_Some:
  assumes "rh_uniq T"
  shows "rh_map T k = Some v \<longleftrightarrow> (\<exists>i<length T. occ (T ! i) \<and> he_h2 (T ! i) = k \<and> he_val (T ! i) = v)"
proof
  assume "rh_map T k = Some v"
  then have "(k, v) \<in> set (map (\<lambda>e. (he_h2 e, he_val e)) (filter occ T))"
    unfolding rh_map_def by (rule map_of_SomeD)
  then show "\<exists>i<length T. occ (T ! i) \<and> he_h2 (T ! i) = k \<and> he_val (T ! i) = v"
    by (auto simp: in_set_conv_nth)
next
  assume "\<exists>i<length T. occ (T ! i) \<and> he_h2 (T ! i) = k \<and> he_val (T ! i) = v"
  then obtain i where i: "i < length T" "occ (T ! i)" "he_h2 (T ! i) = k" "he_val (T ! i) = v" by blast
  then have "k \<in> dom (rh_map T)"
    unfolding rh_map_def dom_map_of_conv_image_fst by (force simp: in_set_conv_nth)
  then obtain v' where v': "rh_map T k = Some v'" by blast
  then have "(k, v') \<in> set (map (\<lambda>e. (he_h2 e, he_val e)) (filter occ T))"
    unfolding rh_map_def by (rule map_of_SomeD)
  then obtain j where "j < length T" "occ (T ! j)" "he_h2 (T ! j) = k" "he_val (T ! j) = v'"
    by (auto simp: in_set_conv_nth)
  with i assms v' show "rh_map T k = Some v" unfolding rh_uniq_def by metis
qed

lemma rh_map_None:
  assumes "rh_uniq T"
  shows "rh_map T k = None \<longleftrightarrow> (\<forall>i<length T. occ (T ! i) \<longrightarrow> he_h2 (T ! i) \<noteq> k)"
  using rh_map_Some [OF assms, of k] by (cases "rh_map T k") auto

lemma rh_map_eqI: "(\<And>k v. m k = Some v \<longleftrightarrow> m' k = Some v) \<Longrightarrow> m = m'"
  by (metis ext not_None_eq)

text \<open>From a slot to one ahead, the rank grows by at most the distance.\<close>

lemma rh_ord_ahead:
  assumes "rh_ord T" "h < length T" "i < length T" "j < length T"
    "ring_dist (length T) h i \<le> ring_dist (length T) h j"
  shows "rank (T ! j) + ring_dist (length T) h i \<le> rank (T ! i) + ring_dist (length T) h j"
  using assms(3,5)
proof (induction "ring_dist (length T) h j - ring_dist (length T) h i" arbitrary: i)
  case 0
  then have "i = j" using ring_dist_inj assms(2,4) by (metis diff_is_0_eq' le_antisym diff_is_0_eq)
  then show ?case by simp
next
  case (Suc d)
  have "Suc (ring_dist (length T) h i) < length T"
    using Suc.hyps(2) ring_dist_less [OF assms(2,4)] by linarith
  then have n: "ring_dist (length T) h (nxt (length T) i) = Suc (ring_dist (length T) h i)"
    using assms(2) Suc.prems(1) by (simp add: ring_dist_nxt)
  moreover have "rank (T ! nxt (length T) i) \<le> Suc (rank (T ! i))"
    using assms(1) Suc.prems(1) by (simp add: rh_ord_def)
  moreover have "d = ring_dist (length T) h j - ring_dist (length T) h (nxt (length T) i)"
    "nxt (length T) i < length T"
    "ring_dist (length T) h (nxt (length T) i) \<le> ring_dist (length T) h j"
    using n Suc.hyps(2) Suc.prems by simp_all
  note Suc.hyps(1) [OF this]
  ultimately show ?case by linarith
qed

text \<open>Every slot between the index of a stored hash and its entry is at least as far out.\<close>

lemma rh_between:
  assumes "rh_ord T" "rh_at hm T" "j < length T" "occ (T ! j)" "i < length T"
    "ring_dist (length T) (hm (he_h2 (T ! j))) i \<le> unat (he_psl (T ! j))"
  shows "occ (T ! i) \<and> ring_dist (length T) (hm (he_h2 (T ! j))) i \<le> unat (he_psl (T ! i))"
proof -
  from assms(2-4) have "hm (he_h2 (T ! j)) < length T"
    "unat (he_psl (T ! j)) = ring_dist (length T) (hm (he_h2 (T ! j))) j"
    by (auto simp: rh_at_def)
  with rh_ord_ahead [OF assms(1) this(1) assms(5,3)] assms(4,6) show ?thesis
    by (auto simp: rank_def split: if_splits)
qed

lemma htbl_next_nxt: "length T = unat (ht_tbl_size H) \<Longrightarrow> htbl_next H i = nxt (length T) i"
  by (simp add: htbl_next_def nxt_def)

section \<open>Lookup\<close>

lemma rh_absent:
  assumes "rh_table hm T" "ndx < length T" "k \<noteq> FLA_HTBL_ENTRY_UNSET"
    "\<forall>i<length T. he_h2 (T ! i) = k \<longrightarrow> ring_dist (length T) (hm k) ndx \<le> ring_dist (length T) (hm k) i"
    "\<not> occ (T ! ndx) \<or> unat (he_psl (T ! ndx)) < ring_dist (length T) (hm k) ndx"
  shows "\<forall>i<length T. he_h2 (T ! i) \<noteq> k"
proof (intro allI impI notI)
  fix j assume j: "j < length T" "he_h2 (T ! j) = k"
  have ord: "rh_ord T" "rh_at hm T" using assms(1) by (auto simp: rh_table_def)
  have "unat (he_psl (T ! j)) = ring_dist (length T) (hm k) j"
    using ord(2) j assms(3) by (auto simp: rh_at_def)
  with rh_between [OF ord j(1) _ assms(2)] assms(3,4,5) j show False by auto
qed

lemma htbl_lookup_at_wrapped:
  assumes "ht_tbl H = Some T" "rh_table hm T" "0 < length T" "ndx < length T" "unat psl = length T"
    "he_h2 (T ! ndx) \<noteq> k"
  shows "htbl_lookup_at H k ndx psl = Some None"
proof -
  have "occ (T ! ndx) \<Longrightarrow> unat (he_psl (T ! ndx)) < length T"
    using assms(2,4) ring_dist_less by (auto simp: rh_table_def rh_at_def)
  then have "\<not> occ (T ! ndx) \<or> ucast (he_psl (T ! ndx)) < psl"
    using assms(5) by (auto simp: word_less_nat_alt unat_ucast_widen)
  with assms show ?thesis by (subst htbl_lookup_at.simps) auto
qed

lemma htbl_lookup_at_spec:
  assumes T: "ht_tbl H = Some T" "length T = unat (ht_tbl_size H)" "rh_table hm T"
    and k: "k \<noteq> FLA_HTBL_ENTRY_UNSET" "hm k < length T"
    and ndx: "ndx < length T" "ring_dist (length T) (hm k) ndx = unat psl"
    and seen: "\<forall>i<length T. he_h2 (T ! i) = k \<longrightarrow> unat psl \<le> ring_dist (length T) (hm k) i"
  shows "\<exists>r. htbl_lookup_at H k ndx psl = Some r \<and>
    (case r of None \<Rightarrow> \<forall>i<length T. he_h2 (T ! i) \<noteq> k | Some j \<Rightarrow> j < length T \<and> he_h2 (T ! j) = k)"
  using ndx seen
proof (induction "length T - unat psl" arbitrary: ndx psl rule: less_induct)
  case less
  have n: "length T \<le> 2 ^ 16" using T(3) by (simp add: rh_table_def)
  have lt: "unat psl < length T" using ring_dist_less [OF k(2) less.prems(1)] less.prems(2) by simp
  have p1: "unat (psl + 1) = Suc (unat psl)" using lt n by (subst unat_add_no_wrap) auto
  consider (hit) "he_h2 (T ! ndx) = k"
    | (stop) "he_h2 (T ! ndx) \<noteq> k" "\<not> occ (T ! ndx) \<or> unat (he_psl (T ! ndx)) < unat psl"
    | (on) "he_h2 (T ! ndx) \<noteq> k" "occ (T ! ndx)" "\<not> unat (he_psl (T ! ndx)) < unat psl" by blast
  then show ?case
  proof cases
    case hit
    with T less.prems show ?thesis by (subst htbl_lookup_at.simps) auto
  next
    case stop
    have "\<forall>i<length T. he_h2 (T ! i) \<noteq> k"
      using rh_absent [OF T(3) less.prems(1) k(1)] less.prems(2,3) stop(2) by simp
    with stop T less.prems show ?thesis
      by (subst htbl_lookup_at.simps) (auto simp: word_less_nat_alt unat_ucast_widen)
  next
    case on
    let ?n = "nxt (length T) ndx"
    have step: "htbl_lookup_at H k ndx psl = htbl_lookup_at H k ?n (psl + 1)"
      using on T less.prems(1)
      by (subst htbl_lookup_at.simps) (simp add: word_less_nat_alt unat_ucast_widen htbl_next_nxt)
    have seen': "unat (psl + 1) \<le> ring_dist (length T) (hm k) i" if "i < length T" "he_h2 (T ! i) = k" for i
    proof -
      have "i \<noteq> ndx" using that on(1) by auto
      then have "ring_dist (length T) (hm k) i \<noteq> unat psl"
        using ring_dist_inj [OF k(2) that(1) less.prems(1)] less.prems(2) by simp
      with less.prems(3) that p1 show ?thesis by (metis Suc_leI le_neq_implies_less)
    qed
    show ?thesis
    proof (cases "Suc (unat psl) < length T")
      case True
      then have "ring_dist (length T) (hm k) ?n = unat (psl + 1)"
        using ring_dist_nxt [OF k(2) less.prems(1)] less.prems(2) p1 by simp
      with less.hyps [of "psl + 1" ?n] seen' p1 lt less.prems(1) show ?thesis
        unfolding step by simp
    next
      case False
      then have full: "unat (psl + 1) = length T" using p1 lt by simp
      have absent: "\<forall>i<length T. he_h2 (T ! i) \<noteq> k"
        using seen' ring_dist_less [OF k(2)] full by (metis leD)
      then have "he_h2 (T ! ?n) \<noteq> k" using less.prems(1) nxt_less by blast
      then have "htbl_lookup_at H k ?n (psl + 1) = Some None"
        using T(1,3) k(2) less.prems(1) full by (intro htbl_lookup_at_wrapped) auto
      with absent show ?thesis unfolding step by simp
    qed
  qed
qed

section \<open>Insertion\<close>

text \<open>
  \<open>rh_carry\<close>: the entry \<open>cur\<close>, not yet placed, may go into slot \<open>ndx\<close>: its probe
  sequence length is its distance, the slot before is far enough out, and an entry with the
  same hash has not been passed.
\<close>

definition rh_carry :: "(u64 \<Rightarrow> nat) \<Rightarrow> fla_htbl_entry list \<Rightarrow> nat \<Rightarrow> fla_htbl_entry \<Rightarrow> bool" where
  "rh_carry hm T ndx cur \<longleftrightarrow> ndx < length T \<and> occ cur \<and> hm (he_h2 cur) < length T
     \<and> unat (he_psl cur) = ring_dist (length T) (hm (he_h2 cur)) ndx
     \<and> (\<forall>i<length T. nxt (length T) i = ndx \<longrightarrow> unat (he_psl cur) \<le> rank (T ! i))
     \<and> (\<forall>i<length T. he_h2 (T ! i) = he_h2 cur \<longrightarrow>
          unat (he_psl cur) \<le> ring_dist (length T) (hm (he_h2 cur)) i)"

lemma nxt_surj: "j < n \<Longrightarrow> \<exists>i<n. nxt n i = j"
  by (cases j) (auto simp: nxt_def intro: exI [of _ "n - 1"])

lemma rh_ord_update:
  assumes "rh_ord T" "ndx < length T" "rank (T ! ndx) \<le> rank e"
    "\<forall>i<length T. nxt (length T) i = ndx \<longrightarrow> rank e \<le> Suc (rank (T ! i))"
  shows "rh_ord (T[ndx := e])"
proof -
  have "rank (T[ndx := e] ! nxt (length T) i) \<le> Suc (rank (T[ndx := e] ! i))" if i: "i < length T" for i
  proof -
    have ord: "rank (T ! nxt (length T) i) \<le> Suc (rank (T ! i))" using assms(1) i by (simp add: rh_ord_def)
    consider "i = ndx" "nxt (length T) i = ndx" | "i = ndx" "nxt (length T) i \<noteq> ndx"
      | "i \<noteq> ndx" "nxt (length T) i = ndx" | "i \<noteq> ndx" "nxt (length T) i \<noteq> ndx" by blast
    then show ?thesis using ord assms i by cases auto
  qed
  then show ?thesis by (simp add: rh_ord_def)
qed

lemma rh_absent_carry:
  assumes "rh_table hm T" "rh_carry hm T ndx cur" "rank (T ! ndx) \<le> unat (he_psl cur)"
  shows "\<forall>i<length T. he_h2 (T ! i) \<noteq> he_h2 cur"
  using rh_absent [OF assms(1), of ndx "he_h2 cur"] assms(2,3)
  by (auto simp: rh_carry_def rank_def split: if_splits)

lemma rh_place:
  assumes "rh_table hm T" "rh_carry hm T ndx cur" "rank (T ! ndx) \<le> unat (he_psl cur)"
  shows "rh_table hm (T[ndx := cur])"
proof -
  have c: "ndx < length T" "occ cur" "hm (he_h2 cur) < length T"
    "unat (he_psl cur) = ring_dist (length T) (hm (he_h2 cur)) ndx"
    using assms(2) by (auto simp: rh_carry_def)
  note absent = rh_absent_carry [OF assms]
  have "rh_ord (T[ndx := cur])"
    using assms c by (intro rh_ord_update) (auto simp: rh_table_def rh_carry_def rank_def)
  moreover have "rh_at hm (T[ndx := cur])"
    using assms(1) c by (auto simp: rh_table_def rh_at_def nth_list_update)
  moreover have "rh_uniq (T[ndx := cur])"
    using assms(1) absent c unfolding rh_table_def rh_uniq_def
    by (auto simp: nth_list_update split: if_splits)
  moreover have "rh_unset (T[ndx := cur])"
    using assms(1) c by (auto simp: rh_table_def rh_unset_def nth_list_update)
  ultimately show ?thesis using assms(1) by (simp add: rh_table_def)
qed

lemma rh_map_place:
  assumes "rh_table hm T" "rh_carry hm T ndx cur" "rank (T ! ndx) \<le> unat (he_psl cur)"
  shows "rh_map (T[ndx := cur]) = (if occ (T ! ndx) then (rh_map T)(he_h2 (T ! ndx) := None) else rh_map T)
    (he_h2 cur \<mapsto> he_val cur)"
proof (rule rh_map_eqI)
  fix k v
  have u: "rh_uniq T" "rh_uniq (T[ndx := cur])" using assms(1) rh_place [OF assms] by (auto simp: rh_table_def)
  have c: "ndx < length T" "occ cur" using assms(2) by (auto simp: rh_carry_def)
  note absent = rh_absent_carry [OF assms]
  have "rh_map (T[ndx := cur]) k = Some v \<longleftrightarrow> (he_h2 cur = k \<and> he_val cur = v)
      \<or> (\<exists>i<length T. i \<noteq> ndx \<and> occ (T ! i) \<and> he_h2 (T ! i) = k \<and> he_val (T ! i) = v)"
    unfolding rh_map_Some [OF u(2)] using c by (auto simp: nth_list_update)
  moreover have "(\<exists>i<length T. i \<noteq> ndx \<and> occ (T ! i) \<and> he_h2 (T ! i) = k \<and> he_val (T ! i) = v)
      \<longleftrightarrow> rh_map T k = Some v \<and> \<not> (occ (T ! ndx) \<and> he_h2 (T ! ndx) = k)"
    unfolding rh_map_Some [OF u(1)] using u(1) c(1) unfolding rh_uniq_def by metis
  moreover have "rh_map T (he_h2 cur) = None" using absent by (simp add: rh_map_None [OF u(1)])
  ultimately show "rh_map (T[ndx := cur]) k = Some v \<longleftrightarrow>
      ((if occ (T ! ndx) then (rh_map T)(he_h2 (T ! ndx) := None) else rh_map T)(he_h2 cur \<mapsto> he_val cur)) k = Some v"
    by auto
qed

lemma rh_carry_unset_ahead:
  assumes "rh_table hm T" "rh_carry hm T ndx cur" "e < length T" "\<not> occ (T ! e)"
  shows "unat (he_psl cur) \<le> ring_dist (length T) (hm (he_h2 cur)) e"
proof (rule ccontr)
  let ?d = "ring_dist (length T) (hm (he_h2 cur))"
  assume "\<not> ?thesis"
  then have lt: "?d e < unat (he_psl cur)" by simp
  have c: "ndx < length T" "hm (he_h2 cur) < length T" "unat (he_psl cur) = ?d ndx"
    "\<forall>i<length T. nxt (length T) i = ndx \<longrightarrow> unat (he_psl cur) \<le> rank (T ! i)"
    using assms(2) by (auto simp: rh_carry_def)
  obtain p where p: "p < length T" "nxt (length T) p = ndx" using nxt_surj [OF c(1)] by blast
  have "ndx \<noteq> hm (he_h2 cur)" using lt c(3) by auto
  then have d: "?d ndx = Suc (?d p)" using ring_dist_nxt_eq [OF c(2) p(1)] p(2) by simp
  have "rank (T ! p) + ?d e \<le> rank (T ! e) + ?d p"
    using rh_ord_ahead [of T _ e p] assms(1,3) c(2) p(1) lt d c(3) by (simp add: rh_table_def)
  moreover have "rank (T ! e) = 0" using assms(4) by (simp add: rank_def)
  ultimately show False using c(3,4) p d by auto
qed

lemma rh_update_val:
  assumes "rh_table hm T" "ndx < length T" "occ (T ! ndx)"
  shows "rh_table hm (T[ndx := (T ! ndx)\<lparr>he_val := v\<rparr>])" (is "rh_table hm ?T")
    and "rh_map (T[ndx := (T ! ndx)\<lparr>he_val := v\<rparr>]) = (rh_map T)(he_h2 (T ! ndx) \<mapsto> v)"
proof -
  have same: "he_h2 (?T ! i) = he_h2 (T ! i)" "he_psl (?T ! i) = he_psl (T ! i)" "rank (?T ! i) = rank (T ! i)"
    if "i < length T" for i
    using that assms(2) by (auto simp: nth_list_update rank_def)
  then show t: "rh_table hm ?T"
    using assms(1) by (auto simp: rh_table_def rh_ord_def rh_at_def rh_uniq_def rh_unset_def)
  show "rh_map ?T = (rh_map T)(he_h2 (T ! ndx) \<mapsto> v)"
  proof (rule rh_map_eqI)
    fix k w
    have u: "rh_uniq T" "rh_uniq ?T" using assms(1) t by (auto simp: rh_table_def)
    have "rh_map ?T k = Some w \<longleftrightarrow> (he_h2 (T ! ndx) = k \<and> v = w)
        \<or> (\<exists>i<length T. i \<noteq> ndx \<and> occ (T ! i) \<and> he_h2 (T ! i) = k \<and> he_val (T ! i) = w)"
      unfolding rh_map_Some [OF u(2)] using assms(2,3) by (auto simp: nth_list_update)
    moreover have "(\<exists>i<length T. i \<noteq> ndx \<and> occ (T ! i) \<and> he_h2 (T ! i) = k \<and> he_val (T ! i) = w)
        \<longleftrightarrow> rh_map T k = Some w \<and> he_h2 (T ! ndx) \<noteq> k"
      unfolding rh_map_Some [OF u(1)] using u(1) assms(2,3) unfolding rh_uniq_def by metis
    ultimately show "rh_map ?T k = Some w \<longleftrightarrow> ((rh_map T)(he_h2 (T ! ndx) \<mapsto> v)) k = Some w" by auto
  qed
qed

lemma rh_carry_on:
  assumes "rh_table hm T" "rh_carry hm T ndx cur" "e < length T" "\<not> occ (T ! e)" "e \<noteq> ndx"
    "occ (T ! ndx)" "\<not> he_psl (T ! ndx) < he_psl cur" "he_h2 (T ! ndx) \<noteq> he_h2 cur"
  shows "rh_carry hm T (nxt (length T) ndx) (cur\<lparr>he_psl := he_psl cur + 1\<rparr>)"
proof -
  let ?d = "ring_dist (length T) (hm (he_h2 cur))"
  have c: "ndx < length T" "occ cur" "hm (he_h2 cur) < length T" "unat (he_psl cur) = ?d ndx"
    "\<forall>i<length T. he_h2 (T ! i) = he_h2 cur \<longrightarrow> unat (he_psl cur) \<le> ?d i"
    using assms(2) by (auto simp: rh_carry_def)
  have "?d ndx \<noteq> ?d e" using ring_dist_inj [OF c(3,1) assms(3)] assms(5) by simp
  then have lt: "Suc (?d ndx) < length T"
    using rh_carry_unset_ahead [OF assms(1-4)] c(4) ring_dist_less [OF c(3) assms(3)] by linarith
  have n: "length T \<le> 2 ^ 16" using assms(1) by (simp add: rh_table_def)
  have psl: "unat (he_psl cur + 1) = Suc (?d ndx)"
    using lt n c(4) by (subst unat_add_no_wrap) auto
  have far: "Suc (?d ndx) \<le> rank (T ! ndx)"
    using assms(6,7) c(4) by (simp add: rank_def word_less_nat_alt)
  have "Suc (?d ndx) \<le> ?d i" if i: "i < length T" "he_h2 (T ! i) = he_h2 cur" for i
  proof -
    have "i \<noteq> ndx" using i assms(8) by auto
    then have "?d i \<noteq> ?d ndx" using ring_dist_inj [OF c(3) i(1) c(1)] by simp
    with c(4,5) i show ?thesis by (metis Suc_leI le_neq_implies_less)
  qed
  with c lt psl far show ?thesis
    by (auto simp: rh_carry_def ring_dist_nxt nxt_inj)
qed

lemma rh_carry_swap:
  assumes "rh_table hm T" "rh_carry hm T ndx cur" "e < length T" "\<not> occ (T ! e)"
    "occ (T ! ndx)" "he_psl (T ! ndx) < he_psl cur"
  shows "rh_carry hm (T[ndx := cur]) (nxt (length T) ndx) ((T ! ndx)\<lparr>he_psl := he_psl (T ! ndx) + 1\<rparr>)"
proof -
  let ?t = "T ! ndx" and ?d = "ring_dist (length T) (hm (he_h2 (T ! ndx)))"
  have c: "ndx < length T" "occ cur" "hm (he_h2 cur) < length T"
    "unat (he_psl cur) = ring_dist (length T) (hm (he_h2 cur)) ndx"
    using assms(2) by (auto simp: rh_carry_def)
  have r: "rank ?t \<le> unat (he_psl cur)" using assms(5,6) by (simp add: rank_def word_less_nat_alt)
  have t: "hm (he_h2 ?t) < length T" "unat (he_psl ?t) = ?d ndx" "length T \<le> 2 ^ 16"
    using assms(1,5) c(1) by (auto simp: rh_table_def rh_at_def)
  have lt: "Suc (?d ndx) < length T"
    using r t(2) assms(5) c(4) ring_dist_less [OF c(3,1)] by (simp add: rank_def)
  have psl: "unat (he_psl ?t + 1) = Suc (?d ndx)"
    using lt t by (subst unat_add_no_wrap) auto
  have "he_h2 (T[ndx := cur] ! i) \<noteq> he_h2 ?t" if "i < length T" for i
    using that assms(1,5) c(1) rh_absent_carry [OF assms(1,2) r]
    unfolding rh_table_def rh_uniq_def by (auto simp: nth_list_update)
  moreover have "Suc (?d ndx) \<le> rank cur" using r t(2) c(2) assms(5) by (simp add: rank_def)
  ultimately show ?thesis
    using c t lt psl assms(5) by (auto simp: rh_carry_def ring_dist_nxt nxt_inj)
qed

text \<open>The distance to an unset slot bounds the loop.\<close>

lemma htbl_insert_loop_spec:
  assumes "ht_tbl H = Some T" "length T = unat (ht_tbl_size H)" "rh_table hm T"
    "rh_carry hm T ndx cur" "e < length T" "\<not> occ (T ! e)"
  shows "\<exists>H' T'. htbl_insert_loop H ndx cur t = Some (0, H') \<and> ht_tbl H' = Some T'
    \<and> length T' = length T \<and> rh_table hm T' \<and> rh_map T' = (rh_map T)(he_h2 cur \<mapsto> he_val cur)
    \<and> ht_tbl_size H' = ht_tbl_size H
    \<and> ht_len H' = (if rh_map T (he_h2 cur) = None then ht_len H + 1 else ht_len H)"
  using assms
proof (induction "ring_dist (length T) ndx e" arbitrary: H T ndx cur t rule: less_induct)
  case less
  note prems = less.prems
  have c: "ndx < length T" "occ cur" using prems(4) by (auto simp: rh_carry_def)
  have u: "rh_uniq T" using prems(3) by (simp add: rh_table_def)
  have nx: "htbl_next H ndx = nxt (length T) ndx" using prems(2) by (rule htbl_next_nxt)
  have lt: "ring_dist (length T) (nxt (length T) ndx) e < ring_dist (length T) ndx e" if "e \<noteq> ndx"
    using ring_dist_ahead [OF c(1) prems(5)] that by simp
  consider (empty) "\<not> occ (T ! ndx)" | (swap) "occ (T ! ndx)" "he_psl (T ! ndx) < he_psl cur"
    | (same) "occ (T ! ndx)" "\<not> he_psl (T ! ndx) < he_psl cur" "he_h2 (T ! ndx) = he_h2 cur"
    | (on) "occ (T ! ndx)" "\<not> he_psl (T ! ndx) < he_psl cur" "he_h2 (T ! ndx) \<noteq> he_h2 cur" by blast
  then show ?case
  proof cases
    case empty
    then have r: "rank (T ! ndx) \<le> unat (he_psl cur)" by (simp add: rank_def)
    have "rh_map T (he_h2 cur) = None"
      using rh_absent_carry [OF prems(3,4) r] by (simp add: rh_map_None [OF u])
    with empty c prems rh_place [OF prems(3,4) r] rh_map_place [OF prems(3,4) r] show ?thesis
      by (subst htbl_insert_loop.simps) simp
  next
    case swap
    let ?T = "T[ndx := cur]" and ?c = "(T ! ndx)\<lparr>he_psl := he_psl (T ! ndx) + 1\<rparr>"
    let ?H = "H\<lparr>ht_tbl := Some ?T\<rparr>"
    from swap have r: "rank (T ! ndx) \<le> unat (he_psl cur)" by (simp add: rank_def word_less_nat_alt)
    note absent = rh_absent_carry [OF prems(3,4) r]
    have ne: "e \<noteq> ndx" using swap prems(6) by auto
    have "rh_carry hm ?T (nxt (length T) ndx) ?c"
      using rh_carry_swap [OF prems(3,4,5,6) swap] .
    moreover have "\<not> occ (?T ! e)" using ne prems(6) by simp
    ultimately obtain H' T' where IH: "htbl_insert_loop ?H (nxt (length T) ndx) ?c (t + 1) = Some (0, H')"
      "ht_tbl H' = Some T'" "length T' = length T" "rh_table hm T'"
      "rh_map T' = (rh_map ?T)(he_h2 ?c \<mapsto> he_val ?c)" "ht_tbl_size H' = ht_tbl_size H"
      "ht_len H' = (if rh_map ?T (he_h2 ?c) = None then ht_len H + 1 else ht_len H)"
      using less.hyps [of ?T "nxt (length T) ndx" ?H ?c "t + 1"] lt [OF ne] prems(1,2,5)
        rh_place [OF prems(3,4) r] by auto
    have none: "rh_map T (he_h2 cur) = None" using absent by (simp add: rh_map_None [OF u])
    have "rh_map T (he_h2 (T ! ndx)) = Some (he_val (T ! ndx))"
      using swap(1) c(1) by (auto simp: rh_map_Some [OF u])
    moreover have "he_h2 (T ! ndx) \<noteq> he_h2 cur" using absent c(1) by auto
    ultimately have "rh_map T' = (rh_map T)(he_h2 cur \<mapsto> he_val cur)"
      "rh_map ?T (he_h2 ?c) = None"
      unfolding IH(5) rh_map_place [OF prems(3,4) r] using swap(1) by (auto simp: fun_eq_iff)
    moreover have "htbl_insert_loop H ndx cur t = Some (0, H')"
      using prems(1) c swap IH(1) nx by (subst htbl_insert_loop.simps) simp
    ultimately show ?thesis using IH none by auto
  next
    case same
    have "rh_map T (he_h2 cur) = Some (he_val (T ! ndx))"
      using same c(1) by (auto simp: rh_map_Some [OF u])
    moreover note rh_update_val [OF prems(3) c(1) same(1), of "he_val cur"]
    ultimately show ?thesis
      using prems(1) c same by (subst htbl_insert_loop.simps) simp
  next
    case on
    have ne: "e \<noteq> ndx" using on prems(6) by auto
    let ?c = "cur\<lparr>he_psl := he_psl cur + 1\<rparr>"
    have "rh_carry hm T (nxt (length T) ndx) ?c"
      using rh_carry_on [OF prems(3,4,5,6) ne on] .
    from less.hyps [OF lt [OF ne] prems(1-3) this prems(5,6), of "t + 1"]
    show ?thesis using prems(1) c on nx by (subst htbl_insert_loop.simps) simp
  qed
qed

section \<open>Removal\<close>

text \<open>
  \<open>rh_erase i T\<close> is the table with slot \<open>i\<close> unset. \<open>rh_hole\<close>: slot \<open>i\<close> holds a stale
  entry; without it the positions and hashes are right, and with it the ranks are ordered.
\<close>

definition rh_erase :: "nat \<Rightarrow> fla_htbl_entry list \<Rightarrow> fla_htbl_entry list" where
  "rh_erase i T = T[i := (T ! i)\<lparr>he_h2 := FLA_HTBL_ENTRY_UNSET, he_psl := 0\<rparr>]"

definition rh_hole :: "(u64 \<Rightarrow> nat) \<Rightarrow> fla_htbl_entry list \<Rightarrow> nat \<Rightarrow> bool" where
  "rh_hole hm T i \<longleftrightarrow> length T \<le> 2 ^ 16 \<and> i < length T \<and> rh_ord T \<and> rh_unset T
     \<and> rh_at hm (rh_erase i T) \<and> rh_uniq (rh_erase i T)"

lemma length_rh_erase [simp]: "length (rh_erase i T) = length T"
  by (simp add: rh_erase_def)

lemma rh_erase_nth:
  "i < length T \<Longrightarrow> rh_erase i T ! j =
    (if j = i then (T ! i)\<lparr>he_h2 := FLA_HTBL_ENTRY_UNSET, he_psl := 0\<rparr> else T ! j)"
  by (auto simp: rh_erase_def)

lemma rh_hole_start:
  assumes "rh_table hm T" "i < length T" "occ (T ! i)"
  shows "rh_hole hm T i" "rh_map (rh_erase i T) = (rh_map T)(he_h2 (T ! i) := None)"
proof -
  have uniq: "rh_uniq T" "rh_uniq (rh_erase i T)"
    using assms(1,2) by (auto simp: rh_table_def rh_uniq_def rh_erase_nth)
  show "rh_hole hm T i"
    using assms(1,2) uniq(2) by (auto simp: rh_hole_def rh_table_def rh_at_def rh_erase_nth)
  show "rh_map (rh_erase i T) = (rh_map T)(he_h2 (T ! i) := None)"
  proof (rule rh_map_eqI)
    fix k v
    have "rh_map (rh_erase i T) k = Some v \<longleftrightarrow>
        (\<exists>j<length T. j \<noteq> i \<and> occ (T ! j) \<and> he_h2 (T ! j) = k \<and> he_val (T ! j) = v)"
      unfolding rh_map_Some [OF uniq(2)] using assms(2) by (auto simp: rh_erase_nth)
    also have "\<dots> \<longleftrightarrow> rh_map T k = Some v \<and> he_h2 (T ! i) \<noteq> k"
      unfolding rh_map_Some [OF uniq(1)] using uniq(1) assms(2,3) unfolding rh_uniq_def by metis
    finally show "rh_map (rh_erase i T) k = Some v \<longleftrightarrow> ((rh_map T)(he_h2 (T ! i) := None)) k = Some v" by auto
  qed
qed

lemma rh_hole_end:
  assumes "rh_hole hm T i" "he_psl (T ! nxt (length T) i) = 0"
  shows "rh_table hm (rh_erase i T)"
proof -
  have i: "i < length T" and ord: "rh_ord T" using assms(1) by (auto simp: rh_hole_def)
  have "rank (rh_erase i T ! nxt (length T) j) \<le> Suc (rank (rh_erase i T ! j))" if "j < length T" for j
  proof (cases "j = i")
    case True
    have "rank (rh_erase i T ! nxt (length T) i) \<le> 1"
      using assms(2) i by (auto simp: rh_erase_nth rank_def)
    with True show ?thesis by simp
  next
    case False
    have "rank (rh_erase i T ! nxt (length T) j) \<le> rank (T ! nxt (length T) j)"
      using i by (auto simp: rh_erase_nth rank_def)
    also have "\<dots> \<le> Suc (rank (T ! j))" using ord that by (simp add: rh_ord_def)
    finally show ?thesis using False i by (simp add: rh_erase_nth)
  qed
  then have "rh_ord (rh_erase i T)" by (simp add: rh_ord_def)
  moreover have "rh_unset (rh_erase i T)"
    using assms(1) by (auto simp: rh_hole_def rh_unset_def rh_erase_nth)
  ultimately show ?thesis using assms(1) by (simp add: rh_hole_def rh_table_def)
qed

lemma rh_hole_shift:
  assumes hole: "rh_hole hm T i" and psl: "he_psl (T ! nxt (length T) i) \<noteq> 0"
    and ne: "nxt (length T) i \<noteq> i"
  defines "j \<equiv> nxt (length T) i"
  defines "T' \<equiv> T[i := (T ! j)\<lparr>he_psl := he_psl (T ! j) - 1\<rparr>]"
  shows "rh_hole hm T' j" "rh_map (rh_erase j T') = rh_map (rh_erase i T)"
proof -
  have i: "i < length T" and ord: "rh_ord T" and unset: "rh_unset T" and n: "length T \<le> 2 ^ 16"
    and at: "rh_at hm (rh_erase i T)" and uniq: "rh_uniq (rh_erase i T)"
    using hole by (auto simp: rh_hole_def)
  have j: "j < length T" "j \<noteq> i" using i ne by (auto simp: j_def)
  have len: "length T' = length T" by (simp add: T'_def)
  have oj: "occ (T ! j)" using unset psl j by (auto simp: rh_unset_def j_def)
  have pj: "unat (he_psl (T ! j) - 1) = unat (he_psl (T ! j)) - 1" "0 < unat (he_psl (T ! j))"
    using psl by (simp_all add: unat_dec j_def unat_gt_0)
  have home: "hm (he_h2 (T ! j)) < length T" "unat (he_psl (T ! j)) = ring_dist (length T) (hm (he_h2 (T ! j))) j"
    using at i j oj by (auto simp: rh_at_def rh_erase_nth)
  have "j \<noteq> hm (he_h2 (T ! j))" using home(2) pj(2) by auto
  then have "unat (he_psl (T ! j)) = Suc (ring_dist (length T) (hm (he_h2 (T ! j))) i)"
    using ring_dist_nxt_eq [OF home(1) i] home(2) by (simp add: j_def)
  with pj have pi: "unat (he_psl (T ! j) - 1) = ring_dist (length T) (hm (he_h2 (T ! j))) i" by simp
  have T'_nth: "T' ! k = (if k = i then (T ! j)\<lparr>he_psl := he_psl (T ! j) - 1\<rparr> else T ! k)" for k
    using i by (simp add: T'_def)
  have E: "rh_erase j T' ! k = (if k = j then (T ! j)\<lparr>he_h2 := FLA_HTBL_ENTRY_UNSET, he_psl := 0\<rparr>
      else if k = i then (T ! j)\<lparr>he_psl := he_psl (T ! j) - 1\<rparr> else rh_erase i T ! k)" for k
    using j i by (simp add: rh_erase_nth len T'_nth)
  have rank_j: "rank (T ! j) \<le> Suc (rank (T ! i))" using ord i by (simp add: rh_ord_def j_def)
  have rank_i: "Suc (rank (T' ! i)) = rank (T ! j)" using oj pj by (simp add: T'_nth rank_def)
  have "rank (T' ! nxt (length T) k) \<le> Suc (rank (T' ! k))" if k: "k < length T" for k
  proof -
    have o: "rank (T ! nxt (length T) k) \<le> Suc (rank (T ! k))" using ord k by (simp add: rh_ord_def)
    consider "k = i" | "k \<noteq> i" "nxt (length T) k = i" | "k \<noteq> i" "nxt (length T) k \<noteq> i" by blast
    then show ?thesis
      using o rank_j rank_i j by cases (auto simp: T'_nth simp flip: j_def)
  qed
  moreover have "rh_unset T'" using unset oj by (auto simp: rh_unset_def len T'_nth)
  moreover have "rh_at hm (rh_erase j T')"
    using at home pi unfolding rh_at_def length_rh_erase len by (auto simp: E)
  moreover have uniq': "rh_uniq (rh_erase j T')"
  proof -
    have "he_h2 (rh_erase i T ! k) \<noteq> he_h2 (T ! j)" if "k < length T" "k \<noteq> j" for k
      using uniq that j oj i unfolding rh_uniq_def by (metis length_rh_erase rh_erase_nth)
    then show ?thesis
      using uniq i j oj unfolding rh_uniq_def length_rh_erase len
      by (auto simp: E) metis+
  qed
  ultimately show "rh_hole hm T' j" using n j by (simp add: rh_hole_def rh_ord_def len)
  show "rh_map (rh_erase j T') = rh_map (rh_erase i T)"
  proof (rule rh_map_eqI)
    fix k v
    have e: "rh_erase i T ! j = T ! j" "\<not> occ (rh_erase i T ! i)" using i j by (auto simp: rh_erase_nth)
    have "(\<exists>l<length T. occ (rh_erase j T' ! l) \<and> he_h2 (rh_erase j T' ! l) = k \<and> he_val (rh_erase j T' ! l) = v)
      \<longleftrightarrow> (occ (T ! j) \<and> he_h2 (T ! j) = k \<and> he_val (T ! j) = v)
        \<or> (\<exists>l<length T. l \<noteq> i \<and> l \<noteq> j \<and> occ (rh_erase i T ! l) \<and> he_h2 (rh_erase i T ! l) = k
            \<and> he_val (rh_erase i T ! l) = v)"
      using i j by (auto simp: E)
    also have "\<dots> \<longleftrightarrow> (\<exists>l<length T. occ (rh_erase i T ! l) \<and> he_h2 (rh_erase i T ! l) = k
            \<and> he_val (rh_erase i T ! l) = v)"
    proof (intro iffI; elim exE conjE disjE)
      fix l assume l: "l < length T" "occ (rh_erase i T ! l)" "he_h2 (rh_erase i T ! l) = k"
        "he_val (rh_erase i T ! l) = v"
      moreover from l have "l \<noteq> i" using e(2) by auto
      ultimately show "(occ (T ! j) \<and> he_h2 (T ! j) = k \<and> he_val (T ! j) = v)
        \<or> (\<exists>l<length T. l \<noteq> i \<and> l \<noteq> j \<and> occ (rh_erase i T ! l) \<and> he_h2 (rh_erase i T ! l) = k
            \<and> he_val (rh_erase i T ! l) = v)"
        using e(1) by (cases "l = j") auto
    qed (use e(1) j in auto)
    finally show "rh_map (rh_erase j T') k = Some v \<longleftrightarrow> rh_map (rh_erase i T) k = Some v"
      unfolding rh_map_Some [OF uniq] rh_map_Some [OF uniq'] length_rh_erase len .
  qed
qed

lemma htbl_remove_loop_spec:
  assumes "ht_tbl H = Some T" "length T = unat (ht_tbl_size H)" "rh_hole hm T i"
    "e < length T" "e \<noteq> i" "\<not> occ (T ! e)"
  shows "\<exists>H' T'. htbl_remove_loop H i = Some H' \<and> ht_tbl H' = Some T' \<and> length T' = length T
    \<and> rh_table hm T' \<and> rh_map T' = rh_map (rh_erase i T) \<and> ht_tbl_size H' = ht_tbl_size H
    \<and> ht_len H' = ht_len H - 1"
  using assms
proof (induction "ring_dist (length T) i e" arbitrary: H T i rule: less_induct)
  case less
  note prems = less.prems
  let ?j = "nxt (length T) i"
  have i: "i < length T" using prems(3) by (simp add: rh_hole_def)
  have nx: "htbl_next H i = ?j" using prems(2) by (rule htbl_next_nxt)
  have ne: "?j \<noteq> i" using i prems(4,5) by (auto simp: nxt_def split: if_splits)
  show ?case
  proof (cases "he_psl (T ! ?j) = 0")
    case True
    with rh_hole_end [OF prems(3) True] prems(1) i nx show ?thesis
      by (subst htbl_remove_loop.simps) (simp add: rh_erase_def)
  next
    case False
    let ?T = "T[i := (T ! ?j)\<lparr>he_psl := he_psl (T ! ?j) - 1\<rparr>]"
    let ?H = "H\<lparr>ht_tbl := Some ?T\<rparr>"
    note shift = rh_hole_shift [OF prems(3) False ne]
    have "rh_unset T" using prems(3) by (simp add: rh_hole_def)
    then have "e \<noteq> ?j" using False prems(4,6) by (auto simp: rh_unset_def)
    moreover have "ring_dist (length T) ?j e < ring_dist (length T) i e"
      using ring_dist_ahead [OF i prems(4)] prems(5) by simp
    ultimately have "\<exists>H' T'. htbl_remove_loop ?H ?j = Some H' \<and> ht_tbl H' = Some T' \<and> length T' = length ?T
      \<and> rh_table hm T' \<and> rh_map T' = rh_map (rh_erase ?j ?T) \<and> ht_tbl_size H' = ht_tbl_size ?H
      \<and> ht_len H' = ht_len ?H - 1"
      using less.hyps [of ?T ?j ?H] prems shift(1) by simp
    moreover have "htbl_remove_loop H i = htbl_remove_loop ?H ?j"
      using False prems(1) i nx by (subst htbl_remove_loop.simps) (simp add: Let_def)
    ultimately show ?thesis using shift(2) by simp
  qed
qed

section \<open>The table as a directory\<close>

text \<open>
  \<open>htbl_inv hm\<close>: a table with a Robin Hood placement and the right length. A key is usable
  (\<open>htbl_key\<close>) when its secondary hash is not the unset mark and \<open>hm\<close> sends it to the
  index the primary hash gives, which holds for every set of keys whose secondary hashes
  differ.
\<close>

definition htbl_inv :: "(u64 \<Rightarrow> nat) \<Rightarrow> fla_htbl \<Rightarrow> bool" where
  "htbl_inv hm H \<longleftrightarrow> (\<exists>T. ht_tbl H = Some T \<and> length T = unat (ht_tbl_size H) \<and> 0 < length T
     \<and> rh_table hm T \<and> unat (ht_len H) = card (dom (rh_map T)))"

definition htbl_home :: "u32 \<Rightarrow> u8 list \<Rightarrow> nat" where
  "htbl_home sz key = unat (the (FLA_HTBL_COMPRESS (FLA_HTBL_H1 key) sz))"

definition htbl_key :: "(u64 \<Rightarrow> nat) \<Rightarrow> fla_htbl \<Rightarrow> u8 list \<Rightarrow> bool" where
  "htbl_key hm H key \<longleftrightarrow> FLA_HTBL_H2 key \<noteq> FLA_HTBL_ENTRY_UNSET
     \<and> hm (FLA_HTBL_H2 key) = htbl_home (ht_tbl_size H) key"

definition htbl_view :: "fla_htbl \<Rightarrow> u64 \<rightharpoonup> u32" where
  "htbl_view H = (case ht_tbl H of None \<Rightarrow> Map.empty | Some T \<Rightarrow> rh_map T)"

text \<open>The value stored for a key, as the callers read it through the returned pointer.\<close>

definition htbl_find :: "fla_htbl \<Rightarrow> u8 list \<Rightarrow> u32 option option" where
  "htbl_find H key = do {
     found \<leftarrow> htbl_lookup H key;
     (case found of None \<Rightarrow> Some None
      | Some i \<Rightarrow> do { T \<leftarrow> ht_tbl H; e \<leftarrow> rd T i; Some (Some (he_val e)) })
   }"

lemma htbl_home_less:
  assumes "0 < unat sz"
  shows "htbl_home sz key < unat sz" "\<exists>h. FLA_HTBL_COMPRESS (FLA_HTBL_H1 key) sz = Some h \<and> unat h = htbl_home sz key"
proof -
  have u: "unat (ucast sz :: u64) = unat sz" by (simp add: unat_ucast_widen)
  then have "(ucast sz :: u64) \<noteq> 0" using assms by (metis less_numeral_extra(3) unat_0)
  then show "htbl_home sz key < unat sz" "\<exists>h. FLA_HTBL_COMPRESS (FLA_HTBL_H1 key) sz = Some h \<and> unat h = htbl_home sz key"
    using assms u by (simp_all add: htbl_home_def FLA_HTBL_COMPRESS_def fla_mad_compression_def unat_mod)
qed

lemma rh_count_dom:
  assumes "rh_uniq T"
  shows "card (dom (rh_map T)) = card {i. i < length T \<and> occ (T ! i)}"
proof -
  have "dom (rh_map T) = (\<lambda>i. he_h2 (T ! i)) ` {i. i < length T \<and> occ (T ! i)}"
    using rh_map_Some [OF assms] by (auto simp: dom_def)
  moreover have "inj_on (\<lambda>i. he_h2 (T ! i)) {i. i < length T \<and> occ (T ! i)}"
    using assms by (auto simp: inj_on_def rh_uniq_def)
  ultimately show ?thesis by (simp add: card_image)
qed

lemma rh_free_slot:
  assumes "rh_uniq T" "card (dom (rh_map T)) \<noteq> length T"
  obtains e where "e < length T" "\<not> occ (T ! e)"
proof -
  have "{i. i < length T \<and> occ (T ! i)} \<noteq> {..<length T}"
    using assms(2) unfolding rh_count_dom [OF assms(1)] by (metis card_lessThan)
  then have "\<exists>e<length T. \<not> occ (T ! e)" by blast
  then show ?thesis using that by blast
qed

lemma htbl_invE:
  assumes "htbl_inv hm H"
  obtains T where "ht_tbl H = Some T" "length T = unat (ht_tbl_size H)" "0 < length T" "rh_table hm T"
    "rh_uniq T" "htbl_view H = rh_map T" "unat (ht_len H) = card (dom (rh_map T))" "finite (dom (rh_map T))"
proof -
  from assms obtain T where T: "ht_tbl H = Some T" "length T = unat (ht_tbl_size H)" "0 < length T"
    "rh_table hm T" "unat (ht_len H) = card (dom (rh_map T))"
    unfolding htbl_inv_def by blast
  moreover have "rh_uniq T" using T(4) by (simp add: rh_table_def)
  moreover have "htbl_view H = rh_map T" using T(1) by (simp add: htbl_view_def)
  moreover have "finite (dom (rh_map T))" by (simp add: rh_map_def finite_dom_map_of)
  ultimately show ?thesis using that by blast
qed

lemma htbl_lookup_spec:
  assumes "htbl_inv hm H" "htbl_key hm H key" "ht_tbl H = Some T"
  shows "\<exists>r. htbl_lookup H key = Some r \<and>
    (case r of None \<Rightarrow> \<forall>i<length T. he_h2 (T ! i) \<noteq> FLA_HTBL_H2 key
     | Some j \<Rightarrow> j < length T \<and> he_h2 (T ! j) = FLA_HTBL_H2 key)"
proof -
  have l: "length T = unat (ht_tbl_size H)" and t: "rh_table hm T" and "0 < length T"
    using assms(1,3) unfolding htbl_inv_def by (metis option.inject)+
  then have h: "htbl_home (ht_tbl_size H) key < length T"
    and c: "\<exists>h. FLA_HTBL_COMPRESS (FLA_HTBL_H1 key) (ht_tbl_size H) = Some h \<and> unat h = htbl_home (ht_tbl_size H) key"
    using htbl_home_less [of "ht_tbl_size H" key] by simp_all
  with assms htbl_lookup_at_spec [OF assms(3) l t, of "FLA_HTBL_H2 key" "htbl_home (ht_tbl_size H) key" 0]
  show ?thesis
    using c by (auto simp: htbl_key_def htbl_lookup_def htbl_lookup_h2_def)
qed

lemma htbl_find_view:
  assumes "htbl_inv hm H" "htbl_key hm H key"
  shows "htbl_find H key = Some (htbl_view H (FLA_HTBL_H2 key))"
proof -
  from assms(1) obtain T where T: "ht_tbl H = Some T" "rh_uniq T" "htbl_view H = rh_map T"
    by (rule htbl_invE)
  from htbl_lookup_spec [OF assms T(1)] obtain r where r: "htbl_lookup H key = Some r"
    "case r of None \<Rightarrow> \<forall>i<length T. he_h2 (T ! i) \<noteq> FLA_HTBL_H2 key
     | Some j \<Rightarrow> j < length T \<and> he_h2 (T ! j) = FLA_HTBL_H2 key" by blast
  show ?thesis
  proof (cases r)
    case None
    with r have "rh_map T (FLA_HTBL_H2 key) = None" by (simp add: rh_map_None [OF T(2)])
    with None r T show ?thesis by (simp add: htbl_find_def)
  next
    case (Some j)
    moreover have "rh_map T (FLA_HTBL_H2 key) = Some (he_val (T ! j))"
      using Some r(2) assms(2) by (auto simp: rh_map_Some [OF T(2)] htbl_key_def)
    ultimately show ?thesis using r T by (simp add: htbl_find_def)
  qed
qed

lemma htbl_insert_view:
  assumes inv: "htbl_inv hm H" and key: "htbl_key hm H key" and room: "ht_len H \<noteq> ht_tbl_size H"
  shows "\<exists>H'. htbl_insert H key v = Some (0, H') \<and> htbl_inv hm H' \<and> ht_tbl_size H' = ht_tbl_size H
    \<and> htbl_view H' = (htbl_view H)(FLA_HTBL_H2 key \<mapsto> v)"
proof -
  define cur where "cur = \<lparr>he_h2 = FLA_HTBL_H2 key, he_val = v, he_psl = 0\<rparr>"
  define G where "G = H\<lparr>ht_stat_insert_calls := ht_stat_insert_calls H + 1\<rparr>"
  define ndx where "ndx = htbl_home (ht_tbl_size H) key"
  from inv obtain T where T: "ht_tbl H = Some T" "length T = unat (ht_tbl_size H)" "0 < length T"
    "rh_table hm T" "rh_uniq T" "htbl_view H = rh_map T" "unat (ht_len H) = card (dom (rh_map T))"
    "finite (dom (rh_map T))" by (rule htbl_invE)
  have n: "length T \<le> 2 ^ 16" using T(4) by (simp add: rh_table_def)
  have "card (dom (rh_map T)) \<noteq> length T" using room T(2,7) by (metis word_unat_eq_iff)
  then obtain e where e: "e < length T" "\<not> occ (T ! e)" using rh_free_slot [OF T(5)] by blast
  have "rh_carry hm T ndx cur"
    using key T(2,3) by (simp add: rh_carry_def cur_def ndx_def htbl_key_def htbl_home_less)
  moreover have "ht_tbl G = Some T" "length T = unat (ht_tbl_size G)" using T by (simp_all add: G_def)
  ultimately obtain H' T' where H': "htbl_insert_loop G ndx cur 0 = Some (0, H')" "ht_tbl H' = Some T'"
    "length T' = length T" "rh_table hm T'" "rh_map T' = (rh_map T)(he_h2 cur \<mapsto> he_val cur)"
    "ht_tbl_size H' = ht_tbl_size G"
    "ht_len H' = (if rh_map T (he_h2 cur) = None then ht_len G + 1 else ht_len G)"
    using htbl_insert_loop_spec T(4) e by blast
  have "card (dom (rh_map T)) \<le> length T"
    unfolding rh_count_dom [OF T(5)] using card_mono [of "{..<length T}"] by (metis (no_types, lifting)
      card_lessThan finite_lessThan lessThan_iff mem_Collect_eq subsetI)
  then have "unat (ht_len H + 1) = Suc (card (dom (rh_map T)))"
    using n T(7) by (subst unat_add_no_wrap) auto
  then have "unat (ht_len H') = card (dom (rh_map T'))"
    using H'(5,7) T(7,8)
    by (cases "rh_map T (he_h2 cur)") (auto simp: G_def card_insert_if domIff insert_absorb)
  then have "htbl_inv hm H'"
    using H' T by (auto simp: htbl_inv_def G_def)
  moreover have "htbl_insert H key v = Some (0, H')"
    using room H'(1) htbl_home_less(2) [of "ht_tbl_size H" key] T(2,3) by (auto simp: htbl_insert_def Let_def G_def cur_def ndx_def)
  ultimately show ?thesis
    using H' T by (auto simp: htbl_view_def G_def cur_def)
qed

lemma htbl_insert_full:
  assumes "ht_len H = ht_tbl_size H" "0 < unat (ht_tbl_size H)"
  shows "\<exists>H'. htbl_insert H key v = Some (2, H') \<and> ht_tbl H' = ht_tbl H"
  using assms(1) htbl_home_less(2) [OF assms(2), of key] by (auto simp: htbl_insert_def Let_def)

lemma htbl_remove_view:
  assumes inv: "htbl_inv hm H" and key: "htbl_key hm H key" and room: "ht_len H \<noteq> ht_tbl_size H"
  shows "\<exists>H'. htbl_remove H key = Some H' \<and> htbl_inv hm H' \<and> ht_tbl_size H' = ht_tbl_size H
    \<and> htbl_view H' = (htbl_view H)(FLA_HTBL_H2 key := None)"
proof -
  from inv obtain T where T: "ht_tbl H = Some T" "length T = unat (ht_tbl_size H)" "0 < length T"
    "rh_table hm T" "rh_uniq T" "htbl_view H = rh_map T" "unat (ht_len H) = card (dom (rh_map T))"
    "finite (dom (rh_map T))" by (rule htbl_invE)
  have "card (dom (rh_map T)) \<noteq> length T" using room T(2,7) by (metis word_unat_eq_iff)
  then obtain e where e: "e < length T" "\<not> occ (T ! e)" using rh_free_slot [OF T(5)] by blast
  from htbl_lookup_spec [OF inv key T(1)] obtain r where r: "htbl_lookup H key = Some r"
    "case r of None \<Rightarrow> \<forall>i<length T. he_h2 (T ! i) \<noteq> FLA_HTBL_H2 key
     | Some j \<Rightarrow> j < length T \<and> he_h2 (T ! j) = FLA_HTBL_H2 key" by blast
  have rem: "htbl_remove H key = (case r of None \<Rightarrow> Some H | Some i \<Rightarrow> htbl_remove_loop H i)"
    using r(1) by (auto simp: htbl_remove_def htbl_lookup_def split: bind_splits)
  show ?thesis
  proof (cases r)
    case None
    then have "rh_map T (FLA_HTBL_H2 key) = None" using r(2) by (simp add: rh_map_None [OF T(5)])
    with None inv rem T(6) show ?thesis by auto
  next
    case (Some i)
    then have i: "i < length T" "he_h2 (T ! i) = FLA_HTBL_H2 key" "occ (T ! i)"
      using r(2) key by (auto simp: htbl_key_def)
    note hole = rh_hole_start [OF T(4) i(1,3)]
    have "e \<noteq> i" using e i by auto
    from htbl_remove_loop_spec [OF T(1,2) hole(1) e(1) this e(2)] obtain H' T' where H':
      "htbl_remove_loop H i = Some H'" "ht_tbl H' = Some T'" "length T' = length T" "rh_table hm T'"
      "rh_map T' = rh_map (rh_erase i T)" "ht_tbl_size H' = ht_tbl_size H" "ht_len H' = ht_len H - 1" by blast
    have m: "rh_map T' = (rh_map T)(FLA_HTBL_H2 key := None)" using H'(5) hole(2) i(2) by simp
    have "FLA_HTBL_H2 key \<in> dom (rh_map T)" using i by (auto simp: rh_map_Some [OF T(5)] dom_def)
    then have "card (dom (rh_map T')) = card (dom (rh_map T)) - 1" "0 < card (dom (rh_map T))"
      unfolding m using T(8) by (auto simp: card_gt_0_iff)
    then have "unat (ht_len H') = card (dom (rh_map T'))"
      using H'(7) T(7) unat_dec [of "ht_len H"] by (metis unat_gt_0)
    then have "htbl_inv hm H'" using H' T by (auto simp: htbl_inv_def)
    with rem Some H' m T(6) show ?thesis by (auto simp: htbl_view_def)
  qed
qed

lemma htbl_init_inv:
  assumes "ht_tbl H = None" "0 < unat n" "unat n \<le> 2 ^ 16"
  shows "\<exists>H'. htbl_init True H n = Some (0, H') \<and> htbl_inv hm H' \<and> ht_tbl_size H' = n
    \<and> ht_len H' = 0 \<and> htbl_view H' = Map.empty"
proof -
  define T where "T = replicate (unat n) htbl_unset_entry"
  have T: "length T = unat n" "i < unat n \<Longrightarrow> T ! i = htbl_unset_entry" for i by (simp_all add: T_def)
  have "rh_table hm T"
    using assms(3) by (auto simp: rh_table_def rh_ord_def rh_at_def rh_uniq_def rh_unset_def T rank_def
        htbl_unset_entry_def)
  moreover have m: "rh_map T = Map.empty"
    by (simp add: rh_map_def T_def htbl_unset_entry_def)
  moreover have "htbl_init True H n = Some (0, H\<lparr>ht_tbl := Some T, ht_tbl_size := n,
      ht_len := 0, ht_stat_insert_calls := 0, ht_stat_insert_failed := 0, ht_stat_insert_tries := 0\<rparr>)"
    using assms(1) by (simp add: htbl_init_def fla_htbl_entries_init_def T_def map_replicate_const)
  ultimately show ?thesis
    using assms(2) T by (auto simp: htbl_inv_def htbl_view_def)
qed

text \<open>
  The contract of a directory: a finite map from the identities of keys to values that can be
  extended and shrunk while it has room.
\<close>

locale directory =
  fixes ins :: "'s \<Rightarrow> 'k \<Rightarrow> 'v \<Rightarrow> (int \<times> 's) option"
    and del :: "'s \<Rightarrow> 'k \<Rightarrow> 's option"
    and find :: "'s \<Rightarrow> 'k \<Rightarrow> 'v option option"
    and inv :: "'s \<Rightarrow> bool"
    and key :: "'s \<Rightarrow> 'k \<Rightarrow> bool"
    and ident :: "'k \<Rightarrow> 'i"
    and room :: "'s \<Rightarrow> bool"
    and view :: "'s \<Rightarrow> 'i \<rightharpoonup> 'v"
  assumes find_view: "inv s \<Longrightarrow> key s k \<Longrightarrow> find s k = Some (view s (ident k))"
    and ins_view: "inv s \<Longrightarrow> key s k \<Longrightarrow> room s \<Longrightarrow>
      \<exists>s'. ins s k v = Some (0, s') \<and> inv s' \<and> key s' = key s \<and> view s' = (view s)(ident k \<mapsto> v)"
    and del_view: "inv s \<Longrightarrow> key s k \<Longrightarrow> room s \<Longrightarrow>
      \<exists>s'. del s k = Some s' \<and> inv s' \<and> key s' = key s \<and> view s' = (view s)(ident k := None)"
begin

lemma find_after_ins:
  assumes "inv s" "key s k" "key s k'" "room s" "ins s k v = Some (r, s')"
  shows "r = 0 \<and> find s' k' = (if ident k' = ident k then Some (Some v) else find s k')"
  using ins_view [OF assms(1,2,4), of v] assms find_view by auto

lemma find_after_del:
  assumes "inv s" "key s k" "key s k'" "room s" "del s k = Some s'"
  shows "find s' k' = (if ident k' = ident k then Some None else find s k')"
  using del_view [OF assms(1,2,4)] assms find_view by auto

lemma del_after_ins:
  assumes "inv s" "key s k" "room s" "view s (ident k) = None" "ins s k v = Some (r, s')" "room s'"
  shows "\<exists>s''. del s' k = Some s'' \<and> inv s'' \<and> view s'' = view s"
proof -
  from ins_view [OF assms(1-3), of v] assms(5) have s': "inv s'" "key s' k" "view s' = (view s)(ident k \<mapsto> v)"
    using assms(2) by auto
  from del_view [OF s'(1,2) assms(6)] s'(3) assms(4) show ?thesis by (auto simp: fun_upd_idem)
qed

end

interpretation ht: directory htbl_insert htbl_remove htbl_find "htbl_inv hm" "htbl_key hm" FLA_HTBL_H2
  "\<lambda>H. ht_len H \<noteq> ht_tbl_size H" htbl_view
  for hm
proof (unfold_locales, goal_cases)
  case (1 s k)
  then show ?case by (rule htbl_find_view)
next
  case (2 s k v)
  then show ?case using htbl_insert_view [OF 2, of v] by (auto simp: htbl_key_def fun_eq_iff)
next
  case (3 s k)
  then show ?case using htbl_remove_view [OF 3] by (auto simp: htbl_key_def fun_eq_iff)
qed

section \<open>Properties\<close>

text \<open>A table of four slots, and two keys for it.\<close>

definition htbl_blank :: fla_htbl where
  "htbl_blank = \<lparr>ht_tbl = None, ht_tbl_size = 0, ht_len = 0, ht_stat_insert_calls = 0,
     ht_stat_insert_failed = 0, ht_stat_insert_tries = 0\<rparr>"

definition hm_example :: "u64 \<Rightarrow> nat" where
  "hm_example h = (if h = 97 then htbl_home 4 [97, 0] else htbl_home 4 [98, 0])"

lemma htbl_example_keys:
  "ht_tbl_size H = 4 \<Longrightarrow> htbl_key hm_example H [97, 0]" "ht_tbl_size H = 4 \<Longrightarrow> htbl_key hm_example H [98, 0]"
  by (simp_all add: htbl_key_def hm_example_def fla_hash_sdbm_def cstr_def FLA_HTBL_ENTRY_UNSET_def)

lemma htbl_example_init:
  obtains H where "htbl_init True htbl_blank 4 = Some (0, H)" "htbl_inv hm_example H" "ht_tbl_size H = 4"
    "ht_len H = 0" "htbl_view H = Map.empty"
  using htbl_init_inv [of htbl_blank 4 hm_example] by (auto simp: htbl_blank_def)

text \<open>
  C19: A lookup always returns, on a full table too, and it finds exactly the value stored for
  the key's secondary hash.
\<close>

theorem htbl_lookup_correct:
  assumes "htbl_inv hm H" "htbl_key hm H key"
  shows "htbl_find H key = Some (htbl_view H (FLA_HTBL_H2 key))"
  using assms by (rule ht.find_view)

theorem htbl_lookup_correct_witness:
  "\<exists>H. htbl_init True htbl_blank 4 = Some (0, H) \<and> htbl_find H [97, 0] = Some None"
proof -
  obtain H where H: "htbl_init True htbl_blank 4 = Some (0, H)" "htbl_inv hm_example H"
    "ht_tbl_size H = 4" "htbl_view H = Map.empty" by (rule htbl_example_init)
  then show ?thesis using htbl_lookup_correct [OF H(2) htbl_example_keys(1)] by simp
qed

text \<open>
  C13: An insertion into a table that is not full returns 0, keeps the placement invariant and
  the size, and binds the key to the value, whether or not it was bound before; every other
  binding is as it was.
\<close>

theorem htbl_insert_correct:
  assumes "htbl_inv hm H" "htbl_key hm H key" "ht_len H \<noteq> ht_tbl_size H"
  shows "\<exists>H'. htbl_insert H key v = Some (0, H') \<and> htbl_inv hm H' \<and> ht_tbl_size H' = ht_tbl_size H
    \<and> htbl_view H' = (htbl_view H)(FLA_HTBL_H2 key \<mapsto> v)"
  using assms by (rule htbl_insert_view)

theorem htbl_insert_correct_witness:
  "\<exists>H H'. htbl_init True htbl_blank 4 = Some (0, H) \<and> htbl_insert H [97, 0] 7 = Some (0, H')
    \<and> htbl_view H' = [FLA_HTBL_H2 [97, 0] \<mapsto> 7]"
proof -
  obtain H where H: "htbl_init True htbl_blank 4 = Some (0, H)" "htbl_inv hm_example H"
    "ht_tbl_size H = 4" "ht_len H = 0" "htbl_view H = Map.empty" by (rule htbl_example_init)
  then show ?thesis using htbl_insert_correct [OF H(2) htbl_example_keys(1), of 7] by auto
qed

text \<open>
  C20: A removal from a table that is not full returns, keeps the placement invariant and the
  size, and unbinds the key and nothing else.
\<close>

theorem htbl_remove_correct:
  assumes "htbl_inv hm H" "htbl_key hm H key" "ht_len H \<noteq> ht_tbl_size H"
  shows "\<exists>H'. htbl_remove H key = Some H' \<and> htbl_inv hm H' \<and> ht_tbl_size H' = ht_tbl_size H
    \<and> htbl_view H' = (htbl_view H)(FLA_HTBL_H2 key := None)"
  using assms by (rule htbl_remove_view)

theorem htbl_remove_correct_witness:
  "\<exists>H H1 H2. htbl_init True htbl_blank 4 = Some (0, H) \<and> htbl_insert H [97, 0] 7 = Some (0, H1)
    \<and> htbl_remove H1 [97, 0] = Some H2 \<and> htbl_view H2 = Map.empty"
proof -
  obtain H where H: "htbl_init True htbl_blank 4 = Some (0, H)" "htbl_inv hm_example H"
    "ht_tbl_size H = 4" "ht_len H = 0" "htbl_view H = Map.empty" by (rule htbl_example_init)
  from htbl_insert_view [OF H(2) htbl_example_keys(1), of 7] H obtain H1 where H1:
    "htbl_insert H [97, 0] 7 = Some (0, H1)" "htbl_inv hm_example H1" "ht_tbl_size H1 = 4"
    "htbl_view H1 = [FLA_HTBL_H2 [97, 0] \<mapsto> 7]" by auto
  have "unat (ht_len H1) = card (dom (htbl_view H1))" using H1(2) by (auto elim: htbl_invE)
  then have "ht_len H1 \<noteq> ht_tbl_size H1" using H1(3,4) by auto
  from htbl_remove_correct [OF H1(2) htbl_example_keys(1) this] H H1 show ?thesis by auto
qed

end
