(* ===== verification/Fla_Types.thy ===== *)
theory Fla_Types
  imports Fla_Freelist Fla_Hash
begin

text \<open>
  The data structures of \<open>src/src/flexalloc.h\<close>, \<open>flexalloc_shared.h\<close>,
  \<open>flexalloc_mm.h\<close>, \<open>flexalloc_pool.h\<close>, \<open>flexalloc_slabcache.h\<close>, \<open>flexalloc_cs.h\<close>,
  \<open>flexalloc_dp.h\<close> and \<open>flexalloc_xnvme_env.h\<close>, and the interface to xNVMe.

  Fields carry a prefix for the structure they belong to. The metadata buffer that
  \<open>struct flexalloc\<close> points into is represented by the structures it holds: the super block,
  the pool segment and the slab segment are disjoint parts of it. A pointer to a slab header
  is the slab's id, a pointer to a pool entry its index, a pointer to a list head inside a
  pool entry a value of type \<open>head_ref\<close>. A table of function pointers that is always filled
  as a whole is an enumeration of the fillings. The libraries xNVMe and the device behind it
  are a record of functions over an unknown storage state \<open>'d\<close>.
\<close>

section \<open>xNVMe\<close>

datatype xdev = Data_dev | Md_dev

datatype xnvme_geo_type = XNVME_GEO_CONVENTIONAL | XNVME_GEO_ZONED | XNVME_GEO_OTHER

record xnvme_geo =
  xg_type :: xnvme_geo_type
  xg_tbytes :: u64
  xg_lba_nbytes :: u32
  xg_mdts_nbytes :: u32
  xg_nzone :: u32
  xg_nsect :: u64

record lba_range =
  lr_slba :: u64
  lr_elba :: u64
  lr_naddrs :: u64
  lr_is_valid :: bool

text \<open>The fields of a command context that the code sets.\<close>

record cmd_ctx =
  cc_dspec :: u16
  cc_dtype :: u8

datatype znd_action = ZND_SEND_FINISH | ZND_SEND_RESET

text \<open>The places where the code allocates from the C heap.\<close>

datatype malloc_site = Malloc_fs | Malloc_entrie_funcs | Malloc_pool_handle | Malloc_fdp | Malloc_pids
  | Malloc_free_pids | Malloc_zns | Malloc_slab_cache | Malloc_dev_uri | Malloc_md_dev_uri | Malloc_client_entries

text \<open>
  A command returns an error code, whether the completion status reports a failure, and its
  result. \<open>x_buf_alloc\<close> gives the contents of a new I/O buffer or \<open>None\<close>, \<open>x_malloc\<close> is
  whether an allocation from the C heap succeeds, \<open>x_uninit\<close> the contents of its words,
  \<open>x_errno\<close> the value of \<open>errno\<close> after a failure. \<open>x_ruhs\<close> reads the placement identifiers of
  the reclaim unit handles.
\<close>

record 'd xnvme =
  x_geo :: "xdev \<Rightarrow> xnvme_geo"
  x_dev_open :: "xdev \<Rightarrow> bool"
  x_write :: "xdev \<Rightarrow> cmd_ctx \<Rightarrow> u64 \<Rightarrow> u16 \<Rightarrow> u8 list \<Rightarrow> 'd \<Rightarrow> int \<times> bool \<times> 'd"
  x_read :: "xdev \<Rightarrow> u64 \<Rightarrow> u16 \<Rightarrow> 'd \<Rightarrow> int \<times> bool \<times> u8 list"
  x_range_from_slba :: "xdev \<Rightarrow> u64 \<Rightarrow> u64 \<Rightarrow> lba_range"
  x_range_from_offset :: "xdev \<Rightarrow> u64 \<Rightarrow> u64 \<Rightarrow> lba_range"
  x_znd_mgmt_send :: "xdev \<Rightarrow> u64 \<Rightarrow> znd_action \<Rightarrow> bool \<Rightarrow> 'd \<Rightarrow> int \<times> bool \<times> 'd"
  x_ctx_from_dev :: "xdev \<Rightarrow> cmd_ctx"
  x_idfy_ctratt :: "xdev \<Rightarrow> 'd \<Rightarrow> int \<times> bool \<times> u32"
  x_ns_endgid :: "xdev \<Rightarrow> u16 option"
  x_feat_fdp :: "xdev \<Rightarrow> u32 \<Rightarrow> 'd \<Rightarrow> int \<times> bool \<times> u32"
  x_ruhs :: "xdev \<Rightarrow> u32 \<Rightarrow> 'd \<Rightarrow> int \<times> u16 list"
  x_sizeof_ruhs :: u32
  x_sizeof_ruhs_desc :: u32
  x_buf_alloc :: "xdev \<Rightarrow> u64 \<Rightarrow> u8 list option"
  x_malloc :: "malloc_site \<Rightarrow> bool"
  x_uninit :: "nat \<Rightarrow> u32"
  x_errno :: int

section \<open>Disk geometry\<close>

record fla_geo_pool_sgmt =
  gp_freelist_nlb :: u32
  gp_htbl_nlb :: u32
  gp_htbl_tbl_size :: u32
  gp_entries_nlb :: u32

record fla_geo_slab_sgmt =
  gs_slab_sgmt_nlb :: u32

record fla_geo =
  g_nlb :: u64
  g_lb_nbytes :: u32
  g_slab_nlb :: u32
  g_npools :: u32
  g_nslabs :: u32
  g_md_nlb :: u32
  g_pool_sgmt :: fla_geo_pool_sgmt
  g_slab_sgmt :: fla_geo_slab_sgmt

section \<open>Pools\<close>

record fla_object =
  ob_slab_id :: u32
  ob_entry_ndx :: u32

record fla_pool_create_arg =
  pa_flags :: u64
  pa_name :: "u8 list"
  pa_name_len :: int
  pa_obj_nlb :: u32
  pa_strp_nobjs :: u32
  pa_strp_nbytes :: u32

record fla_pool =
  ph_h2 :: u64
  ph_ndx :: u32

text \<open>\<open>fla_root_object_set_action\<close> is a set of flags.\<close>

definition ROOT_OBJ_SET_DEF :: u32 where
  "ROOT_OBJ_SET_DEF = 0"

definition ROOT_OBJ_SET_FORCE :: u32 where
  "ROOT_OBJ_SET_FORCE = 1"

definition ROOT_OBJ_SET_CLEAR :: u32 where
  "ROOT_OBJ_SET_CLEAR = 2"

record fla_pool_htbl_header =
  hh_size :: u32
  hh_len :: u32

record fla_pool_strp =
  ps_strp_nobjs :: u32
  ps_strp_nbytes :: u32

record fla_pool_entry =
  pe_empty_slabs :: u32
  pe_full_slabs :: u32
  pe_partial_slabs :: u32
  pe_obj_nlb :: u32
  pe_slab_nobj :: u32
  pe_root_obj_hndl :: u64
  pe_flags :: u64
  pe_usable :: u64
  pe_name :: "u8 list"

text \<open>\<open>struct fla_pool_entry_fnc\<close> is filled with the default or with the striped functions.\<close>

datatype fla_pool_entry_fnc = Pool_fnc_default | Pool_fnc_strp

text \<open>The enumerator of \<open>fla_pool_entry_flags\<close> has the value 0.\<close>

definition FLA_POOL_ENTRY_STRP :: u64 where
  "FLA_POOL_ENTRY_STRP = 0"

definition FLA_NAME_SIZE_POOL :: nat where
  "FLA_NAME_SIZE_POOL = 112"

record fla_pools =
  po_freelist :: freelist
  po_htbl :: fla_htbl
  po_htbl_hdr :: fla_pool_htbl_header
  po_entries :: "fla_pool_entry list"
  po_funcs :: "fla_pool_entry_fnc option list"

section \<open>Slabs\<close>

record fla_slab_header =
  sh_pool :: u64
  sh_prev :: u32
  sh_next :: u32
  sh_refcount :: u32

record fla_slabs =
  sl_headers :: "fla_slab_header list"
  sl_fslab_num :: u32
  sl_fslab_head :: u32
  sl_fslab_tail :: u32

datatype fla_slab_flist_elem_state =
  FLA_SLAB_CACHE_ELEM_STALE | FLA_SLAB_CACHE_ELEM_DIRTY | FLA_SLAB_CACHE_ELEM_CLEAN

record fla_slab_flist_cache_elem =
  ce_freelist :: "freelist option"
  ce_state :: fla_slab_flist_elem_state

definition FLA_SLAB_CACHE_INVALID_STATE :: int where
  "FLA_SLAB_CACHE_INVALID_STATE = 5001"

definition FLA_LINKED_LIST_NULL :: u32 where
  "FLA_LINKED_LIST_NULL = 0x7FFFFFFF"

definition FLA_ERR_ALL_SLABS_USED :: int where
  "FLA_ERR_ALL_SLABS_USED = 2001"

definition FLA_ROOT_OBJ_NONE :: u64 where
  "FLA_ROOT_OBJ_NONE = 0xFFFFFFFFFFFFFFFF"

section \<open>Command sets and data placement\<close>

datatype fla_cs_t = FLA_CS_ZNS | FLA_CS_CNS

record fla_cs_zns =
  cz_nzones :: u32
  cz_nzsect :: u64

text \<open>
  \<open>struct fla_cs\<close>: the function table is filled by \<open>fla_cs_cns_init\<close> or \<open>fla_cs_zns_init\<close>
  together with the type.
\<close>

record fla_cs =
  cs_t :: fla_cs_t
  cs_zns :: "fla_cs_zns option"

datatype fla_dp_t = FLA_DP_FDP | FLA_DP_ZNS | FLA_DP_DEFAULT

datatype fla_dp_fdp_t = FLA_DP_FDP_ON_SLAB | FLA_DP_FDP_ON_POOL | FLA_DP_FDP_ON_OBJECT
  | FLA_DP_FDP_ON_WRITE

record fla_dp_fdp_pid_to_id =
  pi_pid :: u32
  pi_fla_id :: u32

record fla_dp_fdp =
  fd_ctx_set :: fla_dp_fdp_t
  fd_pids :: "fla_dp_fdp_pid_to_id list"
  fd_free_pids :: freelist
  fd_md_pid :: u32

datatype prep_fn = Prep_noop | Prep_fdp_cached | Prep_fdp_onwrite

record fla_dp =
  dp_type :: fla_dp_t
  dp_fdp :: "fla_dp_fdp option"
  dp_prep :: "prep_fn option"

section \<open>The file system\<close>

record fla_super =
  su_magic :: u64
  su_nslabs :: u32
  su_slab_nlb :: u32
  su_npools :: u32
  su_md_nlb :: u32
  su_fmt_version :: u8

record fla_dev =
  dv_md_dev :: bool
  dv_lb_nbytes :: u32

record flexalloc =
  fs_dev :: fla_dev
  fs_state :: u32
  fs_slab_cache :: "fla_slab_flist_cache_elem list option"
  fs_geo :: fla_geo
  fs_super :: fla_super
  fs_pools :: fla_pools
  fs_slabs :: fla_slabs
  fs_dp :: fla_dp
  fs_cs :: fla_cs

text \<open>\<open>fla_fs_alloc\<close>: a structure of zero bytes, or \<open>None\<close> when \<open>malloc\<close> fails.\<close>

definition fs_zero :: flexalloc where
  "fs_zero = \<lparr>fs_dev = \<lparr>dv_md_dev = False, dv_lb_nbytes = 0\<rparr>, fs_state = 0, fs_slab_cache = None,
     fs_geo = \<lparr>g_nlb = 0, g_lb_nbytes = 0, g_slab_nlb = 0, g_npools = 0, g_nslabs = 0, g_md_nlb = 0,
       g_pool_sgmt = \<lparr>gp_freelist_nlb = 0, gp_htbl_nlb = 0, gp_htbl_tbl_size = 0, gp_entries_nlb = 0\<rparr>,
       g_slab_sgmt = \<lparr>gs_slab_sgmt_nlb = 0\<rparr>\<rparr>,
     fs_super = \<lparr>su_magic = 0, su_nslabs = 0, su_slab_nlb = 0, su_npools = 0, su_md_nlb = 0, su_fmt_version = 0\<rparr>,
     fs_pools = \<lparr>po_freelist = [], po_htbl = \<lparr>ht_tbl = None, ht_tbl_size = 0, ht_len = 0,
         ht_stat_insert_calls = 0, ht_stat_insert_failed = 0, ht_stat_insert_tries = 0\<rparr>,
       po_htbl_hdr = \<lparr>hh_size = 0, hh_len = 0\<rparr>, po_entries = [], po_funcs = []\<rparr>,
     fs_slabs = \<lparr>sl_headers = [], sl_fslab_num = 0, sl_fslab_head = 0, sl_fslab_tail = 0\<rparr>,
     fs_dp = \<lparr>dp_type = FLA_DP_FDP, dp_fdp = None, dp_prep = None\<rparr>,
     fs_cs = \<lparr>cs_t = FLA_CS_ZNS, cs_zns = None\<rparr>\<rparr>"

definition fla_fs_alloc :: "bool \<Rightarrow> flexalloc option" where
  "fla_fs_alloc alloc_ok = (if alloc_ok then Some fs_zero else None)"

datatype head_ref = Empty_slabs nat | Full_slabs nat | Partial_slabs nat

text \<open>Reading and writing through a pointer to a list head.\<close>

definition get_head :: "flexalloc \<Rightarrow> head_ref \<Rightarrow> u32 option" where
  "get_head fs h = (case h of
       Empty_slabs i \<Rightarrow> map_option pe_empty_slabs (rd (po_entries (fs_pools fs)) i)
     | Full_slabs i \<Rightarrow> map_option pe_full_slabs (rd (po_entries (fs_pools fs)) i)
     | Partial_slabs i \<Rightarrow> map_option pe_partial_slabs (rd (po_entries (fs_pools fs)) i))"

definition put_head :: "u32 \<Rightarrow> head_ref \<Rightarrow> fla_pool_entry \<Rightarrow> fla_pool_entry" where
  "put_head v h e = (case h of
       Empty_slabs i \<Rightarrow> e\<lparr>pe_empty_slabs := v\<rparr>
     | Full_slabs i \<Rightarrow> e\<lparr>pe_full_slabs := v\<rparr>
     | Partial_slabs i \<Rightarrow> e\<lparr>pe_partial_slabs := v\<rparr>)"

definition head_pool :: "head_ref \<Rightarrow> nat" where
  "head_pool h = (case h of Empty_slabs i \<Rightarrow> i | Full_slabs i \<Rightarrow> i | Partial_slabs i \<Rightarrow> i)"

definition set_entry :: "flexalloc \<Rightarrow> nat \<Rightarrow> fla_pool_entry \<Rightarrow> flexalloc" where
  "set_entry fs i e = fs\<lparr>fs_pools := (fs_pools fs)\<lparr>po_entries := (po_entries (fs_pools fs))[i := e]\<rparr>\<rparr>"

definition set_head :: "flexalloc \<Rightarrow> head_ref \<Rightarrow> u32 \<Rightarrow> flexalloc option" where
  "set_head fs h v = do {
     e \<leftarrow> rd (po_entries (fs_pools fs)) (head_pool h);
     Some (set_entry fs (head_pool h) (put_head v h e))
   }"

definition set_headers :: "flexalloc \<Rightarrow> fla_slab_header list \<Rightarrow> flexalloc" where
  "set_headers fs hs = fs\<lparr>fs_slabs := (fs_slabs fs)\<lparr>sl_headers := hs\<rparr>\<rparr>"

definition get_header :: "flexalloc \<Rightarrow> u32 \<Rightarrow> fla_slab_header option" where
  "get_header fs s = rd (sl_headers (fs_slabs fs)) (unat s)"

definition set_header :: "flexalloc \<Rightarrow> u32 \<Rightarrow> fla_slab_header \<Rightarrow> flexalloc option" where
  "set_header fs s h = do {
     hs \<leftarrow> wr (sl_headers (fs_slabs fs)) (unat s) h;
     Some (set_headers fs hs)
   }"

end
