(* ===== verification/Fla_Linked_List.thy ===== *)
theory Fla_Linked_List
  imports Fla_Types
begin

text \<open>
  \<open>src/src/flexalloc_ll.c\<close> and the slab header accessors of \<open>flexalloc_mm.c\<close>: doubly linked
  lists of slabs threaded through the slab headers. A list with a head pointer only
  (\<open>hdll\<close>) holds a pool's empty, partial or full slabs; the list with head and tail
  (\<open>edll\<close>) is the queue of free slabs.

  \<open>hseg\<close> relates a chain of headers to the list of its slab ids; each operation is shown to
  do on that list what it is called after, and to leave every other list alone. The queue of
  free slabs meets the contract \<open>slab_queue\<close>.
\<close>

section \<open>Definitions\<close>

definition fla_slab_range_check_id :: "flexalloc \<Rightarrow> u32 \<Rightarrow> int" where
  "fla_slab_range_check_id fs s_id = c_bool (s_id > g_nslabs (fs_geo fs) - 1)"

definition fla_slab_header_ptr :: "u32 \<Rightarrow> flexalloc \<Rightarrow> u32 option" where
  "fla_slab_header_ptr s_id fs = (if fla_slab_range_check_id fs s_id \<noteq> 0 then None else Some s_id)"

definition fla_slab_id :: "u32 \<Rightarrow> flexalloc \<Rightarrow> int \<times> u32" where
  "fla_slab_id slab fs = (fla_slab_range_check_id fs slab, slab)"

definition fla_hdll_prepend :: "flexalloc \<Rightarrow> u32 \<Rightarrow> head_ref \<Rightarrow> (int \<times> flexalloc) option" where
  "fla_hdll_prepend fs slab head =
     (let (err, slab_id) = fla_slab_id slab fs
      in if err \<noteq> 0 then Some (err, fs)
         else do {
           hd_id \<leftarrow> get_head fs head;
           (err, fs) \<leftarrow>
             (if hd_id \<noteq> FLA_LINKED_LIST_NULL
              then (case fla_slab_header_ptr hd_id fs of
                      None \<Rightarrow> Some (1, fs)
                    | Some head_slab \<Rightarrow> do {
                        h \<leftarrow> get_header fs head_slab;
                        fs \<leftarrow> set_header fs head_slab (h\<lparr>sh_prev := slab_id\<rparr>);
                        Some (0, fs)
                      })
              else Some (0, fs));
           if err \<noteq> 0 then Some (err, fs)
           else do {
             h \<leftarrow> get_header fs slab;
             fs \<leftarrow> set_header fs slab (h\<lparr>sh_next := hd_id, sh_prev := FLA_LINKED_LIST_NULL\<rparr>);
             fs \<leftarrow> set_head fs head slab_id;
             Some (0, fs)
           }
         })"

definition fla_hdll_remove :: "flexalloc \<Rightarrow> u32 \<Rightarrow> head_ref \<Rightarrow> (int \<times> flexalloc) option" where
  "fla_hdll_remove fs slab head = do {
     s \<leftarrow> get_header fs slab;
     (err, fs) \<leftarrow>
       (if sh_prev s = FLA_LINKED_LIST_NULL
        then do {
          fs \<leftarrow> set_head fs head (sh_next s);
          Some (0, fs)
        }
        else (case fla_slab_header_ptr (sh_prev s) fs of
                None \<Rightarrow> Some (1, fs)
              | Some temp_slab \<Rightarrow> do {
                  t \<leftarrow> get_header fs temp_slab;
                  fs \<leftarrow> set_header fs temp_slab (t\<lparr>sh_next := sh_next s\<rparr>);
                  Some (0, fs)
                }));
     if err \<noteq> 0 then Some (err, fs)
     else do {
       s \<leftarrow> get_header fs slab;
       if sh_next s \<noteq> FLA_LINKED_LIST_NULL
       then (case fla_slab_header_ptr (sh_next s) fs of
               None \<Rightarrow> Some (1, fs)
             | Some temp_slab \<Rightarrow> do {
                 t \<leftarrow> get_header fs temp_slab;
                 fs \<leftarrow> set_header fs temp_slab (t\<lparr>sh_prev := sh_prev s\<rparr>);
                 Some (0, fs)
               })
       else Some (0, fs)
     }
   }"

text \<open>
  \<open>fla_hdll_remove_all\<close>: the loop runs at most \<open>nslabs\<close> times; \<open>Inl\<close> is its early exit with
  an error.
\<close>

fun hdll_remove_all_loop ::
  "flexalloc \<Rightarrow> head_ref \<Rightarrow> (flexalloc \<Rightarrow> u32 \<Rightarrow> (int \<times> flexalloc) option) \<Rightarrow> nat
    \<Rightarrow> (int \<times> flexalloc) option" where
  "hdll_remove_all_loop fs head execute_on_release 0 = Some (0, fs)"
| "hdll_remove_all_loop fs head execute_on_release (Suc left) = do {
     hd_id \<leftarrow> get_head fs head;
     if hd_id = FLA_LINKED_LIST_NULL then Some (0, fs)
     else (case fla_slab_header_ptr hd_id fs of
             None \<Rightarrow> Some (1, fs)
           | Some curr_slab \<Rightarrow> do {
               s \<leftarrow> get_header fs curr_slab;
               fs \<leftarrow> set_head fs head (sh_next s);
               (err, fs) \<leftarrow> execute_on_release fs curr_slab;
               if err \<noteq> 0 then Some (err, fs)
               else hdll_remove_all_loop fs head execute_on_release left
             })
   }"

definition fla_hdll_remove_all ::
  "flexalloc \<Rightarrow> head_ref \<Rightarrow> (flexalloc \<Rightarrow> u32 \<Rightarrow> (int \<times> flexalloc) option)
    \<Rightarrow> (int \<times> flexalloc) option" where
  "fla_hdll_remove_all fs head execute_on_release = do {
     (err, fs) \<leftarrow> hdll_remove_all_loop fs head execute_on_release (unat (g_nslabs (fs_geo fs)));
     if err \<noteq> 0 then Some (err, fs)
     else do {
       hd_id \<leftarrow> get_head fs head;
       Some (c_bool (hd_id \<noteq> FLA_LINKED_LIST_NULL), fs)
     }
   }"

text \<open>
  The end-pointed list is always the one of free slabs, whose head and tail pointers are set
  by \<open>fla_init\<close>. The last component is the slab handed out.
\<close>

definition set_fslab_ends :: "flexalloc \<Rightarrow> u32 \<Rightarrow> u32 \<Rightarrow> flexalloc" where
  "set_fslab_ends fs h t = fs\<lparr>fs_slabs := (fs_slabs fs)\<lparr>sl_fslab_head := h, sl_fslab_tail := t\<rparr>\<rparr>"

definition fla_edll_remove_head :: "flexalloc \<Rightarrow> (int \<times> flexalloc \<times> u32 option) option" where
  "fla_edll_remove_head fs =
     (let head = sl_fslab_head (fs_slabs fs); tail = sl_fslab_tail (fs_slabs fs);
          a_slab = fla_slab_header_ptr head fs
      in case a_slab of
           None \<Rightarrow> Some (-1, fs, None)
         | Some a \<Rightarrow>
             if head = tail
             then Some (0, set_fslab_ends fs FLA_LINKED_LIST_NULL FLA_LINKED_LIST_NULL, a_slab)
             else do {
               s \<leftarrow> get_header fs a;
               (case fla_slab_header_ptr (sh_next s) fs of
                  None \<Rightarrow> Some (-1, fs, a_slab)
                | Some new_head \<Rightarrow> do {
                    let fs = set_fslab_ends fs (sh_next s) tail;
                    n \<leftarrow> get_header fs new_head;
                    fs \<leftarrow> set_header fs new_head (n\<lparr>sh_prev := FLA_LINKED_LIST_NULL\<rparr>);
                    Some (0, fs, a_slab)
                  })
             })"

definition fla_edll_add_tail :: "flexalloc \<Rightarrow> u32 \<Rightarrow> (int \<times> flexalloc) option" where
  "fla_edll_add_tail fs r_slab =
     (let (err, r_slab_id) = fla_slab_id r_slab fs
      in if err \<noteq> 0 then Some (err, fs)
         else do {
           r \<leftarrow> get_header fs r_slab;
           fs \<leftarrow> set_header fs r_slab (r\<lparr>sh_next := FLA_LINKED_LIST_NULL\<rparr>);
           let head = sl_fslab_head (fs_slabs fs);
           let tail = sl_fslab_tail (fs_slabs fs);
           if head = tail \<and> head = FLA_LINKED_LIST_NULL
           then do {
             let fs = set_fslab_ends fs r_slab_id r_slab_id;
             r \<leftarrow> get_header fs r_slab;
             fs \<leftarrow> set_header fs r_slab (r\<lparr>sh_prev := FLA_LINKED_LIST_NULL\<rparr>);
             Some (0, fs)
           }
           else (case fla_slab_header_ptr tail fs of
                   None \<Rightarrow> Some (1, fs)
                 | Some tail_slab \<Rightarrow> do {
                     t \<leftarrow> get_header fs tail_slab;
                     fs \<leftarrow> set_header fs tail_slab (t\<lparr>sh_next := r_slab_id\<rparr>);
                     r \<leftarrow> get_header fs r_slab;
                     fs \<leftarrow> set_header fs r_slab (r\<lparr>sh_prev := tail\<rparr>);
                     Some (0, set_fslab_ends fs head r_slab_id)
                   })
         })"

section \<open>Field access\<close>

named_theorems fs_fields \<open>what the state updates do to the fields of the file system\<close>

lemma set_headers_fields [fs_fields]:
  "sl_headers (fs_slabs (set_headers fs hs)) = hs"
  "sl_fslab_num (fs_slabs (set_headers fs hs)) = sl_fslab_num (fs_slabs fs)"
  "sl_fslab_head (fs_slabs (set_headers fs hs)) = sl_fslab_head (fs_slabs fs)"
  "sl_fslab_tail (fs_slabs (set_headers fs hs)) = sl_fslab_tail (fs_slabs fs)"
  "fs_geo (set_headers fs hs) = fs_geo fs" "fs_pools (set_headers fs hs) = fs_pools fs"
  "fs_dev (set_headers fs hs) = fs_dev fs" "fs_state (set_headers fs hs) = fs_state fs"
  "fs_slab_cache (set_headers fs hs) = fs_slab_cache fs" "fs_super (set_headers fs hs) = fs_super fs"
  "fs_dp (set_headers fs hs) = fs_dp fs" "fs_cs (set_headers fs hs) = fs_cs fs"
  by (simp_all add: set_headers_def)

lemma set_fslab_ends_fields [fs_fields]:
  "sl_headers (fs_slabs (set_fslab_ends fs h t)) = sl_headers (fs_slabs fs)"
  "sl_fslab_num (fs_slabs (set_fslab_ends fs h t)) = sl_fslab_num (fs_slabs fs)"
  "sl_fslab_head (fs_slabs (set_fslab_ends fs h t)) = h"
  "sl_fslab_tail (fs_slabs (set_fslab_ends fs h t)) = t"
  "fs_geo (set_fslab_ends fs h t) = fs_geo fs" "fs_pools (set_fslab_ends fs h t) = fs_pools fs"
  "fs_dev (set_fslab_ends fs h t) = fs_dev fs" "fs_state (set_fslab_ends fs h t) = fs_state fs"
  "fs_slab_cache (set_fslab_ends fs h t) = fs_slab_cache fs"
  "fs_super (set_fslab_ends fs h t) = fs_super fs"
  "fs_dp (set_fslab_ends fs h t) = fs_dp fs" "fs_cs (set_fslab_ends fs h t) = fs_cs fs"
  by (simp_all add: set_fslab_ends_def)

lemma set_entry_fields [fs_fields]:
  "po_entries (fs_pools (set_entry fs i e)) = (po_entries (fs_pools fs))[i := e]"
  "po_freelist (fs_pools (set_entry fs i e)) = po_freelist (fs_pools fs)"
  "po_htbl (fs_pools (set_entry fs i e)) = po_htbl (fs_pools fs)"
  "po_htbl_hdr (fs_pools (set_entry fs i e)) = po_htbl_hdr (fs_pools fs)"
  "po_funcs (fs_pools (set_entry fs i e)) = po_funcs (fs_pools fs)"
  "fs_slabs (set_entry fs i e) = fs_slabs fs" "fs_geo (set_entry fs i e) = fs_geo fs"
  "fs_dev (set_entry fs i e) = fs_dev fs" "fs_state (set_entry fs i e) = fs_state fs"
  "fs_slab_cache (set_entry fs i e) = fs_slab_cache fs" "fs_super (set_entry fs i e) = fs_super fs"
  "fs_dp (set_entry fs i e) = fs_dp fs" "fs_cs (set_entry fs i e) = fs_cs fs"
  by (simp_all add: set_entry_def)

abbreviation hdrs :: "flexalloc \<Rightarrow> fla_slab_header list" where
  "hdrs fs \<equiv> sl_headers (fs_slabs fs)"

text \<open>A file system whose slab ids are in range and differ from the list terminator.\<close>

definition slabs_ok :: "flexalloc \<Rightarrow> bool" where
  "slabs_ok fs \<longleftrightarrow> length (hdrs fs) = unat (g_nslabs (fs_geo fs)) \<and> 0 < unat (g_nslabs (fs_geo fs))
     \<and> unat (g_nslabs (fs_geo fs)) < 2 ^ 31"

lemma unat_linked_list_null: "unat FLA_LINKED_LIST_NULL = 2 ^ 31 - 1"
  by (simp add: FLA_LINKED_LIST_NULL_def)

lemma slab_range_check:
  assumes "slabs_ok fs"
  shows "fla_slab_range_check_id fs s = c_bool (\<not> unat s < length (hdrs fs))"
proof -
  have "unat (g_nslabs (fs_geo fs) - 1) = unat (g_nslabs (fs_geo fs)) - 1"
    using assms by (intro unat_dec) (auto simp: slabs_ok_def)
  then show ?thesis
    using assms by (auto simp: fla_slab_range_check_id_def word_less_nat_alt slabs_ok_def)
qed

lemma slab_ptr_in [simp]:
  "slabs_ok fs \<Longrightarrow> unat s < length (hdrs fs) \<Longrightarrow> fla_slab_header_ptr s fs = Some s"
  by (simp add: fla_slab_header_ptr_def slab_range_check)

lemma slab_ptr_out [simp]:
  "slabs_ok fs \<Longrightarrow> length (hdrs fs) \<le> unat s \<Longrightarrow> fla_slab_header_ptr s fs = None"
  by (simp add: fla_slab_header_ptr_def slab_range_check)

lemma slab_id_in [simp]:
  "slabs_ok fs \<Longrightarrow> unat s < length (hdrs fs) \<Longrightarrow> fla_slab_id s fs = (0, s)"
  by (simp add: fla_slab_id_def slab_range_check)

lemma get_header_in [simp]:
  "unat s < length (hdrs fs) \<Longrightarrow> get_header fs s = Some (hdrs fs ! unat s)"
  by (simp add: get_header_def)

lemma set_header_in [simp]:
  "unat s < length (hdrs fs) \<Longrightarrow> set_header fs s h = Some (set_headers fs ((hdrs fs)[unat s := h]))"
  by (simp add: set_header_def)

lemma slabs_ok_cong: "fs_geo fs' = fs_geo fs \<Longrightarrow> length (hdrs fs') = length (hdrs fs) \<Longrightarrow> slabs_ok fs' = slabs_ok fs"
  by (simp add: slabs_ok_def)

section \<open>Chains of headers\<close>

text \<open>
  \<open>hseg H p h xs q t\<close>: from slab \<open>h\<close>, whose predecessor is \<open>p\<close>, the headers link the slabs
  \<open>xs\<close> in order; the chain ends after \<open>q\<close> with the link \<open>t\<close>.
\<close>

fun hseg :: "fla_slab_header list \<Rightarrow> u32 \<Rightarrow> u32 \<Rightarrow> u32 list \<Rightarrow> u32 \<Rightarrow> u32 \<Rightarrow> bool" where
  "hseg H p h [] q t \<longleftrightarrow> h = t \<and> p = q"
| "hseg H p h (x # xs) q t \<longleftrightarrow> h = x \<and> x \<noteq> FLA_LINKED_LIST_NULL \<and> unat x < length H
     \<and> sh_prev (H ! unat x) = p \<and> hseg H x (sh_next (H ! unat x)) xs q t"

text \<open>A whole list: it starts and ends with the terminator and has no slab twice.\<close>

definition dll :: "fla_slab_header list \<Rightarrow> u32 \<Rightarrow> u32 list \<Rightarrow> bool" where
  "dll H h xs \<longleftrightarrow> distinct xs
     \<and> (\<exists>q. hseg H FLA_LINKED_LIST_NULL h xs q FLA_LINKED_LIST_NULL)"

lemma hseg_append:
  "hseg H p h (xs @ ys) q t \<longleftrightarrow> (\<exists>r m. hseg H p h xs r m \<and> hseg H r m ys q t)"
  by (induction xs arbitrary: p h) auto

lemma hseg_in: "hseg H p h xs q t \<Longrightarrow> x \<in> set xs \<Longrightarrow> unat x < length H \<and> x \<noteq> FLA_LINKED_LIST_NULL"
  by (induction xs arbitrary: p h) auto

lemma hseg_last: "hseg H p h xs q t \<Longrightarrow> q = (if xs = [] then p else last xs)"
  by (induction xs arbitrary: p h) auto

lemma hseg_head: "hseg H p h xs q t \<Longrightarrow> h = (if xs = [] then t else hd xs)"
  by (cases xs) auto

text \<open>A chain depends on the links of its slabs only.\<close>

lemma hseg_frame:
  assumes "hseg H p h xs q t" "length H' = length H"
    "\<And>x. x \<in> set xs \<Longrightarrow> sh_prev (H' ! unat x) = sh_prev (H ! unat x) \<and> sh_next (H' ! unat x) = sh_next (H ! unat x)"
  shows "hseg H' p h xs q t"
  using assms(1,3) by (induction xs arbitrary: p h) (auto simp: assms(2))

lemma dll_frame:
  assumes "dll H h xs" "length H' = length H"
    "\<And>x. x \<in> set xs \<Longrightarrow> sh_prev (H' ! unat x) = sh_prev (H ! unat x) \<and> sh_next (H' ! unat x) = sh_next (H ! unat x)"
  shows "dll H' h xs"
  using assms hseg_frame unfolding dll_def by meson

lemma unat_neq [simp]: "unat x = unat y \<longleftrightarrow> x = (y :: 'a::len word)"
  by (simp add: word_unat_eq_iff)

lemma hseg_update_other:
  assumes "hseg H p h xs q t" "x \<notin> set xs"
  shows "hseg (H[unat x := v]) p h xs q t"
proof (rule hseg_frame [OF assms(1)])
  fix y assume "y \<in> set xs"
  with assms(2) have "unat x \<noteq> unat y" by auto
  then show "sh_prev (H[unat x := v] ! unat y) = sh_prev (H ! unat y)
    \<and> sh_next (H[unat x := v] ! unat y) = sh_next (H ! unat y)" by simp
qed simp

lemma dll_update_other: "dll H h xs \<Longrightarrow> x \<notin> set xs \<Longrightarrow> dll (H[unat x := v]) h xs"
  unfolding dll_def using hseg_update_other by blast

lemma dll_in: "dll H h xs \<Longrightarrow> x \<in> set xs \<Longrightarrow> unat x < length H \<and> x \<noteq> FLA_LINKED_LIST_NULL"
  unfolding dll_def using hseg_in by blast

lemma dll_Nil [simp]: "dll H h [] \<longleftrightarrow> h = FLA_LINKED_LIST_NULL"
  by (auto simp: dll_def)

lemma dll_head: "dll H h xs \<Longrightarrow> h = (if xs = [] then FLA_LINKED_LIST_NULL else hd xs)"
  unfolding dll_def using hseg_head by blast

lemma dll_head_null: "dll H h xs \<Longrightarrow> h = FLA_LINKED_LIST_NULL \<longleftrightarrow> xs = []"
  using dll_head dll_in by (metis list.set_sel(1))

text \<open>Relinking the two ends of a segment.\<close>

lemma hseg_relink_first:
  assumes "hseg H p h (y # ys) q t" "distinct (y # ys)"
  shows "hseg (H[unat y := (H ! unat y)\<lparr>sh_prev := p'\<rparr>]) p' h (y # ys) q t"
  using assms by (auto intro: hseg_update_other)

lemma hseg_relink_last:
  assumes "hseg H p h (xs @ [y]) q t" "distinct (xs @ [y])"
  shows "hseg (H[unat y := (H ! unat y)\<lparr>sh_next := t'\<rparr>]) p h (xs @ [y]) q t'"
proof -
  from assms(1) obtain r m where "hseg H p h xs r m" "hseg H r m [y] q t" unfolding hseg_append by blast
  moreover from this have "hseg (H[unat y := (H ! unat y)\<lparr>sh_next := t'\<rparr>]) p h xs r m"
    using assms(2) by (intro hseg_update_other) auto
  ultimately show ?thesis unfolding hseg_append by auto
qed

lemma dll_length:
  assumes "dll H h xs"
  shows "length xs \<le> length H"
proof -
  have "unat ` set xs \<subseteq> {..<length H}" using dll_in [OF assms] by auto
  then have "card (unat ` set xs) \<le> length H" using card_mono [of "{..<length H}"] by force
  moreover have "card (unat ` set xs) = card (set xs)" by (intro card_image) (auto simp: inj_on_def)
  moreover have "card (set xs) = length xs" using assms by (simp add: dll_def distinct_card)
  ultimately show ?thesis by simp
qed

text \<open>Following the links computes the list.\<close>

fun chain :: "fla_slab_header list \<Rightarrow> nat \<Rightarrow> u32 \<Rightarrow> u32 list" where
  "chain H 0 h = []"
| "chain H (Suc n) h =
     (if h = FLA_LINKED_LIST_NULL \<or> length H \<le> unat h then []
      else h # chain H n (sh_next (H ! unat h)))"

lemma hseg_chain:
  "hseg H p h xs q FLA_LINKED_LIST_NULL \<Longrightarrow> length xs \<le> n \<Longrightarrow> chain H n h = xs"
proof (induction xs arbitrary: p h n)
  case Nil
  then show ?case by (cases n) auto
next
  case (Cons x xs)
  then obtain n' where "n = Suc n'" by (cases n) auto
  with Cons show ?case by auto
qed

lemma dll_chain: "dll H h xs \<Longrightarrow> chain H (length H) h = xs"
  using dll_length hseg_chain unfolding dll_def by (metis dll_def)

section \<open>Prepending and removing\<close>

text \<open>What the two operations do to the header array.\<close>

definition prepend_hdrs :: "fla_slab_header list \<Rightarrow> u32 \<Rightarrow> u32 \<Rightarrow> fla_slab_header list" where
  "prepend_hdrs H h x =
     (let H = (if h = FLA_LINKED_LIST_NULL then H else H[unat h := (H ! unat h)\<lparr>sh_prev := x\<rparr>])
      in H[unat x := (H ! unat x)\<lparr>sh_next := h, sh_prev := FLA_LINKED_LIST_NULL\<rparr>])"

definition remove_hdrs :: "fla_slab_header list \<Rightarrow> u32 \<Rightarrow> fla_slab_header list" where
  "remove_hdrs H x =
     (let p = sh_prev (H ! unat x); m = sh_next (H ! unat x);
          H = (if p = FLA_LINKED_LIST_NULL then H else H[unat p := (H ! unat p)\<lparr>sh_next := m\<rparr>])
      in if m = FLA_LINKED_LIST_NULL then H else H[unat m := (H ! unat m)\<lparr>sh_prev := p\<rparr>])"

lemma length_prepend_hdrs [simp]: "length (prepend_hdrs H h x) = length H"
  by (simp add: prepend_hdrs_def Let_def)

lemma length_remove_hdrs [simp]: "length (remove_hdrs H x) = length H"
  by (simp add: remove_hdrs_def Let_def)

lemma prepend_dll:
  assumes "dll H h xs" "x \<notin> set xs" "unat x < length H" "x \<noteq> FLA_LINKED_LIST_NULL"
  shows "dll (prepend_hdrs H h x) x (x # xs)"
proof (cases xs)
  case Nil
  then show ?thesis
    using assms by (auto simp: dll_def prepend_hdrs_def)
next
  case (Cons y ys)
  then have y: "h = y" "y \<noteq> FLA_LINKED_LIST_NULL" "unat y < length H" "x \<noteq> y"
    using assms dll_head [OF assms(1)] dll_in [OF assms(1)] by auto
  from assms(1) Cons obtain q where seg: "hseg H FLA_LINKED_LIST_NULL h (y # ys) q FLA_LINKED_LIST_NULL"
    and d: "distinct (y # ys)" by (auto simp: dll_def)
  have "hseg (H[unat y := (H ! unat y)\<lparr>sh_prev := x\<rparr>]) x h (y # ys) q FLA_LINKED_LIST_NULL"
    using hseg_relink_first [OF seg d] .
  then have "hseg (prepend_hdrs H h x) x h (y # ys) q FLA_LINKED_LIST_NULL"
    unfolding prepend_hdrs_def Let_def using y assms(2) Cons
    by (simp del: hseg.simps add: hseg_update_other)
  moreover have "sh_next (prepend_hdrs H h x ! unat x) = h"
    "sh_prev (prepend_hdrs H h x ! unat x) = FLA_LINKED_LIST_NULL"
    using assms(3) by (simp_all add: prepend_hdrs_def Let_def)
  ultimately show ?thesis
    using assms d Cons by (auto simp: dll_def)
qed

lemma prepend_hdrs_other:
  assumes "y \<noteq> x" "y \<noteq> h \<or> h = FLA_LINKED_LIST_NULL"
  shows "prepend_hdrs H h x ! unat y = H ! unat y"
  using assms by (auto simp: prepend_hdrs_def Let_def nth_list_update_neq)

lemma prepend_hdrs_kept:
  assumes "unat x < length H" "h = FLA_LINKED_LIST_NULL \<or> unat h < length H"
  shows "sh_refcount (prepend_hdrs H h x ! i) = sh_refcount (H ! i)"
    "sh_pool (prepend_hdrs H h x ! i) = sh_pool (H ! i)"
  using assms by (auto simp: prepend_hdrs_def Let_def nth_list_update)

lemma prepend_dll_other:
  assumes "dll H h xs" "dll H h' ys" "x \<notin> set ys" "set xs \<inter> set ys = {}"
  shows "dll (prepend_hdrs H h x) h' ys"
proof (rule dll_frame [OF assms(2)])
  fix y assume "y \<in> set ys"
  moreover have "h = FLA_LINKED_LIST_NULL \<or> h \<in> set xs" using dll_head [OF assms(1)] by auto
  ultimately have "y \<noteq> x" "y \<noteq> h \<or> h = FLA_LINKED_LIST_NULL" using assms(3,4) by blast+
  then show "sh_prev (prepend_hdrs H h x ! unat y) = sh_prev (H ! unat y)
    \<and> sh_next (prepend_hdrs H h x ! unat y) = sh_next (H ! unat y)"
    by (simp add: prepend_hdrs_other)
qed simp

lemma remove_links:
  assumes "dll H h (xs @ x # ys)"
  shows "sh_prev (H ! unat x) = (if xs = [] then FLA_LINKED_LIST_NULL else last xs)"
    "sh_next (H ! unat x) = (if ys = [] then FLA_LINKED_LIST_NULL else hd ys)"
    "unat x < length H"
proof -
  from assms obtain r m q where "hseg H FLA_LINKED_LIST_NULL h xs r m"
    "hseg H r m (x # ys) q FLA_LINKED_LIST_NULL"
    unfolding dll_def hseg_append by blast
  then show "sh_prev (H ! unat x) = (if xs = [] then FLA_LINKED_LIST_NULL else last xs)"
    "sh_next (H ! unat x) = (if ys = [] then FLA_LINKED_LIST_NULL else hd ys)" "unat x < length H"
    using hseg_last hseg_head by (fastforce+)
qed

lemma remove_dll:
  assumes "dll H h (xs @ x # ys)"
  shows "dll (remove_hdrs H x) (if xs = [] then sh_next (H ! unat x) else h) (xs @ ys)"
proof -
  let ?N = FLA_LINKED_LIST_NULL
  let ?p = "sh_prev (H ! unat x)" and ?m = "sh_next (H ! unat x)"
  from assms obtain r m q where d: "distinct (xs @ x # ys)" and s1: "hseg H ?N h xs r m"
    and s2: "hseg H r m (x # ys) q ?N"
    unfolding dll_def hseg_append by blast
  note l = remove_links [OF assms]
  have r: "r = ?p" "m = x" and s3: "hseg H x ?m ys q ?N" using s2 by auto
  define H1 where "H1 = (if ?p = ?N then H else H[unat ?p := (H ! unat ?p)\<lparr>sh_next := ?m\<rparr>])"
  have pre: "hseg H1 ?N (if xs = [] then ?m else h) xs ?p ?m"
  proof (cases xs rule: rev_cases)
    case Nil
    then show ?thesis using l(1) by simp
  next
    case (snoc us u)
    then have u: "?p = u" "u \<noteq> ?N" using l(1) hseg_in [OF s1, of u] by auto
    have "hseg (H[unat u := (H ! unat u)\<lparr>sh_next := ?m\<rparr>]) ?N h (us @ [u]) r ?m"
      using hseg_relink_last [of H ?N h us u r m] s1 d snoc by auto
    then show ?thesis using u r snoc by (simp add: H1_def)
  qed
  have post: "hseg H1 x ?m ys q ?N"
  proof (cases "?p = ?N")
    case False
    then have "?p \<in> set xs" using l(1) by (auto split: if_splits)
    then have "?p \<notin> set ys" using d by auto
    then show ?thesis using s3 False by (simp add: H1_def hseg_update_other)
  qed (use s3 in \<open>simp add: H1_def\<close>)
  have R: "remove_hdrs H x = (if ?m = ?N then H1 else H1[unat ?m := (H1 ! unat ?m)\<lparr>sh_prev := ?p\<rparr>])"
    by (simp add: remove_hdrs_def Let_def H1_def)
  show ?thesis
  proof (cases ys)
    case Nil
    then have "?m = ?N" using l(2) by simp
    then show ?thesis using R pre d Nil by (auto simp: dll_def)
  next
    case (Cons y zs)
    then have y: "?m = y" "y \<noteq> ?N" using l(2) hseg_in [OF s3, of y] by auto
    have "hseg (remove_hdrs H x) ?p ?m ys q ?N"
      using hseg_relink_first [of H1 x ?m y zs q ?N ?p] post d Cons y R by simp
    moreover have "y \<notin> set xs" using d Cons by auto
    then have "hseg (remove_hdrs H x) ?N (if xs = [] then ?m else h) xs ?p ?m"
      using pre y R by (simp add: hseg_update_other)
    ultimately show ?thesis using d unfolding dll_def hseg_append by auto
  qed
qed

lemma remove_hdrs_other:
  assumes "dll H h (xs @ x # ys)" "z \<notin> set (xs @ ys)"
  shows "remove_hdrs H x ! unat z = H ! unat z"
proof -
  note l = remove_links [OF assms(1)]
  have "sh_prev (H ! unat x) = FLA_LINKED_LIST_NULL \<or> sh_prev (H ! unat x) \<in> set xs"
    "sh_next (H ! unat x) = FLA_LINKED_LIST_NULL \<or> sh_next (H ! unat x) \<in> set ys"
    using l by auto
  then have "sh_prev (H ! unat x) = FLA_LINKED_LIST_NULL \<or> unat (sh_prev (H ! unat x)) \<noteq> unat z"
    "sh_next (H ! unat x) = FLA_LINKED_LIST_NULL \<or> unat (sh_next (H ! unat x)) \<noteq> unat z"
    using assms(2) by auto
  then show ?thesis
    unfolding remove_hdrs_def Let_def by (auto simp del: unat_neq)
qed

lemma remove_hdrs_kept:
  assumes "dll H h (xs @ x # ys)"
  shows "sh_refcount (remove_hdrs H x ! i) = sh_refcount (H ! i)"
    "sh_pool (remove_hdrs H x ! i) = sh_pool (H ! i)"
proof -
  note l = remove_links [OF assms]
  have "sh_prev (H ! unat x) = FLA_LINKED_LIST_NULL \<or> unat (sh_prev (H ! unat x)) < length H"
    "sh_next (H ! unat x) = FLA_LINKED_LIST_NULL \<or> unat (sh_next (H ! unat x)) < length H"
    using l dll_in [OF assms] by auto
  then show "sh_refcount (remove_hdrs H x ! i) = sh_refcount (H ! i)"
    "sh_pool (remove_hdrs H x ! i) = sh_pool (H ! i)"
    by (auto simp: remove_hdrs_def Let_def nth_list_update)
qed

lemma remove_dll_other:
  assumes "dll H h (xs @ x # ys)" "dll H h' zs" "set (xs @ ys) \<inter> set zs = {}"
  shows "dll (remove_hdrs H x) h' zs"
proof (rule dll_frame [OF assms(2)])
  fix z assume "z \<in> set zs"
  then have "z \<notin> set (xs @ ys)" using assms(3) by auto
  then show "sh_prev (remove_hdrs H x ! unat z) = sh_prev (H ! unat z)
    \<and> sh_next (remove_hdrs H x ! unat z) = sh_next (H ! unat z)"
    using remove_hdrs_other [OF assms(1)] by presburger
qed simp

section \<open>The operations on a pool's lists\<close>

definition head_val :: "head_ref \<Rightarrow> fla_pool_entry \<Rightarrow> u32" where
  "head_val h e = (case h of Empty_slabs i \<Rightarrow> pe_empty_slabs e | Full_slabs i \<Rightarrow> pe_full_slabs e
     | Partial_slabs i \<Rightarrow> pe_partial_slabs e)"

abbreviation entries :: "flexalloc \<Rightarrow> fla_pool_entry list" where
  "entries fs \<equiv> po_entries (fs_pools fs)"

definition head_of :: "flexalloc \<Rightarrow> head_ref \<Rightarrow> u32" where
  "head_of fs h = head_val h (entries fs ! head_pool h)"

definition with_head :: "flexalloc \<Rightarrow> head_ref \<Rightarrow> u32 \<Rightarrow> flexalloc" where
  "with_head fs h v = set_entry fs (head_pool h) (put_head v h (entries fs ! head_pool h))"

lemma get_head_in [simp]: "head_pool h < length (entries fs) \<Longrightarrow> get_head fs h = Some (head_of fs h)"
  by (cases h) (auto simp: get_head_def head_of_def head_val_def head_pool_def)

lemma set_head_in [simp]: "head_pool h < length (entries fs) \<Longrightarrow> set_head fs h v = Some (with_head fs h v)"
  by (simp add: set_head_def with_head_def)

lemma with_head_fields [fs_fields]:
  "fs_slabs (with_head fs h v) = fs_slabs fs" "fs_geo (with_head fs h v) = fs_geo fs"
  "fs_dev (with_head fs h v) = fs_dev fs" "fs_state (with_head fs h v) = fs_state fs"
  "fs_slab_cache (with_head fs h v) = fs_slab_cache fs" "fs_super (with_head fs h v) = fs_super fs"
  "fs_dp (with_head fs h v) = fs_dp fs" "fs_cs (with_head fs h v) = fs_cs fs"
  "po_freelist (fs_pools (with_head fs h v)) = po_freelist (fs_pools fs)"
  "po_htbl (fs_pools (with_head fs h v)) = po_htbl (fs_pools fs)"
  "po_htbl_hdr (fs_pools (with_head fs h v)) = po_htbl_hdr (fs_pools fs)"
  "po_funcs (fs_pools (with_head fs h v)) = po_funcs (fs_pools fs)"
  "length (entries (with_head fs h v)) = length (entries fs)"
  by (simp_all add: with_head_def fs_fields)

lemma head_of_with_head:
  "head_pool h < length (entries fs) \<Longrightarrow> head_of (with_head fs h v) h' = (if h' = h then v else head_of fs h')"
  by (cases h; cases h') (auto simp: head_of_def with_head_def fs_fields head_pool_def head_val_def
      put_head_def nth_list_update)

lemma head_of_set_headers [simp]: "head_of (set_headers fs H) h = head_of fs h"
  by (simp add: head_of_def fs_fields)

lemma put_head_fields:
  "pe_obj_nlb (put_head v h e) = pe_obj_nlb e" "pe_slab_nobj (put_head v h e) = pe_slab_nobj e"
  "pe_root_obj_hndl (put_head v h e) = pe_root_obj_hndl e" "pe_flags (put_head v h e) = pe_flags e"
  "pe_usable (put_head v h e) = pe_usable e" "pe_name (put_head v h e) = pe_name e"
  by (cases h; simp add: put_head_def)+

lemma fla_hdll_prepend_eq:
  assumes "slabs_ok fs" "unat x < length (hdrs fs)" "head_pool h < length (entries fs)"
    "head_of fs h = FLA_LINKED_LIST_NULL \<or> unat (head_of fs h) < length (hdrs fs)"
  shows "fla_hdll_prepend fs x h =
    Some (0, with_head (set_headers fs (prepend_hdrs (hdrs fs) (head_of fs h) x)) h x)"
  using assms
  by (auto simp: fla_hdll_prepend_def prepend_hdrs_def Let_def fs_fields set_headers_def)

lemma fla_hdll_remove_eq:
  assumes "slabs_ok fs" "head_pool h < length (entries fs)" "dll (hdrs fs) (head_of fs h) (xs @ x # ys)"
  shows "fla_hdll_remove fs x h =
    Some (0, set_headers (if xs = [] then with_head fs h (sh_next (hdrs fs ! unat x)) else fs)
      (remove_hdrs (hdrs fs) x))"
proof -
  let ?H = "hdrs fs"
  let ?p = "sh_prev (?H ! unat x)" and ?m = "sh_next (?H ! unat x)"
  note l = remove_links [OF assms(3)]
  have d: "distinct (xs @ x # ys)" using assms(3) by (simp add: dll_def)
  have p: "?p = FLA_LINKED_LIST_NULL \<and> xs = [] \<or> unat ?p < length ?H \<and> ?p \<noteq> FLA_LINKED_LIST_NULL \<and> ?p \<noteq> x \<and> xs \<noteq> []"
    using l(1) d dll_in [OF assms(3), of ?p] by (cases "xs = []") auto
  have m: "?m = FLA_LINKED_LIST_NULL \<or> unat ?m < length ?H"
    using l(2) dll_in [OF assms(3), of ?m] by (cases "ys = []") auto
  have ok: "slabs_ok (set_headers fs (?H[unat ?p := (?H ! unat ?p)\<lparr>sh_next := ?m\<rparr>]))"
    "slabs_ok (with_head fs h ?m)"
    using assms(1) by (simp_all add: slabs_ok_def fs_fields)
  from p show ?thesis
  proof (elim disjE conjE)
    assume a: "?p = FLA_LINKED_LIST_NULL" "xs = []"
    then show ?thesis
      using assms(1,2) l(3) m ok
      by (auto simp: fla_hdll_remove_def remove_hdrs_def Let_def fs_fields set_headers_def)
  next
    assume a: "unat ?p < length ?H" "?p \<noteq> FLA_LINKED_LIST_NULL" "?p \<noteq> x" "xs \<noteq> []"
    then show ?thesis
      using assms(1) l(3) m ok
      by (auto simp: fla_hdll_remove_def remove_hdrs_def Let_def fs_fields set_headers_def)
  qed
qed

section \<open>The queue of free slabs\<close>

definition free_queue :: "flexalloc \<Rightarrow> u32 list \<Rightarrow> bool" where
  "free_queue fs xs \<longleftrightarrow> dll (hdrs fs) (sl_fslab_head (fs_slabs fs)) xs
     \<and> sl_fslab_tail (fs_slabs fs) = (if xs = [] then FLA_LINKED_LIST_NULL else last xs)"

definition pop_hdrs :: "fla_slab_header list \<Rightarrow> u32 list \<Rightarrow> fla_slab_header list" where
  "pop_hdrs H xs = (case xs of [] \<Rightarrow> H
     | y # ys \<Rightarrow> H[unat y := (H ! unat y)\<lparr>sh_prev := FLA_LINKED_LIST_NULL\<rparr>])"

definition push_hdrs :: "fla_slab_header list \<Rightarrow> u32 list \<Rightarrow> u32 \<Rightarrow> fla_slab_header list" where
  "push_hdrs H xs x =
     (let H = H[unat x := (H ! unat x)\<lparr>sh_next := FLA_LINKED_LIST_NULL\<rparr>]
      in if xs = [] then H[unat x := (H ! unat x)\<lparr>sh_prev := FLA_LINKED_LIST_NULL\<rparr>]
         else let H = H[unat (last xs) := (H ! unat (last xs))\<lparr>sh_next := x\<rparr>]
              in H[unat x := (H ! unat x)\<lparr>sh_prev := last xs\<rparr>])"

lemma length_pop_hdrs [simp]: "length (pop_hdrs H xs) = length H"
  by (simp add: pop_hdrs_def split: list.split)

lemma length_push_hdrs [simp]: "length (push_hdrs H xs x) = length H"
  by (simp add: push_hdrs_def Let_def)

lemma fla_edll_remove_head_empty:
  assumes "slabs_ok fs" "free_queue fs []"
  shows "fla_edll_remove_head fs = Some (-1, fs, None)"
  using assms by (simp add: fla_edll_remove_head_def free_queue_def unat_linked_list_null slabs_ok_def
      fla_slab_header_ptr_def slab_range_check [OF assms(1)])

lemma fla_edll_remove_head_eq:
  assumes "slabs_ok fs" "free_queue fs (x # xs)"
  shows "fla_edll_remove_head fs = Some (0, set_fslab_ends (set_headers fs (pop_hdrs (hdrs fs) xs))
      (if xs = [] then FLA_LINKED_LIST_NULL else hd xs)
      (if xs = [] then FLA_LINKED_LIST_NULL else last xs), Some x)"
proof -
  have q: "sl_fslab_head (fs_slabs fs) = x" "unat x < length (hdrs fs)" "distinct (x # xs)"
    "sl_fslab_tail (fs_slabs fs) = (if xs = [] then x else last xs)"
    using assms(2) dll_head dll_in by (fastforce simp: free_queue_def dll_def)+
  have n: "sh_next (hdrs fs ! unat x) = (if xs = [] then FLA_LINKED_LIST_NULL else hd xs)"
    using remove_links(2) [of "hdrs fs" _ "[]" x xs] assms(2) by (auto simp: free_queue_def)
  show ?thesis
  proof (cases xs)
    case Nil
    then show ?thesis using assms(1) q by (simp add: fla_edll_remove_head_def pop_hdrs_def set_headers_def set_fslab_ends_def)
  next
    case (Cons y ys)
    then have "unat y < length (hdrs fs)" "x \<noteq> last xs"
      using assms(2) q(3) dll_in [of "hdrs fs" _ "x # xs" y] by (auto simp: free_queue_def)
    then show ?thesis
      using assms(1) q n Cons
      by (simp add: fla_edll_remove_head_def pop_hdrs_def fs_fields set_headers_def set_fslab_ends_def)
  qed
qed

lemma pop_dll:
  assumes "dll H h (x # xs)"
  shows "dll (pop_hdrs H xs) (if xs = [] then FLA_LINKED_LIST_NULL else hd xs) xs"
proof (cases xs)
  case (Cons y ys)
  from assms obtain q where "hseg H FLA_LINKED_LIST_NULL h (x # xs) q FLA_LINKED_LIST_NULL" "distinct (x # xs)"
    by (auto simp: dll_def)
  then have "hseg H x y (y # ys) q FLA_LINKED_LIST_NULL" "distinct (y # ys)" using Cons by auto
  from hseg_relink_first [OF this, of FLA_LINKED_LIST_NULL] \<open>distinct (x # xs)\<close> Cons show ?thesis
    unfolding dll_def pop_hdrs_def by (simp del: hseg.simps) blast
qed simp

lemma fla_edll_add_tail_eq:
  assumes "slabs_ok fs" "free_queue fs xs" "x \<notin> set xs" "unat x < length (hdrs fs)"
  shows "fla_edll_add_tail fs x = Some (0, set_fslab_ends (set_headers fs (push_hdrs (hdrs fs) xs x))
      (if xs = [] then x else hd xs) x)"
proof (cases "xs = []")
  case True
  then show ?thesis
    using assms by (simp add: fla_edll_add_tail_def free_queue_def push_hdrs_def Let_def fs_fields
        set_headers_def set_fslab_ends_def)
next
  case False
  then have t: "unat (last xs) < length (hdrs fs)" "last xs \<noteq> FLA_LINKED_LIST_NULL"
    "sl_fslab_head (fs_slabs fs) = hd xs" "sl_fslab_tail (fs_slabs fs) = last xs" "hd xs \<noteq> FLA_LINKED_LIST_NULL"
    using assms(2) dll_in [of "hdrs fs" _ xs] dll_head [of "hdrs fs" _ xs] by (auto simp: free_queue_def)
  have ok: "slabs_ok (set_headers fs ((hdrs fs)[unat x := v]))" for v
    using assms(1) by (simp add: slabs_ok_def fs_fields)
  show ?thesis
    using assms(1,4) t ok False
    by (auto simp: fla_edll_add_tail_def push_hdrs_def Let_def fs_fields set_headers_def set_fslab_ends_def)
qed

lemma push_dll:
  assumes "dll H h xs" "x \<notin> set xs" "unat x < length H" "x \<noteq> FLA_LINKED_LIST_NULL"
  shows "dll (push_hdrs H xs x) (if xs = [] then x else hd xs) (xs @ [x])"
proof (cases xs rule: rev_cases)
  case Nil
  with assms show ?thesis by (simp add: dll_def push_hdrs_def Let_def)
next
  case (snoc us u)
  then have u: "x \<noteq> u" "unat u < length H" using assms dll_in [OF assms(1), of u] by auto
  let ?v = "(H ! unat x)\<lparr>sh_next := FLA_LINKED_LIST_NULL\<rparr>"
  let ?w = "?v\<lparr>sh_prev := u\<rparr>"
  have H': "push_hdrs H xs x = (H[unat u := (H ! unat u)\<lparr>sh_next := x\<rparr>])[unat x := ?w]"
    using u snoc assms(3)
    by (simp add: push_hdrs_def Let_def list_update_swap)
  from assms(1) obtain q where q: "hseg H FLA_LINKED_LIST_NULL h xs q FLA_LINKED_LIST_NULL" "distinct xs"
    by (auto simp: dll_def)
  then have "hseg (H[unat u := (H ! unat u)\<lparr>sh_next := x\<rparr>]) FLA_LINKED_LIST_NULL h xs q x" "q = u"
    using hseg_relink_last [of H _ h us u q] snoc hseg_last by fastforce+
  then have "hseg (push_hdrs H xs x) FLA_LINKED_LIST_NULL h xs u x"
    using H' assms(2) hseg_update_other by metis
  moreover have "hseg (push_hdrs H xs x) u x [x] x FLA_LINKED_LIST_NULL"
    using assms(3,4) by (simp add: H')
  ultimately have "hseg (push_hdrs H xs x) FLA_LINKED_LIST_NULL h (xs @ [x]) x FLA_LINKED_LIST_NULL"
    unfolding hseg_append by blast
  moreover have "h = hd xs" "xs \<noteq> []" using dll_head [OF assms(1)] snoc by auto
  ultimately show ?thesis using q(2) assms(2) by (auto simp: dll_def)
qed

lemma pop_hdrs_other: "z \<notin> set xs \<Longrightarrow> pop_hdrs H xs ! unat z = H ! unat z"
  by (cases xs) (auto simp: pop_hdrs_def nth_list_update_neq)

lemma push_hdrs_other: "z \<noteq> x \<Longrightarrow> z \<notin> set xs \<Longrightarrow> push_hdrs H xs x ! unat z = H ! unat z"
proof -
  assume "z \<noteq> x" "z \<notin> set xs"
  then have "unat x \<noteq> unat z" "xs = [] \<or> unat (last xs) \<noteq> unat z" by auto
  then show ?thesis by (auto simp: push_hdrs_def Let_def simp del: unat_neq)
qed

lemma pop_hdrs_kept:
  "sh_refcount (pop_hdrs H xs ! i) = sh_refcount (H ! i)" "sh_pool (pop_hdrs H xs ! i) = sh_pool (H ! i)"
proof -
  have "sh_refcount (pop_hdrs H xs ! i) = sh_refcount (H ! i) \<and> sh_pool (pop_hdrs H xs ! i) = sh_pool (H ! i)"
  proof (cases xs)
    case (Cons y ys)
    then show ?thesis
      by (cases "unat y < length H"; cases "i = unat y") (simp_all add: pop_hdrs_def list_update_beyond)
  qed (simp add: pop_hdrs_def)
  then show "sh_refcount (pop_hdrs H xs ! i) = sh_refcount (H ! i)"
    "sh_pool (pop_hdrs H xs ! i) = sh_pool (H ! i)" by auto
qed

text \<open>The contract of the queue: slabs leave at the front and return at the back.\<close>

locale slab_queue =
  fixes take_slab :: "'s \<Rightarrow> (int \<times> 's \<times> u32 option) option"
    and give_slab :: "'s \<Rightarrow> u32 \<Rightarrow> (int \<times> 's) option"
    and inv :: "'s \<Rightarrow> bool"
    and slab :: "'s \<Rightarrow> u32 \<Rightarrow> bool"
    and queue :: "'s \<Rightarrow> u32 list"
  assumes take_empty: "inv s \<Longrightarrow> queue s = [] \<Longrightarrow> take_slab s = Some (-1, s, None)"
    and take_front: "inv s \<Longrightarrow> queue s = x # xs \<Longrightarrow>
      \<exists>s'. take_slab s = Some (0, s', Some x) \<and> inv s' \<and> queue s' = xs \<and> slab s' = slab s"
    and give_back: "inv s \<Longrightarrow> slab s x \<Longrightarrow> x \<notin> set (queue s) \<Longrightarrow>
      \<exists>s'. give_slab s x = Some (0, s') \<and> inv s' \<and> queue s' = queue s @ [x] \<and> slab s' = slab s"
    and queue_slabs: "inv s \<Longrightarrow> x \<in> set (queue s) \<Longrightarrow> slab s x"
    and queue_distinct: "inv s \<Longrightarrow> distinct (queue s)"
begin

lemma take_total: "inv s \<Longrightarrow> \<exists>r s' x. take_slab s = Some (r, s', x) \<and> inv s'"
  using take_empty [of s] take_front [of s] by (cases "queue s") auto

lemma take_then_give:
  assumes "inv s" "queue s = x # xs" "take_slab s = Some (r, s', y)"
  shows "\<exists>s''. give_slab s' x = Some (0, s'') \<and> inv s'' \<and> queue s'' = rotate1 (queue s)"
proof -
  from take_front [OF assms(1,2)] assms(3) have s': "inv s'" "queue s' = xs" "slab s' = slab s" by auto
  moreover have "slab s x" "x \<notin> set xs"
    using queue_slabs [OF assms(1)] queue_distinct [OF assms(1)] assms(2) by auto
  ultimately show ?thesis using give_back [OF s'(1), of x] assms(2) by auto
qed

end

definition queue_of :: "flexalloc \<Rightarrow> u32 list" where
  "queue_of fs = chain (hdrs fs) (length (hdrs fs)) (sl_fslab_head (fs_slabs fs))"

lemma free_queue_of: "free_queue fs xs \<Longrightarrow> queue_of fs = xs"
  unfolding free_queue_def queue_of_def using dll_chain by blast

lemma slab_neq_null: "slabs_ok fs \<Longrightarrow> unat x < length (hdrs fs) \<Longrightarrow> x \<noteq> FLA_LINKED_LIST_NULL"
  by (auto simp: slabs_ok_def unat_linked_list_null)

lemma edll_take:
  assumes "slabs_ok fs" "free_queue fs (x # xs)"
  shows "\<exists>fs'. fla_edll_remove_head fs = Some (0, fs', Some x) \<and> slabs_ok fs' \<and> free_queue fs' xs
    \<and> length (hdrs fs') = length (hdrs fs)"
proof -
  have "dll (pop_hdrs (hdrs fs) xs) (if xs = [] then FLA_LINKED_LIST_NULL else hd xs) xs"
    using assms(2) pop_dll unfolding free_queue_def by blast
  then show ?thesis
    using fla_edll_remove_head_eq [OF assms] assms(1) by (simp add: free_queue_def slabs_ok_def fs_fields)
qed

lemma edll_give:
  assumes "slabs_ok fs" "free_queue fs xs" "x \<notin> set xs" "unat x < length (hdrs fs)"
  shows "\<exists>fs'. fla_edll_add_tail fs x = Some (0, fs') \<and> slabs_ok fs' \<and> free_queue fs' (xs @ [x])
    \<and> length (hdrs fs') = length (hdrs fs)"
proof -
  have "dll (push_hdrs (hdrs fs) xs x) (if xs = [] then x else hd xs) (xs @ [x])"
    using assms slab_neq_null [OF assms(1,4)] by (intro push_dll) (auto simp: free_queue_def)
  then show ?thesis
    using fla_edll_add_tail_eq [OF assms] assms(1) by (simp add: free_queue_def slabs_ok_def fs_fields)
qed

interpretation sq: slab_queue fla_edll_remove_head fla_edll_add_tail
  "\<lambda>fs. slabs_ok fs \<and> free_queue fs (queue_of fs)" "\<lambda>fs x. unat x < length (hdrs fs)" queue_of
proof (unfold_locales, goal_cases)
  case (1 s)
  then show ?case using fla_edll_remove_head_empty by simp
next
  case (2 s x xs)
  then obtain s' where "fla_edll_remove_head s = Some (0, s', Some x)" "slabs_ok s'" "free_queue s' xs"
    "length (hdrs s') = length (hdrs s)" using edll_take [of s x xs] by auto
  then show ?case using free_queue_of [of s' xs] by auto
next
  case (3 s x)
  then obtain s' where "fla_edll_add_tail s x = Some (0, s')" "slabs_ok s'" "free_queue s' (queue_of s @ [x])"
    "length (hdrs s') = length (hdrs s)" using edll_give [of s "queue_of s" x] by auto
  then show ?case using free_queue_of [of s' "queue_of s @ [x]"] by auto
next
  case (4 s x)
  then show ?case using dll_in unfolding free_queue_def by blast
next
  case (5 s)
  then show ?case unfolding free_queue_def dll_def by blast
qed

text \<open>The lists whose heads lie in the pool entries, all at once.\<close>

abbreviation slab_list :: "flexalloc \<Rightarrow> head_ref \<Rightarrow> u32 list \<Rightarrow> bool" where
  "slab_list fs h xs \<equiv> dll (hdrs fs) (head_of fs h) xs"

text \<open>Two states that differ in links and list heads only.\<close>

definition entry_data :: "fla_pool_entry \<Rightarrow> u32 \<times> u32 \<times> u64 \<times> u64 \<times> u64 \<times> u8 list" where
  "entry_data e = (pe_obj_nlb e, pe_slab_nobj e, pe_root_obj_hndl e, pe_flags e, pe_usable e, pe_name e)"

definition links_only :: "flexalloc \<Rightarrow> flexalloc \<Rightarrow> bool" where
  "links_only fs fs' \<longleftrightarrow> fs_dev fs' = fs_dev fs \<and> fs_geo fs' = fs_geo fs \<and> fs_cs fs' = fs_cs fs
     \<and> fs_super fs' = fs_super fs \<and> fs_slab_cache fs' = fs_slab_cache fs \<and> fs_dp fs' = fs_dp fs
     \<and> fs_state fs' = fs_state fs \<and> po_freelist (fs_pools fs') = po_freelist (fs_pools fs)
     \<and> po_htbl (fs_pools fs') = po_htbl (fs_pools fs) \<and> po_htbl_hdr (fs_pools fs') = po_htbl_hdr (fs_pools fs)
     \<and> po_funcs (fs_pools fs') = po_funcs (fs_pools fs)
     \<and> sl_fslab_num (fs_slabs fs') = sl_fslab_num (fs_slabs fs)
     \<and> map entry_data (entries fs') = map entry_data (entries fs)
     \<and> map sh_refcount (hdrs fs') = map sh_refcount (hdrs fs) \<and> map sh_pool (hdrs fs') = map sh_pool (hdrs fs)"

lemma links_only_trans: "links_only fs fs1 \<Longrightarrow> links_only fs1 fs2 \<Longrightarrow> links_only fs fs2"
  by (simp add: links_only_def)

lemma links_only_slabs_ok: "links_only fs fs' \<Longrightarrow> slabs_ok fs' = slabs_ok fs"
  using map_eq_imp_length_eq [of sh_pool "hdrs fs'" sh_pool "hdrs fs"] by (simp add: links_only_def slabs_ok_def)

lemma map_nth_same: "map f xs = map f ys \<Longrightarrow> i < length ys \<Longrightarrow> f (xs ! i) = f (ys ! i)"
  by (metis length_map nth_map)

lemma links_only_lengths:
  "links_only fs fs' \<Longrightarrow> length (hdrs fs') = length (hdrs fs) \<and> length (entries fs') = length (entries fs)"
  using map_eq_imp_length_eq [of sh_pool "hdrs fs'" sh_pool "hdrs fs"]
    map_eq_imp_length_eq [of entry_data "entries fs'" entry_data "entries fs"] by (simp add: links_only_def)

lemma map_update_same: "f v = f (xs ! i) \<Longrightarrow> map f (xs[i := v]) = map f xs"
  by (cases "i < length xs") (auto simp: map_update list_update_same_conv list_update_beyond)

lemma links_only_with_head: "links_only fs (with_head fs h v)"
proof -
  have "map entry_data (entries (with_head fs h v)) = map entry_data (entries fs)"
    by (simp add: with_head_def fs_fields map_update_same entry_data_def put_head_fields)
  then show ?thesis by (simp add: links_only_def fs_fields)
qed

lemma links_only_set_headers:
  "map sh_refcount H = map sh_refcount (hdrs fs) \<Longrightarrow> map sh_pool H = map sh_pool (hdrs fs) \<Longrightarrow> links_only fs (set_headers fs H)"
  by (simp add: links_only_def fs_fields)

lemma hdll_prepend_spec:
  assumes "slabs_ok fs" "head_pool h < length (entries fs)" "slab_list fs h xs"
    "unat x < length (hdrs fs)" "x \<notin> set xs"
  shows "\<exists>fs'. fla_hdll_prepend fs x h = Some (0, fs') \<and> slab_list fs' h (x # xs)
    \<and> (\<forall>h' ys. h' \<noteq> h \<and> slab_list fs h' ys \<and> set ys \<inter> set (x # xs) = {} \<longrightarrow> slab_list fs' h' ys)
    \<and> (\<forall>ys. free_queue fs ys \<and> set ys \<inter> set (x # xs) = {} \<longrightarrow> free_queue fs' ys) \<and> links_only fs fs'"
proof -
  have hd: "head_of fs h = FLA_LINKED_LIST_NULL \<or> unat (head_of fs h) < length (hdrs fs)"
    using dll_head [OF assms(3)] dll_in [OF assms(3)] by (cases "xs = []") auto
  note eq = fla_hdll_prepend_eq [OF assms(1,4,2) hd]
  note x = slab_neq_null [OF assms(1,4)]
  let ?H = "prepend_hdrs (hdrs fs) (head_of fs h) x"
  note other = prepend_dll_other [OF assms(3)]
  have "links_only fs (set_headers fs ?H)"
    using prepend_hdrs_kept [OF assms(4) hd] by (intro links_only_set_headers) (auto intro!: nth_equalityI)
  then have "links_only fs (with_head (set_headers fs ?H) h x)"
    using links_only_trans links_only_with_head by blast
  then show ?thesis
    unfolding eq using assms(2) prepend_dll [OF assms(3,5,4) x] other
    by (auto simp: fs_fields head_of_with_head free_queue_def intro!: other)
qed

lemma hdll_remove_spec:
  assumes "slabs_ok fs" "head_pool h < length (entries fs)" "slab_list fs h (xs @ x # ys)"
  shows "\<exists>fs'. fla_hdll_remove fs x h = Some (0, fs') \<and> slab_list fs' h (xs @ ys)
    \<and> (\<forall>h' zs. h' \<noteq> h \<and> slab_list fs h' zs \<and> set zs \<inter> set (xs @ ys) = {} \<longrightarrow> slab_list fs' h' zs)
    \<and> (\<forall>zs. free_queue fs zs \<and> set zs \<inter> set (xs @ ys) = {} \<longrightarrow> free_queue fs' zs) \<and> links_only fs fs'"
proof -
  note eq = fla_hdll_remove_eq [OF assms]
  let ?fs1 = "if xs = [] then with_head fs h (sh_next (hdrs fs ! unat x)) else fs"
  let ?fs = "set_headers ?fs1 (remove_hdrs (hdrs fs) x)"
  have hd: "head_of ?fs h' = (if h' = h \<and> xs = [] then sh_next (hdrs fs ! unat x) else head_of fs h')" for h'
    using assms(2) by (simp add: head_of_with_head)
  have fields: "hdrs ?fs = remove_hdrs (hdrs fs) x" "sl_fslab_head (fs_slabs ?fs) = sl_fslab_head (fs_slabs fs)"
    "sl_fslab_tail (fs_slabs ?fs) = sl_fslab_tail (fs_slabs fs)" by (simp_all add: fs_fields)
  have other: "dll (remove_hdrs (hdrs fs) x) g zs" if "dll (hdrs fs) g zs" "set zs \<inter> set (xs @ ys) = {}" for g zs
    using remove_dll_other [OF assms(3) that(1)] that(2) by blast
  have l1: "links_only fs ?fs1" using links_only_with_head by (simp add: links_only_def)
  have h1: "hdrs ?fs1 = hdrs fs" by (simp add: fs_fields)
  have "links_only ?fs1 ?fs"
    by (rule links_only_set_headers; unfold h1)
      (use remove_hdrs_kept [OF assms(3)] in \<open>auto intro!: nth_equalityI\<close>)
  then have "links_only fs ?fs" using l1 links_only_trans by blast
  moreover have "slab_list ?fs h (xs @ ys)" unfolding hd fields using remove_dll [OF assms(3)] by simp
  moreover have "slab_list ?fs h' zs" if "h' \<noteq> h" "slab_list fs h' zs" "set zs \<inter> set (xs @ ys) = {}" for h' zs
    unfolding hd fields using other that by simp
  moreover have "free_queue ?fs zs" if "free_queue fs zs" "set zs \<inter> set (xs @ ys) = {}" for zs
    using other that unfolding free_queue_def fields by blast
  ultimately show ?thesis unfolding eq by blast
qed

section \<open>Properties\<close>

definition list_example :: flexalloc where
  "list_example = fs_zero\<lparr>fs_geo := (fs_geo fs_zero)\<lparr>g_nslabs := 4\<rparr>,
     fs_pools := (fs_pools fs_zero)\<lparr>po_entries := [\<lparr>pe_empty_slabs = 0, pe_full_slabs = FLA_LINKED_LIST_NULL,
       pe_partial_slabs = 3, pe_obj_nlb = 1, pe_slab_nobj = 4, pe_root_obj_hndl = 0, pe_flags = 0,
       pe_usable = 0, pe_name = []\<rparr>]\<rparr>,
     fs_slabs := \<lparr>sl_headers =
       [\<lparr>sh_pool = 0, sh_prev = FLA_LINKED_LIST_NULL, sh_next = 1, sh_refcount = 0\<rparr>,
        \<lparr>sh_pool = 0, sh_prev = 0, sh_next = 2, sh_refcount = 0\<rparr>,
        \<lparr>sh_pool = 0, sh_prev = 1, sh_next = FLA_LINKED_LIST_NULL, sh_refcount = 0\<rparr>,
        \<lparr>sh_pool = 0, sh_prev = FLA_LINKED_LIST_NULL, sh_next = FLA_LINKED_LIST_NULL, sh_refcount = 1\<rparr>],
       sl_fslab_num = 3, sl_fslab_head = 0, sl_fslab_tail = 2\<rparr>\<rparr>"

lemma list_example_fields:
  "slabs_ok list_example" "length (entries list_example) = 1"
  "head_of list_example (Empty_slabs 0) = 0" "head_of list_example (Full_slabs 0) = FLA_LINKED_LIST_NULL"
  "head_of list_example (Partial_slabs 0) = 3" "length (hdrs list_example) = 4"
  "sl_fslab_head (fs_slabs list_example) = 0" "sl_fslab_tail (fs_slabs list_example) = 2"
  by (simp_all add: list_example_def slabs_ok_def head_of_def head_val_def head_pool_def)

lemma list_example_lists:
  "dll (hdrs list_example) 0 [0, 1, 2]" "dll (hdrs list_example) 3 [3]"
  by (simp_all add: list_example_def dll_def FLA_LINKED_LIST_NULL_def)

text \<open>
  C15: Prepending a slab to a pool's list returns 0 and puts the slab in front of the list; a list
  under another head that shares no slab with it is unchanged, and so are the queue of free slabs,
  the pool and the reference count of every slab.
\<close>

theorem fla_hdll_prepend_front:
  assumes "slabs_ok fs" "head_pool h < length (entries fs)" "slab_list fs h xs"
    "unat x < length (hdrs fs)" "x \<notin> set xs"
  shows "\<exists>fs'. fla_hdll_prepend fs x h = Some (0, fs') \<and> slab_list fs' h (x # xs)
    \<and> (\<forall>h' ys. h' \<noteq> h \<and> slab_list fs h' ys \<and> set ys \<inter> set (x # xs) = {} \<longrightarrow> slab_list fs' h' ys)
    \<and> (\<forall>ys. free_queue fs ys \<and> set ys \<inter> set (x # xs) = {} \<longrightarrow> free_queue fs' ys)
    \<and> map sh_refcount (hdrs fs') = map sh_refcount (hdrs fs) \<and> map sh_pool (hdrs fs') = map sh_pool (hdrs fs)"
  using hdll_prepend_spec [OF assms] by (simp add: links_only_def) blast

theorem fla_hdll_prepend_front_witness:
  "\<exists>fs'. fla_hdll_prepend list_example 2 (Partial_slabs 0) = Some (0, fs')
    \<and> slab_list fs' (Partial_slabs 0) [2, 3]"
  using fla_hdll_prepend_front [of list_example "Partial_slabs 0" "[3]" 2] list_example_fields list_example_lists
  by (auto simp: head_pool_def)

text \<open>
  C21: Removing a slab from the list that holds it returns 0 and takes exactly that slab out; the
  other lists, the queue of free slabs, the pools and the reference counts are unchanged.
\<close>

theorem fla_hdll_remove_middle:
  assumes "slabs_ok fs" "head_pool h < length (entries fs)" "slab_list fs h (xs @ x # ys)"
  shows "\<exists>fs'. fla_hdll_remove fs x h = Some (0, fs') \<and> slab_list fs' h (xs @ ys)
    \<and> (\<forall>h' zs. h' \<noteq> h \<and> slab_list fs h' zs \<and> set zs \<inter> set (xs @ ys) = {} \<longrightarrow> slab_list fs' h' zs)
    \<and> (\<forall>zs. free_queue fs zs \<and> set zs \<inter> set (xs @ ys) = {} \<longrightarrow> free_queue fs' zs)
    \<and> map sh_refcount (hdrs fs') = map sh_refcount (hdrs fs) \<and> map sh_pool (hdrs fs') = map sh_pool (hdrs fs)"
  using hdll_remove_spec [OF assms] by (simp add: links_only_def) blast

theorem fla_hdll_remove_middle_witness:
  "\<exists>fs'. fla_hdll_remove list_example 1 (Empty_slabs 0) = Some (0, fs')
    \<and> slab_list fs' (Empty_slabs 0) [0, 2]"
  using fla_hdll_remove_middle [of list_example "Empty_slabs 0" "[0]" 1 "[2]"] list_example_fields list_example_lists
  by (auto simp: head_pool_def)

text \<open>
  C22: The queue of free slabs is first in, first out: a slab taken from a queue is its front, and
  when it is given back it stands at the end of the others.
\<close>

theorem fla_edll_fifo:
  assumes "slabs_ok fs" "free_queue fs (x # xs)"
  shows "\<exists>fs' fs''. fla_edll_remove_head fs = Some (0, fs', Some x) \<and> free_queue fs' xs
    \<and> fla_edll_add_tail fs' x = Some (0, fs'') \<and> free_queue fs'' (xs @ [x])"
proof -
  have q: "queue_of fs = x # xs" using free_queue_of [OF assms(2)] .
  then obtain fs' where t: "fla_edll_remove_head fs = Some (0, fs', Some x)" "free_queue fs' xs"
    using sq.take_front [of fs x xs] assms by auto
  show ?thesis
    using sq.take_then_give [of fs x xs 0 fs' "Some x"] t q assms by auto
qed

theorem fla_edll_fifo_witness:
  "\<exists>fs' fs''. fla_edll_remove_head list_example = Some (0, fs', Some 0) \<and> free_queue fs' [1, 2]
    \<and> fla_edll_add_tail fs' 0 = Some (0, fs'') \<and> free_queue fs'' [1, 2, 0]"
  using fla_edll_fifo [of list_example 0 "[1, 2]"] list_example_fields list_example_lists
  by (simp add: free_queue_def)

end
