(* ===== verification/Fla_Geo.thy ===== *)
theory Fla_Geo
  imports Fla_Linked_List
begin

text \<open>
  The disk geometry: \<open>fla_geo_*\<close>, \<open>fla_slab_sgmt_calc\<close>, \<open>fla_mkfs_geo_calc\<close> and
  \<open>fla_calc_objs_in_slab\<close> of \<open>src/src/flexalloc_mm.c\<close>, \<open>fla_geo_pool_sgmt_calc\<close> of
  \<open>flexalloc_pool.c\<close>, the slab offsets of \<open>flexalloc_cs_cns.c\<close> and \<open>flexalloc_cs_zns.c\<close>, and
  \<open>fla_cs_geo_check\<close> and \<open>fla_init_cs\<close> of \<open>flexalloc_cs.c\<close>.

  All arithmetic is done at the widths of the code, so the theorems that the layout fits the
  device and that slabs do not overlap state the sizes up to which they hold. A division or a
  remainder whose divisor the code does not check has no result when it is zero.
\<close>

section \<open>Definitions\<close>

text \<open>The sizes of the on-disk structures, with the padding of the C compiler.\<close>

abbreviation sizeof_fla_slab_header :: u64 where "sizeof_fla_slab_header \<equiv> 24"
abbreviation sizeof_fla_pool_htbl_header :: u64 where "sizeof_fla_pool_htbl_header \<equiv> 8"
abbreviation sizeof_fla_htbl_entry :: u64 where "sizeof_fla_htbl_entry \<equiv> 16"
abbreviation sizeof_fla_pool_entry :: u64 where "sizeof_fla_pool_entry \<equiv> 160"
abbreviation sizeof_fla_super :: u64 where "sizeof_fla_super \<equiv> 32"

definition fla_slab_sgmt_calc :: "u32 \<Rightarrow> u32 \<Rightarrow> u32" where
  "fla_slab_sgmt_calc nslabs lb_nbytes =
     (let needed_end_nbytes = 4 * 3 :: u64;
          slab_headers_nbytes = ucast nslabs * sizeof_fla_slab_header
      in ucast (FLA_CEIL_DIV (slab_headers_nbytes + needed_end_nbytes) (ucast lb_nbytes)))"

definition fla_geo_slab_sgmt_calc :: "u32 \<Rightarrow> u32 \<Rightarrow> fla_geo_slab_sgmt" where
  "fla_geo_slab_sgmt_calc nslabs lb_nbytes = \<lparr>gs_slab_sgmt_nlb = fla_slab_sgmt_calc nslabs lb_nbytes\<rparr>"

definition fla_geo_slab_sgmt_nblocks :: "fla_geo_slab_sgmt \<Rightarrow> u32" where
  "fla_geo_slab_sgmt_nblocks geo = gs_slab_sgmt_nlb geo"

definition fla_nslabs_max_mddev :: "u64 \<Rightarrow> u32 \<Rightarrow> u32 \<Rightarrow> u64 \<Rightarrow> u32" where
  "fla_nslabs_max_mddev blocks slab_nlb lb_nbytes md_blocks =
     (let nslabs = ucast (blocks div ucast slab_nlb);
          md_nlb = fla_slab_sgmt_calc nslabs lb_nbytes
      in if ucast md_nlb \<le> md_blocks then nslabs else 0)"

definition fla_geo_pool_sgmt_calc :: "u32 \<Rightarrow> u32 \<Rightarrow> fla_geo_pool_sgmt" where
  "fla_geo_pool_sgmt_calc npools lb_nbytes =
     (let htbl_tbl_size = npools * 2
      in \<lparr>gp_freelist_nlb = ucast (FLA_CEIL_DIV (fla_flist_size npools) (ucast lb_nbytes)),
          gp_htbl_nlb = ucast (FLA_CEIL_DIV (sizeof_fla_pool_htbl_header
              + ucast htbl_tbl_size * sizeof_fla_htbl_entry) (ucast lb_nbytes)),
          gp_htbl_tbl_size = htbl_tbl_size,
          gp_entries_nlb = ucast (FLA_CEIL_DIV (ucast npools * sizeof_fla_pool_entry) (ucast lb_nbytes))\<rparr>)"

definition fla_geo_pool_sgmt_nblocks :: "fla_geo_pool_sgmt \<Rightarrow> u32" where
  "fla_geo_pool_sgmt_nblocks geo = gp_freelist_nlb geo + gp_htbl_nlb geo + gp_entries_nlb geo"

definition fla_geo_from_super :: "xnvme_geo \<Rightarrow> fla_super \<Rightarrow> fla_geo" where
  "fla_geo_from_super dev super =
     (let lb_nbytes = xg_lba_nbytes dev
      in \<lparr>g_nlb = xg_tbytes dev div ucast lb_nbytes, g_lb_nbytes = lb_nbytes,
          g_slab_nlb = su_slab_nlb super, g_npools = su_npools super, g_nslabs = su_nslabs super,
          g_md_nlb = su_md_nlb super,
          g_pool_sgmt = fla_geo_pool_sgmt_calc (su_npools super) lb_nbytes,
          g_slab_sgmt = fla_geo_slab_sgmt_calc (su_nslabs super) lb_nbytes\<rparr>)"

definition fla_geo_nblocks :: "fla_geo \<Rightarrow> u32" where
  "fla_geo_nblocks geo = g_md_nlb geo + fla_geo_pool_sgmt_nblocks (g_pool_sgmt geo)
     + fla_geo_slab_sgmt_nblocks (g_slab_sgmt geo)"

definition fla_geo_nbytes :: "fla_geo \<Rightarrow> u64" where
  "fla_geo_nbytes geo = ucast (fla_geo_nblocks geo) * ucast (g_lb_nbytes geo)"

definition fla_geo_init :: "xnvme_geo \<Rightarrow> u32 \<Rightarrow> u32 \<Rightarrow> u32 \<Rightarrow> fla_geo \<Rightarrow> fla_geo" where
  "fla_geo_init dev npools slab_nlb lb_nbytes geo =
     geo\<lparr>g_lb_nbytes := lb_nbytes, g_nlb := xg_tbytes dev div ucast lb_nbytes, g_npools := npools,
         g_slab_nlb := slab_nlb, g_md_nlb := ucast (FLA_CEIL_DIV sizeof_fla_super (ucast lb_nbytes))\<rparr>"

definition fla_cs_geo_check :: "xnvme_geo \<Rightarrow> fla_geo \<Rightarrow> int option" where
  "fla_cs_geo_check dev geo =
     (let nzsect = xg_nsect dev
      in if xg_type dev = XNVME_GEO_ZONED
         then if nzsect = 0 then None else Some (if ucast (g_slab_nlb geo) mod nzsect \<noteq> 0 then -1 else 0)
         else Some 0)"

text \<open>
  \<open>fla_mkfs_geo_calc\<close>: \<open>md_dev\<close> is whether a metadata device was given; \<open>geo0\<close> is the
  caller's structure before the call.
\<close>

definition fla_mkfs_geo_calc ::
  "xnvme_geo \<Rightarrow> bool \<Rightarrow> u32 \<Rightarrow> u32 \<Rightarrow> fla_geo \<Rightarrow> (int \<times> fla_geo) option" where
  "fla_mkfs_geo_calc dev md_dev npools slab_nlb geo0 =
     (let lb_nbytes = xg_lba_nbytes dev;
          geo = fla_geo_init dev npools slab_nlb lb_nbytes geo0;
          md_geo = fla_geo_init dev npools slab_nlb lb_nbytes geo0
      in if lb_nbytes = 0 then None
         else case fla_cs_geo_check dev geo of None \<Rightarrow> None | Some err \<Rightarrow>
         if err \<noteq> 0 then Some (err, geo)
         else if slab_nlb = 0 then None
         else
           let nslabs_approx =
                 (if \<not> md_dev
                  then fla_nelems_max (g_nlb geo - ucast (g_md_nlb geo)) slab_nlb
                         (\<lambda>n. fla_slab_sgmt_calc n lb_nbytes)
                  else fla_nslabs_max_mddev (g_nlb geo) slab_nlb lb_nbytes (g_nlb md_geo))
           in if nslabs_approx = 0 then Some (-1, geo)
              else if npools > nslabs_approx then Some (-1, geo)
              else
                let geo = (if npools = 0 then geo\<lparr>g_npools := nslabs_approx\<rparr> else geo);
                    geo = geo\<lparr>g_pool_sgmt := fla_geo_pool_sgmt_calc (g_npools geo) lb_nbytes\<rparr>;
                    pool_nblocks = ucast (fla_geo_pool_sgmt_nblocks (g_pool_sgmt geo));
                    geo = geo\<lparr>g_nslabs :=
                      (if \<not> md_dev
                       then fla_nelems_max (g_nlb geo - ucast (g_md_nlb geo) - pool_nblocks) slab_nlb
                              (\<lambda>n. fla_slab_sgmt_calc n lb_nbytes)
                       else fla_nslabs_max_mddev (g_nlb geo) slab_nlb lb_nbytes
                              (g_nlb md_geo - ucast (g_md_nlb geo) - pool_nblocks))\<rparr>
                in if g_nslabs geo = 0 then Some (-1, geo)
                   else
                     let geo = geo\<lparr>g_slab_sgmt := fla_geo_slab_sgmt_calc (g_nslabs geo) lb_nbytes\<rparr>
                     in if npools > g_nslabs geo then Some (-1, geo)
                        else if g_npools geo > g_nslabs geo
                        then let geo = geo\<lparr>g_npools := g_nslabs geo\<rparr>
                             in Some (0, geo\<lparr>g_pool_sgmt := fla_geo_pool_sgmt_calc (g_npools geo) lb_nbytes\<rparr>)
                        else Some (0, geo))"

definition fla_geo_pool_sgmt_lb_off :: "fla_geo \<Rightarrow> u64" where
  "fla_geo_pool_sgmt_lb_off geo = ucast (g_md_nlb geo)"

definition fla_geo_pool_sgmt_off :: "fla_geo \<Rightarrow> u64" where
  "fla_geo_pool_sgmt_off geo = ucast (g_lb_nbytes geo) * fla_geo_pool_sgmt_lb_off geo"

definition fla_geo_slab_sgmt_lb_off :: "fla_geo \<Rightarrow> u64" where
  "fla_geo_slab_sgmt_lb_off geo =
     fla_geo_pool_sgmt_lb_off geo + ucast (fla_geo_pool_sgmt_nblocks (g_pool_sgmt geo))"

definition fla_geo_slab_sgmt_off :: "fla_geo \<Rightarrow> u64" where
  "fla_geo_slab_sgmt_off geo = ucast (g_lb_nbytes geo) * fla_geo_slab_sgmt_lb_off geo"

definition fla_geo_slabs_lb_off :: "fla_geo \<Rightarrow> u64" where
  "fla_geo_slabs_lb_off geo =
     fla_geo_slab_sgmt_lb_off geo + ucast (fla_geo_slab_sgmt_nblocks (g_slab_sgmt geo))"

definition fla_cs_cns_slab_offset :: "flexalloc \<Rightarrow> u32 \<Rightarrow> u64 \<Rightarrow> u64" where
  "fla_cs_cns_slab_offset fs slab_id slabs_base =
     slabs_base + ucast (slab_id * g_slab_nlb (fs_geo fs))"

definition fla_cs_zns_slab_offset :: "flexalloc \<Rightarrow> u32 \<Rightarrow> u64 \<Rightarrow> u64 option" where
  "fla_cs_zns_slab_offset fs slab_id slabs_base = do {
     z \<leftarrow> cs_zns (fs_cs fs);
     let slab_offset = fla_cs_cns_slab_offset fs slab_id slabs_base;
     if cz_nzsect z = 0 then None
     else Some (if slab_offset mod cz_nzsect z \<noteq> 0 then slab_offset + slab_offset mod cz_nzsect z
           else slab_offset)
   }"

definition fla_geo_slab_lb_off :: "flexalloc \<Rightarrow> u32 \<Rightarrow> u64 option" where
  "fla_geo_slab_lb_off fs slab_id =
     (let slabs_base = (if \<not> dv_md_dev (fs_dev fs) then fla_geo_slabs_lb_off (fs_geo fs) else 0)
      in case cs_t (fs_cs fs) of
           FLA_CS_CNS \<Rightarrow> Some (fla_cs_cns_slab_offset fs slab_id slabs_base)
         | FLA_CS_ZNS \<Rightarrow> fla_cs_zns_slab_offset fs slab_id slabs_base)"

definition fla_slab_cache_flist_nlb :: "flexalloc \<Rightarrow> u32 \<Rightarrow> u64" where
  "fla_slab_cache_flist_nlb fs flist_len =
     FLA_CEIL_DIV (fla_flist_size flist_len) (ucast (g_lb_nbytes (fs_geo fs)))"

text \<open>The loop of \<open>fla_calc_objs_in_slab\<close> for a device without a metadata device.\<close>

function calc_objs_loop :: "flexalloc \<Rightarrow> u32 \<Rightarrow> u32 \<Rightarrow> u32" where
  "calc_objs_loop fs obj_nlb obj_num =
     (if obj_num > 0
      then let unused_nlb = ucast (g_slab_nlb (fs_geo fs) - obj_num * obj_nlb);
               free_list_nlb = fla_slab_cache_flist_nlb fs obj_num
           in if unused_nlb \<ge> free_list_nlb then obj_num
              else calc_objs_loop fs obj_nlb (obj_num - 1)
      else obj_num)"
  by pat_completeness auto
termination
  by (relation "measure (\<lambda>(_, _, n). unat n)") (auto simp: unat_dec unat_gt_0 word_neq_0_conv)

definition fla_calc_objs_in_slab :: "flexalloc \<Rightarrow> u32 \<Rightarrow> u32 option" where
  "fla_calc_objs_in_slab fs obj_nlb =
     (if obj_nlb = 0 then None
      else if \<not> dv_md_dev (fs_dev fs)
      then Some (calc_objs_loop fs obj_nlb (g_slab_nlb (fs_geo fs) div obj_nlb))
      else Some (g_slab_nlb (fs_geo fs) div obj_nlb))"

text \<open>Choice of the command set; the \<open>malloc\<close> of \<open>fla_cs_zns_init\<close> is a parameter.\<close>

definition fla_cs_type :: "xnvme_geo \<Rightarrow> int \<times> fla_cs_t option" where
  "fla_cs_type dev = (case xg_type dev of
       XNVME_GEO_ZONED \<Rightarrow> (0, Some FLA_CS_ZNS)
     | XNVME_GEO_CONVENTIONAL \<Rightarrow> (0, Some FLA_CS_CNS)
     | _ \<Rightarrow> (1, None))"

definition fla_cs_cns_init :: "flexalloc \<Rightarrow> int \<times> flexalloc" where
  "fla_cs_cns_init fs = (0, fs\<lparr>fs_cs := (fs_cs fs)\<lparr>cs_t := FLA_CS_CNS\<rparr>\<rparr>)"

definition fla_cs_zns_init :: "xnvme_geo \<Rightarrow> bool \<Rightarrow> flexalloc \<Rightarrow> int \<times> flexalloc" where
  "fla_cs_zns_init dev alloc_ok fs =
     (if \<not> alloc_ok then (- ENOMEM, fs\<lparr>fs_cs := (fs_cs fs)\<lparr>cs_zns := None\<rparr>\<rparr>)
      else (0, fs\<lparr>fs_cs := \<lparr>cs_t = FLA_CS_ZNS,
              cs_zns = Some \<lparr>cz_nzones = xg_nzone dev, cz_nzsect = xg_nsect dev\<rparr>\<rparr>\<rparr>))"

definition fla_init_cs :: "xnvme_geo \<Rightarrow> bool \<Rightarrow> flexalloc \<Rightarrow> int \<times> flexalloc" where
  "fla_init_cs dev alloc_ok fs =
     (case fla_cs_type dev of
        (err, None) \<Rightarrow> (err, fs)
      | (err, Some t) \<Rightarrow>
          let fs = fs\<lparr>fs_cs := (fs_cs fs)\<lparr>cs_t := t\<rparr>\<rparr>
          in (case t of FLA_CS_CNS \<Rightarrow> fla_cs_cns_init fs | FLA_CS_ZNS \<Rightarrow> fla_cs_zns_init dev alloc_ok fs))"

definition fla_cs_is_type :: "flexalloc \<Rightarrow> fla_cs_t \<Rightarrow> bool" where
  "fla_cs_is_type fs t \<longleftrightarrow> cs_t (fs_cs fs) = t"

declare calc_objs_loop.simps [simp del]

section \<open>Segments\<close>

lemma slab_sgmt_calc_nat:
  assumes "32 \<le> unat lb"
  shows "unat (fla_slab_sgmt_calc n lb) = (unat n * 24 + 12 + unat lb - 1) div unat lb"
proof -
  have n: "unat n < 2 ^ 32" "unat lb < 2 ^ 32" using unat_less_exp [of n] unat_less_exp [of lb] by simp_all
  have "unat (ucast n * 24 + 4 * 3 :: u64) = unat n * 24 + 12"
    using n by (simp add: unat_add_no_wrap unat_mult_no_wrap unat_ucast_widen)
  then have "unat (FLA_CEIL_DIV (ucast n * 24 + 4 * 3 :: u64) (ucast lb))
      = (unat n * 24 + 12 + unat lb - 1) div unat lb"
    using n assms by (subst unat_FLA_CEIL_DIV) (simp_all add: unat_ucast_widen)
  moreover have "(unat n * 24 + 12 + unat lb - 1) div unat lb < 2 ^ 32"
  proof -
    have "unat n * 24 + 12 + unat lb - 1 < 2 ^ 32 * unat lb" using n assms by simp
    then show ?thesis by (simp add: less_mult_imp_div_less)
  qed
  ultimately show ?thesis
    unfolding fla_slab_sgmt_calc_def Let_def by (simp add: unat_ucast_small)
qed

lemma slab_sgmt_room:
  assumes "32 \<le> unat lb"
  shows "unat n * 24 + 12 \<le> unat (fla_slab_sgmt_calc n lb) * unat lb"
  using ceil_div_bounds(1) [of "unat lb" "unat n * 24 + 12"] assms by (simp add: slab_sgmt_calc_nat)

text \<open>The blocks of the pool segment, as numbers.\<close>

definition pool_blocks :: "nat \<Rightarrow> nat \<Rightarrow> nat" where
  "pool_blocks n lb = (4 * (1 + flist_words n) + lb - 1) div lb + (8 + 32 * n + lb - 1) div lb
     + (160 * n + lb - 1) div lb"

lemma pool_blocks_bound:
  assumes "0 < lb"
  shows "pool_blocks n lb * lb < 16 + 193 * n + 3 * lb"
proof -
  have "4 * (1 + w) \<le> 8 + n" if "w * 32 \<le> n + 31" for w using that by simp
  from this [OF div_times_less_eq_dividend] have "4 * (1 + flist_words n) \<le> 8 + n" .
  then show ?thesis
    using ceil_div_bounds(2) [OF assms, of "4 * (1 + flist_words n)"]
      ceil_div_bounds(2) [OF assms, of "8 + 32 * n"] ceil_div_bounds(2) [OF assms, of "160 * n"]
    unfolding pool_blocks_def add_mult_distrib by linarith
qed

lemma pool_blocks_mono: "m \<le> n \<Longrightarrow> pool_blocks m lb \<le> pool_blocks n lb"
  unfolding pool_blocks_def
  by (intro add_mono ceil_div_mono) (auto intro: div_le_mono)

lemma div_less_32: "0 < b \<Longrightarrow> a < 2 ^ 32 * b \<Longrightarrow> a div b < 2 ^ (32 :: nat)" for a b :: nat
  by (simp add: less_mult_imp_div_less)

lemma pool_sgmt_parts:
  assumes "512 \<le> unat lb" "unat n < 2 ^ 31"
  shows "unat (gp_freelist_nlb (fla_geo_pool_sgmt_calc n lb)) = (4 * (1 + flist_words (unat n)) + unat lb - 1) div unat lb"
    "unat (gp_htbl_nlb (fla_geo_pool_sgmt_calc n lb)) = (8 + 32 * unat n + unat lb - 1) div unat lb"
    "unat (gp_entries_nlb (fla_geo_pool_sgmt_calc n lb)) = (160 * unat n + unat lb - 1) div unat lb"
    "unat (gp_htbl_tbl_size (fla_geo_pool_sgmt_calc n lb)) = 2 * unat n"
proof -
  let ?L = "unat lb" and ?n = "unat n"
  have lb: "?L < 2 ^ 32" "0 < ?L" using unat_less_exp [of lb] assms(1) by simp_all
  have tbl: "unat (n * 2) = 2 * ?n" using assms(2) by (simp add: unat_mult_no_wrap)
  have size: "unat (fla_flist_size n) = 4 * (1 + flist_words ?n)" by (rule fla_flist_size_nat)
  have htbl: "unat (8 + ucast (n * 2) * 16 :: u64) = 8 + 32 * ?n"
    using assms(2) tbl by (simp add: unat_add_no_wrap unat_mult_no_wrap unat_ucast_widen)
  have ent: "unat (ucast n * 160 :: u64) = 160 * ?n"
    using assms(2) by (simp add: unat_mult_no_wrap unat_ucast_widen)
  have c: "unat (ucast (FLA_CEIL_DIV x (ucast lb)) :: u32) = (unat x + ?L - 1) div ?L"
    if "unat x \<le> 2 ^ 39" for x :: u64
  proof -
    have "unat (FLA_CEIL_DIV x (ucast lb)) = (unat x + ?L - 1) div ?L"
      using that lb by (subst unat_FLA_CEIL_DIV) (simp_all add: unat_ucast_widen)
    moreover have "(unat x + ?L - 1) div ?L < 2 ^ 32"
      using that lb assms(1) by (intro div_less_32) simp_all
    ultimately show ?thesis by (simp add: unat_ucast_small)
  qed
  let ?g = "fla_geo_pool_sgmt_calc n lb"
  show "unat (gp_freelist_nlb ?g) = (4 * (1 + flist_words ?n) + ?L - 1) div ?L"
    "unat (gp_htbl_nlb ?g) = (8 + 32 * ?n + ?L - 1) div ?L"
    "unat (gp_entries_nlb ?g) = (160 * ?n + ?L - 1) div ?L"
    using assms(2) c [of "fla_flist_size n"] c [of "8 + ucast (n * 2) * 16"] c [of "ucast n * 160"]
    unfolding fla_geo_pool_sgmt_calc_def Let_def
    by (simp_all add: size htbl [simplified] ent [simplified])
  show "unat (gp_htbl_tbl_size ?g) = 2 * ?n"
    using tbl by (simp add: fla_geo_pool_sgmt_calc_def Let_def)
qed

lemma pool_sgmt_calc_nat:
  assumes "512 \<le> unat lb" "unat n < 2 ^ 31"
  shows "unat (fla_geo_pool_sgmt_nblocks (fla_geo_pool_sgmt_calc n lb)) = pool_blocks (unat n) (unat lb)"
    "unat (gp_htbl_tbl_size (fla_geo_pool_sgmt_calc n lb)) = 2 * unat n"
proof -
  let ?L = "unat lb" and ?n = "unat n" and ?g = "fla_geo_pool_sgmt_calc n lb"
  have lb: "?L < 2 ^ 32" "0 < ?L" using unat_less_exp [of lb] assms(1) by simp_all
  have "16 + 193 * ?n + 3 * ?L < 2 ^ 32 * ?L" using assms by simp
  then have "pool_blocks ?n ?L * ?L < 2 ^ 32 * ?L"
    using pool_blocks_bound [OF lb(2), of ?n] by (rule less_trans [rotated])
  then have small: "pool_blocks ?n ?L < 2 ^ 32" by (simp only: mult_less_cancel2)
  then show "unat (fla_geo_pool_sgmt_nblocks ?g) = pool_blocks ?n ?L"
    unfolding fla_geo_pool_sgmt_nblocks_def pool_blocks_def
    by (simp add: unat_add_no_wrap pool_sgmt_parts [OF assms])
qed (rule pool_sgmt_parts(4) [OF assms])

section \<open>The layout fits the device\<close>

text \<open>
  \<open>geo_fits\<close>: the super block, the pool segment, the slab segment and the slabs follow each
  other and end within the device, with no wrap-around in the numbers.
\<close>

definition geo_fits :: "fla_geo \<Rightarrow> bool" where
  "geo_fits geo \<longleftrightarrow> 0 < unat (g_nslabs geo) \<and> unat (g_nslabs geo) < 2 ^ 31
     \<and> 0 < unat (g_npools geo) \<and> unat (g_npools geo) \<le> unat (g_nslabs geo)
     \<and> g_pool_sgmt geo = fla_geo_pool_sgmt_calc (g_npools geo) (g_lb_nbytes geo)
     \<and> g_slab_sgmt geo = fla_geo_slab_sgmt_calc (g_nslabs geo) (g_lb_nbytes geo)
     \<and> unat (g_md_nlb geo) + unat (fla_geo_pool_sgmt_nblocks (g_pool_sgmt geo))
       + unat (fla_geo_slab_sgmt_nblocks (g_slab_sgmt geo)) + unat (g_nslabs geo) * unat (g_slab_nlb geo)
       \<le> unat (g_nlb geo)"

lemma super_blocks:
  fixes lb :: u32
  assumes "512 \<le> unat lb"
  shows "unat (ucast (FLA_CEIL_DIV sizeof_fla_super (ucast lb)) :: u32) = 1"
proof -
  have "unat lb < 2 ^ 32" using unat_less_exp [of lb] by simp
  then have "unat (FLA_CEIL_DIV 32 (ucast lb) :: u64) = (32 + unat lb - 1) div unat lb"
    using assms by (subst unat_FLA_CEIL_DIV) (simp_all add: unat_ucast_widen)
  also have "\<dots> = 1" using assms by (intro div_nat_eqI) auto
  finally show ?thesis by (simp add: unat_ucast_small)
qed

text \<open>Half as many pools as blocks leave room for the pool segment.\<close>

lemma pool_segment_room:
  assumes "512 \<le> lb" "8 \<le> nlb" "2 * n < nlb"
  shows "pool_blocks n lb + 1 \<le> nlb"
proof -
  have "(pool_blocks n lb + 1) * lb < 16 + 193 * n + 4 * lb"
    using pool_blocks_bound [of lb n] assms(1) by simp
  also have "16 + 193 * n \<le> (nlb - 3) * 512" using assms(2,3) by linarith
  then have "16 + 193 * n + 4 * lb \<le> (nlb - 3) * lb + 4 * lb"
    using assms(1) mult_le_mono2 [of 512 lb "nlb - 3"] by linarith
  also have "\<dots> = (nlb + 1) * lb" using assms(2) by (simp add: diff_mult_distrib add_mult_distrib)
  finally show ?thesis by (simp only: mult_less_cancel2) simp
qed

lemma nelems_max_fits:
  assumes "unat t < 2 ^ 32" "fla_nelems_max t sz f \<noteq> 0"
  shows "unat (fla_nelems_max t sz f) * unat sz + unat (f (fla_nelems_max t sz f)) \<le> unat t"
  using fla_nelems_max_spec [OF assms(1), of sz f] assms(2) by (simp add: Let_def unat_gt_0)

lemma mkfs_geo_calc_fits:
  assumes lb: "512 \<le> unat (xg_lba_nbytes dev)"
    and nlb: "8 \<le> unat (xg_tbytes dev div ucast (xg_lba_nbytes dev))"
      "unat (xg_tbytes dev div ucast (xg_lba_nbytes dev)) < 2 ^ 32"
    and slab: "2 \<le> unat slab_nlb"
    and ret: "fla_mkfs_geo_calc dev False npools slab_nlb geo0 = Some (0, geo)"
  shows "geo_fits geo" "g_nlb geo = xg_tbytes dev div ucast (xg_lba_nbytes dev)"
    "g_slab_nlb geo = slab_nlb" "g_lb_nbytes geo = xg_lba_nbytes dev"
proof -
  let ?lb = "xg_lba_nbytes dev"
  let ?sg = "\<lambda>n. fla_slab_sgmt_calc n ?lb"
  define t where "t = xg_tbytes dev div ucast ?lb"
  define md where "md = (ucast (FLA_CEIL_DIV sizeof_fla_super (ucast ?lb)) :: u32)"
  define A where "A = fla_nelems_max (t - ucast md) slab_nlb ?sg"
  define P where "P = (if npools = 0 then A else npools)"
  define B where "B = fla_geo_pool_sgmt_nblocks (fla_geo_pool_sgmt_calc P ?lb)"
  define S where "S = fla_nelems_max (t - ucast md - ucast B) slab_nlb ?sg"
  define Q where "Q = (if S < P then S else P)"
  have md: "unat md = 1" unfolding md_def by (rule super_blocks [OF lb])
  have ret': "A \<noteq> 0" "npools \<le> A" "S \<noteq> 0" "npools \<le> S"
    "geo = (fla_geo_init dev npools slab_nlb ?lb geo0)\<lparr>g_npools := Q,
      g_pool_sgmt := fla_geo_pool_sgmt_calc Q ?lb, g_nslabs := S, g_slab_sgmt := fla_geo_slab_sgmt_calc S ?lb\<rparr>"
    using ret unfolding fla_mkfs_geo_calc_def Let_def A_def S_def B_def P_def Q_def md_def t_def
    by (cases "npools = 0"; auto simp: fla_geo_init_def not_less split: if_splits option.splits)+
  have t1: "unat (t - ucast md) = unat t - 1"
    using nlb(1) md by (subst unat_sub_no_wrap) (simp_all add: unat_ucast_widen t_def)
  have fitA: "unat A * unat slab_nlb + unat (?sg A) \<le> unat t - 1"
    using nelems_max_fits [of "t - ucast md" slab_nlb ?sg] ret'(1) nlb(2) t1
    by (simp add: A_def t_def)
  have "unat A * 2 \<le> unat A * unat slab_nlb" using slab by (rule mult_le_mono2)
  then have A: "2 * unat A < unat t" using fitA nlb(1) unfolding t_def by linarith
  have P: "unat P \<le> unat A" "0 < unat P"
    using ret'(1,2) by (auto simp: P_def word_le_nat_alt unat_gt_0)
  then have P31: "unat P < 2 ^ 31" using A nlb(2) by (simp add: t_def)
  have B: "unat B = pool_blocks (unat P) (unat ?lb)"
    unfolding B_def using pool_sgmt_calc_nat(1) [OF lb P31] .
  have "unat B + 1 \<le> unat t"
    unfolding B using lb nlb(1) A P by (intro pool_segment_room) (auto simp: t_def)
  then have t2: "unat (t - ucast md - ucast B) = unat t - 1 - unat B"
    using t1 by (subst unat_sub_no_wrap) (simp_all add: unat_ucast_widen)
  have fitS: "unat S * unat slab_nlb + unat (?sg S) \<le> unat t - 1 - unat B"
    using nelems_max_fits [of "t - ucast md - ucast B" slab_nlb ?sg] ret'(3) nlb(2) t2
    by (simp add: S_def t_def)
  have "unat S * 2 \<le> unat S * unat slab_nlb" using slab by (rule mult_le_mono2)
  then have "2 * unat S < 2 ^ 32" using fitS nlb(2) unfolding t_def by linarith
  then have S: "unat S < 2 ^ 31" "0 < unat S" using ret'(3) by (simp_all add: unat_gt_0)
  have Q: "unat Q \<le> unat P" "unat Q \<le> unat S" "0 < unat Q"
    using S P by (auto simp: Q_def word_less_nat_alt)
  then have "unat (fla_geo_pool_sgmt_nblocks (fla_geo_pool_sgmt_calc Q ?lb)) \<le> unat B"
    unfolding B using pool_sgmt_calc_nat(1) [OF lb, of Q] P31 by (simp add: pool_blocks_mono)
  then have "unat md + unat (fla_geo_pool_sgmt_nblocks (fla_geo_pool_sgmt_calc Q ?lb))
      + unat (?sg S) + unat S * unat slab_nlb \<le> unat t"
    using fitS \<open>unat B + 1 \<le> unat t\<close> md by linarith
  then show "geo_fits geo"
    using S Q unfolding ret'(5) geo_fits_def
    by (simp add: fla_geo_init_def md_def t_def fla_geo_slab_sgmt_calc_def fla_geo_slab_sgmt_nblocks_def)
  show "g_nlb geo = t" "g_slab_nlb geo = slab_nlb" "g_lb_nbytes geo = ?lb"
    unfolding ret'(5) by (simp_all add: fla_geo_init_def t_def)
qed

section \<open>Slabs on the device\<close>

definition md_blocks :: "fla_geo \<Rightarrow> nat" where
  "md_blocks geo = unat (g_md_nlb geo) + unat (fla_geo_pool_sgmt_nblocks (g_pool_sgmt geo))
     + unat (fla_geo_slab_sgmt_nblocks (g_slab_sgmt geo))"

text \<open>The first block of a slab: slabs follow the metadata unless that has a device of its own.\<close>

definition slab_start :: "flexalloc \<Rightarrow> nat \<Rightarrow> nat" where
  "slab_start fs i = (if dv_md_dev (fs_dev fs) then 0 else md_blocks (fs_geo fs))
     + i * unat (g_slab_nlb (fs_geo fs))"

lemma slabs_lb_off_nat: "unat (fla_geo_slabs_lb_off geo) = md_blocks geo"
proof -
  have "unat x < 2 ^ 32" for x :: u32 using unat_less_exp [of x] by simp
  note b = this [of "g_md_nlb geo"] this [of "fla_geo_pool_sgmt_nblocks (g_pool_sgmt geo)"]
    this [of "fla_geo_slab_sgmt_nblocks (g_slab_sgmt geo)"]
  show ?thesis
    unfolding fla_geo_slabs_lb_off_def fla_geo_slab_sgmt_lb_off_def fla_geo_pool_sgmt_lb_off_def md_blocks_def
    using b by (simp add: unat_add_no_wrap unat_ucast_widen)
qed

lemma md_blocks_less: "md_blocks geo < 3 * 2 ^ 32"
proof -
  have "unat x < 2 ^ 32" for x :: u32 using unat_less_exp [of x] by simp
  from this [of "g_md_nlb geo"] this [of "fla_geo_pool_sgmt_nblocks (g_pool_sgmt geo)"]
    this [of "fla_geo_slab_sgmt_nblocks (g_slab_sgmt geo)"]
  show ?thesis unfolding md_blocks_def by simp
qed

lemma slab_lb_off_nat:
  assumes "cs_t (fs_cs fs) = FLA_CS_CNS" "unat i * unat (g_slab_nlb (fs_geo fs)) < 2 ^ 32"
  shows "\<exists>off. fla_geo_slab_lb_off fs i = Some off \<and> unat off = slab_start fs (unat i)"
proof -
  have p: "unat (ucast (i * g_slab_nlb (fs_geo fs)) :: u64) = unat i * unat (g_slab_nlb (fs_geo fs))"
    using assms(2) by (simp add: unat_ucast_widen unat_mult_no_wrap)
  have "unat (fla_geo_slabs_lb_off (fs_geo fs) + ucast (i * g_slab_nlb (fs_geo fs)))
      = md_blocks (fs_geo fs) + unat i * unat (g_slab_nlb (fs_geo fs))"
    using md_blocks_less [of "fs_geo fs"] assms(2)
    by (subst unat_add_no_wrap) (simp_all add: p slabs_lb_off_nat)
  then show ?thesis
    using assms(1) p by (simp add: fla_geo_slab_lb_off_def fla_cs_cns_slab_offset_def slab_start_def)
qed

lemma slab_product:
  assumes "geo_fits geo" "unat (g_nlb geo) < 2 ^ 32" "i < unat (g_nslabs geo)"
  shows "Suc i * unat (g_slab_nlb geo) + md_blocks geo \<le> unat (g_nlb geo)"
proof -
  have "Suc i * unat (g_slab_nlb geo) \<le> unat (g_nslabs geo) * unat (g_slab_nlb geo)"
    using assms(3) by (intro mult_le_mono1) simp
  then show ?thesis using assms(1) unfolding geo_fits_def md_blocks_def by linarith
qed

lemma intervals_disjoint:
  assumes "i \<noteq> j"
  shows "{b + i * n..<b + i * n + n} \<inter> {b + j * n..<b + j * n + (n :: nat)} = {}"
proof -
  have "Suc i * n \<le> j * n" if "i < j" for i j using that by (intro mult_le_mono1) simp
  with assms show ?thesis by (cases "i < j") (auto simp: not_less dest!: le_neq_implies_less, fastforce+)
qed

section \<open>Objects in a slab\<close>

text \<open>Blocks for the freelist of \<open>n\<close> objects.\<close>

definition flist_blocks :: "nat \<Rightarrow> nat \<Rightarrow> nat" where
  "flist_blocks lb n = (4 * (1 + flist_words n) + lb - 1) div lb"

lemma flist_nlb_nat:
  assumes "0 < unat (g_lb_nbytes (fs_geo fs))"
  shows "unat (fla_slab_cache_flist_nlb fs n) = flist_blocks (unat (g_lb_nbytes (fs_geo fs))) (unat n)"
proof -
  have "unat n < 2 ^ 32" "unat (g_lb_nbytes (fs_geo fs)) < 2 ^ 32"
    using unat_less_exp [of n] unat_less_exp [of "g_lb_nbytes (fs_geo fs)"] by simp_all
  then show ?thesis
    unfolding fla_slab_cache_flist_nlb_def flist_blocks_def
    using assms by (subst unat_FLA_CEIL_DIV) (simp_all add: unat_ucast_widen fla_flist_size_nat)
qed

lemma calc_objs_fits_iff:
  assumes "0 < unat (g_lb_nbytes (fs_geo fs))" "unat n * unat obj \<le> unat (g_slab_nlb (fs_geo fs))"
  shows "ucast (g_slab_nlb (fs_geo fs) - n * obj) \<ge> fla_slab_cache_flist_nlb fs n
    \<longleftrightarrow> unat n * unat obj + flist_blocks (unat (g_lb_nbytes (fs_geo fs))) (unat n)
      \<le> unat (g_slab_nlb (fs_geo fs))"
proof -
  have "unat n * unat obj < 2 ^ 32"
    using assms(2) unat_less_exp [of "g_slab_nlb (fs_geo fs)"] by (simp add: le_less_trans)
  then have "unat (g_slab_nlb (fs_geo fs) - n * obj) = unat (g_slab_nlb (fs_geo fs)) - unat n * unat obj"
    using assms(2) by (simp add: unat_sub_no_wrap unat_mult_no_wrap)
  then show ?thesis
    using assms by (auto simp: word_le_nat_alt unat_ucast_widen flist_nlb_nat)
qed

lemma calc_objs_loop_spec:
  assumes "0 < unat (g_lb_nbytes (fs_geo fs))" "unat n * unat obj \<le> unat (g_slab_nlb (fs_geo fs))"
  defines "fb \<equiv> flist_blocks (unat (g_lb_nbytes (fs_geo fs)))"
  shows "(let r = unat (calc_objs_loop fs obj n) in
      (r \<noteq> 0 \<longrightarrow> r * unat obj + fb r \<le> unat (g_slab_nlb (fs_geo fs)))
    \<and> (\<forall>m. r < m \<and> m \<le> unat n \<longrightarrow> unat (g_slab_nlb (fs_geo fs)) < m * unat obj + fb m) \<and> r \<le> unat n)"
  using assms(2)
proof (induction "unat n" arbitrary: n)
  case 0
  then have "n = 0" by (simp add: unat_eq_zero)
  then have "calc_objs_loop fs obj n = 0" by (simp add: calc_objs_loop.simps)
  with \<open>n = 0\<close> show ?case by simp
next
  case (Suc k)
  then have n: "n \<noteq> 0" by (metis Suc_neq_Zero unat_eq_zero)
  then have "n > 0" by (simp add: word_neq_0_conv)
  note fits = calc_objs_fits_iff [OF assms(1) Suc.prems, folded fb_def]
  show ?case
  proof (cases "unat n * unat obj + fb (unat n) \<le> unat (g_slab_nlb (fs_geo fs))")
    case True
    then have "calc_objs_loop fs obj n = n"
      using fits \<open>n > 0\<close> by (subst calc_objs_loop.simps) (simp add: Let_def)
    with True show ?thesis by simp
  next
    case False
    then have eq: "calc_objs_loop fs obj n = calc_objs_loop fs obj (n - 1)"
      using fits \<open>n > 0\<close> by (subst calc_objs_loop.simps) (simp add: Let_def)
    have k: "unat (n - 1) = k" using Suc.hyps(2) n by (simp add: unat_dec)
    then have "unat (n - 1) * unat obj \<le> unat (g_slab_nlb (fs_geo fs))"
      using Suc.prems [folded Suc.hyps(2)] by simp
    note IH = Suc.hyps(1) [OF k [symmetric] this]
    have "m \<le> unat n \<longleftrightarrow> m \<le> k \<or> m = unat n" for m using Suc.hyps(2) by auto
    then show ?thesis using IH False k unfolding eq Let_def by (auto simp: not_le)
  qed
qed

lemma calc_objs_in_slab_spec:
  assumes "0 < unat (g_lb_nbytes (fs_geo fs))" "\<not> dv_md_dev (fs_dev fs)"
    "fla_calc_objs_in_slab fs obj = Some n"
  defines "fb \<equiv> flist_blocks (unat (g_lb_nbytes (fs_geo fs)))"
  shows "n \<noteq> 0 \<Longrightarrow> unat n * unat obj + fb (unat n) \<le> unat (g_slab_nlb (fs_geo fs))"
    "unat n < m \<Longrightarrow> unat (g_slab_nlb (fs_geo fs)) < m * unat obj + fb m"
    "unat n * unat obj \<le> unat (g_slab_nlb (fs_geo fs))"
proof -
  let ?s = "g_slab_nlb (fs_geo fs)"
  have o: "obj \<noteq> 0" and n: "n = calc_objs_loop fs obj (?s div obj)"
    using assms(2,3) by (auto simp: fla_calc_objs_in_slab_def split: if_splits)
  have d: "unat (?s div obj) = unat ?s div unat obj" by (simp add: unat_div)
  then have le: "unat (?s div obj) * unat obj \<le> unat ?s" by simp
  note spec = calc_objs_loop_spec [OF assms(1) le, folded fb_def n, unfolded Let_def]
  then show "n \<noteq> 0 \<Longrightarrow> unat n * unat obj + fb (unat n) \<le> unat ?s" by (simp add: unat_gt_0)
  show "unat ?s < m * unat obj + fb m" if m: "unat n < m"
  proof (cases "m \<le> unat (?s div obj)")
    case True
    then show ?thesis using spec m by simp
  next
    case False
    then have "unat ?s div unat obj < m" using d by simp
    then have "unat ?s < m * unat obj" using o by (simp add: div_less_iff_less_mult unat_gt_0)
    then show ?thesis by simp
  qed
  show "unat n * unat obj \<le> unat ?s"
    using spec by (intro order_trans [OF mult_le_mono1 le]) simp
qed

section \<open>Properties\<close>

text \<open>A device of 1024 blocks of 512 bytes.\<close>

definition dev_example :: xnvme_geo where
  "dev_example = \<lparr>xg_type = XNVME_GEO_CONVENTIONAL, xg_tbytes = 524288, xg_lba_nbytes = 512,
     xg_mdts_nbytes = 4096, xg_nzone = 0, xg_nsect = 0\<rparr>"

definition geo_example :: fla_geo where
  "geo_example = \<lparr>g_nlb = 1024, g_lb_nbytes = 512, g_slab_nlb = 200, g_npools = 2, g_nslabs = 5, g_md_nlb = 1,
     g_pool_sgmt = \<lparr>gp_freelist_nlb = 1, gp_htbl_nlb = 1, gp_htbl_tbl_size = 4, gp_entries_nlb = 1\<rparr>,
     g_slab_sgmt = \<lparr>gs_slab_sgmt_nlb = 1\<rparr>\<rparr>"

lemma geo_example_calc: "fla_mkfs_geo_calc dev_example False 2 200 (fs_geo fs_zero) = Some (0, geo_example)"
  by (simp add: fla_mkfs_geo_calc_def Let_def dev_example_def fs_zero_def geo_example_def fla_geo_init_def
      fla_cs_geo_check_def FLA_CEIL_DIV_def fla_nelems_max_def fla_nelems_loop.simps fla_slab_sgmt_calc_def
      fla_geo_pool_sgmt_calc_def fla_geo_pool_sgmt_nblocks_def fla_flist_size_def FLA_FREELIST_U32_ELEMS_def
      fla_geo_slab_sgmt_calc_def)

lemma geo_example_fits: "geo_fits geo_example"
  using mkfs_geo_calc_fits(1) [OF _ _ _ _ geo_example_calc] by (simp add: dev_example_def)

definition fs_example :: flexalloc where
  "fs_example = fs_zero\<lparr>fs_geo := geo_example, fs_cs := \<lparr>cs_t = FLA_CS_CNS, cs_zns = None\<rparr>\<rparr>"

lemma fs_example_fields [simp]:
  "fs_geo fs_example = geo_example" "cs_t (fs_cs fs_example) = FLA_CS_CNS" "\<not> dv_md_dev (fs_dev fs_example)"
  by (simp_all add: fs_example_def fs_zero_def)

text \<open>
  C23: The geometry that \<open>fla_mkfs_geo_calc\<close> computes for a device without a separate metadata
  device fits it: there is at least one slab and one pool, no more pools than slabs, and super
  block, pool segment, slab segment and slabs together end within the device. This holds for
  devices of up to \<open>2^32\<close> blocks of at least 512 bytes and slabs of at least two blocks.
\<close>

theorem fla_mkfs_geo_calc_fits:
  assumes "512 \<le> unat (xg_lba_nbytes dev)" "2 \<le> unat slab_nlb"
    "8 \<le> unat (xg_tbytes dev div ucast (xg_lba_nbytes dev))"
    "unat (xg_tbytes dev div ucast (xg_lba_nbytes dev)) < 2 ^ 32"
    "fla_mkfs_geo_calc dev False npools slab_nlb geo0 = Some (0, geo)"
  shows "0 < unat (g_npools geo) \<and> unat (g_npools geo) \<le> unat (g_nslabs geo)
    \<and> md_blocks geo + unat (g_nslabs geo) * unat slab_nlb
      \<le> unat (xg_tbytes dev div ucast (xg_lba_nbytes dev))"
  using mkfs_geo_calc_fits [OF assms(1,3,4,2,5)] unfolding geo_fits_def md_blocks_def by metis

theorem fla_mkfs_geo_calc_fits_witness:
  "0 < unat (g_npools geo_example) \<and> unat (g_npools geo_example) \<le> unat (g_nslabs geo_example)
    \<and> md_blocks geo_example + unat (g_nslabs geo_example) * 200 \<le> 1024"
  using fla_mkfs_geo_calc_fits [OF _ _ _ _ geo_example_calc] by (simp add: dev_example_def)

text \<open>
  The slab segment has room for the headers of all slabs and, after them, for the three
  words that hold the number, the head and the tail of the free slabs.
\<close>

theorem fla_slab_sgmt_calc_room:
  assumes "32 \<le> unat lb_nbytes"
  shows "unat nslabs * unat sizeof_fla_slab_header + 3 * 4
    \<le> unat (fla_slab_sgmt_calc nslabs lb_nbytes) * unat lb_nbytes"
  using slab_sgmt_room [OF assms, of nslabs] by simp

theorem fla_slab_sgmt_calc_room_witness:
  "unat (5 :: u32) * 24 + 3 * 4 \<le> unat (fla_slab_sgmt_calc 5 512) * unat (512 :: u32)"
  using fla_slab_sgmt_calc_room [of 512 5] by simp

text \<open>
  C16: On a conventional device whose geometry fits, every slab lies behind the metadata and
  within the device, and two slabs have no block in common.
\<close>

theorem fla_geo_slab_lb_off_disjoint:
  assumes "cs_t (fs_cs fs) = FLA_CS_CNS" "\<not> dv_md_dev (fs_dev fs)" "geo_fits (fs_geo fs)"
    "unat (g_nlb (fs_geo fs)) < 2 ^ 32" "i < g_nslabs (fs_geo fs)" "j < g_nslabs (fs_geo fs)" "i \<noteq> j"
  shows "\<exists>oi oj. fla_geo_slab_lb_off fs i = Some oi \<and> fla_geo_slab_lb_off fs j = Some oj
    \<and> md_blocks (fs_geo fs) \<le> unat oi \<and> unat oi + unat (g_slab_nlb (fs_geo fs)) \<le> unat (g_nlb (fs_geo fs))
    \<and> {unat oi..<unat oi + unat (g_slab_nlb (fs_geo fs))} \<inter> {unat oj..<unat oj + unat (g_slab_nlb (fs_geo fs))} = {}"
proof -
  let ?n = "unat (g_slab_nlb (fs_geo fs))"
  have b: "unat i < unat (g_nslabs (fs_geo fs))" "unat j < unat (g_nslabs (fs_geo fs))"
    using assms(5,6) by (auto simp: word_less_nat_alt)
  note p = slab_product [OF assms(3,4) b(1)] slab_product [OF assms(3,4) b(2)]
  have "unat i * ?n < 2 ^ 32" "unat j * ?n < 2 ^ 32" using p assms(4) by simp_all
  then obtain oi oj where "fla_geo_slab_lb_off fs i = Some oi" "unat oi = slab_start fs (unat i)"
    "fla_geo_slab_lb_off fs j = Some oj" "unat oj = slab_start fs (unat j)"
    using slab_lb_off_nat [OF assms(1)] by metis
  moreover have "unat i \<noteq> unat j" using assms(7) by simp
  ultimately show ?thesis
    using p(1) assms(2) intervals_disjoint [of "unat i" "unat j" "md_blocks (fs_geo fs)" ?n]
    by (simp add: slab_start_def)
qed

theorem fla_geo_slab_lb_off_disjoint_witness:
  "\<exists>oi oj. fla_geo_slab_lb_off fs_example 0 = Some oi \<and> fla_geo_slab_lb_off fs_example 4 = Some oj
    \<and> unat oi + 200 \<le> 1024 \<and> {unat oi..<unat oi + 200} \<inter> {unat oj..<unat oj + 200} = {}"
proof -
  have "g_nlb geo_example = 1024" "g_nslabs geo_example = 5" "g_slab_nlb geo_example = 200"
    by (simp_all add: geo_example_def)
  with fla_geo_slab_lb_off_disjoint [of fs_example 0 4] geo_example_fits show ?thesis by auto
qed

text \<open>
  C24: \<open>fla_calc_objs_in_slab\<close> returns the greatest number of objects for which the objects and
  the blocks of the freelist that describes them fit into a slab.
\<close>

theorem fla_calc_objs_in_slab_max:
  assumes "0 < unat (g_lb_nbytes (fs_geo fs))" "\<not> dv_md_dev (fs_dev fs)"
    "fla_calc_objs_in_slab fs obj_nlb = Some n"
  shows "(n \<noteq> 0 \<longrightarrow> unat n * unat obj_nlb + unat (fla_slab_cache_flist_nlb fs n) \<le> unat (g_slab_nlb (fs_geo fs)))
    \<and> (\<forall>m. n < m \<longrightarrow> unat (g_slab_nlb (fs_geo fs)) < unat m * unat obj_nlb + unat (fla_slab_cache_flist_nlb fs m))"
  using calc_objs_in_slab_spec [OF assms] by (auto simp: flist_nlb_nat [OF assms(1)] word_less_nat_alt)

theorem fla_calc_objs_in_slab_max_witness:
  "fla_calc_objs_in_slab fs_example 60 = Some 3
    \<and> unat (3 :: u32) * unat (60 :: u32) + unat (fla_slab_cache_flist_nlb fs_example 3) \<le> 200"
proof -
  have "fla_calc_objs_in_slab fs_example 60 = Some 3"
    by (simp add: fla_calc_objs_in_slab_def calc_objs_loop.simps geo_example_def
        fla_slab_cache_flist_nlb_def FLA_CEIL_DIV_def fla_flist_size_def FLA_FREELIST_U32_ELEMS_def)
  with fla_calc_objs_in_slab_max [of fs_example 60 3] show ?thesis by (simp add: geo_example_def)
qed

end
