(* ===== verification/Fla_Xnvme.thy ===== *)
theory Fla_Xnvme
  imports Fla_Types
begin

text \<open>
  \<open>src/src/flexalloc_xnvme_env.c\<close>: synchronous transfers, cut into commands of at most the
  device's maximum transfer size, and the commands to zones. The commands themselves belong to
  xNVMe and are parameters; \<open>storage\<close> states what a device promises, that a command that
  succeeds writes or reads the addressed blocks and no others.

  The transfers have a second form in one command, under the macro \<open>FLA_XNVME_IGNORE_MDTS\<close>. The
  build does not select it: its option defines \<open>FLEXALLOC_XNVME_IGNORE_MDTS\<close>, a name that no file
  tests, so that the loops below are what is compiled.
\<close>

section \<open>Definitions\<close>

definition fla_xne_calc_mdts_naddrs :: "xnvme_geo \<Rightarrow> u32" where
  "fla_xne_calc_mdts_naddrs geo =
     (let n = xg_mdts_nbytes geo div xg_lba_nbytes geo in if n < 65535 then n else 65535)"

text \<open>The bytes a command transfers, read from or written to a buffer at an offset.\<close>

definition buf_get :: "u8 list \<Rightarrow> nat \<Rightarrow> nat \<Rightarrow> u8 list option" where
  "buf_get buf off n = (if off + n \<le> length buf then Some (take n (drop off buf)) else None)"

definition buf_put :: "u8 list \<Rightarrow> nat \<Rightarrow> u8 list \<Rightarrow> u8 list option" where
  "buf_put buf off bytes =
     (if off + length bytes \<le> length buf
      then Some (take off buf @ bytes @ drop (off + length bytes) buf) else None)"

text \<open>The number of blocks of the next command, zero based.\<close>

definition xne_next_nlb :: "xnvme_geo \<Rightarrow> u64 \<Rightarrow> u64 \<Rightarrow> u32" where
  "xne_next_nlb geo elba slba =
     (let m = ucast (fla_xne_calc_mdts_naddrs geo - 1) in ucast (if elba - slba < m then elba - slba else m))"

partial_function (option) xne_w_loop ::
  "'d xnvme \<Rightarrow> xdev \<Rightarrow> cmd_ctx \<Rightarrow> u64 \<Rightarrow> u8 list \<Rightarrow> u64 \<Rightarrow> nat \<Rightarrow> 'd \<Rightarrow> (int \<times> 'd) option" where
  "xne_w_loop X dev ctx elba buf slba off d =
     (if slba \<le> elba
      then do {
        let geo = x_geo X dev;
        let nlb = xne_next_nlb geo elba slba;
        bytes \<leftarrow> buf_get buf off ((unat (ucast nlb :: u16) + 1) * unat (xg_lba_nbytes geo));
        let r = x_write X dev ctx slba (ucast nlb) bytes d;
        if fst r \<noteq> 0 \<or> fst (snd r) then Some (if fst r \<noteq> 0 then fst r else - EIO, snd (snd r))
        else xne_w_loop X dev ctx elba buf (slba + ucast (fla_xne_calc_mdts_naddrs geo))
               (off + unat ((nlb + 1) * xg_lba_nbytes geo)) (snd (snd r))
      }
      else Some (0, d))"

definition fla_xne_sync_seq_w ::
  "'d xnvme \<Rightarrow> lba_range \<Rightarrow> xdev \<Rightarrow> cmd_ctx \<Rightarrow> u8 list \<Rightarrow> 'd \<Rightarrow> (int \<times> 'd) option" where
  "fla_xne_sync_seq_w X lrange dev ctx buf d = xne_w_loop X dev ctx (lr_elba lrange) buf (lr_slba lrange) 0 d"

partial_function (option) xne_r_loop ::
  "'d xnvme \<Rightarrow> xdev \<Rightarrow> u64 \<Rightarrow> u64 \<Rightarrow> nat \<Rightarrow> 'd \<Rightarrow> u8 list \<Rightarrow> (int \<times> u8 list) option" where
  "xne_r_loop X dev elba slba off d buf =
     (if slba \<le> elba
      then do {
        let geo = x_geo X dev;
        let nlb = xne_next_nlb geo elba slba;
        let r = x_read X dev slba (ucast nlb) d;
        buf \<leftarrow> buf_put buf off (snd (snd r));
        if fst r \<noteq> 0 \<or> fst (snd r) then Some (if fst r \<noteq> 0 then fst r else - EIO, buf)
        else xne_r_loop X dev elba (slba + ucast (fla_xne_calc_mdts_naddrs geo))
               (off + unat ((nlb + 1) * xg_lba_nbytes geo)) d buf
      }
      else Some (0, buf))"

definition fla_xne_sync_seq_r :: "'d xnvme \<Rightarrow> lba_range \<Rightarrow> xdev \<Rightarrow> 'd \<Rightarrow> u8 list \<Rightarrow> (int \<times> u8 list) option" where
  "fla_xne_sync_seq_r X lrange dev d buf = xne_r_loop X dev (lr_elba lrange) (lr_slba lrange) 0 d buf"

definition fla_xne_sync_seq_r_xneio :: "'d xnvme \<Rightarrow> lba_range \<Rightarrow> xdev \<Rightarrow> 'd \<Rightarrow> u8 list \<Rightarrow> (int \<times> u8 list) option" where
  "fla_xne_sync_seq_r_xneio X lrange dev d buf = fla_xne_sync_seq_r X lrange dev d buf"

definition fla_xne_lba_range_from_slba_naddrs :: "'d xnvme \<Rightarrow> xdev \<Rightarrow> u64 \<Rightarrow> u64 \<Rightarrow> lba_range" where
  "fla_xne_lba_range_from_slba_naddrs X dev slba naddrs = x_range_from_slba X dev slba naddrs"

definition fla_xne_lba_range_from_offset_nbytes :: "'d xnvme \<Rightarrow> xdev \<Rightarrow> u64 \<Rightarrow> u64 \<Rightarrow> lba_range" where
  "fla_xne_lba_range_from_offset_nbytes X dev offset nbytes = x_range_from_offset X dev offset nbytes"

definition fla_xne_dev_znd_send_mgmt ::
  "'d xnvme \<Rightarrow> xdev \<Rightarrow> u64 \<Rightarrow> znd_action \<Rightarrow> bool \<Rightarrow> 'd \<Rightarrow> int \<times> 'd" where
  "fla_xne_dev_znd_send_mgmt X dev slba act all d =
     (if xg_type (x_geo X dev) \<noteq> XNVME_GEO_ZONED then (- EINVAL, d)
      else let (err, status, d') = x_znd_mgmt_send X dev slba act all d
           in if err \<noteq> 0 \<or> status then (if err \<noteq> 0 then err else - EIO, d') else (0, d'))"

section \<open>What a device promises\<close>

abbreviation lbsz :: "'d xnvme \<Rightarrow> xdev \<Rightarrow> nat" where
  "lbsz X dev \<equiv> unat (xg_lba_nbytes (x_geo X dev))"

text \<open>Block \<open>k\<close> of a buffer.\<close>

definition buf_block :: "nat \<Rightarrow> u8 list \<Rightarrow> nat \<Rightarrow> u8 list" where
  "buf_block sz buf k = take sz (drop (k * sz) buf)"

text \<open>
  \<open>storage X blk\<close>: \<open>blk d dev i\<close> is the content of block \<open>i\<close>. A successful write replaces the
  addressed blocks by the data; one that fails may leave anything there, but changes no other
  block. A successful read returns the addressed blocks; a read always fills the buffer it is
  given.
\<close>

definition storage :: "'d xnvme \<Rightarrow> ('d \<Rightarrow> xdev \<Rightarrow> nat \<Rightarrow> u8 list) \<Rightarrow> bool" where
  "storage X blk \<longleftrightarrow>
     (\<forall>dev ctx slba nlb bytes d d'.
        x_write X dev ctx slba nlb bytes d = (0, False, d') \<longrightarrow> length bytes = (unat nlb + 1) * lbsz X dev \<longrightarrow>
        blk d' = (\<lambda>dv i. if dv = dev \<and> unat slba \<le> i \<and> i \<le> unat slba + unat nlb
                         then buf_block (lbsz X dev) bytes (i - unat slba) else blk d dv i))
   \<and> (\<forall>dev ctx slba nlb bytes d e st d' dv i.
        x_write X dev ctx slba nlb bytes d = (e, st, d') \<longrightarrow>
        \<not> (dv = dev \<and> unat slba \<le> i \<and> i \<le> unat slba + unat nlb) \<longrightarrow> blk d' dv i = blk d dv i)
   \<and> (\<forall>dev slba nlb d e st bytes.
        x_read X dev slba nlb d = (e, st, bytes) \<longrightarrow> length bytes = (unat nlb + 1) * lbsz X dev
        \<and> (e = 0 \<and> \<not> st \<longrightarrow> (\<forall>k\<le>unat nlb. buf_block (lbsz X dev) bytes k = blk d dev (unat slba + k))))"

lemma storage_write:
  assumes "storage X blk" "x_write X dev ctx slba nlb bytes d = (0, False, d')"
    "length bytes = (unat nlb + 1) * lbsz X dev"
  shows "blk d' = (\<lambda>dv i. if dv = dev \<and> unat slba \<le> i \<and> i \<le> unat slba + unat nlb
    then buf_block (lbsz X dev) bytes (i - unat slba) else blk d dv i)"
  using assms(1) [unfolded storage_def, THEN conjunct1, rule_format, OF assms(2,3)] .

lemma storage_frame:
  assumes "storage X blk" "x_write X dev ctx slba nlb bytes d = (e, st, d')"
    "\<not> (dv = dev \<and> unat slba \<le> i \<and> i \<le> unat slba + unat nlb)"
  shows "blk d' dv i = blk d dv i"
  using assms unfolding storage_def by blast

lemma storage_read:
  assumes "storage X blk" "x_read X dev slba nlb d = (e, st, bytes)"
  shows "length bytes = (unat nlb + 1) * lbsz X dev"
    "e = 0 \<Longrightarrow> \<not> st \<Longrightarrow> k \<le> unat nlb \<Longrightarrow> buf_block (lbsz X dev) bytes k = blk d dev (unat slba + k)"
  using assms unfolding storage_def by blast+

text \<open>A range that the library reports as valid is the one asked for and lies on the device.\<close>

definition ranges :: "'d xnvme \<Rightarrow> bool" where
  "ranges X \<longleftrightarrow>
     (\<forall>dev slba naddrs. lr_is_valid (x_range_from_slba X dev slba naddrs) \<longrightarrow>
        lr_slba (x_range_from_slba X dev slba naddrs) = slba
      \<and> lr_elba (x_range_from_slba X dev slba naddrs) = slba + naddrs - 1
      \<and> 0 < unat naddrs \<and> unat slba + unat naddrs < 2 ^ 63)
   \<and> (\<forall>dev offset nbytes. lr_is_valid (x_range_from_offset X dev offset nbytes) \<longrightarrow>
        (\<exists>slba naddrs. unat offset = unat slba * lbsz X dev \<and> unat nbytes = unat naddrs * lbsz X dev
           \<and> lr_slba (x_range_from_offset X dev offset nbytes) = slba
           \<and> lr_elba (x_range_from_offset X dev offset nbytes) = slba + naddrs - 1
           \<and> 0 < unat naddrs \<and> unat slba + unat naddrs < 2 ^ 63))"

lemma range_end:
  assumes "0 < unat n" "unat s + unat n < 2 ^ 63"
  shows "unat (s + n - 1 :: u64) = unat s + unat n - 1"
proof -
  have "unat (s + n) = unat s + unat n" using assms by (simp add: unat_add_no_wrap)
  then show ?thesis using assms by (subst unat_dec) (auto simp: unat_eq_0 [symmetric])
qed

lemma range_slba:
  assumes "ranges X" "lr_is_valid (x_range_from_slba X dev slba n)"
  defines "r \<equiv> x_range_from_slba X dev slba n"
  shows "lr_slba r = slba" "unat (lr_elba r) = unat slba + unat n - 1" "0 < unat n"
    "unat slba + unat n < 2 ^ 63" "Suc (unat (lr_elba r)) - unat (lr_slba r) = unat n" "unat (lr_elba r) < 2 ^ 63"
proof -
  have r: "lr_slba r = slba" "lr_elba r = slba + n - 1" "0 < unat n" "unat slba + unat n < 2 ^ 63"
    using assms(1,2) unfolding ranges_def r_def by blast+
  then show "lr_slba r = slba" "0 < unat n" "unat slba + unat n < 2 ^ 63" by auto
  show "unat (lr_elba r) = unat slba + unat n - 1" using range_end [OF r(3,4)] r(2) by simp
  then show "Suc (unat (lr_elba r)) - unat (lr_slba r) = unat n" "unat (lr_elba r) < 2 ^ 63" using r by simp_all
qed

text \<open>A device whose reads and writes never fail.\<close>

definition reliable :: "'d xnvme \<Rightarrow> xdev \<Rightarrow> bool" where
  "reliable X dev \<longleftrightarrow>
     (\<forall>ctx slba nlb bytes d. fst (x_write X dev ctx slba nlb bytes d) = 0 \<and> \<not> fst (snd (x_write X dev ctx slba nlb bytes d)))
   \<and> (\<forall>slba nlb d. fst (x_read X dev slba nlb d) = 0 \<and> \<not> fst (snd (x_read X dev slba nlb d)))"

lemma reliable_write: "reliable X dev \<Longrightarrow> x_write X dev ctx slba nlb bytes d = (e, st, d') \<Longrightarrow> e = 0 \<and> \<not> st"
  unfolding reliable_def by (metis fst_conv snd_conv)

lemma reliable_read: "reliable X dev \<Longrightarrow> x_read X dev slba nlb d = (e, st, bytes) \<Longrightarrow> e = 0 \<and> \<not> st"
  unfolding reliable_def by (metis fst_conv snd_conv)

text \<open>A geometry on which the loops make progress.\<close>

definition xfer_ok :: "xnvme_geo \<Rightarrow> bool" where
  "xfer_ok geo \<longleftrightarrow> 0 < unat (xg_lba_nbytes geo) \<and> xg_lba_nbytes geo \<le> xg_mdts_nbytes geo"

lemma mdts_naddrs_bounds:
  assumes "xfer_ok geo"
  shows "0 < unat (fla_xne_calc_mdts_naddrs geo)" "unat (fla_xne_calc_mdts_naddrs geo) \<le> 65535"
    "unat (fla_xne_calc_mdts_naddrs geo) * unat (xg_lba_nbytes geo) \<le> unat (xg_mdts_nbytes geo)"
proof -
  let ?q = "unat (xg_mdts_nbytes geo) div unat (xg_lba_nbytes geo)"
  have q: "unat (fla_xne_calc_mdts_naddrs geo) = min ?q 65535"
    by (simp add: fla_xne_calc_mdts_naddrs_def Let_def word_less_nat_alt unat_div min_def)
  have "0 < ?q" using assms by (simp add: xfer_ok_def div_greater_zero_iff word_le_nat_alt)
  then show "0 < unat (fla_xne_calc_mdts_naddrs geo)" "unat (fla_xne_calc_mdts_naddrs geo) \<le> 65535"
    using q by simp_all
  have "min ?q 65535 * unat (xg_lba_nbytes geo) \<le> ?q * unat (xg_lba_nbytes geo)"
    by (intro mult_le_mono1) simp
  also have "\<dots> \<le> unat (xg_mdts_nbytes geo)" by simp
  finally show "unat (fla_xne_calc_mdts_naddrs geo) * unat (xg_lba_nbytes geo) \<le> unat (xg_mdts_nbytes geo)"
    unfolding q .
qed

text \<open>One step of either loop: the number of blocks and of bytes it moves.\<close>

lemma xne_step:
  assumes "xfer_ok geo" "slba \<le> elba" "unat elba < 2 ^ 63"
  defines "m \<equiv> unat (fla_xne_calc_mdts_naddrs geo)"
  defines "nlb \<equiv> xne_next_nlb geo elba slba"
  shows "Suc (unat nlb) = min (Suc (unat elba - unat slba)) m"
    "unat (ucast nlb :: u16) = unat nlb"
    "unat ((nlb + 1) * xg_lba_nbytes geo) = Suc (unat nlb) * unat (xg_lba_nbytes geo)"
    "unat (slba + ucast (fla_xne_calc_mdts_naddrs geo)) = unat slba + m"
proof -
  note b = mdts_naddrs_bounds [OF assms(1), folded m_def]
  have le: "unat slba \<le> unat elba" using assms(2) by (simp add: word_le_nat_alt)
  have m1: "unat (fla_xne_calc_mdts_naddrs geo - 1) = m - 1"
    using b(1) unfolding m_def by (intro unat_dec) auto
  have d: "unat (elba - slba) = unat elba - unat slba" using le by (simp add: unat_sub_no_wrap)
  have "unat nlb = min (unat elba - unat slba) (m - 1)"
    unfolding nlb_def xne_next_nlb_def Let_def using b m1 d
    by (auto simp: word_less_nat_alt unat_ucast_widen min_def unat_ucast_small)
  then show n: "Suc (unat nlb) = min (Suc (unat elba - unat slba)) m" using b(1) by auto
  then have small: "unat nlb < 65535" using b(2) by linarith
  then show "unat (ucast nlb :: u16) = unat nlb" by (simp add: unat_ucast_small)
  have s1: "unat (nlb + 1) = Suc (unat nlb)" using small by (subst unat_add_no_wrap) simp_all
  have "Suc (unat nlb) * unat (xg_lba_nbytes geo) \<le> m * unat (xg_lba_nbytes geo)"
    using n by (intro mult_le_mono1) simp
  also have "\<dots> < 2 ^ 32" using b(3) unat_less_exp [of "xg_mdts_nbytes geo"] by (simp add: le_less_trans)
  finally show "unat ((nlb + 1) * xg_lba_nbytes geo) = Suc (unat nlb) * unat (xg_lba_nbytes geo)"
    using s1 by (simp add: unat_mult_no_wrap)
  show "unat (slba + ucast (fla_xne_calc_mdts_naddrs geo)) = unat slba + m"
    using b(2) le assms(3) by (subst unat_add_no_wrap) (simp_all add: m_def unat_ucast_widen)
qed

lemma buf_block_chunk:
  assumes "k < n"
  shows "buf_block sz (take (n * sz) (drop (j * sz) buf)) k = buf_block sz buf (j + k)"
proof -
  have "Suc k * sz \<le> n * sz" using assms by (intro mult_le_mono1) simp
  then show ?thesis
    unfolding buf_block_def by (simp add: drop_take take_take add_mult_distrib min_def algebra_simps)
qed

section \<open>Transfers in several commands\<close>

lemma xne_w_loop_spec:
  assumes st: "storage X blk" and ok: "xfer_ok (x_geo X dev)" and el: "unat elba < 2 ^ 63"
    and len: "(Suc (unat elba) - start) * lbsz X dev \<le> length buf" and start: "start \<le> unat slba"
    and off: "slba \<le> elba \<longrightarrow> off = (unat slba - start) * lbsz X dev"
  shows "\<exists>err d'. xne_w_loop X dev ctx elba buf slba off d = Some (err, d') \<and> (reliable X dev \<longrightarrow> err = 0)
    \<and> (\<forall>dv i. \<not> (dv = dev \<and> unat slba \<le> i \<and> i \<le> unat elba) \<longrightarrow> blk d' dv i = blk d dv i)
    \<and> (err = 0 \<longrightarrow> blk d' = (\<lambda>dv i. if dv = dev \<and> unat slba \<le> i \<and> i \<le> unat elba
        then buf_block (lbsz X dev) buf (i - start) else blk d dv i))"
  using start off
proof (induction "Suc (unat elba) - unat slba" arbitrary: slba off d rule: less_induct)
  case less
  show ?case
  proof (cases "slba \<le> elba")
    case False
    then show ?thesis by (subst xne_w_loop.simps) (auto simp: word_le_nat_alt fun_eq_iff)
  next
    case True
    let ?g = "x_geo X dev" and ?L = "lbsz X dev"
    define m where "m = unat (fla_xne_calc_mdts_naddrs ?g)"
    define nlb where "nlb = xne_next_nlb ?g elba slba"
    note s = xne_step [OF ok True el, folded m_def nlb_def]
    note m = mdts_naddrs_bounds(1) [OF ok, folded m_def]
    have le: "unat slba \<le> unat elba" using True by (simp add: word_le_nat_alt)
    have o: "off = (unat slba - start) * ?L" using less.prems(2) True by simp
    define bytes where "bytes = take (Suc (unat nlb) * ?L) (drop off buf)"
    have "(unat slba - start + Suc (unat nlb)) * ?L \<le> (Suc (unat elba) - start) * ?L"
      using s(1) le less.prems(1) by (intro mult_le_mono1) linarith
    then have fit: "off + Suc (unat nlb) * ?L \<le> length buf"
      using len unfolding o by (simp add: add_mult_distrib)
    then have get: "buf_get buf off ((unat (ucast nlb :: u16) + 1) * ?L) = Some bytes"
      by (simp add: buf_get_def bytes_def s(2))
    have blen: "length bytes = (unat (ucast nlb :: u16) + 1) * ?L" using fit by (simp add: bytes_def s(2))
    obtain e stt d1 where w: "x_write X dev ctx slba (ucast nlb) bytes d = (e, stt, d1)" by (metis prod_cases3)
    show ?thesis
    proof (cases "e = 0 \<and> \<not> stt")
      case False
      have "blk d1 dv i = blk d dv i" if "\<not> (dv = dev \<and> unat slba \<le> i \<and> i \<le> unat elba)" for dv i
      proof (rule storage_frame [OF st w])
        have "Suc (unat nlb) \<le> Suc (unat elba - unat slba)" using s(1) by simp
        then show "\<not> (dv = dev \<and> unat slba \<le> i \<and> i \<le> unat slba + unat (ucast nlb :: u16))"
          using that s(2) le by auto
      qed
      with False show ?thesis
        using True get w reliable_write [OF _ w] by (subst xne_w_loop.simps) (auto simp: nlb_def [symmetric] Let_def)
    next
      case ok': True
      let ?slba = "slba + ucast (fla_xne_calc_mdts_naddrs ?g)"
      let ?off = "off + unat ((nlb + 1) * xg_lba_nbytes ?g)"
      have step: "xne_w_loop X dev ctx elba buf slba off d = xne_w_loop X dev ctx elba buf ?slba ?off d1"
        using True get w ok' by (subst xne_w_loop.simps) (auto simp: nlb_def [symmetric] Let_def)
      have b1: "blk d1 = (\<lambda>dv i. if dv = dev \<and> unat slba \<le> i \<and> i \<le> unat slba + unat nlb
          then buf_block ?L bytes (i - unat slba) else blk d dv i)"
        using storage_write [OF st _ blen] w ok' s(2) by simp
      have dec: "Suc (unat elba) - unat ?slba < Suc (unat elba) - unat slba" using s(4) m le by linarith
      have "?slba \<le> elba \<longrightarrow> ?off = (unat ?slba - start) * ?L"
      proof
        assume "?slba \<le> elba"
        then have "Suc (unat nlb) = m" using s(1,4) by (simp add: word_le_nat_alt)
        then have "unat ?slba - start = (unat slba - start) + Suc (unat nlb)"
          using s(4) less.prems(1) by linarith
        then show "?off = (unat ?slba - start) * ?L"
          unfolding s(3) o by (simp only: add_mult_distrib)
      qed
      then obtain err d' where IH: "xne_w_loop X dev ctx elba buf ?slba ?off d1 = Some (err, d')" "reliable X dev \<longrightarrow> err = 0"
        "\<forall>dv i. \<not> (dv = dev \<and> unat ?slba \<le> i \<and> i \<le> unat elba) \<longrightarrow> blk d' dv i = blk d1 dv i"
        "err = 0 \<longrightarrow> blk d' = (\<lambda>dv i. if dv = dev \<and> unat ?slba \<le> i \<and> i \<le> unat elba
          then buf_block ?L buf (i - start) else blk d1 dv i)"
        using less.hyps [OF dec, of ?off d1] less.prems(1) s(4) by auto
      have chunk: "buf_block ?L bytes (i - unat slba) = buf_block ?L buf (i - start)"
        if "unat slba \<le> i" "i \<le> unat slba + unat nlb" for i
        using buf_block_chunk [of "i - unat slba" "Suc (unat nlb)" ?L "unat slba - start" buf] that less.prems(1)
        by (simp add: bytes_def o)
      have cover: "unat slba \<le> i \<and> i \<le> unat elba \<longleftrightarrow>
          (unat ?slba \<le> i \<and> i \<le> unat elba) \<or> (unat slba \<le> i \<and> i \<le> unat slba + unat nlb)" for i
        using s(1,4) le by linarith
      have "blk d' dv i = blk d dv i" if "\<not> (dv = dev \<and> unat slba \<le> i \<and> i \<le> unat elba)" for dv i
        using IH(3) b1 that s(1,4) le by auto
      then show ?thesis unfolding step using IH(1,2,4) b1 chunk cover by (auto simp: fun_eq_iff)
    qed
  qed
qed

lemma buf_block_put:
  assumes "off = j * sz" "length bytes = n * sz" "j * sz + n * sz \<le> length buf"
    "buf_put buf off bytes = Some buf'"
  shows "length buf' = length buf" "k < n \<Longrightarrow> buf_block sz buf' (j + k) = buf_block sz bytes k"
    "i < j \<Longrightarrow> buf_block sz buf' i = buf_block sz buf i"
proof -
  have b: "buf' = take (j * sz) buf @ bytes @ drop (j * sz + n * sz) buf"
    using assms by (simp add: buf_put_def)
  then show "length buf' = length buf" using assms(2,3) by simp
  show "buf_block sz buf' (j + k) = buf_block sz bytes k" if "k < n"
  proof -
    have "k * sz + sz \<le> n * sz" using that mult_le_mono1 [of "Suc k" n sz] by simp
    then show ?thesis
      using assms(2,3) unfolding b buf_block_def by (simp add: add_mult_distrib)
  qed
  show "buf_block sz buf' i = buf_block sz buf i" if "i < j"
  proof -
    have "i * sz + sz \<le> j * sz" using that mult_le_mono1 [of "Suc i" j sz] by simp
    then have l: "i * sz \<le> length (take (j * sz) buf)" "sz \<le> length (drop (i * sz) (take (j * sz) buf))"
      "sz \<le> j * sz - i * sz"
      using assms(3) that by auto
    have "take sz (drop (i * sz) (take (j * sz) buf @ xs)) = take sz (drop (i * sz) buf)" for xs
      using l(1,2) by (subst drop_append, subst take_append)
        (simp add: drop_take take_take min_absorb1 [OF l(3)])
    then show ?thesis unfolding b buf_block_def .
  qed
qed

lemma xne_r_loop_spec:
  assumes st: "storage X blk" and ok: "xfer_ok (x_geo X dev)" and el: "unat elba < 2 ^ 63"
    and len: "(Suc (unat elba) - start) * lbsz X dev \<le> length buf" and start: "start \<le> unat slba"
    and off: "slba \<le> elba \<longrightarrow> off = (unat slba - start) * lbsz X dev"
  shows "\<exists>err buf'. xne_r_loop X dev elba slba off d buf = Some (err, buf') \<and> length buf' = length buf
    \<and> (reliable X dev \<longrightarrow> err = 0) \<and> (err = 0 \<longrightarrow> (\<forall>i. start \<le> i \<and> i \<le> unat elba \<longrightarrow> buf_block (lbsz X dev) buf' (i - start)
        = (if unat slba \<le> i then blk d dev i else buf_block (lbsz X dev) buf (i - start))))"
  using len start off
proof (induction "Suc (unat elba) - unat slba" arbitrary: slba off buf rule: less_induct)
  case less
  show ?case
  proof (cases "slba \<le> elba")
    case False
    then show ?thesis by (subst xne_r_loop.simps) (auto simp: word_le_nat_alt)
  next
    case True
    let ?g = "x_geo X dev" and ?L = "lbsz X dev"
    define m where "m = unat (fla_xne_calc_mdts_naddrs ?g)"
    define nlb where "nlb = xne_next_nlb ?g elba slba"
    note s = xne_step [OF ok True el, folded m_def nlb_def]
    note m = mdts_naddrs_bounds(1) [OF ok, folded m_def]
    have le: "unat slba \<le> unat elba" using True by (simp add: word_le_nat_alt)
    have o: "off = (unat slba - start) * ?L" using less.prems(3) True by simp
    obtain e stt bytes where r: "x_read X dev slba (ucast nlb) d = (e, stt, bytes)" by (metis prod_cases3)
    note rd = storage_read [OF st r, unfolded s(2)]
    have "(unat slba - start + Suc (unat nlb)) * ?L \<le> (Suc (unat elba) - start) * ?L"
      using s(1) le less.prems(2) by (intro mult_le_mono1) linarith
    then have fit: "(unat slba - start) * ?L + Suc (unat nlb) * ?L \<le> length buf"
      using less.prems(1) by (simp add: add_mult_distrib)
    then obtain buf1 where put: "buf_put buf off bytes = Some buf1"
      using rd(1) by (simp add: buf_put_def o)
    note bl = buf_block_put [OF o _ fit put, simplified rd(1), simplified]
    show ?thesis
    proof (cases "e = 0 \<and> \<not> stt")
      case False
      then show ?thesis
        using True put r bl(1) reliable_read [OF _ r] by (subst xne_r_loop.simps) (auto simp: nlb_def [symmetric] Let_def)
    next
      case ok': True
      let ?slba = "slba + ucast (fla_xne_calc_mdts_naddrs ?g)"
      let ?off = "off + unat ((nlb + 1) * xg_lba_nbytes ?g)"
      have step: "xne_r_loop X dev elba slba off d buf = xne_r_loop X dev elba ?slba ?off d buf1"
        using True put r ok' by (subst xne_r_loop.simps) (auto simp: nlb_def [symmetric] Let_def)
      have dec: "Suc (unat elba) - unat ?slba < Suc (unat elba) - unat slba" using s(4) m le by linarith
      have "?slba \<le> elba \<longrightarrow> ?off = (unat ?slba - start) * ?L"
      proof
        assume "?slba \<le> elba"
        then have "Suc (unat nlb) = m" using s(1,4) by (simp add: word_le_nat_alt)
        then have "unat ?slba - start = (unat slba - start) + Suc (unat nlb)"
          using s(4) less.prems(2) by linarith
        then show "?off = (unat ?slba - start) * ?L"
          unfolding s(3) o by (simp only: add_mult_distrib)
      qed
      then obtain err buf' where IH: "xne_r_loop X dev elba ?slba ?off d buf1 = Some (err, buf')"
        "length buf' = length buf1" "reliable X dev \<longrightarrow> err = 0"
        "err = 0 \<longrightarrow> (\<forall>i. start \<le> i \<and> i \<le> unat elba \<longrightarrow> buf_block ?L buf' (i - start)
          = (if unat ?slba \<le> i then blk d dev i else buf_block ?L buf1 (i - start)))"
        using less.hyps [OF dec, of buf1 ?off] less.prems(1,2) s(4) bl(1) by auto
      have chunk: "buf_block ?L buf1 (i - start) = (if unat slba \<le> i then blk d dev i else buf_block ?L buf (i - start))"
        if i: "start \<le> i" "i \<le> unat elba" "\<not> unat ?slba \<le> i" for i
      proof (cases "unat slba \<le> i")
        case True
        then have k: "i - unat slba < Suc (unat nlb)" using i s(1,4) by linarith
        have "buf_block ?L buf1 (i - start) = buf_block ?L bytes (i - unat slba)"
          using bl(2) [of "i - unat slba"] k True less.prems(2) by simp
        also have "\<dots> = blk d dev i" using rd(2) [of "i - unat slba"] ok' k True by simp
        finally show ?thesis using True by simp
      next
        case False
        then show ?thesis using bl(3) [of "i - start"] i(1) by simp
      qed
      have "unat slba \<le> unat ?slba" using s(4) by simp
      then show ?thesis unfolding step using IH chunk bl(1) by auto
    qed
  qed
qed

section \<open>A device in memory\<close>

text \<open>
  An instance of the interface: a device that keeps its blocks in a function and never
  fails. It shows that the promises above can be kept and serves the examples.
\<close>

definition mem_geo :: xnvme_geo where
  "mem_geo = \<lparr>xg_type = XNVME_GEO_CONVENTIONAL, xg_tbytes = 524288, xg_lba_nbytes = 512,
     xg_mdts_nbytes = 4096, xg_nzone = 0, xg_nsect = 0\<rparr>"

definition mem_blk :: "(xdev \<Rightarrow> nat \<Rightarrow> u8 list) \<Rightarrow> xdev \<Rightarrow> nat \<Rightarrow> u8 list" where
  "mem_blk d dev i = take 512 (d dev i @ replicate 512 0)"

definition mem_range :: "u64 \<Rightarrow> u64 \<Rightarrow> lba_range" where
  "mem_range slba naddrs = \<lparr>lr_slba = slba, lr_elba = slba + naddrs - 1, lr_naddrs = naddrs,
     lr_is_valid = (naddrs \<noteq> 0 \<and> unat slba + unat naddrs \<le> 1024)\<rparr>"

definition mem_xnvme :: "(xdev \<Rightarrow> nat \<Rightarrow> u8 list) xnvme" where
  "mem_xnvme = \<lparr>x_geo = (\<lambda>_. mem_geo), x_dev_open = (\<lambda>_. True),
     x_write = (\<lambda>dev ctx slba nlb bytes d. (0, False, \<lambda>dv i.
        if dv = dev \<and> unat slba \<le> i \<and> i \<le> unat slba + unat nlb
        then buf_block 512 bytes (i - unat slba) else d dv i)),
     x_read = (\<lambda>dev slba nlb d. (0, False,
        concat (map (\<lambda>k. mem_blk d dev (unat slba + k)) [0..<Suc (unat nlb)]))),
     x_range_from_slba = (\<lambda>dev. mem_range),
     x_range_from_offset = (\<lambda>dev offset nbytes.
        if offset mod 512 = 0 \<and> nbytes mod 512 = 0 then mem_range (offset div 512) (nbytes div 512)
        else mem_range 0 0),
     x_znd_mgmt_send = (\<lambda>dev slba act all d. (0, False, d)),
     x_ctx_from_dev = (\<lambda>_. \<lparr>cc_dspec = 0, cc_dtype = 0\<rparr>),
     x_idfy_ctratt = (\<lambda>_ _. (0, False, 0)), x_ns_endgid = (\<lambda>_. Some 0), x_feat_fdp = (\<lambda>_ _ _. (0, False, 0)),
     x_ruhs = (\<lambda>_ n _. (0, replicate (unat n) 0)), x_sizeof_ruhs = 16, x_sizeof_ruhs_desc = 16,
     x_buf_alloc = (\<lambda>dev n. Some (replicate (unat n) 0)), x_malloc = (\<lambda>_. True),
     x_uninit = (\<lambda>_. 0), x_errno = ENOMEM\<rparr>"

lemma length_mem_blk [simp]: "length (mem_blk d dev i) = 512"
  by (simp add: mem_blk_def)

lemma concat_blocks_nth:
  assumes "\<And>x. length (f x) = sz" "k < n"
  shows "buf_block sz (concat (map f [0..<n])) k = f k"
proof -
  have len: "length (concat (map f [0..<m])) = m * sz" for m
    using assms(1) by (induction m) simp_all
  have "[0..<n] = [0..<k] @ k # [Suc k..<n]"
    using assms(2) by (metis add.commute le_add1 less_imp_add_positive upt_add_eq_append upt_conv_Cons zero_le)
  then have "concat (map f [0..<n]) = concat (map f [0..<k]) @ f k @ concat (map f [Suc k..<n])" by simp
  then show ?thesis using len [of k] assms(1) [of k] by (simp add: buf_block_def)
qed

lemma mem_storage: "storage mem_xnvme mem_blk"
  unfolding storage_def
proof (intro conjI allI impI)
  fix dev ctx slba nlb bytes d d'
  assume w: "x_write mem_xnvme dev ctx slba nlb bytes d = (0, False, d')"
    and len: "length bytes = (unat nlb + 1) * lbsz mem_xnvme dev"
  have d': "d' = (\<lambda>dv i. if dv = dev \<and> unat slba \<le> i \<and> i \<le> unat slba + unat nlb
      then buf_block 512 bytes (i - unat slba) else d dv i)"
    using w by (simp add: mem_xnvme_def)
  have full: "length (buf_block 512 bytes k) = 512" if "k \<le> unat nlb" for k
    using that len by (simp add: buf_block_def mem_xnvme_def mem_geo_def)
  have pad: "take 512 (x @ replicate 512 0) = x" if "length x = 512" for x :: "u8 list"
    using that by simp
  have l: "lbsz mem_xnvme dev = 512" by (simp add: mem_xnvme_def mem_geo_def)
  show "mem_blk d' = (\<lambda>dv i. if dv = dev \<and> unat slba \<le> i \<and> i \<le> unat slba + unat nlb
      then buf_block (lbsz mem_xnvme dev) bytes (i - unat slba) else mem_blk d dv i)"
    unfolding d' l mem_blk_def by (intro ext) (simp only: pad full if_distrib, auto intro!: pad full simp del: take_append)
next
  fix dev ctx slba nlb bytes d e st d' dv i
  assume "x_write mem_xnvme dev ctx slba nlb bytes d = (e, st, d')"
    and out: "\<not> (dv = dev \<and> unat slba \<le> i \<and> i \<le> unat slba + unat nlb)"
  then have "d' = (\<lambda>dv i. if dv = dev \<and> unat slba \<le> i \<and> i \<le> unat slba + unat nlb
      then buf_block 512 bytes (i - unat slba) else d dv i)" by (simp add: mem_xnvme_def)
  then have "d' dv i = d dv i" using out by auto
  then show "mem_blk d' dv i = mem_blk d dv i" by (simp add: mem_blk_def)
next
  fix dev slba nlb d e st bytes
  assume r: "x_read mem_xnvme dev slba nlb d = (e, st, bytes)"
  then have b: "bytes = concat (map (\<lambda>k. mem_blk d dev (unat slba + k)) [0..<Suc (unat nlb)])"
    by (simp add: mem_xnvme_def)
  have "length (concat (map (\<lambda>k. mem_blk d dev (unat slba + k)) [0..<m])) = m * 512" for m
    by (induction m) simp_all
  then show "length bytes = (unat nlb + 1) * lbsz mem_xnvme dev"
    unfolding b by (simp only:) (simp add: mem_xnvme_def mem_geo_def)
  show "buf_block (lbsz mem_xnvme dev) bytes k = mem_blk d dev (unat slba + k)" if "k \<le> unat nlb" for k
    using concat_blocks_nth [of "\<lambda>k. mem_blk d dev (unat slba + k)" 512 k "Suc (unat nlb)"] that
    unfolding b by (simp add: mem_xnvme_def mem_geo_def less_Suc_eq_le del: upt_Suc)
qed

lemma unat_512: "unat (512 :: u64) = 512" by simp

lemma mem_ranges: "ranges mem_xnvme"
proof -
  have "\<exists>slba naddrs. unat offset = unat slba * 512 \<and> unat nbytes = unat naddrs * 512
      \<and> lr_slba (mem_range (offset div 512) (nbytes div 512)) = slba
      \<and> lr_elba (mem_range (offset div 512) (nbytes div 512)) = slba + naddrs - 1
      \<and> 0 < unat naddrs \<and> unat slba + unat naddrs < 2 ^ 63"
    if "offset mod 512 = 0" "nbytes mod 512 = 0" "lr_is_valid (mem_range (offset div 512) (nbytes div 512))"
    for offset nbytes :: u64
  proof (intro exI conjI)
    have u: "unat (w div 512) * 512 = unat w" if "w mod 512 = 0" for w :: u64
    proof -
      have "unat w mod 512 = 0" using that by (metis unat_mod unsigned_0 unat_512)
      then show ?thesis by (auto simp: unat_div)
    qed
    show "unat offset = unat (offset div 512) * 512" "unat nbytes = unat (nbytes div 512) * 512"
      using u that by simp_all
  qed (use that(3) in \<open>simp_all add: mem_range_def unat_gt_0\<close>)
  then show ?thesis
    unfolding ranges_def by (auto simp: mem_xnvme_def mem_geo_def mem_range_def unat_gt_0)
qed

lemma mem_xfer_ok: "xfer_ok (x_geo mem_xnvme dev)"
  by (simp add: xfer_ok_def mem_xnvme_def mem_geo_def)

lemma mem_reliable: "reliable mem_xnvme dev"
  by (simp add: reliable_def mem_xnvme_def)

section \<open>Properties\<close>

text \<open>
  C17: A synchronous write returns; it changes no block outside its range, and when it returns 0 the
  blocks of the range hold the buffer: cutting the transfer into commands of the maximum
  transfer size is not observable.
\<close>

theorem fla_xne_sync_seq_w_blocks:
  assumes "storage X blk" "xfer_ok (x_geo X dev)" "unat (lr_elba r) < 2 ^ 63"
    "(Suc (unat (lr_elba r)) - unat (lr_slba r)) * lbsz X dev \<le> length buf"
  shows "\<exists>err d'. fla_xne_sync_seq_w X r dev ctx buf d = Some (err, d') \<and> (reliable X dev \<longrightarrow> err = 0)
    \<and> (\<forall>dv i. \<not> (dv = dev \<and> unat (lr_slba r) \<le> i \<and> i \<le> unat (lr_elba r)) \<longrightarrow> blk d' dv i = blk d dv i)
    \<and> (err = 0 \<longrightarrow> blk d' = (\<lambda>dv i. if dv = dev \<and> unat (lr_slba r) \<le> i \<and> i \<le> unat (lr_elba r)
        then buf_block (lbsz X dev) buf (i - unat (lr_slba r)) else blk d dv i))"
  using xne_w_loop_spec [OF assms] by (simp add: fla_xne_sync_seq_w_def)

theorem fla_xne_sync_seq_w_blocks_witness:
  "\<exists>d'. fla_xne_sync_seq_w mem_xnvme (mem_range 3 20) Data_dev \<lparr>cc_dspec = 0, cc_dtype = 0\<rparr>
      (replicate 10240 1) (\<lambda>_ _. []) = Some (0, d') \<and> mem_blk d' Data_dev 5 = replicate 512 1"
proof -
  have g: "lbsz mem_xnvme Data_dev = 512" by (simp add: mem_xnvme_def mem_geo_def)
  have b: "buf_block 512 (replicate 10240 (1 :: u8)) 2 = replicate 512 1" by (simp add: buf_block_def)
  have R: "unat (lr_slba (mem_range 3 20)) = 3" "unat (lr_elba (mem_range 3 20)) = 22"
    by (simp_all add: mem_range_def)
  have "(Suc (unat (lr_elba (mem_range 3 20))) - unat (lr_slba (mem_range 3 20))) * lbsz mem_xnvme Data_dev
      \<le> length (replicate 10240 (1 :: u8))" unfolding g by (simp add: R)
  from fla_xne_sync_seq_w_blocks [OF mem_storage mem_xfer_ok _ this, unfolded R,
      of "\<lparr>cc_dspec = 0, cc_dtype = 0\<rparr>" "\<lambda>_ _. []"]
  obtain err d' where w: "fla_xne_sync_seq_w mem_xnvme (mem_range 3 20) Data_dev \<lparr>cc_dspec = 0, cc_dtype = 0\<rparr>
      (replicate 10240 1) (\<lambda>_ _. []) = Some (err, d')"
    and imp: "err = 0 \<longrightarrow> mem_blk d' = (\<lambda>dv i. if dv = Data_dev \<and> 3 \<le> i \<and> i \<le> 22
        then buf_block 512 (replicate 10240 1) (i - 3) else mem_blk (\<lambda>_ _. []) dv i)"
    and "err = 0" unfolding g using mem_reliable [of Data_dev] by (auto simp: R)
  then have "mem_blk d' Data_dev 5 = replicate 512 1" using imp b by simp
  then show ?thesis using w \<open>err = 0\<close> by blast
qed

text \<open>
  C18: A synchronous read of a range that ends below block \<open>2^63\<close>, into a buffer with room for it, is split
  into commands of at most the size the device takes. It returns, keeps the length of the buffer,
  returns 0 on a device that does not fail, and when it returns 0 the buffer holds the blocks of the
  range in their order.
\<close>

theorem fla_xne_sync_seq_r_blocks:
  assumes "storage X blk" "xfer_ok (x_geo X dev)" "unat (lr_elba r) < 2 ^ 63"
    "(Suc (unat (lr_elba r)) - unat (lr_slba r)) * lbsz X dev \<le> length buf"
  shows "\<exists>err buf'. fla_xne_sync_seq_r X r dev d buf = Some (err, buf') \<and> length buf' = length buf
    \<and> (reliable X dev \<longrightarrow> err = 0) \<and> (err = 0 \<longrightarrow> (\<forall>i. unat (lr_slba r) \<le> i \<and> i \<le> unat (lr_elba r) \<longrightarrow>
        buf_block (lbsz X dev) buf' (i - unat (lr_slba r)) = blk d dev i))"
  using xne_r_loop_spec [OF assms, of "lr_slba r" 0 d] by (auto simp: fla_xne_sync_seq_r_def)

theorem fla_xne_sync_seq_r_blocks_witness:
  "\<exists>buf'. fla_xne_sync_seq_r mem_xnvme (mem_range 3 20) Data_dev (\<lambda>_ _. [7]) (replicate 10240 1)
      = Some (0, buf') \<and> length buf' = 10240 \<and> buf_block 512 buf' 2 = mem_blk (\<lambda>_ _. [7]) Data_dev 5"
proof -
  have g: "lbsz mem_xnvme Data_dev = 512" by (simp add: mem_xnvme_def mem_geo_def)
  have R: "unat (lr_slba (mem_range 3 20)) = 3" "unat (lr_elba (mem_range 3 20)) = 22"
    by (simp_all add: mem_range_def)
  have "(Suc (unat (lr_elba (mem_range 3 20))) - unat (lr_slba (mem_range 3 20))) * lbsz mem_xnvme Data_dev
      \<le> length (replicate 10240 (1 :: u8))" unfolding g by (simp add: R)
  from fla_xne_sync_seq_r_blocks [OF mem_storage mem_xfer_ok _ this, unfolded R, of "\<lambda>_ _. [7]"]
  obtain err buf' where r: "fla_xne_sync_seq_r mem_xnvme (mem_range 3 20) Data_dev (\<lambda>_ _. [7])
      (replicate 10240 1) = Some (err, buf')" "length buf' = 10240"
    and imp: "err = 0 \<longrightarrow> (\<forall>i. 3 \<le> i \<and> i \<le> 22 \<longrightarrow>
      buf_block 512 buf' (i - 3) = mem_blk (\<lambda>_ _. [7]) Data_dev i)"
    and "err = 0" unfolding g using mem_reliable [of Data_dev] by (auto simp: R)
  then have "buf_block 512 buf' 2 = mem_blk (\<lambda>_ _. [7]) Data_dev 5"
    using imp [rule_format, of 5] by simp
  then show ?thesis using r \<open>err = 0\<close> by blast
qed

end
