(* ===== verification/Fla_Dp.thy ===== *)
theory Fla_Dp
  imports Fla_Geo Fla_Xnvme
begin

text \<open>
  \<open>src/src/flexalloc_dp.c\<close>, \<open>flexalloc_dp_noop.h\<close>, \<open>flexalloc_dp_fdp.c\<close> and the write entry
  point of \<open>flexalloc_xnvme_env.c\<close>: data placement. Before a write the file system's
  \<open>prep_ctx\<close> function may put a placement identifier into the command; with flexible data
  placement the identifiers are looked up for every write, or cached per slab, pool or object.
\<close>

section \<open>Definitions\<close>

datatype fla_xne_io_type = FLA_IO_DATA_WRITE | FLA_IO_MD_WRITE | FLA_IO_MD_READ | FLA_IO_DATA_READ

text \<open>The pointer to the data placement structure is passed beside this record.\<close>

record fla_xne_io =
  xi_io_type :: fla_xne_io_type
  xi_dev :: xdev
  xi_buf :: "u8 list"
  xi_lba_range :: lba_range
  xi_pool_handle :: "fla_pool option"
  xi_obj_handle :: "fla_object option"
  xi_prep_ctx :: "prep_fn option"

definition fla_xne_ctrl_idfy :: "'d xnvme \<Rightarrow> xdev \<Rightarrow> 'd \<Rightarrow> int \<times> u32" where
  "fla_xne_ctrl_idfy X dev d =
     (let (err, status, ctratt) = x_idfy_ctratt X dev d
      in if err \<noteq> 0 \<or> status then (if err \<noteq> 0 then err else - EIO, ctratt) else (err, ctratt))"

definition fla_xne_feat_idfy :: "'d xnvme \<Rightarrow> xdev \<Rightarrow> u32 \<Rightarrow> 'd \<Rightarrow> int \<times> u32 option" where
  "fla_xne_feat_idfy X dev endgid d =
     (let (err, status, dw0) = x_feat_fdp X dev (endgid AND 0xFFFF) d
      in if err \<noteq> 0 \<or> status then (if err \<noteq> 0 then err else - EIO, None) else (0, Some dw0))"

definition fla_xne_get_usable_pids :: "'d xnvme \<Rightarrow> xdev \<Rightarrow> u32 \<Rightarrow> 'd \<Rightarrow> int \<times> u32 list" where
  "fla_xne_get_usable_pids X dev npids d =
     (case x_buf_alloc X dev (ucast (x_sizeof_ruhs X + npids * x_sizeof_ruhs_desc X)) of
        None \<Rightarrow> (- x_errno X, [])
      | Some ruhs \<Rightarrow>
          let (err, pis) = x_ruhs X dev npids d
          in if err \<noteq> 0 then (err, []) else (err, map ucast (take (unat npids) pis)))"

definition fla_fdp_get_pid_n :: "'d xnvme \<Rightarrow> xdev \<Rightarrow> u32 \<Rightarrow> 'd \<Rightarrow> int \<times> u32 list" where
  "fla_fdp_get_pid_n X dev npid d =
     (case x_buf_alloc X dev (4 * ucast npid) of
        None \<Rightarrow> (- x_errno X, [])
      | Some pids \<Rightarrow>
          let (err, pids) = fla_xne_get_usable_pids X dev npid d
          in if err \<noteq> 0 then (err, []) else (0, take (unat npid) pids))"

definition fla_fdp_get_placement_identifier :: "fla_dp_fdp \<Rightarrow> (int \<times> fla_dp_fdp) option" where
  "fla_fdp_get_placement_identifier fdp = do {
     (err, fl) \<leftarrow> fla_flist_entries_alloc (fd_free_pids fdp) 1;
     Some (err, fdp\<lparr>fd_free_pids := fl\<rparr>)
   }"

definition fla_fdp_onwrite_md_prep_ctx :: "fla_dp_fdp \<Rightarrow> cmd_ctx \<Rightarrow> int \<times> cmd_ctx" where
  "fla_fdp_onwrite_md_prep_ctx fdp ctx = (0, ctx\<lparr>cc_dspec := ucast (fd_md_pid fdp)\<rparr>)"

definition fla_fdp_onwrite_prep_ctx :: "'d xnvme \<Rightarrow> fla_xne_io \<Rightarrow> cmd_ctx \<Rightarrow> 'd \<Rightarrow> (int \<times> cmd_ctx) option" where
  "fla_fdp_onwrite_prep_ctx X io ctx d =
     (let (err, pids) = fla_fdp_get_pid_n X (xi_dev io) 1 d
      in if err \<noteq> 0 then Some (err, ctx)
         else do {
           pid \<leftarrow> rd pids 0;
           Some (0, ctx\<lparr>cc_dspec := ucast pid, cc_dtype := 2\<rparr>)
         })"

text \<open>\<open>fla_fdp_get_id\<close>, the callback of the search; its state is the variable \<open>pid\<close>.\<close>

definition fla_fdp_get_id :: "fla_dp_fdp \<Rightarrow> u32 \<Rightarrow> u32 option flist_callback" where
  "fla_fdp_get_id fdp fla_id pid ndx = do {
     e \<leftarrow> rd (fd_pids fdp) (unat ndx);
     Some (if fla_id = pi_fla_id e then (1, Some (pi_pid e)) else (0, pid))
   }"

text \<open>The identifier of the object a write goes to; the inner \<open>None\<close> is the error.\<close>

definition fdp_fla_id :: "fla_dp_fdp \<Rightarrow> fla_xne_io \<Rightarrow> u32 option option" where
  "fdp_fla_id fdp io = (case fd_ctx_set fdp of
       FLA_DP_FDP_ON_SLAB \<Rightarrow> map_option (\<lambda>ob. Some (ob_slab_id ob)) (xi_obj_handle io)
     | FLA_DP_FDP_ON_POOL \<Rightarrow> map_option (\<lambda>p. Some (ph_ndx p)) (xi_pool_handle io)
     | FLA_DP_FDP_ON_OBJECT \<Rightarrow> map_option (\<lambda>ob. Some (ob_entry_ndx ob)) (xi_obj_handle io)
     | FLA_DP_FDP_ON_WRITE \<Rightarrow> Some None)"

definition fla_fdp_cached_prep_ctx ::
  "'d xnvme \<Rightarrow> fla_xne_io \<Rightarrow> fla_dp_fdp \<Rightarrow> cmd_ctx \<Rightarrow> 'd \<Rightarrow> (int \<times> fla_dp_fdp \<times> cmd_ctx) option" where
  "fla_fdp_cached_prep_ctx X io fdp ctx d = (case xi_io_type io of
       FLA_IO_DATA_READ \<Rightarrow> Some (0, fdp, ctx)
     | FLA_IO_MD_READ \<Rightarrow> Some (0, fdp, ctx)
     | FLA_IO_MD_WRITE \<Rightarrow> (let (err, ctx) = fla_fdp_onwrite_md_prep_ctx fdp ctx in Some (err, fdp, ctx))
     | FLA_IO_DATA_WRITE \<Rightarrow> do {
         sel \<leftarrow> fdp_fla_id fdp io;
         (case sel of
            None \<Rightarrow> Some (- EINVAL, fdp, ctx)
          | Some fla_id \<Rightarrow> do {
              (ret, found, pid) \<leftarrow> fla_flist_search_wfunc (fd_free_pids fdp) 1 (fla_fdp_get_id fdp fla_id) None;
              if ret \<noteq> 0 then Some (ret, fdp, ctx)
              else if found = Some 1
              then do {
                p \<leftarrow> pid;
                Some (0, fdp, ctx\<lparr>cc_dspec := ucast p, cc_dtype := 2\<rparr>)
              }
              else if found = Some 0
              then do {
                (ret, fl) \<leftarrow> fla_flist_entries_alloc (fd_free_pids fdp) 1;
                let fdp = fdp\<lparr>fd_free_pids := fl\<rparr>;
                if ret < 0 then Some (- ENOSPC, fdp, ctx)
                else do {
                  e \<leftarrow> rd (fd_pids fdp) (nat ret);
                  let e = e\<lparr>pi_fla_id := fla_id\<rparr>;
                  let r = fla_fdp_get_pid_n X (xi_dev io) 1 d;
                  if fst r \<noteq> 0 then Some (fst r, fdp\<lparr>fd_pids := (fd_pids fdp)[nat ret := e]\<rparr>, ctx)
                  else do {
                    p \<leftarrow> rd (snd r) 0;
                    Some (0, fdp\<lparr>fd_pids := (fd_pids fdp)[nat ret := e\<lparr>pi_pid := p\<rparr>]\<rparr>, ctx\<lparr>cc_dtype := 2\<rparr>)
                  }
                }
              }
              else Some (0, fdp, ctx\<lparr>cc_dtype := 2\<rparr>)
            })
       })"

text \<open>A call through the pointer \<open>prep_ctx\<close>; \<open>fla_dp_noop_prep_ctx\<close> and \<open>fla_noop_prep_ctx\<close> return 0.\<close>

definition run_prep_ctx ::
  "'d xnvme \<Rightarrow> prep_fn \<Rightarrow> fla_xne_io \<Rightarrow> fla_dp \<Rightarrow> cmd_ctx \<Rightarrow> 'd \<Rightarrow> (int \<times> fla_dp \<times> cmd_ctx) option" where
  "run_prep_ctx X f io dp ctx d = (case f of
       Prep_noop \<Rightarrow> Some (0, dp, ctx)
     | Prep_fdp_onwrite \<Rightarrow> do {
         (err, ctx) \<leftarrow> fla_fdp_onwrite_prep_ctx X io ctx d;
         Some (err, dp, ctx)
       }
     | Prep_fdp_cached \<Rightarrow> do {
         fdp \<leftarrow> dp_fdp dp;
         (err, fdp, ctx) \<leftarrow> fla_fdp_cached_prep_ctx X io fdp ctx d;
         Some (err, dp\<lparr>dp_fdp := Some fdp\<rparr>, ctx)
       })"

definition fla_xne_sync_seq_w_xneio ::
  "'d xnvme \<Rightarrow> fla_xne_io \<Rightarrow> fla_dp \<Rightarrow> 'd \<Rightarrow> (int \<times> fla_dp \<times> 'd) option" where
  "fla_xne_sync_seq_w_xneio X io dp d = do {
     let ctx = x_ctx_from_dev X (xi_dev io);
     (err, dp, ctx) \<leftarrow> (case xi_prep_ctx io of None \<Rightarrow> Some (0, dp, ctx)
                         | Some f \<Rightarrow> run_prep_ctx X f io dp ctx d);
     if err \<noteq> 0 then Some (err, dp, d)
     else do {
       (err, d) \<leftarrow> fla_xne_sync_seq_w X (xi_lba_range io) (xi_dev io) ctx (xi_buf io) d;
       Some (err, dp, d)
     }
   }"

text \<open>Setting up data placement.\<close>

definition fla_fdp_set_prep_ctx :: "fla_dp_fdp \<Rightarrow> prep_fn" where
  "fla_fdp_set_prep_ctx fdp =
     (case fd_ctx_set fdp of FLA_DP_FDP_ON_WRITE \<Rightarrow> Prep_fdp_onwrite | _ \<Rightarrow> Prep_fdp_cached)"

definition fla_fdp_get_max_pids :: u16 where
  "fla_fdp_get_max_pids = 60"

definition fla_fdp_init_pid_to_id :: "'d xnvme \<Rightarrow> flexalloc \<Rightarrow> fla_dp_fdp \<Rightarrow> (int \<times> fla_dp_fdp) option" where
  "fla_fdp_init_pid_to_id X fs fdp =
     (let lim = (\<lambda>n :: u32. ucast (if n < ucast fla_fdp_get_max_pids then n else ucast fla_fdp_get_max_pids) :: u16);
          cache_size = (case fd_ctx_set fdp of
              FLA_DP_FDP_ON_SLAB \<Rightarrow> Some (lim (g_nslabs (fs_geo fs)))
            | FLA_DP_FDP_ON_POOL \<Rightarrow> Some (lim (g_npools (fs_geo fs)))
            | FLA_DP_FDP_ON_OBJECT \<Rightarrow> Some fla_fdp_get_max_pids
            | FLA_DP_FDP_ON_WRITE \<Rightarrow> None)
      in case cache_size of
           None \<Rightarrow> Some (0, fdp)
         | Some n \<Rightarrow>
             if \<not> x_malloc X Malloc_pids then Some (- ENOMEM, fdp)
             else do {
               let fdp = fdp\<lparr>fd_pids := map (\<lambda>i. \<lparr>pi_pid = x_uninit X (2 * i), pi_fla_id = x_uninit X (2 * i + 1)\<rparr>) [0..<unat n]\<rparr>;
               (err, fl) \<leftarrow> fla_flist_new (x_malloc X Malloc_free_pids) (x_uninit X) (ucast n);
               Some (err, case fl of None \<Rightarrow> fdp | Some f \<Rightarrow> fdp\<lparr>fd_free_pids := f\<rparr>)
             })"

definition fla_fdp_init_md_pid :: "fla_dp_fdp \<Rightarrow> int \<times> fla_dp_fdp" where
  "fla_fdp_init_md_pid fdp = (0, fdp\<lparr>fd_md_pid := 0\<rparr>)"

definition fla_dp_fdp_init :: "'d xnvme \<Rightarrow> flexalloc \<Rightarrow> (int \<times> flexalloc) option" where
  "fla_dp_fdp_init X fs =
     (let fs = fs\<lparr>fs_dp := (fs_dp fs)\<lparr>dp_type := FLA_DP_FDP\<rparr>\<rparr>
      in if \<not> x_malloc X Malloc_fdp then Some (- ENOMEM, fs\<lparr>fs_dp := (fs_dp fs)\<lparr>dp_fdp := None\<rparr>\<rparr>)
         else do {
           let fdp = \<lparr>fd_ctx_set = FLA_DP_FDP_ON_WRITE, fd_pids = [], fd_free_pids = [], fd_md_pid = x_uninit X 0\<rparr>;
           let prep = fla_fdp_set_prep_ctx fdp;
           let (err, fdp) = fla_fdp_init_md_pid fdp;
           (err, fdp) \<leftarrow> (if err \<noteq> 0 then Some (err, fdp) else fla_fdp_init_pid_to_id X fs fdp);
           Some (err, fs\<lparr>fs_dp := \<lparr>dp_type = FLA_DP_FDP, dp_fdp = Some fdp, dp_prep = Some prep\<rparr>\<rparr>)
         })"

definition fla_dp_noop_init :: "flexalloc \<Rightarrow> int \<times> flexalloc" where
  "fla_dp_noop_init fs = (0, fs\<lparr>fs_dp := (fs_dp fs)\<lparr>dp_prep := Some Prep_noop\<rparr>\<rparr>)"

definition fla_dp_fdp_supported :: "u32 \<Rightarrow> bool" where
  "fla_dp_fdp_supported ctratt \<longleftrightarrow> ctratt AND push_bit 16 1 \<noteq> 0"

definition fla_dp_fdp_enabled :: "u32 \<Rightarrow> bool" where
  "fla_dp_fdp_enabled dw0 \<longleftrightarrow> dw0 AND push_bit 0 1 \<noteq> 0"

text \<open>\<open>fla_dp_type\<close>: the second component is \<open>None\<close> when the variable is not written.\<close>

definition fla_dp_type :: "'d xnvme \<Rightarrow> 'd \<Rightarrow> int \<times> fla_dp_t option" where
  "fla_dp_type X d =
     (let (err, ctratt) = fla_xne_ctrl_idfy X Data_dev d
      in if err \<noteq> 0 then (err, None)
         else if fla_dp_fdp_supported ctratt
         then (case x_ns_endgid X Data_dev of
                 None \<Rightarrow> (1, None)
               | Some endgid \<Rightarrow>
                   let (err, dw0) = fla_xne_feat_idfy X Data_dev (ucast endgid) d
                   in if err \<noteq> 0 then (err, None)
                      else (0, Some (case dw0 of
                               Some w \<Rightarrow> if fla_dp_fdp_enabled w then FLA_DP_FDP else FLA_DP_DEFAULT
                             | None \<Rightarrow> FLA_DP_DEFAULT)))
         else (0, Some FLA_DP_DEFAULT))"

definition fla_init_dp :: "'d xnvme \<Rightarrow> 'd \<Rightarrow> flexalloc \<Rightarrow> (int \<times> flexalloc) option" where
  "fla_init_dp X d fs =
     (let (err, t) = fla_dp_type X d;
          fs = (case t of None \<Rightarrow> fs | Some t \<Rightarrow> fs\<lparr>fs_dp := (fs_dp fs)\<lparr>dp_type := t\<rparr>\<rparr>)
      in if err \<noteq> 0 then Some (err, fs)
         else (case dp_type (fs_dp fs) of
                 FLA_DP_FDP \<Rightarrow> fla_dp_fdp_init X fs
               | FLA_DP_DEFAULT \<Rightarrow> Some (fla_dp_noop_init fs)
               | FLA_DP_ZNS \<Rightarrow> Some (1, fs)))"

section \<open>Writes\<close>

lemma w_xneio_plain:
  assumes "xi_prep_ctx io = None \<or> xi_prep_ctx io = Some Prep_noop"
  shows "fla_xne_sync_seq_w_xneio X io dp d =
    map_option (\<lambda>(err, d). (err, dp, d))
      (fla_xne_sync_seq_w X (xi_lba_range io) (xi_dev io) (x_ctx_from_dev X (xi_dev io)) (xi_buf io) d)"
  using assms by (auto simp: fla_xne_sync_seq_w_xneio_def run_prep_ctx_def map_option_case split: option.split)

lemma seq_w_blocks:
  assumes "storage X blk" "xfer_ok (x_geo X dev)" "unat (lr_elba r) < 2 ^ 63"
    "(Suc (unat (lr_elba r)) - unat (lr_slba r)) * lbsz X dev \<le> length buf"
  shows "\<exists>err d'. fla_xne_sync_seq_w X r dev ctx buf d = Some (err, d') \<and> (reliable X dev \<longrightarrow> err = 0)
    \<and> (\<forall>dv i. \<not> (dv = dev \<and> unat (lr_slba r) \<le> i \<and> i \<le> unat (lr_elba r)) \<longrightarrow> blk d' dv i = blk d dv i)
    \<and> (err = 0 \<longrightarrow> blk d' = (\<lambda>dv i. if dv = dev \<and> unat (lr_slba r) \<le> i \<and> i \<le> unat (lr_elba r)
        then buf_block (lbsz X dev) buf (i - unat (lr_slba r)) else blk d dv i))"
  using xne_w_loop_spec [OF assms] by (simp add: fla_xne_sync_seq_w_def)

text \<open>Whatever the placement, a write that returns 0 has stored its buffer and nothing else.\<close>

lemma w_xneio_blocks:
  assumes "storage X blk" "xfer_ok (x_geo X (xi_dev io))" "unat (lr_elba (xi_lba_range io)) < 2 ^ 63"
    "(Suc (unat (lr_elba (xi_lba_range io))) - unat (lr_slba (xi_lba_range io))) * lbsz X (xi_dev io)
      \<le> length (xi_buf io)"
    "fla_xne_sync_seq_w_xneio X io dp d = Some (0, dp', d')"
  shows "blk d' = (\<lambda>dv i. if dv = xi_dev io \<and> unat (lr_slba (xi_lba_range io)) \<le> i \<and> i \<le> unat (lr_elba (xi_lba_range io))
    then buf_block (lbsz X (xi_dev io)) (xi_buf io) (i - unat (lr_slba (xi_lba_range io))) else blk d dv i)"
proof -
  from assms(5) obtain ctx where "fla_xne_sync_seq_w X (xi_lba_range io) (xi_dev io) ctx (xi_buf io) d = Some (0, d')"
    by (auto simp: fla_xne_sync_seq_w_xneio_def Let_def bind_eq_Some_conv split: if_splits option.splits)
  with seq_w_blocks [OF assms(1-4), of ctx d] show ?thesis by auto
qed

section \<open>The cache of placement identifiers\<close>

text \<open>
  The cache entries in use that belong to an identifier. The search does not see the last word of a
  freelist whose length is a multiple of 32, so that what it finds are these entries only for other
  lengths; of the lengths that the code creates, which are at most 60, this concerns 32.
\<close>

definition fdp_slots :: "fla_dp_fdp \<Rightarrow> u32 \<Rightarrow> nat list" where
  "fdp_slots fdp fla_id = filter (\<lambda>k. k \<notin> flist_free (fd_free_pids fdp) \<and> pi_fla_id (fd_pids fdp ! k) = fla_id)
     [0..<flist_cap (fd_free_pids fdp)]"

lemma search_get_id:
  assumes "\<forall>k\<in>set ks. k < length (fd_pids fdp) \<and> k < 2 ^ 32"
  shows "search_seq (fla_fdp_get_id fdp fla_id) ks n pid =
    Some (Search_Next (n + of_nat (length (filter (\<lambda>k. pi_fla_id (fd_pids fdp ! k) = fla_id) ks)))
      (fold (\<lambda>k p. if pi_fla_id (fd_pids fdp ! k) = fla_id then Some (pi_pid (fd_pids fdp ! k)) else p) ks pid))"
  using assms by (induction ks arbitrary: n pid) (auto simp: fla_fdp_get_id_def unat_of_nat_small)

lemma fold_unique:
  assumes "filter P ks = [k]"
  shows "fold (\<lambda>k p. if P k then Some (g k) else p) ks q = Some (g k)"
proof -
  have none: "fold (\<lambda>k p. if P k then Some (g k) else p) xs q = q" if "filter P xs = []" for xs q
    using that by (induction xs) (auto split: if_splits)
  show ?thesis using assms by (induction ks arbitrary: q) (auto simp: none split: if_splits)
qed

definition fdp_ok :: "fla_dp_fdp \<Rightarrow> bool" where
  "fdp_ok fdp \<longleftrightarrow> flist_inv (fd_free_pids fdp) \<and> flist_cap (fd_free_pids fdp) \<le> length (fd_pids fdp)"

lemma fdp_search:
  assumes "fdp_ok fdp" "flist_cap (fd_free_pids fdp) mod 32 \<noteq> 0"
  shows "\<exists>pid. fla_flist_search_wfunc (fd_free_pids fdp) 1 (fla_fdp_get_id fdp fla_id) None
      = Some (0, Some (of_nat (length (fdp_slots fdp fla_id))), pid)
    \<and> (\<forall>k. fdp_slots fdp fla_id = [k] \<longrightarrow> pid = Some (pi_pid (fd_pids fdp ! k)))"
proof -
  let ?f = "fd_free_pids fdp"
  let ?ks = "filter (\<lambda>k. k \<notin> flist_free ?f) [0..<flist_search_bound (flist_cap ?f)]"
  have b: "flist_search_bound (flist_cap ?f) = flist_cap ?f" using assms(2) by (simp add: flist_search_bound_eq)
  have ks: "\<forall>k\<in>set ?ks. k < length (fd_pids fdp) \<and> k < 2 ^ 32"
    using assms(1) b by (auto simp: fdp_ok_def flist_inv_def)
  have slots: "fdp_slots fdp fla_id = filter (\<lambda>k. pi_fla_id (fd_pids fdp ! k) = fla_id) ?ks"
    by (simp add: fdp_slots_def b conj_commute)
  have "flist_inv ?f" using assms(1) by (simp add: fdp_ok_def)
  from fla_flist_search_wfunc_run [OF this, of 1 "fla_fdp_get_id fdp fla_id" None] search_get_id [OF ks, of fla_id 0 None]
  have "fla_flist_search_wfunc ?f 1 (fla_fdp_get_id fdp fla_id) None = Some (0, Some (of_nat (length (fdp_slots fdp fla_id))),
      fold (\<lambda>k p. if pi_fla_id (fd_pids fdp ! k) = fla_id then Some (pi_pid (fd_pids fdp ! k)) else p) ?ks None)"
    unfolding slots by (simp only: bind.bind_lunit search_step.case) simp
  then show ?thesis
    using fold_unique [of "\<lambda>k. pi_fla_id (fd_pids fdp ! k) = fla_id" ?ks _ "\<lambda>k. pi_pid (fd_pids fdp ! k)" None]
    unfolding slots by blast
qed

section \<open>Properties\<close>

definition fdp_example :: fla_dp_fdp where
  "fdp_example = \<lparr>fd_ctx_set = FLA_DP_FDP_ON_POOL,
     fd_pids = [\<lparr>pi_pid = 5, pi_fla_id = 9\<rparr>, \<lparr>pi_pid = 6, pi_fla_id = 3\<rparr>, \<lparr>pi_pid = 7, pi_fla_id = 2\<rparr>,
                \<lparr>pi_pid = 8, pi_fla_id = 1\<rparr>, \<lparr>pi_pid = 9, pi_fla_id = 0\<rparr>],
     fd_free_pids = [5, 18], fd_md_pid = 0\<rparr>"

lemma fdp_example_ok: "fdp_ok fdp_example" "fdp_slots fdp_example 2 = [2]" "fdp_slots fdp_example 3 = []"
  "fd_ctx_set fdp_example = FLA_DP_FDP_ON_POOL" "fd_pids fdp_example ! 2 = \<lparr>pi_pid = 7, pi_fla_id = 2\<rparr>"
  "flist_free (fd_free_pids fdp_example) = {1, 4}" "flist_cap (fd_free_pids fdp_example) mod 32 \<noteq> 0"
  by (simp_all add: fdp_ok_def fdp_example_def fdp_slots_def flist_example upt_rec)

definition io_example :: "u32 \<Rightarrow> fla_xne_io" where
  "io_example p = \<lparr>xi_io_type = FLA_IO_DATA_WRITE, xi_dev = Data_dev, xi_buf = replicate 512 1,
     xi_lba_range = mem_range 0 1, xi_pool_handle = Some \<lparr>ph_h2 = 0, ph_ndx = p\<rparr>,
     xi_obj_handle = Some \<lparr>ob_slab_id = 0, ob_entry_ndx = 0\<rparr>, xi_prep_ctx = Some Prep_fdp_cached\<rparr>"

text \<open>
  C35: With cached placement, for a cache whose number of entries is not a multiple of 32: a data write
  whose pool, slab or object has exactly one cache entry in use gets the placement identifier of
  that entry, and the cache does not change. For 32 entries this fails, as \<open>fdp_cached_not_found\<close> shows.
\<close>

theorem fla_fdp_cached_prep_ctx_hit:
  assumes "fdp_ok fdp" "flist_cap (fd_free_pids fdp) mod 32 \<noteq> 0" "xi_io_type io = FLA_IO_DATA_WRITE" "fdp_fla_id fdp io = Some (Some fla_id)"
    "fdp_slots fdp fla_id = [k]"
  shows "fla_fdp_cached_prep_ctx X io fdp ctx d =
    Some (0, fdp, ctx\<lparr>cc_dspec := ucast (pi_pid (fd_pids fdp ! k)), cc_dtype := 2\<rparr>)"
  using assms(3-5) fdp_search [OF assms(1,2), of fla_id] by (auto simp: fla_fdp_cached_prep_ctx_def)

theorem fla_fdp_cached_prep_ctx_hit_witness:
  "fla_fdp_cached_prep_ctx mem_xnvme (io_example 2) fdp_example \<lparr>cc_dspec = 0, cc_dtype = 0\<rparr> (\<lambda>_ _. [])
    = Some (0, fdp_example, \<lparr>cc_dspec = 7, cc_dtype = 2\<rparr>)"
proof -
  have id: "fdp_fla_id fdp_example (io_example 2) = Some (Some 2)"
    by (simp add: fdp_fla_id_def fdp_example_ok io_example_def)
  have "xi_io_type (io_example 2) = FLA_IO_DATA_WRITE" by (simp add: io_example_def)
  from fla_fdp_cached_prep_ctx_hit [OF fdp_example_ok(1,7) this id fdp_example_ok(2), of mem_xnvme
      "\<lparr>cc_dspec = 0, cc_dtype = 0\<rparr>" "\<lambda>_ _. []"]
  show ?thesis by (simp add: fdp_example_ok)
qed

text \<open>
  When nothing is cached for the identifier and an entry is free, the first free entry is
  taken and filled with the identifier and a placement identifier of the device. The command of
  this first write carries the directive type but not the placement identifier.
\<close>

theorem fla_fdp_cached_prep_ctx_miss:
  assumes "fdp_ok fdp" "xi_io_type io = FLA_IO_DATA_WRITE" "fdp_fla_id fdp io = Some (Some fla_id)"
    "fdp_slots fdp fla_id = []" "flist_free (fd_free_pids fdp) \<noteq> {}"
    "fla_fdp_get_pid_n X (xi_dev io) 1 d = (0, [p])" "flist_cap (fd_free_pids fdp) mod 32 \<noteq> 0"
  shows "\<exists>fdp'. fla_fdp_cached_prep_ctx X io fdp ctx d = Some (0, fdp', ctx\<lparr>cc_dtype := 2\<rparr>) \<and> fdp_ok fdp'
    \<and> flist_free (fd_free_pids fdp') = flist_free (fd_free_pids fdp) - {Min (flist_free (fd_free_pids fdp))}
    \<and> fd_pids fdp' = (fd_pids fdp)[Min (flist_free (fd_free_pids fdp)) := \<lparr>pi_pid = p, pi_fla_id = fla_id\<rparr>]"
proof -
  let ?m = "Min (flist_free (fd_free_pids fdp))"
  have inv: "flist_inv (fd_free_pids fdp)" using assms(1) by (simp add: fdp_ok_def)
  have m: "?m < flist_cap (fd_free_pids fdp)" using assms(5) flist_free_Min(1) [OF inv] by simp
  then have lt: "?m < length (fd_pids fdp)" using assms(1) by (simp add: fdp_ok_def)
  have al: "fla_flist_entries_alloc (fd_free_pids fdp) 1 = Some (int ?m, flist_clear (fd_free_pids fdp) ?m)"
    using fla_flist_entries_alloc_one [OF inv] assms(5) by simp
  obtain pid where se: "fla_flist_search_wfunc (fd_free_pids fdp) 1 (fla_fdp_get_id fdp fla_id) None = Some (0, Some 0, pid)"
    using fdp_search [OF assms(1,7), of fla_id] assms(4) by auto
  have upd: "e\<lparr>pi_fla_id := fla_id, pi_pid := p\<rparr> = \<lparr>pi_pid = p, pi_fla_id = fla_id\<rparr>" for e :: fla_dp_fdp_pid_to_id
    by (cases e) simp
  show ?thesis
    using assms(1,2,3,6) lt al se flist_inv_clear [OF inv m] flist_free_clear [OF inv m]
    by (simp add: fla_fdp_cached_prep_ctx_def fdp_ok_def Let_def upd)
qed

theorem fla_fdp_cached_prep_ctx_miss_witness:
  "\<exists>fdp'. fla_fdp_cached_prep_ctx mem_xnvme (io_example 3) fdp_example \<lparr>cc_dspec = 0, cc_dtype = 0\<rparr> (\<lambda>_ _. [])
    = Some (0, fdp', \<lparr>cc_dspec = 0, cc_dtype = 2\<rparr>) \<and> flist_free (fd_free_pids fdp') = {4}"
proof -
  have id: "fdp_fla_id fdp_example (io_example 3) = Some (Some 3)" "xi_io_type (io_example 3) = FLA_IO_DATA_WRITE"
    by (simp_all add: fdp_fla_id_def fdp_example_ok io_example_def)
  have p: "fla_fdp_get_pid_n mem_xnvme (xi_dev (io_example 3)) 1 (\<lambda>_ _. []) = (0, [0])"
    by (simp add: fla_fdp_get_pid_n_def fla_xne_get_usable_pids_def mem_xnvme_def)
  have "{1, 4} - {Min {1, 4 :: nat}} = {4}" by auto
  with fla_fdp_cached_prep_ctx_miss [OF fdp_example_ok(1) id(2,1) fdp_example_ok(3) _ p fdp_example_ok(7), of "\<lparr>cc_dspec = 0, cc_dtype = 0\<rparr>"]
  show ?thesis unfolding fdp_example_ok by auto
qed

text \<open>
  With 32 entries nothing is found, whatever is cached: each write takes another entry for its
  identifier, and when all are taken it fails.
\<close>

lemma fdp_cached_not_found:
  assumes "fdp_ok fdp" "flist_cap (fd_free_pids fdp) = 32" "xi_io_type io = FLA_IO_DATA_WRITE"
    "fdp_fla_id fdp io = Some (Some fla_id)" "flist_free (fd_free_pids fdp) = {}"
  shows "fla_fdp_cached_prep_ctx X io fdp ctx d = Some (- ENOSPC, fdp, ctx)"
proof -
  have inv: "flist_inv (fd_free_pids fdp)" using assms(1) by (simp add: fdp_ok_def)
  have "fla_flist_search_wfunc (fd_free_pids fdp) 1 (fla_fdp_get_id fdp fla_id) None = Some (0, Some 0, None)"
    using fla_flist_search_wfunc_run [OF inv, of 1 "fla_fdp_get_id fdp fla_id" None] assms(2) by (simp add: flist_search_bound_eq)
  moreover have "fla_flist_entries_alloc (fd_free_pids fdp) 1 = Some (-1, fd_free_pids fdp)"
    using fla_flist_entries_alloc_one [OF inv] assms(5) by simp
  ultimately show ?thesis using assms(3,4) by (simp add: fla_fdp_cached_prep_ctx_def Let_def)
qed

end
