(* ===== verification/Fla_Bytes.thy ===== *)
theory Fla_Bytes
  imports Fla_Prelude
begin

text \<open>
  The layout of machine words in memory and on disk, least significant byte first. An I/O
  buffer that the code reads through a pointer to 32-bit words is turned into the list of its
  words by \<open>words_of\<close> and back by \<open>bytes_of\<close>.
\<close>

definition le_bytes :: "u32 \<Rightarrow> u8 list" where
  "le_bytes w = [ucast w, ucast (drop_bit 8 w), ucast (drop_bit 16 w), ucast (drop_bit 24 w)]"

definition le_word :: "u8 \<Rightarrow> u8 \<Rightarrow> u8 \<Rightarrow> u8 \<Rightarrow> u32" where
  "le_word a b c d = ucast a OR push_bit 8 (ucast b) OR push_bit 16 (ucast c) OR push_bit 24 (ucast d)"

fun words_of :: "u8 list \<Rightarrow> u32 list" where
  "words_of (a # b # c # d # xs) = le_word a b c d # words_of xs"
| "words_of xs = []"

definition bytes_of :: "u32 list \<Rightarrow> u8 list" where
  "bytes_of ws = concat (map le_bytes ws)"

lemma bit_ucast_u8: "bit (ucast (w :: u32) :: u8) n \<longleftrightarrow> n < 8 \<and> bit w n"
  by (auto simp: bit_ucast_iff)

lemma bit_ucast_u32: "bit (ucast (w :: u8) :: u32) n \<longleftrightarrow> n < 8 \<and> bit w n"
  using bit_imp_le_length [of w n] by (auto simp: bit_ucast_iff)

lemmas le_bit = bit_ucast_u8 bit_ucast_u32 bit_drop_bit_eq bit_push_bit_iff bit_or_iff

lemma le_word_bytes: "le_word (ucast w) (ucast (drop_bit 8 w)) (ucast (drop_bit 16 w)) (ucast (drop_bit 24 w)) = w"
proof (rule bit_word_eqI)
  fix n assume "n < LENGTH(32)"
  then have "n < 8 \<or> 8 \<le> n \<and> n < 16 \<or> 16 \<le> n \<and> n < 24 \<or> 24 \<le> n \<and> n < 32" by auto
  then show "bit (le_word (ucast w) (ucast (drop_bit 8 w)) (ucast (drop_bit 16 w)) (ucast (drop_bit 24 w))) n = bit w n"
    unfolding le_word_def by (auto simp: le_bit)
qed

lemma le_bytes_word: "le_bytes (le_word a b c d) = [a, b, c, d]"
proof -
  have "ucast (le_word a b c d) = a" by (rule bit_word_eqI) (auto simp: le_word_def le_bit)
  moreover have "ucast (drop_bit 8 (le_word a b c d)) = b"
    by (rule bit_word_eqI) (use bit_imp_le_length [of a] in \<open>fastforce simp: le_word_def le_bit\<close>)
  moreover have "ucast (drop_bit 16 (le_word a b c d)) = c"
    by (rule bit_word_eqI) (use bit_imp_le_length [of b] in \<open>fastforce simp: le_word_def le_bit\<close>)
  moreover have "ucast (drop_bit 24 (le_word a b c d)) = d"
    by (rule bit_word_eqI) (use bit_imp_le_length [of c] in \<open>fastforce simp: le_word_def le_bit\<close>)
  ultimately show ?thesis by (simp add: le_bytes_def)
qed

lemma words_of_bytes_of [simp]: "words_of (bytes_of ws) = ws"
  by (induction ws) (simp_all add: bytes_of_def le_bytes_def le_word_bytes)

lemma length_bytes_of [simp]: "length (bytes_of ws) = 4 * length ws"
  by (induction ws) (simp_all add: bytes_of_def le_bytes_def)

lemma bytes_of_words_of: "4 dvd length bs \<Longrightarrow> bytes_of (words_of bs) = bs"
proof (induction bs rule: words_of.induct)
  case (1 a b c d xs)
  have "length (a # b # c # d # xs) = length xs + 4" by simp
  then have "4 dvd length xs" using "1.prems" dvd_add_triv_right_iff by metis
  then show ?case using "1.IH" by (simp add: bytes_of_def le_bytes_word)
qed (auto simp: bytes_of_def dest: dvd_imp_le)

lemma length_words_of: "length (words_of bs) = length bs div 4"
  by (induction bs rule: words_of.induct) simp_all

end
