(* ===== verification/Fla_Slabcache.thy ===== *)
theory Fla_Slabcache
  imports Fla_Dp Fla_Linked_List Fla_Bytes
begin

text \<open>
  \<open>src/src/flexalloc_slabcache.c\<close>: the cache of slab freelists. An element is stale, dirty or
  clean; it is created for a slab that a pool acquires or loaded from the blocks at the end of
  the slab, changed by allocations and releases of objects, and written back by a flush.

  The freelist of an element lives in an I/O buffer of whole blocks; the model keeps the buffer
  as its 32-bit words and turns it into bytes for the transfer.
\<close>

section \<open>Definitions\<close>

definition cache_flist_size :: "flexalloc \<Rightarrow> u32 \<Rightarrow> u64" where
  "cache_flist_size fs flist_len = fla_slab_cache_flist_nlb fs flist_len * ucast (g_lb_nbytes (fs_geo fs))"

definition cache_entry_lb_slba :: "flexalloc \<Rightarrow> u32 \<Rightarrow> u32 \<Rightarrow> u64 option" where
  "cache_entry_lb_slba fs slab_id flist_nlb =
     (if dv_md_dev (fs_dev fs) then Some (fla_geo_slabs_lb_off (fs_geo fs) + ucast slab_id)
      else do {
        off \<leftarrow> fla_geo_slab_lb_off fs slab_id;
        Some (off + ucast (su_slab_nlb (fs_super fs)) - ucast flist_nlb)
      })"

text \<open>The device that holds the metadata.\<close>

definition cache_dev :: "flexalloc \<Rightarrow> xdev" where
  "cache_dev fs = (if dv_md_dev (fs_dev fs) then Md_dev else Data_dev)"

definition get_elem :: "flexalloc \<Rightarrow> u32 \<Rightarrow> fla_slab_flist_cache_elem option" where
  "get_elem fs slab_id = do {
     c \<leftarrow> fs_slab_cache fs;
     rd c (unat slab_id)
   }"

definition put_elem :: "flexalloc \<Rightarrow> u32 \<Rightarrow> fla_slab_flist_cache_elem \<Rightarrow> flexalloc" where
  "put_elem fs slab_id e = fs\<lparr>fs_slab_cache := map_option (\<lambda>c. c[unat slab_id := e]) (fs_slab_cache fs)\<rparr>"

definition fla_slab_cache_init :: "'d xnvme \<Rightarrow> flexalloc \<Rightarrow> int \<times> flexalloc" where
  "fla_slab_cache_init X fs =
     (if fs_slab_cache fs \<noteq> None then (- EINVAL, fs)
      else if \<not> x_malloc X Malloc_slab_cache then (- ENOMEM, fs)
      else (0, fs\<lparr>fs_slab_cache := Some (replicate (unat (su_nslabs (fs_super fs)))
                   \<lparr>ce_freelist = None, ce_state = FLA_SLAB_CACHE_ELEM_STALE\<rparr>)\<rparr>))"

text \<open>\<open>fla_slab_cache_free\<close> visits as many elements as the geometry has slabs.\<close>

definition fla_slab_cache_free :: "flexalloc \<Rightarrow> flexalloc option" where
  "fla_slab_cache_free fs = (case fs_slab_cache fs of
       None \<Rightarrow> Some fs
     | Some c \<Rightarrow> if length c < unat (g_nslabs (fs_geo fs)) then None else Some (fs\<lparr>fs_slab_cache := None\<rparr>))"

definition fla_slab_cache_elem_init ::
  "'d xnvme \<Rightarrow> flexalloc \<Rightarrow> u32 \<Rightarrow> u32 \<Rightarrow> (int \<times> flexalloc) option" where
  "fla_slab_cache_elem_init X fs slab_id flist_len = do {
     e \<leftarrow> get_elem fs slab_id;
     if ce_state e \<noteq> FLA_SLAB_CACHE_ELEM_STALE then Some (FLA_SLAB_CACHE_INVALID_STATE, fs)
     else (case x_buf_alloc X Data_dev (cache_flist_size fs flist_len) of
             None \<Rightarrow> Some (- ENOMEM, fs)
           | Some buf \<Rightarrow> do {
               flist \<leftarrow> fla_flist_init (words_of buf) flist_len;
               Some (0, put_elem fs slab_id \<lparr>ce_freelist = Some flist, ce_state = FLA_SLAB_CACHE_ELEM_DIRTY\<rparr>)
             })
   }"

definition fla_slab_cache_elem_load ::
  "'d xnvme \<Rightarrow> flexalloc \<Rightarrow> u32 \<Rightarrow> u32 \<Rightarrow> 'd \<Rightarrow> (int \<times> flexalloc) option" where
  "fla_slab_cache_elem_load X fs slab_id flist_len d = do {
     e \<leftarrow> get_elem fs slab_id;
     let md_dev = cache_dev fs;
     if ce_state e \<noteq> FLA_SLAB_CACHE_ELEM_STALE then Some (FLA_SLAB_CACHE_INVALID_STATE, fs)
     else (case x_buf_alloc X Data_dev (cache_flist_size fs flist_len) of
             None \<Rightarrow> Some (- ENOMEM, fs)
           | Some buf \<Rightarrow> do {
               let flist_nlb = fla_slab_cache_flist_nlb fs flist_len;
               if dv_md_dev (fs_dev fs) \<and> flist_nlb > 1 then Some (0, fs)
               else do {
                 slba \<leftarrow> cache_entry_lb_slba fs slab_id (ucast flist_nlb);
                 let range = x_range_from_slba X md_dev slba flist_nlb;
                 if \<not> lr_is_valid range then Some (1, fs)
                 else do {
                   (err, buf) \<leftarrow> fla_xne_sync_seq_r_xneio X range md_dev d buf;
                   if err \<noteq> 0 then Some (err, fs)
                   else do {
                     len \<leftarrow> fla_flist_len (words_of buf);
                     if len \<noteq> flist_len then Some (1, fs)
                     else Some (0, put_elem fs slab_id
                            \<lparr>ce_freelist = Some (words_of buf), ce_state = FLA_SLAB_CACHE_ELEM_CLEAN\<rparr>)
                   }
                 }
               }
             })
   }"

definition fla_slab_cache_elem_flush ::
  "'d xnvme \<Rightarrow> flexalloc \<Rightarrow> u32 \<Rightarrow> 'd \<Rightarrow> (int \<times> flexalloc \<times> 'd) option" where
  "fla_slab_cache_elem_flush X fs slab_id d = do {
     let md_dev = cache_dev fs;
     e \<leftarrow> get_elem fs slab_id;
     if ce_state e \<noteq> FLA_SLAB_CACHE_ELEM_DIRTY then Some (0, fs, d)
     else do {
       flist \<leftarrow> ce_freelist e;
       len \<leftarrow> fla_flist_len flist;
       let flist_nlb = fla_slab_cache_flist_nlb fs len;
       slba \<leftarrow> cache_entry_lb_slba fs slab_id (ucast flist_nlb);
       let range = fla_xne_lba_range_from_slba_naddrs X md_dev slba flist_nlb;
       if \<not> lr_is_valid range then Some (1, fs, d)
       else do {
         (err, dp, d) \<leftarrow> fla_xne_sync_seq_w_xneio X
           \<lparr>xi_io_type = FLA_IO_DATA_WRITE, xi_dev = md_dev, xi_buf = bytes_of flist, xi_lba_range = range,
            xi_pool_handle = None, xi_obj_handle = None, xi_prep_ctx = None\<rparr> (fs_dp fs) d;
         let fs = fs\<lparr>fs_dp := dp\<rparr>;
         if err \<noteq> 0 then Some (err, fs, d)
         else Some (0, put_elem fs slab_id (e\<lparr>ce_state := FLA_SLAB_CACHE_ELEM_CLEAN\<rparr>), d)
       }
     }
   }"

definition fla_slab_cache_elem_drop :: "flexalloc \<Rightarrow> u32 \<Rightarrow> flexalloc option" where
  "fla_slab_cache_elem_drop fs slab_id = do {
     e \<leftarrow> get_elem fs slab_id;
     Some (put_elem fs slab_id \<lparr>ce_freelist = None, ce_state = FLA_SLAB_CACHE_ELEM_STALE\<rparr>)
   }"

text \<open>\<open>fla_slab_cache_obj_alloc\<close>: the object is \<open>None\<close> when it is not written.\<close>

definition fla_slab_cache_obj_alloc ::
  "flexalloc \<Rightarrow> u32 \<Rightarrow> u32 \<Rightarrow> (int \<times> flexalloc \<times> fla_object option) option" where
  "fla_slab_cache_obj_alloc fs slab_id num_objs = do {
     e \<leftarrow> get_elem fs slab_id;
     if ce_state e = FLA_SLAB_CACHE_ELEM_STALE then Some (FLA_SLAB_CACHE_INVALID_STATE, fs, None)
     else do {
       flist \<leftarrow> ce_freelist e;
       (entry_ndx, flist) \<leftarrow> fla_flist_entries_alloc flist num_objs;
       if entry_ndx < 0 then Some (1, put_elem fs slab_id (e\<lparr>ce_freelist := Some flist\<rparr>), None)
       else Some (0, put_elem fs slab_id \<lparr>ce_freelist = Some flist, ce_state = FLA_SLAB_CACHE_ELEM_DIRTY\<rparr>,
                  Some \<lparr>ob_slab_id = slab_id, ob_entry_ndx = of_int entry_ndx\<rparr>)
     }
   }"

definition fla_slab_cache_obj_free :: "flexalloc \<Rightarrow> fla_object \<Rightarrow> u32 \<Rightarrow> (int \<times> flexalloc) option" where
  "fla_slab_cache_obj_free fs obj_id num_objs = do {
     e \<leftarrow> get_elem fs (ob_slab_id obj_id);
     if ce_state e = FLA_SLAB_CACHE_ELEM_STALE then Some (FLA_SLAB_CACHE_INVALID_STATE, fs)
     else do {
       flist \<leftarrow> ce_freelist e;
       (err, flist) \<leftarrow> fla_flist_entries_free flist (ob_entry_ndx obj_id) num_objs;
       Some (err, put_elem fs (ob_slab_id obj_id)
         \<lparr>ce_freelist = Some flist, ce_state = (if err \<noteq> 0 then ce_state e else FLA_SLAB_CACHE_ELEM_DIRTY)\<rparr>)
     }
   }"

fun cache_flush_loop :: "'d xnvme \<Rightarrow> flexalloc \<Rightarrow> nat \<Rightarrow> nat \<Rightarrow> int \<Rightarrow> 'd \<Rightarrow> (int \<times> flexalloc \<times> 'd) option" where
  "cache_flush_loop X fs slab_id 0 err d = Some (err, fs, d)"
| "cache_flush_loop X fs slab_id (Suc left) err d = do {
     (r, fs, d) \<leftarrow> fla_slab_cache_elem_flush X fs (of_nat slab_id) d;
     cache_flush_loop X fs (Suc slab_id) left (if r \<noteq> 0 then err + 1 else err) d
   }"

definition fla_slab_cache_flush :: "'d xnvme \<Rightarrow> flexalloc \<Rightarrow> 'd \<Rightarrow> (int \<times> flexalloc \<times> 'd) option" where
  "fla_slab_cache_flush X fs d =
     (if fs_slab_cache fs = None then Some (0, fs, d)
      else cache_flush_loop X fs 0 (unat (g_nslabs (fs_geo fs))) 0 d)"

section \<open>Elements\<close>

lemma put_elem_fields [fs_fields]:
  "fs_slabs (put_elem fs i e) = fs_slabs fs" "fs_geo (put_elem fs i e) = fs_geo fs"
  "fs_pools (put_elem fs i e) = fs_pools fs" "fs_dev (put_elem fs i e) = fs_dev fs"
  "fs_state (put_elem fs i e) = fs_state fs" "fs_super (put_elem fs i e) = fs_super fs"
  "fs_dp (put_elem fs i e) = fs_dp fs" "fs_cs (put_elem fs i e) = fs_cs fs"
  "fs_slab_cache (put_elem fs i e) = map_option (\<lambda>c. c[unat i := e]) (fs_slab_cache fs)"
  by (simp_all add: put_elem_def)

lemma get_put_elem:
  assumes "get_elem fs i = Some e"
  shows "get_elem (put_elem fs i e') j = (if j = i then Some e' else get_elem fs j)"
  using assms by (auto simp: get_elem_def put_elem_def rd_def bind_eq_Some_conv split: bind_splits if_splits)

lemma get_elem_cong: "fs_slab_cache fs' = fs_slab_cache fs \<Longrightarrow> get_elem fs' i = get_elem fs i"
  by (simp add: get_elem_def)

text \<open>A fresh buffer has the size asked for.\<close>

definition bufs :: "'d xnvme \<Rightarrow> bool" where
  "bufs X \<longleftrightarrow> (\<forall>dev n b. x_buf_alloc X dev n = Some b \<longrightarrow> length b = unat n)"

lemma bufs_length: "bufs X \<Longrightarrow> x_buf_alloc X dev n = Some b \<Longrightarrow> length b = unat n"
  by (simp add: bufs_def)

lemma mem_bufs: "bufs mem_xnvme"
  by (simp add: bufs_def mem_xnvme_def)

abbreviation lb_of :: "flexalloc \<Rightarrow> nat" where
  "lb_of fs \<equiv> unat (g_lb_nbytes (fs_geo fs))"

text \<open>The words of a buffer of whole blocks for a freelist of \<open>n\<close> entries.\<close>

definition flist_fits :: "flexalloc \<Rightarrow> freelist \<Rightarrow> bool" where
  "flist_fits fs f \<longleftrightarrow> flist_inv f \<and> 4 * length f = flist_blocks (lb_of fs) (flist_cap f) * lb_of fs"

definition elem_ok :: "flexalloc \<Rightarrow> fla_slab_flist_cache_elem \<Rightarrow> bool" where
  "elem_ok fs e \<longleftrightarrow> (if ce_state e = FLA_SLAB_CACHE_ELEM_STALE then ce_freelist e = None
     else \<exists>f. ce_freelist e = Some f \<and> flist_fits fs f)"

lemma elem_okD:
  assumes "elem_ok fs e" "ce_state e \<noteq> FLA_SLAB_CACHE_ELEM_STALE"
  obtains f where "ce_freelist e = Some f" "flist_fits fs f" "flist_inv f"
  using assms by (auto simp: elem_ok_def flist_fits_def)

lemma flist_blocks_room:
  assumes "0 < lb"
  shows "4 * (1 + flist_words n) \<le> flist_blocks lb n * lb" "flist_blocks lb n * lb < 4 * (1 + flist_words n) + lb"
    "0 < flist_blocks lb n"
proof -
  show *: "4 * (1 + flist_words n) \<le> flist_blocks lb n * lb"
    "flist_blocks lb n * lb < 4 * (1 + flist_words n) + lb"
    unfolding flist_blocks_def using ceil_div_bounds [OF assms, of "4 * (1 + flist_words n)"] by simp_all
  then show "0 < flist_blocks lb n" by (cases "flist_blocks lb n") simp_all
qed

lemma cache_flist_size_nat:
  assumes "0 < lb_of fs"
  shows "unat (cache_flist_size fs n) = flist_blocks (lb_of fs) (unat n) * lb_of fs"
proof -
  have b: "unat n < 2 ^ 32" "lb_of fs < 2 ^ 32"
    using unat_less_exp [of n] unat_less_exp [of "g_lb_nbytes (fs_geo fs)"] by simp_all
  have "flist_blocks (lb_of fs) (unat n) * lb_of fs < 2 ^ 64"
    using flist_blocks_room(2) [OF assms, of "unat n"] b by (simp add: less_trans)
  then show ?thesis
    unfolding cache_flist_size_def using assms
    by (subst unat_mult_no_wrap) (simp_all add: flist_nlb_nat unat_ucast_widen)
qed

text \<open>Creating an element makes all objects of the slab free.\<close>

lemma fla_slab_cache_elem_init_ok:
  assumes "bufs X" "0 < lb_of fs" "4 dvd lb_of fs" "get_elem fs i = Some e"
    "ce_state e = FLA_SLAB_CACHE_ELEM_STALE" "0 < unat n" "unat n < 2 ^ 31"
  shows "\<exists>r fs'. fla_slab_cache_elem_init X fs i n = Some (r, fs')
    \<and> (if r = 0 then \<exists>f. fs' = put_elem fs i \<lparr>ce_freelist = Some f, ce_state = FLA_SLAB_CACHE_ELEM_DIRTY\<rparr>
           \<and> flist_fits fs f \<and> flist_cap f = unat n \<and> flist_free f = {..<unat n}
       else fs' = fs)
    \<and> (r = 0 \<longleftrightarrow> x_buf_alloc X Data_dev (cache_flist_size fs n) \<noteq> None)"
proof (cases "x_buf_alloc X Data_dev (cache_flist_size fs n)")
  case (Some buf)
  have len: "length buf = flist_blocks (lb_of fs) (unat n) * lb_of fs"
    using bufs_length [OF assms(1) Some] cache_flist_size_nat [OF assms(2)] by simp
  then have w: "4 * length (words_of buf) = flist_blocks (lb_of fs) (unat n) * lb_of fs"
    using assms(3) by (simp add: length_words_of dvd_mult)
  have "4 * (1 + flist_words (unat n)) \<le> 4 * length (words_of buf)"
    unfolding w by (rule flist_blocks_room(1) [OF assms(2)])
  then have "flist_words (unat n) < length (words_of buf)" by simp
  from fla_flist_init_free [OF assms(6,7) this] obtain f where
    "fla_flist_init (words_of buf) n = Some f" "flist_inv f" "length f = length (words_of buf)"
    "flist_cap f = unat n" "flist_free f = {..<unat n}" by blast
  then show ?thesis
    using assms(4,5) Some w by (auto simp: fla_slab_cache_elem_init_def flist_fits_def)
qed (use assms(4,5) in \<open>simp add: fla_slab_cache_elem_init_def\<close>)

text \<open>Taking and giving back one object of a slab.\<close>

lemma flist_fits_upd: "flist_fits fs f \<Longrightarrow> flist_upd f f' S \<Longrightarrow> flist_fits fs f'"
  by (simp add: flist_fits_def flist_upd_def)

lemma fla_slab_cache_obj_alloc_one:
  assumes "get_elem fs i = Some e" "elem_ok fs e" "ce_state e \<noteq> FLA_SLAB_CACHE_ELEM_STALE"
    "ce_freelist e = Some f"
  shows "if flist_free f = {} then fla_slab_cache_obj_alloc fs i 1 = Some (1, put_elem fs i e, None)
    else \<exists>f'. fla_slab_cache_obj_alloc fs i 1 = Some (0,
        put_elem fs i \<lparr>ce_freelist = Some f', ce_state = FLA_SLAB_CACHE_ELEM_DIRTY\<rparr>,
        Some \<lparr>ob_slab_id = i, ob_entry_ndx = of_nat (Min (flist_free f))\<rparr>)
      \<and> flist_fits fs f' \<and> flist_upd f f' (flist_free f - {Min (flist_free f)})"
proof -
  have fits: "flist_fits fs f" and inv: "flist_inv f"
    using assms by (auto simp: elem_ok_def flist_fits_def)
  note al = fla_flist_entries_alloc_one [OF inv]
  show ?thesis
  proof (cases "flist_free f = {}")
    case True
    have same: "e\<lparr>ce_freelist := Some f\<rparr> = e" using assms(4) by (cases e) simp
    show ?thesis using True assms(1,3,4) al by (simp add: fla_slab_cache_obj_alloc_def same)
  next
    case False
    have "flist_upd f (flist_clear f (Min (flist_free f))) (flist_free f - {Min (flist_free f)})"
      using flist_upd_clear inv flist_free_Min(1) [OF inv False] by simp
    then show ?thesis
      using False assms(1,3,4) al flist_fits_upd [OF fits]
      by (auto simp: fla_slab_cache_obj_alloc_def)
  qed
qed

lemma fla_slab_cache_obj_free_one:
  assumes "get_elem fs (ob_slab_id ob) = Some e" "elem_ok fs e" "ce_state e \<noteq> FLA_SLAB_CACHE_ELEM_STALE"
    "ce_freelist e = Some f" "unat (ob_entry_ndx ob) < flist_cap f"
  shows "\<exists>f'. fla_slab_cache_obj_free fs ob 1 = Some (0,
        put_elem fs (ob_slab_id ob) \<lparr>ce_freelist = Some f', ce_state = FLA_SLAB_CACHE_ELEM_DIRTY\<rparr>)
      \<and> flist_fits fs f' \<and> flist_upd f f' (insert (unat (ob_entry_ndx ob)) (flist_free f))"
proof -
  have fits: "flist_fits fs f" and inv: "flist_inv f"
    using assms(2-4) by (auto simp: elem_ok_def flist_fits_def)
  from fla_flist_entries_free_run [OF inv, of "ob_entry_ndx ob" 1] assms(5) obtain f' where
    "fla_flist_entries_free f (ob_entry_ndx ob) 1 = Some (0, f')"
    "flist_upd f f' (insert (unat (ob_entry_ndx ob)) (flist_free f))" by auto
  then show ?thesis
    using assms(1,3,4) flist_fits_upd [OF fits] by (auto simp: fla_slab_cache_obj_free_def)
qed

section \<open>Freelists on the device\<close>

text \<open>
  Where the freelist of a slab lies: in the last blocks of the slab, or in one block per slab
  behind the metadata when that has a device of its own.
\<close>

definition flist_slot :: "flexalloc \<Rightarrow> nat \<Rightarrow> nat \<Rightarrow> nat" where
  "flist_slot fs i n = (if dv_md_dev (fs_dev fs) then md_blocks (fs_geo fs) + i
     else slab_start fs i + unat (g_slab_nlb (fs_geo fs)) - n)"

definition slot_room :: "flexalloc \<Rightarrow> nat" where
  "slot_room fs = (if dv_md_dev (fs_dev fs) then 1 else unat (g_slab_nlb (fs_geo fs)))"

text \<open>The device and the geometry of an open file system, on a conventional device.\<close>

definition cache_env :: "'d xnvme \<Rightarrow> ('d \<Rightarrow> xdev \<Rightarrow> nat \<Rightarrow> u8 list) \<Rightarrow> flexalloc \<Rightarrow> bool" where
  "cache_env X blk fs \<longleftrightarrow> storage X blk \<and> ranges X \<and> bufs X \<and> xfer_ok (x_geo X (cache_dev fs))
     \<and> lbsz X (cache_dev fs) = lb_of fs \<and> 0 < lb_of fs \<and> 4 dvd lb_of fs
     \<and> cs_t (fs_cs fs) = FLA_CS_CNS \<and> su_slab_nlb (fs_super fs) = g_slab_nlb (fs_geo fs)
     \<and> unat (g_nslabs (fs_geo fs)) * unat (g_slab_nlb (fs_geo fs)) < 2 ^ 32"

lemma cache_env_cong:
  "fs_dev fs' = fs_dev fs \<Longrightarrow> fs_geo fs' = fs_geo fs \<Longrightarrow> fs_cs fs' = fs_cs fs \<Longrightarrow> fs_super fs' = fs_super fs \<Longrightarrow>
    cache_env X blk fs' = cache_env X blk fs"
  by (simp add: cache_env_def cache_dev_def)

lemma slot_start:
  assumes "cache_env X blk fs" "unat i < unat (g_nslabs (fs_geo fs))" "unat n \<le> slot_room fs"
  shows "\<exists>w. cache_entry_lb_slba fs i n = Some w \<and> unat w = flist_slot fs (unat i) (unat n)"
proof (cases "dv_md_dev (fs_dev fs)")
  case True
  have "unat i < 2 ^ 32" using unat_less_exp [of i] by simp
  then have "unat (fla_geo_slabs_lb_off (fs_geo fs) + ucast i) = md_blocks (fs_geo fs) + unat i"
    using md_blocks_less [of "fs_geo fs"]
    by (subst unat_add_no_wrap) (simp_all add: slabs_lb_off_nat unat_ucast_widen)
  then show ?thesis using True by (simp add: cache_entry_lb_slba_def flist_slot_def)
next
  case False
  let ?n = "unat (g_slab_nlb (fs_geo fs))"
  have "unat i * ?n \<le> unat (g_nslabs (fs_geo fs)) * ?n" using assms(2) by (intro mult_le_mono1) simp
  also have "\<dots> < 2 ^ 32" using assms(1) by (simp add: cache_env_def)
  finally have p: "unat i * ?n < 2 ^ 32" .
  then obtain off where off: "fla_geo_slab_lb_off fs i = Some off" "unat off = slab_start fs (unat i)"
    using slab_lb_off_nat [of fs i] assms(1) by (auto simp: cache_env_def)
  have "?n < 2 ^ 32" using unat_less_exp [of "g_slab_nlb (fs_geo fs)"] by simp
  then have s: "unat (off + ucast (g_slab_nlb (fs_geo fs))) = slab_start fs (unat i) + ?n"
    using p off(2) False md_blocks_less [of "fs_geo fs"]
    by (subst unat_add_no_wrap) (simp_all add: unat_ucast_widen slab_start_def)
  then have "unat (off + ucast (g_slab_nlb (fs_geo fs)) - ucast n) = slab_start fs (unat i) + ?n - unat n"
    using False assms(3) by (subst unat_sub_no_wrap) (simp_all add: unat_ucast_widen slot_room_def)
  then show ?thesis
    using False off(1) assms(1) by (simp add: cache_entry_lb_slba_def flist_slot_def cache_env_def)
qed

lemma slots_disjoint:
  assumes "i \<noteq> j" "n \<le> slot_room fs" "m \<le> slot_room fs"
  shows "{flist_slot fs i n..<flist_slot fs i n + n} \<inter> {flist_slot fs j m..<flist_slot fs j m + m} = {}"
proof (cases "dv_md_dev (fs_dev fs)")
  case True
  then show ?thesis using assms by (auto simp: flist_slot_def slot_room_def)
next
  case False
  let ?s = "unat (g_slab_nlb (fs_geo fs))"
  have sub: "{flist_slot fs i n..<flist_slot fs i n + n} \<subseteq> {slab_start fs i..<slab_start fs i + ?s}"
    if "n \<le> slot_room fs" for i n
    using False that by (auto simp: flist_slot_def slot_room_def)
  have "{slab_start fs i..<slab_start fs i + ?s} \<inter> {slab_start fs j..<slab_start fs j + ?s} = {}"
    using intervals_disjoint [OF assms(1), of _ ?s] by (simp add: slab_start_def)
  with sub [OF assms(2), of i] sub [OF assms(3), of j] show ?thesis by blast
qed

definition stored :: "('d \<Rightarrow> xdev \<Rightarrow> nat \<Rightarrow> u8 list) \<Rightarrow> flexalloc \<Rightarrow> 'd \<Rightarrow> u32 \<Rightarrow> freelist \<Rightarrow> bool" where
  "stored blk fs d i f \<longleftrightarrow> (let n = flist_blocks (lb_of fs) (flist_cap f) in
     \<forall>k<n. blk d (cache_dev fs) (flist_slot fs (unat i) n + k) = buf_block (lb_of fs) (bytes_of f) k)"

lemma stored_cong:
  "fs_dev fs' = fs_dev fs \<Longrightarrow> fs_geo fs' = fs_geo fs \<Longrightarrow> stored blk fs' d i f = stored blk fs d i f"
  by (simp add: stored_def cache_dev_def flist_slot_def slab_start_def)

text \<open>The number of blocks of a freelist, as the code computes it for a transfer.\<close>

lemma flist_nlb_u32:
  assumes "0 < lb_of fs" "flist_blocks (lb_of fs) (unat n) \<le> slot_room fs"
  shows "unat (ucast (fla_slab_cache_flist_nlb fs n) :: u32) = flist_blocks (lb_of fs) (unat n)"
proof -
  have "slot_room fs < 2 ^ 32" using unat_less_exp [of "g_slab_nlb (fs_geo fs)"] by (simp add: slot_room_def)
  then show ?thesis using assms by (subst unat_ucast_small) (simp_all add: flist_nlb_nat)
qed

text \<open>A device on which no transfer of a freelist fails.\<close>

definition dev_good :: "'d xnvme \<Rightarrow> flexalloc \<Rightarrow> bool" where
  "dev_good X fs \<longleftrightarrow> reliable X (cache_dev fs) \<and> (\<forall>n. x_buf_alloc X Data_dev n \<noteq> None)
     \<and> (\<forall>i n slba. unat i < unat (g_nslabs (fs_geo fs)) \<and> flist_blocks (lb_of fs) (unat n) \<le> slot_room fs
          \<and> cache_entry_lb_slba fs i (ucast (fla_slab_cache_flist_nlb fs n)) = Some slba \<longrightarrow>
          lr_is_valid (x_range_from_slba X (cache_dev fs) slba (fla_slab_cache_flist_nlb fs n)))"

lemma dev_good_range:
  "dev_good X fs \<Longrightarrow> unat i < unat (g_nslabs (fs_geo fs)) \<Longrightarrow> flist_blocks (lb_of fs) (unat n) \<le> slot_room fs \<Longrightarrow>
    cache_entry_lb_slba fs i (ucast (fla_slab_cache_flist_nlb fs n)) = Some slba \<Longrightarrow>
    lr_is_valid (x_range_from_slba X (cache_dev fs) slba (fla_slab_cache_flist_nlb fs n))"
  by (simp add: dev_good_def)

lemma slba_cong:
  assumes "fs_dev fs' = fs_dev fs" "fs_geo fs' = fs_geo fs" "fs_cs fs' = fs_cs fs" "fs_super fs' = fs_super fs"
  shows "fla_geo_slab_lb_off fs' i = fla_geo_slab_lb_off fs i" "cache_entry_lb_slba fs' i n = cache_entry_lb_slba fs i n"
proof -
  have cns: "fla_cs_cns_slab_offset fs' i b = fla_cs_cns_slab_offset fs i b" for b
    using assms by (simp add: fla_cs_cns_slab_offset_def)
  then have "fla_cs_zns_slab_offset fs' i b = fla_cs_zns_slab_offset fs i b" for b
    using assms by (simp add: fla_cs_zns_slab_offset_def)
  with cns show off: "fla_geo_slab_lb_off fs' i = fla_geo_slab_lb_off fs i"
    using assms by (simp add: fla_geo_slab_lb_off_def Let_def split: fla_cs_t.split)
  show "cache_entry_lb_slba fs' i n = cache_entry_lb_slba fs i n"
    using assms off by (simp add: cache_entry_lb_slba_def)
qed

lemma dev_good_cong:
  assumes "fs_dev fs' = fs_dev fs" "fs_geo fs' = fs_geo fs" "fs_cs fs' = fs_cs fs" "fs_super fs' = fs_super fs"
  shows "dev_good X fs' = dev_good X fs"
  using assms slba_cong(2) [OF assms]
  by (simp add: dev_good_def cache_dev_def slot_room_def fla_slab_cache_flist_nlb_def)

lemma in_slot: "0 < n \<Longrightarrow> s \<le> b \<and> b \<le> s + n - 1 \<longleftrightarrow> s \<le> b \<and> b < s + (n :: nat)"
  by linarith

lemma elem_flush_dirty:
  assumes env: "cache_env X blk fs" and e: "get_elem fs i = Some e" "elem_ok fs e"
    and dirty: "ce_state e = FLA_SLAB_CACHE_ELEM_DIRTY" and f: "ce_freelist e = Some f"
    and i: "unat i < unat (g_nslabs (fs_geo fs))" and room: "flist_blocks (lb_of fs) (flist_cap f) \<le> slot_room fs"
  defines "n \<equiv> flist_blocks (lb_of fs) (flist_cap f)"
  shows "\<exists>r fs' d'. fla_slab_cache_elem_flush X fs i d = Some (r, fs', d')
    \<and> fs' = (if r = 0 then put_elem fs i (e\<lparr>ce_state := FLA_SLAB_CACHE_ELEM_CLEAN\<rparr>) else fs)
    \<and> (dev_good X fs \<longrightarrow> r = 0) \<and> (r = 0 \<longrightarrow> stored blk fs d' i f)
    \<and> (\<forall>dv b. \<not> (dv = cache_dev fs \<and> b \<in> {flist_slot fs (unat i) n..<flist_slot fs (unat i) n + n})
         \<longrightarrow> blk d' dv b = blk d dv b)"
proof -
  have lb: "0 < lb_of fs" using env by (simp add: cache_env_def)
  have fits: "flist_inv f" "4 * length f = n * lb_of fs" using e(2) dirty f by (simp_all add: elem_ok_def flist_fits_def n_def)
  have len: "fla_flist_len f = Some (f ! 0)" using fits(1) by (simp add: fla_flist_len_def flist_inv_rd0)
  let ?nlb = "fla_slab_cache_flist_nlb fs (f ! 0)"
  have nlb: "unat ?nlb = n" "unat (ucast ?nlb :: u32) = n"
    using lb room flist_nlb_u32 [of fs "f ! 0"] by (simp_all add: flist_nlb_nat n_def flist_cap_def)
  obtain w where w: "cache_entry_lb_slba fs i (ucast ?nlb) = Some w" "unat w = flist_slot fs (unat i) n"
    using slot_start [OF env i, of "ucast ?nlb"] nlb(2) room by (auto simp: n_def)
  let ?r = "x_range_from_slba X (cache_dev fs) w ?nlb"
  show ?thesis
  proof (cases "lr_is_valid ?r")
    case False
    then have "\<not> dev_good X fs" using dev_good_range [OF _ i _ w(1)] room by (auto simp: flist_cap_def)
    then show ?thesis
      using False e(1) dirty f len w(1)
      by (simp add: fla_slab_cache_elem_flush_def fla_xne_lba_range_from_slba_naddrs_def)
  next
    case True
    have "ranges X" using env by (simp add: cache_env_def)
    note rg = range_slba [OF this True, unfolded nlb w(2)]
    have buf: "(Suc (unat (lr_elba ?r)) - unat (lr_slba ?r)) * lbsz X (cache_dev fs) \<le> length (bytes_of f)"
      using rg(5) fits(2) env by (simp add: cache_env_def nlb)
    have dev: "storage X blk" "xfer_ok (x_geo X (cache_dev fs))" "lbsz X (cache_dev fs) = lb_of fs"
      using env by (simp_all add: cache_env_def)
    from seq_w_blocks [OF dev(1,2) rg(6) buf, of "x_ctx_from_dev X (cache_dev fs)" d] obtain r d' where
      wr: "fla_xne_sync_seq_w X ?r (cache_dev fs) (x_ctx_from_dev X (cache_dev fs)) (bytes_of f) d = Some (r, d')"
      and rel: "reliable X (cache_dev fs) \<longrightarrow> r = 0"
      and frame: "\<forall>dv b. \<not> (dv = cache_dev fs \<and> unat (lr_slba ?r) \<le> b \<and> b \<le> unat (lr_elba ?r)) \<longrightarrow> blk d' dv b = blk d dv b"
      and blks: "r = 0 \<longrightarrow> blk d' = (\<lambda>dv b. if dv = cache_dev fs \<and> unat (lr_slba ?r) \<le> b \<and> b \<le> unat (lr_elba ?r)
        then buf_block (lbsz X (cache_dev fs)) (bytes_of f) (b - unat (lr_slba ?r)) else blk d dv b)" by blast
    have st: "unat (lr_slba ?r) = flist_slot fs (unat i) n" "unat (lr_elba ?r) = flist_slot fs (unat i) n + n - 1" "0 < n"
      using rg(1,2,3) w(2) by simp_all
    have fl: "fla_slab_cache_elem_flush X fs i d
        = Some (r, if r = 0 then put_elem fs i (e\<lparr>ce_state := FLA_SLAB_CACHE_ELEM_CLEAN\<rparr>) else fs, d')"
      using e(1) dirty f len w(1) True wr
      by (simp add: fla_slab_cache_elem_flush_def fla_xne_lba_range_from_slba_naddrs_def w_xneio_plain)
    have "dev_good X fs \<longrightarrow> r = 0" using rel by (simp add: dev_good_def)
    moreover have "stored blk fs d' i f" if "r = 0"
      using blks that st dev(3) unfolding stored_def Let_def n_def [symmetric] by auto
    moreover have "\<forall>dv b. \<not> (dv = cache_dev fs \<and> b \<in> {flist_slot fs (unat i) n..<flist_slot fs (unat i) n + n})
         \<longrightarrow> blk d' dv b = blk d dv b"
      using frame unfolding atLeastLessThan_iff st(1,2) in_slot [OF st(3)] by blast
    ultimately show ?thesis using fl by blast
  qed
qed

text \<open>Two buffers with the same blocks are equal.\<close>

lemma blocks_eq:
  assumes "length a = n * sz" "length b = n * sz" "\<forall>k<n. buf_block sz a k = buf_block sz b k"
  shows "a = b"
  using assms
proof (induction n arbitrary: a b)
  case (Suc n)
  have "take sz a = take sz b" using Suc.prems(3) [rule_format, of 0] by (simp add: buf_block_def)
  moreover have "buf_block sz (drop sz a) k = buf_block sz (drop sz b) k" if "k < n" for k
    using Suc.prems(3) [rule_format, of "Suc k"] that by (simp add: buf_block_def add.commute)
  then have "drop sz a = drop sz b" using Suc.prems(1,2) by (intro Suc.IH) simp_all
  ultimately show ?case by (metis append_take_drop_id)
qed simp

lemma stored_unique:
  assumes "stored blk fs d i f" "stored blk fs d i g" "flist_fits fs f" "flist_fits fs g" "flist_cap g = flist_cap f"
  shows "g = f"
proof -
  let ?n = "flist_blocks (lb_of fs) (flist_cap f)"
  have len: "length (bytes_of f) = ?n * lb_of fs" "length (bytes_of g) = ?n * lb_of fs"
    using assms(3-5) by (simp_all add: flist_fits_def)
  have "\<forall>k<?n. buf_block (lb_of fs) (bytes_of f) k = buf_block (lb_of fs) (bytes_of g) k"
    using assms(1,2,5) by (simp add: stored_def Let_def)
  then have "bytes_of f = bytes_of g" by (rule blocks_eq [OF len])
  then show ?thesis using words_of_bytes_of by metis
qed

lemma seq_r_blocks:
  assumes "storage X blk" "xfer_ok (x_geo X dev)" "unat (lr_elba r) < 2 ^ 63"
    "(Suc (unat (lr_elba r)) - unat (lr_slba r)) * lbsz X dev \<le> length buf"
  shows "\<exists>err buf'. fla_xne_sync_seq_r_xneio X r dev d buf = Some (err, buf') \<and> length buf' = length buf
    \<and> (reliable X dev \<longrightarrow> err = 0) \<and> (err = 0 \<longrightarrow> (\<forall>i. unat (lr_slba r) \<le> i \<and> i \<le> unat (lr_elba r) \<longrightarrow>
        buf_block (lbsz X dev) buf' (i - unat (lr_slba r)) = blk d dev i))"
  using xne_r_loop_spec [OF assms, of "lr_slba r" 0 d]
  by (auto simp: fla_xne_sync_seq_r_def fla_xne_sync_seq_r_xneio_def)

text \<open>Loading a freelist that is stored on the device gives back that freelist.\<close>

lemma elem_load_stored:
  assumes env: "cache_env X blk fs" and e: "get_elem fs i = Some e" "ce_state e = FLA_SLAB_CACHE_ELEM_STALE"
    and i: "unat i < unat (g_nslabs (fs_geo fs))" and f: "flist_fits fs f" "flist_cap f = unat n"
    and st: "stored blk fs d i f" and room: "flist_blocks (lb_of fs) (unat n) \<le> slot_room fs"
  shows "\<exists>r fs'. fla_slab_cache_elem_load X fs i n d = Some (r, fs')
    \<and> fs' = (if r = 0 then put_elem fs i \<lparr>ce_freelist = Some f, ce_state = FLA_SLAB_CACHE_ELEM_CLEAN\<rparr> else fs)
    \<and> (dev_good X fs \<longrightarrow> r = 0)"
proof (cases "x_buf_alloc X Data_dev (cache_flist_size fs n)")
  case None
  then have "\<not> dev_good X fs" by (auto simp: dev_good_def)
  with None show ?thesis using e by (simp add: fla_slab_cache_elem_load_def)
next
  case (Some buf)
  define m where "m = flist_blocks (lb_of fs) (unat n)"
  have lb: "0 < lb_of fs" "4 dvd lb_of fs" using env by (simp_all add: cache_env_def)
  have buf: "length buf = m * lb_of fs"
    using env bufs_length [OF _ Some] cache_flist_size_nat [OF lb(1)] by (simp add: cache_env_def m_def)
  let ?nlb = "fla_slab_cache_flist_nlb fs n"
  have nlb: "unat ?nlb = m" "unat (ucast ?nlb :: u32) = m"
    using lb room flist_nlb_u32 [of fs n] by (simp_all add: flist_nlb_nat m_def)
  have md: "\<not> (dv_md_dev (fs_dev fs) \<and> ?nlb > 1)"
    using room nlb(1) by (simp add: slot_room_def m_def word_less_nat_alt split: if_splits)
  obtain w where w: "cache_entry_lb_slba fs i (ucast ?nlb) = Some w" "unat w = flist_slot fs (unat i) m"
    using slot_start [OF env i, of "ucast ?nlb"] nlb(2) room by (auto simp: m_def)
  let ?r = "x_range_from_slba X (cache_dev fs) w ?nlb"
  show ?thesis
  proof (cases "lr_is_valid ?r")
    case False
    then have "fla_slab_cache_elem_load X fs i n d = Some (1, fs)"
      using e Some md w(1) by (auto simp: fla_slab_cache_elem_load_def)
    moreover have "\<not> dev_good X fs" using dev_good_range [OF _ i room w(1)] False by blast
    ultimately show ?thesis by simp
  next
    case True
    have dev: "storage X blk" "xfer_ok (x_geo X (cache_dev fs))" "lbsz X (cache_dev fs) = lb_of fs" "ranges X"
      using env by (simp_all add: cache_env_def)
    note rg = range_slba [OF dev(4) True, unfolded nlb w(2)]
    have room': "(Suc (unat (lr_elba ?r)) - unat (lr_slba ?r)) * lbsz X (cache_dev fs) \<le> length buf"
      using rg(5) buf dev(3) by (simp add: nlb)
    from seq_r_blocks [OF dev(1,2) rg(6) room', of d] obtain r buf' where
      rd: "fla_xne_sync_seq_r_xneio X ?r (cache_dev fs) d buf = Some (r, buf')" "length buf' = length buf"
      and rel: "reliable X (cache_dev fs) \<longrightarrow> r = 0"
      and blks: "r = 0 \<longrightarrow> (\<forall>b. unat (lr_slba ?r) \<le> b \<and> b \<le> unat (lr_elba ?r) \<longrightarrow>
        buf_block (lb_of fs) buf' (b - unat (lr_slba ?r)) = blk d (cache_dev fs) b)" unfolding dev(3) by blast
    have slot: "unat (lr_slba ?r) = flist_slot fs (unat i) m" "unat (lr_elba ?r) = flist_slot fs (unat i) m + m - 1" "0 < m"
      using rg(1,2,3) w(2) by simp_all
    have words: "words_of buf' = f" if "r = 0"
    proof -
      have "buf_block (lb_of fs) buf' k = buf_block (lb_of fs) (bytes_of f) k" if "k < m" for k
        using blks \<open>r = 0\<close> slot that st unfolding stored_def f(2) m_def [symmetric] Let_def
        by (auto dest: spec [of _ "flist_slot fs (unat i) m + k"])
      moreover have "length (bytes_of f) = m * lb_of fs" using f by (simp add: flist_fits_def m_def)
      ultimately have "buf' = bytes_of f" using blocks_eq [of buf' m "lb_of fs" "bytes_of f"] rd(2) buf by simp
      then show ?thesis by simp
    qed
    have len: "fla_flist_len f = Some n"
      using f by (simp add: fla_flist_len_def flist_fits_def flist_inv_rd0 flist_cap_def)
    show ?thesis
      using e Some md w(1) True rd(1) rel words len
      by (cases "r = 0") (auto simp: fla_slab_cache_elem_load_def dev_good_def)
  qed
qed

section \<open>The cache as a state machine\<close>

text \<open>
  The invariant: elements that are not stale hold a freelist that fits its blocks, and a
  clean one is the same as on the device.
\<close>

definition elem_inv :: "('d \<Rightarrow> xdev \<Rightarrow> nat \<Rightarrow> u8 list) \<Rightarrow> flexalloc \<Rightarrow> 'd \<Rightarrow> u32 \<Rightarrow> fla_slab_flist_cache_elem \<Rightarrow> bool" where
  "elem_inv blk fs d i e \<longleftrightarrow> elem_ok fs e
     \<and> (\<forall>f. ce_freelist e = Some f \<longrightarrow> flist_blocks (lb_of fs) (flist_cap f) \<le> slot_room fs
          \<and> (ce_state e = FLA_SLAB_CACHE_ELEM_CLEAN \<longrightarrow> stored blk fs d i f))"

definition cache_inv :: "('d \<Rightarrow> xdev \<Rightarrow> nat \<Rightarrow> u8 list) \<Rightarrow> flexalloc \<Rightarrow> 'd \<Rightarrow> bool" where
  "cache_inv blk fs d \<longleftrightarrow> (\<forall>i. unat i < unat (g_nslabs (fs_geo fs)) \<longrightarrow>
     (\<exists>e. get_elem fs i = Some e \<and> elem_inv blk fs d i e))"

lemma cache_invD:
  assumes "cache_inv blk fs d" "unat i < unat (g_nslabs (fs_geo fs))"
  obtains e where "get_elem fs i = Some e" "elem_inv blk fs d i e"
  using assms by (auto simp: cache_inv_def)

lemma elem_inv_cong:
  "fs_dev fs' = fs_dev fs \<Longrightarrow> fs_geo fs' = fs_geo fs \<Longrightarrow> elem_inv blk fs' d i e = elem_inv blk fs d i e"
  by (simp add: elem_inv_def elem_ok_def flist_fits_def slot_room_def stored_cong [of fs' fs])

lemma cache_inv_put:
  assumes inv: "cache_inv blk fs d" and i: "get_elem fs i = Some e0" and e: "elem_inv blk fs d' i e"
    and frame: "\<And>j f. unat j < unat (g_nslabs (fs_geo fs)) \<Longrightarrow> j \<noteq> i \<Longrightarrow>
      flist_blocks (lb_of fs) (flist_cap f) \<le> slot_room fs \<Longrightarrow> stored blk fs d j f \<Longrightarrow> stored blk fs d' j f"
  shows "cache_inv blk (put_elem fs i e) d'"
  unfolding cache_inv_def fs_fields
proof (intro allI impI)
  fix j :: u32 assume j: "unat j < unat (g_nslabs (fs_geo fs))"
  have cong: "elem_inv blk (put_elem fs i e) d' k x = elem_inv blk fs d' k x" for k x
    by (rule elem_inv_cong) (simp_all add: fs_fields)
  show "\<exists>x. get_elem (put_elem fs i e) j = Some x \<and> elem_inv blk (put_elem fs i e) d' j x"
  proof (cases "j = i")
    case False
    obtain x where x: "get_elem fs j = Some x" "elem_inv blk fs d j x" using cache_invD [OF inv j] .
    then have "elem_inv blk fs d' j x" using frame [OF j False] by (auto simp: elem_inv_def)
    then show ?thesis using x(1) False by (simp add: get_put_elem [OF i] cong)
  qed (use e in \<open>simp add: get_put_elem [OF i] cong\<close>)
qed

lemma stored_frame:
  assumes "stored blk fs d j f" "j \<noteq> i" "n \<le> slot_room fs" "flist_blocks (lb_of fs) (flist_cap f) \<le> slot_room fs"
    "\<forall>dv b. \<not> (dv = cache_dev fs \<and> b \<in> {flist_slot fs (unat i) n..<flist_slot fs (unat i) n + n})
         \<longrightarrow> blk d' dv b = blk d dv b"
  shows "stored blk fs d' j f"
proof -
  let ?m = "flist_blocks (lb_of fs) (flist_cap f)"
  have "{flist_slot fs (unat j) ?m..<flist_slot fs (unat j) ?m + ?m}
      \<inter> {flist_slot fs (unat i) n..<flist_slot fs (unat i) n + n} = {}"
    using assms(2-4) by (intro slots_disjoint) simp_all
  then have "flist_slot fs (unat j) ?m + k \<notin> {flist_slot fs (unat i) n..<flist_slot fs (unat i) n + n}"
    if "k < ?m" for k using that by auto
  then show ?thesis using assms(1,5) unfolding stored_def Let_def by metis
qed

text \<open>
  The operations as steps on the file system and the device. A freelist is loaded only for a
  slab that has one on the device, and objects are released only when their indices are in range.
  One case of an allocation is left out: of several objects at once, from a clean element, that
  fails. It has cleared bits of the freelist and leaves the element marked clean; what it does is
  \<open>cache_alloc_failed_differs\<close> below.
\<close>

definition elem_clean :: "flexalloc \<Rightarrow> u32 \<Rightarrow> bool" where
  "elem_clean fs i \<longleftrightarrow> map_option ce_state (get_elem fs i) = Some FLA_SLAB_CACHE_ELEM_CLEAN"

inductive cache_step ::
  "'d xnvme \<Rightarrow> ('d \<Rightarrow> xdev \<Rightarrow> nat \<Rightarrow> u8 list) \<Rightarrow> flexalloc \<times> 'd \<Rightarrow> flexalloc \<times> 'd \<Rightarrow> bool" for X blk where
  step_init: "unat i < unat (g_nslabs (fs_geo fs)) \<Longrightarrow> 0 < unat n \<Longrightarrow> unat n < 2 ^ 31 \<Longrightarrow>
    flist_blocks (lb_of fs) (unat n) \<le> slot_room fs \<Longrightarrow>
    fla_slab_cache_elem_init X fs i n = Some (r, fs') \<Longrightarrow> cache_step X blk (fs, d) (fs', d)"
| step_load: "unat i < unat (g_nslabs (fs_geo fs)) \<Longrightarrow> flist_fits fs f \<Longrightarrow> flist_cap f = unat n \<Longrightarrow>
    flist_blocks (lb_of fs) (unat n) \<le> slot_room fs \<Longrightarrow> stored blk fs d i f \<Longrightarrow>
    fla_slab_cache_elem_load X fs i n d = Some (r, fs') \<Longrightarrow> cache_step X blk (fs, d) (fs', d)"
| step_flush: "unat i < unat (g_nslabs (fs_geo fs)) \<Longrightarrow>
    fla_slab_cache_elem_flush X fs i d = Some (r, fs', d') \<Longrightarrow> cache_step X blk (fs, d) (fs', d')"
| step_drop: "unat i < unat (g_nslabs (fs_geo fs)) \<Longrightarrow>
    fla_slab_cache_elem_drop fs i = Some fs' \<Longrightarrow> cache_step X blk (fs, d) (fs', d)"
| step_alloc: "unat i < unat (g_nslabs (fs_geo fs)) \<Longrightarrow>
    fla_slab_cache_obj_alloc fs i n = Some (r, fs', ob) \<Longrightarrow> r \<noteq> 0 \<longrightarrow> n = 1 \<or> \<not> elem_clean fs i \<Longrightarrow> cache_step X blk (fs, d) (fs', d)"
| step_free: "unat (ob_slab_id ob) < unat (g_nslabs (fs_geo fs)) \<Longrightarrow> get_elem fs (ob_slab_id ob) = Some e \<Longrightarrow>
    \<forall>f. ce_freelist e = Some f \<longrightarrow> unat (ob_entry_ndx ob) + unat n \<le> flist_cap f \<Longrightarrow>
    fla_slab_cache_obj_free fs ob n = Some (r, fs') \<Longrightarrow> cache_step X blk (fs, d) (fs', d)"

inductive_cases cache_stepE: "cache_step X blk (fs, d) (fs', d')"

text \<open>What an operation leaves alone.\<close>

definition same_env :: "flexalloc \<Rightarrow> flexalloc \<Rightarrow> bool" where
  "same_env fs fs' \<longleftrightarrow> fs_dev fs' = fs_dev fs \<and> fs_geo fs' = fs_geo fs \<and> fs_cs fs' = fs_cs fs \<and> fs_super fs' = fs_super fs
     \<and> fs_pools fs' = fs_pools fs \<and> fs_slabs fs' = fs_slabs fs \<and> fs_state fs' = fs_state fs"

lemma same_env_refl [simp]: "same_env fs fs" by (simp add: same_env_def)

lemma same_env_put [simp]: "same_env fs (put_elem fs i e)" by (simp add: same_env_def fs_fields)

lemma same_env_trans: "same_env fs fs1 \<Longrightarrow> same_env fs1 fs2 \<Longrightarrow> same_env fs fs2" by (simp add: same_env_def)

lemma flush_inv:
  assumes env: "cache_env X blk fs" and inv: "cache_inv blk fs d" and i: "unat i < unat (g_nslabs (fs_geo fs))"
  shows "\<exists>r fs' d'. fla_slab_cache_elem_flush X fs i d = Some (r, fs', d') \<and> cache_inv blk fs' d' \<and> same_env fs fs'
    \<and> (\<forall>j. unat j < unat (g_nslabs (fs_geo fs)) \<longrightarrow>
        map_option ce_freelist (get_elem fs' j) = map_option ce_freelist (get_elem fs j)
        \<and> (j \<noteq> i \<longrightarrow> get_elem fs' j = get_elem fs j))
    \<and> (dev_good X fs \<longrightarrow> r = 0)
    \<and> (r = 0 \<longrightarrow> (\<exists>e. get_elem fs' i = Some e \<and> ce_state e \<noteq> FLA_SLAB_CACHE_ELEM_DIRTY))"
proof -
  obtain e where e: "get_elem fs i = Some e" "elem_inv blk fs d i e" using cache_invD [OF inv i] .
  show ?thesis
  proof (cases "ce_state e = FLA_SLAB_CACHE_ELEM_DIRTY")
    case False
    then have "fla_slab_cache_elem_flush X fs i d = Some (0, fs, d)"
      using e(1) by (simp add: fla_slab_cache_elem_flush_def)
    then show ?thesis using inv e(1) False by auto
  next
    case True
    then obtain f where f: "ce_freelist e = Some f" "flist_blocks (lb_of fs) (flist_cap f) \<le> slot_room fs" "elem_ok fs e"
      using e(2) by (auto simp: elem_inv_def elem_ok_def)
    define n where "n = flist_blocks (lb_of fs) (flist_cap f)"
    from elem_flush_dirty [OF env e(1) f(3) True f(1) i f(2), of d, folded n_def] obtain r fs' d' where
      fl: "fla_slab_cache_elem_flush X fs i d = Some (r, fs', d')"
        "fs' = (if r = 0 then put_elem fs i (e\<lparr>ce_state := FLA_SLAB_CACHE_ELEM_CLEAN\<rparr>) else fs)"
      and good: "dev_good X fs \<longrightarrow> r = 0" and st: "r = 0 \<longrightarrow> stored blk fs d' i f"
      and frame: "\<forall>dv b. \<not> (dv = cache_dev fs \<and> b \<in> {flist_slot fs (unat i) n..<flist_slot fs (unat i) n + n})
         \<longrightarrow> blk d' dv b = blk d dv b" by blast
    have other: "stored blk fs d' j g" if "j \<noteq> i" "flist_blocks (lb_of fs) (flist_cap g) \<le> slot_room fs" "stored blk fs d j g" for j g
      using stored_frame [OF that(3,1) _ that(2) frame] f(2) by (simp add: n_def)
    have same: "put_elem fs i e = fs"
      using e(1) by (cases "fs_slab_cache fs") (auto simp: put_elem_def get_elem_def dest!: rd_SomeD)
    have e': "elem_inv blk fs d' i (if r = 0 then e\<lparr>ce_state := FLA_SLAB_CACHE_ELEM_CLEAN\<rparr> else e)"
      using e(2) f st True by (auto simp: elem_inv_def elem_ok_def)
    have fs': "fs' = put_elem fs i (if r = 0 then e\<lparr>ce_state := FLA_SLAB_CACHE_ELEM_CLEAN\<rparr> else e)"
      using fl(2) same by simp
    have "cache_inv blk fs' d'" unfolding fs' by (rule cache_inv_put [OF inv e(1) e']) (rule other)
    then show ?thesis using fl(1) e(1) good unfolding fs' by (auto simp: get_put_elem [OF e(1)])
  qed
qed

lemma elem_inv_dirty:
  "flist_fits fs f \<Longrightarrow> flist_blocks (lb_of fs) (flist_cap f) \<le> slot_room fs \<Longrightarrow>
    elem_inv blk fs d i \<lparr>ce_freelist = Some f, ce_state = FLA_SLAB_CACHE_ELEM_DIRTY\<rparr>"
  by (simp add: elem_inv_def elem_ok_def)

lemma elem_inv_stale: "elem_inv blk fs d i \<lparr>ce_freelist = None, ce_state = FLA_SLAB_CACHE_ELEM_STALE\<rparr>"
  by (simp add: elem_inv_def elem_ok_def)

lemma put_same_elem: "get_elem fs i = Some e \<Longrightarrow> put_elem fs i e = fs"
  by (cases "fs_slab_cache fs") (auto simp: put_elem_def get_elem_def dest!: rd_SomeD)

lemma cache_inv_put_same:
  assumes "cache_inv blk fs d" "get_elem fs i = Some e0" "elem_inv blk fs d i e"
  shows "cache_inv blk (put_elem fs i e) d"
  using cache_inv_put [OF assms] by blast

lemma alloc_inv:
  assumes "cache_inv blk fs d" "unat i < unat (g_nslabs (fs_geo fs))" "fla_slab_cache_obj_alloc fs i n = Some (r, fs', ob)"
    "r \<noteq> 0 \<longrightarrow> n = 1 \<or> \<not> elem_clean fs i"
  shows "cache_inv blk fs' d \<and> same_env fs fs'"
proof -
  obtain e where e: "get_elem fs i = Some e" "elem_inv blk fs d i e" using cache_invD [OF assms(1,2)] .
  show ?thesis
  proof (cases "ce_state e = FLA_SLAB_CACHE_ELEM_STALE")
    case True
    then show ?thesis using assms e(1) by (simp add: fla_slab_cache_obj_alloc_def)
  next
    case False
    have ok: "elem_ok fs e" using e(2) by (simp add: elem_inv_def)
    then obtain f where f: "ce_freelist e = Some f" "flist_fits fs f" using False by (auto simp: elem_ok_def)
    show ?thesis
    proof (cases "n = 1 \<and> flist_free f = {}")
      case True
      then show ?thesis using fla_slab_cache_obj_alloc_one [OF e(1) ok False f(1)] assms e(1) by (simp add: put_same_elem)
    next
      case full: False
      have inv: "flist_inv f" using f(2) by (simp add: flist_fits_def)
      from fla_flist_entries_alloc_upd [OF inv, of n] obtain q f' S where
        al: "fla_flist_entries_alloc f n = Some (q, f')" "flist_upd f f' S" by blast
      have f': "flist_fits fs f'" "flist_blocks (lb_of fs) (flist_cap f') \<le> slot_room fs"
        using flist_fits_upd [OF f(2) al(2)] al(2) e(2) f(1) by (auto simp: flist_upd_def elem_inv_def)
      have "n = 1 \<Longrightarrow> 0 \<le> q" using full al(1) fla_flist_entries_alloc_one [OF inv] by auto
      moreover have "q < 0 \<Longrightarrow> r = 1" using assms(3) e(1) False f(1) al(1) by (simp add: fla_slab_cache_obj_alloc_def)
      ultimately have dirty: "ce_state e = FLA_SLAB_CACHE_ELEM_DIRTY" if "q < 0"
        using that assms(4) e(1) False by (cases "ce_state e") (auto simp: elem_clean_def)
      have "fs' = put_elem fs i \<lparr>ce_freelist = Some f', ce_state = FLA_SLAB_CACHE_ELEM_DIRTY\<rparr>"
        using assms(3) e(1) False f(1) al(1) dirty by (cases e) (auto simp: fla_slab_cache_obj_alloc_def split: if_splits)
      then show ?thesis using cache_inv_put_same [OF assms(1) e(1) elem_inv_dirty [OF f']] by simp
    qed
  qed
qed

lemma free_inv:
  assumes "cache_inv blk fs d" "unat (ob_slab_id ob) < unat (g_nslabs (fs_geo fs))"
    "get_elem fs (ob_slab_id ob) = Some e" "\<forall>f. ce_freelist e = Some f \<longrightarrow> unat (ob_entry_ndx ob) + unat n \<le> flist_cap f"
    "fla_slab_cache_obj_free fs ob n = Some (r, fs')"
  shows "cache_inv blk fs' d \<and> same_env fs fs'"
proof (cases "ce_state e = FLA_SLAB_CACHE_ELEM_STALE")
  case True
  then show ?thesis using assms by (simp add: fla_slab_cache_obj_free_def)
next
  case False
  have e: "elem_inv blk fs d (ob_slab_id ob) e" using cache_invD [OF assms(1,2)] assms(3) by force
  then have ok: "elem_ok fs e" by (simp add: elem_inv_def)
  then obtain f where f: "ce_freelist e = Some f" "flist_fits fs f" using False by (auto simp: elem_ok_def)
  have "flist_inv f" "unat (ob_entry_ndx ob) + unat n \<le> flist_cap f" using f assms(4) by (auto simp: flist_fits_def)
  from fla_flist_entries_free_run [OF this] obtain f' S where
    fr: "fla_flist_entries_free f (ob_entry_ndx ob) n = Some (0, f')" "flist_upd f f' S" by blast
  then have fs': "fs' = put_elem fs (ob_slab_id ob) \<lparr>ce_freelist = Some f', ce_state = FLA_SLAB_CACHE_ELEM_DIRTY\<rparr>"
    using assms(3,5) False f(1) by (simp add: fla_slab_cache_obj_free_def)
  have "flist_fits fs f'" "flist_blocks (lb_of fs) (flist_cap f') \<le> slot_room fs"
    using flist_fits_upd [OF f(2) fr(2)] fr(2) e f(1) by (auto simp: flist_upd_def elem_inv_def)
  then show ?thesis using cache_inv_put_same [OF assms(1,3) elem_inv_dirty] fs' by simp
qed

lemma init_inv:
  assumes "cache_env X blk fs" "cache_inv blk fs d" "unat i < unat (g_nslabs (fs_geo fs))" "0 < unat n" "unat n < 2 ^ 31"
    "flist_blocks (lb_of fs) (unat n) \<le> slot_room fs" "fla_slab_cache_elem_init X fs i n = Some (r, fs')"
  shows "cache_inv blk fs' d \<and> same_env fs fs'"
proof -
  obtain e where e: "get_elem fs i = Some e" using cache_invD [OF assms(2,3)] .
  show ?thesis
  proof (cases "ce_state e = FLA_SLAB_CACHE_ELEM_STALE")
    case True
    have env: "bufs X" "0 < lb_of fs" "4 dvd lb_of fs" using assms(1) by (simp_all add: cache_env_def)
    from fla_slab_cache_elem_init_ok [OF env e True assms(4,5)] assms(7)
    consider "fs' = fs" | f where "fs' = put_elem fs i \<lparr>ce_freelist = Some f, ce_state = FLA_SLAB_CACHE_ELEM_DIRTY\<rparr>"
      "flist_fits fs f" "flist_cap f = unat n" by (auto split: if_splits)
    then show ?thesis
    proof cases
      case 2
      then show ?thesis using cache_inv_put_same [OF assms(2) e elem_inv_dirty [OF 2(2)]] assms(6) by simp
    qed (use assms(2) in simp)
  qed (use e assms in \<open>simp add: fla_slab_cache_elem_init_def\<close>)
qed

lemma load_inv:
  assumes "cache_env X blk fs" "cache_inv blk fs d" "unat i < unat (g_nslabs (fs_geo fs))" "flist_fits fs f" "flist_cap f = unat n"
    "flist_blocks (lb_of fs) (unat n) \<le> slot_room fs" "stored blk fs d i f"
    "fla_slab_cache_elem_load X fs i n d = Some (r, fs')"
  shows "cache_inv blk fs' d \<and> same_env fs fs'"
proof -
  obtain e where e: "get_elem fs i = Some e" using cache_invD [OF assms(2,3)] .
  show ?thesis
  proof (cases "ce_state e = FLA_SLAB_CACHE_ELEM_STALE")
    case True
    from elem_load_stored [OF assms(1) e True assms(3-5,7,6)] assms(8)
    have "fs' = fs \<or> fs' = put_elem fs i \<lparr>ce_freelist = Some f, ce_state = FLA_SLAB_CACHE_ELEM_CLEAN\<rparr>" by auto
    moreover have "elem_inv blk fs d i \<lparr>ce_freelist = Some f, ce_state = FLA_SLAB_CACHE_ELEM_CLEAN\<rparr>"
      using assms(4-7) by (simp add: elem_inv_def elem_ok_def)
    ultimately show ?thesis using cache_inv_put_same [OF assms(2) e] assms(2) by auto
  qed (use e assms in \<open>simp add: fla_slab_cache_elem_load_def\<close>)
qed

lemma drop_inv:
  assumes "cache_inv blk fs d" "fla_slab_cache_elem_drop fs i = Some fs'"
  shows "cache_inv blk fs' d \<and> same_env fs fs'"
proof -
  from assms(2) obtain e where e: "get_elem fs i = Some e"
    and fs': "fs' = put_elem fs i \<lparr>ce_freelist = None, ce_state = FLA_SLAB_CACHE_ELEM_STALE\<rparr>"
    by (auto simp: fla_slab_cache_elem_drop_def bind_eq_Some_conv)
  then show ?thesis using cache_inv_put_same [OF assms(1) e elem_inv_stale] by simp
qed

lemma flush_step_inv:
  assumes "cache_env X blk fs" "cache_inv blk fs d" "unat i < unat (g_nslabs (fs_geo fs))"
    "fla_slab_cache_elem_flush X fs i d = Some (r, fs', d')"
  shows "cache_inv blk fs' d' \<and> same_env fs fs'"
  using flush_inv [OF assms(1-3)] assms(4) by auto

lemma cache_step_inv:
  assumes "cache_step X blk (fs, d) (fs', d')" "cache_env X blk fs" "cache_inv blk fs d"
  shows "cache_inv blk fs' d' \<and> same_env fs fs'"
proof -
  note step = init_inv [OF assms(2,3)] load_inv [OF assms(2,3)] flush_step_inv [OF assms(2,3)] drop_inv [OF assms(3)]
    alloc_inv [OF assms(3)] free_inv [OF assms(3)]
  show ?thesis
    using assms(1)
    apply (rule cache_stepE)
    subgoal by (simp add: step(1))
    subgoal by (simp add: step(2))
    subgoal by (simp add: step(3))
    subgoal by (simp add: step(4))
    subgoal by (simp add: step(5))
    subgoal by (simp add: step(6))
    done
qed

lemma cache_steps_inv:
  assumes "(cache_step X blk)\<^sup>*\<^sup>* (fs, d) (fs', d')" "cache_env X blk fs" "cache_inv blk fs d"
  shows "cache_inv blk fs' d' \<and> same_env fs fs'"
  using assms(1)
proof (induction "(fs', d')" arbitrary: fs' d' rule: rtranclp_induct)
  case base
  then show ?case using assms(3) by simp
next
  case (step y)
  obtain fs1 d1 where y: "y = (fs1, d1)" by (cases y)
  then have IH: "cache_inv blk fs1 d1" "same_env fs fs1" using step.hyps(3) by auto
  moreover have "cache_env X blk fs1" using IH(2) assms(2) cache_env_cong [of fs1 fs X blk] by (simp add: same_env_def)
  ultimately show ?case using cache_step_inv [of X blk fs1 d1 fs' d'] step.hyps(2) y same_env_trans by blast
qed

text \<open>Flushing all elements.\<close>

definition not_dirty :: "flexalloc \<Rightarrow> u32 \<Rightarrow> bool" where
  "not_dirty fs i \<longleftrightarrow> (\<exists>e. get_elem fs i = Some e \<and> ce_state e \<noteq> FLA_SLAB_CACHE_ELEM_DIRTY)"

definition same_lists :: "flexalloc \<Rightarrow> flexalloc \<Rightarrow> bool" where
  "same_lists fs fs' \<longleftrightarrow> (\<forall>j. unat j < unat (g_nslabs (fs_geo fs)) \<longrightarrow>
     map_option ce_freelist (get_elem fs' j) = map_option ce_freelist (get_elem fs j))"

lemma cache_flush_loop_inv:
  assumes "cache_env X blk fs" "cache_inv blk fs d" "k + m = unat (g_nslabs (fs_geo fs))"
    "\<forall>j. unat j < k \<longrightarrow> err = 0 \<longrightarrow> not_dirty fs j" "0 \<le> err"
  shows "\<exists>err' fs' d'. cache_flush_loop X fs k m err d = Some (err', fs', d') \<and> cache_inv blk fs' d' \<and> same_env fs fs'
    \<and> same_lists fs fs' \<and> 0 \<le> err' \<and> (dev_good X fs \<longrightarrow> err' = err) \<and> (err' = 0 \<longrightarrow> (\<forall>j. unat j < k + m \<longrightarrow> not_dirty fs' j))"
  using assms
proof (induction m arbitrary: fs k err d)
  case 0
  then show ?case by (simp add: same_lists_def)
next
  case (Suc m)
  have k: "unat (of_nat k :: u32) = k" "k < unat (g_nslabs (fs_geo fs))"
    using Suc.prems(3) unat_less_exp [of "g_nslabs (fs_geo fs)"] by (auto intro!: unat_of_nat_small)
  from flush_inv [OF Suc.prems(1,2), of "of_nat k"] k obtain r fs1 d1 where
    fl: "fla_slab_cache_elem_flush X fs (of_nat k) d = Some (r, fs1, d1)" "cache_inv blk fs1 d1" "same_env fs fs1"
    and lists: "\<forall>j. unat j < unat (g_nslabs (fs_geo fs)) \<longrightarrow>
        map_option ce_freelist (get_elem fs1 j) = map_option ce_freelist (get_elem fs j)
        \<and> (j \<noteq> of_nat k \<longrightarrow> get_elem fs1 j = get_elem fs j)"
    and good: "dev_good X fs \<longrightarrow> r = 0"
    and ok: "r = 0 \<longrightarrow> (\<exists>e. get_elem fs1 (of_nat k) = Some e \<and> ce_state e \<noteq> FLA_SLAB_CACHE_ELEM_DIRTY)" by auto
  have geo: "fs_geo fs1 = fs_geo fs" using fl(3) by (simp add: same_env_def)
  have env: "cache_env X blk fs1" using fl(3) Suc.prems(1) cache_env_cong [of fs1 fs X blk] by (simp add: same_env_def)
  have upto: "\<forall>j. unat j < Suc k \<longrightarrow> (if r \<noteq> 0 then err + 1 else err) = 0 \<longrightarrow> not_dirty fs1 j"
  proof (intro allI impI)
    fix j :: u32 assume j: "unat j < Suc k" "(if r \<noteq> 0 then err + 1 else err) = 0"
    then have "r = 0" "err = 0" using Suc.prems(5) by (auto split: if_splits)
    show "not_dirty fs1 j"
    proof (cases "j = of_nat k")
      case False
      then have "unat j \<noteq> unat (of_nat k :: u32)" by simp
      then have "unat j < k" using j(1) k(1) by simp
      then show ?thesis using Suc.prems(4) \<open>err = 0\<close> lists False k(2) by (simp add: not_dirty_def)
    qed (use ok \<open>r = 0\<close> in \<open>simp add: not_dirty_def\<close>)
  qed
  have "same_lists fs fs1" using lists by (simp add: same_lists_def)
  moreover have pos: "0 \<le> (if r \<noteq> 0 then err + 1 else err)" using Suc.prems(5) by simp
  moreover have nk: "Suc k + m = unat (g_nslabs (fs_geo fs1))" using Suc.prems(3) geo by simp
  moreover obtain err' fs' d' where "cache_flush_loop X fs1 (Suc k) m (if r \<noteq> 0 then err + 1 else err) d1 = Some (err', fs', d')"
    "cache_inv blk fs' d'" "same_env fs1 fs'" "same_lists fs1 fs'" "0 \<le> err'"
    "dev_good X fs1 \<longrightarrow> err' = (if r \<noteq> 0 then err + 1 else err)"
    "err' = 0 \<longrightarrow> (\<forall>j. unat j < Suc k + m \<longrightarrow> not_dirty fs' j)"
    using Suc.IH [OF env fl(2) nk upto pos] by blast
  moreover have "dev_good X fs1 = dev_good X fs" using fl(3) by (intro dev_good_cong) (simp_all add: same_env_def)
  ultimately show ?case
    using fl same_env_trans good by (auto simp: same_lists_def geo)
qed

lemma fla_slab_cache_flush_inv:
  assumes "cache_env X blk fs" "cache_inv blk fs d" "fs_slab_cache fs \<noteq> None"
  shows "\<exists>err fs' d'. fla_slab_cache_flush X fs d = Some (err, fs', d') \<and> cache_inv blk fs' d' \<and> same_env fs fs'
    \<and> same_lists fs fs' \<and> (dev_good X fs \<longrightarrow> err = 0)
    \<and> (err = 0 \<longrightarrow> (\<forall>j. unat j < unat (g_nslabs (fs_geo fs)) \<longrightarrow> not_dirty fs' j))"
  using cache_flush_loop_inv [OF assms(1,2), of 0 "unat (g_nslabs (fs_geo fs))" 0] assms(3)
  by (auto simp: fla_slab_cache_flush_def)

lemma fresh_cache_inv:
  assumes "fla_slab_cache_init X fs = (0, fs')" "su_nslabs (fs_super fs) = g_nslabs (fs_geo fs)"
  shows "cache_inv blk fs' d \<and> same_env fs fs'"
proof -
  have fs': "fs' = fs\<lparr>fs_slab_cache := Some (replicate (unat (g_nslabs (fs_geo fs)))
      \<lparr>ce_freelist = None, ce_state = FLA_SLAB_CACHE_ELEM_STALE\<rparr>)\<rparr>"
    using assms by (auto simp: fla_slab_cache_init_def split: if_splits)
  then show ?thesis
    by (auto simp: cache_inv_def get_elem_def elem_inv_stale same_env_def)
qed

section \<open>Properties\<close>

text \<open>An open file system on the device in memory, with an empty cache.\<close>

definition cache_example :: flexalloc where
  "cache_example = fs_example\<lparr>fs_super := \<lparr>su_magic = 0, su_nslabs = 5, su_slab_nlb = 200, su_npools = 2,
     su_md_nlb = 1, su_fmt_version = 1\<rparr>\<rparr>"

lemma cache_example_fields:
  "fs_geo cache_example = geo_example" "cs_t (fs_cs cache_example) = FLA_CS_CNS"
  "\<not> dv_md_dev (fs_dev cache_example)" "cache_dev cache_example = Data_dev" "fs_slab_cache cache_example = None"
  "su_nslabs (fs_super cache_example) = 5" "su_slab_nlb (fs_super cache_example) = 200"
  "g_nslabs geo_example = 5" "g_slab_nlb geo_example = 200" "g_lb_nbytes geo_example = 512"
  by (simp_all add: cache_example_def cache_dev_def geo_example_def) (simp_all add: fs_example_def fs_zero_def)

lemma cache_example_env: "cache_env mem_xnvme mem_blk cache_example"
proof -
  have "lbsz mem_xnvme Data_dev = 512" by (simp add: mem_xnvme_def mem_geo_def)
  then show ?thesis
    using mem_storage mem_ranges mem_bufs mem_xfer_ok [of Data_dev] by (simp add: cache_env_def cache_example_fields)
qed

definition cache_example_open :: flexalloc where
  "cache_example_open = snd (fla_slab_cache_init mem_xnvme cache_example)"

lemma cache_example_init: "fla_slab_cache_init mem_xnvme cache_example = (0, cache_example_open)"
  by (simp add: cache_example_open_def fla_slab_cache_init_def cache_example_fields) (simp add: mem_xnvme_def)

lemma mem_dev_good:
  assumes "cache_env mem_xnvme mem_blk fs" "\<not> dv_md_dev (fs_dev fs)"
    "md_blocks (fs_geo fs) + unat (g_nslabs (fs_geo fs)) * unat (g_slab_nlb (fs_geo fs)) \<le> 1024"
  shows "dev_good mem_xnvme fs"
  unfolding dev_good_def
proof (intro conjI allI impI)
  show "reliable mem_xnvme (cache_dev fs)" by (rule mem_reliable)
  show "x_buf_alloc mem_xnvme Data_dev n \<noteq> None" for n by (simp add: mem_xnvme_def)
  fix i n slba
  let ?nlb = "fla_slab_cache_flist_nlb fs n" and ?s = "unat (g_slab_nlb (fs_geo fs))"
  assume a: "unat i < unat (g_nslabs (fs_geo fs)) \<and> flist_blocks (lb_of fs) (unat n) \<le> slot_room fs
    \<and> cache_entry_lb_slba fs i (ucast ?nlb) = Some slba"
  have lb: "0 < lb_of fs" using assms(1) by (simp add: cache_env_def)
  have nlb: "unat ?nlb = flist_blocks (lb_of fs) (unat n)" "unat (ucast ?nlb :: u32) = flist_blocks (lb_of fs) (unat n)"
    using lb a flist_nlb_u32 [OF lb] by (simp_all add: flist_nlb_nat)
  have "unat slba = flist_slot fs (unat i) (flist_blocks (lb_of fs) (unat n))"
    using slot_start [OF assms(1), of i "ucast ?nlb"] a nlb(2) by auto
  moreover have "Suc (unat i) * ?s \<le> unat (g_nslabs (fs_geo fs)) * ?s"
    using a by (intro mult_le_mono1) simp
  moreover have "0 < flist_blocks (lb_of fs) (unat n)" using flist_blocks_room(3) [OF lb] .
  ultimately have "unat slba + unat ?nlb \<le> 1024 \<and> ?nlb \<noteq> 0"
    using assms(2,3) a nlb(1) by (auto simp: flist_slot_def slot_room_def slab_start_def unat_eq_0 [symmetric])
  then show "lr_is_valid (x_range_from_slba mem_xnvme (cache_dev fs) slba ?nlb)"
    by (simp add: mem_xnvme_def mem_range_def)
qed

text \<open>The example after a slab was created with three objects.\<close>

lemma cache_example_dirty:
  "\<exists>fs f. fla_slab_cache_elem_init mem_xnvme cache_example_open 1 3 = Some (0, fs) \<and> cache_env mem_xnvme mem_blk fs
    \<and> cache_inv mem_blk fs (\<lambda>_ _. []) \<and> fs_slab_cache fs \<noteq> None \<and> dev_good mem_xnvme fs \<and> same_env cache_example fs
    \<and> get_elem fs 1 = Some \<lparr>ce_freelist = Some f, ce_state = FLA_SLAB_CACHE_ELEM_DIRTY\<rparr> \<and> flist_cap f = 3 \<and> flist_free f = {..<3}"
proof -
  have env0: "same_env cache_example cache_example_open" and inv0: "cache_inv mem_blk cache_example_open (\<lambda>_ _. [])"
    using fresh_cache_inv [OF cache_example_init, of mem_blk "\<lambda>_ _. []"] by (auto simp: cache_example_fields)
  have env: "cache_env mem_xnvme mem_blk cache_example_open"
    using cache_example_env env0 cache_env_cong [of cache_example_open cache_example mem_xnvme mem_blk] by (simp add: same_env_def)
  have geo: "fs_geo cache_example_open = geo_example" "fs_dev cache_example_open = fs_dev cache_example"
    using env0 by (simp_all add: same_env_def cache_example_fields)
  have el: "get_elem cache_example_open 1 = Some \<lparr>ce_freelist = None, ce_state = FLA_SLAB_CACHE_ELEM_STALE\<rparr>"
    "fs_slab_cache cache_example_open \<noteq> None"
    by (simp_all add: cache_example_open_def fla_slab_cache_init_def cache_example_fields get_elem_def mem_xnvme_def)
  have bl: "flist_blocks 512 3 = 1" "slot_room cache_example_open = 200"
    by (simp_all add: flist_blocks_def slot_room_def geo cache_example_fields)
  from fla_slab_cache_elem_init_ok [OF mem_bufs _ _ el(1), of 3] obtain fs f where
    i: "fla_slab_cache_elem_init mem_xnvme cache_example_open 1 3 = Some (0, fs)"
      "fs = put_elem cache_example_open 1 \<lparr>ce_freelist = Some f, ce_state = FLA_SLAB_CACHE_ELEM_DIRTY\<rparr>" "flist_cap f = 3" "flist_free f = {..<3}"
    by (auto simp: geo cache_example_fields mem_xnvme_def)
  have inv: "cache_inv mem_blk fs (\<lambda>_ _. [])" "same_env cache_example_open fs"
    using init_inv [OF env inv0 _ _ _ _ i(1)] bl by (simp_all add: geo cache_example_fields)
  have env1: "cache_env mem_xnvme mem_blk fs" "fs_geo fs = geo_example" "fs_dev fs = fs_dev cache_example"
    using env inv(2) geo cache_env_cong [of fs cache_example_open mem_xnvme mem_blk] by (simp_all add: same_env_def)
  have "md_blocks geo_example = 5"
    by (simp add: md_blocks_def geo_example_def fla_geo_pool_sgmt_nblocks_def fla_geo_slab_sgmt_nblocks_def)
  then have "dev_good mem_xnvme fs"
    using env1 by (intro mem_dev_good) (simp_all add: cache_example_fields)
  moreover have "fs_slab_cache fs \<noteq> None" using el(2) i(2) by (simp add: fs_fields)
  ultimately show ?thesis
    using i inv env1(1) env0 same_env_trans get_put_elem [OF el(1)] by auto
qed

text \<open>The same with two objects allocated at once and the element flushed.\<close>

lemma cache_example_run:
  "\<exists>fs' d' f. (cache_step mem_xnvme mem_blk)\<^sup>*\<^sup>* (cache_example_open, \<lambda>_ _. []) (fs', d')
    \<and> get_elem fs' 1 = Some \<lparr>ce_freelist = Some f, ce_state = FLA_SLAB_CACHE_ELEM_CLEAN\<rparr> \<and> flist_free f = {2} \<and> fs_geo fs' = geo_example"
proof -
  let ?d = "\<lambda>_ _. [] :: u8 list"
  from cache_example_dirty obtain fs1 f1 where 1: "fla_slab_cache_elem_init mem_xnvme cache_example_open 1 3 = Some (0, fs1)"
    "cache_env mem_xnvme mem_blk fs1" "cache_inv mem_blk fs1 ?d" "dev_good mem_xnvme fs1" "same_env cache_example fs1"
    "get_elem fs1 1 = Some \<lparr>ce_freelist = Some f1, ce_state = FLA_SLAB_CACHE_ELEM_DIRTY\<rparr>" "flist_cap f1 = 3" "flist_free f1 = {..<3}" by blast
  have geo0: "fs_geo cache_example_open = geo_example" "fs_dev cache_example_open = fs_dev cache_example"
    using fresh_cache_inv [OF cache_example_init, of mem_blk ?d] by (simp_all add: same_env_def cache_example_fields)
  have geo1: "fs_geo fs1 = geo_example" using 1(5) by (simp add: same_env_def cache_example_fields)
  have one: "unat (1 :: u32) < unat (g_nslabs geo_example)" by (simp add: cache_example_fields)
  have s1: "cache_step mem_xnvme mem_blk (cache_example_open, ?d) (fs1, ?d)"
    using one by (intro step_init [OF _ _ _ _ 1(1)]) (simp_all add: geo0 cache_example_fields slot_room_def flist_blocks_def)
  have "elem_inv mem_blk fs1 ?d 1 \<lparr>ce_freelist = Some f1, ce_state = FLA_SLAB_CACHE_ELEM_DIRTY\<rparr>"
    using cache_invD [OF 1(3), of 1] 1(6) one by (force simp: geo1)
  then have f1: "flist_inv f1" "flist_fits fs1 f1" "flist_blocks (lb_of fs1) (flist_cap f1) \<le> slot_room fs1"
    by (auto simp: elem_inv_def elem_ok_def flist_fits_def)
  have m: "Min {..<3 :: nat} = 0" by (intro Min_eqI) auto
  have "{Min (flist_free f1)..<Min (flist_free f1) + unat (2 :: u32)} \<subseteq> flist_free f1" unfolding 1(8) m by auto
  from fla_flist_entries_alloc_run [OF f1(1) _ _ this] obtain f2 where
    f2: "fla_flist_entries_alloc f1 2 = Some (0, f2)" "flist_upd f1 f2 ({..<3} - {0..<Suc (Suc 0)})" by (auto simp: 1(8) m lessThan_empty_iff)
  have "{..<3} - {0..<Suc (Suc 0)} = {2 :: nat}" by (rule set_eqI) (simp, arith)
  then have free2: "flist_free f2 = {2}" using f2(2) by (simp add: flist_upd_def)
  define fs2 where "fs2 = put_elem fs1 1 \<lparr>ce_freelist = Some f2, ce_state = FLA_SLAB_CACHE_ELEM_DIRTY\<rparr>"
  have al: "fla_slab_cache_obj_alloc fs1 1 2 = Some (0, fs2, Some \<lparr>ob_slab_id = 1, ob_entry_ndx = 0\<rparr>)"
    using 1(6) f2(1) by (simp add: fla_slab_cache_obj_alloc_def fs2_def)
  have s2: "cache_step mem_xnvme mem_blk (fs1, ?d) (fs2, ?d)" by (rule step_alloc [OF _ al]) (simp_all add: geo1 cache_example_fields)
  have g2: "get_elem fs2 1 = Some \<lparr>ce_freelist = Some f2, ce_state = FLA_SLAB_CACHE_ELEM_DIRTY\<rparr>"
    by (simp add: fs2_def get_put_elem [OF 1(6)])
  have same: "fs_dev fs2 = fs_dev fs1" "fs_geo fs2 = fs_geo fs1" "fs_cs fs2 = fs_cs fs1" "fs_super fs2 = fs_super fs1"
    by (simp_all add: fs2_def fs_fields)
  have env2: "cache_env mem_xnvme mem_blk fs2" "dev_good mem_xnvme fs2"
    using 1(2,4) cache_env_cong [OF same, of mem_xnvme mem_blk] dev_good_cong [OF same, of mem_xnvme] by simp_all
  have fit2: "elem_ok fs2 \<lparr>ce_freelist = Some f2, ce_state = FLA_SLAB_CACHE_ELEM_DIRTY\<rparr>"
    "flist_blocks (lb_of fs2) (flist_cap f2) \<le> slot_room fs2" "unat (1 :: u32) < unat (g_nslabs (fs_geo fs2))"
    using flist_fits_upd [OF f1(2) f2(2)] f1(3) f2(2) one
    by (auto simp: elem_ok_def flist_fits_def flist_upd_def slot_room_def same geo1 split: if_splits)
  from elem_flush_dirty [OF env2(1) g2 fit2(1) _ _ fit2(3,2), of ?d] env2(2) obtain fs3 d3 where
    fl: "fla_slab_cache_elem_flush mem_xnvme fs2 1 ?d = Some (0, fs3, d3)"
      "fs3 = put_elem fs2 1 \<lparr>ce_freelist = Some f2, ce_state = FLA_SLAB_CACHE_ELEM_CLEAN\<rparr>" by auto
  have s3: "cache_step mem_xnvme mem_blk (fs2, ?d) (fs3, d3)" by (rule step_flush [OF fit2(3) fl(1)])
  have "(cache_step mem_xnvme mem_blk)\<^sup>*\<^sup>* (cache_example_open, ?d) (fs3, d3)"
    using s1 s2 s3 by (meson converse_rtranclp_into_rtranclp r_into_rtranclp)
  moreover have "get_elem fs3 1 = Some \<lparr>ce_freelist = Some f2, ce_state = FLA_SLAB_CACHE_ELEM_CLEAN\<rparr>"
    by (simp add: fl(2) get_put_elem [OF g2])
  moreover have "fs_geo fs3 = geo_example" using geo1 same(2) by (simp add: fl(2) fs_fields)
  ultimately show ?thesis using free2 by blast
qed

text \<open>
  C33: On a fresh cache, after any sequence of initialising elements, loading freelists that the device
  holds, flushing, dropping, allocating any number of objects and releasing objects whose indices are
  in range, every element that is not stale holds a well-formed freelist of the size of its buffer, and
  every clean element is byte for byte what the device holds. The sequences are those in which no
  allocation of several objects from a clean element fails, because such a failure breaks the property.
\<close>

theorem fla_slab_cache_reachable:
  assumes "cache_env X blk fs" "su_nslabs (fs_super fs) = g_nslabs (fs_geo fs)"
    "fla_slab_cache_init X fs = (0, fs0)" "(cache_step X blk)\<^sup>*\<^sup>* (fs0, d) (fs', d')"
  shows "cache_inv blk fs' d'"
proof -
  have "cache_inv blk fs0 d" and env: "same_env fs fs0" using fresh_cache_inv [OF assms(3,2), of blk d] by auto
  moreover have "cache_env X blk fs0"
    using assms(1) env cache_env_cong [of fs0 fs X blk] by (simp add: same_env_def)
  ultimately show ?thesis using cache_steps_inv [OF assms(4)] by blast
qed

theorem fla_slab_cache_reachable_witness:
  "\<exists>fs' d' f. (cache_step mem_xnvme mem_blk)\<^sup>*\<^sup>* (cache_example_open, \<lambda>_ _. []) (fs', d')
    \<and> get_elem fs' 1 = Some \<lparr>ce_freelist = Some f, ce_state = FLA_SLAB_CACHE_ELEM_CLEAN\<rparr> \<and> flist_free f = {2} \<and> stored mem_blk fs' d' 1 f"
proof -
  from cache_example_run obtain fs' d' f where
    r: "(cache_step mem_xnvme mem_blk)\<^sup>*\<^sup>* (cache_example_open, \<lambda>_ _. []) (fs', d')"
      "get_elem fs' 1 = Some \<lparr>ce_freelist = Some f, ce_state = FLA_SLAB_CACHE_ELEM_CLEAN\<rparr>" "flist_free f = {2}"
      "fs_geo fs' = geo_example" by blast
  have inv: "cache_inv mem_blk fs' d'"
    using fla_slab_cache_reachable [OF cache_example_env _ cache_example_init r(1)] by (simp add: cache_example_fields)
  have "unat (1 :: u32) < unat (g_nslabs (fs_geo fs'))" by (simp add: r(4) cache_example_fields)
  then have "stored mem_blk fs' d' 1 f" using cache_invD [OF inv, of 1] r(2) by (force simp: elem_inv_def)
  with r show ?thesis by blast
qed

text \<open>
  The case left out of the steps: an allocation of more objects than are free, from a clean element.
  It fails, the element is still clean, and its freelist has nothing free any more.
\<close>

lemma cache_alloc_failed_differs:
  assumes "cache_inv blk fs d" "unat i < unat (g_nslabs (fs_geo fs))"
    "get_elem fs i = Some \<lparr>ce_freelist = Some f, ce_state = FLA_SLAB_CACHE_ELEM_CLEAN\<rparr>" "flist_free f \<noteq> {}" "card (flist_free f) < unat n"
  shows "\<exists>fs' f'. fla_slab_cache_obj_alloc fs i n = Some (1, fs', None) \<and> flist_free f' = {} \<and> \<not> cache_inv blk fs' d
    \<and> get_elem fs' i = Some \<lparr>ce_freelist = Some f', ce_state = FLA_SLAB_CACHE_ELEM_CLEAN\<rparr>"
proof -
  have e: "elem_inv blk fs d i \<lparr>ce_freelist = Some f, ce_state = FLA_SLAB_CACHE_ELEM_CLEAN\<rparr>"
    using cache_invD [OF assms(1,2)] assms(3) by force
  then have f: "flist_fits fs f" "flist_inv f" "stored blk fs d i f" by (auto simp: elem_inv_def elem_ok_def flist_fits_def)
  have "n \<noteq> 0" using assms(5) by auto
  from fla_flist_entries_alloc_short [OF f(2) this assms(5)] obtain f' where
    f': "fla_flist_entries_alloc f n = Some (-1, f')" "flist_upd f f' {}" by blast
  define fs' where "fs' = put_elem fs i \<lparr>ce_freelist = Some f', ce_state = FLA_SLAB_CACHE_ELEM_CLEAN\<rparr>"
  have run: "fla_slab_cache_obj_alloc fs i n = Some (1, fs', None)"
    using assms(3) f'(1) by (simp add: fla_slab_cache_obj_alloc_def fs'_def)
  have g: "get_elem fs' i = Some \<lparr>ce_freelist = Some f', ce_state = FLA_SLAB_CACHE_ELEM_CLEAN\<rparr>"
    by (simp add: fs'_def get_put_elem [OF assms(3)])
  have "\<not> cache_inv blk fs' d"
  proof
    assume inv: "cache_inv blk fs' d"
    have geo: "fs_dev fs' = fs_dev fs" "fs_geo fs' = fs_geo fs" by (simp_all add: fs'_def fs_fields)
    have "unat i < unat (g_nslabs (fs_geo fs'))" using assms(2) geo by simp
    then have "stored blk fs' d i f'" using cache_invD [OF inv, of i] g by (force simp: elem_inv_def)
    then have "stored blk fs d i f'" using stored_cong [OF geo, of blk d i f'] by simp
    then have "f' = f" using stored_unique [OF f(3) _ f(1) flist_fits_upd [OF f(1) f'(2)]] f'(2) by (simp add: flist_upd_def)
    then show False using f'(2) assms(4) by (simp add: flist_upd_def)
  qed
  then show ?thesis using run g f'(2) by (auto simp: flist_upd_def)
qed

text \<open>
  C34: Flushing the cache returns, keeps every freelist as it is, and when it reports no error
  every freelist in the cache is on the device.
\<close>

theorem fla_slab_cache_flush_stores:
  assumes "cache_env X blk fs" "cache_inv blk fs d" "fs_slab_cache fs \<noteq> None"
  shows "\<exists>err fs' d'. fla_slab_cache_flush X fs d = Some (err, fs', d') \<and> cache_inv blk fs' d' \<and> same_lists fs fs'
    \<and> (dev_good X fs \<longrightarrow> err = 0) \<and> (err = 0 \<longrightarrow> (\<forall>i f. unat i < unat (g_nslabs (fs_geo fs)) \<and> map_option ce_freelist (get_elem fs i) = Some (Some f)
         \<longrightarrow> stored blk fs d' i f))"
proof -
  from fla_slab_cache_flush_inv [OF assms] obtain err fs' d' where
    fl: "fla_slab_cache_flush X fs d = Some (err, fs', d')" "cache_inv blk fs' d'" "same_env fs fs'" "same_lists fs fs'"
    "err = 0 \<longrightarrow> (\<forall>j. unat j < unat (g_nslabs (fs_geo fs)) \<longrightarrow> not_dirty fs' j)" "dev_good X fs \<longrightarrow> err = 0" by blast
  have "stored blk fs d' i f" if i: "unat i < unat (g_nslabs (fs_geo fs))" "err = 0"
    and f: "map_option ce_freelist (get_elem fs i) = Some (Some f)" for i f
  proof -
    have geo: "fs_geo fs' = fs_geo fs" "fs_dev fs' = fs_dev fs" using fl(3) by (simp_all add: same_env_def)
    obtain e where e: "get_elem fs' i = Some e" "elem_inv blk fs' d' i e"
      using cache_invD [OF fl(2), of i] i(1) geo by auto
    have "map_option ce_freelist (get_elem fs' i) = Some (Some f)" using fl(4) i(1) f by (simp only: same_lists_def)
    then have "ce_freelist e = Some f" using e(1) by simp
    moreover have "ce_state e \<noteq> FLA_SLAB_CACHE_ELEM_DIRTY" using fl(5) i e(1) by (auto simp: not_dirty_def)
    ultimately have "stored blk fs' d' i f"
      using e(2) by (cases "ce_state e") (auto simp: elem_inv_def elem_ok_def)
    then show ?thesis using stored_cong [of fs' fs blk d' i f] geo by simp
  qed
  then show ?thesis using fl by blast
qed

theorem fla_slab_cache_flush_stores_witness:
  "\<exists>fs f fs' d'. fla_slab_cache_elem_init mem_xnvme cache_example_open 1 3 = Some (0, fs)
    \<and> map_option ce_freelist (get_elem fs 1) = Some (Some f)
    \<and> fla_slab_cache_flush mem_xnvme fs (\<lambda>_ _. []) = Some (0, fs', d') \<and> stored mem_blk fs d' 1 f"
proof -
  from cache_example_dirty obtain fs f where ex: "fla_slab_cache_elem_init mem_xnvme cache_example_open 1 3 = Some (0, fs)"
    "cache_env mem_xnvme mem_blk fs" "cache_inv mem_blk fs (\<lambda>_ _. [])" "fs_slab_cache fs \<noteq> None" "dev_good mem_xnvme fs"
    "same_env cache_example fs" "get_elem fs 1 = Some \<lparr>ce_freelist = Some f, ce_state = FLA_SLAB_CACHE_ELEM_DIRTY\<rparr>" by blast
  have "unat (1 :: u32) < unat (g_nslabs (fs_geo fs))" using ex(6) by (simp add: same_env_def cache_example_fields)
  then show ?thesis using fla_slab_cache_flush_stores [OF ex(2-4)] ex(1,5,7) by fastforce
qed

text \<open>
  What a flush wrote can be read back: when flushing a dirty element returned 0, dropping it
  and loading it again gives the same freelist, marked clean.
\<close>

theorem fla_slab_cache_flush_load:
  assumes "cache_env X blk fs" "cache_inv blk fs d" "unat i < unat (g_nslabs (fs_geo fs))"
    "get_elem fs i = Some e" "ce_state e = FLA_SLAB_CACHE_ELEM_DIRTY" "ce_freelist e = Some f"
    "fla_slab_cache_elem_flush X fs i d = Some (0, fs1, d1)" "fla_slab_cache_elem_drop fs1 i = Some fs2"
  shows "\<exists>r fs3. fla_slab_cache_elem_load X fs2 i (of_nat (flist_cap f)) d1 = Some (r, fs3)
    \<and> (dev_good X fs \<longrightarrow> r = 0)
    \<and> (r = 0 \<longrightarrow> get_elem fs3 i = Some \<lparr>ce_freelist = Some f, ce_state = FLA_SLAB_CACHE_ELEM_CLEAN\<rparr>)"
proof -
  have ei: "elem_inv blk fs d i e" using cache_invD [OF assms(2,3)] assms(4) by force
  then have e: "elem_ok fs e" "flist_blocks (lb_of fs) (flist_cap f) \<le> slot_room fs" "flist_fits fs f" "flist_inv f"
    using assms(5,6) by (auto simp: elem_inv_def elem_ok_def flist_fits_def)
  from elem_flush_dirty [OF assms(1,4) e(1) assms(5,6,3) e(2), of d] assms(7)
  have fs1: "fs1 = put_elem fs i (e\<lparr>ce_state := FLA_SLAB_CACHE_ELEM_CLEAN\<rparr>)" and st: "stored blk fs d1 i f" by auto
  have fs2: "fs2 = put_elem fs1 i \<lparr>ce_freelist = None, ce_state = FLA_SLAB_CACHE_ELEM_STALE\<rparr>"
    using assms(8) by (auto simp: fla_slab_cache_elem_drop_def bind_eq_Some_conv)
  have "same_env fs fs2" using same_env_trans [OF same_env_put same_env_put] by (simp add: fs2 fs1)
  then have same: "fs_dev fs2 = fs_dev fs" "fs_geo fs2 = fs_geo fs" "fs_cs fs2 = fs_cs fs" "fs_super fs2 = fs_super fs"
    by (simp_all add: same_env_def)
  have g1: "get_elem fs1 i = Some (e\<lparr>ce_state := FLA_SLAB_CACHE_ELEM_CLEAN\<rparr>)"
    using get_put_elem [OF assms(4)] by (simp add: fs1)
  have g2: "get_elem fs2 i = Some \<lparr>ce_freelist = None, ce_state = FLA_SLAB_CACHE_ELEM_STALE\<rparr>"
    using get_put_elem [OF g1] by (simp add: fs2)
  have n: "unat (of_nat (flist_cap f) :: u32) = flist_cap f" using e(4) by (simp add: flist_inv_def unat_of_nat_small)
  have good: "dev_good X fs2 = dev_good X fs" by (rule dev_good_cong [OF same])
  have env2: "cache_env X blk fs2" "stored blk fs2 d1 i f"
    using assms(1) st stored_cong [OF same(1,2), of blk d1 i f] cache_env_cong [OF same, of X blk] by simp_all
  have fits2: "flist_fits fs2 f" "flist_blocks (lb_of fs2) (unat (of_nat (flist_cap f) :: u32)) \<le> slot_room fs2"
    "unat i < unat (g_nslabs (fs_geo fs2))"
    using e(2,3) assms(3) n by (simp_all add: same flist_fits_def slot_room_def split: if_splits)
  from elem_load_stored [OF env2(1) g2 _ fits2(3,1) _ env2(2) fits2(2)] n
  have "\<exists>r fs3. fla_slab_cache_elem_load X fs2 i (of_nat (flist_cap f)) d1 = Some (r, fs3)
    \<and> fs3 = (if r = 0 then put_elem fs2 i \<lparr>ce_freelist = Some f, ce_state = FLA_SLAB_CACHE_ELEM_CLEAN\<rparr> else fs2)
    \<and> (dev_good X fs2 \<longrightarrow> r = 0)" by simp
  then show ?thesis using good get_put_elem [OF g2] by auto
qed

theorem fla_slab_cache_flush_load_witness:
  "\<exists>fs f fs1 d1 fs2 fs3. fla_slab_cache_elem_init mem_xnvme cache_example_open 1 3 = Some (0, fs)
    \<and> fla_slab_cache_elem_flush mem_xnvme fs 1 (\<lambda>_ _. []) = Some (0, fs1, d1)
    \<and> fla_slab_cache_elem_drop fs1 1 = Some fs2 \<and> fla_slab_cache_elem_load mem_xnvme fs2 1 3 d1 = Some (0, fs3)
    \<and> get_elem fs3 1 = Some \<lparr>ce_freelist = Some f, ce_state = FLA_SLAB_CACHE_ELEM_CLEAN\<rparr>"
proof -
  from cache_example_dirty obtain fs f where ex: "fla_slab_cache_elem_init mem_xnvme cache_example_open 1 3 = Some (0, fs)"
    "cache_env mem_xnvme mem_blk fs" "cache_inv mem_blk fs (\<lambda>_ _. [])" "dev_good mem_xnvme fs"
    "same_env cache_example fs" "get_elem fs 1 = Some \<lparr>ce_freelist = Some f, ce_state = FLA_SLAB_CACHE_ELEM_DIRTY\<rparr>"
    "flist_cap f = 3" by blast
  have i: "unat (1 :: u32) < unat (g_nslabs (fs_geo fs))" using ex(5) by (simp add: same_env_def cache_example_fields)
  from flush_inv [OF ex(2,3) i] ex(4) obtain fs1 d1 where fl: "fla_slab_cache_elem_flush mem_xnvme fs 1 (\<lambda>_ _. []) = Some (0, fs1, d1)"
    "map_option ce_freelist (get_elem fs1 1) = map_option ce_freelist (get_elem fs 1)" using i by blast
  then obtain e1 where "get_elem fs1 1 = Some e1" using ex(6) by auto
  then obtain fs2 where dr: "fla_slab_cache_elem_drop fs1 1 = Some fs2" by (simp add: fla_slab_cache_elem_drop_def)
  from fla_slab_cache_flush_load [OF ex(2,3) i ex(6) _ _ fl(1) dr, of f] ex(4,7) show ?thesis
    using ex(1) fl(1) dr by auto
qed

end
