(* ===== verification/Fla_Layout.thy ===== *)
theory Fla_Layout
  imports Fla_Slabcache
begin

text \<open>
  The layout of the metadata on the device. \<open>fla_init\<close> and \<open>fla_pool_init\<close> set pointers into one
  buffer: the super block, the pool freelist, the header and the entries of the hash table, the
  pool entries, the slab headers, and three words at the end of the slab segment. The structures
  have the layout of the C compiler for a 64-bit little-endian machine. Elsewhere the model keeps
  the structures themselves; here they are read from and written into the bytes of the buffer.
  The bytes that belong to no field, padding and the rests of blocks, stay as they were.

  \<open>struct_codec\<close> is the contract of a structure of fixed size, with arrays of it.
\<close>

section \<open>Words of 16 and 64 bits\<close>

definition u32_at :: "u8 list \<Rightarrow> nat \<Rightarrow> u32" where
  "u32_at b k = le_word (b ! k) (b ! (k + 1)) (b ! (k + 2)) (b ! (k + 3))"

definition u64_at :: "u8 list \<Rightarrow> nat \<Rightarrow> u64" where
  "u64_at b k = ucast (u32_at b k) OR push_bit 32 (ucast (u32_at b (k + 4)))"

definition u16_at :: "u8 list \<Rightarrow> nat \<Rightarrow> u16" where
  "u16_at b k = ucast (b ! k) OR push_bit 8 (ucast (b ! (k + 1)))"

definition le64 :: "u64 \<Rightarrow> u8 list" where
  "le64 w = le_bytes (ucast w) @ le_bytes (ucast (drop_bit 32 w))"

definition le16 :: "u16 \<Rightarrow> u8 list" where
  "le16 w = [ucast w, ucast (drop_bit 8 w)]"

lemma length_le [simp]: "length (le_bytes w) = 4" "length (le64 v) = 8" "length (le16 h) = 2"
  by (simp_all add: le_bytes_def le64_def le16_def)

lemma u32_at_le: "u32_at (le_bytes w @ r) 0 = w"
  by (simp add: u32_at_def le_bytes_def le_word_bytes)

lemma u32_at_last: "u32_at (le_bytes w) 0 = w"
  using u32_at_le [of w "[]"] by simp

lemma u64_halves: "ucast (ucast w :: u32) OR push_bit 32 (ucast (ucast (drop_bit 32 w) :: u32)) = (w :: u64)"
  by (rule bit_word_eqI) (auto simp: bit_ucast_iff bit_drop_bit_eq bit_push_bit_iff bit_or_iff)

lemma u16_halves: "ucast (ucast w :: u8) OR push_bit 8 (ucast (ucast (drop_bit 8 w) :: u8)) = (w :: u16)"
  by (rule bit_word_eqI) (auto simp: bit_ucast_iff bit_drop_bit_eq bit_push_bit_iff bit_or_iff)

lemma u32_at_append: "u32_at (xs @ ys) (length xs + k) = u32_at ys k"
  by (simp add: u32_at_def nth_append)

lemma u64_at_append: "u64_at (xs @ ys) (length xs + k) = u64_at ys k"
  using u32_at_append [of xs ys k] u32_at_append [of xs ys "k + 4"] by (simp add: u64_at_def add.assoc)

lemma u16_at_append: "u16_at (xs @ ys) (length xs + k) = u16_at ys k"
  by (simp add: u16_at_def nth_append)

lemma u64_at_le: "u64_at (le64 w @ r) 0 = w"
  using u32_at_append [of "le_bytes (ucast w)" "le_bytes (ucast (drop_bit 32 w)) @ r" 0]
  by (simp add: u64_at_def le64_def u32_at_le u64_halves)

lemma u16_at_le: "u16_at (le16 w @ r) 0 = w"
  by (simp add: u16_at_def le16_def u16_halves)

text \<open>Reading behind a field of known size.\<close>

lemma at_skip:
  "length xs \<le> k \<Longrightarrow> u32_at (xs @ ys) k = u32_at ys (k - length xs)"
  "length xs \<le> k \<Longrightarrow> u64_at (xs @ ys) k = u64_at ys (k - length xs)"
  "length xs \<le> k \<Longrightarrow> u16_at (xs @ ys) k = u16_at ys (k - length xs)"
  using u32_at_append [of xs ys "k - length xs"] u64_at_append [of xs ys "k - length xs"]
    u16_at_append [of xs ys "k - length xs"] by simp_all

lemmas field_at = u32_at_le u32_at_last u64_at_le u16_at_le at_skip

section \<open>The structures\<close>

definition super_of :: "u8 list \<Rightarrow> fla_super" where
  "super_of b = \<lparr>su_magic = u64_at b 0, su_nslabs = u32_at b 8, su_slab_nlb = u32_at b 12,
     su_npools = u32_at b 16, su_md_nlb = u32_at b 20, su_fmt_version = b ! 24\<rparr>"

definition super_bytes :: "u8 list \<Rightarrow> fla_super \<Rightarrow> u8 list" where
  "super_bytes old s = le64 (su_magic s) @ le_bytes (su_nslabs s) @ le_bytes (su_slab_nlb s)
     @ le_bytes (su_npools s) @ le_bytes (su_md_nlb s) @ [su_fmt_version s] @ drop 25 old"

definition htbl_header_of :: "u8 list \<Rightarrow> fla_pool_htbl_header" where
  "htbl_header_of b = \<lparr>hh_size = u32_at b 0, hh_len = u32_at b 4\<rparr>"

definition htbl_header_bytes :: "u8 list \<Rightarrow> fla_pool_htbl_header \<Rightarrow> u8 list" where
  "htbl_header_bytes old h = le_bytes (hh_size h) @ le_bytes (hh_len h) @ drop 8 old"

definition htbl_entry_of :: "u8 list \<Rightarrow> fla_htbl_entry" where
  "htbl_entry_of b = \<lparr>he_h2 = u64_at b 0, he_val = u32_at b 8, he_psl = u16_at b 12\<rparr>"

definition htbl_entry_bytes :: "u8 list \<Rightarrow> fla_htbl_entry \<Rightarrow> u8 list" where
  "htbl_entry_bytes old e = le64 (he_h2 e) @ le_bytes (he_val e) @ le16 (he_psl e) @ drop 14 old"

definition pool_entry_of :: "u8 list \<Rightarrow> fla_pool_entry" where
  "pool_entry_of b = \<lparr>pe_empty_slabs = u32_at b 0, pe_full_slabs = u32_at b 4, pe_partial_slabs = u32_at b 8,
     pe_obj_nlb = u32_at b 12, pe_slab_nobj = u32_at b 16, pe_root_obj_hndl = u64_at b 24,
     pe_flags = u64_at b 32, pe_usable = u64_at b 40, pe_name = take FLA_NAME_SIZE_POOL (drop 48 b)\<rparr>"

definition pool_entry_bytes :: "u8 list \<Rightarrow> fla_pool_entry \<Rightarrow> u8 list" where
  "pool_entry_bytes old e = le_bytes (pe_empty_slabs e) @ le_bytes (pe_full_slabs e) @ le_bytes (pe_partial_slabs e)
     @ le_bytes (pe_obj_nlb e) @ le_bytes (pe_slab_nobj e) @ take 4 (drop 20 old) @ le64 (pe_root_obj_hndl e)
     @ le64 (pe_flags e) @ le64 (pe_usable e) @ pe_name e"

definition slab_header_of :: "u8 list \<Rightarrow> fla_slab_header" where
  "slab_header_of b = \<lparr>sh_pool = u64_at b 0, sh_prev = u32_at b 8, sh_next = u32_at b 12, sh_refcount = u32_at b 16\<rparr>"

definition slab_header_bytes :: "u8 list \<Rightarrow> fla_slab_header \<Rightarrow> u8 list" where
  "slab_header_bytes old h = le64 (sh_pool h) @ le_bytes (sh_prev h) @ le_bytes (sh_next h)
     @ le_bytes (sh_refcount h) @ drop 20 old"

text \<open>Arrays of structures of \<open>sz\<close> bytes.\<close>

definition array_of :: "nat \<Rightarrow> (u8 list \<Rightarrow> 'a) \<Rightarrow> nat \<Rightarrow> u8 list \<Rightarrow> 'a list" where
  "array_of sz dec n b = map (\<lambda>i. dec (buf_block sz b i)) [0..<n]"

definition array_bytes :: "nat \<Rightarrow> (u8 list \<Rightarrow> 'a \<Rightarrow> u8 list) \<Rightarrow> u8 list \<Rightarrow> 'a list \<Rightarrow> u8 list" where
  "array_bytes sz enc old xs = concat (map (\<lambda>i. enc (buf_block sz old i) (xs ! i)) [0..<length xs])"

locale struct_codec =
  fixes sz :: nat and enc :: "u8 list \<Rightarrow> 'a \<Rightarrow> u8 list" and dec :: "u8 list \<Rightarrow> 'a" and ok :: "'a \<Rightarrow> bool"
  assumes enc_length: "length old = sz \<Longrightarrow> ok x \<Longrightarrow> length (enc old x) = sz"
    and dec_enc: "length old = sz \<Longrightarrow> ok x \<Longrightarrow> dec (enc old x) = x"
begin

lemma array_length:
  assumes "length old = n * sz" "length xs = n" "\<forall>x\<in>set xs. ok x"
  shows "length (array_bytes sz enc old xs) = n * sz"
proof -
  have e: "length (enc (buf_block sz old i) (xs ! i)) = sz" if "i < n" for i
  proof -
    have "Suc i * sz \<le> n * sz" using that by (intro mult_le_mono1) simp
    then show ?thesis using assms that by (intro enc_length) (auto simp: buf_block_def)
  qed
  have "m \<le> n \<Longrightarrow> length (concat (map (\<lambda>i. enc (buf_block sz old i) (xs ! i)) [0..<m])) = m * sz" for m
    by (induction m) (simp_all add: e)
  then show ?thesis using assms(2) by (simp add: array_bytes_def)
qed

lemma array_dec_enc:
  assumes "length old = n * sz" "length xs = n" "\<forall>x\<in>set xs. ok x"
  shows "array_of sz dec n (array_bytes sz enc old xs) = xs"
proof (rule nth_equalityI)
  show "length (array_of sz dec n (array_bytes sz enc old xs)) = length xs" using assms(2) by (simp add: array_of_def)
next
  fix i assume "i < length (array_of sz dec n (array_bytes sz enc old xs))"
  then have i: "i < n" by (simp add: array_of_def)
  let ?f = "\<lambda>i. if i < n then enc (buf_block sz old i) (xs ! i) else replicate sz 0"
  have bl: "length (buf_block sz old j) = sz" if "j < n" for j
  proof -
    have "Suc j * sz \<le> n * sz" using that by (intro mult_le_mono1) simp
    then show ?thesis using assms(1) by (simp add: buf_block_def)
  qed
  have "length (?f j) = sz" for j using enc_length [OF bl [of j], of "xs ! j"] assms(2,3) by simp
  from concat_blocks_nth [of ?f sz i n, OF this i]
  have "buf_block sz (concat (map ?f [0..<n])) i = enc (buf_block sz old i) (xs ! i)" using i by simp
  moreover have "map ?f [0..<n] = map (\<lambda>i. enc (buf_block sz old i) (xs ! i)) [0..<n]" by simp
  ultimately have "buf_block sz (array_bytes sz enc old xs) i = enc (buf_block sz old i) (xs ! i)"
    using assms(2) by (simp add: array_bytes_def)
  then show "array_of sz dec n (array_bytes sz enc old xs) ! i = xs ! i"
    using i assms(2,3) by (simp add: array_of_def dec_enc [OF bl])
qed

end

interpretation super_c: struct_codec 32 super_bytes super_of "\<lambda>_. True"
  by unfold_locales (simp_all add: super_bytes_def super_of_def field_at nth_append)

interpretation htbl_header_c: struct_codec 8 htbl_header_bytes htbl_header_of "\<lambda>_. True"
  by unfold_locales (simp_all add: htbl_header_bytes_def htbl_header_of_def field_at)

interpretation htbl_entry_c: struct_codec 16 htbl_entry_bytes htbl_entry_of "\<lambda>_. True"
  by unfold_locales (simp_all add: htbl_entry_bytes_def htbl_entry_of_def field_at)

interpretation pool_entry_c: struct_codec 160 pool_entry_bytes pool_entry_of "\<lambda>e. length (pe_name e) = FLA_NAME_SIZE_POOL"
  by unfold_locales (simp_all add: pool_entry_bytes_def pool_entry_of_def field_at FLA_NAME_SIZE_POOL_def)

interpretation slab_header_c: struct_codec 24 slab_header_bytes slab_header_of "\<lambda>_. True"
  by unfold_locales (simp_all add: slab_header_bytes_def slab_header_of_def field_at)

section \<open>The metadata buffer\<close>

text \<open>
  The offsets at which \<open>fla_init\<close> and \<open>fla_pool_init\<close> find the structures, with the products of
  32 bits that the code computes.
\<close>

definition off_freelist :: "fla_geo \<Rightarrow> nat" where
  "off_freelist geo = unat (fla_geo_pool_sgmt_off geo)"

definition off_htbl_header :: "fla_geo \<Rightarrow> nat" where
  "off_htbl_header geo =
     unat (fla_geo_pool_sgmt_off geo + ucast (g_lb_nbytes geo * gp_freelist_nlb (g_pool_sgmt geo)))"

definition off_htbl :: "fla_geo \<Rightarrow> nat" where
  "off_htbl geo = off_htbl_header geo + 8"

definition off_entries :: "fla_geo \<Rightarrow> nat" where
  "off_entries geo = unat (fla_geo_pool_sgmt_off geo
     + ucast (g_lb_nbytes geo * (gp_freelist_nlb (g_pool_sgmt geo) + gp_htbl_nlb (g_pool_sgmt geo))))"

definition off_headers :: "fla_geo \<Rightarrow> nat" where
  "off_headers geo = unat (fla_geo_slab_sgmt_off geo)"

definition off_fslab_num :: "fla_geo \<Rightarrow> nat" where
  "off_fslab_num geo = unat (fla_geo_slab_sgmt_off geo
     + ucast (gs_slab_sgmt_nlb (g_slab_sgmt geo) * g_lb_nbytes geo) - 12)"

text \<open>
  The number of elements of each array: the words of a freelist for the pools, the slots of the
  hash table, the pools and the slabs.
\<close>

definition freelist_len :: "fla_geo \<Rightarrow> nat" where
  "freelist_len geo = unat (fla_flist_size (g_npools geo)) div 4"

abbreviation htbl_slots :: "fla_geo \<Rightarrow> nat" where
  "htbl_slots geo \<equiv> unat (gp_htbl_tbl_size (g_pool_sgmt geo))"

text \<open>A part of a buffer, and the buffer with that part replaced.\<close>

definition part :: "nat \<Rightarrow> nat \<Rightarrow> u8 list \<Rightarrow> u8 list" where
  "part off n b = take n (drop off b)"

definition with_part :: "nat \<Rightarrow> nat \<Rightarrow> (u8 list \<Rightarrow> u8 list) \<Rightarrow> u8 list \<Rightarrow> u8 list" where
  "with_part off n f b = take off b @ f (part off n b) @ drop (off + n) b"

text \<open>Reading the structures that the pointers into the buffer denote.\<close>

definition md_pools :: "fla_geo \<Rightarrow> u8 list \<Rightarrow> fla_pools \<Rightarrow> fla_pools" where
  "md_pools geo b p = p\<lparr>
     po_freelist := words_of (part (off_freelist geo) (4 * freelist_len geo) b),
     po_htbl_hdr := htbl_header_of (part (off_htbl_header geo) 8 b),
     po_htbl := (po_htbl p)\<lparr>ht_tbl :=
       Some (array_of 16 htbl_entry_of (htbl_slots geo) (part (off_htbl geo) (htbl_slots geo * 16) b))\<rparr>,
     po_entries := array_of 160 pool_entry_of (unat (g_npools geo)) (part (off_entries geo) (unat (g_npools geo) * 160) b)\<rparr>"

definition md_slabs :: "fla_geo \<Rightarrow> u8 list \<Rightarrow> fla_slabs" where
  "md_slabs geo b = (let w = part (off_fslab_num geo) 12 b in
     \<lparr>sl_headers = array_of 24 slab_header_of (unat (g_nslabs geo)) (part (off_headers geo) (unat (g_nslabs geo) * 24) b),
      sl_fslab_num = u32_at w 0, sl_fslab_head = u32_at w 4, sl_fslab_tail = u32_at w 8\<rparr>)"

text \<open>All structures lie in the buffer.\<close>

definition md_in :: "fla_geo \<Rightarrow> u8 list \<Rightarrow> bool" where
  "md_in geo b \<longleftrightarrow> 32 \<le> length b \<and> off_freelist geo + 4 * freelist_len geo \<le> length b
     \<and> off_htbl geo + htbl_slots geo * 16 \<le> length b \<and> off_entries geo + unat (g_npools geo) * 160 \<le> length b
     \<and> off_headers geo + unat (g_nslabs geo) * 24 \<le> length b \<and> off_fslab_num geo + 12 \<le> length b"

text \<open>The buffer of a file system whose buffer was \<open>b\<close>: the fields have the values of the structures.\<close>

definition fslab_words :: "fla_slabs \<Rightarrow> u8 list" where
  "fslab_words s = le_bytes (sl_fslab_num s) @ le_bytes (sl_fslab_head s) @ le_bytes (sl_fslab_tail s)"

fun with_parts :: "(nat \<times> nat \<times> (u8 list \<Rightarrow> u8 list)) list \<Rightarrow> u8 list \<Rightarrow> u8 list" where
  "with_parts [] b = b"
| "with_parts ((off, n, f) # ws) b = with_parts ws (with_part off n f b)"

definition md_parts :: "flexalloc \<Rightarrow> (nat \<times> nat \<times> (u8 list \<Rightarrow> u8 list)) list" where
  "md_parts fs =
     (let geo = fs_geo fs; p = fs_pools fs; s = fs_slabs fs; T = (case ht_tbl (po_htbl p) of None \<Rightarrow> [] | Some T \<Rightarrow> T)
      in [(0, 32, \<lambda>old. super_bytes old (fs_super fs)),
          (off_freelist geo, 4 * length (po_freelist p), \<lambda>old. bytes_of (po_freelist p)),
          (off_htbl_header geo, 8, \<lambda>old. htbl_header_bytes old (po_htbl_hdr p)),
          (off_htbl geo, length T * 16, \<lambda>old. array_bytes 16 htbl_entry_bytes old T),
          (off_entries geo, length (po_entries p) * 160, \<lambda>old. array_bytes 160 pool_entry_bytes old (po_entries p)),
          (off_headers geo, length (sl_headers s) * 24, \<lambda>old. array_bytes 24 slab_header_bytes old (sl_headers s)),
          (off_fslab_num geo, 12, \<lambda>old. fslab_words s)])"

definition md_bytes :: "flexalloc \<Rightarrow> u8 list \<Rightarrow> u8 list" where
  "md_bytes fs b = with_parts (md_parts fs) b"

section \<open>Reading back what was written\<close>

lemma length_part: "off + n \<le> length b \<Longrightarrow> length (part off n b) = n"
  by (simp add: part_def)

lemma length_with_part:
  assumes "off + n \<le> length b" "length (f (part off n b)) = n"
  shows "length (with_part off n f b) = length b"
  using assms by (simp add: with_part_def)

lemma part_with_part_same:
  assumes "off + n \<le> length b" "length (f (part off n b)) = n"
  shows "part off n (with_part off n f b) = f (part off n b)"
  using assms by (simp add: with_part_def) (simp add: part_def)

lemma part_with_part_before:
  assumes "off' + n' \<le> off" "off + n \<le> length b"
  shows "part off' n' (with_part off n f b) = part off' n' b"
  using assms by (simp add: with_part_def part_def) (simp add: take_drop min_def)

lemma part_with_part_after:
  assumes "off + n \<le> off'" "off + n \<le> length b" "length (f (part off n b)) = n"
  shows "part off' n' (with_part off n f b) = part off' n' b"
  using assms by (simp add: with_part_def) (simp add: part_def)

text \<open>Parts that follow each other, each replaced by as many bytes.\<close>

fun parts_ok :: "nat \<Rightarrow> (nat \<times> nat \<times> (u8 list \<Rightarrow> u8 list)) list \<Rightarrow> nat \<Rightarrow> bool" where
  "parts_ok lo [] len \<longleftrightarrow> lo \<le> len"
| "parts_ok lo ((off, n, f) # ws) len \<longleftrightarrow> lo \<le> off \<and> (\<forall>old. length old = n \<longrightarrow> length (f old) = n) \<and> parts_ok (off + n) ws len"

lemma parts_ok_le: "parts_ok lo ws len \<Longrightarrow> lo \<le> len"
  by (induction ws arbitrary: lo) fastforce+

lemma with_parts_read:
  assumes "parts_ok lo ws (length b)"
  shows "length (with_parts ws b) = length b \<and> (\<forall>a m. a + m \<le> lo \<longrightarrow> part a m (with_parts ws b) = part a m b)
    \<and> (\<forall>off n f. (off, n, f) \<in> set ws \<longrightarrow> (\<exists>old. length old = n \<and> part off n (with_parts ws b) = f old))"
  using assms
proof (induction ws arbitrary: lo b)
  case (Cons w ws)
  obtain off n f where w: "w = (off, n, f)" by (cases w)
  let ?b = "with_part off n f b"
  have ok: "lo \<le> off" "parts_ok (off + n) ws (length b)" "off + n \<le> length b" "length (f (part off n b)) = n"
    using Cons.prems parts_ok_le [of "off + n" ws] by (auto simp: w length_part)
  have len: "length ?b = length b" using length_with_part [of off n b f] ok(3,4) by blast
  note IH = Cons.IH [of "off + n" ?b, unfolded len, OF ok(2)]
  have same: "part off n (with_parts ws ?b) = f (part off n b)"
    using IH part_with_part_same [of off n b f] ok(3,4) by auto
  have "part a m (with_parts ws ?b) = part a m b" if "a + m \<le> lo" for a m
    using that IH part_with_part_before [of a m off n b f] ok(1,3) by simp
  moreover have "\<exists>old. length old = n' \<and> part off' n' (with_parts ws ?b) = f' old" if "(off', n', f') \<in> set (w # ws)" for off' n' f'
  proof (cases "(off', n', f') \<in> set ws")
    case False
    then show ?thesis using that same length_part [OF ok(3)] by (auto simp: w)
  qed (use IH in blast)
  ultimately show ?case using IH len by (auto simp: w)
qed simp

text \<open>
  A buffer with room for all structures, and structures of the sizes of the geometry; the
  structures follow each other.
\<close>

definition md_order :: "fla_geo \<Rightarrow> bool" where
  "md_order geo \<longleftrightarrow> 32 \<le> off_freelist geo \<and> off_freelist geo + 4 * freelist_len geo \<le> off_htbl_header geo
     \<and> off_htbl geo + htbl_slots geo * 16 \<le> off_entries geo \<and> off_entries geo + unat (g_npools geo) * 160 \<le> off_headers geo
     \<and> off_headers geo + unat (g_nslabs geo) * 24 \<le> off_fslab_num geo"

definition md_sizes :: "flexalloc \<Rightarrow> bool" where
  "md_sizes fs \<longleftrightarrow> length (po_freelist (fs_pools fs)) = freelist_len (fs_geo fs)
     \<and> (\<exists>T. ht_tbl (po_htbl (fs_pools fs)) = Some T \<and> length T = htbl_slots (fs_geo fs))
     \<and> length (po_entries (fs_pools fs)) = unat (g_npools (fs_geo fs))
     \<and> length (sl_headers (fs_slabs fs)) = unat (g_nslabs (fs_geo fs))
     \<and> (\<forall>e\<in>set (po_entries (fs_pools fs)). length (pe_name e) = FLA_NAME_SIZE_POOL)"

lemma fslab_words_at:
  "length (fslab_words s) = 12" "u32_at (fslab_words s) 0 = sl_fslab_num s" "u32_at (fslab_words s) 4 = sl_fslab_head s"
  "u32_at (fslab_words s) 8 = sl_fslab_tail s"
  by (simp_all add: fslab_words_def field_at)

lemma md_parts_ok:
  assumes "md_order (fs_geo fs)" "md_in (fs_geo fs) b" "md_sizes fs"
  shows "parts_ok 0 (md_parts fs) (length b)"
  using assms super_c.enc_length htbl_header_c.enc_length
  by (auto simp: md_parts_def Let_def md_order_def md_in_def md_sizes_def off_htbl_def fslab_words_at
      htbl_entry_c.array_length pool_entry_c.array_length slab_header_c.array_length)

lemma md_bytes_read:
  assumes "md_order (fs_geo fs)" "md_in (fs_geo fs) b" "md_sizes fs"
  shows "length (md_bytes fs b) = length b" "super_of (part 0 32 (md_bytes fs b)) = fs_super fs"
    "md_slabs (fs_geo fs) (md_bytes fs b) = fs_slabs fs"
    "md_pools (fs_geo fs) (md_bytes fs b) p = p\<lparr>po_freelist := po_freelist (fs_pools fs), po_htbl_hdr := po_htbl_hdr (fs_pools fs),
       po_htbl := (po_htbl p)\<lparr>ht_tbl := ht_tbl (po_htbl (fs_pools fs))\<rparr>, po_entries := po_entries (fs_pools fs)\<rparr>"
proof -
  obtain T where T: "ht_tbl (po_htbl (fs_pools fs)) = Some T" "length T = htbl_slots (fs_geo fs)"
    using assms(3) by (auto simp: md_sizes_def)
  have n: "length (po_freelist (fs_pools fs)) = freelist_len (fs_geo fs)" "length (entries fs) = unat (g_npools (fs_geo fs))"
    "length (hdrs fs) = unat (g_nslabs (fs_geo fs))" "\<forall>e\<in>set (entries fs). length (pe_name e) = FLA_NAME_SIZE_POOL"
    using assms(3) by (simp_all add: md_sizes_def)
  note R = with_parts_read [OF md_parts_ok [OF assms], folded md_bytes_def]
  show "length (md_bytes fs b) = length b" using R by simp
  have rd: "(off, m, f) \<in> set (md_parts fs) \<Longrightarrow> \<exists>old. length old = m \<and> part off m (md_bytes fs b) = f old" for off m f
    using R by blast
  note rd = rd [unfolded md_parts_def Let_def T(1) option.case]
  show "super_of (part 0 32 (md_bytes fs b)) = fs_super fs"
    using rd [of 0 32 "\<lambda>old. super_bytes old (fs_super fs)"] super_c.dec_enc by auto
  have "part (off_fslab_num (fs_geo fs)) 12 (md_bytes fs b) = fslab_words (fs_slabs fs)"
    using rd [of "off_fslab_num (fs_geo fs)" 12 "\<lambda>old. fslab_words (fs_slabs fs)"] by auto
  moreover have "array_of 24 slab_header_of (length (hdrs fs)) (part (off_headers (fs_geo fs)) (length (hdrs fs) * 24) (md_bytes fs b)) = hdrs fs"
    using rd [of "off_headers (fs_geo fs)" "length (hdrs fs) * 24" "\<lambda>old. array_bytes 24 slab_header_bytes old (hdrs fs)"]
      slab_header_c.array_dec_enc by auto
  ultimately show "md_slabs (fs_geo fs) (md_bytes fs b) = fs_slabs fs"
    using n(3) by (simp add: md_slabs_def Let_def fslab_words_at)
  have "part (off_freelist (fs_geo fs)) (4 * length (po_freelist (fs_pools fs))) (md_bytes fs b) = bytes_of (po_freelist (fs_pools fs))"
    using rd [of "off_freelist (fs_geo fs)" "4 * length (po_freelist (fs_pools fs))" "\<lambda>old. bytes_of (po_freelist (fs_pools fs))"] by auto
  moreover have "htbl_header_of (part (off_htbl_header (fs_geo fs)) 8 (md_bytes fs b)) = po_htbl_hdr (fs_pools fs)"
    using rd [of "off_htbl_header (fs_geo fs)" 8 "\<lambda>old. htbl_header_bytes old (po_htbl_hdr (fs_pools fs))"] htbl_header_c.dec_enc by auto
  moreover have "array_of 16 htbl_entry_of (length T) (part (off_htbl (fs_geo fs)) (length T * 16) (md_bytes fs b)) = T"
    using rd [of "off_htbl (fs_geo fs)" "length T * 16" "\<lambda>old. array_bytes 16 htbl_entry_bytes old T"] htbl_entry_c.array_dec_enc by auto
  moreover have "array_of 160 pool_entry_of (length (entries fs)) (part (off_entries (fs_geo fs)) (length (entries fs) * 160) (md_bytes fs b)) = entries fs"
    using rd [of "off_entries (fs_geo fs)" "length (entries fs) * 160" "\<lambda>old. array_bytes 160 pool_entry_bytes old (entries fs)"]
      pool_entry_c.array_dec_enc n(4) by auto
  ultimately show "md_pools (fs_geo fs) (md_bytes fs b) p = p\<lparr>po_freelist := po_freelist (fs_pools fs), po_htbl_hdr := po_htbl_hdr (fs_pools fs),
       po_htbl := (po_htbl p)\<lparr>ht_tbl := ht_tbl (po_htbl (fs_pools fs))\<rparr>, po_entries := po_entries (fs_pools fs)\<rparr>"
    using n(1,2) T by (simp add: md_pools_def)
qed

section \<open>The layout of a geometry\<close>

text \<open>The offsets as products of numbers of blocks, as long as the metadata is smaller than 4 GiB.\<close>

lemma md_offsets:
  fixes geo :: fla_geo
  defines "L \<equiv> unat (g_lb_nbytes geo)" and "m \<equiv> unat (g_md_nlb geo)" and "f \<equiv> unat (gp_freelist_nlb (g_pool_sgmt geo))"
    and "h \<equiv> unat (gp_htbl_nlb (g_pool_sgmt geo))" and "e \<equiv> unat (gp_entries_nlb (g_pool_sgmt geo))"
    and "s \<equiv> unat (gs_slab_sgmt_nlb (g_slab_sgmt geo))"
  assumes small: "(m + f + h + e + s) * L < 2 ^ 32" and L: "0 < L" and s: "12 \<le> s * L"
  shows "off_freelist geo = m * L" "off_htbl_header geo = (m + f) * L" "off_entries geo = (m + f + h) * L"
    "off_headers geo = (m + f + h + e) * L" "off_fslab_num geo + 12 = (m + f + h + e + s) * L"
    "unat (fla_geo_nblocks geo) = m + f + h + e + s" "unat (fla_geo_nbytes geo) = (m + f + h + e + s) * L"
    "md_blocks geo = m + f + h + e + s"
proof -
  have bnd: "k * L < 2 ^ 32" if "k \<le> m + f + h + e + s" for k
    using mult_le_mono1 [OF that, of L] small by linarith
  have "m + f + h + e + s \<le> (m + f + h + e + s) * L" using L by simp
  then have mb32: "m + f + h + e + s < 2 ^ 32" using small by linarith
  have pb: "unat (fla_geo_pool_sgmt_nblocks (g_pool_sgmt geo)) = f + h + e"
    using mb32 by (simp add: fla_geo_pool_sgmt_nblocks_def unat_add_no_wrap f_def h_def e_def)
  have po: "unat (fla_geo_pool_sgmt_off geo) = m * L"
    using bnd [of m] by (simp add: fla_geo_pool_sgmt_off_def fla_geo_pool_sgmt_lb_off_def unat_mult_no_wrap unat_ucast_widen m_def L_def mult.commute)
  have fo: "unat (g_lb_nbytes geo * gp_freelist_nlb (g_pool_sgmt geo)) = f * L"
    using bnd [of f] by (simp add: unat_mult_no_wrap f_def L_def mult.commute)
  have "unat (gp_freelist_nlb (g_pool_sgmt geo) + gp_htbl_nlb (g_pool_sgmt geo)) = f + h"
    using mb32 by (simp add: unat_add_no_wrap f_def h_def)
  then have ho: "unat (g_lb_nbytes geo * (gp_freelist_nlb (g_pool_sgmt geo) + gp_htbl_nlb (g_pool_sgmt geo))) = (f + h) * L"
    using bnd [of "f + h"] by (simp add: unat_mult_no_wrap mult.commute L_def)
  have so: "unat (gs_slab_sgmt_nlb (g_slab_sgmt geo) * g_lb_nbytes geo) = s * L"
    using bnd [of s] by (simp add: unat_mult_no_wrap s_def L_def)
  have "unat (fla_geo_slab_sgmt_lb_off geo) = m + f + h + e"
    using mb32 pb by (simp add: fla_geo_slab_sgmt_lb_off_def fla_geo_pool_sgmt_lb_off_def unat_add_no_wrap unat_ucast_widen m_def)
  then have slo: "unat (fla_geo_slab_sgmt_off geo) = (m + f + h + e) * L"
    using bnd [of "m + f + h + e"] by (simp add: fla_geo_slab_sgmt_off_def unat_mult_no_wrap unat_ucast_widen mult.commute L_def)
  show "off_freelist geo = m * L" "off_htbl_header geo = (m + f) * L" "off_entries geo = (m + f + h) * L"
    "off_headers geo = (m + f + h + e) * L"
    using po fo ho slo bnd [of "m + f"] bnd [of "m + f + h"]
    by (simp_all add: off_freelist_def off_htbl_header_def off_entries_def off_headers_def unat_add_no_wrap unat_ucast_widen add_mult_distrib)
  have "unat (fla_geo_slab_sgmt_off geo + ucast (gs_slab_sgmt_nlb (g_slab_sgmt geo) * g_lb_nbytes geo)) = (m + f + h + e + s) * L"
    using so slo bnd [of "m + f + h + e + s"] by (simp add: unat_add_no_wrap unat_ucast_widen add_mult_distrib)
  then show "off_fslab_num geo + 12 = (m + f + h + e + s) * L"
    using s unfolding off_fslab_num_def by (subst unat_sub_no_wrap) (simp_all add: add_mult_distrib)
  show nb: "unat (fla_geo_nblocks geo) = m + f + h + e + s"
    using mb32 pb by (simp add: fla_geo_nblocks_def fla_geo_slab_sgmt_nblocks_def unat_add_no_wrap m_def s_def)
  then show "unat (fla_geo_nbytes geo) = (m + f + h + e + s) * L"
    using small by (simp add: fla_geo_nbytes_def unat_mult_no_wrap unat_ucast_widen L_def)
  show "md_blocks geo = m + f + h + e + s" using pb by (simp add: md_blocks_def m_def s_def fla_geo_slab_sgmt_nblocks_def)
qed

lemma md_layout:
  assumes fits: "geo_fits geo" and lb: "512 \<le> unat (g_lb_nbytes geo)" and md: "1 \<le> unat (g_md_nlb geo)"
    and small: "md_blocks geo * unat (g_lb_nbytes geo) < 2 ^ 32"
  shows "md_order geo" "off_fslab_num geo + 12 = md_blocks geo * unat (g_lb_nbytes geo)"
    "unat (fla_geo_nbytes geo) = md_blocks geo * unat (g_lb_nbytes geo)" "unat (fla_geo_nblocks geo) = md_blocks geo"
    "freelist_len geo = 1 + flist_words (unat (g_npools geo))" "htbl_slots geo = 2 * unat (g_npools geo)"
proof -
  let ?L = "unat (g_lb_nbytes geo)" and ?n = "unat (g_npools geo)" and ?ns = "unat (g_nslabs geo)"
  let ?f = "unat (gp_freelist_nlb (g_pool_sgmt geo))" and ?h = "unat (gp_htbl_nlb (g_pool_sgmt geo))"
    and ?e = "unat (gp_entries_nlb (g_pool_sgmt geo))" and ?s = "unat (gs_slab_sgmt_nlb (g_slab_sgmt geo))"
  have n: "?n < 2 ^ 31" "0 < ?L" and g: "g_pool_sgmt geo = fla_geo_pool_sgmt_calc (g_npools geo) (g_lb_nbytes geo)"
    "g_slab_sgmt geo = fla_geo_slab_sgmt_calc (g_nslabs geo) (g_lb_nbytes geo)"
    using fits lb by (simp_all add: geo_fits_def)
  note P = pool_sgmt_parts [OF lb n(1), folded g(1)]
  have room: "4 * (1 + flist_words ?n) \<le> ?f * ?L" "8 + 32 * ?n \<le> ?h * ?L" "160 * ?n \<le> ?e * ?L"
    unfolding P by (rule ceil_div_bounds(1) [OF n(2)])+
  have sroom: "?ns * 24 + 12 \<le> ?s * ?L"
    using slab_sgmt_room [of "g_lb_nbytes geo" "g_nslabs geo"] lb by (simp add: g(2) fla_geo_slab_sgmt_calc_def)
  have mb: "md_blocks geo = unat (g_md_nlb geo) + ?f + ?h + ?e + ?s"
    using pool_sgmt_calc_nat(1) [OF lb n(1)] P by (simp add: g(1) pool_blocks_def md_blocks_def fla_geo_slab_sgmt_nblocks_def)
  have "12 \<le> ?s * ?L" using sroom by linarith
  note offs = md_offsets [of geo, folded mb, OF small n(2) this]
  then show "off_fslab_num geo + 12 = md_blocks geo * ?L" "unat (fla_geo_nbytes geo) = md_blocks geo * ?L" "unat (fla_geo_nblocks geo) = md_blocks geo"
    by simp_all
  show len: "freelist_len geo = 1 + flist_words ?n" by (simp add: freelist_len_def fla_flist_size_nat)
  show slots: "htbl_slots geo = 2 * ?n" using P(4) .
  have "1 * 512 \<le> unat (g_md_nlb geo) * ?L" using md lb by (rule mult_le_mono)
  then show "md_order geo"
    using room sroom offs(5) unfolding md_order_def len slots off_htbl_def offs(1-4) mb add_mult_distrib by simp
qed

lemma md_in_layout:
  assumes "md_order geo" "off_fslab_num geo + 12 \<le> length b"
  shows "md_in geo b"
  using assms by (auto simp: md_in_def md_order_def off_htbl_def)

end
