(* ===== verification/Fla_Slab.thy ===== *)
theory Fla_Slab
  imports Fla_Slabcache
begin

text \<open>
  Slabs change hands in \<open>src/src/flexalloc_mm.c\<close>: a pool acquires the slab at the front of the
  queue of free slabs, which is formatted for the pool's object size, and releases slabs to the
  end of the queue.
\<close>

section \<open>Definitions\<close>

definition fla_format_slab :: "'d xnvme \<Rightarrow> flexalloc \<Rightarrow> u32 \<Rightarrow> u32 \<Rightarrow> (int \<times> flexalloc) option" where
  "fla_format_slab X fs slab obj_nlb = do {
     obj_num \<leftarrow> fla_calc_objs_in_slab fs obj_nlb;
     if obj_num < 1 then Some (1, fs)
     else do {
       h \<leftarrow> get_header fs slab;
       fs \<leftarrow> set_header fs slab (h\<lparr>sh_next := FLA_LINKED_LIST_NULL, sh_prev := FLA_LINKED_LIST_NULL,
               sh_refcount := 0, sh_pool := 0\<rparr>);
       let (err, slab_id) = fla_slab_id slab fs;
       if err \<noteq> 0 then Some (err, fs) else fla_slab_cache_elem_init X fs slab_id obj_num
     }
   }"

definition set_fslab_num :: "flexalloc \<Rightarrow> u32 \<Rightarrow> flexalloc" where
  "set_fslab_num fs n = fs\<lparr>fs_slabs := (fs_slabs fs)\<lparr>sl_fslab_num := n\<rparr>\<rparr>"

text \<open>The last component is the slab that the out parameter points to.\<close>

definition fla_acquire_slab :: "'d xnvme \<Rightarrow> flexalloc \<Rightarrow> u32 \<Rightarrow> (int \<times> flexalloc \<times> u32 option) option" where
  "fla_acquire_slab X fs obj_nlb =
     (if sl_fslab_num (fs_slabs fs) = 0 then Some (FLA_ERR_ALL_SLABS_USED, fs, None)
      else do {
        (err, fs, a_slab) \<leftarrow> fla_edll_remove_head fs;
        if err \<noteq> 0 then Some (err, fs, a_slab)
        else do {
          s \<leftarrow> a_slab;
          (err, fs) \<leftarrow> fla_format_slab X fs s obj_nlb;
          if err \<noteq> 0 then Some (err, fs, a_slab)
          else Some (0, set_fslab_num fs (sl_fslab_num (fs_slabs fs) - 1), a_slab)
        }
      })"

definition fla_release_slab :: "flexalloc \<Rightarrow> u32 \<Rightarrow> (int \<times> flexalloc) option" where
  "fla_release_slab fs r_slab = do {
     h \<leftarrow> get_header fs r_slab;
     if sh_refcount h \<noteq> 0 then Some (1, fs)
     else do {
       let (err, slab_id) = fla_slab_id r_slab fs;
       if err \<noteq> 0 then Some (err, fs)
       else do {
         fs \<leftarrow> fla_slab_cache_elem_drop fs slab_id;
         (err, fs) \<leftarrow> fla_edll_add_tail fs r_slab;
         if err \<noteq> 0 then Some (err, fs)
         else Some (0, set_fslab_num fs (sl_fslab_num (fs_slabs fs) + 1))
       }
     }
   }"

lemma set_fslab_num_fields [fs_fields]:
  "hdrs (set_fslab_num fs n) = hdrs fs" "sl_fslab_num (fs_slabs (set_fslab_num fs n)) = n"
  "sl_fslab_head (fs_slabs (set_fslab_num fs n)) = sl_fslab_head (fs_slabs fs)"
  "sl_fslab_tail (fs_slabs (set_fslab_num fs n)) = sl_fslab_tail (fs_slabs fs)"
  "fs_geo (set_fslab_num fs n) = fs_geo fs" "fs_pools (set_fslab_num fs n) = fs_pools fs"
  "fs_dev (set_fslab_num fs n) = fs_dev fs" "fs_state (set_fslab_num fs n) = fs_state fs"
  "fs_slab_cache (set_fslab_num fs n) = fs_slab_cache fs" "fs_super (set_fslab_num fs n) = fs_super fs"
  "fs_dp (set_fslab_num fs n) = fs_dp fs" "fs_cs (set_fslab_num fs n) = fs_cs fs"
  by (simp_all add: set_fslab_num_def)

section \<open>Acquiring and releasing\<close>

lemma calc_objs_loop_cong:
  "fs_geo fs' = fs_geo fs \<Longrightarrow> calc_objs_loop fs' obj n = calc_objs_loop fs obj n"
proof (induction fs obj n rule: calc_objs_loop.induct)
  case (1 fs obj n)
  have "fla_slab_cache_flist_nlb fs' n = fla_slab_cache_flist_nlb fs n"
    using "1.prems" by (simp add: fla_slab_cache_flist_nlb_def)
  with 1 show ?case by (subst (1 2) calc_objs_loop.simps) (simp add: Let_def)
qed

lemma calc_objs_cong:
  "fs_geo fs' = fs_geo fs \<Longrightarrow> fs_dev fs' = fs_dev fs \<Longrightarrow> fla_calc_objs_in_slab fs' obj = fla_calc_objs_in_slab fs obj"
  by (simp add: fla_calc_objs_in_slab_def calc_objs_loop_cong [of fs' fs])

lemma free_queue_in: "free_queue fs Q \<Longrightarrow> x \<in> set Q \<Longrightarrow> unat x < length (hdrs fs)"
  using dll_in unfolding free_queue_def by blast

lemma free_queue_distinct: "free_queue fs Q \<Longrightarrow> distinct Q"
  by (simp add: free_queue_def dll_def)

text \<open>The state after the slab at the front of the queue was acquired.\<close>

definition fresh_header :: "fla_slab_header \<Rightarrow> fla_slab_header" where
  "fresh_header h = h\<lparr>sh_next := FLA_LINKED_LIST_NULL, sh_prev := FLA_LINKED_LIST_NULL, sh_refcount := 0, sh_pool := 0\<rparr>"

definition acquired :: "flexalloc \<Rightarrow> u32 \<Rightarrow> u32 list \<Rightarrow> freelist \<Rightarrow> flexalloc" where
  "acquired fs x Q f = set_fslab_num (put_elem (set_headers
       (set_fslab_ends fs (if Q = [] then FLA_LINKED_LIST_NULL else hd Q) (if Q = [] then FLA_LINKED_LIST_NULL else last Q))
       ((pop_hdrs (hdrs fs) Q)[unat x := fresh_header (pop_hdrs (hdrs fs) Q ! unat x)]))
     x \<lparr>ce_freelist = Some f, ce_state = FLA_SLAB_CACHE_ELEM_DIRTY\<rparr>) (sl_fslab_num (fs_slabs fs) - 1)"

lemma fla_acquire_slab_eq:
  assumes ok: "slabs_ok fs" and q: "free_queue fs (x # Q)" and num: "sl_fslab_num (fs_slabs fs) \<noteq> 0"
    and env: "bufs X" "0 < lb_of fs" "4 dvd lb_of fs"
    and e: "get_elem fs x = Some e" "ce_state e = FLA_SLAB_CACHE_ELEM_STALE"
    and n: "fla_calc_objs_in_slab fs obj_nlb = Some n" "0 < unat n" "unat n < 2 ^ 31"
  shows "if x_buf_alloc X Data_dev (cache_flist_size fs n) = None
    then \<exists>fs'. fla_acquire_slab X fs obj_nlb = Some (- ENOMEM, fs', Some x)
    else \<exists>f. fla_acquire_slab X fs obj_nlb = Some (0, acquired fs x Q f, Some x)
      \<and> flist_fits fs f \<and> flist_cap f = unat n \<and> flist_free f = {..<unat n}"
proof -
  let ?ends = "set_fslab_ends (set_headers fs (pop_hdrs (hdrs fs) Q))
      (if Q = [] then FLA_LINKED_LIST_NULL else hd Q) (if Q = [] then FLA_LINKED_LIST_NULL else last Q)"
  let ?H = "(pop_hdrs (hdrs fs) Q)[unat x := fresh_header (pop_hdrs (hdrs fs) Q ! unat x)]"
  let ?fs1 = "set_headers ?ends ?H"
  have x: "unat x < length (hdrs fs)" using free_queue_in [OF q] by simp
  have ok1: "slabs_ok ?ends" "slabs_ok ?fs1" using ok by (simp_all add: slabs_ok_def fs_fields)
  have n1: "fla_calc_objs_in_slab ?ends obj_nlb = Some n" using n(1) calc_objs_cong [of ?ends fs] by (simp add: fs_fields)
  have sz: "cache_flist_size ?fs1 n = cache_flist_size fs n"
    by (simp add: cache_flist_size_def fla_slab_cache_flist_nlb_def fs_fields)
  have el: "get_elem ?fs1 x = Some e" using e(1) by (subst get_elem_cong) (simp_all add: fs_fields)
  have fmt: "fla_format_slab X ?ends x obj_nlb = fla_slab_cache_elem_init X ?fs1 x n"
    using n1 n(2) x ok1(2) by (simp add: fla_format_slab_def word_less_nat_alt fs_fields fresh_header_def)
  have acq: "fla_acquire_slab X fs obj_nlb = do {
      (err, fs) \<leftarrow> fla_slab_cache_elem_init X ?fs1 x n;
      if err \<noteq> 0 then Some (err, fs, Some x) else Some (0, set_fslab_num fs (sl_fslab_num (fs_slabs fs) - 1), Some x) }"
    using num fla_edll_remove_head_eq [OF ok q] fmt by (simp add: fla_acquire_slab_def)
  have lb1: "0 < lb_of ?fs1" "4 dvd lb_of ?fs1" using env(2,3) by (simp_all add: fs_fields)
  note init = fla_slab_cache_elem_init_ok [OF env(1) lb1 el e(2) n(2,3), unfolded sz]
  show ?thesis
  proof (cases "x_buf_alloc X Data_dev (cache_flist_size fs n)")
    case None
    then have "fla_slab_cache_elem_init X ?fs1 x n = Some (- ENOMEM, ?fs1)"
      using el e(2) by (simp add: fla_slab_cache_elem_init_def sz)
    then show ?thesis using None acq by simp
  next
    case (Some b)
    with init obtain f where f: "fla_slab_cache_elem_init X ?fs1 x n
        = Some (0, put_elem ?fs1 x \<lparr>ce_freelist = Some f, ce_state = FLA_SLAB_CACHE_ELEM_DIRTY\<rparr>)"
      "flist_fits ?fs1 f" "flist_cap f = unat n" "flist_free f = {..<unat n}" by auto
    have "?fs1 = set_headers (set_fslab_ends fs (if Q = [] then FLA_LINKED_LIST_NULL else hd Q)
        (if Q = [] then FLA_LINKED_LIST_NULL else last Q)) ?H"
      by (simp add: set_headers_def set_fslab_ends_def)
    then have "set_fslab_num (put_elem ?fs1 x \<lparr>ce_freelist = Some f, ce_state = FLA_SLAB_CACHE_ELEM_DIRTY\<rparr>)
        (sl_fslab_num (fs_slabs fs) - 1) = acquired fs x Q f"
      unfolding acquired_def by (simp only:)
    moreover have "fla_acquire_slab X fs obj_nlb = Some (0, set_fslab_num (put_elem ?fs1 x
        \<lparr>ce_freelist = Some f, ce_state = FLA_SLAB_CACHE_ELEM_DIRTY\<rparr>) (sl_fslab_num (fs_slabs fs) - 1), Some x)"
      unfolding acq f(1) by (simp add: fs_fields)
    moreover have "flist_fits fs f" using f(2) by (simp add: flist_fits_def fs_fields)
    ultimately show ?thesis using Some f(3,4) by auto
  qed
qed

lemma acquired_fields [fs_fields]:
  "fs_geo (acquired fs x Q f) = fs_geo fs" "fs_pools (acquired fs x Q f) = fs_pools fs"
  "fs_dev (acquired fs x Q f) = fs_dev fs" "fs_state (acquired fs x Q f) = fs_state fs"
  "fs_super (acquired fs x Q f) = fs_super fs" "fs_dp (acquired fs x Q f) = fs_dp fs"
  "fs_cs (acquired fs x Q f) = fs_cs fs" "sl_fslab_num (fs_slabs (acquired fs x Q f)) = sl_fslab_num (fs_slabs fs) - 1"
  "length (hdrs (acquired fs x Q f)) = length (hdrs fs)"
  by (simp_all add: acquired_def fs_fields)

lemma acquired_elem:
  assumes "get_elem fs x = Some e"
  shows "get_elem (acquired fs x Q f) y =
    (if y = x then Some \<lparr>ce_freelist = Some f, ce_state = FLA_SLAB_CACHE_ELEM_DIRTY\<rparr> else get_elem fs y)"
proof -
  let ?fs = "set_headers (set_fslab_ends fs (if Q = [] then FLA_LINKED_LIST_NULL else hd Q)
      (if Q = [] then FLA_LINKED_LIST_NULL else last Q))
      ((pop_hdrs (hdrs fs) Q)[unat x := fresh_header (pop_hdrs (hdrs fs) Q ! unat x)])"
  have c: "get_elem ?fs y = get_elem fs y" for y by (rule get_elem_cong) (simp add: fs_fields)
  then have "get_elem ?fs x = Some e" using assms by simp
  moreover have "get_elem (acquired fs x Q f) y
      = get_elem (put_elem ?fs x \<lparr>ce_freelist = Some f, ce_state = FLA_SLAB_CACHE_ELEM_DIRTY\<rparr>) y"
    by (rule get_elem_cong) (simp add: acquired_def fs_fields)
  ultimately show ?thesis using get_put_elem [of ?fs x e _ y] c by simp
qed

lemma acquired_lists:
  assumes "slabs_ok fs" "free_queue fs (x # Q)"
  shows "free_queue (acquired fs x Q f) Q"
    "\<And>h ys. slab_list fs h ys \<Longrightarrow> set ys \<inter> set (x # Q) = {} \<Longrightarrow> slab_list (acquired fs x Q f) h ys"
    "sh_refcount (hdrs (acquired fs x Q f) ! unat y) = (if y = x then 0 else sh_refcount (hdrs fs ! unat y))"
    "sh_pool (hdrs (acquired fs x Q f) ! unat y) = (if y = x then 0 else sh_pool (hdrs fs ! unat y))"
proof -
  let ?H = "(pop_hdrs (hdrs fs) Q)[unat x := fresh_header (pop_hdrs (hdrs fs) Q ! unat x)]"
  have H: "hdrs (acquired fs x Q f) = ?H" by (simp add: acquired_def fs_fields)
  have x: "unat x < length (hdrs fs)" "x \<notin> set Q" using free_queue_in [OF assms(2)] free_queue_distinct [OF assms(2)] by auto
  have q: "dll (hdrs fs) (sl_fslab_head (fs_slabs fs)) (x # Q)" using assms(2) by (simp add: free_queue_def)
  have "dll ?H (if Q = [] then FLA_LINKED_LIST_NULL else hd Q) Q"
    using pop_dll [OF q] x(2) by (rule dll_update_other)
  then show "free_queue (acquired fs x Q f) Q"
    unfolding free_queue_def H by (simp add: acquired_def fs_fields)
  show "slab_list (acquired fs x Q f) h ys" if "slab_list fs h ys" "set ys \<inter> set (x # Q) = {}" for h ys
  proof -
    have "head_of (acquired fs x Q f) h = head_of fs h" by (simp add: head_of_def fs_fields)
    moreover have "dll ?H (head_of fs h) ys"
    proof (rule dll_frame [OF that(1)])
      fix z assume "z \<in> set ys"
      then have "z \<noteq> x" "z \<notin> set Q" using that(2) by auto
      then have "?H ! unat z = hdrs fs ! unat z" using pop_hdrs_other [of z Q] by (simp add: nth_list_update_neq)
      then show "sh_prev (?H ! unat z) = sh_prev (hdrs fs ! unat z) \<and> sh_next (?H ! unat z) = sh_next (hdrs fs ! unat z)"
        by simp
    qed simp
    ultimately show ?thesis unfolding H by simp
  qed
  show "sh_refcount (hdrs (acquired fs x Q f) ! unat y) = (if y = x then 0 else sh_refcount (hdrs fs ! unat y))"
    "sh_pool (hdrs (acquired fs x Q f) ! unat y) = (if y = x then 0 else sh_pool (hdrs fs ! unat y))"
    unfolding H using x(1) by (auto simp: nth_list_update pop_hdrs_kept fresh_header_def)
qed

text \<open>Releasing a slab that holds no object.\<close>

definition released :: "flexalloc \<Rightarrow> u32 \<Rightarrow> u32 list \<Rightarrow> flexalloc" where
  "released fs x Q = set_fslab_num (set_fslab_ends (set_headers
       (put_elem fs x \<lparr>ce_freelist = None, ce_state = FLA_SLAB_CACHE_ELEM_STALE\<rparr>) (push_hdrs (hdrs fs) Q x))
     (if Q = [] then x else hd Q) x) (sl_fslab_num (fs_slabs fs) + 1)"

lemma fla_release_slab_eq:
  assumes ok: "slabs_ok fs" and q: "free_queue fs Q" and x: "x \<notin> set Q" "unat x < length (hdrs fs)"
    and e: "get_elem fs x = Some e" and r: "sh_refcount (hdrs fs ! unat x) = 0"
  shows "fla_release_slab fs x = Some (0, released fs x Q)"
proof -
  let ?fs1 = "put_elem fs x \<lparr>ce_freelist = None, ce_state = FLA_SLAB_CACHE_ELEM_STALE\<rparr>"
  have ok1: "slabs_ok ?fs1" using ok by (simp add: slabs_ok_def fs_fields)
  have q1: "free_queue ?fs1 Q" using q by (simp add: free_queue_def fs_fields)
  have x1: "unat x < length (hdrs ?fs1)" using x(2) by (simp add: fs_fields)
  have "fla_slab_cache_elem_drop fs x = Some ?fs1" using e by (simp add: fla_slab_cache_elem_drop_def)
  then show ?thesis
    using ok x(2) r fla_edll_add_tail_eq [OF ok1 q1 x(1) x1]
    by (simp add: fla_release_slab_def released_def fs_fields)
qed

lemma released_fields [fs_fields]:
  "fs_geo (released fs x Q) = fs_geo fs" "fs_pools (released fs x Q) = fs_pools fs"
  "fs_dev (released fs x Q) = fs_dev fs" "fs_state (released fs x Q) = fs_state fs"
  "fs_super (released fs x Q) = fs_super fs" "fs_dp (released fs x Q) = fs_dp fs"
  "fs_cs (released fs x Q) = fs_cs fs" "sl_fslab_num (fs_slabs (released fs x Q)) = sl_fslab_num (fs_slabs fs) + 1"
  "length (hdrs (released fs x Q)) = length (hdrs fs)"
  by (simp_all add: released_def fs_fields)

lemma released_elem:
  assumes "get_elem fs x = Some e"
  shows "get_elem (released fs x Q) y =
    (if y = x then Some \<lparr>ce_freelist = None, ce_state = FLA_SLAB_CACHE_ELEM_STALE\<rparr> else get_elem fs y)"
proof -
  have "get_elem (released fs x Q) y = get_elem (put_elem fs x \<lparr>ce_freelist = None, ce_state = FLA_SLAB_CACHE_ELEM_STALE\<rparr>) y"
    by (rule get_elem_cong) (simp add: released_def fs_fields)
  then show ?thesis by (simp add: get_put_elem [OF assms])
qed

lemma released_lists:
  assumes "slabs_ok fs" "free_queue fs Q" "x \<notin> set Q" "unat x < length (hdrs fs)"
  shows "free_queue (released fs x Q) (Q @ [x])"
    "\<And>h ys. slab_list fs h ys \<Longrightarrow> set ys \<inter> set (x # Q) = {} \<Longrightarrow> slab_list (released fs x Q) h ys"
proof -
  let ?H = "push_hdrs (hdrs fs) Q x"
  have H: "hdrs (released fs x Q) = ?H" by (simp add: released_def fs_fields)
  have "dll ?H (if Q = [] then x else hd Q) (Q @ [x])"
    using assms slab_neq_null [OF assms(1,4)] by (intro push_dll) (auto simp: free_queue_def)
  then show "free_queue (released fs x Q) (Q @ [x])"
    unfolding free_queue_def H by (simp add: released_def fs_fields)
  show "slab_list (released fs x Q) h ys" if "slab_list fs h ys" "set ys \<inter> set (x # Q) = {}" for h ys
  proof -
    have "head_of (released fs x Q) h = head_of fs h" by (simp add: head_of_def fs_fields)
    moreover have "dll ?H (head_of fs h) ys"
    proof (rule dll_frame [OF that(1)])
      fix z assume "z \<in> set ys"
      then have "z \<noteq> x" "z \<notin> set Q" using that(2) by auto
      then show "sh_prev (?H ! unat z) = sh_prev (hdrs fs ! unat z) \<and> sh_next (?H ! unat z) = sh_next (hdrs fs ! unat z)"
        using push_hdrs_other [of z x Q] by simp
    qed simp
    ultimately show ?thesis unfolding H by simp
  qed
qed

end
