(* ===== verification/Fla_Pool.thy ===== *)
theory Fla_Pool
  imports Fla_Slab
begin

text \<open>
  \<open>src/src/flexalloc_pool.c\<close>: pools. A pool has an entry in the array of pool entries, a bit in
  the pool freelist and a binding of its name in the hash table; it owns three lists of slabs.
  Handles are the index of the entry with the secondary hash of the name.
\<close>

section \<open>Definitions\<close>

definition set_pools :: "flexalloc \<Rightarrow> fla_pools \<Rightarrow> flexalloc" where
  "set_pools fs p = fs\<lparr>fs_pools := p\<rparr>"

text \<open>
  \<open>fla_mkfs_pool_sgmt_init\<close>: an entry of zero bytes has a name of \<open>FLA_NAME_SIZE_POOL\<close> zero
  characters.
\<close>

definition pool_entry_zero :: fla_pool_entry where
  "pool_entry_zero = \<lparr>pe_empty_slabs = 0, pe_full_slabs = 0, pe_partial_slabs = 0, pe_obj_nlb = 0,
     pe_slab_nobj = 0, pe_root_obj_hndl = 0, pe_flags = 0, pe_usable = 0, pe_name = replicate FLA_NAME_SIZE_POOL 0\<rparr>"

definition fla_mkfs_pool_sgmt_init :: "flexalloc \<Rightarrow> fla_geo \<Rightarrow> flexalloc option" where
  "fla_mkfs_pool_sgmt_init fs geo = do {
     let p = fs_pools fs;
     fl \<leftarrow> fla_flist_init (po_freelist p) (g_npools geo);
     let hdr = \<lparr>hh_size = gp_htbl_tbl_size (g_pool_sgmt geo), hh_len = 0\<rparr>;
     tbl \<leftarrow> ht_tbl (po_htbl p);
     tbl \<leftarrow> fla_htbl_entries_init tbl (hh_size hdr);
     Some (set_pools fs (p\<lparr>po_freelist := fl, po_htbl_hdr := hdr, po_htbl := (po_htbl p)\<lparr>ht_tbl := Some tbl\<rparr>,
       po_entries := map (\<lambda>_. pool_entry_zero) (po_entries p)\<rparr>))
   }"

text \<open>The field \<open>usable\<close> of a pool entry, read and written as \<open>struct fla_pool_strp\<close>.\<close>

definition strp_ops :: "fla_pool_entry \<Rightarrow> fla_pool_strp" where
  "strp_ops e = \<lparr>ps_strp_nobjs = ucast (pe_usable e), ps_strp_nbytes = ucast (drop_bit 32 (pe_usable e))\<rparr>"

definition get_slab_elba_default :: "fla_pool_entry \<Rightarrow> u32 \<Rightarrow> u64" where
  "get_slab_elba_default e obj_ndx = ucast (pe_obj_nlb e * (obj_ndx + 1))"

definition get_slab_elba_strp :: "fla_pool_entry \<Rightarrow> u32 \<Rightarrow> u64" where
  "get_slab_elba_strp e obj_ndx = ucast (pe_obj_nlb e * (obj_ndx + ps_strp_nobjs (strp_ops e)))"

definition fla_pool_entry_reset_default ::
  "fla_pool_entry \<Rightarrow> fla_pool_create_arg \<Rightarrow> u32 \<Rightarrow> (int \<times> fla_pool_entry) option" where
  "fla_pool_entry_reset_default e arg slab_nobj =
     (let n = nat (pa_name_len arg)
      in if pa_name_len arg < 0 \<or> length (pa_name arg) < n \<or> length (pe_name e) < n then None
         else Some (0, e\<lparr>pe_name := take n (pa_name arg) @ drop n (pe_name e), pe_obj_nlb := pa_obj_nlb arg,
                pe_slab_nobj := slab_nobj, pe_empty_slabs := FLA_LINKED_LIST_NULL,
                pe_full_slabs := FLA_LINKED_LIST_NULL, pe_partial_slabs := FLA_LINKED_LIST_NULL,
                pe_root_obj_hndl := FLA_ROOT_OBJ_NONE\<rparr>))"

definition fla_pool_entry_reset_strp ::
  "fla_pool_entry \<Rightarrow> fla_pool_create_arg \<Rightarrow> u32 \<Rightarrow> (int \<times> fla_pool_entry) option" where
  "fla_pool_entry_reset_strp e arg slab_nobj = do {
     (err, e) \<leftarrow> fla_pool_entry_reset_default e arg slab_nobj;
     if err \<noteq> 0 then Some (err, e)
     else Some (0, e\<lparr>pe_usable := ucast (pa_strp_nobjs arg) OR push_bit 32 (ucast (pa_strp_nbytes arg))\<rparr>)
   }"

definition fla_pool_num_fla_objs_strp :: "fla_pool_entry \<Rightarrow> u32" where
  "fla_pool_num_fla_objs_strp e = ps_strp_nobjs (strp_ops e)"

definition fla_pool_num_fla_objs_default :: "fla_pool_entry \<Rightarrow> u32" where
  "fla_pool_num_fla_objs_default e = 1"

text \<open>Calls through the function table of a pool entry; an entry not yet set has no result.\<close>

definition fnc_get_slab_elba :: "fla_pool_entry_fnc \<Rightarrow> fla_pool_entry \<Rightarrow> u32 \<Rightarrow> u64" where
  "fnc_get_slab_elba f = (case f of Pool_fnc_default \<Rightarrow> get_slab_elba_default | Pool_fnc_strp \<Rightarrow> get_slab_elba_strp)"

definition fnc_reset ::
  "fla_pool_entry_fnc \<Rightarrow> fla_pool_entry \<Rightarrow> fla_pool_create_arg \<Rightarrow> u32 \<Rightarrow> (int \<times> fla_pool_entry) option" where
  "fnc_reset f = (case f of Pool_fnc_default \<Rightarrow> fla_pool_entry_reset_default | Pool_fnc_strp \<Rightarrow> fla_pool_entry_reset_strp)"

definition fnc_num_fla_objs :: "fla_pool_entry_fnc \<Rightarrow> fla_pool_entry \<Rightarrow> u32" where
  "fnc_num_fla_objs f =
     (case f of Pool_fnc_default \<Rightarrow> fla_pool_num_fla_objs_default | Pool_fnc_strp \<Rightarrow> fla_pool_num_fla_objs_strp)"

definition get_fnc :: "flexalloc \<Rightarrow> nat \<Rightarrow> fla_pool_entry_fnc option" where
  "get_fnc fs ndx = Option.bind (rd (po_funcs (fs_pools fs)) ndx) id"

definition fla_pool_initialize_entrie_func :: "fla_pools \<Rightarrow> u32 \<Rightarrow> (int \<times> fla_pools) option" where
  "fla_pool_initialize_entrie_func pools ndx = do {
     e \<leftarrow> rd (po_entries pools) (unat ndx);
     funcs \<leftarrow> wr (po_funcs pools) (unat ndx)
       (Some (if pe_flags e AND FLA_POOL_ENTRY_STRP \<noteq> 0 then Pool_fnc_strp else Pool_fnc_default));
     Some (0, pools\<lparr>po_funcs := funcs\<rparr>)
   }"

text \<open>
  \<open>fla_pool_init\<close> runs on the parts of the metadata buffer; the offsets at which the code finds
  them are those of the geometry.
\<close>

definition fla_pool_init :: "'d xnvme \<Rightarrow> flexalloc \<Rightarrow> fla_geo \<Rightarrow> (int \<times> flexalloc) option" where
  "fla_pool_init X fs geo =
     (let p = fs_pools fs;
          p = p\<lparr>po_htbl := (po_htbl p)\<lparr>ht_len := hh_len (po_htbl_hdr p), ht_tbl_size := hh_size (po_htbl_hdr p)\<rparr>\<rparr>
      in if \<not> x_malloc X Malloc_entrie_funcs then Some (- ENOMEM, set_pools fs (p\<lparr>po_funcs := []\<rparr>))
         else do {
           let p = p\<lparr>po_funcs := replicate (unat (g_npools geo)) None\<rparr>;
           (ret, found, p) \<leftarrow> fla_flist_search_wfunc (po_freelist p) 1
             (\<lambda>p ndx. map_option (\<lambda>(r, p). (of_int r, p)) (fla_pool_initialize_entrie_func p ndx)) p;
           Some (ret, set_pools fs p)
         })"

definition fla_base_pool_open :: "'d xnvme \<Rightarrow> flexalloc \<Rightarrow> u8 list \<Rightarrow> (int \<times> fla_pool option) option" where
  "fla_base_pool_open X fs name = do {
     htbl_entry \<leftarrow> htbl_lookup (po_htbl (fs_pools fs)) name;
     (case htbl_entry of
        None \<Rightarrow> Some (-1, None)
      | Some k \<Rightarrow>
          if \<not> x_malloc X Malloc_pool_handle then Some (- ENOMEM, None)
          else do {
            T \<leftarrow> ht_tbl (po_htbl (fs_pools fs));
            e \<leftarrow> rd T k;
            Some (0, Some \<lparr>ph_h2 = he_h2 e, ph_ndx = he_val e\<rparr>)
          })
   }"

fun release_heads :: "flexalloc \<Rightarrow> head_ref list \<Rightarrow> (int \<times> flexalloc) option" where
  "release_heads fs [] = Some (0, fs)"
| "release_heads fs (h # hs) = do {
     (err, fs) \<leftarrow> fla_hdll_remove_all fs h fla_release_slab;
     if err \<noteq> 0 then Some (err, fs) else release_heads fs hs
   }"

definition fla_pool_release_all_slabs :: "flexalloc \<Rightarrow> nat \<Rightarrow> (int \<times> flexalloc) option" where
  "fla_pool_release_all_slabs fs ndx = release_heads fs [Empty_slabs ndx, Full_slabs ndx, Partial_slabs ndx]"

definition fla_cs_cns_pool_check :: "u32 \<Rightarrow> int" where
  "fla_cs_cns_pool_check obj_nlb = 0"

definition fla_cs_zns_pool_check :: "flexalloc \<Rightarrow> u32 \<Rightarrow> int option" where
  "fla_cs_zns_pool_check fs obj_nlb = do {
     z \<leftarrow> cs_zns (fs_cs fs);
     Some (c_bool (ucast obj_nlb \<noteq> cz_nzsect z))
   }"

definition cs_check_pool :: "flexalloc \<Rightarrow> u32 \<Rightarrow> int option" where
  "cs_check_pool fs obj_nlb = (case cs_t (fs_cs fs) of
       FLA_CS_CNS \<Rightarrow> Some (fla_cs_cns_pool_check obj_nlb)
     | FLA_CS_ZNS \<Rightarrow> fla_cs_zns_pool_check fs obj_nlb)"

text \<open>The part of \<open>fla_base_pool_create\<close> that makes a new pool once the arguments are checked.\<close>

definition pool_create_new ::
  "flexalloc \<Rightarrow> fla_pool_create_arg \<Rightarrow> u32 \<Rightarrow> (int \<times> flexalloc \<times> fla_pool option) option" where
  "pool_create_new fs arg slab_nobj = do {
     let p = fs_pools fs;
     (entry_ndx, fl) \<leftarrow> fla_flist_entries_alloc (po_freelist p) 1;
     let p = p\<lparr>po_freelist := fl\<rparr>;
     if entry_ndx < 0 then Some (1, set_pools fs p, None)
     else do {
       let ndx = (of_int entry_ndx :: u32);
       e \<leftarrow> rd (po_entries p) (unat ndx);
       (err, p) \<leftarrow> fla_pool_initialize_entrie_func p ndx;
       (err, htbl) \<leftarrow> (if err \<noteq> 0 then Some (err, po_htbl p) else htbl_insert (po_htbl p) (pa_name arg) ndx);
       let p = p\<lparr>po_htbl := htbl\<rparr>;
       if err \<noteq> 0
       then do {
         (r, fl) \<leftarrow> fla_flist_entries_free (po_freelist p) ndx 1;
         Some (err, set_pools fs (p\<lparr>po_freelist := fl\<rparr>), None)
       }
       else do {
         f \<leftarrow> Option.bind (rd (po_funcs p) (unat ndx)) id;
         (r, e) \<leftarrow> fnc_reset f e arg slab_nobj;
         Some (0, set_pools fs (p\<lparr>po_entries := (po_entries p)[unat ndx := e]\<rparr>),
               Some \<lparr>ph_h2 = FLA_HTBL_H2 (pa_name arg), ph_ndx = ndx\<rparr>)
       }
     }
   }"

definition fla_base_pool_create ::
  "'d xnvme \<Rightarrow> flexalloc \<Rightarrow> fla_pool_create_arg \<Rightarrow> (int \<times> flexalloc \<times> fla_pool option) option" where
  "fla_base_pool_create X fs arg = do {
     (err, handle) \<leftarrow> fla_base_pool_open X fs (pa_name arg);
     if err = 0
     then do {
       h \<leftarrow> handle;
       e \<leftarrow> rd (po_entries (fs_pools fs)) (unat (ph_ndx h));
       if pe_obj_nlb e \<noteq> pa_obj_nlb arg then Some (- EINVAL, fs, None) else Some (0, fs, Some h)
     }
     else if pa_name_len arg \<ge> int FLA_NAME_SIZE_POOL then Some (1, fs, None)
     else do {
       slab_nobj \<leftarrow> fla_calc_objs_in_slab fs (pa_obj_nlb arg);
       if slab_nobj < 1 then Some (1, fs, None)
       else do {
         err \<leftarrow> cs_check_pool fs (pa_obj_nlb arg);
         if err \<noteq> 0 then Some (err, fs, None)
         else if \<not> x_malloc X Malloc_pool_handle then Some (- ENOMEM, fs, None)
         else pool_create_new fs arg slab_nobj
       }
     }
   }"

definition fla_base_pool_destroy :: "flexalloc \<Rightarrow> fla_pool \<Rightarrow> (int \<times> flexalloc) option" where
  "fla_base_pool_destroy fs handle =
     (if ph_ndx handle > su_npools (fs_super fs) then Some (1, fs)
      else do {
        e \<leftarrow> rd (po_entries (fs_pools fs)) (unat (ph_ndx handle));
        htbl_entry \<leftarrow> htbl_lookup (po_htbl (fs_pools fs)) (pe_name e);
        (case htbl_entry of
           None \<Rightarrow> Some (1, fs)
         | Some k \<Rightarrow> do {
             T \<leftarrow> ht_tbl (po_htbl (fs_pools fs));
             he \<leftarrow> rd T k;
             if he_h2 he \<noteq> ph_h2 handle then Some (1, fs)
             else if he_val he \<noteq> ph_ndx handle then Some (1, fs)
             else do {
               (err, fs) \<leftarrow> fla_pool_release_all_slabs fs (unat (ph_ndx handle));
               if err \<noteq> 0 then Some (err, fs)
               else do {
                 (err, fl) \<leftarrow> fla_flist_entries_free (po_freelist (fs_pools fs)) (ph_ndx handle) 1;
                 let fs = set_pools fs ((fs_pools fs)\<lparr>po_freelist := fl\<rparr>);
                 if err \<noteq> 0 then Some (err, fs)
                 else do {
                   e \<leftarrow> rd (po_entries (fs_pools fs)) (unat (ph_ndx handle));
                   htbl \<leftarrow> htbl_remove (po_htbl (fs_pools fs)) (pe_name e);
                   Some (0, set_pools fs ((fs_pools fs)\<lparr>po_htbl := htbl\<rparr>))
                 }
               }
             }
           })
      })"

text \<open>\<open>struct fla_object\<close> in the 64 bits of \<open>root_obj_hndl\<close>.\<close>

definition object_of_u64 :: "u64 \<Rightarrow> fla_object" where
  "object_of_u64 w = \<lparr>ob_slab_id = ucast w, ob_entry_ndx = ucast (drop_bit 32 w)\<rparr>"

definition u64_of_object :: "fla_object \<Rightarrow> u64" where
  "u64_of_object ob = ucast (ob_slab_id ob) OR push_bit 32 (ucast (ob_entry_ndx ob))"

definition fla_pool_lookup_root_object :: "flexalloc \<Rightarrow> fla_pool \<Rightarrow> u64 option" where
  "fla_pool_lookup_root_object fs handle =
     map_option pe_root_obj_hndl (rd (po_entries (fs_pools fs)) (unat (ph_ndx handle)))"

definition fla_base_pool_set_root_object ::
  "flexalloc \<Rightarrow> fla_pool \<Rightarrow> fla_object \<Rightarrow> u32 \<Rightarrow> (int \<times> flexalloc) option" where
  "fla_base_pool_set_root_object fs handle obj act = do {
     root \<leftarrow> fla_pool_lookup_root_object fs handle;
     if root \<noteq> FLA_ROOT_OBJ_NONE \<and> act AND ROOT_OBJ_SET_FORCE = 0 then Some (EINVAL, fs)
     else do {
       e \<leftarrow> rd (po_entries (fs_pools fs)) (unat (ph_ndx handle));
       Some (0, set_entry fs (unat (ph_ndx handle)) (e\<lparr>pe_root_obj_hndl :=
         (if act AND ROOT_OBJ_SET_CLEAR = 0 then u64_of_object obj else FLA_ROOT_OBJ_NONE)\<rparr>))
     }
   }"

definition fla_base_pool_get_root_object :: "flexalloc \<Rightarrow> fla_pool \<Rightarrow> (int \<times> fla_object option) option" where
  "fla_base_pool_get_root_object fs handle = do {
     root \<leftarrow> fla_pool_lookup_root_object fs handle;
     Some (if root = FLA_ROOT_OBJ_NONE then (EINVAL, None) else (0, Some (object_of_u64 root)))
   }"

definition fla_pool_obj_nlb :: "flexalloc \<Rightarrow> fla_pool \<Rightarrow> u32 option" where
  "fla_pool_obj_nlb fs handle = map_option pe_obj_nlb (rd (po_entries (fs_pools fs)) (unat (ph_ndx handle)))"

section \<open>The directory of pools\<close>

text \<open>
  The freelist, the entries and the hash table of the pools agree: every bound name has an
  index of its own, and the indices in use are those taken in the freelist. The table is twice
  as large as the number of pools, so that it never gets full.
\<close>

definition dir_inv :: "(u64 \<Rightarrow> nat) \<Rightarrow> flexalloc \<Rightarrow> bool" where
  "dir_inv hm fs \<longleftrightarrow> htbl_inv hm (po_htbl (fs_pools fs)) \<and> flist_inv (po_freelist (fs_pools fs))
     \<and> flist_cap (po_freelist (fs_pools fs)) = length (entries fs)
     \<and> length (po_funcs (fs_pools fs)) = length (entries fs)
     \<and> unat (ht_tbl_size (po_htbl (fs_pools fs))) = 2 * length (entries fs)
     \<and> inj_on (htbl_view (po_htbl (fs_pools fs))) (dom (htbl_view (po_htbl (fs_pools fs))))
     \<and> unat ` ran (htbl_view (po_htbl (fs_pools fs))) = {..<length (entries fs)} - flist_free (po_freelist (fs_pools fs))
     \<and> (\<forall>e\<in>set (entries fs). length (pe_name e) = FLA_NAME_SIZE_POOL)"

abbreviation pool_names :: "flexalloc \<Rightarrow> u64 \<rightharpoonup> u32" where
  "pool_names fs \<equiv> htbl_view (po_htbl (fs_pools fs))"

text \<open>Opening reads the map of names.\<close>

lemma pool_open_view:
  assumes "htbl_inv hm (po_htbl (fs_pools fs))" "htbl_key hm (po_htbl (fs_pools fs)) name"
  shows "fla_base_pool_open X fs name = Some (case pool_names fs (FLA_HTBL_H2 name) of
      None \<Rightarrow> (-1, None)
    | Some v \<Rightarrow> if x_malloc X Malloc_pool_handle then (0, Some \<lparr>ph_h2 = FLA_HTBL_H2 name, ph_ndx = v\<rparr>) else (- ENOMEM, None))"
proof -
  let ?H = "po_htbl (fs_pools fs)"
  from assms(1) obtain T where T: "ht_tbl ?H = Some T" "rh_uniq T" "htbl_view ?H = rh_map T" by (rule htbl_invE)
  from htbl_lookup_spec [OF assms T(1)] obtain r where r: "htbl_lookup ?H name = Some r"
    "case r of None \<Rightarrow> \<forall>i<length T. he_h2 (T ! i) \<noteq> FLA_HTBL_H2 name
     | Some j \<Rightarrow> j < length T \<and> he_h2 (T ! j) = FLA_HTBL_H2 name" by blast
  show ?thesis
  proof (cases r)
    case None
    then have "rh_map T (FLA_HTBL_H2 name) = None" using r(2) by (simp add: rh_map_None [OF T(2)])
    then show ?thesis using None r(1) by (simp add: fla_base_pool_open_def T(3))
  next
    case (Some j)
    then have "rh_map T (FLA_HTBL_H2 name) = Some (he_val (T ! j))"
      using r(2) assms(2) by (auto simp: rh_map_Some [OF T(2)] htbl_key_def)
    then show ?thesis using Some r T(1) by (simp add: fla_base_pool_open_def T(3))
  qed
qed

lemma dir_room:
  assumes "dir_inv hm fs"
  shows "ht_len (po_htbl (fs_pools fs)) \<noteq> ht_tbl_size (po_htbl (fs_pools fs))"
proof -
  let ?H = "po_htbl (fs_pools fs)" and ?m = "pool_names fs"
  have d: "unat (ht_tbl_size ?H) = 2 * length (entries fs)" "inj_on ?m (dom ?m)" "htbl_inv hm ?H"
    "unat ` ran ?m \<subseteq> {..<length (entries fs)}" "0 < length (entries fs)"
    using assms by (auto simp: dir_inv_def flist_inv_def)
  have len: "unat (ht_len ?H) = card (dom ?m)" using d(3) by (auto elim: htbl_invE)
  have "card (dom ?m) = card (?m ` dom ?m)" using d(2) by (simp add: card_image)
  also have "?m ` dom ?m = Some ` ran ?m" by (force simp: ran_def dom_def image_iff)
  also have "card (Some ` ran ?m) = card (unat ` ran ?m)" by (simp add: card_image inj_on_def)
  also have "\<dots> \<le> length (entries fs)" using card_mono [OF _ d(4)] by simp
  finally have "unat (ht_len ?H) < unat (ht_tbl_size ?H)" using len d(1,5) by linarith
  then show ?thesis by auto
qed

text \<open>The striped variant is never chosen: its flag is 0.\<close>

lemma init_entrie_func_default:
  "unat ndx < length (po_entries p) \<Longrightarrow> unat ndx < length (po_funcs p) \<Longrightarrow>
    fla_pool_initialize_entrie_func p ndx = Some (0, p\<lparr>po_funcs := (po_funcs p)[unat ndx := Some Pool_fnc_default]\<rparr>)"
  by (simp add: fla_pool_initialize_entrie_func_def FLA_POOL_ENTRY_STRP_def)

lemma flist_free_card: "finite (flist_free f) \<and> card (flist_free f) \<le> flist_cap f"
proof -
  have "flist_free f \<subseteq> {..<flist_cap f}" by (auto simp: flist_free_def)
  then show ?thesis using card_mono [of "{..<flist_cap f}"] finite_subset by fastforce
qed

text \<open>The entry of a new pool.\<close>

definition new_entry :: "fla_pool_entry \<Rightarrow> fla_pool_create_arg \<Rightarrow> u32 \<Rightarrow> fla_pool_entry" where
  "new_entry e arg n = e\<lparr>pe_name := take (nat (pa_name_len arg)) (pa_name arg) @ drop (nat (pa_name_len arg)) (pe_name e),
     pe_obj_nlb := pa_obj_nlb arg, pe_slab_nobj := n, pe_empty_slabs := FLA_LINKED_LIST_NULL,
     pe_full_slabs := FLA_LINKED_LIST_NULL, pe_partial_slabs := FLA_LINKED_LIST_NULL, pe_root_obj_hndl := FLA_ROOT_OBJ_NONE\<rparr>"

text \<open>Arguments that name a string of the length they say.\<close>

definition name_ok :: "fla_pool_create_arg \<Rightarrow> bool" where
  "name_ok arg \<longleftrightarrow> 0 \<le> pa_name_len arg \<and> nat (pa_name_len arg) \<le> length (pa_name arg) \<and> pa_name_len arg < int FLA_NAME_SIZE_POOL"

lemma pool_create_new_spec:
  assumes inv: "dir_inv hm fs" and key: "htbl_key hm (po_htbl (fs_pools fs)) (pa_name arg)"
    and new: "pool_names fs (FLA_HTBL_H2 (pa_name arg)) = None" and nm: "name_ok arg"
    and free: "flist_free (po_freelist (fs_pools fs)) \<noteq> {}"
  shows "\<exists>fs' w. pool_create_new fs arg n = Some (0, fs', Some \<lparr>ph_h2 = FLA_HTBL_H2 (pa_name arg), ph_ndx = w\<rparr>)
    \<and> unat w = Min (flist_free (po_freelist (fs_pools fs))) \<and> dir_inv hm fs'
    \<and> pool_names fs' = (pool_names fs)(FLA_HTBL_H2 (pa_name arg) \<mapsto> w)
    \<and> entries fs' = (entries fs)[unat w := new_entry (entries fs ! unat w) arg n]
    \<and> ht_tbl_size (po_htbl (fs_pools fs')) = ht_tbl_size (po_htbl (fs_pools fs))
    \<and> fs' = set_pools fs (fs_pools fs') \<and> po_htbl_hdr (fs_pools fs') = po_htbl_hdr (fs_pools fs)
    \<and> po_funcs (fs_pools fs') = (po_funcs (fs_pools fs))[unat w := Some Pool_fnc_default]
    \<and> po_freelist (fs_pools fs') = flist_clear (po_freelist (fs_pools fs)) (unat w)"
proof -
  let ?p = "fs_pools fs" and ?f = "po_freelist (fs_pools fs)"
  define m where "m = Min (flist_free ?f)"
  define w where "w = (of_nat m :: u32)"
  have fl: "flist_inv ?f" "flist_cap ?f = length (entries fs)" "length (po_funcs ?p) = length (entries fs)"
    "htbl_inv hm (po_htbl ?p)" using inv by (simp_all add: dir_inv_def)
  have m: "m \<in> flist_free ?f" unfolding m_def using free flist_free_card by (intro Min_in) blast+
  then have m: "m \<in> flist_free ?f" "m < length (entries fs)" "m < 2 ^ 31"
    using fl(1,2) flist_free_less [of m ?f] by (auto simp: flist_inv_def)
  have w: "unat w = m" "of_int (int m) = w" using m(3) by (simp_all add: w_def unat_of_nat_small)
  have al: "fla_flist_entries_alloc ?f 1 = Some (int m, flist_clear ?f m)"
    using fla_flist_entries_alloc_one [OF fl(1)] free by (simp add: m_def)
  from htbl_insert_view [OF fl(4) key dir_room [OF inv], of w] obtain H' where
    H': "htbl_insert (po_htbl ?p) (pa_name arg) w = Some (0, H')" "htbl_inv hm H'" "ht_tbl_size H' = ht_tbl_size (po_htbl ?p)"
      "htbl_view H' = (pool_names fs)(FLA_HTBL_H2 (pa_name arg) \<mapsto> w)" by blast
  have nmlen: "length (pe_name (entries fs ! m)) = FLA_NAME_SIZE_POOL" using inv m(2) by (simp add: dir_inv_def)
  have nl: "nat (pa_name_len arg) \<le> FLA_NAME_SIZE_POOL" using nm by (auto simp: name_ok_def)
  let ?fs = "set_pools fs (?p\<lparr>po_freelist := flist_clear ?f m, po_funcs := (po_funcs ?p)[m := Some Pool_fnc_default],
    po_htbl := H', po_entries := (entries fs)[m := new_entry (entries fs ! m) arg n]\<rparr>)"
  have res: "pool_create_new fs arg n = Some (0, ?fs, Some \<lparr>ph_h2 = FLA_HTBL_H2 (pa_name arg), ph_ndx = w\<rparr>)"
    using al m(2) fl(3) w H'(1) nm nmlen nl
    by (simp add: pool_create_new_def Let_def init_entrie_func_default fnc_reset_def fla_pool_entry_reset_default_def
        name_ok_def new_entry_def)
  have fc: "flist_upd ?f (flist_clear ?f m) (flist_free ?f - {m})" using flist_upd_clear fl(1,2) m(2) by simp
  have "dir_inv hm ?fs"
  proof -
    have r: "unat ` ran (pool_names fs) = {..<length (entries fs)} - flist_free ?f" and inj: "inj_on (pool_names fs) (dom (pool_names fs))"
      using inv by (simp_all add: dir_inv_def)
    have wn: "w \<notin> ran (pool_names fs)" using r m(1) w(1) by (metis Diff_iff image_eqI)
    have "ran (htbl_view H') = insert w (ran (pool_names fs))" using new by (simp add: H'(4))
    then have r': "unat ` ran (htbl_view H') = {..<length (entries fs)} - (flist_free ?f - {m})" using r m w(1) by auto
    have inj': "inj_on (htbl_view H') (dom (htbl_view H'))"
      using inj wn new unfolding H'(4) inj_on_def by (auto simp: ran_def dom_def)
    have "length (pe_name (new_entry (entries fs ! m) arg n)) = FLA_NAME_SIZE_POOL"
      using nm nmlen nl by (simp add: new_entry_def name_ok_def)
    then have "\<forall>e\<in>set (entries ?fs). length (pe_name e) = FLA_NAME_SIZE_POOL"
      using inv set_update_subset_insert by (fastforce simp: dir_inv_def set_pools_def)
    then show ?thesis using inv H'(2,3) r' inj' fc by (simp add: dir_inv_def set_pools_def flist_upd_def)
  qed
  then show ?thesis using res w(1) H'(3,4) by (auto simp: set_pools_def m_def)
qed

lemma pool_create_run:
  assumes "dir_inv hm fs" "htbl_key hm (po_htbl (fs_pools fs)) (pa_name arg)" "x_malloc X Malloc_pool_handle" "name_ok arg"
    "pool_names fs (FLA_HTBL_H2 (pa_name arg)) = None"
    "fla_calc_objs_in_slab fs (pa_obj_nlb arg) = Some n" "1 \<le> n" "cs_check_pool fs (pa_obj_nlb arg) = Some 0"
  shows "fla_base_pool_create X fs arg = pool_create_new fs arg n"
proof -
  have "htbl_inv hm (po_htbl (fs_pools fs))" using assms(1) by (simp add: dir_inv_def)
  note op = pool_open_view [OF this assms(2), of X]
  have "\<not> n < 1" using assms(7) by (simp only: not_less)
  then show ?thesis using op assms(3-6,8) by (simp add: fla_base_pool_create_def name_ok_def)
qed

section \<open>Properties\<close>

text \<open>
  C30: Creating a pool under a new name returns 0 and a handle; afterwards opening the name gives the
  same handle, the pool has no slabs, no root object and the object size asked for, every other
  name and every other pool is as before, and the directory of pools stays consistent.
\<close>

theorem fla_base_pool_create_open:
  assumes "dir_inv hm fs" "htbl_key hm (po_htbl (fs_pools fs)) (pa_name arg)" "x_malloc X Malloc_pool_handle" "name_ok arg"
    "pool_names fs (FLA_HTBL_H2 (pa_name arg)) = None" "flist_free (po_freelist (fs_pools fs)) \<noteq> {}"
    "fla_calc_objs_in_slab fs (pa_obj_nlb arg) = Some n" "1 \<le> n" "cs_check_pool fs (pa_obj_nlb arg) = Some 0"
  shows "\<exists>fs' h. fla_base_pool_create X fs arg = Some (0, fs', Some h) \<and> dir_inv hm fs'
    \<and> fla_base_pool_open X fs' (pa_name arg) = Some (0, Some h)
    \<and> fla_pool_obj_nlb fs' h = Some (pa_obj_nlb arg) \<and> fla_base_pool_get_root_object fs' h = Some (EINVAL, None)
    \<and> (\<forall>hd \<in> {Empty_slabs (unat (ph_ndx h)), Full_slabs (unat (ph_ndx h)), Partial_slabs (unat (ph_ndx h))}.
         get_head fs' hd = Some FLA_LINKED_LIST_NULL)
    \<and> (\<forall>k. htbl_key hm (po_htbl (fs_pools fs)) k \<and> FLA_HTBL_H2 k \<noteq> FLA_HTBL_H2 (pa_name arg)
         \<longrightarrow> fla_base_pool_open X fs' k = fla_base_pool_open X fs k)
    \<and> (\<forall>i. i \<noteq> unat (ph_ndx h) \<longrightarrow> rd (entries fs') i = rd (entries fs) i)"
proof -
  from pool_create_new_spec [OF assms(1,2,5,4,6), of n] obtain fs' w where
    c: "pool_create_new fs arg n = Some (0, fs', Some \<lparr>ph_h2 = FLA_HTBL_H2 (pa_name arg), ph_ndx = w\<rparr>)"
      "unat w = Min (flist_free (po_freelist (fs_pools fs)))" "dir_inv hm fs'"
      "pool_names fs' = (pool_names fs)(FLA_HTBL_H2 (pa_name arg) \<mapsto> w)"
      "entries fs' = (entries fs)[unat w := new_entry (entries fs ! unat w) arg n]"
      "ht_tbl_size (po_htbl (fs_pools fs')) = ht_tbl_size (po_htbl (fs_pools fs))" by blast
  have wlt: "unat w < length (entries fs)"
    using assms(1,6) flist_free_card Min_in flist_free_less unfolding c(2) dir_inv_def by metis
  have keys: "htbl_key hm (po_htbl (fs_pools fs')) k = htbl_key hm (po_htbl (fs_pools fs)) k" for k
    using c(6) by (simp add: htbl_key_def)
  have op: "fla_base_pool_open X fs k = Some (case pool_names fs (FLA_HTBL_H2 k) of None \<Rightarrow> (-1, None)
      | Some v \<Rightarrow> (0, Some \<lparr>ph_h2 = FLA_HTBL_H2 k, ph_ndx = v\<rparr>))"
    and op': "fla_base_pool_open X fs' k = Some (case pool_names fs' (FLA_HTBL_H2 k) of None \<Rightarrow> (-1, None)
      | Some v \<Rightarrow> (0, Some \<lparr>ph_h2 = FLA_HTBL_H2 k, ph_ndx = v\<rparr>))"
    if "htbl_key hm (po_htbl (fs_pools fs)) k" for k
    using pool_open_view [of hm fs k X] pool_open_view [of hm fs' k X] that keys assms(1,3) c(3)
    by (simp_all add: dir_inv_def split: option.split)
  have "fla_base_pool_create X fs arg = pool_create_new fs arg n" using pool_create_run [OF assms(1-5,7-9)] .
  then show ?thesis
    using c(1,3,4) op op' assms(2) wlt
    by (simp add: c(5) fla_pool_obj_nlb_def fla_base_pool_get_root_object_def fla_pool_lookup_root_object_def new_entry_def
        get_head_def rd_def)
qed

text \<open>Two unused pool entries and an empty table of names.\<close>

definition dir_example :: "fla_htbl \<Rightarrow> flexalloc" where
  "dir_example H = cache_example\<lparr>fs_pools := \<lparr>po_freelist = [2, 3], po_htbl = H, po_htbl_hdr = \<lparr>hh_size = 4, hh_len = 0\<rparr>,
     po_entries = replicate 2 pool_entry_zero, po_funcs = replicate 2 None\<rparr>\<rparr>"

definition arg_example :: fla_pool_create_arg where
  "arg_example = \<lparr>pa_flags = 0, pa_name = [97, 0], pa_name_len = 1, pa_obj_nlb = 60, pa_strp_nobjs = 0, pa_strp_nbytes = 0\<rparr>"

lemma dir_example_flist: "flist_free [2, 3] = {0, 1}" "flist_inv [2, 3]"
proof -
  have three: "bit (3 :: u32) i \<longleftrightarrow> i < 2" for i
    using bit_mask_iff [of 2 i, where 'a = "32 word"] by (auto simp: mask_eq_exp_minus_1 possible_bit_word)
  have "fbit [2, 3] i \<longleftrightarrow> i < 2" if "i < 32" for i using that three [of i] by (simp add: fbit_def)
  then show "flist_free [2, 3] = {0, 1}" "flist_inv [2, 3]" by (auto simp: flist_free_def flist_inv_def flist_cap_def)
qed

lemma dir_example_inv:
  assumes "htbl_inv hm H" "ht_tbl_size H = 4" "htbl_view H = Map.empty"
  shows "dir_inv hm (dir_example H)"
proof -
  have "{..<2} - {0, 1} = ({} :: nat set)" by auto
  then show ?thesis using assms dir_example_flist by (simp add: dir_inv_def dir_example_def flist_cap_def pool_entry_zero_def)
qed

lemma dir_example_calc:
  "fla_calc_objs_in_slab (dir_example H) 60 = Some 3" "cs_check_pool (dir_example H) 60 = Some 0"
  by (simp_all add: fla_calc_objs_in_slab_def calc_objs_loop.simps dir_example_def cache_example_fields geo_example_def
      fla_slab_cache_flist_nlb_def fla_flist_size_def FLA_CEIL_DIV_def FLA_FREELIST_U32_ELEMS_def cs_check_pool_def
      fla_cs_cns_pool_check_def)

theorem fla_base_pool_create_open_witness:
  "\<exists>H fs' h. htbl_init True htbl_blank 4 = Some (0, H) \<and> fla_base_pool_create mem_xnvme (dir_example H) arg_example = Some (0, fs', Some h)
    \<and> fla_base_pool_open mem_xnvme fs' [97, 0] = Some (0, Some h) \<and> fla_pool_obj_nlb fs' h = Some 60"
proof -
  obtain H where H: "htbl_init True htbl_blank 4 = Some (0, H)" "htbl_inv hm_example H"
    "ht_tbl_size H = 4" "ht_len H = 0" "htbl_view H = Map.empty" by (rule htbl_example_init)
  have k: "htbl_key hm_example (po_htbl (fs_pools (dir_example H))) (pa_name arg_example)"
    using htbl_example_keys(1) H(3) by (simp add: dir_example_def arg_example_def htbl_key_def)
  have a: "name_ok arg_example" "pool_names (dir_example H) (FLA_HTBL_H2 (pa_name arg_example)) = None"
    "flist_free (po_freelist (fs_pools (dir_example H))) \<noteq> {}" "x_malloc mem_xnvme Malloc_pool_handle"
    "pa_name arg_example = [97, 0]" "pa_obj_nlb arg_example = 60"
    using H(5) dir_example_flist
    by (simp_all add: name_ok_def arg_example_def FLA_NAME_SIZE_POOL_def dir_example_def mem_xnvme_def)
  from fla_base_pool_create_open [OF dir_example_inv [OF H(2,3,5)] k a(4,1,2,3), of 3] H(1) show ?thesis
    by (auto simp: dir_example_calc a(5,6))
qed

text \<open>
  C31: In a consistent directory, with memory for the handle, creation refuses what it cannot serve and
  then leaves the file system as it is: a name that is in use for another object size, a name that is
  too long, an object size of which no object fits in a slab, and a request for which there is no free
  pool entry. A name that is in use for the same object size yields the handle of the existing pool.
\<close>

theorem fla_base_pool_create_errors:
  assumes "dir_inv hm fs" "htbl_key hm (po_htbl (fs_pools fs)) (pa_name arg)" "x_malloc X Malloc_pool_handle"
    "fla_calc_objs_in_slab fs (pa_obj_nlb arg) = Some n"
  shows "case pool_names fs (FLA_HTBL_H2 (pa_name arg)) of
      Some v \<Rightarrow> fla_base_pool_create X fs arg =
        (if pe_obj_nlb (entries fs ! unat v) = pa_obj_nlb arg then Some (0, fs, Some \<lparr>ph_h2 = FLA_HTBL_H2 (pa_name arg), ph_ndx = v\<rparr>)
         else Some (- EINVAL, fs, None))
    | None \<Rightarrow>
        (int FLA_NAME_SIZE_POOL \<le> pa_name_len arg \<or> n = 0 \<longrightarrow> fla_base_pool_create X fs arg = Some (1, fs, None))
        \<and> (pa_name_len arg < int FLA_NAME_SIZE_POOL \<and> n \<noteq> 0 \<and> cs_check_pool fs (pa_obj_nlb arg) = Some 0
             \<and> flist_free (po_freelist (fs_pools fs)) = {} \<longrightarrow> fla_base_pool_create X fs arg = Some (1, fs, None))"
proof -
  let ?m = "pool_names fs"
  have inv: "htbl_inv hm (po_htbl (fs_pools fs))" "flist_inv (po_freelist (fs_pools fs))" using assms(1) by (simp_all add: dir_inv_def)
  note op = pool_open_view [OF inv(1) assms(2), of X]
  show ?thesis
  proof (cases "?m (FLA_HTBL_H2 (pa_name arg))")
    case None
    have "pool_create_new fs arg n = Some (1, fs, None)" if "flist_free (po_freelist (fs_pools fs)) = {}"
      using fla_flist_entries_alloc_one [OF inv(2)] that by (simp add: pool_create_new_def Let_def set_pools_def)
    moreover have "n < 1 \<longleftrightarrow> n = 0" by (auto simp: word_less_nat_alt unat_eq_0)
    ultimately show ?thesis using None op assms(3,4) by (simp add: fla_base_pool_create_def)
  next
    case (Some v)
    have "unat v \<in> unat ` ran ?m" using Some by (auto simp: ran_def)
    then have "unat v < length (entries fs)" using assms(1) by (simp add: dir_inv_def)
    then show ?thesis using Some op assms(3) by (simp add: fla_base_pool_create_def)
  qed
qed

theorem fla_base_pool_create_errors_witness:
  "\<exists>H. htbl_init True htbl_blank 4 = Some (0, H)
    \<and> fla_base_pool_create mem_xnvme (dir_example H) (arg_example\<lparr>pa_name_len := 112\<rparr>) = Some (1, dir_example H, None)"
proof -
  obtain H where H: "htbl_init True htbl_blank 4 = Some (0, H)" "htbl_inv hm_example H"
    "ht_tbl_size H = 4" "ht_len H = 0" "htbl_view H = Map.empty" by (rule htbl_example_init)
  have "htbl_key hm_example (po_htbl (fs_pools (dir_example H))) [97, 0]"
    using htbl_example_keys(1) H(3) by (simp add: dir_example_def htbl_key_def)
  moreover have "x_malloc mem_xnvme Malloc_pool_handle" by (simp add: mem_xnvme_def)
  moreover have "pool_names (dir_example H) = Map.empty" using H(5) by (simp add: dir_example_def)
  ultimately show ?thesis
    using fla_base_pool_create_errors [OF dir_example_inv [OF H(2,3,5)], of "arg_example\<lparr>pa_name_len := 112\<rparr>" mem_xnvme 3] H(1)
    by (simp add: arg_example_def dir_example_calc FLA_NAME_SIZE_POOL_def)
qed

text \<open>An object handle fits in the 64 bits of the root object of a pool.\<close>

lemma object_u64_roundtrip: "object_of_u64 (u64_of_object ob) = ob"
proof -
  have "(ucast (u64_of_object ob) :: u32) = ob_slab_id ob"
    by (rule bit_eqI) (simp add: u64_of_object_def bit_simps)
  moreover have "(ucast (drop_bit 32 (u64_of_object ob)) :: u32) = ob_entry_ndx ob"
    by (rule bit_eqI) (auto simp: u64_of_object_def bit_simps dest: bit_imp_le_length)
  ultimately show ?thesis by (simp add: object_of_u64_def)
qed

text \<open>
  C32: A root object that was set is the one that is read. Setting succeeds when the pool has no root
  object or the caller forces it; otherwise it returns \<open>EINVAL\<close> and changes nothing. Clearing makes
  reading fail. The one object handle that cannot be a root is the one whose bits are all set.
\<close>

theorem fla_base_pool_set_get_root:
  assumes "unat (ph_ndx h) < length (entries fs)" "fla_base_pool_set_root_object fs h ob act = Some (r, fs')"
  shows "if pe_root_obj_hndl (entries fs ! unat (ph_ndx h)) = FLA_ROOT_OBJ_NONE \<or> act AND ROOT_OBJ_SET_FORCE \<noteq> 0
    then r = 0 \<and> fla_base_pool_get_root_object fs' h = Some
      (if act AND ROOT_OBJ_SET_CLEAR = 0 \<and> u64_of_object ob \<noteq> FLA_ROOT_OBJ_NONE then (0, Some ob) else (EINVAL, None))
    else r = EINVAL \<and> fs' = fs"
  using assms
  by (auto simp: fla_base_pool_set_root_object_def fla_base_pool_get_root_object_def fla_pool_lookup_root_object_def
      fs_fields object_u64_roundtrip)

theorem fla_base_pool_set_get_root_witness:
  "\<exists>fs'. fla_base_pool_set_root_object list_example \<lparr>ph_h2 = 0, ph_ndx = 0\<rparr> \<lparr>ob_slab_id = 2, ob_entry_ndx = 1\<rparr> ROOT_OBJ_SET_FORCE = Some (0, fs')
    \<and> fla_base_pool_get_root_object fs' \<lparr>ph_h2 = 0, ph_ndx = 0\<rparr> = Some (0, Some \<lparr>ob_slab_id = 2, ob_entry_ndx = 1\<rparr>)"
proof -
  let ?h = "\<lparr>ph_h2 = 0, ph_ndx = 0\<rparr>" and ?ob = "\<lparr>ob_slab_id = 2, ob_entry_ndx = 1\<rparr>"
  have "\<exists>r fs'. fla_base_pool_set_root_object list_example ?h ?ob ROOT_OBJ_SET_FORCE = Some (r, fs')"
    by (simp add: fla_base_pool_set_root_object_def fla_pool_lookup_root_object_def list_example_fields ROOT_OBJ_SET_FORCE_def)
  then obtain r fs' where s: "fla_base_pool_set_root_object list_example ?h ?ob ROOT_OBJ_SET_FORCE = Some (r, fs')" by blast
  have "u64_of_object ?ob \<noteq> FLA_ROOT_OBJ_NONE" by (simp add: u64_of_object_def FLA_ROOT_OBJ_NONE_def)
  then show ?thesis
    using fla_base_pool_set_get_root [OF _ s] s by (simp add: list_example_fields ROOT_OBJ_SET_FORCE_def ROOT_OBJ_SET_CLEAR_def)
qed

end
