(* ===== verification/Fla_Object.thy ===== *)
theory Fla_Object
  imports Fla_Pool
begin

text \<open>
  Objects, in \<open>src/src/flexalloc_mm.c\<close> and \<open>flexalloc_cs_zns.c\<close>: allocation from a slab of the
  pool, release, and transfers between a buffer and the blocks of an object. A slab moves
  between the pool's lists of empty, partial and full slabs as its reference count changes.

  Objects of striped pools are transferred asynchronously by the code. The branch is guarded by
  \<open>flags && FLA_POOL_ENTRY_STRP\<close> with an enumerator of value 0, so that it is never taken;
  it has no result here (\<open>strp_branch_dead\<close>).
\<close>

section \<open>Allocation\<close>

text \<open>
  \<open>fla_pool_next_available_slab\<close>: the code checks the address of its out parameter, not what
  it points to, so a head that is out of range is returned as \<open>NULL\<close> with code 0.
\<close>

definition fla_pool_next_available_slab ::
  "'d xnvme \<Rightarrow> flexalloc \<Rightarrow> nat \<Rightarrow> (int \<times> flexalloc \<times> u32 option) option" where
  "fla_pool_next_available_slab X fs ndx = do {
     e \<leftarrow> rd (po_entries (fs_pools fs)) ndx;
     if pe_partial_slabs e = FLA_LINKED_LIST_NULL
     then if pe_empty_slabs e = FLA_LINKED_LIST_NULL
          then do {
            (err, fs, slab) \<leftarrow> fla_acquire_slab X fs (pe_obj_nlb e);
            if err \<noteq> 0 then Some (err, fs, slab)
            else do {
              s \<leftarrow> slab;
              (err, fs) \<leftarrow> fla_hdll_prepend fs s (Empty_slabs ndx);
              if err \<noteq> 0
              then do {
                (ret, fs) \<leftarrow> fla_release_slab fs s;
                Some (err, fs, slab)
              }
              else Some (0, fs, slab)
            }
          }
          else Some (0, fs, fla_slab_header_ptr (pe_empty_slabs e) fs)
     else Some (0, fs, fla_slab_header_ptr (pe_partial_slabs e) fs)
   }"

definition fla_slab_next_available_obj ::
  "flexalloc \<Rightarrow> u32 \<Rightarrow> u32 \<Rightarrow> (int \<times> flexalloc \<times> fla_object option) option" where
  "fla_slab_next_available_obj fs slab num_objs =
     (let (err, slab_id) = fla_slab_id slab fs
      in if err \<noteq> 0 then Some (err, fs, None)
         else do {
           (err, fs, obj) \<leftarrow> fla_slab_cache_obj_alloc fs slab_id num_objs;
           if err \<noteq> 0 then Some (err, fs, obj)
           else do {
             h \<leftarrow> get_header fs slab;
             e \<leftarrow> rd (po_entries (fs_pools fs)) (unat (sh_pool h));
             f \<leftarrow> get_fnc fs (unat (sh_pool h));
             fs \<leftarrow> set_header fs slab (h\<lparr>sh_refcount := sh_refcount h + fnc_num_fla_objs f e\<rparr>);
             Some (0, fs, obj)
           }
         })"

definition fla_pool_best_slab_list :: "flexalloc \<Rightarrow> u32 \<Rightarrow> head_ref option" where
  "fla_pool_best_slab_list fs slab = do {
     h \<leftarrow> get_header fs slab;
     let p = unat (sh_pool h);
     e \<leftarrow> rd (po_entries (fs_pools fs)) p;
     f \<leftarrow> get_fnc fs p;
     Some (if sh_refcount h = 0 then Empty_slabs p
           else if sh_refcount h + fnc_num_fla_objs f e > pe_slab_nobj e then Full_slabs p
           else Partial_slabs p)
   }"

definition fla_base_object_open ::
  "'d xnvme \<Rightarrow> flexalloc \<Rightarrow> fla_pool \<Rightarrow> fla_object \<Rightarrow> 'd \<Rightarrow> (int \<times> flexalloc) option" where
  "fla_base_object_open X fs pool_handle obj d = (case fla_slab_header_ptr (ob_slab_id obj) fs of
       None \<Rightarrow> Some (1, fs)
     | Some slab \<Rightarrow> do {
         e \<leftarrow> rd (po_entries (fs_pools fs)) (unat (ph_ndx pool_handle));
         (err, fs) \<leftarrow> fla_slab_cache_elem_load X fs (ob_slab_id obj) (pe_slab_nobj e) d;
         Some (if err = FLA_SLAB_CACHE_INVALID_STATE then 0 else err, fs)
       })"

text \<open>Moving a slab from one list to another.\<close>

definition move_slab :: "flexalloc \<Rightarrow> u32 \<Rightarrow> head_ref \<Rightarrow> head_ref \<Rightarrow> (int \<times> flexalloc) option" where
  "move_slab fs slab from_head to_head = do {
     (err, fs) \<leftarrow> fla_hdll_remove fs slab from_head;
     if err \<noteq> 0 then Some (err, fs) else fla_hdll_prepend fs slab to_head
   }"

definition fla_base_object_create ::
  "'d xnvme \<Rightarrow> flexalloc \<Rightarrow> fla_pool \<Rightarrow> 'd \<Rightarrow> (int \<times> flexalloc \<times> fla_object option) option" where
  "fla_base_object_create X fs pool_handle d = do {
     let ndx = unat (ph_ndx pool_handle);
     (err, fs, slab) \<leftarrow> fla_pool_next_available_slab X fs ndx;
     if err \<noteq> 0 then Some (err, fs, None)
     else do {
       s \<leftarrow> slab;
       let (err, slab_id) = fla_slab_id s fs;
       if err \<noteq> 0 then Some (err, fs, None)
       else do {
         e \<leftarrow> rd (po_entries (fs_pools fs)) ndx;
         (err, fs) \<leftarrow> fla_slab_cache_elem_load X fs slab_id (pe_slab_nobj e) d;
         if err \<noteq> 0 \<and> err \<noteq> FLA_SLAB_CACHE_INVALID_STATE then Some (err, fs, None)
         else do {
           from_head \<leftarrow> fla_pool_best_slab_list fs s;
           h \<leftarrow> get_header fs s;
           f \<leftarrow> get_fnc fs (unat (sh_pool h));
           e \<leftarrow> rd (po_entries (fs_pools fs)) ndx;
           (err, fs, obj) \<leftarrow> fla_slab_next_available_obj fs s (fnc_num_fla_objs f e);
           if err \<noteq> 0 then Some (err, fs, obj)
           else do {
             to_head \<leftarrow> fla_pool_best_slab_list fs s;
             if from_head \<noteq> to_head
             then do {
               (err, fs) \<leftarrow> move_slab fs s from_head to_head;
               Some (err, fs, obj)
             }
             else Some (0, fs, obj)
           }
         }
       }
     }
   }"

section \<open>Addresses\<close>

definition fla_object_slba :: "flexalloc \<Rightarrow> fla_object \<Rightarrow> fla_pool \<Rightarrow> u64 option" where
  "fla_object_slba fs obj pool_handle = do {
     e \<leftarrow> rd (po_entries (fs_pools fs)) (unat (ph_ndx pool_handle));
     off \<leftarrow> fla_geo_slab_lb_off fs (ob_slab_id obj);
     Some (off + ucast (pe_obj_nlb e * ob_entry_ndx obj))
   }"

definition fla_object_soffset :: "flexalloc \<Rightarrow> fla_object \<Rightarrow> fla_pool \<Rightarrow> u64 option" where
  "fla_object_soffset fs obj pool_handle =
     map_option (\<lambda>s. s * ucast (dv_lb_nbytes (fs_dev fs))) (fla_object_slba fs obj pool_handle)"

definition fla_object_elba :: "flexalloc \<Rightarrow> fla_object \<Rightarrow> fla_pool \<Rightarrow> u64 option" where
  "fla_object_elba fs obj pool_handle = do {
     e \<leftarrow> rd (po_entries (fs_pools fs)) (unat (ph_ndx pool_handle));
     f \<leftarrow> get_fnc fs (unat (ph_ndx pool_handle));
     off \<leftarrow> fla_geo_slab_lb_off fs (ob_slab_id obj);
     Some (off + fnc_get_slab_elba f e (ob_entry_ndx obj))
   }"

definition fla_object_eoffset :: "flexalloc \<Rightarrow> fla_object \<Rightarrow> fla_pool \<Rightarrow> u64 option" where
  "fla_object_eoffset fs obj pool_handle =
     map_option (\<lambda>s. s * ucast (dv_lb_nbytes (fs_dev fs))) (fla_object_elba fs obj pool_handle)"

section \<open>Sealing and destroying\<close>

text \<open>The zones of an object get one command each; the error codes are combined bitwise.\<close>

fun znd_send_loop ::
  "'d xnvme \<Rightarrow> znd_action \<Rightarrow> u64 \<Rightarrow> u64 \<Rightarrow> nat \<Rightarrow> nat \<Rightarrow> int \<Rightarrow> 'd \<Rightarrow> int \<times> 'd" where
  "znd_send_loop X act obj_slba nzsect fla_obj 0 err d = (err, d)"
| "znd_send_loop X act obj_slba nzsect fla_obj (Suc left) err d =
     (let (r, d) = fla_xne_dev_znd_send_mgmt X Data_dev (obj_slba + nzsect * of_nat fla_obj) act False d
      in znd_send_loop X act obj_slba nzsect (Suc fla_obj) left (err OR r) d)"

definition fla_znd_manage_zones_object ::
  "'d xnvme \<Rightarrow> znd_action \<Rightarrow> flexalloc \<Rightarrow> fla_pool \<Rightarrow> fla_object \<Rightarrow> 'd \<Rightarrow> (int \<times> 'd) option" where
  "fla_znd_manage_zones_object X act fs pool_handle obj d = do {
     obj_slba \<leftarrow> fla_object_slba fs obj pool_handle;
     e \<leftarrow> rd (po_entries (fs_pools fs)) (unat (ph_ndx pool_handle));
     f \<leftarrow> get_fnc fs (unat (ph_ndx pool_handle));
     z \<leftarrow> cs_zns (fs_cs fs);
     Some (znd_send_loop X act obj_slba (cz_nzsect z) 0 (unat (fnc_num_fla_objs f e)) 0 d)
   }"

definition fla_cs_zns_object_seal ::
  "'d xnvme \<Rightarrow> flexalloc \<Rightarrow> fla_pool \<Rightarrow> fla_object \<Rightarrow> 'd \<Rightarrow> (int \<times> 'd) option" where
  "fla_cs_zns_object_seal X = fla_znd_manage_zones_object X ZND_SEND_FINISH"

definition fla_cs_zns_object_destroy ::
  "'d xnvme \<Rightarrow> flexalloc \<Rightarrow> fla_pool \<Rightarrow> fla_object \<Rightarrow> 'd \<Rightarrow> (int \<times> 'd) option" where
  "fla_cs_zns_object_destroy X = fla_znd_manage_zones_object X ZND_SEND_RESET"

definition fla_cs_cns_object_seal :: "'d \<Rightarrow> int \<times> 'd" where
  "fla_cs_cns_object_seal d = (0, d)"

definition fla_cs_cns_object_destroy :: "'d \<Rightarrow> int \<times> 'd" where
  "fla_cs_cns_object_destroy d = (0, d)"

definition fla_object_seal ::
  "'d xnvme \<Rightarrow> flexalloc \<Rightarrow> fla_pool \<Rightarrow> fla_object \<Rightarrow> 'd \<Rightarrow> (int \<times> 'd) option" where
  "fla_object_seal X fs pool_handle obj d = (case cs_t (fs_cs fs) of
       FLA_CS_CNS \<Rightarrow> Some (fla_cs_cns_object_seal d)
     | FLA_CS_ZNS \<Rightarrow> fla_cs_zns_object_seal X fs pool_handle obj d)"

definition cs_object_destroy ::
  "'d xnvme \<Rightarrow> flexalloc \<Rightarrow> fla_pool \<Rightarrow> fla_object \<Rightarrow> 'd \<Rightarrow> (int \<times> 'd) option" where
  "cs_object_destroy X fs pool_handle obj d = (case cs_t (fs_cs fs) of
       FLA_CS_CNS \<Rightarrow> Some (fla_cs_cns_object_destroy d)
     | FLA_CS_ZNS \<Rightarrow> fla_cs_zns_object_destroy X fs pool_handle obj d)"

definition fla_base_object_destroy ::
  "'d xnvme \<Rightarrow> flexalloc \<Rightarrow> fla_pool \<Rightarrow> fla_object \<Rightarrow> 'd \<Rightarrow> (int \<times> flexalloc \<times> 'd) option" where
  "fla_base_object_destroy X fs pool_handle obj d = do {
     (err, d) \<leftarrow> cs_object_destroy X fs pool_handle obj d;
     if err \<noteq> 0 then Some (err, fs, d)
     else (case fla_slab_header_ptr (ob_slab_id obj) fs of
             None \<Rightarrow> Some (1, fs, d)
           | Some s \<Rightarrow> do {
               e \<leftarrow> rd (po_entries (fs_pools fs)) (unat (ph_ndx pool_handle));
               from_head \<leftarrow> fla_pool_best_slab_list fs s;
               h \<leftarrow> get_header fs s;
               f \<leftarrow> get_fnc fs (unat (sh_pool h));
               let num_fla_objs = fnc_num_fla_objs f e;
               (err, fs) \<leftarrow> fla_slab_cache_obj_free fs obj num_fla_objs;
               if err \<noteq> 0 then Some (err, fs, d)
               else do {
                 h \<leftarrow> get_header fs s;
                 fs \<leftarrow> set_header fs s (h\<lparr>sh_refcount := sh_refcount h - num_fla_objs\<rparr>);
                 to_head \<leftarrow> fla_pool_best_slab_list fs s;
                 (err, fs) \<leftarrow> move_slab fs s from_head to_head;
                 Some (err, fs, d)
               }
             })
   }"

section \<open>Transfers\<close>

text \<open>
  The checks that open \<open>fla_object_read\<close> and \<open>fla_object_write\<close>: an error code, and the first
  byte of the transfer on the device.
\<close>

definition object_bounds :: "flexalloc \<Rightarrow> fla_pool \<Rightarrow> fla_object \<Rightarrow> u64 \<Rightarrow> u64 \<Rightarrow> (int \<times> u64) option" where
  "object_bounds fs pool_handle obj off len = do {
     obj_eoffset \<leftarrow> fla_object_eoffset fs obj pool_handle;
     obj_soffset \<leftarrow> fla_object_soffset fs obj pool_handle;
     let soffset = obj_soffset + off;
     let eoffset = soffset + len;
     slab_off \<leftarrow> fla_geo_slab_lb_off fs (ob_slab_id obj);
     let slab_eoffset = (slab_off + ucast (g_slab_nlb (fs_geo fs))) * ucast (g_lb_nbytes (fs_geo fs));
     if slab_eoffset < obj_eoffset then Some (1, soffset)
     else if obj_eoffset < eoffset then Some (1, soffset)
     else Some (0, soffset)
   }"

definition is_striped :: "fla_pool_entry \<Rightarrow> bool" where
  "is_striped e \<longleftrightarrow> pe_flags e \<noteq> 0 \<and> FLA_POOL_ENTRY_STRP \<noteq> 0"

definition fla_object_read ::
  "'d xnvme \<Rightarrow> flexalloc \<Rightarrow> fla_pool \<Rightarrow> fla_object \<Rightarrow> u8 list \<Rightarrow> u64 \<Rightarrow> u64 \<Rightarrow> 'd \<Rightarrow> (int \<times> u8 list) option" where
  "fla_object_read X fs pool_handle obj buf r_offset r_len d = do {
     e \<leftarrow> rd (po_entries (fs_pools fs)) (unat (ph_ndx pool_handle));
     (err, r_soffset) \<leftarrow> object_bounds fs pool_handle obj r_offset r_len;
     if err \<noteq> 0 then Some (err, buf)
     else if \<not> is_striped e
     then let range = fla_xne_lba_range_from_offset_nbytes X Data_dev r_soffset r_len
          in if \<not> lr_is_valid range then Some (1, buf)
             else fla_xne_sync_seq_r_xneio X range Data_dev d buf
     else None
   }"

definition fla_object_write ::
  "'d xnvme \<Rightarrow> flexalloc \<Rightarrow> fla_pool \<Rightarrow> fla_object \<Rightarrow> u8 list \<Rightarrow> u64 \<Rightarrow> u64 \<Rightarrow> 'd
    \<Rightarrow> (int \<times> flexalloc \<times> 'd) option" where
  "fla_object_write X fs pool_handle obj buf w_offset w_len d = do {
     e \<leftarrow> rd (po_entries (fs_pools fs)) (unat (ph_ndx pool_handle));
     (err, w_soffset) \<leftarrow> object_bounds fs pool_handle obj w_offset w_len;
     if err \<noteq> 0 then Some (err, fs, d)
     else if \<not> is_striped e
     then let range = fla_xne_lba_range_from_offset_nbytes X Data_dev w_soffset w_len
          in if \<not> lr_is_valid range then Some (1, fs, d)
             else do {
               (err, dp, d) \<leftarrow> fla_xne_sync_seq_w_xneio X
                 \<lparr>xi_io_type = FLA_IO_DATA_WRITE, xi_dev = Data_dev, xi_buf = buf, xi_lba_range = range,
                  xi_pool_handle = Some pool_handle, xi_obj_handle = Some obj, xi_prep_ctx = dp_prep (fs_dp fs)\<rparr>
                 (fs_dp fs) d;
               Some (err, fs\<lparr>fs_dp := dp\<rparr>, d)
             }
     else None
   }"

text \<open>A read into the buffer from byte \<open>off\<close> on.\<close>

definition read_at ::
  "'d xnvme \<Rightarrow> u64 \<Rightarrow> u64 \<Rightarrow> nat \<Rightarrow> 'd \<Rightarrow> u8 list \<Rightarrow> ((int \<times> u8 list) option) option" where
  "read_at X soffset nbytes off d buf =
     (let range = fla_xne_lba_range_from_offset_nbytes X Data_dev soffset nbytes
      in if \<not> lr_is_valid range then Some None
         else do {
           (err, tail) \<leftarrow> fla_xne_sync_seq_r_xneio X range Data_dev d (drop off buf);
           Some (Some (err, take off buf @ tail))
         })"

definition fla_object_unaligned_write ::
  "'d xnvme \<Rightarrow> flexalloc \<Rightarrow> fla_pool \<Rightarrow> fla_object \<Rightarrow> u8 list \<Rightarrow> u64 \<Rightarrow> u64 \<Rightarrow> 'd
    \<Rightarrow> (int \<times> flexalloc \<times> 'd) option" where
  "fla_object_unaligned_write X fs pool_handle obj w_buf obj_offset len d = do {
     slba \<leftarrow> fla_object_slba fs obj pool_handle;
     let lb = (ucast (dv_lb_nbytes (fs_dev fs)) :: u64);
     let orig_sb = slba * lb + obj_offset;
     let orig_eb = orig_sb + len;
     let aligned_sb = (orig_sb div lb) * lb;
     let aligned_eb = FLA_CEIL_DIV orig_eb lb * lb;
     let bounce_buf_size = aligned_eb - aligned_sb;
     (case x_buf_alloc X Data_dev bounce_buf_size of
        None \<Rightarrow> Some (- 2, fs, d)
      | Some bounce \<Rightarrow> do {
          r1 \<leftarrow> (if aligned_sb < orig_sb then read_at X aligned_sb lb 0 d bounce else Some (Some (0, bounce)));
          (case r1 of
             None \<Rightarrow> Some (1, fs, d)
           | Some (err, bounce) \<Rightarrow>
               if err \<noteq> 0 then Some (err, fs, d)
               else do {
                 r2 \<leftarrow> (if aligned_eb > orig_eb
                        then read_at X (aligned_eb - lb) lb (unat (bounce_buf_size - lb)) d bounce
                        else Some (Some (0, bounce)));
                 (case r2 of
                    None \<Rightarrow> Some (1, fs, d)
                  | Some (err, bounce) \<Rightarrow>
                      if err \<noteq> 0 then Some (err, fs, d)
                      else do {
                        data \<leftarrow> buf_get w_buf 0 (unat len);
                        bounce \<leftarrow> buf_put bounce (unat (orig_sb - aligned_sb)) data;
                        let range = fla_xne_lba_range_from_offset_nbytes X Data_dev aligned_sb bounce_buf_size;
                        if \<not> lr_is_valid range then Some (1, fs, d)
                        else do {
                          (err, dp, d) \<leftarrow> fla_xne_sync_seq_w_xneio X
                            \<lparr>xi_io_type = FLA_IO_DATA_WRITE, xi_dev = Data_dev, xi_buf = bounce, xi_lba_range = range,
                             xi_pool_handle = Some pool_handle, xi_obj_handle = Some obj,
                             xi_prep_ctx = dp_prep (fs_dp fs)\<rparr> (fs_dp fs) d;
                          Some (err, fs\<lparr>fs_dp := dp\<rparr>, d)
                        }
                      })
               })
        })
   }"

definition fla_fs_lb_nbytes :: "flexalloc \<Rightarrow> int" where
  "fla_fs_lb_nbytes fs = c_int (dv_lb_nbytes (fs_dev fs))"

lemma strp_branch_dead: "\<not> is_striped e"
  by (simp add: is_striped_def FLA_POOL_ENTRY_STRP_def)

end
