(* ===== verification/Fla_Alloc.thy ===== *)
theory Fla_Alloc
  imports Fla_Object
begin

text \<open>
  Creating, opening and destroying objects, as changes of the set of objects that a pool has
  handed out. The invariant relates the lists of slabs, the reference counts, the freelists in
  the cache or on the device and the queue of free slabs; the three operations keep it and
  meet the contract \<open>object_store\<close>.

  \<open>fla_format_slab\<close> gives every slab to the pool with index 0, so the invariant is about that
  pool.
\<close>

section \<open>The invariant\<close>

abbreviation pool_heads :: "head_ref set" where
  "pool_heads \<equiv> {Empty_slabs 0, Full_slabs 0, Partial_slabs 0}"

text \<open>The list that a slab with \<open>r\<close> objects belongs to when it has room for \<open>n\<close>.\<close>

definition cls :: "u32 \<Rightarrow> u32 \<Rightarrow> head_ref" where
  "cls n r = (if r = 0 then Empty_slabs 0 else if n < r + 1 then Full_slabs 0 else Partial_slabs 0)"

lemma cls_head [simp]: "cls n r \<in> pool_heads"
  by (simp add: cls_def)

text \<open>The parts of the state that no operation on objects changes.\<close>

definition pool_env :: "'d xnvme \<Rightarrow> ('d \<Rightarrow> xdev \<Rightarrow> nat \<Rightarrow> u8 list) \<Rightarrow> flexalloc \<Rightarrow> u32 \<Rightarrow> bool" where
  "pool_env X blk fs n \<longleftrightarrow> slabs_ok fs \<and> cache_env X blk fs \<and> 0 < length (entries fs)
     \<and> get_fnc fs 0 = Some Pool_fnc_default \<and> pe_slab_nobj (entries fs ! 0) = n
     \<and> fla_calc_objs_in_slab fs (pe_obj_nlb (entries fs ! 0)) = Some n
     \<and> 0 < unat n \<and> unat n < 2 ^ 31 \<and> flist_blocks (lb_of fs) (unat n) \<le> slot_room fs"

definition same_rest :: "flexalloc \<Rightarrow> flexalloc \<Rightarrow> bool" where
  "same_rest fs fs' \<longleftrightarrow> fs_dev fs' = fs_dev fs \<and> fs_geo fs' = fs_geo fs \<and> fs_cs fs' = fs_cs fs
     \<and> fs_super fs' = fs_super fs \<and> fs_dp fs' = fs_dp fs \<and> length (hdrs fs') = length (hdrs fs)
     \<and> fs_state fs' = fs_state fs \<and> po_freelist (fs_pools fs') = po_freelist (fs_pools fs)
     \<and> po_htbl (fs_pools fs') = po_htbl (fs_pools fs) \<and> po_htbl_hdr (fs_pools fs') = po_htbl_hdr (fs_pools fs)
     \<and> po_funcs (fs_pools fs') = po_funcs (fs_pools fs)
     \<and> map entry_data (entries fs') = map entry_data (entries fs)"

lemma same_rest_refl [simp]: "same_rest fs fs"
  by (simp add: same_rest_def)

lemma same_rest_trans: "same_rest fs fs1 \<Longrightarrow> same_rest fs1 fs2 \<Longrightarrow> same_rest fs fs2"
  by (simp add: same_rest_def)

lemma same_rest_links:
  assumes "links_only fs fs'"
  shows "same_rest fs fs'"
proof -
  have "length (hdrs fs') = length (hdrs fs)" using links_only_lengths [OF assms] by (rule conjunct1)
  with assms show ?thesis unfolding links_only_def same_rest_def by (elim conjE) (intro conjI)
qed

lemma same_rest_env: "same_rest fs fs' \<Longrightarrow> pool_env X blk fs' n = pool_env X blk fs n"
proof -
  assume s: "same_rest fs fs'"
  then have "map entry_data (entries fs') = map entry_data (entries fs)" by (simp add: same_rest_def)
  then have len: "length (entries fs') = length (entries fs)" by (rule map_eq_imp_length_eq)
  have "pe_slab_nobj (entries fs' ! 0) = pe_slab_nobj (entries fs ! 0) \<and> pe_obj_nlb (entries fs' ! 0) = pe_obj_nlb (entries fs ! 0)"
    if "0 < length (entries fs)"
    using map_nth_same [of entry_data "entries fs'" "entries fs" 0] s that by (simp add: same_rest_def entry_data_def)
  moreover have "slabs_ok fs' = slabs_ok fs" "cache_env X blk fs' = cache_env X blk fs" "get_fnc fs' 0 = get_fnc fs 0"
    "fs_geo fs' = fs_geo fs" "slot_room fs' = slot_room fs"
    using s slabs_ok_cong [of fs' fs] cache_env_cong [of fs' fs X blk]
    by (simp_all add: same_rest_def get_fnc_def slot_room_def)
  moreover have "fla_calc_objs_in_slab fs' k = fla_calc_objs_in_slab fs k" for k
    using s by (intro calc_objs_cong) (simp_all add: same_rest_def)
  ultimately show ?thesis unfolding pool_env_def len by (simp cong: conj_cong)
qed

lemma same_rest_good: "same_rest fs fs' \<Longrightarrow> dev_good X fs' = dev_good X fs"
  by (rule dev_good_cong) (simp_all add: same_rest_def)

text \<open>
  A slab of the pool: its freelist is in the cache or on the device, and the reference count is
  the number of objects taken.
\<close>

definition slab_holds ::
  "('d \<Rightarrow> xdev \<Rightarrow> nat \<Rightarrow> u8 list) \<Rightarrow> flexalloc \<Rightarrow> 'd \<Rightarrow> u32 \<Rightarrow> u32 \<Rightarrow> freelist \<Rightarrow> bool" where
  "slab_holds blk fs d n x f \<longleftrightarrow>
     (\<exists>e. get_elem fs x = Some e
        \<and> (if ce_state e = FLA_SLAB_CACHE_ELEM_STALE then stored blk fs d x f else ce_freelist e = Some f))
     \<and> flist_fits fs f \<and> flist_cap f = unat n \<and> sh_pool (hdrs fs ! unat x) = 0
     \<and> unat (sh_refcount (hdrs fs ! unat x)) = unat n - card (flist_free f)"

text \<open>
  The lists of the pool and the queue of free slabs are well formed and share no slab; free
  slabs have no freelist in the cache. A slab outside \<open>A\<close> is on the list of its class.
\<close>

definition lists_ok :: "flexalloc \<Rightarrow> (head_ref \<Rightarrow> u32 list) \<Rightarrow> u32 list \<Rightarrow> bool" where
  "lists_ok fs L Q \<longleftrightarrow> (\<forall>h\<in>pool_heads. slab_list fs h (L h)) \<and> free_queue fs Q
     \<and> unat (sl_fslab_num (fs_slabs fs)) = length Q
     \<and> (\<forall>h\<in>pool_heads. \<forall>h'\<in>pool_heads. h \<noteq> h' \<longrightarrow> set (L h) \<inter> set (L h') = {})
     \<and> (\<forall>h\<in>pool_heads. set (L h) \<inter> set Q = {})"

definition pool_rep ::
  "('d \<Rightarrow> xdev \<Rightarrow> nat \<Rightarrow> u8 list) \<Rightarrow> flexalloc \<Rightarrow> 'd \<Rightarrow> u32 \<Rightarrow> (head_ref \<Rightarrow> u32 list) \<Rightarrow> (u32 \<Rightarrow> freelist)
    \<Rightarrow> u32 list \<Rightarrow> u32 set \<Rightarrow> bool" where
  "pool_rep blk fs d n L F Q A \<longleftrightarrow> lists_ok fs L Q \<and> cache_inv blk fs d
     \<and> (\<forall>x\<in>set Q. \<exists>e. get_elem fs x = Some e \<and> ce_state e = FLA_SLAB_CACHE_ELEM_STALE)
     \<and> (\<forall>h\<in>pool_heads. \<forall>x\<in>set (L h). slab_holds blk fs d n x (F x)
          \<and> (x \<notin> A \<longrightarrow> h = cls n (sh_refcount (hdrs fs ! unat x))))"

abbreviation slabs_of :: "(head_ref \<Rightarrow> u32 list) \<Rightarrow> u32 set" where
  "slabs_of L \<equiv> \<Union>h\<in>pool_heads. set (L h)"

text \<open>The objects that are handed out.\<close>

definition objects :: "u32 \<Rightarrow> (head_ref \<Rightarrow> u32 list) \<Rightarrow> (u32 \<Rightarrow> freelist) \<Rightarrow> fla_object set" where
  "objects n L F = {ob. ob_slab_id ob \<in> slabs_of L \<and> ob_entry_ndx ob < n
     \<and> unat (ob_entry_ndx ob) \<notin> flist_free (F (ob_slab_id ob))}"

lemma lists_in: "lists_ok fs L Q \<Longrightarrow> x \<in> slabs_of L \<Longrightarrow> unat x < length (hdrs fs)"
  unfolding lists_ok_def using dll_in by blast

lemma lists_distinct: "lists_ok fs L Q \<Longrightarrow> h \<in> pool_heads \<Longrightarrow> distinct (L h)"
  unfolding lists_ok_def dll_def by blast

lemma pool_repD:
  assumes "pool_rep blk fs d n L F Q A" "x \<in> slabs_of L"
  shows "slab_holds blk fs d n x (F x)" "unat x < length (hdrs fs)"
  using assms lists_in unfolding pool_rep_def by blast+

lemma pool_rep_lists: "pool_rep blk fs d n L F Q A \<Longrightarrow> lists_ok fs L Q"
  by (simp add: pool_rep_def)

lemma pool_rep_class:
  "pool_rep blk fs d n L F Q {} \<Longrightarrow> h \<in> pool_heads \<Longrightarrow> x \<in> set (L h) \<Longrightarrow> cls n (sh_refcount (hdrs fs ! unat x)) = h"
  unfolding pool_rep_def by (elim conjE, drule (1) bspec [of pool_heads], drule (1) bspec) simp

lemma pool_rep_own:
  assumes "pool_rep blk fs d n L F Q {}" "x \<in> slabs_of L"
  shows "x \<in> set (L (cls n (sh_refcount (hdrs fs ! unat x))))"
proof -
  obtain h where "h \<in> pool_heads" "x \<in> set (L h)" using assms(2) by blast
  then show ?thesis using pool_rep_class [OF assms(1)] by simp
qed

lemma num_objs_default [simp]: "fnc_num_fla_objs Pool_fnc_default e = 1"
  by (simp add: fnc_num_fla_objs_def fla_pool_num_fla_objs_default_def)

lemma get_fnc_fields [fs_fields]:
  "get_fnc (put_elem fs x e) i = get_fnc fs i" "get_fnc (set_headers fs H) i = get_fnc fs i"
  by (simp_all add: get_fnc_def fs_fields)

lemma best_list:
  assumes "pool_env X blk fs n" "slab_holds blk fs d n x f" "unat x < length (hdrs fs)"
  shows "fla_pool_best_slab_list fs x = Some (cls n (sh_refcount (hdrs fs ! unat x)))"
  using assms
  by (auto simp: fla_pool_best_slab_list_def pool_env_def slab_holds_def cls_def Let_def)

section \<open>Changing one slab\<close>

lemma slab_holds_cong:
  assumes "fs_dev fs' = fs_dev fs" "fs_geo fs' = fs_geo fs" "get_elem fs' x = get_elem fs x"
    "sh_pool (hdrs fs' ! unat x) = sh_pool (hdrs fs ! unat x)"
    "sh_refcount (hdrs fs' ! unat x) = sh_refcount (hdrs fs ! unat x)"
  shows "slab_holds blk fs' d n x f = slab_holds blk fs d n x f"
  using assms stored_cong [of fs' fs blk d x f] by (simp add: slab_holds_def flist_fits_def)

text \<open>A slab gets another freelist and reference count.\<close>

definition upd_slab :: "flexalloc \<Rightarrow> u32 \<Rightarrow> fla_slab_flist_cache_elem \<Rightarrow> u32 \<Rightarrow> flexalloc" where
  "upd_slab fs x e r = set_headers (put_elem fs x e) ((hdrs fs)[unat x := (hdrs fs ! unat x)\<lparr>sh_refcount := r\<rparr>])"

lemma upd_slab_fields [fs_fields]:
  "fs_geo (upd_slab fs x e r) = fs_geo fs" "fs_pools (upd_slab fs x e r) = fs_pools fs"
  "fs_dev (upd_slab fs x e r) = fs_dev fs" "fs_super (upd_slab fs x e r) = fs_super fs"
  "fs_dp (upd_slab fs x e r) = fs_dp fs" "fs_cs (upd_slab fs x e r) = fs_cs fs" "fs_state (upd_slab fs x e r) = fs_state fs"
  "length (hdrs (upd_slab fs x e r)) = length (hdrs fs)"
  "hdrs (upd_slab fs x e r) = (hdrs fs)[unat x := (hdrs fs ! unat x)\<lparr>sh_refcount := r\<rparr>]"
  "sl_fslab_num (fs_slabs (upd_slab fs x e r)) = sl_fslab_num (fs_slabs fs)"
  "sl_fslab_head (fs_slabs (upd_slab fs x e r)) = sl_fslab_head (fs_slabs fs)"
  "sl_fslab_tail (fs_slabs (upd_slab fs x e r)) = sl_fslab_tail (fs_slabs fs)"
  by (simp_all add: upd_slab_def fs_fields)

lemma upd_slab_rest [simp]: "same_rest fs (upd_slab fs x e r)"
  by (simp add: same_rest_def fs_fields)

lemma upd_slab_elem:
  "get_elem fs x = Some e0 \<Longrightarrow> get_elem (upd_slab fs x e r) y = (if y = x then Some e else get_elem fs y)"
  using get_put_elem [of fs x e0 e y] get_elem_cong [of "upd_slab fs x e r" "put_elem fs x e" y]
  by (simp add: upd_slab_def fs_fields)

lemma upd_slab_lists:
  assumes "lists_ok fs L Q"
  shows "lists_ok (upd_slab fs x e r) L Q"
proof -
  let ?fs = "upd_slab fs x e r"
  have links: "sh_prev (hdrs ?fs ! i) = sh_prev (hdrs fs ! i) \<and> sh_next (hdrs ?fs ! i) = sh_next (hdrs fs ! i)" for i
    by (cases "i = unat x"; cases "unat x < length (hdrs fs)") (simp_all add: fs_fields list_update_beyond)
  have dll: "dll (hdrs ?fs) h ys" if "dll (hdrs fs) h ys" for h ys
    by (rule dll_frame [OF that]) (use links in \<open>simp_all add: fs_fields\<close>)
  have "head_of ?fs h = head_of fs h" for h by (simp add: head_of_def fs_fields)
  moreover have "sl_fslab_head (fs_slabs ?fs) = sl_fslab_head (fs_slabs fs)"
    "sl_fslab_tail (fs_slabs ?fs) = sl_fslab_tail (fs_slabs fs)" "sl_fslab_num (fs_slabs ?fs) = sl_fslab_num (fs_slabs fs)"
    by (simp_all only: fs_fields)
  ultimately show ?thesis using assms dll unfolding lists_ok_def free_queue_def by auto
qed

lemma upd_slab_rep:
  assumes rep: "pool_rep blk fs d n L F Q A" and x: "x \<in> slabs_of L"
    and e: "ce_state e \<noteq> FLA_SLAB_CACHE_ELEM_STALE" "ce_freelist e = Some f" "elem_inv blk fs d x e"
    and f: "flist_cap f = unat n" "unat r = unat n - card (flist_free f)"
  shows "pool_rep blk (upd_slab fs x e r) d n L (F(x := f)) Q
    (if r = sh_refcount (hdrs fs ! unat x) then A else insert x A)"
proof -
  let ?fs = "upd_slab fs x e r"
  have old: "slab_holds blk fs d n x (F x)" and xlt: "unat x < length (hdrs fs)" using pool_repD [OF rep x] .
  from old obtain e0 where e0: "get_elem fs x = Some e0" by (auto simp: slab_holds_def)
  have elem: "get_elem ?fs y = (if y = x then Some e else get_elem fs y)" for y by (rule upd_slab_elem [OF e0])
  have fits: "flist_fits fs f" using e by (auto simp: elem_inv_def elem_ok_def)
  have hdr: "hdrs ?fs ! unat y = (if y = x then (hdrs fs ! unat x)\<lparr>sh_refcount := r\<rparr> else hdrs fs ! unat y)" for y
    using xlt by (simp add: fs_fields nth_list_update)
  have "cache_inv blk (put_elem fs x e) d" using cache_inv_put_same [OF _ e0 e(3)] rep by (simp add: pool_rep_def)
  then have "cache_inv blk ?fs d"
    using get_elem_cong [of ?fs "put_elem fs x e"] elem_inv_cong [of ?fs "put_elem fs x e" blk d]
    by (simp add: cache_inv_def upd_slab_def fs_fields)
  moreover have "\<exists>e. get_elem ?fs q = Some e \<and> ce_state e = FLA_SLAB_CACHE_ELEM_STALE" if "q \<in> set Q" for q
  proof -
    have "q \<noteq> x" using rep x that by (auto simp: pool_rep_def lists_ok_def)
    then show ?thesis using rep that elem by (simp add: pool_rep_def)
  qed
  moreover have "slab_holds blk ?fs d n y ((F(x := f)) y)" if y: "y \<in> slabs_of L" for y
  proof (cases "y = x")
    case True
    have "sh_pool (hdrs fs ! unat x) = 0" using old by (simp add: slab_holds_def)
    then show ?thesis using e f fits True xlt by (simp add: slab_holds_def elem flist_fits_def fs_fields)
  next
    case False
    then have "slab_holds blk ?fs d n y (F y) = slab_holds blk fs d n y (F y)"
      by (intro slab_holds_cong) (simp_all add: elem hdr fs_fields)
    then show ?thesis using pool_repD(1) [OF rep y] False by simp
  qed
  moreover have "lists_ok ?fs L Q" using rep upd_slab_lists by (simp add: pool_rep_def)
  ultimately show ?thesis using rep hdr unfolding pool_rep_def by auto
qed

section \<open>Moving a slab between lists\<close>

definition moved :: "(head_ref \<Rightarrow> u32 list) \<Rightarrow> u32 \<Rightarrow> head_ref \<Rightarrow> head_ref \<Rightarrow> head_ref \<Rightarrow> u32 list" where
  "moved L x h h' = (let L = L(h := remove1 x (L h)) in L(h' := x # L h'))"

lemma moved_sets:
  assumes "h \<in> pool_heads" "h' \<in> pool_heads" "x \<in> set (L h)" "distinct (L h)"
  shows "slabs_of (moved L x h h') = slabs_of L"
  using assms set_remove1_eq [OF assms(4), of x] by (auto simp: moved_def Let_def split: if_splits)

text \<open>Two states with the same links outside the lists.\<close>

lemma links_rep:
  assumes rep: "pool_rep blk fs d n L F Q A" and l: "links_only fs fs'" and lists: "lists_ok fs' L' Q"
    and s: "slabs_of L' = slabs_of L"
    and c: "\<And>h x. h \<in> pool_heads \<Longrightarrow> x \<in> set (L' h) \<Longrightarrow> x \<notin> A' \<Longrightarrow> h = cls n (sh_refcount (hdrs fs ! unat x))"
  shows "pool_rep blk fs' d n L' F Q A'"
proof -
  have len: "length (hdrs fs') = length (hdrs fs)" using links_only_lengths [OF l] by simp
  have env: "fs_dev fs' = fs_dev fs" "fs_geo fs' = fs_geo fs" "fs_slab_cache fs' = fs_slab_cache fs"
    "map sh_refcount (hdrs fs') = map sh_refcount (hdrs fs)" "map sh_pool (hdrs fs') = map sh_pool (hdrs fs)"
    using l by (simp_all only: links_only_def)
  note el = get_elem_cong [OF env(3)]
  have "cache_inv blk fs' d" using rep by (simp add: pool_rep_def cache_inv_def el env(2) elem_inv_cong [OF env(1,2)])
  moreover have "slab_holds blk fs' d n x (F x) \<and> sh_refcount (hdrs fs' ! unat x) = sh_refcount (hdrs fs ! unat x)"
    if x: "x \<in> slabs_of L" for x
  proof -
    have "unat x < length (hdrs fs)" using pool_repD(2) [OF rep x] .
    then have "sh_pool (hdrs fs' ! unat x) = sh_pool (hdrs fs ! unat x)"
      "sh_refcount (hdrs fs' ! unat x) = sh_refcount (hdrs fs ! unat x)"
      using map_nth_same [OF env(4)] map_nth_same [OF env(5)] by simp_all
    then show ?thesis using slab_holds_cong [OF env(1,2) el, of x blk d n "F x"] pool_repD(1) [OF rep x] by blast
  qed
  moreover have "x \<in> slabs_of L" if "h \<in> pool_heads" "x \<in> set (L' h)" for h x using s that by blast
  moreover have "\<forall>x\<in>set Q. \<exists>e. get_elem fs' x = Some e \<and> ce_state e = FLA_SLAB_CACHE_ELEM_STALE"
    using rep unfolding pool_rep_def el by blast
  ultimately show ?thesis using lists c unfolding pool_rep_def by simp
qed

lemma move_slab_ok:
  assumes env: "pool_env X blk fs n" and rep: "pool_rep blk fs d n L F Q {x}"
    and h: "h \<in> pool_heads" "x \<in> set (L h)" and h': "h' = cls n (sh_refcount (hdrs fs ! unat x))"
  shows "\<exists>fs'. move_slab fs x h h' = Some (0, fs') \<and> links_only fs fs' \<and> pool_rep blk fs' d n (moved L x h h') F Q {}"
proof -
  have hh: "h' \<in> pool_heads" using h' by (simp only: cls_head)
  have ok: "slabs_ok fs" and ne: "0 < length (entries fs)" using env by (simp_all add: pool_env_def)
  have lists: "lists_ok fs L Q" using rep by (simp add: pool_rep_def)
  have hp: "head_pool g < length (entries fs)" if "g \<in> pool_heads" for g using that ne by (auto simp: head_pool_def)
  obtain xs ys where L: "L h = xs @ x # ys" using h(2) split_list by fast
  have d: "distinct (L h)" using lists_distinct [OF lists h(1)] .
  have r1: "remove1 x (L h) = xs @ ys" using d by (simp add: L remove1_append)
  have sl: "slab_list fs g (L g)" if "g \<in> pool_heads" for g using lists that unfolding lists_ok_def by blast
  have "slab_list fs h (xs @ x # ys)" using sl [OF h(1)] by (simp add: L)
  from hdll_remove_spec [OF ok hp [OF h(1)] this] obtain fs1 where fs1: "fla_hdll_remove fs x h = Some (0, fs1)"
    "slab_list fs1 h (xs @ ys)" "\<And>g zs. g \<noteq> h \<Longrightarrow> slab_list fs g zs \<Longrightarrow> set zs \<inter> set (xs @ ys) = {} \<Longrightarrow> slab_list fs1 g zs"
    "\<And>zs. free_queue fs zs \<Longrightarrow> set zs \<inter> set (xs @ ys) = {} \<Longrightarrow> free_queue fs1 zs" "links_only fs fs1" by blast
  define L1 where "L1 = L(h := xs @ ys)"
  have disj: "set (L g) \<inter> set (L g') = {}" if "g \<in> pool_heads" "g' \<in> pool_heads" "g \<noteq> g'" for g g'
    using lists that unfolding lists_ok_def by blast
  have qd: "set (L g) \<inter> set Q = {}" if "g \<in> pool_heads" for g using lists that unfolding lists_ok_def by blast
  have sub: "set (L1 g) \<subseteq> set (L g) - {x}" if "g \<in> pool_heads" for g
    using d disj [OF that h(1)] h(2) by (auto simp: L1_def L)
  have sl1: "slab_list fs1 g (L1 g)" if "g \<in> pool_heads" for g
    using fs1(2) fs1(3) [of g "L g"] sl [OF that] disj [OF that h(1)] by (auto simp: L1_def L)
  have q1: "free_queue fs1 Q" using fs1(4) [of Q] qd [OF h(1)] lists by (auto simp: L lists_ok_def)
  have ok1: "slabs_ok fs1" and hp1: "head_pool g < length (entries fs1)" if "g \<in> pool_heads" for g
    using links_only_slabs_ok [OF fs1(5)] links_only_lengths [OF fs1(5)] ok hp that by simp_all
  have xlt: "unat x < length (hdrs fs1)"
    using links_only_lengths [OF fs1(5)] lists_in [OF lists, of x] h by auto
  have "x \<notin> set (L1 h')" using sub [OF hh] by blast
  from hdll_prepend_spec [OF ok1 [OF hh] hp1 [OF hh] sl1 [OF hh] xlt this] obtain fs2 where
    fs2: "fla_hdll_prepend fs1 x h' = Some (0, fs2)" "slab_list fs2 h' (x # L1 h')"
    "\<And>g zs. g \<noteq> h' \<Longrightarrow> slab_list fs1 g zs \<Longrightarrow> set zs \<inter> set (x # L1 h') = {} \<Longrightarrow> slab_list fs2 g zs"
    "\<And>zs. free_queue fs1 zs \<Longrightarrow> set zs \<inter> set (x # L1 h') = {} \<Longrightarrow> free_queue fs2 zs" "links_only fs1 fs2" by blast
  define L2 where "L2 = moved L x h h'"
  have L2: "L2 g = (if g = h' then x # L1 h' else L1 g)" for g
    by (simp add: L2_def moved_def L1_def r1 Let_def)
  have l: "links_only fs fs2" using links_only_trans fs1(5) fs2(5) by blast
  have xq: "x \<notin> set Q" using qd [OF h(1)] h(2) by blast
  have sub2: "set (L2 g) \<subseteq> insert x (set (L g))" "g \<noteq> h' \<Longrightarrow> set (L2 g) \<subseteq> set (L g) - {x}" if "g \<in> pool_heads" for g
    using sub [OF that] by (auto simp: L2)
  have dj2: "set (L2 g) \<inter> set (L2 g') = {}" if "g \<in> pool_heads" "g' \<in> pool_heads" "g \<noteq> g'" for g g'
    using sub2 [OF that(1)] sub2 [OF that(2)] disj [OF that] that(3) by blast
  have sl2: "slab_list fs2 g (L2 g)" if "g \<in> pool_heads" for g
  proof (cases "g = h'")
    case False
    then have "set (L2 g) \<inter> set (x # L1 h') = {}" using dj2 [OF that hh] L2 by auto
    then show ?thesis using fs2(3) [OF False sl1 [OF that]] False by (simp add: L2)
  qed (use fs2(2) in \<open>simp add: L2\<close>)
  have dq2: "set (L2 g) \<inter> set Q = {}" if "g \<in> pool_heads" for g using sub2(1) [OF that] qd [OF that] xq by blast
  have "free_queue fs2 Q" using fs2(4) [OF q1] dq2 [OF hh] by (auto simp: L2)
  moreover have "sl_fslab_num (fs_slabs fs2) = sl_fslab_num (fs_slabs fs)" using l by (simp only: links_only_def)
  ultimately have lists2: "lists_ok fs2 L2 Q" using sl2 dj2 dq2 lists unfolding lists_ok_def by simp
  have s2: "slabs_of L2 = slabs_of L" unfolding L2_def by (rule moved_sets [of h h' x L]) (fact h(1) hh h(2) d)+
  have cl: "g = cls n (sh_refcount (hdrs fs ! unat y))" if "g \<in> pool_heads" "y \<in> set (L2 g)" for g y
  proof (cases "y = x")
    case True
    then have "g = h'" using sub2(2) [OF that(1)] that(2) by blast
    then show ?thesis using h' True by simp
  next
    case False
    then have "y \<in> set (L g)" using sub2(1) [OF that(1)] that(2) by blast
    then show ?thesis using rep False that(1) unfolding pool_rep_def by blast
  qed
  have "move_slab fs x h h' = Some (0, fs2)" using fs1(1) fs2(1) by (simp add: move_slab_def)
  moreover have "pool_rep blk fs2 d n L2 F Q {}" by (rule links_rep [OF rep l lists2 s2]) (rule cl)
  ultimately show ?thesis using l unfolding L2_def by blast
qed

section \<open>Loading the freelist of a slab\<close>

definition loaded :: "flexalloc \<Rightarrow> u32 \<Rightarrow> bool" where
  "loaded fs x \<longleftrightarrow> (\<exists>e. get_elem fs x = Some e \<and> ce_state e \<noteq> FLA_SLAB_CACHE_ELEM_STALE)"

lemma loaded_cong: "fs_slab_cache fs' = fs_slab_cache fs \<Longrightarrow> loaded fs' x = loaded fs x"
  by (simp add: loaded_def get_elem_cong [of fs' fs])

lemma loaded_links: "links_only fs fs' \<Longrightarrow> loaded fs' x = loaded fs x"
  by (rule loaded_cong) (simp add: links_only_def)

lemma loaded_upd_slab:
  "get_elem fs x = Some e0 \<Longrightarrow> ce_state e \<noteq> FLA_SLAB_CACHE_ELEM_STALE \<Longrightarrow>
    loaded (upd_slab fs x e r) y = (y = x \<or> loaded fs y)"
  by (simp add: loaded_def upd_slab_elem)

lemma upd_slab_same_count:
  "upd_slab fs x e (sh_refcount (hdrs fs ! unat x)) = put_elem fs x e"
  by (simp add: upd_slab_def set_headers_def put_elem_def)

lemma pool_env_slab: "pool_env X blk fs n \<Longrightarrow> unat x < length (hdrs fs) \<Longrightarrow> unat x < unat (g_nslabs (fs_geo fs))"
  by (simp add: pool_env_def slabs_ok_def)

lemma load_slab:
  assumes env: "pool_env X blk fs n" and rep: "pool_rep blk fs d n L F Q A" and x: "x \<in> slabs_of L"
    and good: "dev_good X fs"
  shows "\<exists>r fs'. fla_slab_cache_elem_load X fs x n d = Some (r, fs') \<and> r \<in> {0, FLA_SLAB_CACHE_INVALID_STATE}
    \<and> same_rest fs fs' \<and> fs_slabs fs' = fs_slabs fs \<and> pool_rep blk fs' d n L F Q A
    \<and> loaded fs' x \<and> (\<forall>y. loaded fs y \<longrightarrow> loaded fs' y)"
proof -
  have old: "slab_holds blk fs d n x (F x)" and xlt: "unat x < length (hdrs fs)" using pool_repD [OF rep x] .
  obtain e where e: "get_elem fs x = Some e" using old by (auto simp: slab_holds_def)
  show ?thesis
  proof (cases "ce_state e = FLA_SLAB_CACHE_ELEM_STALE")
    case False
    then have "fla_slab_cache_elem_load X fs x n d = Some (FLA_SLAB_CACHE_INVALID_STATE, fs)"
      using e by (simp add: fla_slab_cache_elem_load_def)
    then show ?thesis using rep e False by (auto simp: loaded_def)
  next
    case True
    have st: "stored blk fs d x (F x)" "flist_fits fs (F x)" "flist_cap (F x) = unat n"
      "unat (sh_refcount (hdrs fs ! unat x)) = unat n - card (flist_free (F x))"
      using old e True by (auto simp: slab_holds_def)
    have room: "flist_blocks (lb_of fs) (unat n) \<le> slot_room fs" and cenv: "cache_env X blk fs"
      using env by (simp_all add: pool_env_def)
    let ?e = "\<lparr>ce_freelist = Some (F x), ce_state = FLA_SLAB_CACHE_ELEM_CLEAN\<rparr>"
    have ld: "fla_slab_cache_elem_load X fs x n d = Some (0, put_elem fs x ?e)"
      using elem_load_stored [OF cenv e True pool_env_slab [OF env xlt] st(2,3,1) room] good by auto
    have ei: "elem_inv blk fs d x ?e" using st(1-3) room by (simp add: elem_inv_def elem_ok_def)
    have "pool_rep blk (put_elem fs x ?e) d n L (F(x := F x)) Q A"
      using upd_slab_rep [OF rep x _ _ ei st(3,4)] by (simp add: upd_slab_same_count)
    then have "pool_rep blk (put_elem fs x ?e) d n L F Q A" by simp
    moreover have "loaded (put_elem fs x ?e) y = (y = x \<or> loaded fs y)" for y
      by (simp add: loaded_def get_put_elem [OF e])
    moreover have "same_rest fs (put_elem fs x ?e)" "fs_slabs (put_elem fs x ?e) = fs_slabs fs"
      by (simp_all add: same_rest_def fs_fields)
    ultimately show ?thesis using ld by auto
  qed
qed

section \<open>Choosing a slab\<close>

lemma acquired_rest: "same_rest fs (acquired fs x Q f)"
  by (simp add: same_rest_def fs_fields)

lemma acquired_lists_ok:
  assumes env: "pool_env X blk fs n" and lists: "lists_ok fs L (x # Q)" and E: "L (Empty_slabs 0) = []"
  shows "\<exists>fs'. fla_hdll_prepend (acquired fs x Q f) x (Empty_slabs 0) = Some (0, fs')
    \<and> links_only (acquired fs x Q f) fs' \<and> lists_ok fs' (L(Empty_slabs 0 := [x])) Q"
proof -
  let ?fs = "acquired fs x Q f"
  have ok: "slabs_ok fs" and ne: "0 < length (entries fs)" using env by (simp_all add: pool_env_def)
  have q: "free_queue fs (x # Q)" and sl: "\<And>g. g \<in> pool_heads \<Longrightarrow> slab_list fs g (L g)"
    and dq: "\<And>g. g \<in> pool_heads \<Longrightarrow> set (L g) \<inter> set (x # Q) = {}" using lists unfolding lists_ok_def by blast+
  have xQ: "x \<notin> set Q" using free_queue_distinct [OF q] by simp
  have al: "free_queue ?fs Q" "\<And>h ys. slab_list fs h ys \<Longrightarrow> set ys \<inter> set (x # Q) = {} \<Longrightarrow> slab_list ?fs h ys"
    using acquired_lists(1,2) [OF ok q] by blast+
  have ok1: "slabs_ok ?fs" and hp: "head_pool (Empty_slabs 0) < length (entries ?fs)" and xlt: "unat x < length (hdrs ?fs)"
    using ok ne free_queue_in [OF q, of x] by (simp_all add: slabs_ok_def fs_fields head_pool_def)
  have sl1: "slab_list ?fs g (L g)" if "g \<in> pool_heads" for g using al(2) [OF sl [OF that] dq [OF that]] .
  then have nil: "slab_list ?fs (Empty_slabs 0) []" using E by force
  from hdll_prepend_spec [OF ok1 hp nil xlt] obtain fs' where
    fs': "fla_hdll_prepend ?fs x (Empty_slabs 0) = Some (0, fs')" "slab_list fs' (Empty_slabs 0) [x]"
    "\<And>g zs. g \<noteq> Empty_slabs 0 \<Longrightarrow> slab_list ?fs g zs \<Longrightarrow> set zs \<inter> set [x] = {} \<Longrightarrow> slab_list fs' g zs"
    "\<And>zs. free_queue ?fs zs \<Longrightarrow> set zs \<inter> set [x] = {} \<Longrightarrow> free_queue fs' zs" and l: "links_only ?fs fs'"
    by (metis empty_iff list.set(1))
  have "slab_list fs' g ((L(Empty_slabs 0 := [x])) g)" if "g \<in> pool_heads" for g
    using fs'(2) fs'(3) [OF _ sl1 [OF that]] dq [OF that] by auto
  moreover have "free_queue fs' Q" using fs'(4) [OF al(1)] xQ by simp
  moreover have "sl_fslab_num (fs_slabs fs') = sl_fslab_num (fs_slabs fs) - 1"
    using l by (simp add: links_only_def fs_fields)
  moreover have "unat (sl_fslab_num (fs_slabs fs)) = Suc (length Q)" using lists by (simp add: lists_ok_def)
  then have "unat (sl_fslab_num (fs_slabs fs) - 1) = length Q" by (subst unat_dec) auto
  ultimately have "lists_ok fs' (L(Empty_slabs 0 := [x])) Q" using lists dq E xQ unfolding lists_ok_def by auto
  then show ?thesis using fs'(1) l by blast
qed

lemma acquired_linked:
  assumes ok: "slabs_ok fs" and q: "free_queue fs (x # Q)" and e: "get_elem fs x = Some e"
    and l: "links_only (acquired fs x Q f) fs'"
  shows "fs_dev fs' = fs_dev fs" "fs_geo fs' = fs_geo fs"
    "get_elem fs' y = (if y = x then Some \<lparr>ce_freelist = Some f, ce_state = FLA_SLAB_CACHE_ELEM_DIRTY\<rparr> else get_elem fs y)"
    "unat y < length (hdrs fs) \<Longrightarrow> sh_refcount (hdrs fs' ! unat y) = (if y = x then 0 else sh_refcount (hdrs fs ! unat y))"
    "unat y < length (hdrs fs) \<Longrightarrow> sh_pool (hdrs fs' ! unat y) = (if y = x then 0 else sh_pool (hdrs fs ! unat y))"
proof -
  let ?fs = "acquired fs x Q f"
  have same: "fs_dev fs' = fs_dev ?fs" "fs_geo fs' = fs_geo ?fs" "fs_slab_cache fs' = fs_slab_cache ?fs"
    "map sh_refcount (hdrs fs') = map sh_refcount (hdrs ?fs)" "map sh_pool (hdrs fs') = map sh_pool (hdrs ?fs)"
    using l by (simp_all only: links_only_def)
  show "fs_dev fs' = fs_dev fs" "fs_geo fs' = fs_geo fs" using same(1,2) by (simp_all add: fs_fields)
  show "get_elem fs' y = (if y = x then Some \<lparr>ce_freelist = Some f, ce_state = FLA_SLAB_CACHE_ELEM_DIRTY\<rparr> else get_elem fs y)"
    using acquired_elem [OF e] get_elem_cong [OF same(3)] by simp
  assume "unat y < length (hdrs fs)"
  then show "sh_refcount (hdrs fs' ! unat y) = (if y = x then 0 else sh_refcount (hdrs fs ! unat y))"
    "sh_pool (hdrs fs' ! unat y) = (if y = x then 0 else sh_pool (hdrs fs ! unat y))"
    using map_nth_same [OF same(4), of "unat y"] map_nth_same [OF same(5), of "unat y"]
      acquired_lists(3,4) [OF ok q, of f y] by (simp_all add: fs_fields)
qed

lemma acquired_rep:
  assumes env: "pool_env X blk fs n" and rep: "pool_rep blk fs d n L F (x # Q) {}" and E: "L (Empty_slabs 0) = []"
    and f: "flist_fits fs f" "flist_cap f = unat n" "flist_free f = {..<unat n}"
  shows "\<exists>fs'. fla_hdll_prepend (acquired fs x Q f) x (Empty_slabs 0) = Some (0, fs')
    \<and> links_only (acquired fs x Q f) fs' \<and> pool_rep blk fs' d n (L(Empty_slabs 0 := [x])) (F(x := f)) Q {}"
proof -
  let ?L = "L(Empty_slabs 0 := [x])" and ?F = "F(x := f)"
  have ok: "slabs_ok fs" and room: "flist_blocks (lb_of fs) (unat n) \<le> slot_room fs" using env by (simp_all add: pool_env_def)
  have lists: "lists_ok fs L (x # Q)" using rep by (simp add: pool_rep_def)
  then have q: "free_queue fs (x # Q)" and dq: "\<And>g. g \<in> pool_heads \<Longrightarrow> set (L g) \<inter> set (x # Q) = {}"
    unfolding lists_ok_def by blast+
  have xQ: "x \<notin> set Q" using free_queue_distinct [OF q] by simp
  have xlt: "unat x < length (hdrs fs)" using free_queue_in [OF q] by simp
  obtain e where e: "get_elem fs x = Some e" using rep by (auto simp: pool_rep_def)
  from acquired_lists_ok [OF env lists E, of f] obtain fs' where
    fs': "fla_hdll_prepend (acquired fs x Q f) x (Empty_slabs 0) = Some (0, fs')" "lists_ok fs' ?L Q"
    and l: "links_only (acquired fs x Q f) fs'" by blast
  note same = acquired_linked [OF ok q e l]
  have fresh: "elem_inv blk fs d x \<lparr>ce_freelist = Some f, ce_state = FLA_SLAB_CACHE_ELEM_DIRTY\<rparr>"
    using f room by (intro elem_inv_dirty) simp_all
  have inv: "cache_inv blk fs' d"
    using rep fresh by (simp add: pool_rep_def cache_inv_def same elem_inv_cong [OF same(1,2)])
  have holds: "slab_holds blk fs' d n y (?F y)" if y: "y \<in> slabs_of ?L" for y
  proof (cases "y = x")
    case True
    then show ?thesis using f same(4,5) [OF xlt] by (simp add: slab_holds_def same(1-3) flist_fits_def)
  next
    case False
    then have y: "y \<in> slabs_of L" using that by (auto split: if_splits)
    then have "slab_holds blk fs' d n y (F y) = slab_holds blk fs d n y (F y)"
      using same(3-5) pool_repD(2) [OF rep y] False by (intro slab_holds_cong [OF same(1,2)]) simp_all
    then show ?thesis using pool_repD(1) [OF rep y] False by simp
  qed
  have cl: "g = cls n (sh_refcount (hdrs fs' ! unat y))" if g: "g \<in> pool_heads" "y \<in> set (?L g)" for g y
  proof (cases "y = x")
    case True
    have "x \<notin> set (L g)" using dq [OF g(1)] by auto
    then have "g = Empty_slabs 0" using g(2) True by (auto split: if_splits)
    then show ?thesis using True same(4) [OF xlt] by (simp add: cls_def)
  next
    case False
    then have y: "y \<in> set (L g)" using g(2) by (auto split: if_splits)
    then have "y \<in> slabs_of L" using g(1) by blast
    then show ?thesis using rep y g(1) False same(4) [OF pool_repD(2) [OF rep]] unfolding pool_rep_def by force
  qed
  have stale: "\<exists>e. get_elem fs' y = Some e \<and> ce_state e = FLA_SLAB_CACHE_ELEM_STALE" if "y \<in> set Q" for y
  proof -
    have "y \<noteq> x" using that xQ by blast
    then show ?thesis using rep that by (simp add: same(3) pool_rep_def)
  qed
  have "\<forall>h\<in>pool_heads. \<forall>y\<in>set (?L h). slab_holds blk fs' d n y (?F y) \<and> (y \<notin> {} \<longrightarrow> h = cls n (sh_refcount (hdrs fs' ! unat y)))"
    using holds cl by blast
  then have "pool_rep blk fs' d n ?L ?F Q {}" using fs'(2) inv stale unfolding pool_rep_def by blast
  then show ?thesis using fs'(1) l by blast
qed

text \<open>
  A slab with room for an object: a partial one, an empty one or the next free one. The objects
  that are handed out do not change.
\<close>

lemma next_slab:
  assumes env: "pool_env X blk fs n" and rep: "pool_rep blk fs d n L F Q {}" and good: "dev_good X fs"
  shows "if L (Partial_slabs 0) = [] \<and> L (Empty_slabs 0) = [] \<and> Q = []
    then fla_pool_next_available_slab X fs 0 = Some (FLA_ERR_ALL_SLABS_USED, fs, None)
    else \<exists>fs' x L' F' Q'. fla_pool_next_available_slab X fs 0 = Some (0, fs', Some x) \<and> same_rest fs fs'
      \<and> pool_rep blk fs' d n L' F' Q' {} \<and> x \<in> set (L' (Partial_slabs 0)) \<union> set (L' (Empty_slabs 0))
      \<and> objects n L' F' = objects n L F \<and> (\<forall>y. loaded fs y \<longrightarrow> loaded fs' y)"
proof -
  have ok: "slabs_ok fs" and ne: "0 < length (entries fs)" and n: "0 < unat n" "unat n < 2 ^ 31"
    "fla_calc_objs_in_slab fs (pe_obj_nlb (entries fs ! 0)) = Some n" and cenv: "cache_env X blk fs"
    using env by (simp_all add: pool_env_def)
  have lists: "lists_ok fs L Q" using rep by (simp add: pool_rep_def)
  have sl: "slab_list fs g (L g)" if "g \<in> pool_heads" for g using lists that unfolding lists_ok_def by blast
  have hd: "head_of fs g = (if L g = [] then FLA_LINKED_LIST_NULL else hd (L g))" if "g \<in> pool_heads" for g
    using dll_head [OF sl [OF that]] .
  have hd0: "pe_partial_slabs (entries fs ! 0) = head_of fs (Partial_slabs 0)"
    "pe_empty_slabs (entries fs ! 0) = head_of fs (Empty_slabs 0)"
    by (simp_all add: head_of_def head_val_def head_pool_def)
  have first: "hd (L g) \<noteq> FLA_LINKED_LIST_NULL \<and> fla_slab_header_ptr (hd (L g)) fs = Some (hd (L g))"
    if "g \<in> pool_heads" "L g \<noteq> []" for g
    using dll_in [OF sl [OF that(1)], of "hd (L g)"] that(2) ok by simp
  show ?thesis
  proof (cases "L (Partial_slabs 0) = [] \<and> L (Empty_slabs 0) = []")
    case False
    let ?g = "if L (Partial_slabs 0) = [] then Empty_slabs 0 else Partial_slabs 0"
    have "fla_pool_next_available_slab X fs 0 = Some (0, fs, Some (hd (L ?g)))"
      using ne False first [of ?g] by (auto simp: fla_pool_next_available_slab_def hd0 hd)
    moreover have "hd (L ?g) \<in> set (L (Partial_slabs 0)) \<union> set (L (Empty_slabs 0))" using False by auto
    ultimately show ?thesis using rep False same_rest_refl by (metis (no_types, lifting))
  next
    case True
    note PE = this
    show ?thesis
    proof (cases Q)
      case Nil
      then have "sl_fslab_num (fs_slabs fs) = 0" using lists by (simp add: lists_ok_def unat_eq_0)
      then have "fla_acquire_slab X fs k = Some (FLA_ERR_ALL_SLABS_USED, fs, None)" for k by (simp add: fla_acquire_slab_def)
      then show ?thesis
        using ne PE Nil by (simp add: fla_pool_next_available_slab_def hd0 hd FLA_ERR_ALL_SLABS_USED_def)
    next
      case (Cons x Q')
      have q: "free_queue fs (x # Q')" and num: "sl_fslab_num (fs_slabs fs) \<noteq> 0"
        using lists Cons by (auto simp: lists_ok_def)
      obtain e where e: "get_elem fs x = Some e" "ce_state e = FLA_SLAB_CACHE_ELEM_STALE"
        using rep Cons by (auto simp: pool_rep_def)
      have b: "bufs X" "0 < lb_of fs" "4 dvd lb_of fs" using cenv by (simp_all add: cache_env_def)
      have "x_buf_alloc X Data_dev (cache_flist_size fs n) \<noteq> None" using good by (simp add: dev_good_def)
      with fla_acquire_slab_eq [OF ok q num b e n(3,1,2)] obtain f where
        acq: "fla_acquire_slab X fs (pe_obj_nlb (entries fs ! 0)) = Some (0, acquired fs x Q' f, Some x)"
        and f: "flist_fits fs f" "flist_cap f = unat n" "flist_free f = {..<unat n}" by auto
      from acquired_rep [OF env rep [unfolded Cons] _ f] PE obtain fs' where
        fs': "fla_hdll_prepend (acquired fs x Q' f) x (Empty_slabs 0) = Some (0, fs')"
        and l: "links_only (acquired fs x Q' f) fs'"
        and rep': "pool_rep blk fs' d n (L(Empty_slabs 0 := [x])) (F(x := f)) Q' {}" by blast
      have nx: "fla_pool_next_available_slab X fs 0 = Some (0, fs', Some x)"
        using ne PE acq fs' by (simp add: fla_pool_next_available_slab_def hd0 hd)
      have rest: "same_rest fs fs'" using same_rest_trans [OF acquired_rest same_rest_links [OF l]] .
      have "x \<notin> slabs_of L" using lists Cons unfolding lists_ok_def by auto
      then have obj: "objects n (L(Empty_slabs 0 := [x])) (F(x := f)) = objects n L F"
        using PE f(3) by (auto simp: objects_def word_less_nat_alt)
      have "loaded fs' y" if "loaded fs y" for y
        using that acquired_linked(3) [OF ok q e(1) l] by (auto simp: loaded_def)
      then have "same_rest fs fs' \<and> pool_rep blk fs' d n (L(Empty_slabs 0 := [x])) (F(x := f)) Q' {}
        \<and> x \<in> set ((L(Empty_slabs 0 := [x])) (Partial_slabs 0)) \<union> set ((L(Empty_slabs 0 := [x])) (Empty_slabs 0))
        \<and> objects n (L(Empty_slabs 0 := [x])) (F(x := f)) = objects n L F \<and> (\<forall>y. loaded fs y \<longrightarrow> loaded fs' y)"
        using rest rep' obj by simp
      then show ?thesis using nx Cons by (simp only: list.distinct simp_thms if_False) blast
    qed
  qed
qed

section \<open>Taking and giving back an object\<close>

lemma loaded_flist:
  assumes "pool_rep blk fs d n L F Q A" "x \<in> slabs_of L" "loaded fs x"
  obtains e where "get_elem fs x = Some e" "ce_state e \<noteq> FLA_SLAB_CACHE_ELEM_STALE" "ce_freelist e = Some (F x)" "elem_ok fs e"
proof -
  from assms(3) obtain e where e: "get_elem fs x = Some e" "ce_state e \<noteq> FLA_SLAB_CACHE_ELEM_STALE" by (auto simp: loaded_def)
  then have f: "ce_freelist e = Some (F x)" "flist_fits fs (F x)"
    using pool_repD(1) [OF assms(1,2)] by (auto simp: slab_holds_def)
  then have "elem_ok fs e" using e(2) by (simp add: elem_ok_def)
  then show ?thesis using that e f(1) by blast
qed

lemma elem_inv_upd:
  assumes "pool_env X blk fs n" "flist_fits fs f" "flist_cap f = unat n"
  shows "elem_inv blk fs d x \<lparr>ce_freelist = Some f, ce_state = FLA_SLAB_CACHE_ELEM_DIRTY\<rparr>"
  using assms by (intro elem_inv_dirty) (simp_all add: pool_env_def)

lemma take_obj:
  assumes env: "pool_env X blk fs n" and rep: "pool_rep blk fs d n L F Q {}" and x: "x \<in> slabs_of L" "loaded fs x"
    and free: "flist_free (F x) \<noteq> {}"
  shows "\<exists>ob f' e r. fla_slab_next_available_obj fs x 1 = Some (0, upd_slab fs x e r, Some ob)
    \<and> pool_rep blk (upd_slab fs x e r) d n L (F(x := f')) Q {x} \<and> ob_slab_id ob = x \<and> ob \<notin> objects n L F
    \<and> objects n L (F(x := f')) = insert ob (objects n L F) \<and> (\<forall>y. loaded fs y \<longrightarrow> loaded (upd_slab fs x e r) y)"
proof -
  have old: "slab_holds blk fs d n x (F x)" and xlt: "unat x < length (hdrs fs)" using pool_repD [OF rep x(1)] .
  have ok: "slabs_ok fs" and n: "unat n < 2 ^ 31" and e0: "0 < length (entries fs)" "get_fnc fs 0 = Some Pool_fnc_default"
    using env by (simp_all add: pool_env_def)
  have inv: "flist_inv (F x)" and cap: "flist_cap (F x) = unat n" and pool: "sh_pool (hdrs fs ! unat x) = 0"
    and cnt: "unat (sh_refcount (hdrs fs ! unat x)) = unat n - card (flist_free (F x))"
    using old by (auto simp: slab_holds_def flist_fits_def)
  obtain e where e: "get_elem fs x = Some e" "ce_state e \<noteq> FLA_SLAB_CACHE_ELEM_STALE" "ce_freelist e = Some (F x)" "elem_ok fs e"
    using loaded_flist [OF rep x] .
  define m where "m = Min (flist_free (F x))"
  define r where "r = sh_refcount (hdrs fs ! unat x)"
  from fla_slab_cache_obj_alloc_one [OF e(1,4,2,3)] free obtain f' where
    al: "fla_slab_cache_obj_alloc fs x 1 = Some (0, put_elem fs x \<lparr>ce_freelist = Some f', ce_state = FLA_SLAB_CACHE_ELEM_DIRTY\<rparr>,
      Some \<lparr>ob_slab_id = x, ob_entry_ndx = of_nat m\<rparr>)"
    and f': "flist_fits fs f'" "flist_cap f' = unat n" "flist_free f' = flist_free (F x) - {m}"
    unfolding m_def using cap by (auto simp: flist_upd_def)
  let ?e = "\<lparr>ce_freelist = Some f', ce_state = FLA_SLAB_CACHE_ELEM_DIRTY\<rparr>"
    and ?ob = "\<lparr>ob_slab_id = x, ob_entry_ndx = of_nat m\<rparr>"
  have fin: "finite (flist_free (F x))" and m: "m \<in> flist_free (F x)" "m < unat n"
    using flist_free_card [of "F x"] free flist_free_less [of m "F x"] cap by (auto simp: m_def)
  have c0: "0 < card (flist_free (F x))" using free fin by (simp add: card_gt_0_iff)
  moreover have "card (flist_free (F x)) \<le> unat n" using flist_free_card [of "F x"] cap by simp
  ultimately have "unat r < unat n" unfolding r_def cnt by linarith
  then have r1: "unat (r + 1) = unat r + 1" using n by (subst unat_add_no_wrap) simp_all
  have "card (flist_free f') = card (flist_free (F x)) - 1" using m(1) by (simp add: f'(3))
  then have cnt': "unat (r + 1) = unat n - card (flist_free f')"
    using r1 cnt c0 flist_free_card [of "F x"] cap by (simp only: r_def) linarith
  have "r + 1 \<noteq> r" using r1 by auto
  then have rep': "pool_rep blk (upd_slab fs x ?e (r + 1)) d n L (F(x := f')) Q {x}"
    using upd_slab_rep [OF rep x(1) _ _ elem_inv_upd [OF env f'(1,2)] f'(2) cnt'] by (simp add: r_def)
  have mw: "unat (of_nat m :: u32) = m" using m(2) n by (simp add: unat_of_nat_small)
  have alloc: "fla_slab_next_available_obj fs x 1 = Some (0, upd_slab fs x ?e (r + 1), Some ?ob)"
    using ok xlt al pool e0
    by (simp add: fla_slab_next_available_obj_def fs_fields upd_slab_def r_def)
  have "?ob \<notin> objects n L F" using m(1) by (simp add: objects_def mw)
  moreover have "objects n L (F(x := f')) = insert ?ob (objects n L F)"
  proof -
    have "ob_entry_ndx ob = of_nat m" if "unat (ob_entry_ndx ob) = m" for ob using that by auto
    then show ?thesis using x(1) m mw by (auto simp: objects_def f'(3) word_less_nat_alt split: if_splits)
  qed
  moreover have "loaded (upd_slab fs x ?e (r + 1)) y" if "loaded fs y" for y
    using that by (subst loaded_upd_slab [OF e(1)]) simp_all
  ultimately show ?thesis using alloc rep' by (intro exI [of _ ?ob] exI [of _ f'] exI [of _ ?e] exI [of _ "r + 1"]) simp
qed

lemma rep_classified:
  assumes "pool_rep blk fs d n L F Q {x}" "h \<in> pool_heads" "x \<in> set (L h)" "h = cls n (sh_refcount (hdrs fs ! unat x))"
  shows "pool_rep blk fs d n L F Q {}"
proof -
  have "\<forall>h\<in>pool_heads. \<forall>h'\<in>pool_heads. h \<noteq> h' \<longrightarrow> set (L h) \<inter> set (L h') = {}"
    using assms(1) unfolding pool_rep_def lists_ok_def by (elim conjE)
  then have "g = h" if "g \<in> pool_heads" "x \<in> set (L g)" for g using assms(2,3) that by blast
  then have "g = cls n (sh_refcount (hdrs fs ! unat y))" if "g \<in> pool_heads" "y \<in> set (L g)" for g y
    using assms(1,4) that unfolding pool_rep_def by (cases "y = x") blast+
  then show ?thesis using assms(1) unfolding pool_rep_def by blast
qed

lemma moved_objects:
  assumes "h \<in> pool_heads" "h' \<in> pool_heads" "x \<in> set (L h)" "distinct (L h)"
  shows "objects n (moved L x h h') F = objects n L F"
  using moved_sets [of h h' x L] assms by (simp add: objects_def)

text \<open>The whole of creation, and the case in which no slab is left.\<close>

definition exhausted :: "(head_ref \<Rightarrow> u32 list) \<Rightarrow> u32 list \<Rightarrow> bool" where
  "exhausted L Q \<longleftrightarrow> L (Partial_slabs 0) = [] \<and> L (Empty_slabs 0) = [] \<and> Q = []"

lemma room_for_object:
  assumes "pool_env X blk fs n" "pool_rep blk fs d n L F Q {}" "x \<in> set (L (Partial_slabs 0)) \<union> set (L (Empty_slabs 0))"
  shows "flist_free (F x) \<noteq> {}"
proof
  assume none: "flist_free (F x) = {}"
  define r where "r = sh_refcount (hdrs fs ! unat x)"
  have x: "x \<in> slabs_of L" using assms(3) by blast
  have "unat r = unat n" using pool_repD(1) [OF assms(2) x] none by (simp add: slab_holds_def r_def)
  then have "r = n" by simp
  then have "cls n r = Full_slabs 0"
    using assms(1) by (simp add: cls_def pool_env_def word_less_nat_alt unat_add_no_wrap) (metis unat_0 less_numeral_extra(3))
  moreover have "cls n r \<in> {Partial_slabs 0, Empty_slabs 0}"
    using pool_rep_class [OF assms(2), of _ x] assms(3) by (auto simp: r_def)
  ultimately show False by simp
qed

lemma object_create_spec:
  assumes env: "pool_env X blk fs n" and rep: "pool_rep blk fs d n L F Q {}" and good: "dev_good X fs"
    and ph: "ph_ndx ph = 0"
  shows "if exhausted L Q then fla_base_object_create X fs ph d = Some (FLA_ERR_ALL_SLABS_USED, fs, None)
    else \<exists>fs' ob L' F' Q'. fla_base_object_create X fs ph d = Some (0, fs', Some ob) \<and> same_rest fs fs'
      \<and> pool_rep blk fs' d n L' F' Q' {} \<and> ob \<notin> objects n L F \<and> objects n L' F' = insert ob (objects n L F)
      \<and> loaded fs' (ob_slab_id ob) \<and> (\<forall>y. loaded fs y \<longrightarrow> loaded fs' y)"
proof (cases "exhausted L Q")
  case True
  then show ?thesis
    using next_slab [OF env rep good] ph by (simp add: exhausted_def fla_base_object_create_def FLA_ERR_ALL_SLABS_USED_def)
next
  case False
  then obtain fs1 x L1 F1 Q1 where nx: "fla_pool_next_available_slab X fs 0 = Some (0, fs1, Some x)" "same_rest fs fs1"
    and rep1: "pool_rep blk fs1 d n L1 F1 Q1 {}" and x: "x \<in> set (L1 (Partial_slabs 0)) \<union> set (L1 (Empty_slabs 0))"
    and ob1: "objects n L1 F1 = objects n L F" and ld1: "\<forall>y. loaded fs y \<longrightarrow> loaded fs1 y"
    using next_slab [OF env rep good] unfolding exhausted_def by (auto split: if_splits)
  have env1: "pool_env X blk fs1 n" "dev_good X fs1" 
    using same_rest_env [OF nx(2), THEN iffD2, OF env] same_rest_good [OF nx(2), THEN iffD2, OF good] .
  have xs: "x \<in> slabs_of L1" using x by blast
  from load_slab [OF env1(1) rep1 xs env1(2)] obtain r fs2 where
    ld: "fla_slab_cache_elem_load X fs1 x n d = Some (r, fs2)" "r \<in> {0, FLA_SLAB_CACHE_INVALID_STATE}" "same_rest fs1 fs2"
    and rep2: "pool_rep blk fs2 d n L1 F1 Q1 {}" and ld2: "loaded fs2 x" "\<forall>y. loaded fs1 y \<longrightarrow> loaded fs2 y" by blast
  have env2: "pool_env X blk fs2 n" using same_rest_env [OF ld(3), THEN iffD2, OF env1(1)] .
  note free = room_for_object [OF env2 rep2 x]
  from take_obj [OF env2 rep2 xs ld2(1) free] obtain ob f' e rc where
    tk: "fla_slab_next_available_obj fs2 x 1 = Some (0, upd_slab fs2 x e rc, Some ob)"
    and rep3: "pool_rep blk (upd_slab fs2 x e rc) d n L1 (F1(x := f')) Q1 {x}" and ob: "ob_slab_id ob = x" "ob \<notin> objects n L1 F1"
      "objects n L1 (F1(x := f')) = insert ob (objects n L1 F1)"
    and ld3: "\<forall>y. loaded fs2 y \<longrightarrow> loaded (upd_slab fs2 x e rc) y" by blast
  let ?fs3 = "upd_slab fs2 x e rc"
  have env3: "pool_env X blk ?fs3 n" using same_rest_env [OF upd_slab_rest, THEN iffD2, OF env2] .
  define h where "h = cls n (sh_refcount (hdrs fs2 ! unat x))"
  define h' where "h' = cls n (sh_refcount (hdrs ?fs3 ! unat x))"
  have bl: "fla_pool_best_slab_list fs2 x = Some h" "fla_pool_best_slab_list ?fs3 x = Some h'"
    using best_list [OF env2 pool_repD [OF rep2 xs]] best_list [OF env3 pool_repD [OF rep3 xs]] by (simp_all add: h_def h'_def)
  have xh: "x \<in> set (L1 h)" using pool_rep_own [OF rep2 xs] unfolding h_def .
  have hh: "h \<in> pool_heads" "h' \<in> pool_heads" unfolding h_def h'_def by (rule cls_head)+
  have dist: "distinct (L1 h)" using lists_distinct [OF pool_rep_lists [OF rep2] hh(1)] .
  have ok1: "slabs_ok fs1" "unat x < length (hdrs fs1)" "unat x < length (hdrs fs2)" "sh_pool (hdrs fs2 ! unat x) = 0"
    "get_fnc fs2 0 = Some Pool_fnc_default" "0 < length (entries fs2)" "0 < length (entries fs1)" "pe_slab_nobj (entries fs1 ! 0) = n"
    using env1 env2 pool_repD [OF rep1 xs] pool_repD [OF rep2 xs] by (simp_all add: pool_env_def slab_holds_def)
  have cr: "fla_base_object_create X fs ph d = (if h \<noteq> h' then do { (err, fs) \<leftarrow> move_slab ?fs3 x h h'; Some (err, fs, Some ob) }
      else Some (0, ?fs3, Some ob))"
    using nx(1) ph ok1 ld(1,2) bl tk by (auto simp: fla_base_object_create_def)
  have rest3: "same_rest fs ?fs3" using nx(2) ld(3) upd_slab_rest same_rest_trans by blast
  have ldd: "loaded ?fs3 (ob_slab_id ob)" "\<forall>y. loaded fs y \<longrightarrow> loaded ?fs3 y" using ob(1) ld1 ld2 ld3 by simp_all
  show ?thesis
  proof (cases "h = h'")
    case True
    have "pool_rep blk ?fs3 d n L1 (F1(x := f')) Q1 {}"
      by (rule rep_classified [OF rep3 hh(1) xh]) (simp add: True h'_def)
    then show ?thesis using False cr True rest3 ob ob1 ldd by auto
  next
    case neq: False
    from move_slab_ok [OF env3 rep3 hh(1) xh h'_def] obtain fs4 where mv: "move_slab ?fs3 x h h' = Some (0, fs4)"
      "links_only ?fs3 fs4" "pool_rep blk fs4 d n (moved L1 x h h') (F1(x := f')) Q1 {}" by blast
    have rest4: "same_rest fs fs4" using rest3 same_rest_links [OF mv(2)] same_rest_trans by blast
    have "objects n (moved L1 x h h') (F1(x := f')) = insert ob (objects n L F)"
      using moved_objects [of h h' x L1] hh xh dist ob ob1 by simp
    then show ?thesis using False cr neq mv rest4 ob ob1 ldd loaded_links [OF mv(2)] by auto
  qed
qed

text \<open>Giving an object back: the bit is set, the count goes down and the slab goes to the front of its list.\<close>

lemma give_obj:
  assumes env: "pool_env X blk fs n" and rep: "pool_rep blk fs d n L F Q {}" and ob: "ob \<in> objects n L F"
    and ld: "loaded fs (ob_slab_id ob)"
  shows "\<exists>f' e. fla_slab_cache_obj_free fs ob 1 = Some (0, put_elem fs (ob_slab_id ob) e)
    \<and> pool_rep blk (upd_slab fs (ob_slab_id ob) e (sh_refcount (hdrs fs ! unat (ob_slab_id ob)) - 1)) d n L
        (F(ob_slab_id ob := f')) Q {ob_slab_id ob}
    \<and> objects n L (F(ob_slab_id ob := f')) = objects n L F - {ob}
    \<and> get_elem fs (ob_slab_id ob) \<noteq> None \<and> ce_state e \<noteq> FLA_SLAB_CACHE_ELEM_STALE"
proof -
  define x m where "x = ob_slab_id ob" and "m = unat (ob_entry_ndx ob)"
  have x: "x \<in> slabs_of L" "m < unat n" "m \<notin> flist_free (F x)"
    using ob by (auto simp: objects_def x_def m_def word_less_nat_alt)
  have old: "slab_holds blk fs d n x (F x)" using pool_repD [OF rep x(1)] by simp
  have inv: "flist_inv (F x)" and cap: "flist_cap (F x) = unat n"
    and cnt: "unat (sh_refcount (hdrs fs ! unat x)) = unat n - card (flist_free (F x))"
    using old by (auto simp: slab_holds_def flist_fits_def)
  obtain e where e: "get_elem fs x = Some e" "ce_state e \<noteq> FLA_SLAB_CACHE_ELEM_STALE" "ce_freelist e = Some (F x)" "elem_ok fs e"
    using loaded_flist [OF rep x(1)] ld by (auto simp: x_def)
  from fla_slab_cache_obj_free_one [OF e(1) [unfolded x_def] e(4,2,3)] x(2) cap obtain f' where
    fr: "fla_slab_cache_obj_free fs ob 1 = Some (0, put_elem fs x \<lparr>ce_freelist = Some f', ce_state = FLA_SLAB_CACHE_ELEM_DIRTY\<rparr>)"
    and f': "flist_fits fs f'" "flist_cap f' = unat n" "flist_free f' = insert m (flist_free (F x))"
    by (auto simp: flist_upd_def m_def x_def)
  let ?e = "\<lparr>ce_freelist = Some f', ce_state = FLA_SLAB_CACHE_ELEM_DIRTY\<rparr>"
  have fin: "finite (flist_free (F x))" using flist_free_card by blast
  have c': "card (flist_free f') = Suc (card (flist_free (F x)))" using x(3) fin by (simp add: f'(3))
  have "card (flist_free f') \<le> unat n" using flist_free_card [of f'] f'(2) by simp
  then have pos: "0 < unat (sh_refcount (hdrs fs ! unat x))" using cnt c' by linarith
  then have "sh_refcount (hdrs fs ! unat x) \<noteq> 0" by auto
  then have cnt': "unat (sh_refcount (hdrs fs ! unat x) - 1) = unat n - card (flist_free f')"
    using cnt c' by (simp add: unat_dec)
  have "pool_rep blk (upd_slab fs x ?e (sh_refcount (hdrs fs ! unat x) - 1)) d n L (F(x := f')) Q {x}"
    using upd_slab_rep [OF rep x(1) _ _ elem_inv_upd [OF env f'(1,2)] f'(2) cnt'] by simp
  moreover have "objects n L (F(x := f')) = objects n L F - {ob}"
  proof -
    have "o' = ob" if "ob_slab_id o' = x" "unat (ob_entry_ndx o') = m" for o'
      using that by (simp add: x_def m_def)
    then show ?thesis using x_def m_def by (auto simp: objects_def f'(3) split: if_splits)
  qed
  ultimately show ?thesis using fr e(1) unfolding x_def by (intro exI [of _ f'] exI [of _ ?e]) simp
qed

lemma object_destroy_spec:
  assumes env: "pool_env X blk fs n" and rep: "pool_rep blk fs d n L F Q {}" and ob: "ob \<in> objects n L F"
    and ld: "loaded fs (ob_slab_id ob)" and ph: "ph_ndx ph = 0"
  shows "\<exists>fs' L' F'. fla_base_object_destroy X fs ph ob d = Some (0, fs', d) \<and> same_rest fs fs'
      \<and> pool_rep blk fs' d n L' F' Q {} \<and> objects n L' F' = objects n L F - {ob} \<and> (\<forall>y. loaded fs y \<longrightarrow> loaded fs' y)"
proof -
  define x where "x = ob_slab_id ob"
  have x: "x \<in> slabs_of L" using ob by (simp add: objects_def x_def)
  define r where "r = sh_refcount (hdrs fs ! unat x)"
  from give_obj [OF env rep ob ld, folded x_def, folded r_def] obtain f' e where
    fr: "fla_slab_cache_obj_free fs ob 1 = Some (0, put_elem fs x e)"
    and rep1: "pool_rep blk (upd_slab fs x e (r - 1)) d n L (F(x := f')) Q {x}"
    and ob1: "objects n L (F(x := f')) = objects n L F - {ob}"
    and e: "get_elem fs x \<noteq> None" "ce_state e \<noteq> FLA_SLAB_CACHE_ELEM_STALE" by blast
  let ?fs1 = "upd_slab fs x e (r - 1)"
  have env1: "pool_env X blk ?fs1 n" using same_rest_env [OF upd_slab_rest, THEN iffD2, OF env] .
  define h h' where "h = cls n r" and "h' = cls n (sh_refcount (hdrs ?fs1 ! unat x))"
  have xh: "x \<in> set (L h)" using pool_rep_own [OF rep x] unfolding h_def r_def .
  have hh: "h \<in> pool_heads" "h' \<in> pool_heads" unfolding h_def h'_def by (rule cls_head)+
  have bl: "fla_pool_best_slab_list fs x = Some h" "fla_pool_best_slab_list ?fs1 x = Some h'"
    using best_list [OF env pool_repD [OF rep x]] best_list [OF env1 pool_repD [OF rep1 x]] by (simp_all add: h_def h'_def r_def)
  from move_slab_ok [OF env1 rep1 hh(1) xh h'_def] obtain fs2 where mv: "move_slab ?fs1 x h h' = Some (0, fs2)"
    "links_only ?fs1 fs2" "pool_rep blk fs2 d n (moved L x h h') (F(x := f')) Q {}" by blast
  have ok: "slabs_ok fs" "unat x < length (hdrs fs)" "sh_pool (hdrs fs ! unat x) = 0" "get_fnc fs 0 = Some Pool_fnc_default"
    "0 < length (entries fs)" "cs_t (fs_cs fs) = FLA_CS_CNS"
    using env pool_repD [OF rep x] by (simp_all add: pool_env_def slab_holds_def cache_env_def)
  have "fla_base_object_destroy X fs ph ob d = Some (0, fs2, d)"
    using ok ph bl fr mv(1)
    by (simp add: fla_base_object_destroy_def cs_object_destroy_def fla_cs_cns_object_destroy_def
        x_def [symmetric] fs_fields upd_slab_def [symmetric] r_def [symmetric])
  moreover have "distinct (L h)" using lists_distinct [OF pool_rep_lists [OF rep] hh(1)] .
  then have "objects n (moved L x h h') (F(x := f')) = objects n L F - {ob}"
    using moved_objects [of h h' x L] hh xh ob1 by simp
  moreover have "same_rest fs fs2" using upd_slab_rest same_rest_links [OF mv(2)] same_rest_trans by blast
  moreover have "loaded fs2 y" if "loaded fs y" for y
    using that loaded_links [OF mv(2), of y] loaded_upd_slab [of fs x _ e "r - 1" y] e by auto
  ultimately show ?thesis using mv(3) by blast
qed

lemma object_open_spec:
  assumes env: "pool_env X blk fs n" and rep: "pool_rep blk fs d n L F Q {}" and good: "dev_good X fs"
    and ob: "ob \<in> objects n L F" and ph: "ph_ndx ph = 0"
  shows "\<exists>fs'. fla_base_object_open X fs ph ob d = Some (0, fs') \<and> same_rest fs fs' \<and> pool_rep blk fs' d n L F Q {}
    \<and> loaded fs' (ob_slab_id ob) \<and> (\<forall>y. loaded fs y \<longrightarrow> loaded fs' y)"
proof -
  have x: "ob_slab_id ob \<in> slabs_of L" using ob by (simp add: objects_def)
  from load_slab [OF env rep x good] obtain r fs' where
    ld: "fla_slab_cache_elem_load X fs (ob_slab_id ob) n d = Some (r, fs')" "r \<in> {0, FLA_SLAB_CACHE_INVALID_STATE}"
      "same_rest fs fs'" "pool_rep blk fs' d n L F Q {}" "loaded fs' (ob_slab_id ob)" "\<forall>y. loaded fs y \<longrightarrow> loaded fs' y" by blast
  moreover have "slabs_ok fs" "0 < length (entries fs)" "pe_slab_nobj (entries fs ! 0) = n" using env by (simp_all add: pool_env_def)
  ultimately have "fla_base_object_open X fs ph ob d = Some (0, fs')"
    using pool_repD(2) [OF rep x] ph by (auto simp: fla_base_object_open_def)
  then show ?thesis using ld by blast
qed

section \<open>The contract of an object store\<close>

text \<open>
  A state of the store represents a set of objects. Creating gives an object that is not in the
  set, or reports that there is none; an object can be destroyed once it is ready, which opening
  or creating it makes it.
\<close>

locale object_store =
  fixes rep :: "'e \<Rightarrow> 's \<Rightarrow> 'o set \<Rightarrow> bool"
    and ready :: "'s \<Rightarrow> 'o \<Rightarrow> bool"
    and create :: "'e \<Rightarrow> 's \<Rightarrow> (int \<times> 's \<times> 'o option) option"
    and open_object :: "'e \<Rightarrow> 's \<Rightarrow> 'o \<Rightarrow> (int \<times> 's) option"
    and destroy :: "'e \<Rightarrow> 's \<Rightarrow> 'o \<Rightarrow> (int \<times> 's) option"
    and no_room :: int
  assumes no_room: "no_room \<noteq> 0"
    and create_law: "rep e s S \<Longrightarrow> create e s = Some (no_room, s, None)
      \<or> (\<exists>s' ob. create e s = Some (0, s', Some ob) \<and> ob \<notin> S \<and> rep e s' (insert ob S) \<and> ready s' ob
           \<and> (\<forall>p. ready s p \<longrightarrow> ready s' p))"
    and open_law: "rep e s S \<Longrightarrow> ob \<in> S \<Longrightarrow> \<exists>s'. open_object e s ob = Some (0, s') \<and> rep e s' S \<and> ready s' ob
           \<and> (\<forall>p. ready s p \<longrightarrow> ready s' p)"
    and destroy_law: "rep e s S \<Longrightarrow> ob \<in> S \<Longrightarrow> ready s ob \<Longrightarrow> \<exists>s'. destroy e s ob = Some (0, s') \<and> rep e s' (S - {ob})
           \<and> (\<forall>p. ready s p \<longrightarrow> ready s' p)"
begin

lemma create_destroy:
  assumes "rep e s S" "create e s = Some (0, s1, Some ob)"
  shows "\<exists>s2. destroy e s1 ob = Some (0, s2) \<and> rep e s2 S"
proof -
  have "ob \<notin> S" "rep e s1 (insert ob S)" "ready s1 ob" using create_law [OF assms(1)] assms(2) no_room by auto
  then show ?thesis using destroy_law [of e s1 "insert ob S" ob] by auto
qed

lemma open_destroy:
  assumes "rep e s S" "ob \<in> S"
  shows "\<exists>s1 s2. open_object e s ob = Some (0, s1) \<and> destroy e s1 ob = Some (0, s2) \<and> rep e s2 (S - {ob})"
  using open_law [OF assms] destroy_law assms(2) by blast

lemma create_twice:
  assumes "rep e s S" "create e s = Some (0, s1, Some ob1)" "create e s1 = Some (0, s2, Some ob2)"
  shows "ob1 \<noteq> ob2 \<and> {ob1, ob2} \<inter> S = {} \<and> rep e s2 ({ob1, ob2} \<union> S)"
proof -
  have 1: "ob1 \<notin> S" "rep e s1 (insert ob1 S)" using create_law [OF assms(1)] assms(2) no_room by auto
  then have "ob2 \<notin> insert ob1 S" "rep e s2 (insert ob2 (insert ob1 S))"
    using create_law [OF 1(2)] assms(3) no_room by auto
  then show ?thesis using 1(1) by (auto simp: insert_commute)
qed

end

text \<open>The pool with index 0 of an open file system, on a device on which no transfer fails.\<close>

definition store_rep ::
  "'d xnvme \<times> ('d \<Rightarrow> xdev \<Rightarrow> nat \<Rightarrow> u8 list) \<times> fla_pool \<times> 'd \<Rightarrow> flexalloc \<Rightarrow> fla_object set \<Rightarrow> bool" where
  "store_rep = (\<lambda>(X, blk, ph, d) fs S. ph_ndx ph = 0 \<and> dev_good X fs
     \<and> (\<exists>n L F Q. pool_env X blk fs n \<and> pool_rep blk fs d n L F Q {} \<and> objects n L F = S))"

definition store_create ::
  "'d xnvme \<times> ('d \<Rightarrow> xdev \<Rightarrow> nat \<Rightarrow> u8 list) \<times> fla_pool \<times> 'd \<Rightarrow> flexalloc \<Rightarrow> (int \<times> flexalloc \<times> fla_object option) option" where
  "store_create = (\<lambda>(X, blk, ph, d) fs. fla_base_object_create X fs ph d)"

definition store_open ::
  "'d xnvme \<times> ('d \<Rightarrow> xdev \<Rightarrow> nat \<Rightarrow> u8 list) \<times> fla_pool \<times> 'd \<Rightarrow> flexalloc \<Rightarrow> fla_object \<Rightarrow> (int \<times> flexalloc) option" where
  "store_open = (\<lambda>(X, blk, ph, d) fs ob. fla_base_object_open X fs ph ob d)"

definition store_destroy ::
  "'d xnvme \<times> ('d \<Rightarrow> xdev \<Rightarrow> nat \<Rightarrow> u8 list) \<times> fla_pool \<times> 'd \<Rightarrow> flexalloc \<Rightarrow> fla_object \<Rightarrow> (int \<times> flexalloc) option" where
  "store_destroy = (\<lambda>(X, blk, ph, d) fs ob. map_option (\<lambda>(err, fs, d). (err, fs)) (fla_base_object_destroy X fs ph ob d))"

lemma store_repE:
  assumes "store_rep (X, blk, ph, d) fs S"
  obtains n L F Q where "ph_ndx ph = 0" "dev_good X fs" "pool_env X blk fs n" "pool_rep blk fs d n L F Q {}" "objects n L F = S"
  using assms by (auto simp: store_rep_def)

lemma store_repI:
  assumes "pool_env X blk fs n" "dev_good X fs" "ph_ndx ph = 0" "same_rest fs fs'" "pool_rep blk fs' d n L F Q {}" "objects n L F = S"
  shows "store_rep (X, blk, ph, d) fs' S"
  using assms(3,5,6) same_rest_env [OF assms(4), THEN iffD2, OF assms(1)] same_rest_good [OF assms(4), THEN iffD2, OF assms(2)]
  by (auto simp: store_rep_def)

lemma store_create_law:
  assumes "store_rep (X, blk, ph, d) fs S"
  shows "fla_base_object_create X fs ph d = Some (FLA_ERR_ALL_SLABS_USED, fs, None)
      \<or> (\<exists>fs' ob. fla_base_object_create X fs ph d = Some (0, fs', Some ob) \<and> ob \<notin> S
           \<and> store_rep (X, blk, ph, d) fs' (insert ob S) \<and> loaded fs' (ob_slab_id ob) \<and> (\<forall>y. loaded fs y \<longrightarrow> loaded fs' y) \<and> same_rest fs fs')"
proof -
  obtain n L F Q where r: "ph_ndx ph = 0" "dev_good X fs" "pool_env X blk fs n" "pool_rep blk fs d n L F Q {}" "objects n L F = S"
    using store_repE [OF assms] .
  note cr = object_create_spec [OF r(3,4,2,1)]
  show ?thesis
  proof (cases "exhausted L Q")
    case False
    with cr obtain fs' ob L' F' Q' where c: "fla_base_object_create X fs ph d = Some (0, fs', Some ob)" "same_rest fs fs'"
      "pool_rep blk fs' d n L' F' Q' {}" "ob \<notin> objects n L F" "objects n L' F' = insert ob (objects n L F)"
      "loaded fs' (ob_slab_id ob)" "\<forall>y. loaded fs y \<longrightarrow> loaded fs' y" by auto
    have "store_rep (X, blk, ph, d) fs' (insert ob S)" using store_repI [OF r(3,2,1) c(2,3)] c(5) r(5) by simp
    then show ?thesis using c r(5) by blast
  qed (use cr in simp)
qed

lemma store_open_law:
  assumes "store_rep (X, blk, ph, d) fs S" "ob \<in> S"
  shows "\<exists>fs'. fla_base_object_open X fs ph ob d = Some (0, fs') \<and> store_rep (X, blk, ph, d) fs' S
    \<and> loaded fs' (ob_slab_id ob) \<and> (\<forall>y. loaded fs y \<longrightarrow> loaded fs' y) \<and> same_rest fs fs'"
proof -
  obtain n L F Q where r: "ph_ndx ph = 0" "dev_good X fs" "pool_env X blk fs n" "pool_rep blk fs d n L F Q {}" "objects n L F = S"
    using store_repE [OF assms(1)] .
  then show ?thesis using object_open_spec [OF r(3,4,2) _ r(1)] assms(2) store_repI [OF r(3,2,1)] by metis
qed

lemma store_destroy_law:
  assumes "store_rep (X, blk, ph, d) fs S" "ob \<in> S" "loaded fs (ob_slab_id ob)"
  shows "\<exists>fs'. fla_base_object_destroy X fs ph ob d = Some (0, fs', d) \<and> store_rep (X, blk, ph, d) fs' (S - {ob})
    \<and> (\<forall>y. loaded fs y \<longrightarrow> loaded fs' y) \<and> same_rest fs fs'"
proof -
  obtain n L F Q where r: "ph_ndx ph = 0" "dev_good X fs" "pool_env X blk fs n" "pool_rep blk fs d n L F Q {}" "objects n L F = S"
    using store_repE [OF assms(1)] .
  from object_destroy_spec [OF r(3,4) _ assms(3) r(1)] assms(2) r(5) obtain fs' L' F' where
    c: "fla_base_object_destroy X fs ph ob d = Some (0, fs', d)" "same_rest fs fs'" "pool_rep blk fs' d n L' F' Q {}"
      "objects n L' F' = S - {ob}" "\<forall>y. loaded fs y \<longrightarrow> loaded fs' y" by blast
  then show ?thesis using store_repI [OF r(3,2,1) c(2,3,4)] by blast
qed

interpretation os: object_store store_rep "\<lambda>fs ob. loaded fs (ob_slab_id ob)" store_create store_open store_destroy FLA_ERR_ALL_SLABS_USED
proof
  show "FLA_ERR_ALL_SLABS_USED \<noteq> 0" by (simp add: FLA_ERR_ALL_SLABS_USED_def)
next
  fix e :: "'a xnvme \<times> ('a \<Rightarrow> xdev \<Rightarrow> nat \<Rightarrow> u8 list) \<times> fla_pool \<times> 'a" and s S
  assume "store_rep e s S"
  then show "store_create e s = Some (FLA_ERR_ALL_SLABS_USED, s, None) \<or> (\<exists>s' ob. store_create e s = Some (0, s', Some ob)
    \<and> ob \<notin> S \<and> store_rep e s' (insert ob S) \<and> loaded s' (ob_slab_id ob) \<and> (\<forall>p. loaded s (ob_slab_id p) \<longrightarrow> loaded s' (ob_slab_id p)))"
    using store_create_law by (cases e) (fastforce simp: store_create_def)
next
  fix e :: "'a xnvme \<times> ('a \<Rightarrow> xdev \<Rightarrow> nat \<Rightarrow> u8 list) \<times> fla_pool \<times> 'a" and s S ob
  assume "store_rep e s S" "ob \<in> S"
  then show "\<exists>s'. store_open e s ob = Some (0, s') \<and> store_rep e s' S \<and> loaded s' (ob_slab_id ob)
    \<and> (\<forall>p. loaded s (ob_slab_id p) \<longrightarrow> loaded s' (ob_slab_id p))"
    using store_open_law by (cases e) (fastforce simp: store_open_def)
next
  fix e :: "'a xnvme \<times> ('a \<Rightarrow> xdev \<Rightarrow> nat \<Rightarrow> u8 list) \<times> fla_pool \<times> 'a" and s S ob
  assume "store_rep e s S" "ob \<in> S" "loaded s (ob_slab_id ob)"
  then show "\<exists>s'. store_destroy e s ob = Some (0, s') \<and> store_rep e s' (S - {ob}) \<and> (\<forall>p. loaded s (ob_slab_id p) \<longrightarrow> loaded s' (ob_slab_id p))"
    using store_destroy_law by (cases e) (fastforce simp: store_destroy_def)
qed

section \<open>Sequences of operations\<close>

text \<open>
  The operations as steps on the file system and the set of objects in the hands of the callers.
  Only objects of that set are opened and destroyed.
\<close>

inductive object_step ::
  "'d xnvme \<Rightarrow> fla_pool \<Rightarrow> 'd \<Rightarrow> flexalloc \<times> fla_object set \<Rightarrow> flexalloc \<times> fla_object set \<Rightarrow> bool" for X ph d where
  step_create: "fla_base_object_create X fs ph d = Some (0, fs', Some ob) \<Longrightarrow> object_step X ph d (fs, S) (fs', insert ob S)"
| step_no_room: "fla_base_object_create X fs ph d = Some (err, fs', r) \<Longrightarrow> err \<noteq> 0 \<Longrightarrow> object_step X ph d (fs, S) (fs', S)"
| step_open: "ob \<in> S \<Longrightarrow> fla_base_object_open X fs ph ob d = Some (err, fs') \<Longrightarrow> object_step X ph d (fs, S) (fs', S)"
| step_destroy: "ob \<in> S \<Longrightarrow> fla_base_object_destroy X fs ph ob d = Some (0, fs', d') \<Longrightarrow>
    object_step X ph d (fs, S) (fs', S - {ob})"
| step_destroy_err: "ob \<in> S \<Longrightarrow> fla_base_object_destroy X fs ph ob d = Some (err, fs', d') \<Longrightarrow> err \<noteq> 0 \<Longrightarrow>
    object_step X ph d (fs, S) (fs', S)"

inductive_cases object_stepE: "object_step X ph d (fs, S) (fs', S')"

text \<open>An object whose freelist is not loaded cannot be destroyed, and nothing changes.\<close>

lemma destroy_not_loaded:
  assumes "store_rep (X, blk, ph, d) fs S" "ob \<in> S" "\<not> loaded fs (ob_slab_id ob)"
  shows "fla_base_object_destroy X fs ph ob d = Some (FLA_SLAB_CACHE_INVALID_STATE, fs, d)"
proof -
  obtain n L F Q where r: "ph_ndx ph = 0" "dev_good X fs" "pool_env X blk fs n" "pool_rep blk fs d n L F Q {}" "objects n L F = S"
    using store_repE [OF assms(1)] .
  have x: "ob_slab_id ob \<in> slabs_of L" using assms(2) r(5) by (auto simp: objects_def)
  obtain e where e: "get_elem fs (ob_slab_id ob) = Some e" "ce_state e = FLA_SLAB_CACHE_ELEM_STALE"
    using pool_repD(1) [OF r(4) x] assms(3) by (auto simp: slab_holds_def loaded_def)
  have ok: "slabs_ok fs" "get_fnc fs 0 = Some Pool_fnc_default" "0 < length (entries fs)" "cs_t (fs_cs fs) = FLA_CS_CNS"
    "sh_pool (hdrs fs ! unat (ob_slab_id ob)) = 0"
    using r(3) pool_repD(1) [OF r(4) x] by (simp_all add: pool_env_def cache_env_def slab_holds_def)
  then show ?thesis
    using pool_repD(2) [OF r(4) x] r(1) best_list [OF r(3) pool_repD [OF r(4) x]] e
    by (simp add: fla_base_object_destroy_def cs_object_destroy_def fla_cs_cns_object_destroy_def
        fla_slab_cache_obj_free_def FLA_SLAB_CACHE_INVALID_STATE_def)
qed

lemma object_step_rep:
  assumes rep: "store_rep (X, blk, ph, d) fs S" and step: "object_step X ph d (fs, S) (fs', S')"
  shows "store_rep (X, blk, ph, d) fs' S' \<and> same_rest fs fs'"
  using step
proof (rule object_stepE)
  fix ob assume c: "fla_base_object_create X fs ph d = Some (0, fs', Some ob)" and S': "S' = insert ob S"
  show ?thesis using store_create_law [OF rep] c unfolding S' by (auto simp: FLA_ERR_ALL_SLABS_USED_def)
next
  fix err r assume c: "fla_base_object_create X fs ph d = Some (err, fs', r)" "err \<noteq> 0" and S': "S' = S"
  show ?thesis using store_create_law [OF rep] c rep unfolding S' by auto
next
  fix ob err assume o: "ob \<in> S" "fla_base_object_open X fs ph ob d = Some (err, fs')" and S': "S' = S"
  show ?thesis using store_open_law [OF rep o(1)] o(2) unfolding S' by auto
next
  fix ob d' assume o: "ob \<in> S" "fla_base_object_destroy X fs ph ob d = Some (0, fs', d')" and S': "S' = S - {ob}"
  show ?thesis
  proof (cases "loaded fs (ob_slab_id ob)")
    case True
    then show ?thesis using store_destroy_law [OF rep o(1)] o(2) unfolding S' by auto
  next
    case False
    then show ?thesis using destroy_not_loaded [OF rep o(1)] o(2) by (simp add: FLA_SLAB_CACHE_INVALID_STATE_def)
  qed
next
  fix ob err d' assume o: "ob \<in> S" "fla_base_object_destroy X fs ph ob d = Some (err, fs', d')" "err \<noteq> 0" and S': "S' = S"
  show ?thesis
  proof (cases "loaded fs (ob_slab_id ob)")
    case True
    then show ?thesis using store_destroy_law [OF rep o(1)] o(2,3) by auto
  next
    case False
    then show ?thesis using destroy_not_loaded [OF rep o(1)] o(2) rep unfolding S' by simp
  qed
qed

lemma object_steps_rep:
  assumes "(object_step X ph d)\<^sup>*\<^sup>* (fs, S) (fs', S')" "store_rep (X, blk, ph, d) fs S"
  shows "store_rep (X, blk, ph, d) fs' S' \<and> same_rest fs fs'"
  using assms
proof (induction rule: rtranclp_induct2)
  case (step fs1 S1 fs2 S2)
  then show ?case using object_step_rep [of X blk ph d fs1 S1 fs2 S2] same_rest_trans [of fs fs1 fs2] by blast
qed simp

section \<open>Properties\<close>

text \<open>A file system with one pool of objects of 60 blocks, three to a slab, and all slabs free.\<close>

definition alloc_example :: flexalloc where
  "alloc_example = cache_example\<lparr>
     fs_pools := (fs_pools fs_zero)\<lparr>po_entries := [\<lparr>pe_empty_slabs = FLA_LINKED_LIST_NULL, pe_full_slabs = FLA_LINKED_LIST_NULL,
         pe_partial_slabs = FLA_LINKED_LIST_NULL, pe_obj_nlb = 60, pe_slab_nobj = 3, pe_root_obj_hndl = FLA_ROOT_OBJ_NONE,
         pe_flags = 0, pe_usable = 0, pe_name = []\<rparr>], po_funcs := [Some Pool_fnc_default]\<rparr>,
     fs_slabs := \<lparr>sl_headers =
       [\<lparr>sh_pool = 0, sh_prev = FLA_LINKED_LIST_NULL, sh_next = 1, sh_refcount = 0\<rparr>,
        \<lparr>sh_pool = 0, sh_prev = 0, sh_next = 2, sh_refcount = 0\<rparr>,
        \<lparr>sh_pool = 0, sh_prev = 1, sh_next = 3, sh_refcount = 0\<rparr>,
        \<lparr>sh_pool = 0, sh_prev = 2, sh_next = 4, sh_refcount = 0\<rparr>,
        \<lparr>sh_pool = 0, sh_prev = 3, sh_next = FLA_LINKED_LIST_NULL, sh_refcount = 0\<rparr>],
       sl_fslab_num = 5, sl_fslab_head = 0, sl_fslab_tail = 4\<rparr>,
     fs_slab_cache := Some (replicate 5 \<lparr>ce_freelist = None, ce_state = FLA_SLAB_CACHE_ELEM_STALE\<rparr>)\<rparr>"

definition handle_example :: fla_pool where
  "handle_example = \<lparr>ph_h2 = 0, ph_ndx = 0\<rparr>"

lemma alloc_example_same:
  "fs_geo alloc_example = geo_example" "fs_dev alloc_example = fs_dev cache_example"
  "fs_cs alloc_example = fs_cs cache_example" "fs_super alloc_example = fs_super cache_example"
  "length (hdrs alloc_example) = 5"
  by (simp_all add: alloc_example_def cache_example_fields)

lemma alloc_example_env: "pool_env mem_xnvme mem_blk alloc_example 3" "dev_good mem_xnvme alloc_example"
proof -
  have env: "cache_env mem_xnvme mem_blk alloc_example"
    using cache_example_env cache_env_cong [of alloc_example cache_example mem_xnvme mem_blk]
    by (simp add: alloc_example_same cache_example_fields)
  have "fla_calc_objs_in_slab alloc_example 60 = Some 3"
    by (simp add: fla_calc_objs_in_slab_def calc_objs_loop.simps alloc_example_same geo_example_def cache_example_fields
        fla_slab_cache_flist_nlb_def fla_flist_size_def FLA_CEIL_DIV_def FLA_FREELIST_U32_ELEMS_def)
  then have "fla_calc_objs_in_slab alloc_example (pe_obj_nlb (entries alloc_example ! 0)) = Some 3" by (simp add: alloc_example_def)
  moreover have "flist_blocks 512 3 = 1" "slot_room alloc_example = 200"
    by (simp_all add: flist_blocks_def slot_room_def alloc_example_same cache_example_fields)
  moreover have "0 < length (entries alloc_example)" "get_fnc alloc_example 0 = Some Pool_fnc_default"
    "pe_slab_nobj (entries alloc_example ! 0) = 3" by (simp_all add: alloc_example_def get_fnc_def)
  ultimately show "pool_env mem_xnvme mem_blk alloc_example 3"
    using env by (simp add: pool_env_def slabs_ok_def alloc_example_same cache_example_fields)
  have "md_blocks geo_example = 5"
    by (simp add: md_blocks_def geo_example_def fla_geo_pool_sgmt_nblocks_def fla_geo_slab_sgmt_nblocks_def)
  then show "dev_good mem_xnvme alloc_example"
    using env by (intro mem_dev_good) (simp_all add: alloc_example_same cache_example_fields)
qed

lemma alloc_example_rep: "store_rep (mem_xnvme, mem_blk, handle_example, d) alloc_example {}"
proof -
  have elem: "get_elem alloc_example i = Some \<lparr>ce_freelist = None, ce_state = FLA_SLAB_CACHE_ELEM_STALE\<rparr>" if "unat i < 5" for i
    using that by (simp add: get_elem_def alloc_example_def)
  have "lists_ok alloc_example (\<lambda>_. []) [0, 1, 2, 3, 4]"
    by (simp add: lists_ok_def free_queue_def alloc_example_def dll_def head_of_def head_val_def head_pool_def FLA_LINKED_LIST_NULL_def)
  moreover have "cache_inv mem_blk alloc_example d"
    using elem by (simp add: cache_inv_def alloc_example_same cache_example_fields elem_inv_stale)
  ultimately have "pool_rep mem_blk alloc_example d 3 (\<lambda>_. []) (\<lambda>_. []) [0, 1, 2, 3, 4] {}"
    using elem by (simp add: pool_rep_def)
  moreover have "objects 3 (\<lambda>_. []) (\<lambda>_. []) = {}" by (simp add: objects_def)
  ultimately show ?thesis using alloc_example_env by (auto simp: store_rep_def handle_example_def)
qed

text \<open>
  C11: Creating an object on an intact file system returns. Either it reports that all slabs are in
  use and changes nothing, or it returns 0 with an object that no one holds, and the file system
  afterwards represents the set of objects with that one added.
\<close>

theorem fla_base_object_create_fresh:
  assumes "store_rep (X, blk, ph, d) fs S"
  shows "fla_base_object_create X fs ph d = Some (FLA_ERR_ALL_SLABS_USED, fs, None)
      \<or> (\<exists>fs' ob. fla_base_object_create X fs ph d = Some (0, fs', Some ob) \<and> ob \<notin> S
           \<and> store_rep (X, blk, ph, d) fs' (insert ob S))"
  using store_create_law [OF assms] by blast

theorem fla_base_object_create_fresh_witness:
  "(\<exists>fs'. fla_base_object_create mem_xnvme alloc_example handle_example (\<lambda>_ _. []) = Some (FLA_ERR_ALL_SLABS_USED, fs', None))
    \<or> (\<exists>fs' ob. fla_base_object_create mem_xnvme alloc_example handle_example (\<lambda>_ _. []) = Some (0, fs', Some ob)
         \<and> store_rep (mem_xnvme, mem_blk, handle_example, \<lambda>_ _. []) fs' {ob})"
  using fla_base_object_create_fresh [OF alloc_example_rep [of "\<lambda>_ _. []"]] by blast

text \<open>
  C26: Creation makes progress: on an intact file system it fails only when the queue of free slabs
  is empty and every place of every slab on the pool's lists holds an object.
\<close>

theorem fla_base_object_create_progress:
  assumes "store_rep (X, blk, ph, d) fs S" "fla_base_object_create X fs ph d = Some (err, fs', r)" "err \<noteq> 0"
  shows "err = FLA_ERR_ALL_SLABS_USED \<and> free_queue fs []
    \<and> (\<forall>h xs x k. h \<in> pool_heads \<and> slab_list fs h xs \<and> x \<in> set xs \<and> k < pe_slab_nobj (entries fs ! 0)
         \<longrightarrow> \<lparr>ob_slab_id = x, ob_entry_ndx = k\<rparr> \<in> S)"
proof -
  obtain n L F Q where r: "ph_ndx ph = 0" "dev_good X fs" "pool_env X blk fs n" "pool_rep blk fs d n L F Q {}" "objects n L F = S"
    using store_repE [OF assms(1)] .
  note cr = object_create_spec [OF r(3,4,2,1)]
  have ex: "exhausted L Q" and err: "err = FLA_ERR_ALL_SLABS_USED" using cr assms(2,3) by (auto split: if_splits)
  note lists = pool_rep_lists [OF r(4)]
  have n: "pe_slab_nobj (entries fs ! 0) = n" "unat n < 2 ^ 31" using r(3) by (simp_all add: pool_env_def)
  have "\<lparr>ob_slab_id = x, ob_entry_ndx = k\<rparr> \<in> S" if a: "h \<in> pool_heads" "slab_list fs h xs" "x \<in> set xs" "k < n" for h xs x k
  proof -
    have "slab_list fs h (L h)" using lists a(1) unfolding lists_ok_def by blast
    then have x: "x \<in> set (L h)" using a(2,3) dll_chain by metis
    then have full: "h = Full_slabs 0" using ex a(1) by (auto simp: exhausted_def)
    then have xs: "x \<in> slabs_of L" using x by blast
    define c where "c = sh_refcount (hdrs fs ! unat x)"
    have "cls n c = Full_slabs 0" using pool_rep_class [OF r(4) a(1) x] full by (simp add: c_def)
    then have "n < c + 1" by (simp add: cls_def split: if_splits)
    moreover have cnt: "unat c = unat n - card (flist_free (F x))" "flist_cap (F x) = unat n"
      using pool_repD(1) [OF r(4) xs] by (simp_all add: slab_holds_def c_def)
    moreover have "unat (c + 1) = unat c + 1" using cnt n(2) by (subst unat_add_no_wrap) simp_all
    ultimately have "card (flist_free (F x)) = 0" using flist_free_card [of "F x"] by (simp only: word_less_nat_alt) linarith
    then have "flist_free (F x) = {}" using flist_free_card [of "F x"] by simp
    then show ?thesis using xs a(4) unfolding r(5) [symmetric] objects_def by simp
  qed
  moreover have "free_queue fs []" using lists ex by (simp add: lists_ok_def exhausted_def)
  ultimately show ?thesis using err unfolding n(1) by blast
qed

text \<open>One full slab of the pool and no free slab.\<close>

definition full_example :: flexalloc where
  "full_example = alloc_example\<lparr>
     fs_pools := (fs_pools alloc_example)\<lparr>po_entries := [(entries alloc_example ! 0)\<lparr>pe_full_slabs := 2\<rparr>]\<rparr>,
     fs_slabs := \<lparr>sl_headers = (hdrs alloc_example)[2 := \<lparr>sh_pool = 0, sh_prev = FLA_LINKED_LIST_NULL,
         sh_next = FLA_LINKED_LIST_NULL, sh_refcount = 3\<rparr>],
       sl_fslab_num = 0, sl_fslab_head = FLA_LINKED_LIST_NULL, sl_fslab_tail = FLA_LINKED_LIST_NULL\<rparr>,
     fs_slab_cache := Some ((replicate 5 \<lparr>ce_freelist = None, ce_state = FLA_SLAB_CACHE_ELEM_STALE\<rparr>)
       [2 := \<lparr>ce_freelist = Some (3 # replicate 127 0), ce_state = FLA_SLAB_CACHE_ELEM_DIRTY\<rparr>])\<rparr>"

lemma full_example_rest: "same_rest alloc_example full_example"
  by (simp add: same_rest_def full_example_def entry_data_def alloc_example_def)

lemma full_flist:
  "flist_cap (3 # replicate 127 0) = 3" "flist_free (3 # replicate 127 0) = {}" "flist_inv (3 # replicate 127 0)"
proof -
  have "\<not> fbit (3 # replicate 127 0) i" if "i < 3" for i
    using that by (cases "i div 32") (simp_all add: fbit_def)
  then show "flist_free (3 # replicate 127 0) = {}" "flist_inv (3 # replicate 127 0)"
    by (auto simp: flist_free_def flist_inv_def flist_cap_def fbit_def nth_Cons split: nat.splits)
qed (simp add: flist_cap_def)

lemma full_example_rep: "\<exists>S. store_rep (mem_xnvme, mem_blk, handle_example, d) full_example S"
proof -
  let ?f = "3 # replicate 127 0 :: freelist" and ?L = "(\<lambda>_. [])(Full_slabs 0 := [2])"
  have geo: "fs_geo full_example = geo_example" "fs_dev full_example = fs_dev cache_example"
    using full_example_rest by (simp_all add: same_rest_def alloc_example_same)
  have elem: "get_elem full_example i = Some (if i = 2 then \<lparr>ce_freelist = Some ?f, ce_state = FLA_SLAB_CACHE_ELEM_DIRTY\<rparr>
      else \<lparr>ce_freelist = None, ce_state = FLA_SLAB_CACHE_ELEM_STALE\<rparr>)" if "unat i < 5" for i
    using that unat_neq [of i 2] by (simp add: get_elem_def full_example_def nth_list_update)
  have bl: "flist_blocks 512 3 = 1" "slot_room full_example = 200"
    by (simp_all add: flist_blocks_def slot_room_def geo cache_example_fields)
  have fits: "flist_fits full_example ?f"
    using full_flist bl(1) by (simp add: flist_fits_def geo cache_example_fields)
  have "lists_ok full_example ?L []"
    by (simp add: lists_ok_def free_queue_def full_example_def alloc_example_def dll_def head_of_def head_val_def head_pool_def
        FLA_LINKED_LIST_NULL_def)
  moreover have "cache_inv mem_blk full_example d"
    using elem elem_inv_dirty [OF fits] full_flist(1) bl
    by (auto simp: cache_inv_def geo cache_example_fields elem_inv_stale)
  moreover have "hdrs full_example ! 2 = \<lparr>sh_pool = 0, sh_prev = FLA_LINKED_LIST_NULL, sh_next = FLA_LINKED_LIST_NULL, sh_refcount = 3\<rparr>"
    by (simp add: full_example_def alloc_example_def)
  moreover from this have "slab_holds mem_blk full_example d 3 2 ?f"
    using elem [of 2] fits full_flist(1,2) by (simp add: slab_holds_def)
  ultimately have "pool_rep mem_blk full_example d 3 ?L (\<lambda>_. ?f) [] {}"
    by (simp add: pool_rep_def cls_def)
  from store_repI [OF alloc_example_env _ full_example_rest this, of handle_example]
  show ?thesis by (auto simp: handle_example_def)
qed

lemma full_example_create:
  "fla_base_object_create X full_example handle_example d = Some (FLA_ERR_ALL_SLABS_USED, full_example, None)"
  by (simp add: fla_base_object_create_def fla_pool_next_available_slab_def fla_acquire_slab_def full_example_def
      alloc_example_def handle_example_def FLA_ERR_ALL_SLABS_USED_def)

theorem fla_base_object_create_progress_witness:
  "\<exists>S. store_rep (mem_xnvme, mem_blk, handle_example, \<lambda>_ _. []) full_example S \<and> free_queue full_example []
    \<and> \<lparr>ob_slab_id = 2, ob_entry_ndx = 1\<rparr> \<in> S"
proof -
  from full_example_rep obtain S where S: "store_rep (mem_xnvme, mem_blk, handle_example, \<lambda>_ _. []) full_example S" by blast
  have l: "slab_list full_example (Full_slabs 0) [2]"
    by (simp add: full_example_def alloc_example_def dll_def head_of_def head_val_def head_pool_def FLA_LINKED_LIST_NULL_def)
  have "pe_slab_nobj (entries full_example ! 0) = 3" by (simp add: full_example_def alloc_example_def)
  then show ?thesis
    using fla_base_object_create_progress [OF S full_example_create] l S by (force simp: FLA_ERR_ALL_SLABS_USED_def)
qed

text \<open>
  C27: Destroying an object that is held and whose slab is loaded returns 0, leaves the device alone
  and takes exactly that object out of the set.
\<close>

theorem fla_base_object_destroy_removes:
  assumes "store_rep (X, blk, ph, d) fs S" "ob \<in> S" "loaded fs (ob_slab_id ob)"
  shows "\<exists>fs'. fla_base_object_destroy X fs ph ob d = Some (0, fs', d) \<and> store_rep (X, blk, ph, d) fs' (S - {ob})"
  using store_destroy_law [OF assms] by blast

theorem fla_base_object_destroy_removes_witness:
  "\<exists>S fs' ob. store_rep (mem_xnvme, mem_blk, handle_example, \<lambda>_ _. []) full_example S
    \<and> fla_base_object_destroy mem_xnvme full_example handle_example \<lparr>ob_slab_id = 2, ob_entry_ndx = 1\<rparr> (\<lambda>_ _. [])
      = Some (0, fs', \<lambda>_ _. []) \<and> store_rep (mem_xnvme, mem_blk, handle_example, \<lambda>_ _. []) fs' (S - {\<lparr>ob_slab_id = 2, ob_entry_ndx = 1\<rparr>})"
proof -
  from full_example_rep obtain S where S: "store_rep (mem_xnvme, mem_blk, handle_example, \<lambda>_ _. []) full_example S" by blast
  then obtain n L F Q where r: "pool_rep mem_blk full_example (\<lambda>_ _. []) n L F Q {}" "objects n L F = S" "n = 3"
    by (elim store_repE) (auto simp: pool_env_def full_example_def alloc_example_def)
  have l: "slab_list full_example (Full_slabs 0) [2]"
    by (simp add: full_example_def alloc_example_def dll_def head_of_def head_val_def head_pool_def FLA_LINKED_LIST_NULL_def)
  moreover have "slab_list full_example (Full_slabs 0) (L (Full_slabs 0))" using pool_rep_lists [OF r(1)] by (simp add: lists_ok_def)
  ultimately have L: "L (Full_slabs 0) = [2]" using dll_chain by metis
  have el: "get_elem full_example 2 = Some \<lparr>ce_freelist = Some (3 # replicate 127 0), ce_state = FLA_SLAB_CACHE_ELEM_DIRTY\<rparr>"
    by (simp add: get_elem_def full_example_def)
  then have "F 2 = 3 # replicate 127 0" using pool_repD(1) [OF r(1), of 2] L by (simp add: slab_holds_def)
  then have ob: "\<lparr>ob_slab_id = 2, ob_entry_ndx = 1\<rparr> \<in> S"
    using L full_flist(2) unfolding r(2) [symmetric] r(3) by (simp add: objects_def)
  then show ?thesis
    using fla_base_object_destroy_removes [OF S ob] S el by (simp add: loaded_def) blast
qed

text \<open>
  An object that was just created can be destroyed, and then the file system represents the set
  of objects it did before.
\<close>

theorem fla_base_object_create_destroy:
  assumes "store_rep (X, blk, ph, d) fs S" "fla_base_object_create X fs ph d = Some (0, fs1, Some ob)"
  shows "\<exists>fs2. fla_base_object_destroy X fs1 ph ob d = Some (0, fs2, d) \<and> store_rep (X, blk, ph, d) fs2 S"
proof -
  have "store_create (X, blk, ph, d) fs = Some (0, fs1, Some ob)" using assms(2) by (simp add: store_create_def)
  from os.create_destroy [OF assms(1) this] obtain fs2 d2 where
    "fla_base_object_destroy X fs1 ph ob d = Some (0, fs2, d2)" "store_rep (X, blk, ph, d) fs2 S"
    by (auto simp: store_destroy_def)
  moreover have "store_rep (X, blk, ph, d) fs1 (insert ob S)" "loaded fs1 (ob_slab_id ob)"
    using store_create_law [OF assms(1)] assms(2) by (auto simp: FLA_ERR_ALL_SLABS_USED_def)
  ultimately show ?thesis using store_destroy_law [of X blk ph d fs1 "insert ob S" ob] by auto
qed

lemma alloc_example_create:
  "\<exists>fs' ob. fla_base_object_create mem_xnvme alloc_example handle_example d = Some (0, fs', Some ob)"
proof -
  obtain n L F Q where r: "ph_ndx handle_example = 0" "dev_good mem_xnvme alloc_example" "pool_env mem_xnvme mem_blk alloc_example n"
    "pool_rep mem_blk alloc_example d n L F Q {}" using store_repE [OF alloc_example_rep] .
  have "unat (sl_fslab_num (fs_slabs alloc_example)) = length Q" using pool_rep_lists [OF r(4)] by (simp add: lists_ok_def)
  then have "\<not> exhausted L Q" by (auto simp: exhausted_def alloc_example_def)
  then show ?thesis using object_create_spec [OF r(3,4,2,1)] by auto
qed

theorem fla_base_object_create_destroy_witness:
  "\<exists>fs1 ob fs2. fla_base_object_create mem_xnvme alloc_example handle_example (\<lambda>_ _. []) = Some (0, fs1, Some ob)
    \<and> fla_base_object_destroy mem_xnvme fs1 handle_example ob (\<lambda>_ _. []) = Some (0, fs2, \<lambda>_ _. [])
    \<and> store_rep (mem_xnvme, mem_blk, handle_example, \<lambda>_ _. []) fs2 {}"
proof -
  from alloc_example_create obtain fs1 ob where
    c: "fla_base_object_create mem_xnvme alloc_example handle_example (\<lambda>_ _. []) = Some (0, fs1, Some ob)" by blast
  show ?thesis using fla_base_object_create_destroy [OF alloc_example_rep c] c by blast
qed

text \<open>
  C3: Whatever sequence of creating, opening and destroying is run, with or without success, the
  file system always represents exactly the objects that were created and not destroyed: the lists of
  slabs, the reference counts, the freelists and the queue of free slabs agree with that set.
\<close>

theorem object_steps_represent:
  assumes "store_rep (X, blk, ph, d) fs S" "(object_step X ph d)\<^sup>*\<^sup>* (fs, S) (fs', S')"
  shows "store_rep (X, blk, ph, d) fs' S'"
  using object_steps_rep [OF assms(2,1)] by blast

theorem object_steps_represent_witness:
  "\<exists>fs' ob. (object_step mem_xnvme handle_example (\<lambda>_ _. []))\<^sup>*\<^sup>* (alloc_example, {}) (fs', {ob})
    \<and> store_rep (mem_xnvme, mem_blk, handle_example, \<lambda>_ _. []) fs' {ob}"
proof -
  from alloc_example_create obtain fs1 ob where
    "fla_base_object_create mem_xnvme alloc_example handle_example (\<lambda>_ _. []) = Some (0, fs1, Some ob)" by blast
  then have "(object_step mem_xnvme handle_example (\<lambda>_ _. []))\<^sup>*\<^sup>* (alloc_example, {}) (fs1, {ob})"
    using step_create by fastforce
  then show ?thesis using object_steps_represent [OF alloc_example_rep] by blast
qed

section \<open>Pools other than the first\<close>

text \<open>
  With two pools, an object created in the second: its slab gets the pool index 0, so after the
  allocation it is put on the list of partial slabs of the first pool, while it stays the head of
  the empty slabs of the second. A second allocation in either pool takes from the same slab.
\<close>

definition two_pools_example :: flexalloc where
  "two_pools_example = cache_example\<lparr>
     fs_geo := geo_example\<lparr>g_lb_nbytes := 8, g_slab_nlb := 20\<rparr>,
     fs_pools := (fs_pools fs_zero)\<lparr>po_entries := replicate 2 \<lparr>pe_empty_slabs = FLA_LINKED_LIST_NULL,
         pe_full_slabs = FLA_LINKED_LIST_NULL, pe_partial_slabs = FLA_LINKED_LIST_NULL, pe_obj_nlb = 6, pe_slab_nobj = 3,
         pe_root_obj_hndl = FLA_ROOT_OBJ_NONE, pe_flags = 0, pe_usable = 0, pe_name = []\<rparr>,
       po_funcs := replicate 2 (Some Pool_fnc_default)\<rparr>,
     fs_slabs := \<lparr>sl_headers = replicate 5 \<lparr>sh_pool = 0, sh_prev = FLA_LINKED_LIST_NULL,
         sh_next = FLA_LINKED_LIST_NULL, sh_refcount = 0\<rparr>,
       sl_fslab_num = 1, sl_fslab_head = 0, sl_fslab_tail = 0\<rparr>,
     fs_slab_cache := Some (replicate 5 \<lparr>ce_freelist = None, ce_state = FLA_SLAB_CACHE_ELEM_STALE\<rparr>)\<rparr>"

lemma second_pool_slab_misfiled:
  "map_option (\<lambda>(err, fs, ob). (err, ob, map (\<lambda>e. (pe_empty_slabs e, pe_partial_slabs e)) (entries fs)))
     (fla_base_object_create mem_xnvme two_pools_example \<lparr>ph_h2 = 0, ph_ndx = 1\<rparr> (\<lambda>_ _. []))
   = Some (0, Some \<lparr>ob_slab_id = 0, ob_entry_ndx = 0\<rparr>, [(FLA_LINKED_LIST_NULL, 0), (0, FLA_LINKED_LIST_NULL)])"
  by code_simp

end
