(* ===== verification/Fla_Transfer.thy ===== *)
theory Fla_Transfer
  imports Fla_Alloc
begin

text \<open>
  Reading and writing objects. Where an object lies, that different objects share no block with
  each other, with the freelists or with the metadata, which transfers the bounds check
  refuses, and that what was written is read back.
\<close>

section \<open>Where objects lie\<close>

text \<open>The device and the geometry for transfers of data; all byte addresses fit in 63 bits.\<close>

definition data_env :: "'d xnvme \<Rightarrow> ('d \<Rightarrow> xdev \<Rightarrow> nat \<Rightarrow> u8 list) \<Rightarrow> flexalloc \<Rightarrow> bool" where
  "data_env X blk fs \<longleftrightarrow> storage X blk \<and> ranges X \<and> xfer_ok (x_geo X Data_dev) \<and> lbsz X Data_dev = lb_of fs
     \<and> dv_lb_nbytes (fs_dev fs) = g_lb_nbytes (fs_geo fs) \<and> 0 < lb_of fs \<and> cs_t (fs_cs fs) = FLA_CS_CNS
     \<and> unat (g_nslabs (fs_geo fs)) * unat (g_slab_nlb (fs_geo fs)) < 2 ^ 32
     \<and> (md_blocks (fs_geo fs) + unat (g_nslabs (fs_geo fs)) * unat (g_slab_nlb (fs_geo fs))) * lb_of fs < 2 ^ 63"

text \<open>An object of the pool of a handle.\<close>

definition obj_ok :: "flexalloc \<Rightarrow> fla_pool \<Rightarrow> fla_object \<Rightarrow> bool" where
  "obj_ok fs ph ob \<longleftrightarrow> unat (ph_ndx ph) < length (entries fs) \<and> get_fnc fs (unat (ph_ndx ph)) = Some Pool_fnc_default
     \<and> unat (ob_slab_id ob) < unat (g_nslabs (fs_geo fs))
     \<and> unat (ob_entry_ndx ob) < unat (pe_slab_nobj (entries fs ! unat (ph_ndx ph)))
     \<and> unat (pe_slab_nobj (entries fs ! unat (ph_ndx ph))) * unat (pe_obj_nlb (entries fs ! unat (ph_ndx ph)))
         \<le> unat (g_slab_nlb (fs_geo fs))"

abbreviation obj_nlb :: "flexalloc \<Rightarrow> fla_pool \<Rightarrow> nat" where
  "obj_nlb fs ph \<equiv> unat (pe_obj_nlb (entries fs ! unat (ph_ndx ph)))"

definition obj_start :: "flexalloc \<Rightarrow> fla_pool \<Rightarrow> fla_object \<Rightarrow> nat" where
  "obj_start fs ph ob = slab_start fs (unat (ob_slab_id ob)) + unat (ob_entry_ndx ob) * obj_nlb fs ph"

definition obj_blocks :: "flexalloc \<Rightarrow> fla_pool \<Rightarrow> fla_object \<Rightarrow> nat set" where
  "obj_blocks fs ph ob = {obj_start fs ph ob..<obj_start fs ph ob + obj_nlb fs ph}"

lemma obj_in_slab:
  assumes "obj_ok fs ph ob"
  shows "Suc (unat (ob_entry_ndx ob)) * obj_nlb fs ph \<le> unat (g_slab_nlb (fs_geo fs))"
proof -
  have "Suc (unat (ob_entry_ndx ob)) * obj_nlb fs ph
      \<le> unat (pe_slab_nobj (entries fs ! unat (ph_ndx ph))) * obj_nlb fs ph"
    using assms by (intro mult_le_mono1) (simp add: obj_ok_def Suc_le_eq)
  then show ?thesis using assms by (simp add: obj_ok_def)
qed

lemma less_if_mult_less: "(a :: nat) * m < b \<Longrightarrow> 0 < m \<Longrightarrow> a < b"
  by (cases m) auto

lemma slab_end:
  assumes "data_env X blk fs" "i < unat (g_nslabs (fs_geo fs))"
  shows "slab_start fs i + unat (g_slab_nlb (fs_geo fs)) \<le> md_blocks (fs_geo fs) + unat (g_nslabs (fs_geo fs)) * unat (g_slab_nlb (fs_geo fs))"
    "(slab_start fs i + unat (g_slab_nlb (fs_geo fs))) * lb_of fs < 2 ^ 63"
    "i * unat (g_slab_nlb (fs_geo fs)) < 2 ^ 32"
proof -
  let ?s = "unat (g_slab_nlb (fs_geo fs))" and ?n = "unat (g_nslabs (fs_geo fs))"
  have s: "Suc i * ?s \<le> ?n * ?s" using assms(2) by (intro mult_le_mono1) simp
  then show e: "slab_start fs i + ?s \<le> md_blocks (fs_geo fs) + ?n * ?s" by (simp add: slab_start_def)
  have "(slab_start fs i + ?s) * lb_of fs \<le> (md_blocks (fs_geo fs) + ?n * ?s) * lb_of fs" using e by (rule mult_le_mono1)
  also have "\<dots> < 2 ^ 63" using assms(1) by (simp add: data_env_def)
  finally show "(slab_start fs i + ?s) * lb_of fs < 2 ^ 63" .
  have "i * ?s \<le> ?n * ?s" using assms(2) by (intro mult_le_mono1) simp
  also have "\<dots> < 2 ^ 32" using assms(1) by (simp add: data_env_def)
  finally show "i * ?s < 2 ^ 32" .
qed

lemma obj_addresses:
  assumes env: "data_env X blk fs" and ok: "obj_ok fs ph ob"
  shows "\<exists>s. fla_object_slba fs ob ph = Some s \<and> unat s = obj_start fs ph ob"
    "\<exists>e. fla_object_elba fs ob ph = Some e \<and> unat e = obj_start fs ph ob + obj_nlb fs ph"
    "\<exists>w. fla_geo_slab_lb_off fs (ob_slab_id ob) = Some w \<and> unat w = slab_start fs (unat (ob_slab_id ob))"
proof -
  let ?i = "unat (ob_slab_id ob)" and ?k = "unat (ob_entry_ndx ob)" and ?o = "obj_nlb fs ph"
  let ?e = "entries fs ! unat (ph_ndx ph)"
  have i: "?i < unat (g_nslabs (fs_geo fs))" using ok by (simp add: obj_ok_def)
  have cns: "cs_t (fs_cs fs) = FLA_CS_CNS" and lb: "0 < lb_of fs" using env by (simp_all add: data_env_def)
  from slab_lb_off_nat [OF cns slab_end(3) [OF env i]] obtain off where
    off: "fla_geo_slab_lb_off fs (ob_slab_id ob) = Some off" "unat off = slab_start fs ?i" by blast
  then show "\<exists>w. fla_geo_slab_lb_off fs (ob_slab_id ob) = Some w \<and> unat w = slab_start fs ?i" by blast
  have s32: "unat (g_slab_nlb (fs_geo fs)) < 2 ^ 32" using unat_less_exp [of "g_slab_nlb (fs_geo fs)"] by simp
  have in1: "Suc ?k * ?o \<le> unat (g_slab_nlb (fs_geo fs))" by (rule obj_in_slab [OF ok])
  have big: "slab_start fs ?i + unat (g_slab_nlb (fs_geo fs)) < 2 ^ 63"
    by (rule less_if_mult_less [OF slab_end(2) [OF env i] lb])
  have k1: "unat (ob_entry_ndx ob + 1) = Suc ?k"
    using ok by (intro unat_inc_below [of _ "pe_slab_nobj ?e"]) (simp add: obj_ok_def word_less_nat_alt)
  have p: "unat (pe_obj_nlb ?e * ob_entry_ndx ob) = ?k * ?o" "unat (pe_obj_nlb ?e * (ob_entry_ndx ob + 1)) = Suc ?k * ?o"
    using in1 s32 k1 by (simp_all add: unat_mult_no_wrap mult.commute)
  have w: "unat (off + ucast (w :: u32)) = unat off + unat w" if "unat w \<le> unat (g_slab_nlb (fs_geo fs))" for w
    using off(2) big that by (subst unat_add_no_wrap) (simp_all add: unat_ucast_widen)
  have r: "rd (entries fs) (unat (ph_ndx ph)) = Some ?e" "get_fnc fs (unat (ph_ndx ph)) = Some Pool_fnc_default"
    using ok by (simp_all add: obj_ok_def)
  show "\<exists>s. fla_object_slba fs ob ph = Some s \<and> unat s = obj_start fs ph ob"
    using r off w [of "pe_obj_nlb ?e * ob_entry_ndx ob"] p(1) in1 by (simp add: fla_object_slba_def obj_start_def)
  show "\<exists>e. fla_object_elba fs ob ph = Some e \<and> unat e = obj_start fs ph ob + ?o"
    using r off w [of "pe_obj_nlb ?e * (ob_entry_ndx ob + 1)"] p(2) in1
    by (simp add: fla_object_elba_def obj_start_def fnc_get_slab_elba_def get_slab_elba_default_def)
qed

text \<open>Different objects, and objects and freelists, share no block.\<close>

lemma obj_blocks_in_slab:
  assumes "obj_ok fs ph ob"
  shows "obj_blocks fs ph ob \<subseteq> {slab_start fs (unat (ob_slab_id ob))..<slab_start fs (unat (ob_slab_id ob)) + unat (g_slab_nlb (fs_geo fs))}"
  using obj_in_slab [OF assms] by (auto simp: obj_blocks_def obj_start_def)

lemma slabs_apart:
  "i \<noteq> j \<Longrightarrow> {slab_start fs i..<slab_start fs i + unat (g_slab_nlb (fs_geo fs))}
    \<inter> {slab_start fs j..<slab_start fs j + unat (g_slab_nlb (fs_geo fs))} = {}"
  unfolding slab_start_def by (rule intervals_disjoint)

lemma objects_apart:
  assumes "obj_ok fs ph ob" "obj_ok fs ph ob'" "ob \<noteq> ob'"
  shows "obj_blocks fs ph ob \<inter> obj_blocks fs ph ob' = {}"
proof (cases "ob_slab_id ob = ob_slab_id ob'")
  case True
  then have "unat (ob_entry_ndx ob) \<noteq> unat (ob_entry_ndx ob')" using assms(3) by (cases ob; cases ob') simp
  then show ?thesis unfolding obj_blocks_def obj_start_def True by (rule intervals_disjoint)
next
  case False
  then have "unat (ob_slab_id ob) \<noteq> unat (ob_slab_id ob')" by simp
  from slabs_apart [OF this, of fs] obj_blocks_in_slab [OF assms(1)] obj_blocks_in_slab [OF assms(2)] show ?thesis by blast
qed

lemma object_own_slot:
  assumes "obj_ok fs ph ob" "unat (pe_slab_nobj (entries fs ! unat (ph_ndx ph))) * obj_nlb fs ph + n \<le> unat (g_slab_nlb (fs_geo fs))"
    "i \<in> {flist_slot fs (unat (ob_slab_id ob)) n..<flist_slot fs (unat (ob_slab_id ob)) n + n}"
  shows "\<not> (cache_dev fs = Data_dev \<and> i \<in> obj_blocks fs ph ob)"
proof (cases "dv_md_dev (fs_dev fs)")
  case False
  have "Suc (unat (ob_entry_ndx ob)) * obj_nlb fs ph \<le> unat (pe_slab_nobj (entries fs ! unat (ph_ndx ph))) * obj_nlb fs ph"
    using assms(1) by (intro mult_le_mono1) (simp add: obj_ok_def Suc_le_eq)
  then show ?thesis using assms(2,3) False by (auto simp: obj_blocks_def obj_start_def flist_slot_def)
qed (simp add: cache_dev_def)

section \<open>The bounds check\<close>

text \<open>The first byte of an object on the device, and the byte behind its last one.\<close>

definition obj_byte :: "flexalloc \<Rightarrow> fla_pool \<Rightarrow> fla_object \<Rightarrow> nat" where
  "obj_byte fs ph ob = obj_start fs ph ob * lb_of fs"

definition obj_end_byte :: "flexalloc \<Rightarrow> fla_pool \<Rightarrow> fla_object \<Rightarrow> nat" where
  "obj_end_byte fs ph ob = (obj_start fs ph ob + obj_nlb fs ph) * lb_of fs"

text \<open>The check for any offset and length: the sums are taken modulo \<open>2^64\<close>.\<close>

lemma object_bounds_exact:
  assumes env: "data_env X blk fs" and ok: "obj_ok fs ph ob"
  shows "object_bounds fs ph ob off len = Some (c_bool (obj_end_byte fs ph ob < (obj_byte fs ph ob + unat off + unat len) mod 2 ^ 64),
      of_nat (obj_byte fs ph ob) + off)"
    "obj_byte fs ph ob \<le> obj_end_byte fs ph ob" "obj_end_byte fs ph ob < 2 ^ 63"
proof -
  let ?i = "unat (ob_slab_id ob)" and ?lb = "lb_of fs" and ?n = "unat (g_slab_nlb (fs_geo fs))"
  have i: "?i < unat (g_nslabs (fs_geo fs))" using ok by (simp add: obj_ok_def)
  have lb: "dv_lb_nbytes (fs_dev fs) = g_lb_nbytes (fs_geo fs)" using env by (simp add: data_env_def)
  from obj_addresses [OF env ok] obtain s e w where s: "fla_object_slba fs ob ph = Some s" "unat s = obj_start fs ph ob"
    and e: "fla_object_elba fs ob ph = Some e" "unat e = obj_start fs ph ob + obj_nlb fs ph"
    and w: "fla_geo_slab_lb_off fs (ob_slab_id ob) = Some w" "unat w = slab_start fs ?i" by blast
  have e_le: "unat e \<le> slab_start fs ?i + ?n" using e(2) obj_in_slab [OF ok] by (simp add: obj_start_def)
  have mul: "unat (v * ucast (g_lb_nbytes (fs_geo fs)) :: u64) = unat v * ?lb" if "unat v \<le> slab_start fs ?i + ?n" for v :: u64
  proof -
    have "unat v * ?lb \<le> (slab_start fs ?i + ?n) * ?lb" using that by (rule mult_le_mono1)
    also have "\<dots> < 2 ^ 64" using slab_end(2) [OF env i] by simp
    finally show ?thesis by (subst unat_mult_no_wrap) (simp_all add: unat_ucast_widen)
  qed
  have "unat w + ?n < 2 ^ 64" using less_if_mult_less [OF slab_end(2) [OF env i]] env w(2) by (simp add: data_env_def)
  then have wn: "unat (w + ucast (g_slab_nlb (fs_geo fs))) = slab_start fs ?i + ?n"
    using w(2) by (subst unat_add_no_wrap) (simp_all add: unat_ucast_widen)
  have sm: "unat (s * ucast (g_lb_nbytes (fs_geo fs))) = obj_byte fs ph ob" using mul [of s] s(2) e(2) e_le by (simp add: obj_byte_def)
  have em: "unat (e * ucast (g_lb_nbytes (fs_geo fs))) = obj_end_byte fs ph ob" using mul [of e] e(2) e_le by (simp add: obj_end_byte_def)
  have le: "obj_end_byte fs ph ob \<le> (slab_start fs ?i + ?n) * ?lb"
    using e_le mult_le_mono1 [OF e_le, of ?lb] e(2) by (simp add: obj_end_byte_def)
  have slm: "unat ((w + ucast (g_slab_nlb (fs_geo fs))) * ucast (g_lb_nbytes (fs_geo fs)) :: u64) = (slab_start fs ?i + ?n) * ?lb"
    using mul [of "w + ucast (g_slab_nlb (fs_geo fs))"] wn by simp
  have in_slab: "\<not> (w + ucast (g_slab_nlb (fs_geo fs))) * ucast (g_lb_nbytes (fs_geo fs)) < e * ucast (g_lb_nbytes (fs_geo fs))"
    using le by (simp add: word_less_nat_alt em slm not_less)
  have sw: "s * ucast (g_lb_nbytes (fs_geo fs)) = of_nat (obj_byte fs ph ob)" unfolding sm [symmetric] by simp
  have "unat (s * ucast (g_lb_nbytes (fs_geo fs)) + off + len) = (obj_byte fs ph ob + unat off + unat len) mod 2 ^ 64"
    by (simp only: unat_word_ariths(1) sm) (simp add: mod_add_left_eq)
  then have chk: "e * ucast (g_lb_nbytes (fs_geo fs)) < s * ucast (g_lb_nbytes (fs_geo fs)) + off + len
      \<longleftrightarrow> obj_end_byte fs ph ob < (obj_byte fs ph ob + unat off + unat len) mod 2 ^ 64"
    by (simp only: word_less_nat_alt em)
  show "object_bounds fs ph ob off len = Some (c_bool (obj_end_byte fs ph ob < (obj_byte fs ph ob + unat off + unat len) mod 2 ^ 64),
      of_nat (obj_byte fs ph ob) + off)"
    using s(1) e(1) w(1) in_slab chk sw
    by (simp add: object_bounds_def fla_object_eoffset_def fla_object_soffset_def lb Let_def)
  show "obj_byte fs ph ob \<le> obj_end_byte fs ph ob" by (simp add: obj_byte_def obj_end_byte_def)
  show "obj_end_byte fs ph ob < 2 ^ 63" using le slab_end(2) [OF env i] by linarith
qed

text \<open>Without a wrap around the check compares the end of the transfer with the size of the object.\<close>

lemma bounds_no_wrap:
  assumes "obj_byte fs ph ob + unat (off :: u64) + unat (len :: u64) < 2 ^ 64"
  shows "obj_end_byte fs ph ob < (obj_byte fs ph ob + unat off + unat len) mod 2 ^ 64 \<longleftrightarrow> obj_nlb fs ph * lb_of fs < unat off + unat len"
  using assms by (simp add: obj_byte_def obj_end_byte_def add_mult_distrib)

lemma object_bounds_spec:
  assumes env: "data_env X blk fs" and ok: "obj_ok fs ph ob" and small: "unat off + unat len < 2 ^ 63"
  shows "\<exists>w. object_bounds fs ph ob off len = Some (c_bool (obj_nlb fs ph * lb_of fs < unat off + unat len), w)
    \<and> unat w = obj_start fs ph ob * lb_of fs + unat off"
proof -
  note x = object_bounds_exact [OF env ok]
  have b: "obj_byte fs ph ob + unat off + unat len < 2 ^ 64" using x(2,3) small by simp
  have "unat (of_nat (obj_byte fs ph ob) + off :: u64) = obj_byte fs ph ob + unat off"
    using b by (subst unat_add_no_wrap) (simp_all add: unat_of_nat_small)
  then show ?thesis using x(1) [of off len] bounds_no_wrap [OF b] by (simp add: obj_byte_def)
qed

section \<open>Writing and reading\<close>

text \<open>The blocks of an aligned range of bytes of an object.\<close>

lemma range_of_object:
  assumes env: "data_env X blk fs" and v: "lr_is_valid (x_range_from_offset X Data_dev w len)"
    and w: "unat w = obj_start fs ph ob * lb_of fs + unat off"
  defines "r \<equiv> x_range_from_offset X Data_dev w len"
  shows "\<exists>k m. unat off = k * lb_of fs \<and> unat len = m * lb_of fs \<and> 0 < m \<and> unat (lr_slba r) = obj_start fs ph ob + k
    \<and> unat (lr_elba r) = obj_start fs ph ob + k + m - 1 \<and> unat (lr_elba r) < 2 ^ 63"
proof -
  have lb: "lbsz X Data_dev = lb_of fs" "0 < lb_of fs" "ranges X" using env by (simp_all add: data_env_def)
  from lb(3) [unfolded ranges_def, THEN conjunct2, rule_format, OF v] obtain s n where
    sn: "unat w = unat s * lb_of fs" "unat len = unat n * lb_of fs" "lr_slba r = s" "lr_elba r = s + n - 1" "0 < unat n"
      "unat s + unat n < 2 ^ 63" unfolding r_def lb(1) by blast
  have "obj_start fs ph ob * lb_of fs \<le> unat s * lb_of fs" using w sn(1) by simp
  then have le: "obj_start fs ph ob \<le> unat s" using lb(2) by simp
  have "unat off = (unat s - obj_start fs ph ob) * lb_of fs" using w sn(1) by (simp add: diff_mult_distrib)
  then show ?thesis using sn le range_end [OF sn(5,6)] by (intro exI [of _ "unat s - obj_start fs ph ob"] exI [of _ "unat n"]) simp
qed

lemma w_xneio_frame:
  assumes "storage X blk" "xfer_ok (x_geo X (xi_dev io))" "unat (lr_elba (xi_lba_range io)) < 2 ^ 63"
    "(Suc (unat (lr_elba (xi_lba_range io))) - unat (lr_slba (xi_lba_range io))) * lbsz X (xi_dev io) \<le> length (xi_buf io)"
    "fla_xne_sync_seq_w_xneio X io dp d = Some (err, dp', d')"
    "\<not> (dv = xi_dev io \<and> unat (lr_slba (xi_lba_range io)) \<le> i \<and> i \<le> unat (lr_elba (xi_lba_range io)))"
  shows "blk d' dv i = blk d dv i"
proof -
  from assms(5) consider "d' = d"
    | ctx where "fla_xne_sync_seq_w X (xi_lba_range io) (xi_dev io) ctx (xi_buf io) d = Some (err, d')"
    by (auto simp: fla_xne_sync_seq_w_xneio_def Let_def bind_eq_Some_conv split: if_splits option.splits)
  then show ?thesis
  proof cases
    case (2 ctx)
    then show ?thesis using seq_w_blocks [OF assms(1-4), of ctx d] assms(6) by auto
  qed simp
qed

lemma object_write_spec:
  assumes env: "data_env X blk fs" and ok: "obj_ok fs ph ob" and small: "unat off + unat len < 2 ^ 63"
    and buf: "unat len \<le> length buf" and wr: "fla_object_write X fs ph ob buf off len d = Some (err, fs', d')"
  shows "\<exists>dp. fs' = fs\<lparr>fs_dp := dp\<rparr>"
    "\<not> (dv = Data_dev \<and> i \<in> obj_blocks fs ph ob) \<Longrightarrow> blk d' dv i = blk d dv i"
    "obj_nlb fs ph * lb_of fs < unat off + unat len \<Longrightarrow> err = 1 \<and> fs' = fs \<and> d' = d"
    "err = 0 \<Longrightarrow> \<exists>k m. unat off = k * lb_of fs \<and> unat len = m * lb_of fs \<and> 0 < m \<and> k + m \<le> obj_nlb fs ph
       \<and> (\<forall>j<m. blk d' Data_dev (obj_start fs ph ob + k + j) = buf_block (lb_of fs) buf j)"
proof -
  have lb: "lbsz X Data_dev = lb_of fs" "0 < lb_of fs" "storage X blk" "xfer_ok (x_geo X Data_dev)"
    using env by (simp_all add: data_env_def)
  from object_bounds_spec [OF env ok small] obtain w where
    b: "object_bounds fs ph ob off len = Some (c_bool (obj_nlb fs ph * lb_of fs < unat off + unat len), w)"
      "unat w = obj_start fs ph ob * lb_of fs + unat off" by blast
  have e: "rd (entries fs) (unat (ph_ndx ph)) = Some (entries fs ! unat (ph_ndx ph))" using ok by (simp add: obj_ok_def)
  define r where "r = x_range_from_offset X Data_dev w len"
  define io where "io = \<lparr>xi_io_type = FLA_IO_DATA_WRITE, xi_dev = Data_dev, xi_buf = buf, xi_lba_range = r,
    xi_pool_handle = Some ph, xi_obj_handle = Some ob, xi_prep_ctx = dp_prep (fs_dp fs)\<rparr>"
  have io: "xi_dev io = Data_dev" "xi_buf io = buf" "xi_lba_range io = r" by (simp_all add: io_def)
  have W: "fla_object_write X fs ph ob buf off len d =
    (if obj_nlb fs ph * lb_of fs < unat off + unat len then Some (1, fs, d)
     else if \<not> lr_is_valid r then Some (1, fs, d)
     else do { (err, dp, d) \<leftarrow> fla_xne_sync_seq_w_xneio X io (fs_dp fs) d; Some (err, fs\<lparr>fs_dp := dp\<rparr>, d) })"
    using e b(1) by (simp add: fla_object_write_def strp_branch_dead fla_xne_lba_range_from_offset_nbytes_def r_def io_def Let_def)
  show "obj_nlb fs ph * lb_of fs < unat off + unat len \<Longrightarrow> err = 1 \<and> fs' = fs \<and> d' = d" using wr W by simp
  have id: "fs = fs\<lparr>fs_dp := fs_dp fs\<rparr>" by simp
  have out: "fs' = fs \<and> d' = d \<and> err = 1 \<or> \<not> obj_nlb fs ph * lb_of fs < unat off + unat len \<and> lr_is_valid r
      \<and> (\<exists>dp. fla_xne_sync_seq_w_xneio X io (fs_dp fs) d = Some (err, dp, d') \<and> fs' = fs\<lparr>fs_dp := dp\<rparr>)"
    using wr unfolding W by (auto simp: bind_eq_Some_conv split: if_splits)
  then show "\<exists>dp. fs' = fs\<lparr>fs_dp := dp\<rparr>" using id by blast
  have key: "\<exists>k m dp. unat off = k * lb_of fs \<and> unat len = m * lb_of fs \<and> 0 < m \<and> k + m \<le> obj_nlb fs ph
      \<and> unat (lr_slba r) = obj_start fs ph ob + k \<and> unat (lr_elba r) = obj_start fs ph ob + k + m - 1
      \<and> unat (lr_elba r) < 2 ^ 63 \<and> (Suc (unat (lr_elba r)) - unat (lr_slba r)) * lbsz X Data_dev \<le> length buf
      \<and> fla_xne_sync_seq_w_xneio X io (fs_dp fs) d = Some (err, dp, d')" if "\<not> (fs' = fs \<and> d' = d \<and> err = 1)"
  proof -
    from out that obtain dp where o: "obj_nlb fs ph * lb_of fs \<ge> unat off + unat len" "lr_is_valid r"
      "fla_xne_sync_seq_w_xneio X io (fs_dp fs) d = Some (err, dp, d')" by auto
    from range_of_object [OF env o(2) [unfolded r_def] b(2), folded r_def] obtain k m where
      km: "unat off = k * lb_of fs" "unat len = m * lb_of fs" "0 < m" "unat (lr_slba r) = obj_start fs ph ob + k"
      "unat (lr_elba r) = obj_start fs ph ob + k + m - 1" "unat (lr_elba r) < 2 ^ 63" by blast
    have "(k + m) * lb_of fs \<le> obj_nlb fs ph * lb_of fs" using o(1) km(1,2) by (simp add: add_mult_distrib)
    then have "k + m \<le> obj_nlb fs ph" using lb(2) by simp
    moreover have "(Suc (unat (lr_elba r)) - unat (lr_slba r)) * lbsz X Data_dev \<le> length buf"
      using km(2-5) buf by (simp add: lb(1))
    ultimately show ?thesis using km o(3) by blast
  qed
  show "blk d' dv i = blk d dv i" if n: "\<not> (dv = Data_dev \<and> i \<in> obj_blocks fs ph ob)"
  proof (cases "d' = d")
    case False
    with key obtain k m dp where k: "k + m \<le> obj_nlb fs ph" "unat (lr_slba r) = obj_start fs ph ob + k" "0 < m"
      "unat (lr_elba r) = obj_start fs ph ob + k + m - 1" "unat (lr_elba r) < 2 ^ 63"
      "(Suc (unat (lr_elba r)) - unat (lr_slba r)) * lbsz X Data_dev \<le> length buf"
      "fla_xne_sync_seq_w_xneio X io (fs_dp fs) d = Some (err, dp, d')" by blast
    show ?thesis
      by (rule w_xneio_frame [OF lb(3) _ _ _ k(7)]) (use k n lb(4) in \<open>auto simp: io_def obj_blocks_def\<close>)
  qed simp
  assume e0: "err = 0"
  then have "\<not> (fs' = fs \<and> d' = d \<and> err = 1)" by simp
  from key [OF this] obtain k m dp where k: "unat off = k * lb_of fs" "unat len = m * lb_of fs" "0 < m" "k + m \<le> obj_nlb fs ph"
    "unat (lr_slba r) = obj_start fs ph ob + k" "unat (lr_elba r) = obj_start fs ph ob + k + m - 1" "unat (lr_elba r) < 2 ^ 63"
    "(Suc (unat (lr_elba r)) - unat (lr_slba r)) * lbsz X Data_dev \<le> length buf"
    "fla_xne_sync_seq_w_xneio X io (fs_dp fs) d = Some (err, dp, d')" by blast
  have "blk d' = (\<lambda>dv i. if dv = Data_dev \<and> unat (lr_slba r) \<le> i \<and> i \<le> unat (lr_elba r)
      then buf_block (lbsz X Data_dev) buf (i - unat (lr_slba r)) else blk d dv i)"
    using w_xneio_blocks [OF lb(3) _ _ _ k(9) [unfolded e0], unfolded io] lb(4) k(7,8) by blast
  then show "\<exists>k m. unat off = k * lb_of fs \<and> unat len = m * lb_of fs \<and> 0 < m \<and> k + m \<le> obj_nlb fs ph
       \<and> (\<forall>j<m. blk d' Data_dev (obj_start fs ph ob + k + j) = buf_block (lb_of fs) buf j)"
    using k lb(1) by (intro exI [of _ k] exI [of _ m]) auto
qed

lemma object_read_spec:
  assumes env: "data_env X blk fs" and ok: "obj_ok fs ph ob" and small: "unat off + unat len < 2 ^ 63"
    and buf: "unat len \<le> length buf"
  shows "\<exists>err buf'. fla_object_read X fs ph ob buf off len d = Some (err, buf') \<and> length buf' = length buf
    \<and> (obj_nlb fs ph * lb_of fs < unat off + unat len \<longrightarrow> err = 1 \<and> buf' = buf)
    \<and> (reliable X Data_dev \<and> unat off + unat len \<le> obj_nlb fs ph * lb_of fs
        \<and> (\<forall>w. unat w = obj_start fs ph ob * lb_of fs + unat off \<longrightarrow> lr_is_valid (x_range_from_offset X Data_dev w len)) \<longrightarrow> err = 0)
    \<and> (err = 0 \<longrightarrow> (\<exists>k m. unat off = k * lb_of fs \<and> unat len = m * lb_of fs
         \<and> (\<forall>j<m. buf_block (lb_of fs) buf' j = blk d Data_dev (obj_start fs ph ob + k + j))))"
proof -
  have lb: "lbsz X Data_dev = lb_of fs" "0 < lb_of fs" "storage X blk" "xfer_ok (x_geo X Data_dev)"
    using env by (simp_all add: data_env_def)
  from object_bounds_spec [OF env ok small] obtain w where
    b: "object_bounds fs ph ob off len = Some (c_bool (obj_nlb fs ph * lb_of fs < unat off + unat len), w)"
      "unat w = obj_start fs ph ob * lb_of fs + unat off" by blast
  have e: "rd (entries fs) (unat (ph_ndx ph)) = Some (entries fs ! unat (ph_ndx ph))" using ok by (simp add: obj_ok_def)
  define r where "r = x_range_from_offset X Data_dev w len"
  have R: "fla_object_read X fs ph ob buf off len d =
    (if obj_nlb fs ph * lb_of fs < unat off + unat len then Some (1, buf)
     else if \<not> lr_is_valid r then Some (1, buf) else fla_xne_sync_seq_r X r Data_dev d buf)"
    using e b(1) by (simp add: fla_object_read_def strp_branch_dead fla_xne_lba_range_from_offset_nbytes_def r_def
        fla_xne_sync_seq_r_xneio_def)
  show ?thesis
  proof (cases "obj_nlb fs ph * lb_of fs < unat off + unat len \<or> \<not> lr_is_valid r")
    case True
    then have "fla_object_read X fs ph ob buf off len d = Some (1, buf)" unfolding R by auto
    moreover have "\<not> (unat off + unat len \<le> obj_nlb fs ph * lb_of fs
        \<and> (\<forall>w. unat w = obj_start fs ph ob * lb_of fs + unat off \<longrightarrow> lr_is_valid (x_range_from_offset X Data_dev w len)))"
      using True b(2) by (auto simp: r_def)
    ultimately show ?thesis by auto
  next
    case False
    then have v: "lr_is_valid r" and le: "\<not> obj_nlb fs ph * lb_of fs < unat off + unat len" by auto
    from range_of_object [OF env v [unfolded r_def] b(2), folded r_def] obtain k m where
      km: "unat off = k * lb_of fs" "unat len = m * lb_of fs" "0 < m" "unat (lr_slba r) = obj_start fs ph ob + k"
      "unat (lr_elba r) = obj_start fs ph ob + k + m - 1" "unat (lr_elba r) < 2 ^ 63" by blast
    have len: "(Suc (unat (lr_elba r)) - unat (lr_slba r)) * lbsz X Data_dev \<le> length buf" using km(2-5) buf by (simp add: lb(1))
    from xne_r_loop_spec [OF lb(3,4) km(6) len, of "lr_slba r" 0 d] obtain err buf' where
      rd: "fla_xne_sync_seq_r X r Data_dev d buf = Some (err, buf')" "length buf' = length buf" "reliable X Data_dev \<longrightarrow> err = 0"
      and bl: "err = 0 \<longrightarrow> (\<forall>i. unat (lr_slba r) \<le> i \<and> i \<le> unat (lr_elba r) \<longrightarrow>
        buf_block (lbsz X Data_dev) buf' (i - unat (lr_slba r)) = blk d Data_dev i)"
      by (auto simp: fla_xne_sync_seq_r_def)
    have "buf_block (lb_of fs) buf' j = blk d Data_dev (obj_start fs ph ob + k + j)" if "err = 0" "j < m" for j
      using bl [rule_format, OF that(1), of "unat (lr_slba r) + j"] km(3-5) that(2) lb(1) by simp
    then show ?thesis using R v le rd km(1,2) by auto
  qed
qed

lemma object_write_returns:
  assumes env: "data_env X blk fs" and ok: "obj_ok fs ph ob" and small: "unat off + unat len < 2 ^ 63"
    and buf: "unat len \<le> length buf" and prep: "dp_prep (fs_dp fs) \<in> {None, Some Prep_noop}"
  shows "\<exists>err d'. fla_object_write X fs ph ob buf off len d = Some (err, fs, d')
    \<and> (reliable X Data_dev \<and> unat off + unat len \<le> obj_nlb fs ph * lb_of fs
        \<and> (\<forall>w. unat w = obj_start fs ph ob * lb_of fs + unat off \<longrightarrow> lr_is_valid (x_range_from_offset X Data_dev w len)) \<longrightarrow> err = 0)"
proof -
  have lb: "lbsz X Data_dev = lb_of fs" "storage X blk" "xfer_ok (x_geo X Data_dev)" using env by (simp_all add: data_env_def)
  from object_bounds_spec [OF env ok small] obtain w where
    b: "object_bounds fs ph ob off len = Some (c_bool (obj_nlb fs ph * lb_of fs < unat off + unat len), w)"
      "unat w = obj_start fs ph ob * lb_of fs + unat off" by blast
  have e: "rd (entries fs) (unat (ph_ndx ph)) = Some (entries fs ! unat (ph_ndx ph))" using ok by (simp add: obj_ok_def)
  define r where "r = x_range_from_offset X Data_dev w len"
  have W: "fla_object_write X fs ph ob buf off len d =
    (if obj_nlb fs ph * lb_of fs < unat off + unat len \<or> \<not> lr_is_valid r then Some (1, fs, d)
     else map_option (\<lambda>(err, d). (err, fs, d)) (fla_xne_sync_seq_w X r Data_dev (x_ctx_from_dev X Data_dev) buf d))"
    using e b(1) prep
    by (auto simp: fla_object_write_def strp_branch_dead fla_xne_lba_range_from_offset_nbytes_def r_def Let_def w_xneio_plain
        map_option_case split: option.split)
  show ?thesis
  proof (cases "obj_nlb fs ph * lb_of fs < unat off + unat len \<or> \<not> lr_is_valid r")
    case True
    then have "fla_object_write X fs ph ob buf off len d = Some (1, fs, d)" using W by simp
    then show ?thesis using True b(2) unfolding r_def by auto
  next
    case False
    then have v: "lr_is_valid r" by simp
    from range_of_object [OF env v [unfolded r_def] b(2), folded r_def] obtain k m where
      km: "unat len = m * lb_of fs" "0 < m" "unat (lr_slba r) = obj_start fs ph ob + k"
      "unat (lr_elba r) = obj_start fs ph ob + k + m - 1" "unat (lr_elba r) < 2 ^ 63" by blast
    have "(Suc (unat (lr_elba r)) - unat (lr_slba r)) * lbsz X Data_dev \<le> length buf" using km buf by (simp add: lb(1))
    from seq_w_blocks [OF lb(2,3) km(5) this, of "x_ctx_from_dev X Data_dev" d] show ?thesis using W False by auto
  qed
qed

section \<open>Properties\<close>

text \<open>An object of 60 blocks on the device in memory.\<close>

definition xfer_example :: flexalloc where
  "xfer_example = alloc_example\<lparr>fs_dev := \<lparr>dv_md_dev = False, dv_lb_nbytes = 512\<rparr>\<rparr>"

definition object_example :: fla_object where
  "object_example = \<lparr>ob_slab_id = 1, ob_entry_ndx = 2\<rparr>"

lemma xfer_example_fields:
  "fs_geo xfer_example = geo_example" "\<not> dv_md_dev (fs_dev xfer_example)" "dv_lb_nbytes (fs_dev xfer_example) = 512"
  "cs_t (fs_cs xfer_example) = FLA_CS_CNS" "dp_prep (fs_dp xfer_example) = None" "lb_of xfer_example = 512"
  "obj_nlb xfer_example handle_example = 60"
  by (simp_all add: xfer_example_def alloc_example_same cache_example_fields)
    (simp_all add: alloc_example_def cache_example_def fs_example_def fs_zero_def handle_example_def)

lemma md_blocks_example: "md_blocks geo_example = 5"
  by (simp add: md_blocks_def geo_example_def fla_geo_pool_sgmt_nblocks_def fla_geo_slab_sgmt_nblocks_def)

lemma xfer_example_env: "data_env mem_xnvme mem_blk xfer_example"
proof -
  have "lbsz mem_xnvme Data_dev = 512" by (simp add: mem_xnvme_def mem_geo_def)
  then show ?thesis
    using mem_storage mem_ranges mem_xfer_ok [of Data_dev] md_blocks_example
    by (simp add: data_env_def xfer_example_fields cache_example_fields)
qed

lemma xfer_example_ok: "obj_ok xfer_example handle_example object_example"
  by (simp add: obj_ok_def xfer_example_def alloc_example_def handle_example_def object_example_def get_fnc_def
      cache_example_fields)

lemma xfer_example_start: "obj_start xfer_example handle_example object_example = 325"
  using md_blocks_example xfer_example_fields(7)
  by (simp add: obj_start_def slab_start_def xfer_example_fields object_example_def cache_example_fields)

lemma xfer_example_valid:
  assumes "unat w = obj_start xfer_example handle_example object_example * lb_of xfer_example + unat (512 :: u64)"
  shows "lr_is_valid (x_range_from_offset mem_xnvme Data_dev w 1024)"
proof -
  have "w = 166912" using assms unat_neq [of w 166912] by (simp add: xfer_example_start xfer_example_fields cache_example_fields)
  then show ?thesis by (simp add: mem_xnvme_def mem_range_def)
qed

lemma xfer_example_write:
  "\<exists>d'. fla_object_write mem_xnvme xfer_example handle_example object_example (replicate 1024 7) 512 1024 (\<lambda>_ _. [])
    = Some (0, xfer_example, d')"
  using object_write_returns [OF xfer_example_env xfer_example_ok, of 512 1024 "replicate 1024 7" "\<lambda>_ _. []"]
    xfer_example_fields(5-7) mem_reliable [of Data_dev] xfer_example_valid by auto

text \<open>
  C29: On a device without data placement every read and every write of an object returns, for any offset
  and length whose sum is below \<open>2^63\<close>, whatever errors the device reports; when the device does not fail and the range lies in
  the object and on block boundaries, both return 0.
\<close>

theorem fla_object_xfer_returns:
  assumes "data_env X blk fs" "obj_ok fs ph ob" "unat off + unat len < 2 ^ 63" "unat len \<le> length buf"
    "dp_prep (fs_dp fs) \<in> {None, Some Prep_noop}"
  shows "\<exists>werr d' rerr buf'. fla_object_write X fs ph ob buf off len d = Some (werr, fs, d')
    \<and> fla_object_read X fs ph ob buf off len d = Some (rerr, buf')
    \<and> (reliable X Data_dev \<and> unat off + unat len \<le> obj_nlb fs ph * lb_of fs
        \<and> (\<forall>w. unat w = obj_start fs ph ob * lb_of fs + unat off \<longrightarrow> lr_is_valid (x_range_from_offset X Data_dev w len))
        \<longrightarrow> werr = 0 \<and> rerr = 0)"
  using object_write_returns [OF assms, of d] object_read_spec [OF assms(1-4), of d] by blast

theorem fla_object_xfer_returns_witness:
  "\<exists>d' buf'. fla_object_write mem_xnvme xfer_example handle_example object_example (replicate 1024 7) 512 1024 (\<lambda>_ _. [])
      = Some (0, xfer_example, d')
    \<and> fla_object_read mem_xnvme xfer_example handle_example object_example (replicate 1024 7) 512 1024 (\<lambda>_ _. []) = Some (0, buf')"
  using fla_object_xfer_returns [OF xfer_example_env xfer_example_ok, of 512 1024 "replicate 1024 7" "\<lambda>_ _. []"]
    xfer_example_fields(5-7) mem_reliable [of Data_dev] xfer_example_valid by auto

lemma buf_blocks_eq:
  assumes "0 < sz" "\<And>j. j < m \<Longrightarrow> buf_block sz a j = buf_block sz b j" "m * sz \<le> length a" "m * sz \<le> length b"
  shows "take (m * sz) a = take (m * sz) b"
proof (rule nth_equalityI)
  fix i assume "i < length (take (m * sz) a)"
  then have i: "i < m * sz" by simp
  define j where "j = i div sz"
  have j: "j < m" "i = j * sz + i mod sz" "i mod sz < sz" using i assms(1) by (simp_all add: j_def div_less_iff_less_mult)
  have nth: "x ! i = buf_block sz x j ! (i mod sz)" if "m * sz \<le> length x" for x :: "u8 list"
  proof -
    have "j * sz \<le> length x" using j(2) i that by linarith
    then show ?thesis using j(2,3) by (simp add: buf_block_def)
  qed
  show "take (m * sz) a ! i = take (m * sz) b ! i" using nth [OF assms(3)] nth [OF assms(4)] assms(2) [OF j(1)] i by simp
qed (use assms(3,4) in simp)

lemma data_env_dp [simp]: "data_env X blk (fs\<lparr>fs_dp := dp\<rparr>) = data_env X blk fs"
  by (simp add: data_env_def)

lemma obj_ok_dp [simp]: "obj_ok (fs\<lparr>fs_dp := dp\<rparr>) ph ob = obj_ok fs ph ob"
  "obj_start (fs\<lparr>fs_dp := dp\<rparr>) ph ob = obj_start fs ph ob"
  by (simp_all add: obj_ok_def obj_start_def slab_start_def get_fnc_def)

text \<open>
  C4: What was written to an object is read back: when a write of a range of an object returned 0, a
  read of the same range on the device as the write left it returns, and when it returns 0 the
  buffer holds the bytes that were written.
\<close>

theorem fla_object_write_read:
  assumes "data_env X blk fs" "obj_ok fs ph ob" "unat off + unat len < 2 ^ 63" "unat len \<le> length buf" "unat len \<le> length rbuf"
    "fla_object_write X fs ph ob buf off len d = Some (0, fs', d')"
  shows "\<exists>err rbuf'. fla_object_read X fs' ph ob rbuf off len d' = Some (err, rbuf') \<and> length rbuf' = length rbuf
    \<and> (err = 0 \<longrightarrow> take (unat len) rbuf' = take (unat len) buf)"
proof -
  have lb: "0 < lb_of fs" using assms(1) by (simp add: data_env_def)
  note w = object_write_spec [OF assms(1-4,6)]
  from w(1) obtain dp where fs': "fs' = fs\<lparr>fs_dp := dp\<rparr>" by blast
  from w(4) obtain k m where km: "unat off = k * lb_of fs" "unat len = m * lb_of fs"
    "\<forall>j<m. blk d' Data_dev (obj_start fs ph ob + k + j) = buf_block (lb_of fs) buf j" by blast
  have env': "data_env X blk fs'" "obj_ok fs' ph ob" "obj_start fs' ph ob = obj_start fs ph ob" "lb_of fs' = lb_of fs"
    using assms(1,2) by (simp_all add: fs')
  from object_read_spec [OF env'(1,2) assms(3,5), of d'] obtain err rbuf' where
    r: "fla_object_read X fs' ph ob rbuf off len d' = Some (err, rbuf')" "length rbuf' = length rbuf"
    and rb: "err = 0 \<longrightarrow> (\<exists>k m. unat off = k * lb_of fs \<and> unat len = m * lb_of fs
      \<and> (\<forall>j<m. buf_block (lb_of fs) rbuf' j = blk d' Data_dev (obj_start fs ph ob + k + j)))"
    unfolding env'(3,4) by blast
  have "take (unat len) rbuf' = take (unat len) buf" if "err = 0"
  proof -
    from rb that obtain k' m' where r': "unat off = k' * lb_of fs" "unat len = m' * lb_of fs"
      "\<forall>j<m'. buf_block (lb_of fs) rbuf' j = blk d' Data_dev (obj_start fs ph ob + k' + j)" by blast
    have "k' = k" "m' = m" using r'(1,2) km(1,2) lb by auto
    then have "\<And>j. j < m \<Longrightarrow> buf_block (lb_of fs) rbuf' j = buf_block (lb_of fs) buf j" using r'(3) km(3) by simp
    from buf_blocks_eq [OF lb this] show ?thesis using km(2) r(2) assms(4,5) by simp
  qed
  then show ?thesis using r by blast
qed

theorem fla_object_write_read_witness:
  "\<exists>d' rbuf'. fla_object_write mem_xnvme xfer_example handle_example object_example (replicate 1024 7) 512 1024 (\<lambda>_ _. [])
      = Some (0, xfer_example, d')
    \<and> fla_object_read mem_xnvme xfer_example handle_example object_example (replicate 1024 0) 512 1024 d' = Some (0, rbuf')
    \<and> take 1024 rbuf' = replicate 1024 7"
proof -
  from xfer_example_write obtain d' where
    w: "fla_object_write mem_xnvme xfer_example handle_example object_example (replicate 1024 7) 512 1024 (\<lambda>_ _. [])
      = Some (0, xfer_example, d')" by blast
  obtain buf' where "fla_object_read mem_xnvme xfer_example handle_example object_example (replicate 1024 0) 512 1024 d' = Some (0, buf')"
    using object_read_spec [OF xfer_example_env xfer_example_ok, of 512 1024 "replicate 1024 0" d'] xfer_example_fields(6,7)
      mem_reliable [of Data_dev] xfer_example_valid by auto
  then show ?thesis
    using fla_object_write_read [OF xfer_example_env xfer_example_ok _ _ _ w, of "replicate 1024 0"] w by auto
qed

text \<open>
  C12: A write to an object, whether it succeeds or fails, with an offset and a length whose sum is below
  \<open>2^63\<close> (larger sums can wrap around, see \<open>object_bounds_wraps\<close>), changes no block but those of the
  object. So it changes no block of another object of the pool, none of the metadata at the start of the
  device, none of a separate metadata device, none of any other slab, and, when the objects of the pool
  leave room for it, none of the freelist of its own slab. Of the file system it changes only the
  state of data placement.
\<close>

theorem fla_object_write_isolated:
  assumes "data_env X blk fs" "obj_ok fs ph ob" "unat off + unat len < 2 ^ 63" "unat len \<le> length buf"
    "fla_object_write X fs ph ob buf off len d = Some (err, fs', d')"
  shows "(\<forall>dv i. \<not> (dv = Data_dev \<and> i \<in> obj_blocks fs ph ob) \<longrightarrow> blk d' dv i = blk d dv i)
    \<and> (\<forall>ob' i. obj_ok fs ph ob' \<and> ob' \<noteq> ob \<and> i \<in> obj_blocks fs ph ob' \<longrightarrow> blk d' Data_dev i = blk d Data_dev i)
    \<and> (\<forall>i < (if dv_md_dev (fs_dev fs) then 0 else md_blocks (fs_geo fs)). blk d' Data_dev i = blk d Data_dev i)
    \<and> (\<forall>i. blk d' Md_dev i = blk d Md_dev i)
    \<and> (\<forall>j i. j \<noteq> unat (ob_slab_id ob) \<and> i \<in> {slab_start fs j..<slab_start fs j + unat (g_slab_nlb (fs_geo fs))}
          \<longrightarrow> blk d' Data_dev i = blk d Data_dev i)
    \<and> (\<forall>n i. unat (pe_slab_nobj (entries fs ! unat (ph_ndx ph))) * obj_nlb fs ph + n \<le> unat (g_slab_nlb (fs_geo fs))
          \<and> i \<in> {flist_slot fs (unat (ob_slab_id ob)) n..<flist_slot fs (unat (ob_slab_id ob)) n + n}
          \<longrightarrow> blk d' (cache_dev fs) i = blk d (cache_dev fs) i)
    \<and> (\<exists>dp. fs' = fs\<lparr>fs_dp := dp\<rparr>)"
proof -
  note w = object_write_spec [OF assms]
  have "blk d' Data_dev i = blk d Data_dev i" if "obj_ok fs ph ob'" "ob' \<noteq> ob" "i \<in> obj_blocks fs ph ob'" for ob' i
    using objects_apart [OF assms(2) that(1)] that(2,3) w(2) [of Data_dev i] by blast
  moreover have "blk d' Data_dev i = blk d Data_dev i" if "i < (if dv_md_dev (fs_dev fs) then 0 else md_blocks (fs_geo fs))" for i
    using that by (intro w(2)) (auto simp: obj_blocks_def obj_start_def slab_start_def split: if_splits)
  moreover have "blk d' Md_dev i = blk d Md_dev i" for i by (rule w(2)) simp
  moreover have "blk d' Data_dev i = blk d Data_dev i"
    if "j \<noteq> unat (ob_slab_id ob)" "i \<in> {slab_start fs j..<slab_start fs j + unat (g_slab_nlb (fs_geo fs))}" for j i
    using slabs_apart [OF that(1), of fs] that(2) obj_blocks_in_slab [OF assms(2)] by (intro w(2)) blast
  moreover have "blk d' (cache_dev fs) i = blk d (cache_dev fs) i"
    if "unat (pe_slab_nobj (entries fs ! unat (ph_ndx ph))) * obj_nlb fs ph + n \<le> unat (g_slab_nlb (fs_geo fs))"
      "i \<in> {flist_slot fs (unat (ob_slab_id ob)) n..<flist_slot fs (unat (ob_slab_id ob)) n + n}" for n i
    using object_own_slot [OF assms(2) that] by (intro w(2)) simp
  ultimately show ?thesis using w(1,2) by blast
qed

theorem fla_object_write_isolated_witness:
  "\<exists>d'. fla_object_write mem_xnvme xfer_example handle_example object_example (replicate 1024 7) 512 1024 (\<lambda>_ _. [])
      = Some (0, xfer_example, d')
    \<and> (\<forall>i. i \<in> obj_blocks xfer_example handle_example \<lparr>ob_slab_id = 1, ob_entry_ndx = 1\<rparr> \<longrightarrow>
         mem_blk d' Data_dev i = mem_blk (\<lambda>_ _. []) Data_dev i)"
proof -
  from xfer_example_write obtain d' where
    w: "fla_object_write mem_xnvme xfer_example handle_example object_example (replicate 1024 7) 512 1024 (\<lambda>_ _. [])
      = Some (0, xfer_example, d')" by blast
  have "obj_ok xfer_example handle_example \<lparr>ob_slab_id = 1, ob_entry_ndx = 1\<rparr>" using xfer_example_ok
    by (simp add: obj_ok_def object_example_def)
  moreover have "\<lparr>ob_slab_id = 1, ob_entry_ndx = 1\<rparr> \<noteq> object_example" by (simp add: object_example_def)
  ultimately show ?thesis
    using fla_object_write_isolated [OF xfer_example_env xfer_example_ok _ _ w] w by auto
qed



text \<open>
  A negative offset passes the check when the sum wraps around: the last 512 bytes before the object
  are accepted as a part of it, and a write goes there.
\<close>

lemma object_bounds_wraps:
  assumes "data_env X blk fs" "obj_ok fs ph ob" "512 \<le> obj_byte fs ph ob"
  shows "object_bounds fs ph ob (- 512) 512 = Some (0, of_nat (obj_byte fs ph ob - 512))"
proof -
  note x = object_bounds_exact [OF assms(1,2)]
  have m: "unat (- 512 :: u64) = 2 ^ 64 - 512" by simp
  have "(obj_byte fs ph ob + unat (- 512 :: u64) + unat (512 :: u64)) mod 2 ^ 64 = obj_byte fs ph ob mod 2 ^ 64"
    by (simp add: m)
  also have "\<dots> = obj_byte fs ph ob" using x(2,3) by simp
  finally show ?thesis using x(1) [of "- 512" 512] x(2) assms(3) by (simp add: of_nat_diff)
qed

end
