(* ===== verification/Fla_Mm.thy ===== *)
theory Fla_Mm
  imports Fla_Layout Fla_Transfer
begin

text \<open>
  Formatting, opening, synchronising and closing a file system: \<open>fla_mkfs\<close>, \<open>fla_open\<close>,
  \<open>fla_flush\<close>, \<open>fla_base_close\<close> and what they call in \<open>src/src/flexalloc_mm.c\<close>, with the
  functions of \<open>flexalloc_xnvme_env.c\<close> that open a device and read its geometry.

  \<open>fla_open\<close> gives the file system together with the bytes of its metadata buffer: the fields of
  the structures have the values that the structures have, and the other bytes are what the device
  held. A path on which the code frees memory twice has no result.
\<close>

section \<open>Definitions\<close>

definition FLA_MAGIC :: u64 where
  "FLA_MAGIC = 0x00534621"

definition FLA_FMT_VER :: u8 where
  "FLA_FMT_VER = 1"

definition FLA_SUPER_SLBA :: u64 where
  "FLA_SUPER_SLBA = 0"

definition FLA_STATE_OPEN :: u32 where
  "FLA_STATE_OPEN = 1"

definition FLA_MDTS_MIN_NBYTES :: u32 where
  "FLA_MDTS_MIN_NBYTES = 512"

text \<open>The parameters of \<open>fla_mkfs\<close>; \<open>mp_md_dev_uri\<close> is whether a metadata device is named.\<close>

record fla_mkfs_p =
  mp_md_dev_uri :: bool
  mp_slab_nlb :: u32
  mp_npools :: u32

definition fla_xne_alloc_buf :: "'d xnvme \<Rightarrow> xdev \<Rightarrow> u64 \<Rightarrow> u8 list option" where
  "fla_xne_alloc_buf X dev nbytes = x_buf_alloc X dev nbytes"

definition fla_xne_dev_tbytes :: "'d xnvme \<Rightarrow> xdev \<Rightarrow> u64" where
  "fla_xne_dev_tbytes X dev = xg_tbytes (x_geo X dev)"

definition fla_xne_dev_lba_nbytes :: "'d xnvme \<Rightarrow> xdev \<Rightarrow> u32" where
  "fla_xne_dev_lba_nbytes X dev = xg_lba_nbytes (x_geo X dev)"

definition fla_xne_dev_type :: "'d xnvme \<Rightarrow> xdev \<Rightarrow> xnvme_geo_type" where
  "fla_xne_dev_type X dev = xg_type (x_geo X dev)"

definition fla_xne_dev_mdts_nbytes :: "'d xnvme \<Rightarrow> xdev \<Rightarrow> u32" where
  "fla_xne_dev_mdts_nbytes X dev = xg_mdts_nbytes (x_geo X dev)"

definition fla_xne_dev_open :: "'d xnvme \<Rightarrow> xdev \<Rightarrow> int" where
  "fla_xne_dev_open X dev = (if \<not> x_dev_open X dev then 1001 else 0)"

definition fla_xne_dev_mkfs_prepare :: "'d xnvme \<Rightarrow> bool \<Rightarrow> 'd \<Rightarrow> int \<times> xdev option \<times> 'd" where
  "fla_xne_dev_mkfs_prepare X md_dev_uri d =
     (if md_dev_uri
      then let (err, d) = (if fla_xne_dev_type X Data_dev = XNVME_GEO_ZONED
                           then fla_xne_dev_znd_send_mgmt X Data_dev 0 ZND_SEND_RESET True d else (0, d))
           in if err \<noteq> 0 then (err, None, d)
              else if fla_xne_dev_open X Md_dev \<noteq> 0 then (-1, None, d)
              else (0, Some Md_dev, d)
      else (0, None, d))"

definition fla_dev_sanity_check :: "'d xnvme \<Rightarrow> xdev option \<Rightarrow> int" where
  "fla_dev_sanity_check X md_dev =
     c_bool (fla_xne_dev_mdts_nbytes X Data_dev \<le> FLA_MDTS_MIN_NBYTES
       \<or> (case md_dev of None \<Rightarrow> False
          | Some md \<Rightarrow> fla_xne_dev_mdts_nbytes X md \<le> FLA_MDTS_MIN_NBYTES
              \<or> fla_xne_dev_lba_nbytes X md \<noteq> fla_xne_dev_lba_nbytes X Data_dev))"

text \<open>
  \<open>fla_mkfs_slab_sgmt_init\<close> computes the size of the slab segment with 64 bits and \<open>fla_init\<close>
  with 32; where they differ the words at the end of the segment are not those that
  \<open>fla_init\<close> finds, and the model has no result.
\<close>

definition slab_header_zero :: fla_slab_header where
  "slab_header_zero = \<lparr>sh_pool = 0, sh_prev = 0, sh_next = 0, sh_refcount = 0\<rparr>"

fun link_slabs :: "fla_slab_header list \<Rightarrow> u32 \<Rightarrow> nat \<Rightarrow> fla_slab_header list option" where
  "link_slabs H slab_id 0 = Some H"
| "link_slabs H slab_id (Suc left) = do {
     h \<leftarrow> rd H (unat slab_id);
     H \<leftarrow> wr H (unat slab_id) (h\<lparr>sh_next := slab_id + 1, sh_prev := slab_id - 1\<rparr>);
     link_slabs H (slab_id + 1) left
   }"

definition fla_mkfs_slab_sgmt_init :: "flexalloc \<Rightarrow> fla_geo \<Rightarrow> flexalloc option" where
  "fla_mkfs_slab_sgmt_init fs geo =
     (if ucast (g_lb_nbytes geo) * ucast (gs_slab_sgmt_nlb (g_slab_sgmt geo))
         \<noteq> (ucast (gs_slab_sgmt_nlb (g_slab_sgmt geo) * g_lb_nbytes geo) :: u64) then None
      else do {
        let last_slab_id = g_nslabs geo - 1;
        let first_slab_id = 0;
        let H = map (\<lambda>_. slab_header_zero) (sl_headers (fs_slabs fs));
        h \<leftarrow> rd H (unat first_slab_id);
        H \<leftarrow> wr H (unat first_slab_id) (h\<lparr>sh_next := first_slab_id + 1, sh_prev := FLA_LINKED_LIST_NULL\<rparr>);
        h \<leftarrow> rd H (unat last_slab_id);
        H \<leftarrow> wr H (unat last_slab_id) (h\<lparr>sh_next := FLA_LINKED_LIST_NULL, sh_prev := last_slab_id - 1\<rparr>);
        H \<leftarrow> link_slabs H 1 (unat last_slab_id - 1);
        Some (fs\<lparr>fs_slabs := \<lparr>sl_headers = H, sl_fslab_num = g_nslabs geo, sl_fslab_head = first_slab_id,
          sl_fslab_tail = last_slab_id\<rparr>\<rparr>)
      })"

definition fla_mkfs_super_init :: "flexalloc \<Rightarrow> fla_geo \<Rightarrow> flexalloc" where
  "fla_mkfs_super_init fs geo = fs\<lparr>fs_super := \<lparr>su_magic = FLA_MAGIC, su_nslabs = g_nslabs geo,
     su_slab_nlb = g_slab_nlb geo, su_npools = g_npools geo, su_md_nlb = g_md_nlb geo,
     su_fmt_version = FLA_FMT_VER\<rparr>\<rparr>"

definition fla_init :: "'d xnvme \<Rightarrow> fla_geo \<Rightarrow> bool \<Rightarrow> u8 list \<Rightarrow> flexalloc \<Rightarrow> 'd \<Rightarrow> (int \<times> flexalloc) option" where
  "fla_init X geo md_dev buf fs d =
     (if \<not> md_in geo buf then None
      else do {
        let fs = fs\<lparr>fs_dev := \<lparr>dv_md_dev = md_dev, dv_lb_nbytes = fla_xne_dev_lba_nbytes X Data_dev\<rparr>,
                    fs_geo := geo, fs_super := super_of (part 0 32 buf),
                    fs_pools := md_pools geo buf (fs_pools fs)\<rparr>;
        (err, fs) \<leftarrow> fla_pool_init X fs geo;
        if err \<noteq> 0 then Some (err, fs)
        else do {
          let fs = fs\<lparr>fs_slabs := md_slabs geo buf\<rparr>;
          (err, fs) \<leftarrow> fla_init_dp X d fs;
          if err \<noteq> 0 then Some (err, fs)
          else Some (fla_init_cs (x_geo X Data_dev) (x_malloc X Malloc_zns) fs)
        }
      })"

text \<open>\<open>fla_mkfs\<close>, after the devices are opened; \<open>geo0\<close> is the uninitialised local structure.\<close>

definition mkfs_write :: "'d xnvme \<Rightarrow> fla_geo \<Rightarrow> xdev \<Rightarrow> u8 list \<Rightarrow> 'd \<Rightarrow> (int \<times> 'd) option" where
  "mkfs_write X geo md_dev buf d = do {
     (err, fs) \<leftarrow> fla_init X geo False buf fs_zero d;
     if err \<noteq> 0 then Some (err, d)
     else do {
       fs \<leftarrow> fla_mkfs_pool_sgmt_init fs geo;
       fs \<leftarrow> fla_mkfs_slab_sgmt_init fs geo;
       let fs = fla_mkfs_super_init fs geo;
       let lrange = fla_xne_lba_range_from_offset_nbytes X md_dev FLA_SUPER_SLBA (fla_geo_nbytes geo);
       if \<not> lr_is_valid lrange then Some (1, d)
       else do {
         let io = \<lparr>xi_io_type = FLA_IO_MD_WRITE, xi_dev = md_dev, xi_buf = md_bytes fs buf, xi_lba_range = lrange,
                   xi_pool_handle = None, xi_obj_handle = None, xi_prep_ctx = dp_prep (fs_dp fs)\<rparr>;
         (err, dp, d) \<leftarrow> fla_xne_sync_seq_w_xneio X io (fs_dp fs) d;
         Some (err, d)
       }
     }
   }"

definition fla_mkfs :: "'d xnvme \<Rightarrow> fla_mkfs_p \<Rightarrow> fla_geo \<Rightarrow> 'd \<Rightarrow> (int \<times> 'd) option" where
  "fla_mkfs X p geo0 d =
     (if fla_xne_dev_open X Data_dev \<noteq> 0 then Some (-1, d)
      else let (err, md_dev, d) = fla_xne_dev_mkfs_prepare X (mp_md_dev_uri p) d
      in if err \<noteq> 0 then Some (err, d)
      else if fla_dev_sanity_check X md_dev \<noteq> 0 then Some (fla_dev_sanity_check X md_dev, d)
      else do {
        (err, geo) \<leftarrow> fla_mkfs_geo_calc (x_geo X Data_dev) (md_dev \<noteq> None) (mp_npools p) (mp_slab_nlb p) geo0;
        if err \<noteq> 0 then Some (err, d)
        else let md_dev = (case md_dev of None \<Rightarrow> Data_dev | Some md \<Rightarrow> md)
        in if \<not> x_malloc X Malloc_fs then Some (- ENOMEM, d)
        else (case fla_xne_alloc_buf X md_dev (fla_geo_nbytes geo) of
                None \<Rightarrow> Some (- ENOMEM, d)
              | Some buf \<Rightarrow> mkfs_write X geo md_dev (map (\<lambda>_. 0) buf) d)
      })"

definition fla_super_read :: "'d xnvme \<Rightarrow> xdev \<Rightarrow> u32 \<Rightarrow> 'd \<Rightarrow> (int \<times> fla_super option) option" where
  "fla_super_read X dev lb_nbytes d =
     (case fla_xne_alloc_buf X dev (ucast lb_nbytes) of
        None \<Rightarrow> Some (- ENOMEM, None)
      | Some buf \<Rightarrow>
          let lrange = fla_xne_lba_range_from_offset_nbytes X dev 0 (ucast lb_nbytes)
          in if \<not> lr_is_valid lrange then Some (1, None)
             else do {
               (err, buf) \<leftarrow> fla_xne_sync_seq_r_xneio X lrange dev d (map (\<lambda>_. 0) buf);
               if err \<noteq> 0 then Some (err, None)
               else if length buf < 32 then None
               else let super = super_of (part 0 32 buf)
                    in if su_magic super \<noteq> FLA_MAGIC then Some (22, None) else Some (0, Some super)
             })"

definition fla_flush :: "'d xnvme \<Rightarrow> flexalloc \<Rightarrow> u8 list \<Rightarrow> 'd \<Rightarrow> (int \<times> flexalloc \<times> 'd) option" where
  "fla_flush X fs buf d =
     (if fs_state fs AND FLA_STATE_OPEN = 0 then Some (0, fs, d)
      else do {
        (err, fs, d) \<leftarrow> fla_slab_cache_flush X fs d;
        if err \<noteq> 0 then Some (err, fs, d)
        else do {
          let p = fs_pools fs;
          let fs = set_pools fs (p\<lparr>po_htbl_hdr := (po_htbl_hdr p)\<lparr>hh_len := ht_len (po_htbl p)\<rparr>\<rparr>);
          let lrange = fla_xne_lba_range_from_slba_naddrs X (cache_dev fs) FLA_SUPER_SLBA (ucast (fla_geo_nblocks (fs_geo fs)));
          if \<not> lr_is_valid lrange then Some (1, fs, d)
          else do {
            let io = \<lparr>xi_io_type = FLA_IO_DATA_WRITE, xi_dev = cache_dev fs, xi_buf = md_bytes fs buf, xi_lba_range = lrange,
                      xi_pool_handle = None, xi_obj_handle = None, xi_prep_ctx = None\<rparr>;
            (err, dp, d) \<leftarrow> fla_xne_sync_seq_w_xneio X io (fs_dp fs) d;
            Some (err, fs\<lparr>fs_dp := dp\<rparr>, d)
          }
        }
      })"

text \<open>\<open>fla_close_noflush\<close>: the structure as it is when it is freed.\<close>

definition fla_close_noflush :: "flexalloc \<Rightarrow> flexalloc option" where
  "fla_close_noflush fs =
     (if fs_state fs AND FLA_STATE_OPEN = 0 then Some fs
      else fla_slab_cache_free (fs\<lparr>fs_state := fs_state fs AND NOT FLA_STATE_OPEN,
             fs_cs := (fs_cs fs)\<lparr>cs_zns := None\<rparr>, fs_dp := (fs_dp fs)\<lparr>dp_fdp := None\<rparr>\<rparr>))"

definition fla_base_close :: "'d xnvme \<Rightarrow> flexalloc \<Rightarrow> u8 list \<Rightarrow> 'd \<Rightarrow> (int \<times> flexalloc \<times> 'd) option" where
  "fla_base_close X fs buf d = do {
     (err, fs, d) \<leftarrow> fla_flush X fs buf d;
     if err \<noteq> 0 then Some (err, fs, d)
     else do {
       fs \<leftarrow> fla_close_noflush fs;
       Some (0, fs, d)
     }
   }"

definition fla_base_sync :: "'d xnvme \<Rightarrow> flexalloc \<Rightarrow> u8 list \<Rightarrow> 'd \<Rightarrow> (int \<times> flexalloc \<times> 'd) option" where
  "fla_base_sync X fs buf d = fla_flush X fs buf d"

text \<open>\<open>fla_open\<close>; \<open>md_dev_uri\<close> is whether a metadata device is named.\<close>

definition open_init :: "'d xnvme \<Rightarrow> bool \<Rightarrow> fla_geo \<Rightarrow> u8 list \<Rightarrow> 'd \<Rightarrow> (int \<times> (flexalloc \<times> u8 list) option) option" where
  "open_init X md_dev_uri geo buf d = do {
     (err, fs) \<leftarrow> fla_init X geo md_dev_uri buf fs_zero d;
     if err \<noteq> 0 then Some (err, None)
     else let (err, fs) = fla_slab_cache_init X fs
     in if err \<noteq> 0 then Some (err, None)
     else if \<not> x_malloc X Malloc_dev_uri then None
     else if md_dev_uri \<and> \<not> x_malloc X Malloc_md_dev_uri then None
     else Some (0, Some (fs\<lparr>fs_state := fs_state fs OR FLA_STATE_OPEN\<rparr>, buf))
   }"

definition fla_open :: "'d xnvme \<Rightarrow> bool \<Rightarrow> 'd \<Rightarrow> (int \<times> (flexalloc \<times> u8 list) option) option" where
  "fla_open X md_dev_uri d =
     (let md_dev = (if md_dev_uri then Md_dev else Data_dev)
      in if fla_fs_alloc (x_malloc X Malloc_fs) = None then Some (- ENOMEM, None)
      else if fla_xne_dev_open X Data_dev \<noteq> 0 then Some (fla_xne_dev_open X Data_dev, None)
      else if md_dev_uri \<and> fla_xne_dev_open X Md_dev \<noteq> 0 then Some (fla_xne_dev_open X Md_dev, None)
      else if fla_dev_sanity_check X (Some md_dev) \<noteq> 0 then Some (fla_dev_sanity_check X (Some md_dev), None)
      else do {
        (err, super) \<leftarrow> fla_super_read X md_dev (fla_xne_dev_lba_nbytes X Data_dev) d;
        if err \<noteq> 0 then Some (err, None)
        else do {
          super \<leftarrow> super;
          let geo = fla_geo_from_super (x_geo X Data_dev) super;
          (case fla_xne_alloc_buf X md_dev (fla_geo_nbytes geo) of
             None \<Rightarrow> Some (- ENOMEM, None)
           | Some buf \<Rightarrow>
               let lrange = fla_xne_lba_range_from_offset_nbytes X md_dev 0 (fla_geo_nbytes geo)
               in if \<not> lr_is_valid lrange then Some (1, None)
                  else do {
                    (err, buf) \<leftarrow> fla_xne_sync_seq_r_xneio X lrange md_dev d (map (\<lambda>_. 0) buf);
                    if err \<noteq> 0 then Some (err, None) else open_init X md_dev_uri geo buf d
                  })
        }
      })"

section \<open>A new slab segment\<close>

lemma word_eq_of_nat: "unat w = n \<Longrightarrow> w = of_nat n"
  by auto

lemma of_nat_u32_inj: "a < 2 ^ 31 \<Longrightarrow> b < 2 ^ 31 \<Longrightarrow> of_nat a = (of_nat b :: u32) \<Longrightarrow> a = b"
proof -
  assume lt: "a < 2 ^ 31" "b < 2 ^ 31" and eq: "of_nat a = (of_nat b :: u32)"
  have "unat (of_nat a :: u32) = a" "unat (of_nat b :: u32) = b" using lt by (simp_all add: unat_of_nat_small)
  then show ?thesis using eq by metis
qed

lemma link_slabs_spec:
  assumes "unat a + left \<le> length H" "length H < 2 ^ 31" "0 < unat a"
  shows "\<exists>H'. link_slabs H a left = Some H' \<and> length H' = length H
    \<and> (\<forall>i<length H. H' ! i = (if unat a \<le> i \<and> i < unat a + left
         then (H ! i)\<lparr>sh_next := of_nat (Suc i), sh_prev := of_nat (i - 1)\<rparr> else H ! i))"
  using assms
proof (induction left arbitrary: H a)
  case (Suc left)
  let ?H = "H[unat a := (H ! unat a)\<lparr>sh_next := a + 1, sh_prev := a - 1\<rparr>]"
  have a: "unat (a + 1) = Suc (unat a)" using Suc.prems(1,2) by (simp add: unat_add_no_wrap)
  have w: "a + 1 = of_nat (Suc (unat a))" "a - 1 = of_nat (unat a - 1)"
    using Suc.prems(3) a by (auto intro!: word_eq_of_nat unat_dec)
  from Suc.IH [of "a + 1" ?H] Suc.prems a obtain H' where H': "link_slabs ?H (a + 1) left = Some H'" "length H' = length H"
    "\<forall>i<length H. H' ! i = (if Suc (unat a) \<le> i \<and> i < Suc (unat a) + left
       then (?H ! i)\<lparr>sh_next := of_nat (Suc i), sh_prev := of_nat (i - 1)\<rparr> else ?H ! i)" by auto
  have "H' ! i = (if unat a \<le> i \<and> i < unat a + Suc left
      then (H ! i)\<lparr>sh_next := of_nat (Suc i), sh_prev := of_nat (i - 1)\<rparr> else H ! i)" if "i < length H" for i
    using H'(3) [rule_format, OF that] that w by (cases "i = unat a") (auto simp: nth_list_update)
  then show ?case using H'(1,2) Suc.prems(1) by simp
qed auto

text \<open>Headers that link the slabs \<open>0, \<dots>, n - 1\<close> in this order.\<close>

definition chained :: "nat \<Rightarrow> fla_slab_header list \<Rightarrow> bool" where
  "chained n H \<longleftrightarrow> n \<le> length H \<and> (\<forall>i<n. sh_prev (H ! i) = (if i = 0 then FLA_LINKED_LIST_NULL else of_nat (i - 1))
     \<and> sh_next (H ! i) = (if Suc i = n then FLA_LINKED_LIST_NULL else of_nat (Suc i)))"

lemma chained_hseg:
  assumes "chained n H" "n < 2 ^ 31" "k < n"
  shows "hseg H (if k = 0 then FLA_LINKED_LIST_NULL else of_nat (k - 1)) (of_nat k) (map of_nat [k..<n]) (of_nat (n - 1)) FLA_LINKED_LIST_NULL"
  using assms(3)
proof (induction "n - k" arbitrary: k)
  case (Suc m)
  have k: "unat (of_nat k :: u32) = k" "k < length H" using Suc.prems assms by (auto simp: unat_of_nat_small chained_def)
  have ne: "(of_nat k :: u32) \<noteq> FLA_LINKED_LIST_NULL"
  proof
    assume "(of_nat k :: u32) = FLA_LINKED_LIST_NULL"
    then have "k = 2 ^ 31 - 1" using k(1) unat_linked_list_null by simp
    then show False using Suc.prems assms(2) by simp
  qed
  have step: "sh_prev (H ! k) = (if k = 0 then FLA_LINKED_LIST_NULL else of_nat (k - 1))"
    "sh_next (H ! k) = (if Suc k = n then FLA_LINKED_LIST_NULL else of_nat (Suc k))"
    using assms(1) Suc.prems by (simp_all add: chained_def)
  show ?case
  proof (cases "Suc k = n")
    case True
    then have "[k..<n] = [k]" "n - 1 = k" by auto
    then show ?thesis using step k ne True by simp
  next
    case False
    then have "Suc k < n" using Suc.prems by simp
    moreover have "[k..<n] = k # [Suc k..<n]" using Suc.prems by (rule upt_conv_Cons)
    ultimately show ?thesis using Suc.hyps(1) [of "Suc k"] Suc.hyps(2) step k ne False by simp
  qed
qed simp

lemma chained_queue:
  assumes "chained n (hdrs fs)" "0 < n" "n < 2 ^ 31" "sl_fslab_head (fs_slabs fs) = 0" "sl_fslab_tail (fs_slabs fs) = of_nat (n - 1)"
  shows "free_queue fs (map of_nat [0..<n])"
proof -
  have "distinct (map of_nat [0..<n] :: u32 list)"
    using assms(3) by (auto simp: distinct_map inj_on_def intro: of_nat_u32_inj)
  then show ?thesis
    using chained_hseg [OF assms(1,3,2)] assms(2,4,5) by (auto simp: free_queue_def dll_def last_map)
qed

lemma mkfs_slab_sgmt_init_spec:
  assumes "length (hdrs fs) = unat (g_nslabs geo)" "2 \<le> unat (g_nslabs geo)" "unat (g_nslabs geo) < 2 ^ 31"
    and small: "unat (gs_slab_sgmt_nlb (g_slab_sgmt geo)) * unat (g_lb_nbytes geo) < 2 ^ 32"
  shows "\<exists>H. fla_mkfs_slab_sgmt_init fs geo = Some (fs\<lparr>fs_slabs := \<lparr>sl_headers = H, sl_fslab_num = g_nslabs geo,
      sl_fslab_head = 0, sl_fslab_tail = of_nat (unat (g_nslabs geo) - 1)\<rparr>\<rparr>)
    \<and> chained (unat (g_nslabs geo)) H \<and> length H = unat (g_nslabs geo)"
proof -
  define n where "n = unat (g_nslabs geo)"
  have n: "2 \<le> n" "n < 2 ^ 31" using assms by (simp_all add: n_def)
  have "unat (ucast (g_lb_nbytes geo) * ucast (gs_slab_sgmt_nlb (g_slab_sgmt geo)) :: u64)
      = unat (ucast (gs_slab_sgmt_nlb (g_slab_sgmt geo) * g_lb_nbytes geo) :: u64)"
    using small by (simp add: unat_mult_no_wrap unat_ucast_widen mult.commute)
  then have seg: "ucast (g_lb_nbytes geo) * ucast (gs_slab_sgmt_nlb (g_slab_sgmt geo))
      = (ucast (gs_slab_sgmt_nlb (g_slab_sgmt geo) * g_lb_nbytes geo) :: u64)" by simp
  have last: "unat (g_nslabs geo - 1) = n - 1" "g_nslabs geo - 1 = of_nat (n - 1)" "g_nslabs geo - 1 - 1 = of_nat (n - 2)"
  proof -
    show l: "unat (g_nslabs geo - 1) = n - 1" using n by (subst unat_dec) (auto simp: n_def)
    then show "g_nslabs geo - 1 = of_nat (n - 1)" by (rule word_eq_of_nat)
    have "unat (g_nslabs geo - 1 - 1) = n - 2" using l n by (subst unat_dec) (auto simp: n_def)
    then show "g_nslabs geo - 1 - 1 = of_nat (n - 2)" by (rule word_eq_of_nat)
  qed
  define H0 where "H0 = (replicate n slab_header_zero)[0 := slab_header_zero\<lparr>sh_next := 1, sh_prev := FLA_LINKED_LIST_NULL\<rparr>,
    n - 1 := slab_header_zero\<lparr>sh_next := FLA_LINKED_LIST_NULL, sh_prev := of_nat (n - 2)\<rparr>]"
  have "length H0 = n" by (simp add: H0_def)
  moreover have "1 + (n - 2) \<le> n" using n by simp
  ultimately obtain H where H: "link_slabs H0 1 (n - 2) = Some H" "length H = n"
    "\<forall>i<n. H ! i = (if 1 \<le> i \<and> i < 1 + (n - 2) then (H0 ! i)\<lparr>sh_next := of_nat (Suc i), sh_prev := of_nat (i - 1)\<rparr> else H0 ! i)"
    using link_slabs_spec [of 1 "n - 2" H0] n(2) by auto
  have "map (\<lambda>_. slab_header_zero) (hdrs fs) = replicate n slab_header_zero" using assms(1) by (simp add: map_replicate_const n_def)
  moreover have "n - 1 - 1 = n - 2" by simp
  ultimately have "fla_mkfs_slab_sgmt_init fs geo = Some (fs\<lparr>fs_slabs := \<lparr>sl_headers = H, sl_fslab_num = g_nslabs geo,
      sl_fslab_head = 0, sl_fslab_tail = of_nat (n - 1)\<rparr>\<rparr>)"
    using n H(1) last unfolding fla_mkfs_slab_sgmt_init_def seg by (simp add: Let_def H0_def)
  moreover have "chained n H"
    using H(2,3) n by (auto simp: chained_def nth_list_update H0_def)
  ultimately show ?thesis using H(2) unfolding n_def by blast
qed

section \<open>Setting up the structures\<close>

text \<open>
  The function tables after \<open>fla_pool_init\<close>: set for the pools in use that the search of the
  freelist visits.
\<close>

definition boot_funcs :: "freelist \<Rightarrow> nat \<Rightarrow> fla_pool_entry_fnc option list" where
  "boot_funcs f n = map (\<lambda>i. if i \<notin> flist_free f \<and> i < flist_search_bound (flist_cap f)
     then Some Pool_fnc_default else None) [0..<n]"

abbreviation set_funcs :: "nat list \<Rightarrow> fla_pool_entry_fnc option list \<Rightarrow> fla_pool_entry_fnc option list" where
  "set_funcs is F \<equiv> map (\<lambda>i. if i \<in> set is then Some Pool_fnc_default else F ! i) [0..<length F]"

lemma init_funcs_seq:
  assumes "\<forall>i\<in>set is. i < length (po_entries p) \<and> i < length (po_funcs p) \<and> i < 2 ^ 31"
  shows "search_seq (\<lambda>p ndx. map_option (\<lambda>(r, p). (of_int r, p)) (fla_pool_initialize_entrie_func p ndx)) is found p
    = Some (Search_Next found (p\<lparr>po_funcs := set_funcs is (po_funcs p)\<rparr>))"
  using assms
proof (induction "is" arbitrary: p)
  case Nil
  have "map (\<lambda>i. po_funcs p ! i) [0..<length (po_funcs p)] = po_funcs p" by (rule map_nth)
  then show ?case by simp
next
  case (Cons i "is")
  let ?p = "p\<lparr>po_funcs := (po_funcs p)[i := Some Pool_fnc_default]\<rparr>"
  have i: "unat (of_nat i :: u32) = i" "i < length (po_entries p)" "i < length (po_funcs p)"
    using Cons.prems by (simp_all add: unat_of_nat_small)
  have "set_funcs is (po_funcs ?p) = set_funcs (i # is) (po_funcs p)"
    using i(3) by (intro nth_equalityI) (auto simp: nth_list_update)
  then show ?case
    using Cons.IH [of ?p] Cons.prems i init_entrie_func_default [of "of_nat i" p] by simp
qed

lemma search_run_any:
  assumes "flist_inv f \<or> f \<noteq> [] \<and> f ! 0 = 0" "flags AND 1 \<noteq> 0"
  shows "fla_flist_search_wfunc f flags cb s = do {
      st \<leftarrow> search_seq cb (filter (\<lambda>k. k \<notin> flist_free f) [0..<flist_search_bound (flist_cap f)]) 0 s;
      (case st of Search_Return r found s \<Rightarrow> Some (r, Some found, s)
       | Search_Next found s \<Rightarrow> Some (0, Some found, s))
    }"
  using assms(1)
proof
  assume z: "f \<noteq> [] \<and> f ! 0 = 0"
  then have "flist_search_bound (flist_cap f) = 0" by (simp add: flist_cap_def flist_search_bound_eq)
  then show ?thesis
    using z assms(2) by (simp add: fla_flist_search_wfunc_def flist_search_from.simps FLA_FREELIST_U32_ELEMS_def FLA_CEIL_DIV_def)
qed (rule fla_flist_search_wfunc_run [OF _ assms(2)])

lemma pool_init_run:
  assumes "x_malloc X Malloc_entrie_funcs" "flist_inv f \<or> f \<noteq> [] \<and> f ! 0 = 0" "flist_cap f \<le> unat (g_npools geo)"
    "po_freelist (fs_pools fs) = f" "length (entries fs) = unat (g_npools geo)" "unat (g_npools geo) < 2 ^ 31"
  shows "fla_pool_init X fs geo = Some (0, set_pools fs ((fs_pools fs)\<lparr>
      po_htbl := (po_htbl (fs_pools fs))\<lparr>ht_len := hh_len (po_htbl_hdr (fs_pools fs)), ht_tbl_size := hh_size (po_htbl_hdr (fs_pools fs))\<rparr>,
      po_funcs := boot_funcs f (unat (g_npools geo))\<rparr>))"
proof -
  let ?is = "filter (\<lambda>k. k \<notin> flist_free f) [0..<flist_search_bound (flist_cap f)]" and ?n = "unat (g_npools geo)"
  let ?p = "(fs_pools fs)\<lparr>po_htbl := (po_htbl (fs_pools fs))\<lparr>ht_len := hh_len (po_htbl_hdr (fs_pools fs)),
    ht_tbl_size := hh_size (po_htbl_hdr (fs_pools fs))\<rparr>, po_funcs := replicate ?n None\<rparr>"
  have "flist_search_bound (flist_cap f) \<le> flist_cap f" by (simp add: flist_search_bound_eq)
  then have "\<forall>i\<in>set ?is. i < length (po_entries ?p) \<and> i < length (po_funcs ?p) \<and> i < 2 ^ 31" using assms(3,5,6) by auto
  note run = init_funcs_seq [OF this, of 0]
  have "set_funcs ?is (po_funcs ?p) = boot_funcs f ?n" by (auto simp: boot_funcs_def intro!: map_cong)
  then show ?thesis
    using assms(1) run by (simp add: fla_pool_init_def Let_def assms(4) search_run_any [OF assms(2)])
qed

text \<open>A conventional device without flexible data placement.\<close>

definition plain_dev :: "'d xnvme \<Rightarrow> bool" where
  "plain_dev X \<longleftrightarrow> xg_type (x_geo X Data_dev) = XNVME_GEO_CONVENTIONAL \<and> (\<forall>d. fla_dp_type X d = (0, Some FLA_DP_DEFAULT))"

lemma plain_dp: "plain_dev X \<Longrightarrow> fla_init_dp X d fs = Some (0, fs\<lparr>fs_dp := (fs_dp fs)\<lparr>dp_type := FLA_DP_DEFAULT, dp_prep := Some Prep_noop\<rparr>\<rparr>)"
  by (simp add: plain_dev_def fla_init_dp_def fla_dp_noop_init_def)

lemma plain_cs: "plain_dev X \<Longrightarrow> fla_init_cs (x_geo X Data_dev) b fs = (0, fs\<lparr>fs_cs := (fs_cs fs)\<lparr>cs_t := FLA_CS_CNS\<rparr>\<rparr>)"
  by (simp add: plain_dev_def fla_init_cs_def fla_cs_type_def fla_cs_cns_init_def)

text \<open>The file system that \<open>fla_init\<close> makes of a buffer.\<close>

definition booted :: "'d xnvme \<Rightarrow> fla_geo \<Rightarrow> bool \<Rightarrow> u8 list \<Rightarrow> flexalloc" where
  "booted X geo md buf = (let p = md_pools geo buf (fs_pools fs_zero) in
     fs_zero\<lparr>fs_dev := \<lparr>dv_md_dev = md, dv_lb_nbytes = fla_xne_dev_lba_nbytes X Data_dev\<rparr>, fs_geo := geo,
       fs_super := super_of (part 0 32 buf),
       fs_pools := p\<lparr>po_htbl := (po_htbl p)\<lparr>ht_len := hh_len (po_htbl_hdr p), ht_tbl_size := hh_size (po_htbl_hdr p)\<rparr>,
         po_funcs := boot_funcs (po_freelist p) (unat (g_npools geo))\<rparr>,
       fs_slabs := md_slabs geo buf, fs_dp := \<lparr>dp_type = FLA_DP_DEFAULT, dp_fdp = None, dp_prep = Some Prep_noop\<rparr>,
       fs_cs := \<lparr>cs_t = FLA_CS_CNS, cs_zns = None\<rparr>\<rparr>)"

lemma length_array_of [simp]: "length (array_of sz dec n b) = n"
  by (simp add: array_of_def)

lemma fla_init_run:
  assumes "plain_dev X" "x_malloc X Malloc_entrie_funcs" "md_in geo buf" "unat (g_npools geo) < 2 ^ 31"
    "po_freelist (md_pools geo buf (fs_pools fs_zero)) = f"
    "flist_inv f \<or> f \<noteq> [] \<and> f ! 0 = 0" "flist_cap f \<le> unat (g_npools geo)"
  shows "fla_init X geo md buf fs_zero d = Some (0, booted X geo md buf)"
proof -
  let ?fs = "fs_zero\<lparr>fs_dev := \<lparr>dv_md_dev = md, dv_lb_nbytes = fla_xne_dev_lba_nbytes X Data_dev\<rparr>,
    fs_geo := geo, fs_super := super_of (part 0 32 buf), fs_pools := md_pools geo buf (fs_pools fs_zero)\<rparr>"
  have "length (entries ?fs) = unat (g_npools geo)" by (simp add: md_pools_def)
  with pool_init_run [OF assms(2,6,7), of ?fs] assms(4,5) show ?thesis
    using assms(3) by (simp add: fla_init_def Let_def plain_dp [OF assms(1)] plain_cs [OF assms(1)] booted_def set_pools_def)
      (simp add: fs_zero_def)
qed

section \<open>Metadata on the device\<close>

text \<open>The device that holds the metadata; a device on which nothing fails.\<close>

abbreviation md_of :: "bool \<Rightarrow> xdev" where
  "md_of md \<equiv> if md then Md_dev else Data_dev"

definition media :: "'d xnvme \<Rightarrow> ('d \<Rightarrow> xdev \<Rightarrow> nat \<Rightarrow> u8 list) \<Rightarrow> xdev \<Rightarrow> bool" where
  "media X blk dev \<longleftrightarrow> storage X blk \<and> ranges X \<and> bufs X \<and> xfer_ok (x_geo X dev)
     \<and> lbsz X dev = lbsz X Data_dev \<and> 512 \<le> lbsz X Data_dev \<and> 4 dvd lbsz X Data_dev \<and> lbsz X Data_dev < 2 ^ 31"

definition works :: "'d xnvme \<Rightarrow> xdev \<Rightarrow> bool" where
  "works X dev \<longleftrightarrow> reliable X dev \<and> (\<forall>site. x_malloc X site) \<and> (\<forall>dv n. x_buf_alloc X dv n \<noteq> None) \<and> (\<forall>dv. x_dev_open X dv)
     \<and> fla_dev_sanity_check X (Some dev) = 0
     \<and> (\<forall>off n. unat off mod lbsz X dev = 0 \<and> unat n mod lbsz X dev = 0 \<and> 0 < unat n
          \<and> unat off + unat n \<le> unat (xg_tbytes (x_geo X dev)) \<longrightarrow> lr_is_valid (x_range_from_offset X dev off n))
     \<and> (\<forall>slba n. 0 < unat n \<and> (unat slba + unat n) * lbsz X dev \<le> unat (xg_tbytes (x_geo X dev))
          \<longrightarrow> lr_is_valid (x_range_from_slba X dev slba n))"

lemma range_from_start:
  assumes "ranges X" "0 < lbsz X dev" "lr_is_valid (x_range_from_offset X dev 0 n)" "unat n = m * lbsz X dev"
  defines "r \<equiv> x_range_from_offset X dev 0 n"
  shows "lr_slba r = 0" "unat (lr_elba r) = m - 1" "0 < m" "unat (lr_elba r) < 2 ^ 63" "Suc (unat (lr_elba r)) - unat (lr_slba r) = m"
proof -
  from assms(1) [unfolded ranges_def, THEN conjunct2, rule_format, OF assms(3)] obtain s k where
    sk: "0 = unat s * lbsz X dev" "unat n = unat k * lbsz X dev" "lr_slba r = s" "lr_elba r = s + k - 1" "0 < unat k"
      "unat s + unat k < 2 ^ 63" unfolding r_def by auto
  have s: "s = 0" using sk(1) assms(2) by (auto simp: unat_eq_0)
  moreover have "unat k = m" using sk(2) assms(2,4) by simp
  ultimately show "lr_slba r = 0" "unat (lr_elba r) = m - 1" "0 < m" "unat (lr_elba r) < 2 ^ 63" "Suc (unat (lr_elba r)) - unat (lr_slba r) = m"
    using sk range_end [OF sk(5,6)] by simp_all
qed

text \<open>The first blocks of a device hold a buffer.\<close>

definition holds :: "('d \<Rightarrow> xdev \<Rightarrow> nat \<Rightarrow> u8 list) \<Rightarrow> xdev \<Rightarrow> nat \<Rightarrow> 'd \<Rightarrow> u8 list \<Rightarrow> bool" where
  "holds blk dev lb d buf \<longleftrightarrow> lb dvd length buf \<and> (\<forall>i<length buf div lb. blk d dev i = buf_block lb buf i)"

lemma md_write:
  assumes "media X blk dev" "lr_slba r = 0" "unat (lr_elba r) = m - 1" "0 < m" "m < 2 ^ 63" "length buf = m * lbsz X dev"
    "xi_dev io = dev" "xi_buf io = buf" "xi_lba_range io = r" "xi_prep_ctx io = None \<or> xi_prep_ctx io = Some Prep_noop"
  shows "\<exists>err d'. fla_xne_sync_seq_w_xneio X io dp d = Some (err, dp, d') \<and> (reliable X dev \<longrightarrow> err = 0)
    \<and> (err = 0 \<longrightarrow> holds blk dev (lbsz X dev) d' buf)
    \<and> (\<forall>dv i. \<not> (dv = dev \<and> i < m) \<longrightarrow> blk d' dv i = blk d dv i)"
proof -
  have st: "storage X blk" "xfer_ok (x_geo X dev)" "0 < lbsz X dev" using assms(1) by (auto simp: media_def)
  have "unat (lr_elba r) < 2 ^ 63" "(Suc (unat (lr_elba r)) - unat (lr_slba r)) * lbsz X dev \<le> length buf"
    using assms(2-6) by simp_all
  from seq_w_blocks [OF st(1,2) this, of "x_ctx_from_dev X dev" d] obtain err d' where
    w: "fla_xne_sync_seq_w X r dev (x_ctx_from_dev X dev) buf d = Some (err, d')" "reliable X dev \<longrightarrow> err = 0"
      "\<forall>dv i. \<not> (dv = dev \<and> unat (lr_slba r) \<le> i \<and> i \<le> unat (lr_elba r)) \<longrightarrow> blk d' dv i = blk d dv i"
      "err = 0 \<longrightarrow> blk d' = (\<lambda>dv i. if dv = dev \<and> unat (lr_slba r) \<le> i \<and> i \<le> unat (lr_elba r)
        then buf_block (lbsz X dev) buf (i - unat (lr_slba r)) else blk d dv i)" by blast
  have "holds blk dev (lbsz X dev) d' buf" if "err = 0"
    using w(4) that st(3) assms(2-4,6) by (auto simp: holds_def)
  moreover have "\<forall>dv i. \<not> (dv = dev \<and> i < m) \<longrightarrow> blk d' dv i = blk d dv i"
  proof -
    have "i \<le> unat (lr_elba r) \<longleftrightarrow> i < m" for i using assms(3,4) by auto
    then show ?thesis using w(3) assms(2) by simp
  qed
  moreover have "fla_xne_sync_seq_w_xneio X io dp d = Some (err, dp, d')"
    using w(1) assms(7-10) w_xneio_plain [of io X dp d] by auto
  ultimately show ?thesis using w(2) by blast
qed

lemma md_read:
  assumes "media X blk dev" "lr_slba r = 0" "unat (lr_elba r) = m - 1" "0 < m" "m < 2 ^ 63" "length buf0 = m * lbsz X dev"
    "holds blk dev (lbsz X dev) d buf" "m * lbsz X dev \<le> length buf" "reliable X dev"
  shows "fla_xne_sync_seq_r_xneio X r dev d buf0 = Some (0, take (m * lbsz X dev) buf)"
proof -
  have st: "storage X blk" "xfer_ok (x_geo X dev)" "0 < lbsz X dev" using assms(1) by (auto simp: media_def)
  have "unat (lr_elba r) < 2 ^ 63" "(Suc (unat (lr_elba r)) - unat (lr_slba r)) * lbsz X dev \<le> length buf0"
    using assms(2-6) by simp_all
  from seq_r_blocks [OF st(1,2) this, of d] obtain buf' where
    r: "fla_xne_sync_seq_r_xneio X r dev d buf0 = Some (0, buf')" "length buf' = m * lbsz X dev"
      "\<forall>i. unat (lr_slba r) \<le> i \<and> i \<le> unat (lr_elba r) \<longrightarrow> buf_block (lbsz X dev) buf' (i - unat (lr_slba r)) = blk d dev i"
    using assms(6,9) by auto
  have "m \<le> length buf div lbsz X dev" using assms(8) st(3) by (simp add: less_eq_div_iff_mult_less_eq)
  then have "buf_block (lbsz X dev) buf' i = buf_block (lbsz X dev) buf i" if "i < m" for i
    using r(3) [rule_format, of i] that assms(2-4,7) by (auto simp: holds_def)
  from buf_blocks_eq [of "lbsz X dev" m buf' buf, OF st(3) this] show ?thesis using r(1,2) assms(8) by simp
qed

lemma super_read_run:
  assumes "media X blk dev" "works X dev" "holds blk dev (lbsz X dev) d buf" "lbsz X dev \<le> length buf"
    "su_magic (super_of (part 0 32 buf)) = FLA_MAGIC" "lbsz X dev \<le> unat (xg_tbytes (x_geo X dev))"
  shows "fla_super_read X dev (fla_xne_dev_lba_nbytes X Data_dev) d = Some (0, Some (super_of (part 0 32 buf)))"
proof -
  let ?n = "ucast (fla_xne_dev_lba_nbytes X Data_dev) :: u64"
  have m: "ranges X" "bufs X" "lbsz X dev = lbsz X Data_dev" "512 \<le> lbsz X dev" using assms(1) by (auto simp: media_def)
  have n: "unat ?n = 1 * lbsz X dev" using m(3) by (simp add: fla_xne_dev_lba_nbytes_def unat_ucast_widen)
  obtain b where b: "x_buf_alloc X dev ?n = Some b" using assms(2) by (fastforce simp: works_def)
  then have lb: "length (map (\<lambda>_. 0 :: u8) b) = 1 * lbsz X dev" using bufs_length [OF m(2) b] n by simp
  have v: "lr_is_valid (x_range_from_offset X dev 0 ?n)" using assms(2,6) m(4) n by (auto simp: works_def)
  have "0 < lbsz X dev" using m(4) by simp
  note R = range_from_start [OF m(1) this v n]
  have "fla_xne_sync_seq_r_xneio X (x_range_from_offset X dev 0 ?n) dev d (map (\<lambda>_. 0) b) = Some (0, take (1 * lbsz X dev) buf)"
    using assms(2,4) by (intro md_read [OF assms(1) R(1,2) _ _ lb assms(3)]) (simp_all add: works_def)
  moreover have "part 0 32 (take (lbsz X dev) buf) = part 0 32 buf" using m(4) by (simp add: part_def min_def)
  ultimately show ?thesis
    using b v assms(4,5) m(4) by (simp add: fla_super_read_def fla_xne_alloc_buf_def fla_xne_lba_range_from_offset_nbytes_def Let_def)
qed

text \<open>Opening a device whose metadata is that of a buffer gives the file system of that buffer.\<close>

definition opened :: "'d xnvme \<Rightarrow> fla_geo \<Rightarrow> bool \<Rightarrow> u8 list \<Rightarrow> flexalloc" where
  "opened X geo md buf = (booted X geo md buf)\<lparr>
     fs_slab_cache := Some (replicate (unat (su_nslabs (super_of (part 0 32 buf)))) \<lparr>ce_freelist = None, ce_state = FLA_SLAB_CACHE_ELEM_STALE\<rparr>),
     fs_state := FLA_STATE_OPEN\<rparr>"

text \<open>A geometry on up to \<open>2^32\<close> blocks whose metadata fits the device that holds it, and is smaller than 4 GiB.\<close>

definition geo_ok :: "'d xnvme \<Rightarrow> xdev \<Rightarrow> fla_geo \<Rightarrow> bool" where
  "geo_ok X dev geo \<longleftrightarrow> geo_fits geo \<and> g_lb_nbytes geo = xg_lba_nbytes (x_geo X Data_dev) \<and> 1 \<le> unat (g_md_nlb geo)
     \<and> unat (g_nlb geo) < 2 ^ 32 \<and> md_blocks geo * unat (g_lb_nbytes geo) < 2 ^ 32
     \<and> md_blocks geo * unat (g_lb_nbytes geo) \<le> unat (xg_tbytes (x_geo X dev))"

lemma geo_okD:
  assumes "geo_ok X dev geo" "media X blk dev"
  shows "md_order geo" "off_fslab_num geo + 12 = md_blocks geo * lbsz X dev" "unat (fla_geo_nbytes geo) = md_blocks geo * lbsz X dev"
    "unat (fla_geo_nblocks geo) = md_blocks geo" "freelist_len geo = 1 + flist_words (unat (g_npools geo))"
    "htbl_slots geo = 2 * unat (g_npools geo)" "0 < md_blocks geo" "md_blocks geo < 2 ^ 63" "unat (g_npools geo) < 2 ^ 31"
    "length buf = md_blocks geo * lbsz X dev \<Longrightarrow> md_in geo buf" "lbsz X dev = unat (g_lb_nbytes geo)"
proof -
  have g: "geo_fits geo" "512 \<le> unat (g_lb_nbytes geo)" "1 \<le> unat (g_md_nlb geo)" "md_blocks geo * unat (g_lb_nbytes geo) < 2 ^ 32"
    and lb: "lbsz X dev = unat (g_lb_nbytes geo)"
    using assms by (auto simp: geo_ok_def media_def)
  note L = md_layout [OF g, folded lb]
  then show "md_order geo" "off_fslab_num geo + 12 = md_blocks geo * lbsz X dev" "unat (fla_geo_nbytes geo) = md_blocks geo * lbsz X dev"
    "unat (fla_geo_nblocks geo) = md_blocks geo" "freelist_len geo = 1 + flist_words (unat (g_npools geo))"
    "htbl_slots geo = 2 * unat (g_npools geo)" "lbsz X dev = unat (g_lb_nbytes geo)" by (simp_all add: lb)
  show "md_in geo buf" if "length buf = md_blocks geo * lbsz X dev" using that L(1,2) by (intro md_in_layout) simp_all
  show "0 < md_blocks geo" using g(3) by (simp add: md_blocks_def)
  show "md_blocks geo < 2 ^ 63" using md_blocks_less [of geo] by simp
  show "unat (g_npools geo) < 2 ^ 31" using g(1) by (simp add: geo_fits_def)
qed

lemma fla_open_run:
  fixes md dev
  defines "dev \<equiv> md_of md"
  assumes env: "media X blk dev" "works X dev" "plain_dev X"
    and buf: "holds blk dev (lbsz X dev) d buf" "length buf = md_blocks geo * lbsz X dev"
    and super: "su_magic (super_of (part 0 32 buf)) = FLA_MAGIC" "fla_geo_from_super (x_geo X Data_dev) (super_of (part 0 32 buf)) = geo"
    and geo: "geo_ok X dev geo"
    and fl: "po_freelist (md_pools geo buf (fs_pools fs_zero)) = f" "flist_inv f \<or> f \<noteq> [] \<and> f ! 0 = 0" "flist_cap f \<le> unat (g_npools geo)"
  shows "fla_open X md d = Some (0, Some (opened X geo md buf, buf))"
proof -
  let ?n = "fla_geo_nbytes geo"
  note G = geo_okD [OF geo env(1)]
  have m: "ranges X" "bufs X" "0 < lbsz X dev" using env(1) by (auto simp: media_def)
  have t: "md_blocks geo * lbsz X dev \<le> unat (xg_tbytes (x_geo X dev))" using geo G(11) unfolding geo_ok_def by metis
  have one: "lbsz X dev \<le> md_blocks geo * lbsz X dev" using G(7) by simp
  have sr: "fla_super_read X dev (fla_xne_dev_lba_nbytes X Data_dev) d = Some (0, Some (super_of (part 0 32 buf)))"
    using order_trans [OF one t] one buf(2) by (intro super_read_run [OF env(1,2) buf(1) _ super(1)]) simp_all
  obtain b where b: "x_buf_alloc X dev ?n = Some b" using env(2) by (fastforce simp: works_def)
  then have lb: "length (map (\<lambda>_. 0 :: u8) b) = md_blocks geo * lbsz X dev" using bufs_length [OF m(2) b] G(3) by simp
  have v: "lr_is_valid (x_range_from_offset X dev 0 ?n)"
    using env(2) t G(3,7) m(3) by (simp add: works_def)
  note R = range_from_start [OF m(1,3) v G(3)]
  have rd: "fla_xne_sync_seq_r_xneio X (x_range_from_offset X dev 0 ?n) dev d (map (\<lambda>_. 0) b) = Some (0, buf)"
    using md_read [OF env(1) R(1,2,3) G(8) lb buf(1)] buf(2) env(2) by (simp add: works_def)
  have ok: "x_malloc X s" "fla_xne_dev_open X dv = 0" "fla_dev_sanity_check X (Some dev) = 0" for s dv
    using env(2) by (simp_all add: works_def fla_xne_dev_open_def)
  have ini: "fla_init X geo md buf fs_zero d = Some (0, booted X geo md buf)"
    using fla_init_run [OF env(3) ok(1) G(10) [OF buf(2)] G(9) fl] .
  have "fs_slab_cache (booted X geo md buf) = None" "fs_state (booted X geo md buf) = 0"
    "fs_super (booted X geo md buf) = super_of (part 0 32 buf)"
    by (simp_all add: booted_def Let_def fs_zero_def)
  then have "open_init X md geo buf d = Some (0, Some (opened X geo md buf, buf))"
    using ini ok(1) by (simp add: open_init_def fla_slab_cache_init_def opened_def Let_def)
  then show ?thesis
    using sr b v rd ok super(2)
    by (simp add: fla_open_def Let_def dev_def [symmetric] fla_fs_alloc_def fla_xne_alloc_buf_def fla_xne_lba_range_from_offset_nbytes_def)
qed

section \<open>A formatted device\<close>

text \<open>The structures that \<open>fla_mkfs\<close> writes: no pools, all slabs free.\<close>

definition fresh_md :: "fla_geo \<Rightarrow> flexalloc \<Rightarrow> bool" where
  "fresh_md geo fs \<longleftrightarrow> fs_geo fs = geo
     \<and> fs_super fs = \<lparr>su_magic = FLA_MAGIC, su_nslabs = g_nslabs geo, su_slab_nlb = g_slab_nlb geo,
         su_npools = g_npools geo, su_md_nlb = g_md_nlb geo, su_fmt_version = FLA_FMT_VER\<rparr>
     \<and> flist_inv (po_freelist (fs_pools fs)) \<and> flist_cap (po_freelist (fs_pools fs)) = unat (g_npools geo)
     \<and> flist_free (po_freelist (fs_pools fs)) = {..<unat (g_npools geo)} \<and> length (po_freelist (fs_pools fs)) = freelist_len geo
     \<and> ht_tbl (po_htbl (fs_pools fs)) = Some (replicate (htbl_slots geo) htbl_unset_entry)
     \<and> po_htbl_hdr (fs_pools fs) = \<lparr>hh_size = gp_htbl_tbl_size (g_pool_sgmt geo), hh_len = 0\<rparr>
     \<and> entries fs = replicate (unat (g_npools geo)) pool_entry_zero
     \<and> chained (unat (g_nslabs geo)) (hdrs fs) \<and> length (hdrs fs) = unat (g_nslabs geo)
     \<and> sl_fslab_num (fs_slabs fs) = g_nslabs geo \<and> sl_fslab_head (fs_slabs fs) = 0
     \<and> sl_fslab_tail (fs_slabs fs) = of_nat (unat (g_nslabs geo) - 1)"

lemma fresh_sizes: "fresh_md geo fs \<Longrightarrow> md_sizes fs"
  by (auto simp: fresh_md_def md_sizes_def pool_entry_zero_def)

lemma words_of_zero: "words_of (replicate (4 * n) 0) = replicate n 0"
proof (induction n)
  case (Suc n)
  have "replicate (4 * Suc n) (0 :: u8) = 0 # 0 # 0 # 0 # replicate (4 * n) 0" by (simp add: numeral_eq_Suc)
  then show ?case using Suc.IH by (simp add: le_word_def)
qed simp

lemma mkfs_pool_sgmt_init_spec:
  assumes "0 < unat (g_npools geo)" "unat (g_npools geo) < 2 ^ 31" "flist_words (unat (g_npools geo)) < length (po_freelist (fs_pools fs))"
    "ht_tbl (po_htbl (fs_pools fs)) = Some T" "length T = htbl_slots geo" "length (entries fs) = unat (g_npools geo)"
  shows "\<exists>f. fla_mkfs_pool_sgmt_init fs geo = Some (set_pools fs ((fs_pools fs)\<lparr>po_freelist := f,
      po_htbl_hdr := \<lparr>hh_size = gp_htbl_tbl_size (g_pool_sgmt geo), hh_len = 0\<rparr>,
      po_htbl := (po_htbl (fs_pools fs))\<lparr>ht_tbl := Some (replicate (htbl_slots geo) htbl_unset_entry)\<rparr>,
      po_entries := replicate (unat (g_npools geo)) pool_entry_zero\<rparr>))
    \<and> flist_inv f \<and> flist_cap f = unat (g_npools geo) \<and> flist_free f = {..<unat (g_npools geo)}
    \<and> length f = length (po_freelist (fs_pools fs))"
proof -
  from fla_flist_init_free [OF assms(1-3)] obtain f where f: "fla_flist_init (po_freelist (fs_pools fs)) (g_npools geo) = Some f"
    "flist_inv f" "flist_cap f = unat (g_npools geo)" "flist_free f = {..<unat (g_npools geo)}"
    "length f = length (po_freelist (fs_pools fs))" by auto
  have "fla_htbl_entries_init T (gp_htbl_tbl_size (g_pool_sgmt geo)) = Some (replicate (htbl_slots geo) htbl_unset_entry)"
    using assms(5) by (simp add: fla_htbl_entries_init_def Let_def map_replicate_const)
  then show ?thesis
    using f assms(4,6) by (intro exI [of _ f]) (simp add: fla_mkfs_pool_sgmt_init_def Let_def map_replicate_const)
qed

lemma mkfs_structures:
  assumes env: "media X blk dev" "plain_dev X" "x_malloc X Malloc_entrie_funcs" and geo: "geo_ok X dev geo" "2 \<le> unat (g_nslabs geo)"
    and buf: "buf = replicate (md_blocks geo * lbsz X dev) 0"
  shows "\<exists>fs0 fs1 fs2. fla_init X geo False buf fs_zero d = Some (0, fs0) \<and> fla_mkfs_pool_sgmt_init fs0 geo = Some fs1
    \<and> fla_mkfs_slab_sgmt_init fs1 geo = Some fs2 \<and> fresh_md geo (fla_mkfs_super_init fs2 geo)
    \<and> dp_prep (fs_dp (fla_mkfs_super_init fs2 geo)) = Some Prep_noop"
proof -
  note G = geo_okD [OF geo(1) env(1)]
  have g: "0 < unat (g_npools geo)" "unat (g_nslabs geo) < 2 ^ 31" using geo(1) by (simp_all add: geo_ok_def geo_fits_def)
  have len: "length buf = md_blocks geo * lbsz X dev" by (simp add: buf)
  have room: "off_freelist geo + 4 * freelist_len geo \<le> length buf" using G(10) [OF len] by (simp add: md_in_def)
  then have "part (off_freelist geo) (4 * freelist_len geo) buf = replicate (4 * freelist_len geo) 0" by (simp add: part_def buf)
  then have fl: "po_freelist (md_pools geo buf (fs_pools fs_zero)) = replicate (freelist_len geo) 0" by (simp add: md_pools_def words_of_zero)
  let ?b = "booted X geo False buf"
  have ini: "fla_init X geo False buf fs_zero d = Some (0, ?b)"
    using G(5) by (intro fla_init_run [OF env(2,3) G(10) [OF len] G(9) fl]) (simp_all add: flist_cap_def)
  have b: "po_freelist (fs_pools ?b) = replicate (freelist_len geo) 0" "length (entries ?b) = unat (g_npools geo)"
    "\<exists>T. ht_tbl (po_htbl (fs_pools ?b)) = Some T \<and> length T = htbl_slots geo" "length (hdrs ?b) = unat (g_nslabs geo)"
    "fs_geo ?b = geo" "dp_prep (fs_dp ?b) = Some Prep_noop"
    using fl by (simp_all add: booted_def Let_def md_pools_def md_slabs_def)
  from b(3) obtain T where T: "ht_tbl (po_htbl (fs_pools ?b)) = Some T" "length T = htbl_slots geo" by blast
  from mkfs_pool_sgmt_init_spec [OF g(1) G(9) _ T b(2)] G(5) b(1) obtain f fs1 where
    f: "fla_mkfs_pool_sgmt_init ?b geo = Some fs1" "flist_inv f" "flist_cap f = unat (g_npools geo)"
      "flist_free f = {..<unat (g_npools geo)}" "length f = freelist_len geo"
    and fs1: "fs1 = set_pools ?b ((fs_pools ?b)\<lparr>po_freelist := f,
      po_htbl_hdr := \<lparr>hh_size = gp_htbl_tbl_size (g_pool_sgmt geo), hh_len = 0\<rparr>,
      po_htbl := (po_htbl (fs_pools ?b))\<lparr>ht_tbl := Some (replicate (htbl_slots geo) htbl_unset_entry)\<rparr>,
      po_entries := replicate (unat (g_npools geo)) pool_entry_zero\<rparr>)" by auto
  have "unat (gs_slab_sgmt_nlb (g_slab_sgmt geo)) \<le> md_blocks geo" by (simp add: md_blocks_def fla_geo_slab_sgmt_nblocks_def)
  from mult_le_mono1 [OF this, of "unat (g_lb_nbytes geo)"] have "unat (gs_slab_sgmt_nlb (g_slab_sgmt geo)) * unat (g_lb_nbytes geo) < 2 ^ 32"
    using geo(1) le_less_trans unfolding geo_ok_def by blast
  from mkfs_slab_sgmt_init_spec [OF _ geo(2) g(2) this, of fs1] b(4) obtain H where
    H: "fla_mkfs_slab_sgmt_init fs1 geo = Some (fs1\<lparr>fs_slabs := \<lparr>sl_headers = H, sl_fslab_num = g_nslabs geo,
      sl_fslab_head = 0, sl_fslab_tail = of_nat (unat (g_nslabs geo) - 1)\<rparr>\<rparr>)" "chained (unat (g_nslabs geo)) H" "length H = unat (g_nslabs geo)"
    by (auto simp: fs1 set_pools_def)
  then show ?thesis
    using ini f b(5,6) by (simp add: fresh_md_def fs1 fla_mkfs_super_init_def set_pools_def)
qed

lemma mkfs_write_run:
  assumes env: "media X blk dev" "plain_dev X" "x_malloc X Malloc_entrie_funcs" and geo: "geo_ok X dev geo" "2 \<le> unat (g_nslabs geo)"
    and buf: "buf = replicate (md_blocks geo * lbsz X dev) 0" and v: "lr_is_valid (x_range_from_offset X dev 0 (fla_geo_nbytes geo))"
  shows "\<exists>err d' fs. mkfs_write X geo dev buf d = Some (err, d') \<and> fresh_md geo fs \<and> (reliable X dev \<longrightarrow> err = 0)
    \<and> (err = 0 \<longrightarrow> holds blk dev (lbsz X dev) d' (md_bytes fs buf))"
proof -
  note G = geo_okD [OF geo(1) env(1)]
  have m: "ranges X" "0 < lbsz X dev" using env(1) by (auto simp: media_def)
  have len: "length buf = md_blocks geo * lbsz X dev" by (simp add: buf)
  from mkfs_structures [OF env geo buf, of d] obtain fs0 fs1 fs2 fs where
    s: "fla_init X geo False buf fs_zero d = Some (0, fs0)" "fla_mkfs_pool_sgmt_init fs0 geo = Some fs1"
      "fla_mkfs_slab_sgmt_init fs1 geo = Some fs2" "fs = fla_mkfs_super_init fs2 geo" "fresh_md geo fs" "dp_prep (fs_dp fs) = Some Prep_noop" by blast
  have lb: "length (md_bytes fs buf) = md_blocks geo * lbsz X dev"
    using md_bytes_read(1) [OF _ _ fresh_sizes [OF s(5)], of buf] s(5) G(1) G(10) [OF len] len by (simp add: fresh_md_def)
  note R = range_from_start [OF m v G(3)]
  let ?io = "\<lparr>xi_io_type = FLA_IO_MD_WRITE, xi_dev = dev, xi_buf = md_bytes fs buf,
    xi_lba_range = x_range_from_offset X dev 0 (fla_geo_nbytes geo), xi_pool_handle = None, xi_obj_handle = None, xi_prep_ctx = dp_prep (fs_dp fs)\<rparr>"
  from md_write [OF env(1) R(1-3) G(8) lb, of ?io "fs_dp fs" d] s(6) obtain err d' where
    w: "fla_xne_sync_seq_w_xneio X ?io (fs_dp fs) d = Some (err, fs_dp fs, d')" "reliable X dev \<longrightarrow> err = 0"
      "err = 0 \<longrightarrow> holds blk dev (lbsz X dev) d' (md_bytes fs buf)" by auto
  have "mkfs_write X geo dev buf d = Some (err, d')"
    using s(1-4) v w(1) by (simp add: mkfs_write_def Let_def FLA_SUPER_SLBA_def fla_xne_lba_range_from_offset_nbytes_def)
  then show ?thesis using s(5) w(2,3) by blast
qed

text \<open>What opening reads of metadata that was written from structures.\<close>

lemma opened_md_bytes:
  fixes X :: "'d xnvme" and md
  assumes "md_order (fs_geo fs)" "md_in (fs_geo fs) b" "md_sizes fs"
  defines "fs' \<equiv> opened X (fs_geo fs) md (md_bytes fs b)"
  shows "fs_geo fs' = fs_geo fs" "fs_super fs' = fs_super fs" "fs_slabs fs' = fs_slabs fs"
    "po_freelist (fs_pools fs') = po_freelist (fs_pools fs)" "po_htbl_hdr (fs_pools fs') = po_htbl_hdr (fs_pools fs)"
    "entries fs' = entries fs" "ht_tbl (po_htbl (fs_pools fs')) = ht_tbl (po_htbl (fs_pools fs))"
    "ht_tbl_size (po_htbl (fs_pools fs')) = hh_size (po_htbl_hdr (fs_pools fs))"
    "ht_len (po_htbl (fs_pools fs')) = hh_len (po_htbl_hdr (fs_pools fs))"
    "po_funcs (fs_pools fs') = boot_funcs (po_freelist (fs_pools fs)) (unat (g_npools (fs_geo fs)))"
    "fs_slab_cache fs' = Some (replicate (unat (su_nslabs (fs_super fs))) \<lparr>ce_freelist = None, ce_state = FLA_SLAB_CACHE_ELEM_STALE\<rparr>)"
    "fs_state fs' = FLA_STATE_OPEN" "dv_md_dev (fs_dev fs') = md" "cs_t (fs_cs fs') = FLA_CS_CNS" "dp_prep (fs_dp fs') = Some Prep_noop"
  using md_bytes_read [OF assms(1-3)] by (simp_all add: fs'_def opened_def booted_def Let_def fs_zero_def)

text \<open>A file system without pools whose slabs are all free.\<close>

definition fresh_fs :: "(u64 \<Rightarrow> nat) \<Rightarrow> fla_geo \<Rightarrow> flexalloc \<Rightarrow> bool" where
  "fresh_fs hm geo fs \<longleftrightarrow> fs_geo fs = geo \<and> dir_inv hm fs \<and> pool_names fs = Map.empty
     \<and> flist_free (po_freelist (fs_pools fs)) = {..<unat (g_npools geo)} \<and> slabs_ok fs
     \<and> free_queue fs (map of_nat [0..<unat (g_nslabs geo)]) \<and> sl_fslab_num (fs_slabs fs) = g_nslabs geo
     \<and> fs_slab_cache fs = Some (replicate (unat (g_nslabs geo)) \<lparr>ce_freelist = None, ce_state = FLA_SLAB_CACHE_ELEM_STALE\<rparr>)
     \<and> su_slab_nlb (fs_super fs) = g_slab_nlb geo \<and> su_npools (fs_super fs) = g_npools geo \<and> su_fmt_version (fs_super fs) = FLA_FMT_VER
     \<and> fs_state fs = FLA_STATE_OPEN \<and> cs_t (fs_cs fs) = FLA_CS_CNS \<and> dp_prep (fs_dp fs) = Some Prep_noop"

lemma unset_table_inv:
  assumes "ht_tbl H = Some (replicate n htbl_unset_entry)" "unat (ht_tbl_size H) = n" "ht_len H = 0" "0 < n" "n \<le> 2 ^ 16"
  shows "htbl_inv hm H" "htbl_view H = Map.empty"
proof -
  have n: "unat (ht_tbl_size H) \<le> 2 ^ 16" "0 < unat (ht_tbl_size H)" using assms(2,4,5) by simp_all
  let ?H = "H\<lparr>ht_tbl := None\<rparr>"
  from htbl_init_inv [of ?H "ht_tbl_size H" hm] n obtain H' where H': "htbl_init True ?H (ht_tbl_size H) = Some (0, H')" "htbl_inv hm H'"
    "ht_tbl_size H' = ht_tbl_size H" "ht_len H' = 0" "htbl_view H' = Map.empty" by auto
  then have "ht_tbl H' = ht_tbl H" using assms(1,2) by (auto simp: htbl_init_def fla_htbl_entries_init_def map_replicate_const)
  then show "htbl_inv hm H" "htbl_view H = Map.empty" using H' assms(3) by (simp_all add: htbl_inv_def htbl_view_def)
qed

lemma opened_fresh:
  assumes fresh: "fresh_md geo fs" and geo: "geo_ok X dev geo" "media X blk dev" and b: "length b = md_blocks geo * lbsz X dev"
    and np: "unat (g_npools geo) \<le> 2 ^ 15"
  shows "fresh_fs hm geo (opened X geo md (md_bytes fs b))"
proof -
  note G = geo_okD [OF geo]
  have g: "fs_geo fs = geo" using fresh by (simp add: fresh_md_def)
  note O = opened_md_bytes [where X = X and md = md, OF _ _ fresh_sizes [OF fresh], unfolded g, OF G(1) G(10) [OF b]]
  let ?fs = "opened X geo md (md_bytes fs b)"
  have n: "0 < unat (g_npools geo)" "0 < unat (g_nslabs geo)" "unat (g_nslabs geo) < 2 ^ 31" using geo(1) by (simp_all add: geo_ok_def geo_fits_def)
  have hd: "hh_size (po_htbl_hdr (fs_pools fs)) = gp_htbl_tbl_size (g_pool_sgmt geo)" "hh_len (po_htbl_hdr (fs_pools fs)) = 0"
    "ht_tbl (po_htbl (fs_pools fs)) = Some (replicate (htbl_slots geo) htbl_unset_entry)" using fresh by (simp_all add: fresh_md_def)
  have "0 < htbl_slots geo" "htbl_slots geo \<le> 2 ^ 16" using G(6) n(1) np by simp_all
  note tbl = unset_table_inv [OF O(7) [unfolded hd] arg_cong [where f = unat, OF O(8) [unfolded hd]] O(9) [unfolded hd] this]
  have "length (po_funcs (fs_pools ?fs)) = unat (g_npools geo)" using O(10) by (simp add: boot_funcs_def)
  moreover have "flist_inv (po_freelist (fs_pools fs))" "flist_cap (po_freelist (fs_pools fs)) = unat (g_npools geo)"
    "flist_free (po_freelist (fs_pools fs)) = {..<unat (g_npools geo)}" "entries fs = replicate (unat (g_npools geo)) pool_entry_zero"
    using fresh by (simp_all add: fresh_md_def)
  ultimately have dir: "dir_inv hm ?fs"
    unfolding dir_inv_def O(4,6,8) hd(1) using tbl G(6) by (simp add: pool_entry_zero_def)
  have "free_queue ?fs (map of_nat [0..<unat (g_nslabs geo)])"
    using fresh O(3) n(2,3) by (intro chained_queue) (simp_all add: fresh_md_def)
  then show ?thesis using fresh O tbl(2) dir n by (simp add: fresh_fs_def fresh_md_def slabs_ok_def)
qed

end
