(* ===== verification/Fla_Persist.thy ===== *)
theory Fla_Persist
  imports Fla_Mm
begin

text \<open>
  What survives on the device: a formatted device opens as an empty file system, and a file system
  that was synchronised opens with the same pools, slabs and objects.
\<close>

section \<open>Formatting and opening\<close>

lemma mkfs_geo_calc_md:
  "fla_mkfs_geo_calc dev md npools slab_nlb geo0 = Some (0, geo) \<Longrightarrow>
    g_md_nlb geo = ucast (FLA_CEIL_DIV sizeof_fla_super (ucast (xg_lba_nbytes dev)))"
  by (auto simp: fla_mkfs_geo_calc_def Let_def fla_geo_init_def split: if_splits option.splits)

text \<open>A geometry that \<open>fla_mkfs\<close> computes on a device of up to \<open>2^32\<close> blocks.\<close>

definition mkfs_geo :: "'d xnvme \<Rightarrow> fla_mkfs_p \<Rightarrow> fla_geo \<Rightarrow> fla_geo \<Rightarrow> bool" where
  "mkfs_geo X p geo0 geo \<longleftrightarrow> \<not> mp_md_dev_uri p
     \<and> fla_mkfs_geo_calc (x_geo X Data_dev) False (mp_npools p) (mp_slab_nlb p) geo0 = Some (0, geo)
     \<and> 8 \<le> unat (xg_tbytes (x_geo X Data_dev) div ucast (xg_lba_nbytes (x_geo X Data_dev)))
     \<and> unat (xg_tbytes (x_geo X Data_dev) div ucast (xg_lba_nbytes (x_geo X Data_dev))) < 2 ^ 32
     \<and> 2 \<le> unat (mp_slab_nlb p) \<and> md_blocks geo * lbsz X Data_dev < 2 ^ 32"

lemma mkfs_geo_ok:
  assumes "mkfs_geo X p geo0 geo" "media X blk Data_dev"
  shows "geo_ok X Data_dev geo" "g_nlb geo = xg_tbytes (x_geo X Data_dev) div ucast (xg_lba_nbytes (x_geo X Data_dev))"
proof -
  let ?g = "x_geo X Data_dev"
  have a: "fla_mkfs_geo_calc ?g False (mp_npools p) (mp_slab_nlb p) geo0 = Some (0, geo)" "2 \<le> unat (mp_slab_nlb p)"
    "8 \<le> unat (xg_tbytes ?g div ucast (xg_lba_nbytes ?g))" "unat (xg_tbytes ?g div ucast (xg_lba_nbytes ?g)) < 2 ^ 32"
    "md_blocks geo * lbsz X Data_dev < 2 ^ 32" and lb: "512 \<le> lbsz X Data_dev"
    using assms by (simp_all add: mkfs_geo_def media_def)
  note F = mkfs_geo_calc_fits [OF lb a(3,4,2,1)]
  then show "g_nlb geo = xg_tbytes ?g div ucast (xg_lba_nbytes ?g)" by simp
  have "md_blocks geo \<le> unat (g_nlb geo)" using F(1) unfolding geo_fits_def md_blocks_def by linarith
  also have "\<dots> = unat (xg_tbytes ?g) div lbsz X Data_dev" using F(2) by (simp add: unat_div unat_ucast_widen)
  finally have "md_blocks geo * lbsz X Data_dev \<le> unat (xg_tbytes ?g)"
    using lb by (simp add: less_eq_div_iff_mult_less_eq)
  then show "geo_ok X Data_dev geo"
    using F(1,2,4) a(4,5) mkfs_geo_calc_md [OF a(1)] super_blocks [OF lb] by (simp add: geo_ok_def)
qed

lemma geo_of_fresh_super:
  assumes "geo_ok X dev geo" "g_nlb geo = xg_tbytes (x_geo X Data_dev) div ucast (xg_lba_nbytes (x_geo X Data_dev))" "fresh_md geo fs"
  shows "fla_geo_from_super (x_geo X Data_dev) (fs_super fs) = geo"
  using assms by (simp add: fla_geo_from_super_def Let_def fresh_md_def geo_ok_def geo_fits_def)

lemma mkfs_run:
  assumes env: "media X blk Data_dev" "works X Data_dev" "plain_dev X" and geo: "mkfs_geo X p geo0 geo" "2 \<le> unat (g_nslabs geo)"
  shows "\<exists>d' fs b. fla_mkfs X p geo0 d = Some (0, d') \<and> fresh_md geo fs \<and> length b = md_blocks geo * lbsz X Data_dev
    \<and> holds blk Data_dev (lbsz X Data_dev) d' (md_bytes fs b)"
proof -
  note ok = mkfs_geo_ok(1) [OF geo(1) env(1)]
  note G = geo_okD [OF ok env(1)]
  have w: "x_malloc X s" "fla_xne_dev_open X Data_dev = 0" "fla_dev_sanity_check X None = 0" "reliable X Data_dev" for s
    using env(2) by (auto simp: works_def fla_xne_dev_open_def fla_dev_sanity_check_def)
  obtain b0 where b0: "x_buf_alloc X Data_dev (fla_geo_nbytes geo) = Some b0" using env(2) by (fastforce simp: works_def)
  moreover have "bufs X" "0 < lbsz X Data_dev" using env(1) by (auto simp: media_def)
  ultimately have b: "map (\<lambda>_. 0) b0 = replicate (md_blocks geo * lbsz X Data_dev) (0 :: u8)"
    using bufs_length G(3) by (metis map_replicate_const)
  have "md_blocks geo * lbsz X Data_dev \<le> unat (xg_tbytes (x_geo X Data_dev))" using ok unfolding geo_ok_def by metis
  then have "lr_is_valid (x_range_from_offset X Data_dev 0 (fla_geo_nbytes geo))"
    using env(2) G(3,7) \<open>0 < lbsz X Data_dev\<close> by (simp add: works_def)
  from mkfs_write_run [OF env(1,3) w(1) ok geo(2) b this, of d] w(4) obtain d' fs where
    "mkfs_write X geo Data_dev (map (\<lambda>_. 0) b0) d = Some (0, d')" "fresh_md geo fs"
    "holds blk Data_dev (lbsz X Data_dev) d' (md_bytes fs (map (\<lambda>_. 0) b0))" by blast
  then show ?thesis
    using w b0 geo(1) b
    by (intro exI [of _ d'] exI [of _ fs] exI [of _ "map (\<lambda>_. 0) b0"])
      (simp add: fla_mkfs_def mkfs_geo_def fla_xne_dev_mkfs_prepare_def fla_xne_alloc_buf_def Let_def)
qed

text \<open>The device in memory has what is asked of a device.\<close>

lemma mem_media: "media mem_xnvme mem_blk dev"
proof -
  have "lbsz mem_xnvme dv = 512" for dv by (simp add: mem_xnvme_def mem_geo_def)
  then show ?thesis using mem_storage mem_ranges mem_bufs mem_xfer_ok [of dev] by (simp add: media_def)
qed

lemma mem_plain: "plain_dev mem_xnvme"
  by (simp add: plain_dev_def fla_dp_type_def fla_xne_ctrl_idfy_def fla_dp_fdp_supported_def mem_xnvme_def mem_geo_def)

lemma mem_works: "works mem_xnvme dev"
  unfolding works_def
proof (intro conjI allI impI)
  show "fla_dev_sanity_check mem_xnvme (Some dev) = 0"
    by (simp add: fla_dev_sanity_check_def fla_xne_dev_mdts_nbytes_def FLA_MDTS_MIN_NBYTES_def mem_xnvme_def mem_geo_def fla_xne_dev_lba_nbytes_def)
  show "x_malloc mem_xnvme s" "x_buf_alloc mem_xnvme dv n \<noteq> None" "x_dev_open mem_xnvme dv" for s dv n by (simp_all add: mem_xnvme_def)
  show "reliable mem_xnvme dev" by (rule mem_reliable)
next
  fix off n :: u64
  assume a: "unat off mod lbsz mem_xnvme dev = 0 \<and> unat n mod lbsz mem_xnvme dev = 0 \<and> 0 < unat n
    \<and> unat off + unat n \<le> unat (xg_tbytes (x_geo mem_xnvme dev))"
  then have "unat (off mod 512) = 0" "unat (n mod 512) = 0" by (simp_all add: unat_mod mem_xnvme_def mem_geo_def)
  then have "off mod 512 = 0" "n mod 512 = 0" by (simp_all add: unat_eq_0)
  moreover have "unat (off div 512) + unat (n div 512) \<le> 1024" "n div 512 \<noteq> 0"
    using a by (auto simp: unat_div mem_xnvme_def mem_geo_def unat_eq_0 [symmetric])
  ultimately show "lr_is_valid (x_range_from_offset mem_xnvme dev off n)" by (simp add: mem_xnvme_def mem_range_def)
next
  fix slba n :: u64
  assume "0 < unat n \<and> (unat slba + unat n) * lbsz mem_xnvme dev \<le> unat (xg_tbytes (x_geo mem_xnvme dev))"
  then show "lr_is_valid (x_range_from_slba mem_xnvme dev slba n)" by (auto simp: mem_xnvme_def mem_geo_def mem_range_def)
qed

definition mkfs_example :: fla_mkfs_p where
  "mkfs_example = \<lparr>mp_md_dev_uri = False, mp_slab_nlb = 200, mp_npools = 2\<rparr>"

lemma mkfs_example_geo: "mkfs_geo mem_xnvme mkfs_example (fs_geo fs_zero) geo_example"
proof -
  have "x_geo mem_xnvme Data_dev = dev_example" by (simp add: mem_xnvme_def mem_geo_def dev_example_def)
  moreover have "md_blocks geo_example = 5"
    by (simp add: md_blocks_def geo_example_def fla_geo_pool_sgmt_nblocks_def fla_geo_slab_sgmt_nblocks_def)
  ultimately show ?thesis using geo_example_calc by (simp add: mkfs_geo_def mkfs_example_def) (simp add: dev_example_def)
qed

section \<open>Synchronising\<close>

text \<open>Flushing the cache leaves the freelists on the device that the cache does not hold.\<close>

definition stale_kept :: "('d \<Rightarrow> xdev \<Rightarrow> nat \<Rightarrow> u8 list) \<Rightarrow> flexalloc \<Rightarrow> 'd \<Rightarrow> flexalloc \<Rightarrow> 'd \<Rightarrow> bool" where
  "stale_kept blk fs d fs' d' \<longleftrightarrow> (\<forall>j e g. unat j < unat (g_nslabs (fs_geo fs)) \<and> get_elem fs j = Some e
     \<and> ce_state e = FLA_SLAB_CACHE_ELEM_STALE \<and> flist_blocks (lb_of fs) (flist_cap g) \<le> slot_room fs \<and> stored blk fs d j g
     \<longrightarrow> get_elem fs' j = Some e \<and> stored blk fs d' j g)"

lemma elem_flush_kept:
  assumes env: "cache_env X blk fs" and inv: "cache_inv blk fs d" and i: "unat i < unat (g_nslabs (fs_geo fs))"
    and fl: "fla_slab_cache_elem_flush X fs i d = Some (r, fs', d')"
  shows "stale_kept blk fs d fs' d'"
proof -
  obtain e where e: "get_elem fs i = Some e" "elem_inv blk fs d i e" using cache_invD [OF inv i] .
  show ?thesis
  proof (cases "ce_state e = FLA_SLAB_CACHE_ELEM_DIRTY")
    case False
    then have "fs' = fs" "d' = d" using fl e(1) by (simp_all add: fla_slab_cache_elem_flush_def)
    then show ?thesis by (simp add: stale_kept_def)
  next
    case True
    then obtain f where f: "ce_freelist e = Some f" "flist_blocks (lb_of fs) (flist_cap f) \<le> slot_room fs" "elem_ok fs e"
      using e(2) by (auto simp: elem_inv_def elem_ok_def)
    from elem_flush_dirty [OF env e(1) f(3) True f(1) i f(2), of d] fl
    have fs': "fs' = (if r = 0 then put_elem fs i (e\<lparr>ce_state := FLA_SLAB_CACHE_ELEM_CLEAN\<rparr>) else fs)"
      and frame: "\<forall>dv b. \<not> (dv = cache_dev fs \<and> b \<in> {flist_slot fs (unat i) (flist_blocks (lb_of fs) (flist_cap f))..<
          flist_slot fs (unat i) (flist_blocks (lb_of fs) (flist_cap f)) + flist_blocks (lb_of fs) (flist_cap f)})
         \<longrightarrow> blk d' dv b = blk d dv b" by auto
    show ?thesis
      unfolding stale_kept_def
    proof (intro allI impI)
      fix j x g
      assume a: "unat j < unat (g_nslabs (fs_geo fs)) \<and> get_elem fs j = Some x \<and> ce_state x = FLA_SLAB_CACHE_ELEM_STALE
        \<and> flist_blocks (lb_of fs) (flist_cap g) \<le> slot_room fs \<and> stored blk fs d j g"
      then have ne: "j \<noteq> i" using e(1) True by auto
      have "stored blk fs d' j g" using stored_frame [OF _ ne f(2) _ frame] a by blast
      then show "get_elem fs' j = Some x \<and> stored blk fs d' j g" using a ne by (simp add: fs' get_put_elem [OF e(1)])
    qed
  qed
qed

lemma stale_kept_trans:
  assumes "stale_kept blk fs d fs1 d1" "stale_kept blk fs1 d1 fs2 d2" "same_env fs fs1"
  shows "stale_kept blk fs d fs2 d2"
proof -
  have s: "fs_geo fs1 = fs_geo fs" "slot_room fs1 = slot_room fs" "stored blk fs1 d' j g = stored blk fs d' j g" for d' j g
    using assms(3) stored_cong [of fs1 fs blk d' j g] by (simp_all add: same_env_def slot_room_def)
  show ?thesis using assms(1,2) unfolding stale_kept_def s by blast
qed

lemma flush_loop_kept:
  assumes "cache_env X blk fs" "cache_inv blk fs d" "k + m = unat (g_nslabs (fs_geo fs))"
    "cache_flush_loop X fs k m err d = Some (err', fs', d')"
  shows "stale_kept blk fs d fs' d'"
  using assms
proof (induction m arbitrary: fs k err d)
  case 0
  then show ?case by (simp add: stale_kept_def)
next
  case (Suc m)
  have k: "unat (of_nat k :: u32) < unat (g_nslabs (fs_geo fs))"
    using Suc.prems(3) unat_less_exp [of "g_nslabs (fs_geo fs)"] by (subst unat_of_nat_small) simp_all
  from flush_inv [OF Suc.prems(1,2) k] obtain r fs1 d1 where
    fl: "fla_slab_cache_elem_flush X fs (of_nat k) d = Some (r, fs1, d1)" "cache_inv blk fs1 d1" "same_env fs fs1" by blast
  have env: "cache_env X blk fs1" using fl(3) Suc.prems(1) cache_env_cong [of fs1 fs X blk] by (simp add: same_env_def)
  have "Suc k + m = unat (g_nslabs (fs_geo fs1))" using Suc.prems(3) fl(3) by (simp add: same_env_def)
  from Suc.IH [OF env fl(2) this] Suc.prems(4) fl(1) have "stale_kept blk fs1 d1 fs' d'" by simp
  then show ?case using stale_kept_trans [OF elem_flush_kept [OF Suc.prems(1,2) k fl(1)] _ fl(3)] by blast
qed

lemma flush_kept:
  assumes "cache_env X blk fs" "cache_inv blk fs d" "fla_slab_cache_flush X fs d = Some (err, fs', d')"
  shows "stale_kept blk fs d fs' d'"
proof (cases "fs_slab_cache fs")
  case (Some c)
  then show ?thesis using assms(3) flush_loop_kept [OF assms(1,2), of 0] by (simp add: fla_slab_cache_flush_def)
qed (use assms(3) in \<open>simp add: fla_slab_cache_flush_def stale_kept_def\<close>)

text \<open>Flushing writes only the places of the freelists that the cache holds.\<close>

definition cached_slot :: "flexalloc \<Rightarrow> xdev \<Rightarrow> nat \<Rightarrow> bool" where
  "cached_slot fs dv b \<longleftrightarrow> (\<exists>j f. unat j < unat (g_nslabs (fs_geo fs)) \<and> map_option ce_freelist (get_elem fs j) = Some (Some f)
     \<and> flist_blocks (lb_of fs) (flist_cap f) \<le> slot_room fs \<and> dv = cache_dev fs
     \<and> b \<in> {flist_slot fs (unat j) (flist_blocks (lb_of fs) (flist_cap f))..<
         flist_slot fs (unat j) (flist_blocks (lb_of fs) (flist_cap f)) + flist_blocks (lb_of fs) (flist_cap f)})"

lemma cached_slot_cong:
  assumes "same_env fs fs'" "same_lists fs fs'"
  shows "cached_slot fs' dv b = cached_slot fs dv b"
proof -
  have e: "fs_dev fs' = fs_dev fs" "fs_geo fs' = fs_geo fs" using assms(1) by (simp_all add: same_env_def)
  then have "flist_slot fs' = flist_slot fs" "slot_room fs' = slot_room fs" "cache_dev fs' = cache_dev fs"
    by (simp_all add: flist_slot_def slab_start_def slot_room_def cache_dev_def fun_eq_iff)
  then show ?thesis using assms(2) e unfolding cached_slot_def same_lists_def by (simp cong: conj_cong)
qed

lemma elem_flush_frame:
  assumes env: "cache_env X blk fs" and inv: "cache_inv blk fs d" and i: "unat i < unat (g_nslabs (fs_geo fs))"
    and fl: "fla_slab_cache_elem_flush X fs i d = Some (r, fs', d')" and b: "\<not> cached_slot fs dv b"
  shows "blk d' dv b = blk d dv b"
proof -
  obtain e where e: "get_elem fs i = Some e" "elem_inv blk fs d i e" using cache_invD [OF inv i] .
  show ?thesis
  proof (cases "ce_state e = FLA_SLAB_CACHE_ELEM_DIRTY")
    case True
    then obtain f where f: "ce_freelist e = Some f" "flist_blocks (lb_of fs) (flist_cap f) \<le> slot_room fs" "elem_ok fs e"
      using e(2) by (auto simp: elem_inv_def elem_ok_def)
    have "\<not> (dv = cache_dev fs \<and> b \<in> {flist_slot fs (unat i) (flist_blocks (lb_of fs) (flist_cap f))..<
          flist_slot fs (unat i) (flist_blocks (lb_of fs) (flist_cap f)) + flist_blocks (lb_of fs) (flist_cap f)})"
      using b i e(1) f(1,2) unfolding cached_slot_def by force
    with elem_flush_dirty [OF env e(1) f(3) True f(1) i f(2), of d] fl show ?thesis by auto
  qed (use fl e(1) in \<open>simp add: fla_slab_cache_elem_flush_def\<close>)
qed

lemma flush_loop_frame:
  assumes "cache_env X blk fs" "cache_inv blk fs d" "k + m = unat (g_nslabs (fs_geo fs))"
    "cache_flush_loop X fs k m err d = Some (err', fs', d')" "\<not> cached_slot fs dv b"
  shows "blk d' dv b = blk d dv b"
  using assms
proof (induction m arbitrary: fs k err d)
  case (Suc m)
  have k: "unat (of_nat k :: u32) < unat (g_nslabs (fs_geo fs))"
    using Suc.prems(3) unat_less_exp [of "g_nslabs (fs_geo fs)"] by (subst unat_of_nat_small) simp_all
  from flush_inv [OF Suc.prems(1,2) k] obtain r fs1 d1 where
    fl: "fla_slab_cache_elem_flush X fs (of_nat k) d = Some (r, fs1, d1)" "cache_inv blk fs1 d1" "same_env fs fs1" "same_lists fs fs1"
    by (auto simp: same_lists_def)
  have env: "cache_env X blk fs1" using fl(3) Suc.prems(1) cache_env_cong [of fs1 fs X blk] by (simp add: same_env_def)
  have "Suc k + m = unat (g_nslabs (fs_geo fs1))" using Suc.prems(3) fl(3) by (simp add: same_env_def)
  from Suc.IH [OF env fl(2) this] Suc.prems(4,5) fl(1) cached_slot_cong [OF fl(3,4)] have "blk d' dv b = blk d1 dv b" by simp
  then show ?case using elem_flush_frame [OF Suc.prems(1,2) k fl(1) Suc.prems(5)] by simp
qed simp

lemma flush_frame:
  assumes "cache_env X blk fs" "cache_inv blk fs d" "fla_slab_cache_flush X fs d = Some (err, fs', d')" "\<not> cached_slot fs dv b"
  shows "blk d' dv b = blk d dv b"
proof (cases "fs_slab_cache fs")
  case (Some c)
  then show ?thesis using assms(3,4) flush_loop_frame [OF assms(1,2), of 0] by (simp add: fla_slab_cache_flush_def)
qed (use assms(3) in \<open>simp add: fla_slab_cache_flush_def\<close>)

text \<open>The blocks of an object are not places of freelists.\<close>

lemma object_apart_from_slot:
  assumes env: "pool_env X blk fs n" and ph: "ph_ndx ph = 0" and md: "\<not> dv_md_dev (fs_dev fs)"
    and ob: "unat (ob_entry_ndx ob) < unat n" "b \<in> obj_blocks fs ph ob"
    and m: "m \<le> slot_room fs" "j = ob_slab_id ob \<Longrightarrow> m = flist_blocks (lb_of fs) (unat n)"
  shows "b \<notin> {flist_slot fs (unat j) m..<flist_slot fs (unat j) m + m}"
proof -
  let ?x = "unat (ob_slab_id ob)" and ?s = "unat (g_slab_nlb (fs_geo fs))" and ?o = "obj_nlb fs ph"
  have "0 < lb_of fs" "fla_calc_objs_in_slab fs (pe_obj_nlb (entries fs ! unat (ph_ndx ph))) = Some n" "n \<noteq> 0"
    using env ph by (auto simp: pool_env_def cache_env_def)
  note fit = calc_objs_in_slab_spec(1) [OF this(1) md this(2,3)]
  have "Suc (unat (ob_entry_ndx ob)) * ?o \<le> unat n * ?o" using ob(1) by (intro mult_le_mono1) simp
  then have b: "slab_start fs ?x \<le> b" "b < slab_start fs ?x + unat n * ?o"
    using ob(2) by (auto simp: obj_blocks_def obj_start_def)
  have slot: "flist_slot fs (unat j) m = slab_start fs (unat j) + ?s - m" using md by (simp add: flist_slot_def)
  have room: "m \<le> ?s" using m(1) md by (simp add: slot_room_def)
  show ?thesis
  proof (cases "j = ob_slab_id ob")
    case True
    then show ?thesis using m(2) b fit room unfolding slot by auto
  next
    case False
    then have "?x \<noteq> unat j" by simp
    from slabs_apart [OF this, of fs] have "b \<notin> {slab_start fs (unat j)..<slab_start fs (unat j) + ?s}" using b fit by auto
    then show ?thesis using room unfolding slot by auto
  qed
qed

text \<open>A freelist that the cache holds for a slab of the pool has an entry for every object.\<close>

lemma cached_cap:
  assumes "pool_rep blk fs d n L F Q {}" "x \<in> slabs_of L" "get_elem fs x = Some e" "ce_freelist e = Some f" "slabs_ok fs"
  shows "flist_cap f = unat n"
proof -
  have "unat x < unat (g_nslabs (fs_geo fs))" using pool_repD(2) [OF assms(1,2)] assms(5) by (simp add: slabs_ok_def)
  then have "elem_inv blk fs d x e" using assms(1,3) by (auto simp: pool_rep_def cache_inv_def)
  then have "ce_state e \<noteq> FLA_SLAB_CACHE_ELEM_STALE" using assms(4) by (auto simp: elem_inv_def elem_ok_def)
  then show ?thesis using pool_repD(1) [OF assms(1,2)] assms(3,4) by (auto simp: slab_holds_def)
qed

lemma object_not_slot:
  assumes env: "pool_env X blk fs n" and rep: "pool_rep blk fs d n L F Q {}" and ph: "ph_ndx ph = 0"
    and ob: "ob \<in> objects n L F" "b \<in> obj_blocks fs ph ob"
  shows "\<not> cached_slot fs Data_dev b"
proof
  assume "cached_slot fs Data_dev b"
  then obtain j f e where j: "get_elem fs j = Some e" "ce_freelist e = Some f"
    "flist_blocks (lb_of fs) (flist_cap f) \<le> slot_room fs" "Data_dev = cache_dev fs"
    "b \<in> {flist_slot fs (unat j) (flist_blocks (lb_of fs) (flist_cap f))..<
         flist_slot fs (unat j) (flist_blocks (lb_of fs) (flist_cap f)) + flist_blocks (lb_of fs) (flist_cap f)}"
    by (auto simp: cached_slot_def)
  have md: "\<not> dv_md_dev (fs_dev fs)" using j(4) by (auto simp: cache_dev_def split: if_splits)
  have x: "ob_slab_id ob \<in> slabs_of L" "unat (ob_entry_ndx ob) < unat n" using ob(1) by (auto simp: objects_def word_less_nat_alt)
  have "flist_cap f = unat n" if "j = ob_slab_id ob"
    using cached_cap [OF rep _ j(1,2)] x(1) env that by (simp add: pool_env_def)
  then show False using object_apart_from_slot [OF env ph md x(2) ob(2) j(3), of j] j(5) by simp
qed

text \<open>After a flush without errors the freelists of a pool's slabs are all on the device.\<close>

lemma flush_stores_slab:
  assumes env: "pool_env X blk fs n" and inv: "cache_inv blk fs d" and x: "slab_holds blk fs d n x f" "unat x < length (hdrs fs)"
    and fl: "fla_slab_cache_flush X fs d = Some (0, fs1, d1)"
  shows "stored blk fs d1 x f"
proof -
  have c: "cache_env X blk fs" "unat x < unat (g_nslabs (fs_geo fs))" "flist_blocks (lb_of fs) (unat n) \<le> slot_room fs"
    using env x(2) by (simp_all add: pool_env_def slabs_ok_def)
  obtain e where e: "get_elem fs x = Some e" "if ce_state e = FLA_SLAB_CACHE_ELEM_STALE then stored blk fs d x f else ce_freelist e = Some f"
    "flist_cap f = unat n" using x(1) by (auto simp: slab_holds_def)
  show ?thesis
  proof (cases "ce_state e = FLA_SLAB_CACHE_ELEM_STALE")
    case True
    then show ?thesis using flush_kept [OF c(1) inv fl] e c(2,3) by (auto simp: stale_kept_def)
  next
    case False
    have "fs_slab_cache fs \<noteq> None" using e(1) by (auto simp: get_elem_def bind_eq_Some_conv)
    with fla_slab_cache_flush_inv [OF c(1) inv] fl c(2) have
      f1: "cache_inv blk fs1 d1" "same_env fs fs1" "same_lists fs fs1" "not_dirty fs1 x" by auto
    obtain e1 where e1: "get_elem fs1 x = Some e1" "elem_inv blk fs1 d1 x e1"
      using cache_invD [OF f1(1), of x] c(2) f1(2) by (auto simp: same_env_def)
    have "ce_freelist e1 = Some f" using f1(3) e(1,2) e1(1) c(2) False by (auto simp: same_lists_def)
    moreover from this have "ce_state e1 = FLA_SLAB_CACHE_ELEM_CLEAN"
      using f1(4) e1 by (cases "ce_state e1") (auto simp: not_dirty_def elem_inv_def elem_ok_def)
    ultimately have "stored blk fs1 d1 x f" using e1(2) by (simp add: elem_inv_def)
    then show ?thesis using stored_cong [of fs1 fs blk d1 x f] f1(2) by (simp add: same_env_def)
  qed
qed

section \<open>A file system that is open\<close>

text \<open>
  The parts of an open file system that its own operations leave in place: the state flag, the
  device, the command set, a super block from which the geometry is computed, and structures of
  the sizes of the geometry, with a buffer for them.
\<close>

definition mounted :: "'d xnvme \<Rightarrow> flexalloc \<Rightarrow> u8 list \<Rightarrow> bool" where
  "mounted X fs buf \<longleftrightarrow> fs_state fs = FLA_STATE_OPEN \<and> dv_lb_nbytes (fs_dev fs) = xg_lba_nbytes (x_geo X Data_dev)
     \<and> fs_cs fs = \<lparr>cs_t = FLA_CS_CNS, cs_zns = None\<rparr> \<and> geo_ok X (cache_dev fs) (fs_geo fs)
     \<and> fla_geo_from_super (x_geo X Data_dev) (fs_super fs) = fs_geo fs \<and> su_magic (fs_super fs) = FLA_MAGIC
     \<and> md_sizes fs \<and> hh_size (po_htbl_hdr (fs_pools fs)) = ht_tbl_size (po_htbl (fs_pools fs))
     \<and> flist_inv (po_freelist (fs_pools fs)) \<and> flist_cap (po_freelist (fs_pools fs)) = unat (g_npools (fs_geo fs))
     \<and> length buf = md_blocks (fs_geo fs) * lbsz X (cache_dev fs)"

lemma md_sizes_rest:
  assumes "same_rest fs fs'" "md_sizes fs"
  shows "md_sizes fs'"
proof -
  have d: "map entry_data (entries fs') = map entry_data (entries fs)" using assms(1) by (simp add: same_rest_def)
  note len = map_eq_imp_length_eq [OF d]
  have "length (pe_name (entries fs' ! i)) = FLA_NAME_SIZE_POOL" if "i < length (entries fs')" for i
    using map_nth_same [OF d that [unfolded len]] assms(2) that len by (simp add: md_sizes_def entry_data_def)
  then have "\<forall>e\<in>set (entries fs'). length (pe_name e) = FLA_NAME_SIZE_POOL" by (simp add: all_set_conv_all_nth)
  then show ?thesis using assms len by (simp add: same_rest_def md_sizes_def)
qed

lemma mounted_rest:
  assumes "mounted X fs buf" "same_rest fs fs'"
  shows "mounted X fs' buf"
proof -
  have e: "fs_state fs' = fs_state fs" "fs_dev fs' = fs_dev fs" "fs_cs fs' = fs_cs fs" "fs_geo fs' = fs_geo fs" "fs_super fs' = fs_super fs"
    "po_freelist (fs_pools fs') = po_freelist (fs_pools fs)" "po_htbl (fs_pools fs') = po_htbl (fs_pools fs)"
    "po_htbl_hdr (fs_pools fs') = po_htbl_hdr (fs_pools fs)" using assms(2) by (simp_all add: same_rest_def)
  have "cache_dev fs' = cache_dev fs" using e(2) by (simp add: cache_dev_def)
  moreover have "md_sizes fs'" using md_sizes_rest [OF assms(2)] assms(1) by (simp add: mounted_def)
  ultimately show ?thesis using assms(1) unfolding mounted_def e by simp
qed

text \<open>\<open>fla_flush\<close> on an open file system, and what the device holds after it.\<close>

definition synced :: "flexalloc \<Rightarrow> flexalloc" where
  "synced fs = set_pools fs ((fs_pools fs)\<lparr>po_htbl_hdr := (po_htbl_hdr (fs_pools fs))\<lparr>hh_len := ht_len (po_htbl (fs_pools fs))\<rparr>\<rparr>)"

lemma flush_run:
  assumes env: "media X blk (cache_dev fs)" "works X (cache_dev fs)" and m: "mounted X fs buf"
    and c: "cache_env X blk fs" "cache_inv blk fs d" "dev_good X fs" "fs_slab_cache fs \<noteq> None"
  shows "\<exists>fs1 d1 d'. fla_slab_cache_flush X fs d = Some (0, fs1, d1) \<and> same_env fs fs1
    \<and> fla_flush X fs buf d = Some (0, synced fs1, d')
    \<and> holds blk (cache_dev fs) (lbsz X (cache_dev fs)) d' (md_bytes (synced fs) buf)
    \<and> (\<forall>dv i. \<not> (dv = cache_dev fs \<and> i < md_blocks (fs_geo fs)) \<longrightarrow> blk d' dv i = blk d1 dv i)"
proof -
  let ?dev = "cache_dev fs"
  have geo: "geo_ok X ?dev (fs_geo fs)" and len: "length buf = md_blocks (fs_geo fs) * lbsz X ?dev" using m by (simp_all add: mounted_def)
  note G = geo_okD [OF geo env(1)]
  from fla_slab_cache_flush_inv [OF c(1,2,4)] c(3) obtain fs1 d1 where
    fl: "fla_slab_cache_flush X fs d = Some (0, fs1, d1)" "same_env fs fs1" by auto
  have same: "fs_geo (synced fs1) = fs_geo fs" "md_bytes (synced fs1) buf = md_bytes (synced fs) buf" "cache_dev (synced fs1) = ?dev"
    using fl(2) by (simp_all add: same_env_def synced_def set_pools_def md_bytes_def md_parts_def cache_dev_def)
  have sz: "md_sizes (synced fs)" "fs_geo (synced fs) = fs_geo fs" using m by (simp_all add: mounted_def md_sizes_def synced_def set_pools_def)
  have lb: "length (md_bytes (synced fs) buf) = md_blocks (fs_geo fs) * lbsz X ?dev"
    using md_bytes_read(1) [of "synced fs" buf] sz G(1) G(10) [OF len] len by simp
  define r where "r = x_range_from_slba X ?dev 0 (ucast (fla_geo_nblocks (fs_geo fs)))"
  have n: "unat (ucast (fla_geo_nblocks (fs_geo fs)) :: u64) = md_blocks (fs_geo fs)" using G(4) by (simp add: unat_ucast_widen)
  have "md_blocks (fs_geo fs) * lbsz X ?dev \<le> unat (xg_tbytes (x_geo X ?dev))" using geo G(11) unfolding geo_ok_def by metis
  then have v: "lr_is_valid r" using env(2) n G(7) unfolding works_def r_def by simp
  have "ranges X" using env(1) by (simp add: media_def)
  note R = range_slba [OF this v [unfolded r_def], folded r_def, unfolded n]
  have R': "lr_slba r = 0" "unat (lr_elba r) = md_blocks (fs_geo fs) - 1" using R(1,2) by simp_all
  let ?io = "\<lparr>xi_io_type = FLA_IO_DATA_WRITE, xi_dev = ?dev, xi_buf = md_bytes (synced fs) buf, xi_lba_range = r,
    xi_pool_handle = None, xi_obj_handle = None, xi_prep_ctx = None\<rparr>"
  from md_write [OF env(1) R' G(7,8) lb, of ?io "fs_dp fs1" d1] env(2) obtain d' where
    w: "fla_xne_sync_seq_w_xneio X ?io (fs_dp fs1) d1 = Some (0, fs_dp fs1, d')" "holds blk ?dev (lbsz X ?dev) d' (md_bytes (synced fs) buf)"
      "\<forall>dv i. \<not> (dv = ?dev \<and> i < md_blocks (fs_geo fs)) \<longrightarrow> blk d' dv i = blk d1 dv i" by (auto simp: works_def)
  have "fs_state fs AND FLA_STATE_OPEN \<noteq> 0" using m by (simp add: mounted_def FLA_STATE_OPEN_def)
  then have "fla_flush X fs buf d = Some (0, synced fs1, d')"
    using fl(1) v w(1) same
    by (simp add: fla_flush_def Let_def synced_def [symmetric] FLA_SUPER_SLBA_def fla_xne_lba_range_from_slba_naddrs_def r_def [symmetric])
      (simp add: synced_def set_pools_def)
  then show ?thesis using fl w(2,3) by blast
qed

text \<open>The file system that is opened after a synchronisation.\<close>

definition reopened :: "flexalloc \<Rightarrow> flexalloc \<Rightarrow> bool" where
  "reopened fs fs' \<longleftrightarrow> fs_dev fs' = fs_dev fs \<and> fs_geo fs' = fs_geo fs \<and> fs_cs fs' = fs_cs fs \<and> fs_super fs' = fs_super fs
     \<and> fs_slabs fs' = fs_slabs fs \<and> entries fs' = entries fs \<and> po_freelist (fs_pools fs') = po_freelist (fs_pools fs)
     \<and> ht_tbl (po_htbl (fs_pools fs')) = ht_tbl (po_htbl (fs_pools fs))
     \<and> ht_tbl_size (po_htbl (fs_pools fs')) = ht_tbl_size (po_htbl (fs_pools fs))
     \<and> ht_len (po_htbl (fs_pools fs')) = ht_len (po_htbl (fs_pools fs))
     \<and> po_funcs (fs_pools fs') = boot_funcs (po_freelist (fs_pools fs)) (unat (g_npools (fs_geo fs)))
     \<and> fs_slab_cache fs' = Some (replicate (unat (g_nslabs (fs_geo fs))) \<lparr>ce_freelist = None, ce_state = FLA_SLAB_CACHE_ELEM_STALE\<rparr>)"

lemma opened_synced:
  assumes env: "media X blk (cache_dev fs)" "works X (cache_dev fs)" "plain_dev X" and m: "mounted X fs buf"
    and h: "holds blk (cache_dev fs) (lbsz X (cache_dev fs)) d (md_bytes (synced fs) buf)"
  shows "\<exists>fs'. fla_open X (dv_md_dev (fs_dev fs)) d = Some (0, Some (fs', md_bytes (synced fs) buf)) \<and> reopened fs fs'
    \<and> mounted X fs' (md_bytes (synced fs) buf)"
proof -
  let ?md = "dv_md_dev (fs_dev fs)" and ?geo = "fs_geo fs" and ?b = "md_bytes (synced fs) buf"
  have dev: "cache_dev fs = md_of ?md" by (simp add: cache_dev_def)
  have geo: "geo_ok X (cache_dev fs) ?geo" and len: "length buf = md_blocks ?geo * lbsz X (cache_dev fs)" and sz: "md_sizes fs"
    using m by (simp_all add: mounted_def)
  note G = geo_okD [OF geo env(1)]
  have s: "md_sizes (synced fs)" "fs_geo (synced fs) = ?geo" "fs_super (synced fs) = fs_super fs" "fs_slabs (synced fs) = fs_slabs fs"
    using sz by (simp_all add: md_sizes_def synced_def set_pools_def)
  note R = md_bytes_read [OF _ _ s(1), unfolded s, OF G(1) G(10) [OF len]]
  note O = opened_md_bytes [where X = X and md = ?md, OF _ _ s(1), unfolded s, OF G(1) G(10) [OF len]]
  let ?fs = "opened X ?geo ?md ?b"
  have su: "su_magic (fs_super fs) = FLA_MAGIC" "fla_geo_from_super (x_geo X Data_dev) (fs_super fs) = ?geo"
    "flist_inv (po_freelist (fs_pools fs))" "flist_cap (po_freelist (fs_pools fs)) = unat (g_npools ?geo)" using m by (simp_all add: mounted_def)
  have f: "po_freelist (md_pools ?geo ?b (fs_pools fs_zero)) = po_freelist (fs_pools fs)" using R(4) by (simp add: synced_def set_pools_def)
  have op: "fla_open X ?md d = Some (0, Some (?fs, ?b))"
  proof (rule fla_open_run [of X blk ?md d ?b ?geo "po_freelist (fs_pools fs)", folded dev, OF env h _ _ _ geo f])
    show "length ?b = md_blocks ?geo * lbsz X (cache_dev fs)" using R(1) len by simp
  qed (simp_all add: R(2) su)
  have cs: "fs_cs ?fs = fs_cs fs" and dv: "fs_dev ?fs = fs_dev fs"
    using m by (simp_all add: mounted_def opened_def booted_def Let_def fla_xne_dev_lba_nbytes_def)
  have ns: "su_nslabs (fs_super fs) = g_nslabs ?geo" unfolding su(2) [symmetric] by (simp add: fla_geo_from_super_def Let_def)
  have hd: "hh_size (po_htbl_hdr (fs_pools fs)) = ht_tbl_size (po_htbl (fs_pools fs))" using m by (simp add: mounted_def)
  have re: "reopened fs ?fs" unfolding reopened_def using O(1-11) cs dv ns hd by (simp add: synced_def set_pools_def)
  have "md_sizes ?fs" using sz re O(1,3) unfolding reopened_def md_sizes_def by simp
  moreover have "cache_dev ?fs = cache_dev fs" using dv by (simp add: cache_dev_def)
  moreover have "hh_size (po_htbl_hdr (fs_pools ?fs)) = ht_tbl_size (po_htbl (fs_pools ?fs))" using O(5,8) by simp
  moreover have "fs_state ?fs = FLA_STATE_OPEN" by (rule O(12))
  ultimately have "mounted X ?fs ?b"
    using m R(1) len re unfolding mounted_def reopened_def by simp
  then show ?thesis using op re by blast
qed

text \<open>Writing the metadata does not touch the freelists of the slabs.\<close>

lemma stored_beyond_md:
  assumes "stored blk fs d x f" "flist_blocks (lb_of fs) (flist_cap f) \<le> slot_room fs"
    "\<forall>dv i. \<not> (dv = cache_dev fs \<and> i < md_blocks (fs_geo fs)) \<longrightarrow> blk d' dv i = blk d dv i"
  shows "stored blk fs d' x f"
proof -
  have "md_blocks (fs_geo fs) \<le> flist_slot fs (unat x) (flist_blocks (lb_of fs) (flist_cap f))"
    using assms(2) by (auto simp: flist_slot_def slot_room_def slab_start_def)
  then have "\<not> flist_slot fs (unat x) (flist_blocks (lb_of fs) (flist_cap f)) + k < md_blocks (fs_geo fs)" for k by simp
  then show ?thesis using assms(1,3) unfolding stored_def Let_def by simp
qed

lemma reopened_store:
  assumes re: "reopened fs fs'" and env: "pool_env X blk fs n" "dev_good X fs" and rep: "pool_rep blk fs d n L F Q {}"
    and st: "\<forall>x\<in>slabs_of L. stored blk fs d' x (F x)" and f0: "get_fnc fs' 0 = Some Pool_fnc_default" and ph: "ph_ndx ph = 0"
  shows "store_rep (X, blk, ph, d') fs' (objects n L F)"
proof -
  have e: "fs_dev fs' = fs_dev fs" "fs_geo fs' = fs_geo fs" "fs_cs fs' = fs_cs fs" "fs_super fs' = fs_super fs" "fs_slabs fs' = fs_slabs fs"
    "entries fs' = entries fs" using re by (simp_all add: reopened_def)
  have ok: "slabs_ok fs" using env(1) by (simp add: pool_env_def)
  have "slot_room fs' = slot_room fs" using e(1,2) by (simp add: slot_room_def)
  then have pe: "pool_env X blk fs' n"
    using env(1) f0 e slabs_ok_cong [of fs' fs] cache_env_cong [OF e(1-4), of X blk] calc_objs_cong [OF e(2,1)]
    by (simp add: pool_env_def)
  have good: "dev_good X fs'" using env(2) dev_good_cong [OF e(1-4), of X] by simp
  have el: "get_elem fs' i = Some \<lparr>ce_freelist = None, ce_state = FLA_SLAB_CACHE_ELEM_STALE\<rparr>" if "unat i < unat (g_nslabs (fs_geo fs))" for i
    using re that by (simp add: reopened_def get_elem_def)
  have inv: "cache_inv blk fs' d'" using el e(2) by (auto simp: cache_inv_def elem_inv_stale)
  have lists: "lists_ok fs' L Q" using pool_rep_lists [OF rep] by (simp add: lists_ok_def free_queue_def head_of_def e)
  have "\<exists>x'. get_elem fs' x = Some x' \<and> ce_state x' = FLA_SLAB_CACHE_ELEM_STALE" if "x \<in> set Q" for x
  proof -
    have "free_queue fs Q" using pool_rep_lists [OF rep] by (simp add: lists_ok_def)
    then have "unat x < unat (g_nslabs (fs_geo fs))" using free_queue_in that ok by (metis slabs_ok_def)
    then show ?thesis using el by simp
  qed
  moreover have "slab_holds blk fs' d' n x (F x)" if "x \<in> slabs_of L" for x
  proof -
    have x: "slab_holds blk fs d n x (F x)" "unat x < length (hdrs fs)" using pool_repD [OF rep that] by simp_all
    moreover have "stored blk fs' d' x (F x)" using st that stored_cong [OF e(1,2), of blk d' x "F x"] by blast
    ultimately show ?thesis using el [of x] ok by (simp add: slab_holds_def slabs_ok_def flist_fits_def e)
  qed
  moreover have "h = cls n (sh_refcount (hdrs fs' ! unat x))" if "h \<in> pool_heads" "x \<in> set (L h)" for h x
    using pool_rep_class [OF rep that] e(5) by simp
  ultimately have "pool_rep blk fs' d' n L F Q {}" unfolding pool_rep_def using lists inv by blast
  then show ?thesis using pe good ph by (auto simp: store_rep_def)
qed

section \<open>Synchronising and opening\<close>

text \<open>The function table of the first pool after opening: it is left out when there are 32 pools.\<close>

lemma reopened_fnc:
  assumes "reopened fs fs'" "mounted X fs buf" "0 \<notin> flist_free (po_freelist (fs_pools fs))" "unat (g_npools (fs_geo fs)) \<noteq> 32"
    "0 < unat (g_npools (fs_geo fs))"
  shows "get_fnc fs' 0 = Some Pool_fnc_default"
proof -
  have "flist_cap (po_freelist (fs_pools fs)) = unat (g_npools (fs_geo fs))" using assms(2) by (simp add: mounted_def)
  then have "0 < flist_search_bound (flist_cap (po_freelist (fs_pools fs)))"
    using assms(4,5) by (auto simp: flist_search_bound_eq)
  then have "boot_funcs (po_freelist (fs_pools fs)) (unat (g_npools (fs_geo fs))) ! 0 = Some Pool_fnc_default"
    using assms(3,5) by (simp add: boot_funcs_def)
  moreover have "po_funcs (fs_pools fs') = boot_funcs (po_freelist (fs_pools fs)) (unat (g_npools (fs_geo fs)))"
    using assms(1) by (simp add: reopened_def)
  ultimately show ?thesis using assms(5) by (simp add: get_fnc_def rd_def boot_funcs_def)
qed

lemma sync_open_run:
  assumes env: "media X blk (cache_dev fs)" "works X (cache_dev fs)" "plain_dev X" and m: "mounted X fs buf"
    and rep: "store_rep (X, blk, ph, d) fs S" and taken: "0 \<notin> flist_free (po_freelist (fs_pools fs))"
    and np: "unat (g_npools (fs_geo fs)) \<noteq> 32"
  shows "\<exists>fs1 d' fs' buf'. fla_base_sync X fs buf d = Some (0, fs1, d')
    \<and> fla_open X (dv_md_dev (fs_dev fs)) d' = Some (0, Some (fs', buf')) \<and> reopened fs fs' \<and> mounted X fs' buf'
    \<and> store_rep (X, blk, ph, d') fs' S \<and> (\<forall>ob\<in>S. \<forall>i\<in>obj_blocks fs ph ob. blk d' Data_dev i = blk d Data_dev i)"
proof -
  obtain n L F Q where r: "ph_ndx ph = 0" "dev_good X fs" "pool_env X blk fs n" "pool_rep blk fs d n L F Q {}" "objects n L F = S"
    using store_repE [OF rep] .
  have c: "cache_env X blk fs" "cache_inv blk fs d" "slabs_ok fs" "flist_blocks (lb_of fs) (unat n) \<le> slot_room fs"
    using r(3,4) by (simp_all add: pool_env_def pool_rep_def)
  have "unat (0 :: u32) < unat (g_nslabs (fs_geo fs))" using c(3) by (simp add: slabs_ok_def)
  then have "\<exists>e. get_elem fs 0 = Some e" using cache_invD [OF c(2)] by blast
  then have "fs_slab_cache fs \<noteq> None" by (auto simp: get_elem_def bind_eq_Some_conv)
  from flush_run [OF env(1,2) m c(1,2) r(2) this] obtain fs1 d1 d' where
    fl: "fla_slab_cache_flush X fs d = Some (0, fs1, d1)" "fla_flush X fs buf d = Some (0, synced fs1, d')"
    "holds blk (cache_dev fs) (lbsz X (cache_dev fs)) d' (md_bytes (synced fs) buf)"
    "\<forall>dv i. \<not> (dv = cache_dev fs \<and> i < md_blocks (fs_geo fs)) \<longrightarrow> blk d' dv i = blk d1 dv i" by blast
  from opened_synced [OF env m fl(3)] obtain fs' where
    op: "fla_open X (dv_md_dev (fs_dev fs)) d' = Some (0, Some (fs', md_bytes (synced fs) buf))" "reopened fs fs'"
      "mounted X fs' (md_bytes (synced fs) buf)" by blast
  have "stored blk fs d' x (F x)" if "x \<in> slabs_of L" for x
  proof -
    have x: "slab_holds blk fs d n x (F x)" "unat x < length (hdrs fs)" using pool_repD [OF r(4) that] by simp_all
    then show ?thesis
      using stored_beyond_md [OF flush_stores_slab [OF r(3) c(2) x fl(1)] _ fl(4)] c(4) by (simp add: slab_holds_def)
  qed
  moreover have "0 < unat (g_npools (fs_geo fs))" using m by (simp add: mounted_def geo_ok_def geo_fits_def)
  ultimately have "store_rep (X, blk, ph, d') fs' S"
    using reopened_store [OF op(2) r(3,2,4) _ reopened_fnc [OF op(2) m taken np] r(1)] r(5) by blast
  moreover have "blk d' Data_dev i = blk d Data_dev i" if "ob \<in> S" "i \<in> obj_blocks fs ph ob" for ob i
  proof -
    have "md_blocks (fs_geo fs) \<le> i" if "cache_dev fs = Data_dev"
      using \<open>i \<in> _\<close> that by (auto simp: obj_blocks_def obj_start_def slab_start_def cache_dev_def split: if_splits)
    then have "blk d' Data_dev i = blk d1 Data_dev i" using fl(4) by (metis not_less)
    then show ?thesis using flush_frame [OF c(1,2) fl(1) object_not_slot [OF r(3,4,1) that [folded r(5)]]] by simp
  qed
  ultimately show ?thesis using fl(2) op unfolding fla_base_sync_def by blast
qed

section \<open>Opening a formatted device\<close>

lemma opened_fresh_mounted:
  assumes fresh: "fresh_md geo fs" and geo: "geo_ok X Data_dev geo" "media X blk Data_dev"
      "g_nlb geo = xg_tbytes (x_geo X Data_dev) div ucast (xg_lba_nbytes (x_geo X Data_dev))"
    and b: "length b = md_blocks geo * lbsz X Data_dev"
  shows "mounted X (opened X geo False (md_bytes fs b)) (md_bytes fs b)"
proof -
  note G = geo_okD [OF geo(1,2)]
  have g: "fs_geo fs = geo" using fresh by (simp add: fresh_md_def)
  note sz = fresh_sizes [OF fresh]
  note O = opened_md_bytes [where X = X and md = False, OF _ _ sz, unfolded g, OF G(1) G(10) [OF b]]
  note R = md_bytes_read [OF _ _ sz, unfolded g, OF G(1) G(10) [OF b]]
  let ?fs = "opened X geo False (md_bytes fs b)"
  have dv: "fs_dev ?fs = \<lparr>dv_md_dev = False, dv_lb_nbytes = xg_lba_nbytes (x_geo X Data_dev)\<rparr>" "fs_cs ?fs = \<lparr>cs_t = FLA_CS_CNS, cs_zns = None\<rparr>"
    by (simp_all add: opened_def booted_def Let_def fla_xne_dev_lba_nbytes_def)
  have "md_sizes ?fs" using sz O(1-11) g unfolding md_sizes_def by simp
  moreover have "cache_dev ?fs = Data_dev" using dv by (simp add: cache_dev_def)
  moreover have "su_magic (fs_super ?fs) = FLA_MAGIC" "fla_geo_from_super (x_geo X Data_dev) (fs_super ?fs) = geo"
    using O(2) fresh geo_of_fresh_super [OF geo(1,3) fresh] by (simp_all add: fresh_md_def)
  moreover have "hh_size (po_htbl_hdr (fs_pools ?fs)) = ht_tbl_size (po_htbl (fs_pools ?fs))" using O(5,8) by simp
  moreover have "flist_inv (po_freelist (fs_pools ?fs))" "flist_cap (po_freelist (fs_pools ?fs)) = unat (g_npools geo)"
    using O(4) fresh by (simp_all add: fresh_md_def)
  ultimately show ?thesis using dv O(1,12) geo(1) R(1) b unfolding mounted_def by simp
qed

lemma mkfs_open_run:
  assumes "media X blk Data_dev" "works X Data_dev" "plain_dev X" "mkfs_geo X p geo0 geo"
    "2 \<le> unat (g_nslabs geo)" "unat (g_npools geo) \<le> 2 ^ 15"
  shows "\<exists>d' fs buf. fla_mkfs X p geo0 d = Some (0, d') \<and> fla_open X False d' = Some (0, Some (fs, buf)) \<and> fresh_fs hm geo fs
    \<and> mounted X fs buf \<and> \<not> dv_md_dev (fs_dev fs)"
proof -
  from mkfs_run [OF assms(1-5), of d] obtain d' fs b where m: "fla_mkfs X p geo0 d = Some (0, d')" "fresh_md geo fs"
    "length b = md_blocks geo * lbsz X Data_dev" "holds blk Data_dev (lbsz X Data_dev) d' (md_bytes fs b)" by blast
  note ok = mkfs_geo_ok [OF assms(4,1)]
  note G = geo_okD [OF ok(1) assms(1)]
  have g: "fs_geo fs = geo" using m(2) by (simp add: fresh_md_def)
  note R = md_bytes_read [OF _ _ fresh_sizes [OF m(2)], unfolded g, OF G(1) G(10) [OF m(3)]]
  have f: "po_freelist (md_pools geo (md_bytes fs b) (fs_pools fs_zero)) = po_freelist (fs_pools fs)" using R(4) by simp
  have "fla_open X False d' = Some (0, Some (opened X geo False (md_bytes fs b), md_bytes fs b))"
    using m(2,3) R(1,2) geo_of_fresh_super [OF ok m(2)]
    by (intro fla_open_run [where md = False and blk = blk and f = "po_freelist (fs_pools fs)"])
      (simp_all add: assms(1-3) m(4) ok(1) f fresh_md_def)
  moreover have "\<not> dv_md_dev (fs_dev (opened X geo False (md_bytes fs b)))" by (simp add: opened_def booted_def Let_def)
  ultimately show ?thesis
    using m(1) opened_fresh [OF m(2) ok(1) assms(1) m(3) assms(6)] opened_fresh_mounted [OF m(2) ok(1) assms(1) ok(2) m(3)] by blast
qed

text \<open>
  C5: Formatting a device and opening it works: \<open>fla_mkfs\<close> returns 0, and \<open>fla_open\<close> on the device
  as it was left returns 0 and a file system with the computed geometry in which no pool exists,
  all pool entries are free, and the queue of free slabs holds every slab in order. This is on a
  conventional device without errors, with at least two slabs, at most \<open>2^15\<close> pools and less than
  4 GiB of metadata.
\<close>

theorem fla_mkfs_open:
  assumes "media X blk Data_dev" "works X Data_dev" "plain_dev X" "mkfs_geo X p geo0 geo"
    "2 \<le> unat (g_nslabs geo)" "unat (g_npools geo) \<le> 2 ^ 15"
  shows "\<exists>d' fs buf. fla_mkfs X p geo0 d = Some (0, d') \<and> fla_open X False d' = Some (0, Some (fs, buf)) \<and> fresh_fs hm geo fs"
  using mkfs_open_run [OF assms] by blast

theorem fla_mkfs_open_witness:
  "\<exists>d' fs buf. fla_mkfs mem_xnvme mkfs_example (fs_geo fs_zero) (\<lambda>_ _. []) = Some (0, d')
    \<and> fla_open mem_xnvme False d' = Some (0, Some (fs, buf)) \<and> fresh_fs (\<lambda>_. 0) geo_example fs"
  by (rule fla_mkfs_open [OF mem_media mem_works mem_plain mkfs_example_geo]) (simp_all add: geo_example_def)

end
