(* ===== verification/Fla_Life.thy ===== *)
theory Fla_Life
  imports Fla_Persist
begin

text \<open>
  The life of a file system: a device is formatted and opened, a pool is created, objects are
  created, opened, written and destroyed, and the file system is synchronised and opened again.
\<close>

section \<open>The environment of an open file system\<close>

lemma mounted_size:
  assumes "media X blk Data_dev" "mounted X fs buf" "\<not> dv_md_dev (fs_dev fs)"
  defines "n \<equiv> md_blocks (fs_geo fs) + unat (g_nslabs (fs_geo fs)) * unat (g_slab_nlb (fs_geo fs))"
  shows "n < 2 ^ 32" "n * lb_of fs \<le> unat (xg_tbytes (x_geo X Data_dev))" "n * lb_of fs < 2 ^ 63"
    "lbsz X Data_dev = lb_of fs" "su_slab_nlb (fs_super fs) = g_slab_nlb (fs_geo fs)"
proof -
  let ?g = "x_geo X Data_dev"
  have geo: "geo_ok X Data_dev (fs_geo fs)" and su: "fla_geo_from_super ?g (fs_super fs) = fs_geo fs"
    using assms(2,3) by (simp_all add: mounted_def cache_dev_def)
  show lb: "lbsz X Data_dev = lb_of fs" using geo by (simp add: geo_ok_def)
  have nlb: "n \<le> unat (g_nlb (fs_geo fs))" "unat (g_nlb (fs_geo fs)) < 2 ^ 32"
    using geo unfolding geo_ok_def geo_fits_def n_def md_blocks_def by blast+
  show "n < 2 ^ 32" using nlb by simp
  have "g_nlb (fs_geo fs) = xg_tbytes ?g div ucast (xg_lba_nbytes ?g)" unfolding su [symmetric] by (simp add: fla_geo_from_super_def Let_def)
  then have "unat (g_nlb (fs_geo fs)) = unat (xg_tbytes ?g) div lb_of fs" using lb by (simp add: unat_div unat_ucast_widen)
  then have "unat (g_nlb (fs_geo fs)) * lb_of fs \<le> unat (xg_tbytes ?g)" by simp
  then show "n * lb_of fs \<le> unat (xg_tbytes ?g)" using mult_le_mono1 [OF nlb(1), of "lb_of fs"] by (rule order_trans [rotated])
  have "lb_of fs < 2 ^ 31" using assms(1) lb by (simp add: media_def)
  then have "n * lb_of fs \<le> (2 ^ 32 - 1) * (2 ^ 31 - 1)" using \<open>n < 2 ^ 32\<close> by (intro mult_le_mono) simp_all
  then show "n * lb_of fs < 2 ^ 63" by simp
  show "su_slab_nlb (fs_super fs) = g_slab_nlb (fs_geo fs)" unfolding su [symmetric] by (simp add: fla_geo_from_super_def Let_def)
qed

lemma mounted_env:
  assumes "media X blk Data_dev" "works X Data_dev" "mounted X fs buf" "\<not> dv_md_dev (fs_dev fs)"
  shows "cache_env X blk fs" "data_env X blk fs" "dev_good X fs"
proof -
  note S = mounted_size [OF assms(1,3,4)]
  have dev: "cache_dev fs = Data_dev" using assms(4) by (simp add: cache_dev_def)
  have m: "storage X blk" "ranges X" "bufs X" "xfer_ok (x_geo X Data_dev)" "512 \<le> lb_of fs" "4 dvd lb_of fs"
    using assms(1) S(4) by (auto simp: media_def)
  have cs: "cs_t (fs_cs fs) = FLA_CS_CNS" "dv_lb_nbytes (fs_dev fs) = g_lb_nbytes (fs_geo fs)"
    using assms(3) by (simp_all add: mounted_def geo_ok_def)
  show env: "cache_env X blk fs" using m cs S(1,4,5) dev by (simp add: cache_env_def)
  show "data_env X blk fs" using m cs S(1,3,4) by (simp add: data_env_def)
  have "lr_is_valid (x_range_from_slba X Data_dev slba (fla_slab_cache_flist_nlb fs n))"
    if i: "unat i < unat (g_nslabs (fs_geo fs))" and n: "flist_blocks (lb_of fs) (unat n) \<le> slot_room fs"
      and slba: "cache_entry_lb_slba fs i (ucast (fla_slab_cache_flist_nlb fs n)) = Some slba" for i n slba
  proof -
    let ?b = "flist_blocks (lb_of fs) (unat n)" and ?s = "unat (g_slab_nlb (fs_geo fs))"
    have lb: "0 < lb_of fs" using m(5) by simp
    have nb: "unat (fla_slab_cache_flist_nlb fs n) = ?b" "unat (ucast (fla_slab_cache_flist_nlb fs n) :: u32) = ?b"
      using flist_nlb_nat [OF lb] flist_nlb_u32 [OF lb n] by simp_all
    from slot_start [OF env i, of "ucast (fla_slab_cache_flist_nlb fs n)"] nb(2) n slba
    have "unat slba = flist_slot fs (unat i) ?b" by simp
    then have "unat slba + ?b = slab_start fs (unat i) + ?s" using n assms(4) by (simp add: flist_slot_def slot_room_def)
    also have "\<dots> \<le> md_blocks (fs_geo fs) + unat (g_nslabs (fs_geo fs)) * ?s"
      using mult_le_mono1 [of "Suc (unat i)" "unat (g_nslabs (fs_geo fs))" ?s] i assms(4) by (simp add: slab_start_def)
    finally have "(unat slba + ?b) * lb_of fs \<le> unat (xg_tbytes (x_geo X Data_dev))"
      using S(2) mult_le_mono1 [of "unat slba + ?b" _ "lb_of fs"] order_trans by blast
    then show ?thesis using assms(2) nb(1) flist_blocks_room(3) [OF lb] S(4) unfolding works_def by simp
  qed
  moreover have "reliable X Data_dev" "\<forall>n. x_buf_alloc X Data_dev n \<noteq> None" using assms(2) by (simp_all add: works_def)
  ultimately show "dev_good X fs" unfolding dev_good_def dev by blast
qed

section \<open>The first pool\<close>

text \<open>An object size for which a slab holds at least one object beside the freelist.\<close>

definition size_ok :: "fla_geo \<Rightarrow> u32 \<Rightarrow> bool" where
  "size_ok geo k \<longleftrightarrow> k \<noteq> 0
     \<and> unat k + flist_blocks (unat (g_lb_nbytes geo)) 1 \<le> unat (g_slab_nlb geo)"

lemma size_ok_objs:
  assumes "size_ok (fs_geo fs) k" "0 < lb_of fs" "\<not> dv_md_dev (fs_dev fs)"
  obtains n where "fla_calc_objs_in_slab fs k = Some n" "1 \<le> n" "flist_blocks (lb_of fs) (unat n) \<le> slot_room fs"
proof -
  obtain n where n: "fla_calc_objs_in_slab fs k = Some n"
    using assms(1,3) by (auto simp: size_ok_def fla_calc_objs_in_slab_def)
  note N = calc_objs_in_slab_spec [OF assms(2,3) n]
  have "n \<noteq> 0" using N(2) [of 1] assms(1) by (auto simp: size_ok_def)
  moreover from this have "1 \<le> n" by (simp add: word_le_nat_alt unat_gt_0 Suc_le_eq)
  ultimately show ?thesis using that n N(1) assms(3) by (simp add: slot_room_def)
qed

text \<open>Two slabs at least, of blocks that 32 bits address, hold fewer than \<open>2^31\<close> objects each.\<close>

lemma objs_less:
  assumes "cache_env X blk fs" "2 \<le> unat (g_nslabs (fs_geo fs))" "unat n * unat k \<le> unat (g_slab_nlb (fs_geo fs))" "k \<noteq> (0 :: u32)"
  shows "unat (n :: u32) < 2 ^ 31"
proof -
  have "2 * unat (g_slab_nlb (fs_geo fs)) \<le> unat (g_nslabs (fs_geo fs)) * unat (g_slab_nlb (fs_geo fs))"
    using assms(2) by (rule mult_le_mono1)
  also have "\<dots> < 2 ^ 32" using assms(1) by (simp add: cache_env_def)
  finally have s: "unat (g_slab_nlb (fs_geo fs)) < 2 ^ 31" by simp
  have "Suc 0 \<le> unat k" using assms(4) by (simp add: Suc_le_eq unat_gt_0)
  then have "unat n \<le> unat n * unat k" by simp
  then show ?thesis using s assms(3) by linarith
qed

lemma fresh_pool_rep:
  assumes fs: "fresh_fs hm geo fs" and ent: "0 < length (entries fs')" "pe_empty_slabs (entries fs' ! 0) = FLA_LINKED_LIST_NULL"
      "pe_full_slabs (entries fs' ! 0) = FLA_LINKED_LIST_NULL" "pe_partial_slabs (entries fs' ! 0) = FLA_LINKED_LIST_NULL"
    and fs': "fs' = set_pools fs p"
  shows "pool_rep blk fs' d n (\<lambda>_. []) F (map of_nat [0..<unat (g_nslabs geo)]) {}"
proof -
  let ?Q = "map of_nat [0..<unat (g_nslabs geo)] :: u32 list"
  have f: "fs_slabs fs' = fs_slabs fs" "fs_geo fs' = geo" "fs_slab_cache fs' = fs_slab_cache fs"
    "free_queue fs ?Q" "sl_fslab_num (fs_slabs fs) = g_nslabs geo" "unat (g_nslabs geo) < 2 ^ 31"
    "fs_slab_cache fs = Some (replicate (unat (g_nslabs geo)) \<lparr>ce_freelist = None, ce_state = FLA_SLAB_CACHE_ELEM_STALE\<rparr>)"
    using fs by (auto simp: fresh_fs_def fs' set_pools_def slabs_ok_def)
  have el: "get_elem fs' i = Some \<lparr>ce_freelist = None, ce_state = FLA_SLAB_CACHE_ELEM_STALE\<rparr>" if "unat i < unat (g_nslabs geo)" for i
    using f(3,7) that by (simp add: get_elem_def)
  have "cache_inv blk fs' d" using el f(2) by (auto simp: cache_inv_def elem_inv_stale)
  moreover have "\<exists>e. get_elem fs' x = Some e \<and> ce_state e = FLA_SLAB_CACHE_ELEM_STALE" if "x \<in> set ?Q" for x
  proof -
    from that obtain i where "i < unat (g_nslabs geo)" "x = of_nat i" by auto
    then have "unat x < unat (g_nslabs geo)" using f(6) by (simp add: unat_of_nat_small)
    then show ?thesis using el by simp
  qed
  moreover have "lists_ok fs' (\<lambda>_. []) ?Q"
    using f ent by (auto simp: lists_ok_def free_queue_def head_of_def head_val_def head_pool_def dll_def)
  ultimately show ?thesis unfolding pool_rep_def by simp
qed

lemma mounted_pools:
  assumes "mounted X fs buf" "fs' = set_pools fs p" "po_htbl_hdr p = po_htbl_hdr (fs_pools fs)"
    "ht_tbl_size (po_htbl p) = ht_tbl_size (po_htbl (fs_pools fs))" "flist_inv (po_freelist p)"
    "flist_cap (po_freelist p) = flist_cap (po_freelist (fs_pools fs))" "md_sizes fs'"
  shows "mounted X fs' buf"
  using assms(1,3-7) unfolding mounted_def assms(2) by (simp add: set_pools_def cache_dev_def)

text \<open>The first pool of a formatted device represents the empty set of objects.\<close>

lemma created_sizes:
  assumes "md_sizes fs" "dir_inv hm fs'" "fs' = set_pools fs p" "po_freelist p = flist_clear (po_freelist (fs_pools fs)) m"
    "length (po_entries p) = length (entries fs)" "htbl_slots (fs_geo fs) = 2 * length (entries fs)"
  shows "md_sizes fs'"
proof -
  have p: "fs_pools fs' = p" using assms(3) by (simp add: set_pools_def)
  have "htbl_inv hm (po_htbl p)" and sz: "unat (ht_tbl_size (po_htbl p)) = 2 * length (po_entries p)"
    and nm: "\<forall>e\<in>set (po_entries p). length (pe_name e) = FLA_NAME_SIZE_POOL" using assms(2) unfolding dir_inv_def p by auto
  then obtain T where "ht_tbl (po_htbl p) = Some T" "length T = unat (ht_tbl_size (po_htbl p))" by (auto simp: htbl_inv_def split: option.splits)
  then show ?thesis using assms(1,4-6) sz nm unfolding md_sizes_def p by (simp add: assms(3) set_pools_def)
qed

lemma first_pool:
  assumes env: "media X blk Data_dev" "works X Data_dev" and fs: "fresh_fs hm geo fs" "mounted X fs buf" "\<not> dv_md_dev (fs_dev fs)"
    and geo: "2 \<le> unat (g_nslabs geo)" "size_ok geo (pa_obj_nlb arg)" and arg: "name_ok arg" "htbl_key hm (po_htbl (fs_pools fs)) (pa_name arg)"
  defines "ph \<equiv> \<lparr>ph_h2 = FLA_HTBL_H2 (pa_name arg), ph_ndx = 0\<rparr>"
  shows "\<exists>fs'. fla_base_pool_create X fs arg = Some (0, fs', Some ph) \<and> store_rep (X, blk, ph, d) fs' {} \<and> mounted X fs' buf
    \<and> dir_inv hm fs' \<and> pool_names fs' = [FLA_HTBL_H2 (pa_name arg) \<mapsto> 0] \<and> 0 \<notin> flist_free (po_freelist (fs_pools fs'))
    \<and> fs_dev fs' = fs_dev fs \<and> fs_geo fs' = geo \<and> ht_tbl_size (po_htbl (fs_pools fs')) = ht_tbl_size (po_htbl (fs_pools fs)) \<and> fs_slabs fs' = fs_slabs fs"
proof -
  note E = mounted_env [OF env fs(2,3)]
  have lb: "0 < lb_of fs" using E(1) by (simp add: cache_env_def)
  have f: "fs_geo fs = geo" "dir_inv hm fs" "pool_names fs = Map.empty" "slabs_ok fs" "cs_t (fs_cs fs) = FLA_CS_CNS"
    "flist_free (po_freelist (fs_pools fs)) = {..<unat (g_npools geo)}" using fs(1) by (simp_all add: fresh_fs_def)
  have np: "0 < unat (g_npools geo)" using fs(2) f(1) by (simp add: mounted_def geo_ok_def geo_fits_def)
  obtain n where n: "fla_calc_objs_in_slab fs (pa_obj_nlb arg) = Some n" "1 \<le> n" "flist_blocks (lb_of fs) (unat n) \<le> slot_room fs"
    using size_ok_objs [OF _ lb fs(3), of "pa_obj_nlb arg"] geo(2) f(1) by blast
  have run: "fla_base_pool_create X fs arg = pool_create_new fs arg n"
    using env(2) f n(1,2) by (intro pool_create_run [OF f(2) arg(2) _ arg(1)]) (simp_all add: works_def cs_check_pool_def fla_cs_cns_pool_check_def)
  have "Min {..<unat (g_npools geo)} = 0" using np by (intro Min_eqI) auto
  with pool_create_new_spec [OF f(2) arg(2) _ arg(1), of n] f(3,6) np obtain fs' w where
    c: "pool_create_new fs arg n = Some (0, fs', Some \<lparr>ph_h2 = FLA_HTBL_H2 (pa_name arg), ph_ndx = w\<rparr>)" "unat w = 0" "dir_inv hm fs'"
      "pool_names fs' = [FLA_HTBL_H2 (pa_name arg) \<mapsto> w]" "entries fs' = (entries fs)[unat w := new_entry (entries fs ! unat w) arg n]"
      "ht_tbl_size (po_htbl (fs_pools fs')) = ht_tbl_size (po_htbl (fs_pools fs))" "fs' = set_pools fs (fs_pools fs')"
      "po_htbl_hdr (fs_pools fs') = po_htbl_hdr (fs_pools fs)"
      "po_funcs (fs_pools fs') = (po_funcs (fs_pools fs))[unat w := Some Pool_fnc_default]"
      "po_freelist (fs_pools fs') = flist_clear (po_freelist (fs_pools fs)) (unat w)" by (auto simp: lessThan_empty_iff)
  have w: "w = 0" using c(2) by (simp add: unat_eq_0)
  have sz: "md_sizes fs" "geo_ok X Data_dev (fs_geo fs)" using fs(2,3) by (simp_all add: mounted_def cache_dev_def)
  have len: "length (entries fs) = unat (g_npools geo)" using sz(1) f(1) by (simp add: md_sizes_def)
  have fl: "flist_inv (po_freelist (fs_pools fs))" "flist_cap (po_freelist (fs_pools fs)) = unat (g_npools geo)" "length (po_funcs (fs_pools fs)) = length (entries fs)"
    using f(2) len by (simp_all add: dir_inv_def)
  have s': "fs_dev fs' = fs_dev fs" "fs_geo fs' = geo" "fs_cs fs' = fs_cs fs" "fs_super fs' = fs_super fs"
    using arg_cong [OF c(7), of fs_dev] arg_cong [OF c(7), of fs_geo] arg_cong [OF c(7), of fs_cs] arg_cong [OF c(7), of fs_super] f(1)
    by (simp_all add: set_pools_def)
  have fl': "flist_inv (po_freelist (fs_pools fs'))" "0 \<notin> flist_free (po_freelist (fs_pools fs'))" "flist_cap (po_freelist (fs_pools fs')) = unat (g_npools geo)"
    unfolding c(10) w using fl np flist_inv_clear [OF fl(1)] by (simp_all add: flist_free_clear)
  have "htbl_slots (fs_geo fs) = 2 * length (entries fs)" using geo_okD(6) [OF sz(2) env(1)] len f(1) by simp
  then have "md_sizes fs'" using created_sizes [OF sz(1) c(3,7,10)] c(5) by simp
  with mounted_pools [OF fs(2) c(7,8,6) fl'(1)] fl(2) fl'(3) have m: "mounted X fs' buf" by simp
  have e0: "entries fs' ! 0 = new_entry (entries fs ! 0) arg n" "0 < length (entries fs')" using c(5) len np w by simp_all
  have rep: "pool_rep blk fs' d n (\<lambda>_. []) (\<lambda>_. []) (map of_nat [0..<unat (g_nslabs geo)]) {}"
    using e0(1) by (intro fresh_pool_rep [OF fs(1) e0(2) _ _ _ c(7)]) (simp_all add: new_entry_def)
  have "\<not> dv_md_dev (fs_dev fs')" using s'(1) fs(3) by simp
  note E' = mounted_env [OF env m this]
  have "unat n < 2 ^ 31"
    using calc_objs_in_slab_spec(3) [OF lb fs(3) n(1)] geo f(1) objs_less [OF E(1), of n "pa_obj_nlb arg"] by (auto simp: size_ok_def)
  moreover have "get_fnc fs' 0 = Some Pool_fnc_default" using c(9) w fl(3) len np by (simp add: get_fnc_def)
  moreover have "slabs_ok fs'" using f(4) arg_cong [OF c(7), of fs_slabs] s'(2) f(1) by (simp add: slabs_ok_def set_pools_def)
  moreover have "fla_calc_objs_in_slab fs' k = fla_calc_objs_in_slab fs k" for k using s' f(1) by (intro calc_objs_cong) simp_all
  moreover have "slot_room fs' = slot_room fs" using s' f(1) by (simp add: slot_room_def)
  moreover have "0 < unat n" using n(2) by (simp add: word_le_nat_alt)
  ultimately have "pool_env X blk fs' n"
    using E'(1) n(1,3) e0 s'(2) f(1) by (simp add: pool_env_def new_entry_def)
  from store_repI [OF this E'(3) _ same_rest_refl rep] have "store_rep (X, blk, ph, d) fs' {}" by (simp add: ph_def objects_def)
  moreover have "fs_slabs fs' = fs_slabs fs" using arg_cong [OF c(7), of fs_slabs] by (simp add: set_pools_def)
  ultimately show ?thesis using run c(1,3,4,6) m fl'(2) s'(1,2) w by (auto simp: ph_def)
qed

section \<open>Writing to objects\<close>

lemma store_dp [simp]: "store_rep (X, blk, ph, d) (fs\<lparr>fs_dp := dp\<rparr>) S = store_rep (X, blk, ph, d) fs S"
proof -
  let ?fs = "fs\<lparr>fs_dp := dp\<rparr>"
  have c: "stored blk ?fs d x f = stored blk fs d x f" "elem_inv blk ?fs d x e = elem_inv blk fs d x e" "cache_env X blk ?fs = cache_env X blk fs"
    "dev_good X ?fs = dev_good X fs" "fla_calc_objs_in_slab ?fs k = fla_calc_objs_in_slab fs k" for x f e k
    by (intro stored_cong elem_inv_cong cache_env_cong dev_good_cong calc_objs_cong; simp)+
  then have "pool_rep blk ?fs d n L F Q {} = pool_rep blk fs d n L F Q {}" "pool_env X blk ?fs n = pool_env X blk fs n" for n L F Q
    unfolding pool_rep_def pool_env_def slab_holds_def cache_inv_def
    by (simp_all add: lists_ok_def free_queue_def head_of_def get_elem_def get_fnc_def slabs_ok_def slot_room_def flist_fits_def)
  then show ?thesis using c(4) by (simp add: store_rep_def)
qed

lemma mounted_dp [simp]: "mounted X (fs\<lparr>fs_dp := dp\<rparr>) buf = mounted X fs buf"
  by (simp add: mounted_def cache_dev_def md_sizes_def)

text \<open>An object in the hands of the caller is an object of the pool.\<close>

lemma store_obj_ok:
  assumes "store_rep (X, blk, ph, d) fs S" "ob \<in> S" "\<not> dv_md_dev (fs_dev fs)"
  shows "obj_ok fs ph ob"
proof -
  obtain n L F Q where r: "ph_ndx ph = 0" "pool_env X blk fs n" "pool_rep blk fs d n L F Q {}" "objects n L F = S"
    using store_repE [OF assms(1)] by metis
  have x: "ob_slab_id ob \<in> slabs_of L" "unat (ob_entry_ndx ob) < unat n" using assms(2) r(4) by (auto simp: objects_def word_less_nat_alt)
  have p: "0 < lb_of fs" "fla_calc_objs_in_slab fs (pe_obj_nlb (entries fs ! 0)) = Some n" using r(2) by (simp_all add: pool_env_def cache_env_def)
  show ?thesis
    using calc_objs_in_slab_spec(3) [OF p(1) assms(3) p(2)] r(1,2) x pool_repD(2) [OF r(3) x(1)]
    by (simp add: obj_ok_def pool_env_def slabs_ok_def)
qed

lemma store_blocks:
  assumes rep: "store_rep (X, blk, ph, d) fs S" and ob: "ob \<in> S" and md: "\<not> dv_md_dev (fs_dev fs)"
    and fr: "\<forall>i. i \<notin> obj_blocks fs ph ob \<longrightarrow> blk d' Data_dev i = blk d Data_dev i"
  shows "store_rep (X, blk, ph, d') fs S"
proof -
  obtain n L F Q where r: "ph_ndx ph = 0" "dev_good X fs" "pool_env X blk fs n" "pool_rep blk fs d n L F Q {}" "objects n L F = S"
    using store_repE [OF rep] .
  have x: "ob_slab_id ob \<in> slabs_of L" "unat (ob_entry_ndx ob) < unat n" using ob r(5) by (auto simp: objects_def word_less_nat_alt)
  have dev: "cache_dev fs = Data_dev" using md by (simp add: cache_dev_def)
  have st: "stored blk fs d' j f"
    if "stored blk fs d j f" "flist_blocks (lb_of fs) (flist_cap f) \<le> slot_room fs" "j = ob_slab_id ob \<Longrightarrow> flist_cap f = unat n" for j f
  proof -
    let ?m = "flist_blocks (lb_of fs) (flist_cap f)"
    have "flist_slot fs (unat j) ?m + k \<notin> obj_blocks fs ph ob" if "k < ?m" for k
      using object_apart_from_slot [OF r(3,1) md x(2) _ \<open>?m \<le> _\<close>, of "flist_slot fs (unat j) ?m + k" j] that \<open>j = _ \<Longrightarrow> _\<close> by auto
    then show ?thesis using that(1) fr unfolding stored_def Let_def dev by auto
  qed
  have "elem_inv blk fs d' j e" if "get_elem fs j = Some e" "elem_inv blk fs d j e" for j e
    using that st [of j] cached_cap [OF r(4) _ that(1)] x(1) r(3) by (auto simp: elem_inv_def pool_env_def)
  then have "cache_inv blk fs d'" using r(4) unfolding pool_rep_def cache_inv_def by blast
  moreover have "slab_holds blk fs d' n j (F j)" if "j \<in> slabs_of L" for j
    using pool_repD(1) [OF r(4) that] st [of j "F j"] r(3) by (auto simp: slab_holds_def pool_env_def split: if_splits)
  ultimately have "pool_rep blk fs d' n L F Q {}" using r(4) unfolding pool_rep_def by blast
  then show ?thesis using store_repI [OF r(3,2,1) same_rest_refl] r(5) by blast
qed

section \<open>Steps of a user of the pool\<close>

text \<open>Creating, opening and destroying objects, and writing to objects in the hands of the caller.\<close>

inductive life_step ::
  "'d xnvme \<Rightarrow> fla_pool \<Rightarrow> flexalloc \<times> 'd \<times> fla_object set \<Rightarrow> flexalloc \<times> 'd \<times> fla_object set \<Rightarrow> bool" for X ph where
  life_object: "object_step X ph d (fs, S) (fs', S') \<Longrightarrow> life_step X ph (fs, d, S) (fs', d, S')"
| life_write: "ob \<in> S \<Longrightarrow> unat off + unat len < 2 ^ 63 \<Longrightarrow> unat len \<le> length buf \<Longrightarrow>
    fla_object_write X fs ph ob buf off len d = Some (err, fs', d') \<Longrightarrow> life_step X ph (fs, d, S) (fs', d', S)"

text \<open>What the steps leave of the file system: the directory of pools, the device and the geometry.\<close>

definition kept :: "flexalloc \<Rightarrow> flexalloc \<Rightarrow> bool" where
  "kept fs fs' \<longleftrightarrow> fs_dev fs' = fs_dev fs \<and> fs_geo fs' = fs_geo fs \<and> po_freelist (fs_pools fs') = po_freelist (fs_pools fs)
     \<and> po_htbl (fs_pools fs') = po_htbl (fs_pools fs) \<and> po_funcs (fs_pools fs') = po_funcs (fs_pools fs)
     \<and> map entry_data (entries fs') = map entry_data (entries fs)"

lemma kept_rest: "same_rest fs fs' \<Longrightarrow> kept fs fs'"
  by (simp add: same_rest_def kept_def)

lemma kept_dir:
  assumes "kept fs fs'" "dir_inv hm fs"
  shows "dir_inv hm fs'"
proof -
  have d: "map entry_data (entries fs') = map entry_data (entries fs)" using assms(1) by (simp add: kept_def)
  note len = map_eq_imp_length_eq [OF d]
  have "length (pe_name (entries fs' ! i)) = FLA_NAME_SIZE_POOL" if "i < length (entries fs')" for i
    using map_nth_same [OF d that [unfolded len]] assms(2) that len by (simp add: dir_inv_def entry_data_def)
  then have "\<forall>e\<in>set (entries fs'). length (pe_name e) = FLA_NAME_SIZE_POOL" by (simp add: all_set_conv_all_nth)
  then show ?thesis using assms len unfolding dir_inv_def kept_def by simp
qed

lemma life_step_inv:
  assumes env: "media X blk Data_dev" "works X Data_dev" and inv: "mounted X fs buf" "store_rep (X, blk, ph, d) fs S" "\<not> dv_md_dev (fs_dev fs)"
    and step: "life_step X ph (fs, d, S) (fs', d', S')"
  shows "mounted X fs' buf \<and> store_rep (X, blk, ph, d') fs' S' \<and> kept fs fs'"
  using step
proof cases
  case life_object
  with object_step_rep [OF inv(2)] show ?thesis using mounted_rest [OF inv(1)] kept_rest by blast
next
  case (life_write ob off len b err)
  note w = object_write_spec [OF mounted_env(2) [OF env inv(1,3)] store_obj_ok [OF inv(2) life_write(2) inv(3)] life_write(3-5)]
  from w(1) obtain dp where fs': "fs' = fs\<lparr>fs_dp := dp\<rparr>" by blast
  have "store_rep (X, blk, ph, d') fs S" using store_blocks [OF inv(2) life_write(2) inv(3)] w(2) by blast
  then show ?thesis using inv(1) life_write(1) by (simp add: fs' kept_def)
qed

lemma life_steps_inv:
  assumes "(life_step X ph)\<^sup>*\<^sup>* (fs, d, S) (fs', d', S')" and env: "media X blk Data_dev" "works X Data_dev"
    and inv: "mounted X fs buf" "store_rep (X, blk, ph, d) fs S" "\<not> dv_md_dev (fs_dev fs)"
  shows "mounted X fs' buf \<and> store_rep (X, blk, ph, d') fs' S' \<and> kept fs fs'"
proof -
  let ?I = "\<lambda>(fs', d', S'). mounted X fs' buf \<and> store_rep (X, blk, ph, d') fs' S' \<and> kept fs fs'"
  have "?I z" if "(life_step X ph)\<^sup>*\<^sup>* (fs, d, S) z" for z
    using that
  proof (induction rule: rtranclp_induct)
    case (step y z)
    obtain fs1 d1 S1 fs2 d2 S2 where yz: "y = (fs1, d1, S1)" "z = (fs2, d2, S2)" by (metis prod_cases3)
    with step inv(3) have "\<not> dv_md_dev (fs_dev fs1)" by (simp add: kept_def)
    with life_step_inv [OF env, of fs1 buf ph d1 S1 fs2 d2 S2] step yz show ?case by (simp add: kept_def)
  qed (use inv in \<open>simp add: kept_def\<close>)
  with assms(1) show ?thesis by auto
qed

section \<open>Properties\<close>

lemma reopened_dir:
  assumes "reopened fs fs'" "dir_inv hm fs" "md_sizes fs"
  shows "dir_inv hm fs'" "pool_names fs' = pool_names fs"
proof -
  have e: "entries fs' = entries fs" "po_freelist (fs_pools fs') = po_freelist (fs_pools fs)"
    "ht_tbl (po_htbl (fs_pools fs')) = ht_tbl (po_htbl (fs_pools fs))" "ht_tbl_size (po_htbl (fs_pools fs')) = ht_tbl_size (po_htbl (fs_pools fs))"
    "ht_len (po_htbl (fs_pools fs')) = ht_len (po_htbl (fs_pools fs))" "length (po_funcs (fs_pools fs')) = length (entries fs)"
    using assms(1,3) by (simp_all add: reopened_def boot_funcs_def md_sizes_def)
  show v: "pool_names fs' = pool_names fs" using e(3) by (simp add: htbl_view_def)
  have "htbl_inv hm (po_htbl (fs_pools fs')) = htbl_inv hm (po_htbl (fs_pools fs))" using e by (simp add: htbl_inv_def)
  then show "dir_inv hm fs'" using assms(2) e v unfolding dir_inv_def by simp
qed

text \<open>
  C2: Synchronising and opening again brings back the file system: \<open>fla_base_sync\<close> returns 0, and
  \<open>fla_open\<close> on the device as it was left returns 0 and a file system with the same names of pools,
  the same pool entries and the same objects of the first pool, in a consistent state, and the
  blocks of the objects are as they were. This is for a file system whose first pool exists, with a
  number of pools other than 32, for which opening leaves out the function tables.
\<close>

theorem fla_sync_open:
  assumes "media X blk (cache_dev fs)" "works X (cache_dev fs)" "plain_dev X" "mounted X fs buf" "dir_inv hm fs"
    "store_rep (X, blk, ph, d) fs S" "0 \<notin> flist_free (po_freelist (fs_pools fs))" "unat (g_npools (fs_geo fs)) \<noteq> 32"
  shows "\<exists>fs1 d' fs' buf'. fla_base_sync X fs buf d = Some (0, fs1, d')
    \<and> fla_open X (dv_md_dev (fs_dev fs)) d' = Some (0, Some (fs', buf')) \<and> mounted X fs' buf' \<and> dir_inv hm fs'
    \<and> pool_names fs' = pool_names fs \<and> entries fs' = entries fs \<and> store_rep (X, blk, ph, d') fs' S
    \<and> (\<forall>ob\<in>S. \<forall>i\<in>obj_blocks fs ph ob. blk d' Data_dev i = blk d Data_dev i)"
proof -
  from sync_open_run [OF assms(1-4,6-8)] obtain fs1 d' fs' buf' where
    r: "fla_base_sync X fs buf d = Some (0, fs1, d')" "fla_open X (dv_md_dev (fs_dev fs)) d' = Some (0, Some (fs', buf'))"
      "reopened fs fs'" "mounted X fs' buf'" "store_rep (X, blk, ph, d') fs' S"
      "\<forall>ob\<in>S. \<forall>i\<in>obj_blocks fs ph ob. blk d' Data_dev i = blk d Data_dev i" by blast
  have "md_sizes fs" using assms(4) by (simp add: mounted_def)
  from reopened_dir [OF r(3) assms(5) this] r show ?thesis by (auto simp: reopened_def)
qed

text \<open>A formatted device with its first pool.\<close>

lemma first_pool_run:
  assumes env: "media X blk Data_dev" "works X Data_dev" "plain_dev X" and geo: "mkfs_geo X p geo0 geo" "2 \<le> unat (g_nslabs geo)" "unat (g_npools geo) \<le> 2 ^ 15"
    and arg: "name_ok arg" "FLA_HTBL_H2 (pa_name arg) \<noteq> FLA_HTBL_ENTRY_UNSET" "size_ok geo (pa_obj_nlb arg)"
  shows "\<exists>hm d1 fs1 buf fs2 ph. fla_mkfs X p geo0 d = Some (0, d1) \<and> fla_open X False d1 = Some (0, Some (fs1, buf))
    \<and> fla_base_pool_create X fs1 arg = Some (0, fs2, Some ph) \<and> store_rep (X, blk, ph, d1) fs2 {} \<and> mounted X fs2 buf \<and> dir_inv hm fs2
    \<and> 0 \<notin> flist_free (po_freelist (fs_pools fs2)) \<and> \<not> dv_md_dev (fs_dev fs2) \<and> fs_geo fs2 = geo
    \<and> pool_names fs2 (FLA_HTBL_H2 (pa_name arg)) = Some (ph_ndx ph) \<and> ph_h2 ph = FLA_HTBL_H2 (pa_name arg)
    \<and> htbl_key hm (po_htbl (fs_pools fs2)) (pa_name arg) \<and> sl_fslab_num (fs_slabs fs2) = g_nslabs geo"
proof -
  define hm :: "u64 \<Rightarrow> nat" where "hm = (\<lambda>_. htbl_home (of_nat (2 * unat (g_npools geo))) (pa_name arg))"
  from mkfs_open_run [OF env geo, of d hm] obtain d1 fs1 buf where
    o: "fla_mkfs X p geo0 d = Some (0, d1)" "fla_open X False d1 = Some (0, Some (fs1, buf))" "fresh_fs hm geo fs1" "mounted X fs1 buf" "\<not> dv_md_dev (fs_dev fs1)"
    by blast
  have "unat (ht_tbl_size (po_htbl (fs_pools fs1))) = 2 * unat (g_npools geo)"
    using o(3,4) by (simp add: fresh_fs_def dir_inv_def mounted_def md_sizes_def)
  then have "ht_tbl_size (po_htbl (fs_pools fs1)) = of_nat (2 * unat (g_npools geo))" by (rule word_eq_of_nat)
  then have key: "htbl_key hm (po_htbl (fs_pools fs1)) (pa_name arg)" using arg(2) by (simp add: htbl_key_def hm_def)
  from first_pool [OF env(1,2) o(3-5) geo(2) arg(3,1) key, of d1] obtain fs2 where
    c: "fla_base_pool_create X fs1 arg = Some (0, fs2, Some \<lparr>ph_h2 = FLA_HTBL_H2 (pa_name arg), ph_ndx = 0\<rparr>)"
      "store_rep (X, blk, \<lparr>ph_h2 = FLA_HTBL_H2 (pa_name arg), ph_ndx = 0\<rparr>, d1) fs2 {}" "mounted X fs2 buf" "dir_inv hm fs2"
      "pool_names fs2 = [FLA_HTBL_H2 (pa_name arg) \<mapsto> 0]" "0 \<notin> flist_free (po_freelist (fs_pools fs2))" "fs_dev fs2 = fs_dev fs1"
      "fs_geo fs2 = geo" "ht_tbl_size (po_htbl (fs_pools fs2)) = ht_tbl_size (po_htbl (fs_pools fs1))" "fs_slabs fs2 = fs_slabs fs1" by blast
  have "htbl_key hm (po_htbl (fs_pools fs2)) (pa_name arg)" using key c(9) by (simp add: htbl_key_def)
  moreover have "sl_fslab_num (fs_slabs fs2) = g_nslabs geo" using o(3) c(10) by (simp add: fresh_fs_def)
  ultimately show ?thesis using o(1,2,5) c
    by (intro exI [of _ hm] exI [of _ d1] exI [of _ fs1] exI [of _ buf] exI [of _ fs2] exI [of _ "\<lparr>ph_h2 = FLA_HTBL_H2 (pa_name arg), ph_ndx = 0\<rparr>"]) simp
qed

text \<open>
  C1: The life of a file system. A device is formatted and opened and a pool is created in it; after any
  sequence of creating, opening, destroying and writing objects (with an offset and a length that add
  up to less than \<open>2^63\<close>), synchronising and opening again gives
  a file system in which the name opens the same pool, the pool holds exactly the objects in the hands
  of the callers, and every block of every object holds what was written to it.
\<close>

theorem fla_life:
  assumes "media X blk Data_dev" "works X Data_dev" "plain_dev X" "mkfs_geo X p geo0 geo" "2 \<le> unat (g_nslabs geo)"
    "unat (g_npools geo) \<le> 2 ^ 15" "unat (g_npools geo) \<noteq> 32"
    "name_ok arg" "FLA_HTBL_H2 (pa_name arg) \<noteq> FLA_HTBL_ENTRY_UNSET" "size_ok geo (pa_obj_nlb arg)"
  shows "\<exists>d1 fs1 buf fs2 ph. fla_mkfs X p geo0 d = Some (0, d1) \<and> fla_open X False d1 = Some (0, Some (fs1, buf))
    \<and> fla_base_pool_create X fs1 arg = Some (0, fs2, Some ph)
    \<and> (\<forall>fs3 d3 S. (life_step X ph)\<^sup>*\<^sup>* (fs2, d1, {}) (fs3, d3, S) \<longrightarrow>
        (\<exists>fs4 d4 fs5 buf5. fla_base_sync X fs3 buf d3 = Some (0, fs4, d4) \<and> fla_open X False d4 = Some (0, Some (fs5, buf5))
          \<and> fla_base_pool_open X fs5 (pa_name arg) = Some (0, Some ph) \<and> store_rep (X, blk, ph, d4) fs5 S
          \<and> (\<forall>ob\<in>S. \<forall>i\<in>obj_blocks fs3 ph ob. blk d4 Data_dev i = blk d3 Data_dev i)))"
proof -
  from first_pool_run [OF assms(1-6,8-10), of d] obtain hm d1 fs1 buf fs2 ph where
    f: "fla_mkfs X p geo0 d = Some (0, d1)" "fla_open X False d1 = Some (0, Some (fs1, buf))"
      "fla_base_pool_create X fs1 arg = Some (0, fs2, Some ph)" "store_rep (X, blk, ph, d1) fs2 {}" "mounted X fs2 buf" "dir_inv hm fs2"
      "0 \<notin> flist_free (po_freelist (fs_pools fs2))" "\<not> dv_md_dev (fs_dev fs2)" "fs_geo fs2 = geo"
      "pool_names fs2 (FLA_HTBL_H2 (pa_name arg)) = Some (ph_ndx ph)" "ph_h2 ph = FLA_HTBL_H2 (pa_name arg)"
      "htbl_key hm (po_htbl (fs_pools fs2)) (pa_name arg)" by blast
  have "\<exists>fs4 d4 fs5 buf5. fla_base_sync X fs3 buf d3 = Some (0, fs4, d4) \<and> fla_open X False d4 = Some (0, Some (fs5, buf5))
          \<and> fla_base_pool_open X fs5 (pa_name arg) = Some (0, Some ph) \<and> store_rep (X, blk, ph, d4) fs5 S
          \<and> (\<forall>ob\<in>S. \<forall>i\<in>obj_blocks fs3 ph ob. blk d4 Data_dev i = blk d3 Data_dev i)"
    if steps: "(life_step X ph)\<^sup>*\<^sup>* (fs2, d1, {}) (fs3, d3, S)" for fs3 d3 S
  proof -
    from life_steps_inv [OF steps assms(1,2) f(5,4,8)] have
      l: "mounted X fs3 buf" "store_rep (X, blk, ph, d3) fs3 S" and k: "kept fs2 fs3" by simp_all
    have e: "fs_dev fs3 = fs_dev fs2" "fs_geo fs3 = geo" "po_freelist (fs_pools fs3) = po_freelist (fs_pools fs2)" "po_htbl (fs_pools fs3) = po_htbl (fs_pools fs2)"
      using k f(9) by (simp_all add: kept_def)
    have dev: "cache_dev fs3 = Data_dev" "dv_md_dev (fs_dev fs3) = False" using f(8) e(1) by (simp_all add: cache_dev_def)
    from sync_open_run [of X blk fs3, unfolded dev, OF assms(1-3) l] f(7) assms(7) e(2,3) obtain fs4 d4 fs5 buf5 where
      s: "fla_base_sync X fs3 buf d3 = Some (0, fs4, d4)" "fla_open X False d4 = Some (0, Some (fs5, buf5))" "reopened fs3 fs5"
        "store_rep (X, blk, ph, d4) fs5 S" "\<forall>ob\<in>S. \<forall>i\<in>obj_blocks fs3 ph ob. blk d4 Data_dev i = blk d3 Data_dev i" by auto
    have "md_sizes fs3" using l(1) by (simp add: mounted_def)
    note R = reopened_dir [OF s(3) kept_dir [OF k f(6)] this]
    have "htbl_key hm (po_htbl (fs_pools fs5)) (pa_name arg)" using f(12) s(3) e(4) by (simp add: htbl_key_def reopened_def)
    moreover have "htbl_inv hm (po_htbl (fs_pools fs5))" using R(1) by (simp add: dir_inv_def)
    moreover have "x_malloc X Malloc_pool_handle" using assms(2) by (simp add: works_def)
    moreover have "pool_names fs5 (FLA_HTBL_H2 (pa_name arg)) = Some (ph_ndx ph)" using R(2) f(10) e(4) by simp
    ultimately have "fla_base_pool_open X fs5 (pa_name arg) = Some (0, Some ph)" using pool_open_view [of hm fs5 "pa_name arg" X] f(11) by simp
    then show ?thesis using s by blast
  qed
  then show ?thesis using f(1-3) by blast
qed

text \<open>The device in memory, with a pool of objects of 60 blocks and one object.\<close>

lemma life_example:
  "name_ok arg_example" "FLA_HTBL_H2 (pa_name arg_example) \<noteq> FLA_HTBL_ENTRY_UNSET" "size_ok geo_example (pa_obj_nlb arg_example)"
  "2 \<le> unat (g_nslabs geo_example)" "unat (g_npools geo_example) \<le> 2 ^ 15" "unat (g_npools geo_example) \<noteq> 32"
  using htbl_example_keys(1) [of "htbl_blank\<lparr>ht_tbl_size := 4\<rparr>"]
  by (simp_all add: name_ok_def arg_example_def FLA_NAME_SIZE_POOL_def size_ok_def geo_example_def flist_blocks_def htbl_key_def)

lemma pool_room:
  assumes "store_rep (X, blk, ph, d) fs S" "0 < unat (sl_fslab_num (fs_slabs fs))"
  shows "\<exists>fs' ob. fla_base_object_create X fs ph d = Some (0, fs', Some ob) \<and> store_rep (X, blk, ph, d) fs' (insert ob S)"
proof -
  obtain n L F Q where r: "ph_ndx ph = 0" "dev_good X fs" "pool_env X blk fs n" "pool_rep blk fs d n L F Q {}" "objects n L F = S"
    using store_repE [OF assms(1)] .
  have "Q \<noteq> []" using pool_rep_lists [OF r(4)] assms(2) by (auto simp: lists_ok_def)
  then have "\<not> exhausted L Q" by (simp add: exhausted_def)
  then show ?thesis using object_create_spec [OF r(3,4,2,1)] store_create_law [OF assms(1)] by (auto simp: FLA_ERR_ALL_SLABS_USED_def)
qed

theorem fla_sync_open_witness:
  "\<exists>fs buf ph d S ob fs1 d' fs' buf'. ob \<in> S \<and> mounted mem_xnvme fs buf \<and> fla_base_sync mem_xnvme fs buf d = Some (0, fs1, d')
    \<and> fla_open mem_xnvme False d' = Some (0, Some (fs', buf')) \<and> store_rep (mem_xnvme, mem_blk, ph, d') fs' S"
proof -
  from first_pool_run [OF mem_media mem_works mem_plain mkfs_example_geo life_example(4,5,1-3), of "\<lambda>_ _. []"] obtain hm d1 buf fs2 ph where
    f: "store_rep (mem_xnvme, mem_blk, ph, d1) fs2 {}" "mounted mem_xnvme fs2 buf" "dir_inv hm fs2"
      "0 \<notin> flist_free (po_freelist (fs_pools fs2))" "\<not> dv_md_dev (fs_dev fs2)" "fs_geo fs2 = geo_example"
      "sl_fslab_num (fs_slabs fs2) = g_nslabs geo_example" by blast
  from pool_room [OF f(1)] f(7) obtain fs3 ob where
    c: "fla_base_object_create mem_xnvme fs2 ph d1 = Some (0, fs3, Some ob)" "store_rep (mem_xnvme, mem_blk, ph, d1) fs3 {ob}" by (auto simp: geo_example_def)
  have st: "(life_step mem_xnvme ph)\<^sup>*\<^sup>* (fs2, d1, {}) (fs3, d1, {ob})" using life_object [OF step_create [OF c(1)]] by blast
  from life_steps_inv [OF st mem_media mem_works f(2,1,5)] have l: "mounted mem_xnvme fs3 buf" "kept fs2 fs3" by simp_all
  then have k: "cache_dev fs3 = Data_dev" "\<not> dv_md_dev (fs_dev fs3)" "0 \<notin> flist_free (po_freelist (fs_pools fs3))" "unat (g_npools (fs_geo fs3)) \<noteq> 32"
    using f(4-6) life_example(6) by (simp_all add: kept_def cache_dev_def)
  from fla_sync_open [OF mem_media mem_works mem_plain l(1) kept_dir [OF l(2) f(3)] c(2) k(3,4)] k(2) obtain fs1 d' fs' buf' where
    "fla_base_sync mem_xnvme fs3 buf d1 = Some (0, fs1, d')" "fla_open mem_xnvme False d' = Some (0, Some (fs', buf'))"
    "store_rep (mem_xnvme, mem_blk, ph, d') fs' {ob}" by auto
  then show ?thesis using l(1) by blast
qed

theorem fla_life_witness:
  "\<exists>d1 fs1 buf fs2 ph fs3 ob. fla_mkfs mem_xnvme mkfs_example (fs_geo fs_zero) (\<lambda>_ _. []) = Some (0, d1)
    \<and> fla_open mem_xnvme False d1 = Some (0, Some (fs1, buf)) \<and> fla_base_pool_create mem_xnvme fs1 arg_example = Some (0, fs2, Some ph)
    \<and> (life_step mem_xnvme ph)\<^sup>*\<^sup>* (fs2, d1, {}) (fs3, d1, {ob})
    \<and> (\<exists>fs4 d4 fs5 buf5. fla_base_sync mem_xnvme fs3 buf d1 = Some (0, fs4, d4) \<and> fla_open mem_xnvme False d4 = Some (0, Some (fs5, buf5))
         \<and> fla_base_pool_open mem_xnvme fs5 (pa_name arg_example) = Some (0, Some ph) \<and> store_rep (mem_xnvme, mem_blk, ph, d4) fs5 {ob})"
proof -
  from fla_life [OF mem_media mem_works mem_plain mkfs_example_geo life_example(4-6,1-3), of "\<lambda>_ _. []"] obtain d1 fs1 buf fs2 ph where
    m: "fla_mkfs mem_xnvme mkfs_example (fs_geo fs_zero) (\<lambda>_ _. []) = Some (0, d1)"
      "fla_open mem_xnvme False d1 = Some (0, Some (fs1, buf))" "fla_base_pool_create mem_xnvme fs1 arg_example = Some (0, fs2, Some ph)"
    and L: "\<forall>fs3 d3 S. (life_step mem_xnvme ph)\<^sup>*\<^sup>* (fs2, d1, {}) (fs3, d3, S) \<longrightarrow>
        (\<exists>fs4 d4 fs5 buf5. fla_base_sync mem_xnvme fs3 buf d3 = Some (0, fs4, d4) \<and> fla_open mem_xnvme False d4 = Some (0, Some (fs5, buf5))
          \<and> fla_base_pool_open mem_xnvme fs5 (pa_name arg_example) = Some (0, Some ph) \<and> store_rep (mem_xnvme, mem_blk, ph, d4) fs5 S
          \<and> (\<forall>ob\<in>S. \<forall>i\<in>obj_blocks fs3 ph ob. mem_blk d4 Data_dev i = mem_blk d3 Data_dev i))" by blast
  from first_pool_run [OF mem_media mem_works mem_plain mkfs_example_geo life_example(4,5,1-3), of "\<lambda>_ _. []"] m
  have "store_rep (mem_xnvme, mem_blk, ph, d1) fs2 {}" "sl_fslab_num (fs_slabs fs2) = g_nslabs geo_example" by auto
  from pool_room [OF this(1)] this(2) obtain fs3 ob where
    "fla_base_object_create mem_xnvme fs2 ph d1 = Some (0, fs3, Some ob)" by (auto simp: geo_example_def)
  then have "(life_step mem_xnvme ph)\<^sup>*\<^sup>* (fs2, d1, {}) (fs3, d1, {ob})" by (intro r_into_rtranclp life_object step_create)
  moreover from L [rule_format, OF this] obtain fs4 d4 fs5 buf5 where
    "fla_base_sync mem_xnvme fs3 buf d1 = Some (0, fs4, d4)" "fla_open mem_xnvme False d4 = Some (0, Some (fs5, buf5))"
    "fla_base_pool_open mem_xnvme fs5 (pa_name arg_example) = Some (0, Some ph)" "store_rep (mem_xnvme, mem_blk, ph, d4) fs5 {ob}" by blast
  ultimately show ?thesis using m by blast
qed

end
