(* ===== verification/Fla_Strp.thy ===== *)
theory Fla_Strp
  imports Fla_Object
begin

text \<open>
  Striped transfers, \<open>fla_xne_async_strp_seq_xneio\<close> of \<open>src/src/flexalloc_xnvme_env.c\<close>: the bytes of
  a striped object lie in chunks on several objects in turn. A transfer puts one command per object
  on a queue; when a command completes, its callback submits the next command for the same object.

  The queue belongs to xNVMe. It completes the commands it holds in any order, and it may refuse a
  command; both are the events of a run, which is a list of events. A command has its effect on the
  device or the buffer when it completes. The calls of \<open>xnvme_queue_poke\<close>, when a command is
  refused because the queue is busy, and of \<open>xnvme_queue_drain\<close> are the places where completions
  are processed; a busy queue gives no event of its own.
\<close>

section \<open>Definitions\<close>

record fla_strp_params =
  sp_strp_nobjs :: u32
  sp_strp_chunk_nbytes :: u32
  sp_faobj_nlbs :: u64
  sp_xfer_snbytes :: u64
  sp_xfer_nbytes :: u64
  sp_strp_obj_tnbytes :: u64
  sp_strp_obj_start_nbytes :: u64
  sp_dev_lba_nbytes :: u32
  sp_write :: bool

text \<open>The arguments of the callback; \<open>ca_ctx\<close> is the command context, \<open>ca_queued\<close> is whether it is on the queue.\<close>

record fla_async_strp_cb_args =
  ca_slba :: u64
  ca_nlbs :: u16
  ca_sbuf_nbytes :: u64
  ca_ecount :: u32
  ca_completed :: u32
  ca_submitted :: u32
  ca_ctx :: cmd_ctx
  ca_queued :: bool

definition fla_min :: "u64 \<Rightarrow> u64 \<Rightarrow> u64" where
  "fla_min a b = (if a < b then a else b)"

definition calc_chunk_translation :: "u64 \<Rightarrow> u64 \<Rightarrow> u64 \<Rightarrow> u64" where
  "calc_chunk_translation zero_offset chunk translation_step =
     zero_offset mod chunk + (zero_offset div chunk) * translation_step"

definition calc_strp_obj_slba :: "u64 \<Rightarrow> fla_strp_params \<Rightarrow> u64" where
  "calc_strp_obj_slba xfer_snbytes sp =
     (let chunks_in_faobs = calc_chunk_translation xfer_snbytes (ucast (sp_strp_chunk_nbytes sp))
                              (sp_faobj_nlbs sp * ucast (sp_dev_lba_nbytes sp))
      in calc_chunk_translation chunks_in_faobs (sp_strp_obj_tnbytes sp) (ucast (sp_strp_chunk_nbytes sp))
         div ucast (sp_dev_lba_nbytes sp))"

definition calc_strp_obj_next_nbls :: "u64 \<Rightarrow> fla_strp_params \<Rightarrow> u16" where
  "calc_strp_obj_next_nbls sbuf_nbytes sp =
     ucast (fla_min (ucast (sp_strp_chunk_nbytes sp)) (sp_xfer_nbytes sp - sbuf_nbytes) div ucast (sp_dev_lba_nbytes sp) - 1)"

definition calc_strp_obj_first_nlbs :: "u64 \<Rightarrow> fla_strp_params \<Rightarrow> u16" where
  "calc_strp_obj_first_nlbs xfer_snbytes sp =
     ucast (fla_min (sp_xfer_nbytes sp)
              (ucast (sp_strp_chunk_nbytes sp) - xfer_snbytes mod ucast (sp_strp_chunk_nbytes sp))
            div ucast (sp_dev_lba_nbytes sp) - 1)"

definition calc_strp_obj_next_sbuf_nbytes :: "u64 \<Rightarrow> u32 \<Rightarrow> fla_strp_params \<Rightarrow> u64" where
  "calc_strp_obj_next_sbuf_nbytes curr_sbuf_nbytes xfered_nbls sp =
     curr_sbuf_nbytes + ucast ((xfered_nbls + 1) * sp_dev_lba_nbytes sp)
     + ucast (sp_strp_chunk_nbytes sp * (sp_strp_nobjs sp - 1))"

text \<open>
  The callback, given the completion status of its command and what \<open>xnvme_nvm_write\<close> or
  \<open>xnvme_nvm_read\<close> returns for the next one.
\<close>

definition fla_async_strp_cb :: "fla_strp_params \<Rightarrow> bool \<Rightarrow> int \<Rightarrow> fla_async_strp_cb_args \<Rightarrow> fla_async_strp_cb_args" where
  "fla_async_strp_cb sp status err ca =
     (let ca = ca\<lparr>ca_completed := ca_completed ca + 1\<rparr>;
          ca = (if status then ca\<lparr>ca_ecount := ca_ecount ca + 1\<rparr> else ca);
          ca = ca\<lparr>ca_sbuf_nbytes := calc_strp_obj_next_sbuf_nbytes (ca_sbuf_nbytes ca) (ucast (ca_nlbs ca)) sp\<rparr>
      in if ca_sbuf_nbytes ca < sp_xfer_nbytes sp
         then let ca = ca\<lparr>ca_slba := ca_slba ca + (ucast (ca_nlbs ca) + 1)\<rparr>;
                  ca = ca\<lparr>ca_nlbs := calc_strp_obj_next_nbls (ca_sbuf_nbytes ca) sp\<rparr>
              in if err = 0 then ca\<lparr>ca_submitted := ca_submitted ca + 1\<rparr> else ca\<lparr>ca_queued := False\<rparr>
         else ca\<lparr>ca_queued := False\<rparr>)"

text \<open>The effect of a command on the device or the buffer, with its completion status.\<close>

definition strp_command ::
  "'d xnvme \<Rightarrow> xdev \<Rightarrow> fla_strp_params \<Rightarrow> fla_async_strp_cb_args \<Rightarrow> u8 list \<Rightarrow> 'd \<Rightarrow> (bool \<times> u8 list \<times> 'd) option" where
  "strp_command X dev sp ca buf d =
     (if sp_write sp
      then do {
        bytes \<leftarrow> buf_get buf (unat (ca_sbuf_nbytes ca)) ((unat (ca_nlbs ca) + 1) * lbsz X dev);
        let r = x_write X dev (ca_ctx ca) (ca_slba ca) (ca_nlbs ca) bytes d;
        Some (fst r \<noteq> 0 \<or> fst (snd r), buf, snd (snd r))
      }
      else do {
        let r = x_read X dev (ca_slba ca) (ca_nlbs ca) d;
        buf \<leftarrow> buf_put buf (unat (ca_sbuf_nbytes ca)) (snd (snd r));
        Some (fst r \<noteq> 0 \<or> fst (snd r), buf, d)
      })"

text \<open>
  The state of a transfer: the callback arguments that are in use, the local variable
  \<open>sbuf_nbytes\<close>, and whether the loop is still submitting, the queue is drained, or the function
  has returned.
\<close>

datatype strp_phase = Strp_submit | Strp_drain | Strp_done int

record 'd strp_state =
  ss_cb_args :: "fla_async_strp_cb_args list"
  ss_sbuf_nbytes :: u64
  ss_buf :: "u8 list"
  ss_dp :: fla_dp
  ss_dev :: 'd
  ss_phase :: strp_phase

text \<open>
  Events: the loop gets no context; the loop submits a command, with the answer to the last attempt;
  a command completes and its callback gets an answer for the next one; the loop ends; the queue is
  drained and terminated, with the results of both calls.
\<close>

datatype strp_event = Ev_no_ctx | Ev_submit int | Ev_complete nat int | Ev_loop_end | Ev_close int int

abbreviation EAGAIN :: int where "EAGAIN \<equiv> 11"
abbreviation EBUSY :: int where "EBUSY \<equiv> 16"

definition strp_enabled :: "fla_strp_params \<Rightarrow> strp_event \<Rightarrow> 'd strp_state \<Rightarrow> bool" where
  "strp_enabled sp ev s =
     (let more = length (ss_cb_args s) < unat (sp_strp_nobjs sp) \<and> ss_sbuf_nbytes s < sp_xfer_nbytes sp
      in case ev of
           Ev_no_ctx \<Rightarrow> ss_phase s = Strp_submit \<and> more
         | Ev_submit err \<Rightarrow> ss_phase s = Strp_submit \<and> more \<and> err \<noteq> - EBUSY \<and> err \<noteq> - EAGAIN
         | Ev_complete i err \<Rightarrow> ss_phase s \<in> {Strp_submit, Strp_drain} \<and> i < length (ss_cb_args s) \<and> ca_queued (ss_cb_args s ! i)
         | Ev_loop_end \<Rightarrow> ss_phase s = Strp_submit \<and> \<not> more
         | Ev_close ret err \<Rightarrow> ss_phase s = Strp_drain \<and> (0 \<le> ret \<longrightarrow> (\<forall>ca\<in>set (ss_cb_args s). \<not> ca_queued ca)))"

text \<open>The body of the submission loop. The array of callback arguments has 512 elements.\<close>

definition strp_submit :: "'d xnvme \<Rightarrow> fla_xne_io \<Rightarrow> fla_strp_params \<Rightarrow> int \<Rightarrow> 'd strp_state \<Rightarrow> 'd strp_state option" where
  "strp_submit X io sp serr s =
     (if 512 \<le> length (ss_cb_args s) \<or> sp_strp_chunk_nbytes sp = 0 \<or> sp_strp_obj_tnbytes sp = 0 then None
      else do {
        let ctx = x_ctx_from_dev X (xi_dev io);
        (err, dp, ctx) \<leftarrow> (case xi_prep_ctx io of None \<Rightarrow> Some (0, ss_dp s, ctx)
                            | Some f \<Rightarrow> run_prep_ctx X f io (ss_dp s) ctx (ss_dev s));
        if err \<noteq> 0 then Some (s\<lparr>ss_dp := dp, ss_phase := Strp_drain\<rparr>)
        else do {
          let curr_nlbs = calc_strp_obj_first_nlbs (ss_sbuf_nbytes s + sp_xfer_snbytes sp) sp;
          let ca = \<lparr>ca_slba = calc_strp_obj_slba (ss_sbuf_nbytes s + sp_xfer_snbytes sp) sp
                      + sp_strp_obj_start_nbytes sp div ucast (sp_dev_lba_nbytes sp),
                    ca_nlbs = curr_nlbs, ca_sbuf_nbytes = ss_sbuf_nbytes s, ca_ecount = 0, ca_completed = 0,
                    ca_submitted = 0, ca_ctx = ctx, ca_queued = False\<rparr>;
          if serr \<noteq> 0 then Some (s\<lparr>ss_dp := dp, ss_cb_args := ss_cb_args s @ [ca], ss_phase := Strp_drain\<rparr>)
          else Some (s\<lparr>ss_dp := dp, ss_cb_args := ss_cb_args s @ [ca\<lparr>ca_submitted := 1, ca_queued := True\<rparr>],
                  ss_sbuf_nbytes := ss_sbuf_nbytes s + ucast ((ucast curr_nlbs + 1) * sp_dev_lba_nbytes sp)\<rparr>)
        }
      })"

definition strp_event :: "'d xnvme \<Rightarrow> fla_xne_io \<Rightarrow> fla_strp_params \<Rightarrow> strp_event \<Rightarrow> 'd strp_state \<Rightarrow> 'd strp_state option" where
  "strp_event X io sp ev s = (case ev of
       Ev_no_ctx \<Rightarrow> Some (s\<lparr>ss_phase := Strp_drain\<rparr>)
     | Ev_submit err \<Rightarrow> strp_submit X io sp err s
     | Ev_complete i err \<Rightarrow> do {
         ca \<leftarrow> rd (ss_cb_args s) i;
         (status, buf, d) \<leftarrow> strp_command X (xi_dev io) sp ca (ss_buf s) (ss_dev s);
         Some (s\<lparr>ss_cb_args := (ss_cb_args s)[i := fla_async_strp_cb sp status err ca], ss_buf := buf, ss_dev := d\<rparr>)
       }
     | Ev_loop_end \<Rightarrow> Some (s\<lparr>ss_phase := Strp_drain\<rparr>)
     | Ev_close ret err \<Rightarrow>
         Some (s\<lparr>ss_phase := Strp_done (if ret < 0 then 1 else if err \<noteq> 0 then err
           else c_bool (sp_strp_nobjs sp \<noteq> 0 \<and> (\<exists>ca cas. ss_cb_args s = ca # cas \<and> ca_ecount ca \<noteq> 0)))\<rparr>))"

fun strp_run :: "'d xnvme \<Rightarrow> fla_xne_io \<Rightarrow> fla_strp_params \<Rightarrow> strp_event list \<Rightarrow> 'd strp_state \<Rightarrow> 'd strp_state option" where
  "strp_run X io sp [] s = Some s"
| "strp_run X io sp (ev # evs) s = do {
     s \<leftarrow> strp_event X io sp ev s;
     strp_run X io sp evs s
   }"

text \<open>
  The start of \<open>fla_xne_async_strp_seq_xneio\<close>, up to the loop; \<open>qerr\<close> is what
  \<open>xnvme_queue_init\<close> returns.
\<close>

definition fla_xne_async_strp_seq_xneio ::
  "fla_xne_io \<Rightarrow> fla_strp_params \<Rightarrow> int \<Rightarrow> fla_dp \<Rightarrow> 'd \<Rightarrow> 'd strp_state option" where
  "fla_xne_async_strp_seq_xneio io sp qerr dp d =
     (let s = \<lparr>ss_cb_args = [], ss_sbuf_nbytes = 0, ss_buf = xi_buf io, ss_dp = dp, ss_dev = d, ss_phase = Strp_submit\<rparr>
      in if sp_dev_lba_nbytes sp = 0 then None
         else if sp_xfer_nbytes sp mod ucast (sp_dev_lba_nbytes sp) \<noteq> 0 \<or> sp_xfer_snbytes sp mod ucast (sp_dev_lba_nbytes sp) \<noteq> 0
         then Some (s\<lparr>ss_phase := Strp_done 1\<rparr>)
         else if qerr \<noteq> 0 then Some (s\<lparr>ss_phase := Strp_done qerr\<rparr>)
         else Some s)"

text \<open>The parameters that \<open>fla_object_read\<close> and \<open>fla_object_write\<close> pass for a striped pool.\<close>

definition object_strp_params :: "flexalloc \<Rightarrow> fla_pool_entry \<Rightarrow> u64 \<Rightarrow> u64 \<Rightarrow> u64 \<Rightarrow> bool \<Rightarrow> fla_strp_params" where
  "object_strp_params fs e obj_soffset off len w =
     \<lparr>sp_strp_nobjs = ps_strp_nobjs (strp_ops e), sp_strp_chunk_nbytes = ps_strp_nbytes (strp_ops e),
      sp_faobj_nlbs = ucast (pe_obj_nlb e), sp_xfer_snbytes = off, sp_xfer_nbytes = len,
      sp_strp_obj_tnbytes = ucast (ps_strp_nobjs (strp_ops e)) * ucast (pe_obj_nlb e) * ucast (g_lb_nbytes (fs_geo fs)),
      sp_strp_obj_start_nbytes = obj_soffset, sp_dev_lba_nbytes = g_lb_nbytes (fs_geo fs), sp_write = w\<rparr>"

section \<open>Where the blocks of a striped object lie\<close>

text \<open>The parameters in blocks.\<close>

abbreviation sB :: "fla_strp_params \<Rightarrow> nat" where "sB sp \<equiv> unat (sp_dev_lba_nbytes sp)"
abbreviation sN :: "fla_strp_params \<Rightarrow> nat" where "sN sp \<equiv> unat (sp_strp_nobjs sp)"
abbreviation sF :: "fla_strp_params \<Rightarrow> nat" where "sF sp \<equiv> unat (sp_faobj_nlbs sp)"

definition sK :: "fla_strp_params \<Rightarrow> nat" where "sK sp = unat (sp_strp_chunk_nbytes sp) div sB sp"
definition sS :: "fla_strp_params \<Rightarrow> nat" where "sS sp = unat (sp_xfer_snbytes sp) div sB sp"
definition sM :: "fla_strp_params \<Rightarrow> nat" where "sM sp = unat (sp_xfer_nbytes sp) div sB sp"
definition sBase :: "fla_strp_params \<Rightarrow> nat" where "sBase sp = unat (sp_strp_obj_start_nbytes sp) div sB sp"

text \<open>
  Whole blocks, chunks that divide the objects and have at most \<open>2^16\<close> blocks, a transfer inside the
  striped object, and sizes for which no product wraps.
\<close>

definition sp_ok :: "fla_strp_params \<Rightarrow> bool" where
  "sp_ok sp \<longleftrightarrow> 0 < sB sp \<and> 0 < sN sp \<and> sN sp \<le> 512 \<and> 0 < sK sp \<and> sK sp \<le> 2 ^ 16
     \<and> unat (sp_strp_chunk_nbytes sp) = sK sp * sB sp \<and> unat (sp_xfer_snbytes sp) = sS sp * sB sp
     \<and> unat (sp_xfer_nbytes sp) = sM sp * sB sp \<and> unat (sp_strp_obj_start_nbytes sp) = sBase sp * sB sp
     \<and> unat (sp_strp_obj_tnbytes sp) = sN sp * sF sp * sB sp \<and> sK sp dvd sF sp \<and> 0 < sF sp \<and> sS sp + sM sp \<le> sN sp * sF sp
     \<and> sN sp * sK sp * sB sp < 2 ^ 32 \<and> sN sp * sF sp * sF sp * sB sp < 2 ^ 62 \<and> sBase sp < 2 ^ 62"

text \<open>Block \<open>x\<close> of the striped object: its chunk is on object \<open>x div K mod N\<close>, in row \<open>x div K div N\<close>.\<close>

definition strp_rel :: "fla_strp_params \<Rightarrow> nat \<Rightarrow> nat" where
  "strp_rel sp x = (x div sK sp mod sN sp) * sF sp + (x div sK sp div sN sp) * sK sp + x mod sK sp"

definition strp_lba :: "fla_strp_params \<Rightarrow> nat \<Rightarrow> nat" where
  "strp_lba sp x = sBase sp + strp_rel sp x"

lemma sp_okD:
  assumes "sp_ok sp"
  shows "0 < sB sp" "0 < sN sp" "sN sp \<le> 512" "0 < sK sp" "sK sp \<le> 2 ^ 16" "unat (sp_strp_chunk_nbytes sp) = sK sp * sB sp"
    "unat (sp_xfer_snbytes sp) = sS sp * sB sp" "unat (sp_xfer_nbytes sp) = sM sp * sB sp" "unat (sp_strp_obj_start_nbytes sp) = sBase sp * sB sp"
    "unat (sp_strp_obj_tnbytes sp) = sN sp * sF sp * sB sp" "sK sp dvd sF sp" "0 < sF sp" "sS sp + sM sp \<le> sN sp * sF sp"
    "sN sp * sK sp * sB sp < 2 ^ 32" "sN sp * sF sp * sF sp * sB sp < 2 ^ 62" "sBase sp < 2 ^ 62"
  using assms unfolding sp_ok_def by simp_all

text \<open>The place of a block in its object is inside the object.\<close>

lemma strp_row:
  assumes "sp_ok sp" "x < sN sp * sF sp"
  shows "(x div sK sp div sN sp) * sK sp + x mod sK sp < sF sp"
proof -
  note D = sp_okD [OF assms(1)]
  obtain r where r: "sF sp = sK sp * r" using D(11) by (rule dvdE)
  have "x < (r * sN sp) * sK sp" using assms(2) r by (simp add: algebra_simps)
  then have "x div sK sp < r * sN sp" using D(4) by (simp add: div_less_iff_less_mult)
  then have "x div sK sp div sN sp < r" using D(2) by (simp add: div_less_iff_less_mult)
  then have "Suc (x div sK sp div sN sp) * sK sp \<le> r * sK sp" by (intro mult_le_mono1) simp
  moreover have "x mod sK sp < sK sp" using D(4) by simp
  ultimately show ?thesis by (simp add: r mult.commute)
qed

lemma strp_rel_less:
  assumes "sp_ok sp" "x < sN sp * sF sp"
  shows "strp_rel sp x < sN sp * sF sp"
proof -
  note D = sp_okD [OF assms(1)]
  have "x div sK sp mod sN sp < sN sp" using D(2) by simp
  then have "Suc (x div sK sp mod sN sp) * sF sp \<le> sN sp * sF sp" by (intro mult_le_mono1) simp
  then show ?thesis using strp_row [OF assms] by (simp add: strp_rel_def)
qed

lemma strp_rel_inj:
  assumes "sp_ok sp" "x < sN sp * sF sp" "y < sN sp * sF sp" "strp_rel sp x = strp_rel sp y"
  shows "x = y"
proof -
  note D = sp_okD [OF assms(1)]
  have r: "strp_rel sp z mod sF sp = (z div sK sp div sN sp) * sK sp + z mod sK sp" "strp_rel sp z div sF sp = z div sK sp mod sN sp"
    if "z < sN sp * sF sp" for z
    using strp_row [OF assms(1) that] D(12) by (simp_all add: strp_rel_def add.assoc)
  have row: "((z div sK sp div sN sp) * sK sp + z mod sK sp) div sK sp = z div sK sp div sN sp"
    "((z div sK sp div sN sp) * sK sp + z mod sK sp) mod sK sp = z mod sK sp" for z using D(4) by simp_all
  have "x div sK sp div sN sp = y div sK sp div sN sp" "x mod sK sp = y mod sK sp" "x div sK sp mod sN sp = y div sK sp mod sN sp"
    using r [OF assms(2)] r [OF assms(3)] assms(4) row by metis+
  then have "x div sK sp = y div sK sp" by (metis div_mult_mod_eq)
  then show ?thesis using \<open>x mod sK sp = y mod sK sp\<close> by (metis div_mult_mod_eq)
qed

lemma strp_lba_inj:
  "sp_ok sp \<Longrightarrow> x < sN sp * sF sp \<Longrightarrow> y < sN sp * sF sp \<Longrightarrow> strp_lba sp x = strp_lba sp y \<longleftrightarrow> x = y"
  using strp_rel_inj by (auto simp: strp_lba_def)

text \<open>Inside a chunk the blocks follow each other, and a row later the chunk of the same object follows.\<close>

lemma strp_lba_chunk:
  assumes "sp_ok sp" "x mod sK sp + b < sK sp"
  shows "strp_lba sp (x + b) = strp_lba sp x + b"
proof -
  note D = sp_okD [OF assms(1)]
  have "(x + b) div sK sp = x div sK sp" "(x + b) mod sK sp = x mod sK sp + b"
  proof -
    have "x + b = (x mod sK sp + b) + x div sK sp * sK sp" by simp
    then show "(x + b) div sK sp = x div sK sp" "(x + b) mod sK sp = x mod sK sp + b"
      using assms(2) D(4) by (metis add.commute div_less div_mult_self3 less_not_refl add_0, metis mod_less mod_mult_self1)
  qed
  then show ?thesis by (simp add: strp_lba_def strp_rel_def)
qed

lemma div_up: "0 < k \<Longrightarrow> (x :: nat) + (k - x mod k) = (x div k + 1) * k"
proof -
  assume k: "0 < k"
  define c r where "c = x div k" and "r = x mod k"
  have "x = c * k + r" "r < k" using k by (simp_all add: c_def r_def)
  then have "x + (k - r) = (c + 1) * k" by simp
  then show ?thesis by (simp only: c_def r_def)
qed

lemma strp_lba_row:
  assumes "sp_ok sp"
  shows "strp_lba sp (x + (sK sp - x mod sK sp) + (sN sp - 1) * sK sp) = strp_lba sp x + (sK sp - x mod sK sp)"
proof -
  note D = sp_okD [OF assms]
  let ?K = "sK sp" and ?N = "sN sp"
  have lt: "x mod ?K < ?K" using D(4) by simp
  have "x + (?K - x mod ?K) = (x div ?K + 1) * ?K" using div_up [OF D(4)] .
  then have y: "x + (?K - x mod ?K) + (?N - 1) * ?K = (x div ?K + ?N) * ?K"
    using D(2) by (cases ?N) (simp_all add: algebra_simps)
  have "(x div ?K + ?N) div ?N = x div ?K div ?N + 1" "(x div ?K + ?N) mod ?N = x div ?K mod ?N" using D(2) by (simp_all add: div_add_self2)
  then show ?thesis using lt D(4) unfolding y by (simp add: strp_lba_def strp_rel_def)
qed

section \<open>The commands of a transfer\<close>

text \<open>
  The transfer is cut at the borders of chunks. Command \<open>k\<close> starts \<open>strp_off sp k\<close> blocks into the
  buffer and has \<open>strp_len sp k\<close> blocks. Block \<open>t\<close> of the transfer belongs to command \<open>strp_no sp t\<close>.
\<close>

definition strp_off :: "fla_strp_params \<Rightarrow> nat \<Rightarrow> nat" where
  "strp_off sp k = (if k = 0 then 0 else k * sK sp - sS sp mod sK sp)"

definition strp_len :: "fla_strp_params \<Rightarrow> nat \<Rightarrow> nat" where
  "strp_len sp k = min (sK sp - (if k = 0 then sS sp mod sK sp else 0)) (sM sp - strp_off sp k)"

definition strp_no :: "fla_strp_params \<Rightarrow> nat \<Rightarrow> nat" where
  "strp_no sp t = (sS sp mod sK sp + t) div sK sp"

text \<open>
  The first command for each object is as long as the whole transfer allows, not the rest of it
  (\<open>calc_strp_obj_first_nlbs\<close>): it stays in the buffer only when the transfer fills these chunks.
\<close>

definition strp_fits :: "fla_strp_params \<Rightarrow> bool" where
  "strp_fits sp \<longleftrightarrow> (\<forall>k. 0 < k \<and> k < sN sp \<and> strp_off sp k < sM sp \<longrightarrow> strp_off sp k + sK sp \<le> sM sp)"

lemma strp_off_Suc:
  assumes "sp_ok sp"
  shows "strp_off sp (Suc k) = strp_off sp k + (sK sp - (if k = 0 then sS sp mod sK sp else 0))"
proof -
  have "sS sp mod sK sp < sK sp" using sp_okD(4) [OF assms] by simp
  then show ?thesis by (cases k) (auto simp: strp_off_def)
qed

lemma strp_off_mono:
  assumes "sp_ok sp" "j \<le> k"
  shows "strp_off sp j \<le> strp_off sp k"
  using assms(2) by (induction rule: dec_induct) (auto simp: strp_off_Suc [OF assms(1)])

lemma strp_off_row:
  assumes "sp_ok sp"
  shows "strp_off sp (k + sN sp) = strp_off sp k + (sK sp - (if k = 0 then sS sp mod sK sp else 0)) + (sN sp - 1) * sK sp"
proof -
  have lt: "sS sp mod sK sp < sK sp" and n: "0 < sN sp" using sp_okD(2,4) [OF assms] by simp_all
  obtain n' where n': "sN sp = Suc n'" using n by (cases "sN sp") auto
  have le: "sS sp mod sK sp \<le> k * sK sp" if "k \<noteq> 0" using lt that by (cases k) auto
  show ?thesis using lt le unfolding strp_off_def n' by (cases k) (auto simp: algebra_simps)
qed

text \<open>The start of a command in the striped object: it is the start of a chunk, but for the first.\<close>

lemma strp_start_mod:
  assumes "sp_ok sp"
  shows "(sS sp + strp_off sp k) mod sK sp = (if k = 0 then sS sp mod sK sp else 0)"
proof (cases k)
  case (Suc j)
  have lt: "sS sp mod sK sp < sK sp" using sp_okD(4) [OF assms] by simp
  have "sS sp + strp_off sp k = sS sp + (sK sp - sS sp mod sK sp) + j * sK sp" using lt Suc by (simp add: strp_off_def)
  also have "\<dots> = (sS sp div sK sp + 1 + j) * sK sp" unfolding div_up [OF sp_okD(4) [OF assms]] by (simp add: add_mult_distrib)
  finally show ?thesis using Suc by simp
qed (simp add: strp_off_def)

lemma strp_len_block:
  assumes "sp_ok sp" "b < strp_len sp k"
  shows "strp_lba sp (sS sp + strp_off sp k + b) = strp_lba sp (sS sp + strp_off sp k) + b" "strp_off sp k + b < sM sp"
  using assms(2) strp_start_mod [OF assms(1), of k] by (auto simp: strp_len_def intro!: strp_lba_chunk [OF assms(1)])

lemma strp_no_iff:
  assumes "sp_ok sp" "t < sM sp"
  shows "strp_no sp t = k \<longleftrightarrow> strp_off sp k \<le> t \<and> t < strp_off sp k + strp_len sp k"
proof -
  have lt: "sS sp mod sK sp < sK sp" "0 < sK sp" using sp_okD(4) [OF assms(1)] by simp_all
  have "strp_no sp t = k \<longleftrightarrow> k * sK sp \<le> sS sp mod sK sp + t \<and> sS sp mod sK sp + t < Suc k * sK sp"
    unfolding strp_no_def using lt(2) by (metis div_less_iff_less_mult less_Suc_eq_le less_eq_div_iff_mult_less_eq order_antisym_conv order_refl)
  also have "\<dots> \<longleftrightarrow> strp_off sp k \<le> t \<and> t < strp_off sp k + strp_len sp k"
  proof (cases k)
    case (Suc j)
    have "sS sp mod sK sp \<le> k * sK sp" using lt(1) Suc by (simp add: trans_le_add1)
    then show ?thesis using assms(2) Suc by (auto simp: strp_off_def strp_len_def)
  qed (use assms(2) lt in \<open>auto simp: strp_off_def strp_len_def\<close>)
  finally show ?thesis .
qed

section \<open>What the computations give\<close>

lemma unat_min: "unat (fla_min a b) = min (unat a) (unat b)"
  by (simp add: fla_min_def word_less_nat_alt min_def)

lemma unat_u64: "a < 2 ^ 64 \<Longrightarrow> unat (of_nat a :: u64) = a"
  by (simp add: unat_of_nat_small)

lemma block_div:
  fixes w :: u64
  assumes "unat w = a * sB sp" "0 < sB sp"
  shows "unat (w div ucast (sp_dev_lba_nbytes sp)) = a"
  using assms by (simp add: unat_div unat_ucast_widen)

lemma sp_small:
  assumes "sp_ok sp"
  shows "sN sp * sF sp * sB sp < 2 ^ 62" "(sS sp + sM sp) * sB sp < 2 ^ 62" "sK sp * sB sp < 2 ^ 32" "sN sp * sF sp < 2 ^ 62"
proof -
  note D = sp_okD [OF assms]
  have "1 \<le> sF sp" "1 \<le> sB sp" using D(1,12) by simp_all
  then have "sN sp * sF sp * 1 * sB sp \<le> sN sp * sF sp * sF sp * sB sp" by (intro mult_le_mono) simp_all
  from le_less_trans [OF this D(15)] show a: "sN sp * sF sp * sB sp < 2 ^ 62" by simp
  show "(sS sp + sM sp) * sB sp < 2 ^ 62" using mult_le_mono1 [OF D(13), of "sB sp"] a by (rule le_less_trans)
  have "1 * sK sp * sB sp \<le> sN sp * sK sp * sB sp" using D(2) by (intro mult_le_mono) simp_all
  from le_less_trans [OF this D(14)] show "sK sp * sB sp < 2 ^ 32" by simp
  have "sN sp * sF sp * 1 \<le> sN sp * sF sp * sB sp" using D(1) by (intro mult_le_mono) simp_all
  from le_less_trans [OF this a] show "sN sp * sF sp < 2 ^ 62" by simp
qed

lemma chunk_translation_nat:
  assumes "0 < unat c" "(unat z div unat c) * unat t + unat z mod unat c < 2 ^ 64"
  shows "unat (calc_chunk_translation z c t) = unat z mod unat c + (unat z div unat c) * unat t"
  using assms by (simp add: calc_chunk_translation_def unat_add_no_wrap unat_mult_no_wrap unat_div unat_mod)

lemma strp_slba_nat:
  assumes "sp_ok sp" "unat x = a * sB sp" "a < sN sp * sF sp"
  shows "unat (calc_strp_obj_slba x sp) = strp_rel sp a"
proof -
  note D = sp_okD [OF assms(1)] and S = sp_small [OF assms(1)]
  let ?B = "sB sp" and ?K = "sK sp" and ?N = "sN sp" and ?F = "sF sp"
  let ?c = "a div ?K" and ?o = "a mod ?K"
  have chunk: "unat (ucast (sp_strp_chunk_nbytes sp) :: u64) = ?K * ?B" using D(6) by (simp add: unat_ucast_widen)
  have "1 * ?F * ?B \<le> ?N * ?F * ?B" using D(2) by (intro mult_le_mono) simp_all
  from le_less_trans [OF this S(1)] have fs: "?F * ?B < 2 ^ 62" by simp
  have fb: "unat (sp_faobj_nlbs sp * ucast (sp_dev_lba_nbytes sp)) = ?F * ?B"
    using fs by (subst unat_mult_no_wrap) (simp_all add: unat_ucast_widen)
  have q: "unat x div (?K * ?B) = ?c" "unat x mod (?K * ?B) = ?o * ?B"
    using assms(2) D(1) by (simp_all add: mult.commute [of ?K] div_mult2_eq mod_mult2_eq)
  have "?c \<le> a" by simp
  then have "?c * ?F \<le> a * ?F" by (rule mult_le_mono1)
  also have "\<dots> \<le> ?N * ?F * ?F" using assms(3) by (intro mult_le_mono1) simp
  finally have cf: "?c * (?F * ?B) \<le> ?N * ?F * ?F * ?B" by (simp add: mult.assoc [symmetric])
  have ob: "?o * ?B < ?K * ?B" using D(1,4) by simp
  define z where "z = calc_chunk_translation x (ucast (sp_strp_chunk_nbytes sp)) (sp_faobj_nlbs sp * ucast (sp_dev_lba_nbytes sp))"
  have kf: "?K * ?B \<le> ?F * ?B" using D(11,12) by (intro mult_le_mono1 dvd_imp_le)
  have "?c * (?F * ?B) + ?o * ?B < 2 ^ 62 + 2 ^ 32"
    using le_less_trans [OF cf D(15)] less_trans [OF ob S(3)] by (rule add_strict_mono)
  then have "?c * (?F * ?B) + ?o * ?B < 2 ^ 64" by simp
  then have z: "unat z = ?o * ?B + ?c * (?F * ?B)"
    unfolding z_def using D(1,4) by (subst chunk_translation_nat) (simp_all add: chunk fb q)
  have t: "unat (sp_strp_obj_tnbytes sp) = ?N * (?F * ?B)" using D(10) by (simp add: mult.assoc)
  have zq: "unat z div (?N * (?F * ?B)) = ?c div ?N" "unat z mod (?N * (?F * ?B)) = (?c mod ?N) * (?F * ?B) + ?o * ?B"
  proof -
    have "unat z = ?c * (?F * ?B) + ?o * ?B" "?o * ?B < ?F * ?B" using z ob kf by simp_all
    then have "unat z div (?F * ?B) = ?c" "unat z mod (?F * ?B) = ?o * ?B" by simp_all
    then show "unat z div (?N * (?F * ?B)) = ?c div ?N" "unat z mod (?N * (?F * ?B)) = (?c mod ?N) * (?F * ?B) + ?o * ?B"
      by (simp_all add: mult.commute [of ?N] div_mult2_eq mod_mult2_eq)
  qed
  have rel: "(?c mod ?N) * (?F * ?B) + ?o * ?B + (?c div ?N) * (?K * ?B) = strp_rel sp a * ?B" by (simp add: strp_rel_def algebra_simps)
  have "strp_rel sp a * ?B < ?N * ?F * ?B" using strp_rel_less [OF assms(1,3)] D(1) by simp
  from less_trans [OF this S(1)] have small: "strp_rel sp a * ?B < 2 ^ 64" by simp
  have "unat (calc_chunk_translation z (sp_strp_obj_tnbytes sp) (ucast (sp_strp_chunk_nbytes sp))) = strp_rel sp a * ?B"
    using D(1,2,12) small rel by (subst chunk_translation_nat) (simp_all only: chunk t zq, simp_all add: add.commute)
  then show ?thesis using D(1) by (simp add: calc_strp_obj_slba_def z_def [symmetric] block_div)
qed

lemma nlbs_nat:
  fixes w :: u64
  assumes "unat w = n * sB sp" "0 < sB sp" "0 < n" "n \<le> 2 ^ 16"
  shows "unat (ucast (w div ucast (sp_dev_lba_nbytes sp) - 1) :: u16) = n - 1"
proof -
  have d: "unat (w div ucast (sp_dev_lba_nbytes sp)) = n" by (rule block_div [OF assms(1,2)])
  then have "unat (w div ucast (sp_dev_lba_nbytes sp) - 1) = n - 1"
    using assms(3) by (subst unat_dec) (auto simp: unat_eq_0 [symmetric])
  then show ?thesis using assms(3,4) by (simp add: unsigned_ucast_eq take_bit_nat_eq_self)
qed

lemma next_nlbs_nat:
  assumes "sp_ok sp" "unat w = q * sB sp" "q < sM sp"
  shows "unat (calc_strp_obj_next_nbls w sp) = min (sK sp) (sM sp - q) - 1"
proof -
  note D = sp_okD [OF assms(1)]
  have le: "unat w \<le> unat (sp_xfer_nbytes sp)" using assms(2,3) D(8) by simp
  have "unat (fla_min (ucast (sp_strp_chunk_nbytes sp)) (sp_xfer_nbytes sp - w)) = min (sK sp) (sM sp - q) * sB sp"
    using D(6,8) assms(2) le by (simp only: unat_min nat_mult_min_left) (simp add: unat_ucast_widen unat_sub_no_wrap diff_mult_distrib)
  then show ?thesis using D(1,4,5) assms(3) unfolding calc_strp_obj_next_nbls_def by (intro nlbs_nat) (auto simp: min_def)
qed

lemma first_nlbs_nat:
  assumes "sp_ok sp" "unat w = a * sB sp" "0 < sM sp"
  shows "unat (calc_strp_obj_first_nlbs w sp) = min (sM sp) (sK sp - a mod sK sp) - 1"
proof -
  note D = sp_okD [OF assms(1)]
  have lt: "a mod sK sp < sK sp" using D(4) by simp
  have c: "unat (ucast (sp_strp_chunk_nbytes sp) :: u64) = sK sp * sB sp" using D(6) by (simp add: unat_ucast_widen)
  have m: "unat (w mod ucast (sp_strp_chunk_nbytes sp)) = (a mod sK sp) * sB sp"
    using assms(2) c D(1) by (simp add: unat_mod mult.commute [of "sK sp"] mod_mult2_eq)
  then have "unat (ucast (sp_strp_chunk_nbytes sp) - w mod ucast (sp_strp_chunk_nbytes sp)) = (sK sp - a mod sK sp) * sB sp"
    using c lt by (subst unat_sub_no_wrap) (simp_all add: diff_mult_distrib)
  then have "unat (fla_min (sp_xfer_nbytes sp) (ucast (sp_strp_chunk_nbytes sp) - w mod ucast (sp_strp_chunk_nbytes sp)))
      = min (sM sp) (sK sp - a mod sK sp) * sB sp"
    using D(8) by (simp only: unat_min nat_mult_min_left)
  then show ?thesis using D(1,5) lt assms(3) unfolding calc_strp_obj_first_nlbs_def by (intro nlbs_nat) (auto simp: min_def)
qed

lemma step_nbytes:
  assumes "sp_ok sp" "unat n16 = len - 1" "0 < len" "len \<le> sK sp"
  shows "unat ((ucast (n16 :: u16) + 1) * sp_dev_lba_nbytes sp) = len * sB sp"
proof -
  have n: "unat (ucast n16 + 1 :: u32) = len"
    using assms(2-4) sp_okD(5) [OF assms(1)] by (simp add: unat_add_no_wrap unat_ucast_widen)
  from le_less_trans [OF mult_le_mono1 [OF assms(4)] sp_small(3) [OF assms(1)]] show ?thesis using n by (subst unat_mult_no_wrap) simp_all
qed

lemma next_sbuf_nat:
  assumes "sp_ok sp" "unat w = q * sB sp" "unat n16 = len - 1" "0 < len" "len \<le> sK sp" "q + len \<le> sM sp"
  shows "unat (calc_strp_obj_next_sbuf_nbytes w (ucast (n16 :: u16)) sp) = (q + len + (sN sp - 1) * sK sp) * sB sp"
proof -
  note D = sp_okD [OF assms(1)] and S = sp_small [OF assms(1)]
  have n1: "unat (sp_strp_nobjs sp - 1) = sN sp - 1" using D(2) by (subst unat_dec) (auto simp: unat_eq_0 [symmetric])
  have "sK sp * sB sp * (sN sp - 1) \<le> sK sp * sB sp * sN sp" by (intro mult_le_mono2) simp
  then have le: "sK sp * sB sp * (sN sp - 1) < 2 ^ 32" using D(14) by (simp add: algebra_simps)
  then have r: "unat (sp_strp_chunk_nbytes sp * (sp_strp_nobjs sp - 1)) = sK sp * sB sp * (sN sp - 1)"
    using D(6) n1 by (simp add: unat_mult_no_wrap)
  have "(q + len) * sB sp \<le> (sS sp + sM sp) * sB sp" using assms(6) by (intro mult_le_mono1) simp
  from le_less_trans [OF this S(2)] have ql: "(q + len) * sB sp < 2 ^ 62" .
  have "unat (w + ucast ((ucast n16 + 1) * sp_dev_lba_nbytes sp)) = (q + len) * sB sp"
    using assms(2) step_nbytes [OF assms(1,3-5)] ql by (subst unat_add_no_wrap) (simp_all add: unat_ucast_widen add_mult_distrib)
  then have "unat (calc_strp_obj_next_sbuf_nbytes w (ucast n16) sp) = (q + len) * sB sp + sK sp * sB sp * (sN sp - 1)"
    unfolding calc_strp_obj_next_sbuf_nbytes_def using r le ql by (subst unat_add_no_wrap) (simp_all add: unat_ucast_widen)
  then show ?thesis by (simp only: add_mult_distrib mult.assoc) (simp add: mult.commute mult.left_commute)
qed

section \<open>The state of one object of the stripe\<close>

text \<open>
  After \<open>r\<close> completions the callback arguments of object \<open>i\<close> stand for command \<open>i + r * N\<close>: it is on
  the queue if the transfer reaches that far.
\<close>

definition lane_ok :: "fla_strp_params \<Rightarrow> nat \<Rightarrow> nat \<Rightarrow> fla_async_strp_cb_args \<Rightarrow> bool" where
  "lane_ok sp i r ca \<longleftrightarrow> ca_ecount ca = 0 \<and> (ca_queued ca \<longleftrightarrow> strp_off sp (i + r * sN sp) < sM sp)
     \<and> (ca_queued ca \<longrightarrow> unat (ca_slba ca) = strp_lba sp (sS sp + strp_off sp (i + r * sN sp))
          \<and> unat (ca_nlbs ca) = strp_len sp (i + r * sN sp) - 1 \<and> unat (ca_sbuf_nbytes ca) = strp_off sp (i + r * sN sp) * sB sp)"

lemma strp_len_pos: "sp_ok sp \<Longrightarrow> strp_off sp k < sM sp \<Longrightarrow> 0 < strp_len sp k \<and> strp_len sp k \<le> sK sp \<and> strp_off sp k + strp_len sp k \<le> sM sp"
  using mod_less_divisor [OF sp_okD(4), of sp "sS sp"] by (auto simp: strp_len_def min_def)

lemma strp_lba_small:
  assumes "sp_ok sp" "x < sN sp * sF sp"
  shows "strp_lba sp x < 2 ^ 63"
proof -
  have "sBase sp < 2 ^ 62" "strp_rel sp x < 2 ^ 62"
    using sp_okD(16) [OF assms(1)] less_trans [OF strp_rel_less [OF assms] sp_small(4) [OF assms(1)]] by simp_all
  then show ?thesis by (simp add: strp_lba_def)
qed

text \<open>The first command for an object.\<close>

lemma lane_first:
  assumes ok: "sp_ok sp" "strp_fits sp" and i: "i < sN sp" "strp_off sp i < sM sp" and w: "unat w = strp_off sp i * sB sp"
  shows "unat (calc_strp_obj_slba (w + sp_xfer_snbytes sp) sp + sp_strp_obj_start_nbytes sp div ucast (sp_dev_lba_nbytes sp))
      = strp_lba sp (sS sp + strp_off sp i)"
    "unat (calc_strp_obj_first_nlbs (w + sp_xfer_snbytes sp) sp) = strp_len sp i - 1"
    "unat (w + ucast ((ucast (calc_strp_obj_first_nlbs (w + sp_xfer_snbytes sp) sp) + 1) * sp_dev_lba_nbytes sp))
      = min (strp_off sp (Suc i)) (sM sp) * sB sp"
proof -
  note D = sp_okD [OF ok(1)] and S = sp_small [OF ok(1)] and L = strp_len_pos [OF ok(1) i(2)]
  let ?a = "sS sp + strp_off sp i"
  have a: "?a < sN sp * sF sp" using i(2) D(13) by simp
  have "?a * sB sp \<le> (sS sp + sM sp) * sB sp" using i(2) by (intro mult_le_mono1) simp
  from le_less_trans [OF this S(2)] have "unat (w + sp_xfer_snbytes sp) = ?a * sB sp"
    using w D(7) by (subst unat_add_no_wrap) (simp_all add: add_mult_distrib)
  note x = this
  have "unat (sp_strp_obj_start_nbytes sp div ucast (sp_dev_lba_nbytes sp)) = sBase sp" by (rule block_div [OF D(9,1)])
  then show "unat (calc_strp_obj_slba (w + sp_xfer_snbytes sp) sp + sp_strp_obj_start_nbytes sp div ucast (sp_dev_lba_nbytes sp)) = strp_lba sp ?a"
    using strp_slba_nat [OF ok(1) x a] strp_lba_small [OF ok(1) a] by (subst unat_add_no_wrap) (simp_all add: strp_lba_def)
  have "min (sM sp) (sK sp - ?a mod sK sp) = strp_len sp i"
    using strp_start_mod [OF ok(1), of i] ok(2) i by (auto simp: strp_len_def strp_fits_def strp_off_def min_def)
  then show n: "unat (calc_strp_obj_first_nlbs (w + sp_xfer_snbytes sp) sp) = strp_len sp i - 1"
    using first_nlbs_nat [OF ok(1) x] i(2) by simp
  have m: "strp_off sp i + strp_len sp i = min (strp_off sp (Suc i)) (sM sp)"
    using i(2) by (auto simp: strp_off_Suc [OF ok(1)] strp_len_def min_def)
  have "(strp_off sp i + strp_len sp i) * sB sp \<le> (sS sp + sM sp) * sB sp" using L by (intro mult_le_mono1) simp
  from le_less_trans [OF this S(2)] show "unat (w + ucast ((ucast (calc_strp_obj_first_nlbs (w + sp_xfer_snbytes sp) sp) + 1) * sp_dev_lba_nbytes sp))
      = min (strp_off sp (Suc i)) (sM sp) * sB sp"
    unfolding m [symmetric] using w step_nbytes [OF ok(1) n] L by (subst unat_add_no_wrap) (simp_all add: unat_ucast_widen add_mult_distrib)
qed

text \<open>The callback goes on to the command one row later.\<close>

lemma lane_next:
  assumes ok: "sp_ok sp" and ca: "lane_ok sp i r ca" "ca_queued ca"
  shows "lane_ok sp i (Suc r) (fla_async_strp_cb sp False 0 ca)"
proof -
  note D = sp_okD [OF ok]
  define k where "k = i + r * sN sp"
  have k': "i + Suc r * sN sp = k + sN sp" by (simp add: k_def)
  have c: "ca_ecount ca = 0" "strp_off sp k < sM sp" "unat (ca_slba ca) = strp_lba sp (sS sp + strp_off sp k)"
    "unat (ca_nlbs ca) = strp_len sp k - 1" "unat (ca_sbuf_nbytes ca) = strp_off sp k * sB sp"
    using ca by (simp_all add: lane_ok_def k_def)
  note L = strp_len_pos [OF ok c(2)]
  let ?f = "sK sp - (if k = 0 then sS sp mod sK sp else 0)" and ?w = "calc_strp_obj_next_sbuf_nbytes (ca_sbuf_nbytes ca) (ucast (ca_nlbs ca)) sp"
  have w: "unat ?w = (strp_off sp k + strp_len sp k + (sN sp - 1) * sK sp) * sB sp" using L by (intro next_sbuf_nat [OF ok c(5,4)]) simp_all
  have row: "strp_off sp (k + sN sp) = strp_off sp k + ?f + (sN sp - 1) * sK sp" by (rule strp_off_row [OF ok])
  show ?thesis
  proof (cases "strp_off sp (k + sN sp) < sM sp")
    case True
    then have len: "strp_len sp k = ?f" using row by (simp add: strp_len_def)
    have w': "unat ?w = strp_off sp (k + sN sp) * sB sp" unfolding w row len ..
    then have lt: "?w < sp_xfer_nbytes sp" using True D(1,8) by (simp add: word_less_nat_alt)
    have "sS sp + strp_off sp (k + sN sp) = sS sp + strp_off sp k + (sK sp - (sS sp + strp_off sp k) mod sK sp) + (sN sp - 1) * sK sp"
      unfolding row strp_start_mod [OF ok] by simp
    then have lba: "strp_lba sp (sS sp + strp_off sp (k + sN sp)) = strp_lba sp (sS sp + strp_off sp k) + strp_len sp k"
      using strp_lba_row [OF ok, of "sS sp + strp_off sp k"] unfolding strp_start_mod [OF ok] len by (simp only:)
    have "sS sp + strp_off sp (k + sN sp) < sN sp * sF sp" using True D(13) by simp
    then have "strp_lba sp (sS sp + strp_off sp (k + sN sp)) < 2 ^ 63" by (rule strp_lba_small [OF ok])
    moreover have "unat (ucast (ca_nlbs ca) + 1 :: u64) = strp_len sp k"
      using c(4) L D(5) by (simp add: unat_add_no_wrap unat_ucast_widen)
    ultimately have slba: "unat (ca_slba ca + (ucast (ca_nlbs ca) + 1)) = strp_lba sp (sS sp + strp_off sp (k + sN sp))"
      using c(3) lba by (subst unat_add_no_wrap) simp_all
    have "unat (calc_strp_obj_next_nbls ?w sp) = strp_len sp (k + sN sp) - 1"
      using next_nlbs_nat [OF ok w' True] D(2) by (simp add: strp_len_def)
    then show ?thesis
      using lt slba c(1) ca(2) True w' unfolding lane_ok_def k' by (simp add: fla_async_strp_cb_def Let_def)
  next
    case False
    have "sM sp \<le> strp_off sp k + strp_len sp k + (sN sp - 1) * sK sp" using False row by (auto simp: strp_len_def min_def)
    then have "\<not> ?w < sp_xfer_nbytes sp" using w D(8) by (simp add: word_less_nat_alt mult_le_mono1 not_less)
    then show ?thesis using c(1) False unfolding lane_ok_def k' by (simp add: fla_async_strp_cb_def Let_def)
  qed
qed

section \<open>The effect of a command\<close>

text \<open>
  What a transfer moves: block \<open>t\<close> of the buffer to its place on the device, or from there to the
  buffer. \<open>strp_dst\<close> is the block that is written, \<open>strp_src\<close> the one that is read.
\<close>

definition strp_dst ::
  "('d \<Rightarrow> xdev \<Rightarrow> nat \<Rightarrow> u8 list) \<Rightarrow> xdev \<Rightarrow> fla_strp_params \<Rightarrow> u8 list \<Rightarrow> 'd \<Rightarrow> nat \<Rightarrow> u8 list" where
  "strp_dst blk dev sp buf d t = (if sp_write sp then blk d dev (strp_lba sp (sS sp + t)) else buf_block (sB sp) buf t)"

definition strp_src ::
  "('d \<Rightarrow> xdev \<Rightarrow> nat \<Rightarrow> u8 list) \<Rightarrow> xdev \<Rightarrow> fla_strp_params \<Rightarrow> u8 list \<Rightarrow> 'd \<Rightarrow> nat \<Rightarrow> u8 list" where
  "strp_src blk dev sp buf d t = (if sp_write sp then buf_block (sB sp) buf t else blk d dev (strp_lba sp (sS sp + t)))"

text \<open>What a transfer leaves alone: the other blocks of the device, and the side that is read.\<close>

definition strp_rest ::
  "('d \<Rightarrow> xdev \<Rightarrow> nat \<Rightarrow> u8 list) \<Rightarrow> xdev \<Rightarrow> fla_strp_params \<Rightarrow> u8 list \<Rightarrow> 'd \<Rightarrow> u8 list \<Rightarrow> 'd \<Rightarrow> bool" where
  "strp_rest blk dev sp buf d buf' d' \<longleftrightarrow> length buf' = length buf \<and> (if sp_write sp then buf' = buf else d' = d)
     \<and> (\<forall>dv i. \<not> (dv = dev \<and> (\<exists>t < sM sp. i = strp_lba sp (sS sp + t))) \<longrightarrow> blk d' dv i = blk d dv i)"

lemma buf_block_beyond:
  assumes "off = j * sz" "length bytes = n * sz" "buf_put buf off bytes = Some buf'" "j + n \<le> i" "(i + 1) * sz \<le> length buf"
  shows "buf_block sz buf' i = buf_block sz buf i"
proof -
  have "j * sz + n * sz \<le> i * sz" using mult_le_mono1 [OF assms(4), of sz] by (simp add: add_mult_distrib)
  moreover have "buf' = take (j * sz) buf @ bytes @ drop (j * sz + n * sz) buf" "j * sz + n * sz \<le> length buf"
    using assms(1-3) by (auto simp: buf_put_def split: if_splits)
  moreover from calculation(1) have "j * sz \<le> i * sz" by linarith
  ultimately show ?thesis using assms(2) by (simp add: buf_block_def)
qed

lemma command_effect:
  assumes ok: "sp_ok sp" and dev: "storage X blk" "reliable X dev" "lbsz X dev = sB sp" and buf: "sM sp * sB sp \<le> length buf"
    and ca: "unat (ca_slba ca) = strp_lba sp (sS sp + strp_off sp k)" "unat (ca_nlbs ca) = strp_len sp k - 1"
      "unat (ca_sbuf_nbytes ca) = strp_off sp k * sB sp" "strp_off sp k < sM sp"
  shows "\<exists>buf' d'. strp_command X dev sp ca buf d = Some (False, buf', d') \<and> strp_rest blk dev sp buf d buf' d'
    \<and> (\<forall>t < sM sp. strp_dst blk dev sp buf' d' t = (if strp_no sp t = k then strp_src blk dev sp buf d t else strp_dst blk dev sp buf d t))"
proof -
  note D = sp_okD [OF ok] and L = strp_len_pos [OF ok ca(4)]
  let ?o = "strp_off sp k" and ?n = "strp_len sp k" and ?B = "sB sp" and ?s = "strp_lba sp (sS sp + strp_off sp k)"
  have n: "unat (ca_nlbs ca) + 1 = ?n" using ca(2) L by simp
  have no: "strp_no sp t = k \<longleftrightarrow> ?o \<le> t \<and> t < ?o + ?n" if "t < sM sp" for t by (rule strp_no_iff [OF ok that])
  have lba: "strp_lba sp (sS sp + t) = ?s + (t - ?o)" if "?o \<le> t" "t < ?o + ?n" for t
    using strp_len_block(1) [OF ok, of "t - ?o" k] that by simp
  have "(?o + ?n) * ?B \<le> sM sp * ?B" using L by (intro mult_le_mono1) simp
  then have room: "?o * ?B + ?n * ?B \<le> length buf" using buf by (simp add: add_mult_distrib)
  show ?thesis
  proof (cases "sp_write sp")
    case True
    define bytes where "bytes = take (?n * ?B) (drop (?o * ?B) buf)"
    have get: "buf_get buf (unat (ca_sbuf_nbytes ca)) ((unat (ca_nlbs ca) + 1) * lbsz X dev) = Some bytes"
      unfolding n dev(3) using room ca(3) by (simp add: buf_get_def bytes_def)
    obtain e st d' where x: "x_write X dev (ca_ctx ca) (ca_slba ca) (ca_nlbs ca) bytes d = (e, st, d')" by (metis prod_cases3)
    then have es: "e = 0" "\<not> st" using reliable_write [OF dev(2)] by blast+
    have "length bytes = (unat (ca_nlbs ca) + 1) * lbsz X dev" unfolding n dev(3) using room by (simp add: bytes_def)
    then have blk: "blk d' = (\<lambda>dv i. if dv = dev \<and> ?s \<le> i \<and> i \<le> ?s + (?n - 1) then buf_block ?B bytes (i - ?s) else blk d dv i)"
      using storage_write [OF dev(1), of dev "ca_ctx ca" "ca_slba ca" "ca_nlbs ca" bytes d d'] x es unfolding ca(1,2) dev(3) by auto
    have src: "buf_block ?B bytes b = buf_block ?B buf (?o + b)" if "b < ?n" for b
      unfolding bytes_def using that room by (intro buf_block_chunk) simp_all
    have hit: "?s \<le> strp_lba sp (sS sp + t) \<and> strp_lba sp (sS sp + t) \<le> ?s + (?n - 1) \<longleftrightarrow> strp_no sp t = k" if t: "t < sM sp" for t
    proof
      assume a: "?s \<le> strp_lba sp (sS sp + t) \<and> strp_lba sp (sS sp + t) \<le> ?s + (?n - 1)"
      define u where "u = ?o + (strp_lba sp (sS sp + t) - ?s)"
      have u: "?o \<le> u" "u < ?o + ?n" using a L by (auto simp: u_def)
      then have "strp_lba sp (sS sp + u) = strp_lba sp (sS sp + t)" using lba [OF u] a by (simp add: u_def)
      then have "u = t" using strp_lba_inj [OF ok, of "sS sp + u" "sS sp + t"] u L t D(13) by simp
      then show "strp_no sp t = k" using no [OF t] u by simp
    next
      assume "strp_no sp t = k"
      then have "?o \<le> t" "t < ?o + ?n" using no [OF t] by simp_all
      then show "?s \<le> strp_lba sp (sS sp + t) \<and> strp_lba sp (sS sp + t) \<le> ?s + (?n - 1)" using lba [of t] by linarith
    qed
    have "strp_dst blk dev sp buf d' t = (if strp_no sp t = k then strp_src blk dev sp buf d t else strp_dst blk dev sp buf d t)" if t: "t < sM sp" for t
    proof (cases "strp_no sp t = k")
      case hit': True
      then have "?o \<le> t" "t < ?o + ?n" using no [OF t] by simp_all
      then have "buf_block ?B bytes (strp_lba sp (sS sp + t) - ?s) = buf_block ?B buf t" using src [of "t - ?o"] lba [of t] by simp
      then show ?thesis using hit [OF t] hit' True by (simp add: strp_dst_def strp_src_def blk)
    next
      case miss: False
      then have "blk d' dev (strp_lba sp (sS sp + t)) = blk d dev (strp_lba sp (sS sp + t))" unfolding blk using hit [OF t] by auto
      then show ?thesis using miss True by (simp add: strp_dst_def)
    qed
    moreover have "blk d' dv i = blk d dv i" if "\<not> (dv = dev \<and> (\<exists>t < sM sp. i = strp_lba sp (sS sp + t)))" for dv i
    proof -
      have "i = strp_lba sp (sS sp + (?o + (i - ?s)))" "?o + (i - ?s) < sM sp" if "?s \<le> i" "i \<le> ?s + (?n - 1)"
        using lba [of "?o + (i - ?s)"] that L by auto
      then show ?thesis using that by (auto simp: blk)
    qed
    ultimately show ?thesis
      using True get x es by (intro exI [of _ buf] exI [of _ d']) (simp add: strp_command_def strp_rest_def)
  next
    case False
    obtain e st bytes where x: "x_read X dev (ca_slba ca) (ca_nlbs ca) d = (e, st, bytes)" by (metis prod_cases3)
    then have es: "e = 0" "\<not> st" using reliable_read [OF dev(2)] by blast+
    have len: "length bytes = ?n * ?B" using storage_read(1) [OF dev(1) x] unfolding n dev(3) .
    have rb: "b < ?n \<Longrightarrow> buf_block ?B bytes b = blk d dev (?s + b)" for b
      using storage_read(2) [OF dev(1) x es, of b] unfolding dev(3) ca(1,2) by auto
    from room len ca(3) obtain buf' where put: "buf_put buf (unat (ca_sbuf_nbytes ca)) bytes = Some buf'" by (simp add: buf_put_def)
    note P = buf_block_put [OF ca(3) len room put]
    have "buf_block ?B buf' t = (if strp_no sp t = k then blk d dev (strp_lba sp (sS sp + t)) else buf_block ?B buf t)" if t: "t < sM sp" for t
    proof -
      have "(t + 1) * ?B \<le> length buf" using mult_le_mono1 [of "t + 1" "sM sp" ?B] t buf by simp
      then show ?thesis
        using P(2) [of "t - ?o"] P(3) [of t] buf_block_beyond [OF ca(3) len put, of t] no [OF t] lba [of t]
        by (cases "?o \<le> t"; cases "t < ?o + ?n") (auto simp: rb)
    qed
    then show ?thesis
      using False x es put P(1) by (intro exI [of _ buf'] exI [of _ d]) (simp add: strp_command_def strp_rest_def strp_dst_def strp_src_def)
  qed
qed

section \<open>Runs\<close>

text \<open>Events without failures of the queue, and the states that they lead to in \<open>n\<close> steps.\<close>

definition strp_good :: "strp_event \<Rightarrow> bool" where
  "strp_good ev = (case ev of Ev_no_ctx \<Rightarrow> False | Ev_submit err \<Rightarrow> err = 0 | Ev_complete i err \<Rightarrow> err = 0
     | Ev_loop_end \<Rightarrow> True | Ev_close ret err \<Rightarrow> 0 \<le> ret \<and> err = 0)"

inductive strp_steps :: "'d xnvme \<Rightarrow> fla_xne_io \<Rightarrow> fla_strp_params \<Rightarrow> 'd strp_state \<Rightarrow> nat \<Rightarrow> 'd strp_state \<Rightarrow> bool"
  for X io sp s0 where
  steps_refl: "strp_steps X io sp s0 0 s0"
| steps_step: "strp_steps X io sp s0 n s \<Longrightarrow> strp_good ev \<Longrightarrow> strp_enabled sp ev s \<Longrightarrow> strp_event X io sp ev s = Some s' \<Longrightarrow>
    strp_steps X io sp s0 (Suc n) s'"

text \<open>\<open>R i\<close> is the number of completions for object \<open>i\<close>; block \<open>t\<close> is moved when its command has completed.\<close>

definition strp_moved :: "fla_strp_params \<Rightarrow> (nat \<Rightarrow> nat) \<Rightarrow> nat \<Rightarrow> nat \<Rightarrow> bool" where
  "strp_moved sp R L t \<longleftrightarrow> strp_no sp t mod sN sp < L \<and> strp_no sp t div sN sp < R (strp_no sp t mod sN sp)"

definition strp_inv ::
  "('d \<Rightarrow> xdev \<Rightarrow> nat \<Rightarrow> u8 list) \<Rightarrow> xdev \<Rightarrow> fla_strp_params \<Rightarrow> u8 list \<Rightarrow> 'd \<Rightarrow> (nat \<Rightarrow> nat) \<Rightarrow> 'd strp_state \<Rightarrow> bool" where
  "strp_inv blk dev sp buf d R s \<longleftrightarrow> (let L = length (ss_cb_args s) in
     L \<le> sN sp \<and> (\<forall>i<L. lane_ok sp i (R i) (ss_cb_args s ! i)) \<and> unat (ss_sbuf_nbytes s) = min (strp_off sp L) (sM sp) * sB sp
     \<and> (ss_phase s \<noteq> Strp_submit \<longrightarrow> L = sN sp \<or> sM sp \<le> strp_off sp L)
     \<and> (\<forall>err. ss_phase s = Strp_done err \<longrightarrow> err = 0 \<and> (\<forall>ca\<in>set (ss_cb_args s). \<not> ca_queued ca))
     \<and> strp_rest blk dev sp buf d (ss_buf s) (ss_dev s)
     \<and> (\<forall>t. t < sM sp \<longrightarrow> strp_dst blk dev sp (ss_buf s) (ss_dev s) t
          = (if strp_moved sp R L t then strp_src blk dev sp buf d t else strp_dst blk dev sp buf d t)))"

text \<open>The work that is left: blocks to move, commands to submit, and the ends of the two phases.\<close>

definition strp_left :: "fla_strp_params \<Rightarrow> (nat \<Rightarrow> nat) \<Rightarrow> 'd strp_state \<Rightarrow> nat" where
  "strp_left sp R s = card {t. t < sM sp \<and> \<not> strp_moved sp R (length (ss_cb_args s)) t} + (sN sp - length (ss_cb_args s))
     + (case ss_phase s of Strp_submit \<Rightarrow> 2 | Strp_drain \<Rightarrow> 1 | Strp_done err \<Rightarrow> 0)"

lemma strp_rest_src: "strp_rest blk dev sp buf d buf' d' \<Longrightarrow> strp_src blk dev sp buf' d' t = strp_src blk dev sp buf d t"
  by (auto simp: strp_rest_def strp_src_def split: if_splits)

lemma strp_rest_trans: "strp_rest blk dev sp buf d buf1 d1 \<Longrightarrow> strp_rest blk dev sp buf1 d1 buf2 d2 \<Longrightarrow> strp_rest blk dev sp buf d buf2 d2"
  unfolding strp_rest_def by (metis (no_types, lifting))

lemma less_iff_words:
  "sp_ok sp \<Longrightarrow> unat w = a * sB sp \<Longrightarrow> w < sp_xfer_nbytes sp \<longleftrightarrow> a < sM sp"
  using sp_okD(1,8) by (simp add: word_less_nat_alt)

lemma submit_step:
  assumes ok: "sp_ok sp" "strp_fits sp" and io: "xi_prep_ctx io = None \<or> xi_prep_ctx io = Some Prep_noop"
    and inv: "strp_inv blk dev sp buf d R s" and en: "strp_enabled sp (Ev_submit 0) s"
  shows "\<exists>s'. strp_event X io sp (Ev_submit 0) s = Some s' \<and> strp_inv blk dev sp buf d (R(length (ss_cb_args s) := 0)) s'
    \<and> strp_left sp (R(length (ss_cb_args s) := 0)) s' < strp_left sp R s"
proof -
  note D = sp_okD [OF ok(1)]
  let ?L = "length (ss_cb_args s)" and ?w = "ss_sbuf_nbytes s"
  have L: "?L < sN sp" "ss_phase s = Strp_submit" "?w < sp_xfer_nbytes sp" using en by (simp_all add: strp_enabled_def)
  have w: "unat ?w = min (strp_off sp ?L) (sM sp) * sB sp" using inv by (simp add: strp_inv_def Let_def)
  then have off: "strp_off sp ?L < sM sp" using less_iff_words [OF ok(1) w] L(3) by simp
  then have w': "unat ?w = strp_off sp ?L * sB sp" using w by simp
  note F = lane_first [OF ok L(1) off w']
  define n where "n = calc_strp_obj_first_nlbs (?w + sp_xfer_snbytes sp) sp"
  define ca where "ca = \<lparr>ca_slba = calc_strp_obj_slba (?w + sp_xfer_snbytes sp) sp + sp_strp_obj_start_nbytes sp div ucast (sp_dev_lba_nbytes sp),
    ca_nlbs = n, ca_sbuf_nbytes = ?w, ca_ecount = 0, ca_completed = 0, ca_submitted = 1, ca_ctx = x_ctx_from_dev X (xi_dev io), ca_queued = True\<rparr>"
  have lane: "lane_ok sp ?L 0 ca" using F(1,2) w' off by (simp add: lane_ok_def ca_def n_def)
  let ?s = "s\<lparr>ss_cb_args := ss_cb_args s @ [ca], ss_sbuf_nbytes := ?w + ucast ((ucast n + 1) * sp_dev_lba_nbytes sp)\<rparr>"
  have "sp_strp_chunk_nbytes sp \<noteq> 0" "sp_strp_obj_tnbytes sp \<noteq> 0" "?L < 512"
    using D(1-4,6,10,12) L(1) by (auto simp: unat_eq_0 [symmetric])
  then have ev: "strp_event X io sp (Ev_submit 0) s = Some ?s"
    using io by (auto simp: strp_event_def strp_submit_def Let_def run_prep_ctx_def ca_def n_def)
  let ?R = "R(?L := 0)"
  have mv: "strp_moved sp ?R (Suc ?L) t = strp_moved sp R ?L t" for t by (auto simp: strp_moved_def less_Suc_eq)
  have lanes: "lane_ok sp i (?R i) ((ss_cb_args s @ [ca]) ! i)" if "i < Suc ?L" for i
    using inv lane that by (auto simp: strp_inv_def Let_def nth_append less_Suc_eq)
  have "strp_inv blk dev sp buf d ?R ?s"
    using inv L lanes F(3) mv unfolding strp_inv_def Let_def by (simp add: n_def)
  moreover have "strp_left sp ?R ?s < strp_left sp R s" using L(1) by (simp add: strp_left_def mv)
  ultimately show ?thesis using ev by blast
qed

lemma complete_step:
  assumes ok: "sp_ok sp" and dev: "storage X blk" "reliable X (xi_dev io)" "lbsz X (xi_dev io) = sB sp" and buf: "sM sp * sB sp \<le> length buf"
    and inv: "strp_inv blk (xi_dev io) sp buf d R s" and en: "strp_enabled sp (Ev_complete i 0) s"
  shows "\<exists>s'. strp_event X io sp (Ev_complete i 0) s = Some s' \<and> strp_inv blk (xi_dev io) sp buf d (R(i := Suc (R i))) s'
    \<and> strp_left sp (R(i := Suc (R i))) s' < strp_left sp R s"
proof -
  let ?L = "length (ss_cb_args s)" and ?N = "sN sp" and ?dev = "xi_dev io" and ?R = "R(i := Suc (R i))"
  have i: "i < ?L" "ca_queued (ss_cb_args s ! i)" "ss_phase s \<in> {Strp_submit, Strp_drain}" using en by (simp_all add: strp_enabled_def)
  have I: "?L \<le> ?N" "lane_ok sp i (R i) (ss_cb_args s ! i)" "strp_rest blk ?dev sp buf d (ss_buf s) (ss_dev s)" using inv i(1) by (simp_all add: strp_inv_def Let_def)
  define k where "k = i + R i * ?N"
  have k: "k mod ?N = i" "k div ?N = R i" using i(1) I(1) by (simp_all add: k_def)
  have c: "unat (ca_slba (ss_cb_args s ! i)) = strp_lba sp (sS sp + strp_off sp k)" "unat (ca_nlbs (ss_cb_args s ! i)) = strp_len sp k - 1"
    "unat (ca_sbuf_nbytes (ss_cb_args s ! i)) = strp_off sp k * sB sp" "strp_off sp k < sM sp" using I(2) i(2) by (simp_all add: lane_ok_def k_def)
  have "sM sp * sB sp \<le> length (ss_buf s)" using buf I(3) by (simp add: strp_rest_def)
  from command_effect [OF ok dev this c, of "ss_dev s"] obtain buf' d' where
    x: "strp_command X ?dev sp (ss_cb_args s ! i) (ss_buf s) (ss_dev s) = Some (False, buf', d')" "strp_rest blk ?dev sp (ss_buf s) (ss_dev s) buf' d'"
      "\<forall>t < sM sp. strp_dst blk ?dev sp buf' d' t
        = (if strp_no sp t = k then strp_src blk ?dev sp (ss_buf s) (ss_dev s) t else strp_dst blk ?dev sp (ss_buf s) (ss_dev s) t)" by blast
  let ?s = "s\<lparr>ss_cb_args := (ss_cb_args s)[i := fla_async_strp_cb sp False 0 (ss_cb_args s ! i)], ss_buf := buf', ss_dev := d'\<rparr>"
  have ev: "strp_event X io sp (Ev_complete i 0) s = Some ?s" using i(1) x(1) by (simp add: strp_event_def)
  have mv: "strp_moved sp ?R ?L t \<longleftrightarrow> strp_no sp t = k \<or> strp_moved sp R ?L t" for t
  proof (cases "strp_no sp t mod ?N = i")
    case True
    then have "strp_no sp t = k \<longleftrightarrow> strp_no sp t div ?N = R i" using k by (metis div_mult_mod_eq)
    then show ?thesis using True i(1) by (auto simp: strp_moved_def)
  qed (use k in \<open>auto simp: strp_moved_def\<close>)
  have lanes: "lane_ok sp j (?R j) (ss_cb_args ?s ! j)" if "j < ?L" for j
    using lane_next [OF ok I(2) i(2)] inv that by (auto simp: strp_inv_def Let_def nth_list_update)
  have "strp_dst blk ?dev sp buf' d' t = (if strp_moved sp ?R ?L t then strp_src blk ?dev sp buf d t else strp_dst blk ?dev sp buf d t)" if "t < sM sp" for t
    using x(3) that inv unfolding mv by (simp add: strp_inv_def Let_def strp_rest_src [OF I(3)])
  then have "strp_inv blk ?dev sp buf d ?R ?s"
    using inv i(3) lanes strp_rest_trans [OF I(3) x(2)] unfolding strp_inv_def Let_def by auto
  moreover have "strp_left sp ?R ?s < strp_left sp R s"
  proof -
    have t: "strp_no sp (strp_off sp k) = k" using strp_no_iff [OF ok c(4)] strp_len_pos [OF ok c(4)] by simp
    then have "\<not> strp_moved sp R ?L (strp_off sp k)" using k by (simp add: strp_moved_def)
    then have "{t. t < sM sp \<and> \<not> strp_moved sp ?R ?L t} \<subset> {t. t < sM sp \<and> \<not> strp_moved sp R ?L t}" using c(4) t by (auto simp: mv)
    then have "card {t. t < sM sp \<and> \<not> strp_moved sp ?R ?L t} < card {t. t < sM sp \<and> \<not> strp_moved sp R ?L t}" by (intro psubset_card_mono) auto
    then show ?thesis by (simp add: strp_left_def)
  qed
  ultimately show ?thesis using ev by blast
qed

lemma good_step:
  assumes ok: "sp_ok sp" "strp_fits sp" and io: "xi_prep_ctx io = None \<or> xi_prep_ctx io = Some Prep_noop"
    and dev: "storage X blk" "reliable X (xi_dev io)" "lbsz X (xi_dev io) = sB sp" and buf: "sM sp * sB sp \<le> length buf"
    and inv: "strp_inv blk (xi_dev io) sp buf d R s" and ev: "strp_good ev" "strp_enabled sp ev s"
  shows "\<exists>s' R'. strp_event X io sp ev s = Some s' \<and> strp_inv blk (xi_dev io) sp buf d R' s' \<and> strp_left sp R' s' < strp_left sp R s"
proof (cases ev)
  case (Ev_submit err)
  then show ?thesis using submit_step [OF ok io inv, of X] ev by (auto simp: strp_good_def)
next
  case (Ev_complete i err)
  then show ?thesis using complete_step [OF ok(1) dev buf inv, of i] ev by (auto simp: strp_good_def)
next
  case Ev_loop_end
  have w: "unat (ss_sbuf_nbytes s) = min (strp_off sp (length (ss_cb_args s))) (sM sp) * sB sp" "length (ss_cb_args s) \<le> sN sp"
    using inv by (simp_all add: strp_inv_def Let_def)
  have "length (ss_cb_args s) = sN sp \<or> sM sp \<le> strp_off sp (length (ss_cb_args s))"
    using ev(2) w less_iff_words [OF ok(1) w(1)] Ev_loop_end by (auto simp: strp_enabled_def)
  then have "strp_inv blk (xi_dev io) sp buf d R (s\<lparr>ss_phase := Strp_drain\<rparr>)" using inv by (simp add: strp_inv_def Let_def)
  then show ?thesis using Ev_loop_end ev(2) by (auto simp: strp_event_def strp_left_def strp_enabled_def intro!: exI [of _ R])
next
  case (Ev_close ret err)
  then have e: "0 \<le> ret" "err = 0" "ss_phase s = Strp_drain" "\<forall>ca\<in>set (ss_cb_args s). \<not> ca_queued ca"
    using ev by (simp_all add: strp_good_def strp_enabled_def)
  have "ca_ecount ca = 0" if "ss_cb_args s = ca # cas" for ca cas
    using inv that by (auto simp: strp_inv_def Let_def lane_ok_def)
  then have s': "strp_event X io sp ev s = Some (s\<lparr>ss_phase := Strp_done 0\<rparr>)"
    using e by (auto simp: strp_event_def Ev_close)
  moreover have "strp_inv blk (xi_dev io) sp buf d R (s\<lparr>ss_phase := Strp_done 0\<rparr>)" using inv e(3,4) by (simp add: strp_inv_def Let_def)
  ultimately show ?thesis using e(3) by (auto simp: strp_left_def intro!: exI [of _ R])
qed (use ev in \<open>simp add: strp_good_def\<close>)

text \<open>When nothing is left on the queue and the loop has ended, every block has been moved.\<close>

lemma all_moved:
  assumes ok: "sp_ok sp" and inv: "strp_inv blk dev sp buf d R s" "ss_phase s \<noteq> Strp_submit" "\<forall>ca\<in>set (ss_cb_args s). \<not> ca_queued ca"
    and t: "t < sM sp"
  shows "strp_moved sp R (length (ss_cb_args s)) t"
proof -
  note D = sp_okD [OF ok]
  let ?k = "strp_no sp t" and ?L = "length (ss_cb_args s)"
  let ?i = "?k mod sN sp" and ?r = "?k div sN sp"
  have k: "strp_off sp ?k \<le> t" "?k = ?i + ?r * sN sp" using strp_no_iff [OF ok t, of ?k] by simp_all
  have ik: "strp_off sp ?i \<le> strp_off sp ?k" by (intro strp_off_mono [OF ok]) simp
  have "?L = sN sp \<or> sM sp \<le> strp_off sp ?L" using inv(1,2) by (auto simp: strp_inv_def Let_def)
  then have i: "?i < ?L"
  proof
    assume "sM sp \<le> strp_off sp ?L"
    then show ?thesis using strp_off_mono [OF ok, of ?L ?i] ik k(1) t by (cases "?i < ?L") simp_all
  qed (use D(2) in simp)
  have "lane_ok sp ?i (R ?i) (ss_cb_args s ! ?i)" using inv(1) i by (simp add: strp_inv_def Let_def)
  then have off: "sM sp \<le> strp_off sp (?i + R ?i * sN sp)" using inv(3) i by (auto simp: lane_ok_def)
  have "\<not> R ?i \<le> ?r"
  proof
    assume "R ?i \<le> ?r"
    then have "?i + R ?i * sN sp \<le> ?i + ?r * sN sp" by (intro add_left_mono mult_le_mono1)
    then have "strp_off sp (?i + R ?i * sN sp) \<le> strp_off sp ?k" unfolding k(2) [symmetric] by (rule strp_off_mono [OF ok])
    then show False using off k(1) t by simp
  qed
  then show ?thesis using i by (simp add: strp_moved_def)
qed

lemma steps_inv:
  assumes ok: "sp_ok sp" "strp_fits sp" and io: "xi_prep_ctx io = None \<or> xi_prep_ctx io = Some Prep_noop"
    and dev: "storage X blk" "reliable X (xi_dev io)" "lbsz X (xi_dev io) = sB sp" and buf: "sM sp * sB sp \<le> length buf"
    and st: "strp_steps X io sp s0 n s" and inv0: "strp_inv blk (xi_dev io) sp buf d R0 s0"
  shows "\<exists>R. strp_inv blk (xi_dev io) sp buf d R s \<and> n + strp_left sp R s \<le> strp_left sp R0 s0"
  using st
proof induction
  case (steps_step n s ev s')
  then obtain R where R: "strp_inv blk (xi_dev io) sp buf d R s" "n + strp_left sp R s \<le> strp_left sp R0 s0" by blast
  from good_step [OF ok io dev buf R(1) steps_step(2,3)] steps_step(4) obtain R' where
    "strp_inv blk (xi_dev io) sp buf d R' s'" "strp_left sp R' s' < strp_left sp R s" by auto
  then show ?case using R(2) by (intro exI [of _ R']) simp
qed (use inv0 in auto)

lemma some_event:
  assumes "ss_phase s = Strp_submit \<or> ss_phase s = Strp_drain"
  shows "\<exists>ev. strp_good ev \<and> strp_enabled sp ev s"
proof (cases "ss_phase s = Strp_submit")
  case True
  then show ?thesis
    by (cases "length (ss_cb_args s) < sN sp \<and> ss_sbuf_nbytes s < sp_xfer_nbytes sp")
      (force intro: exI [of _ "Ev_submit 0"] simp: strp_good_def strp_enabled_def, force intro: exI [of _ Ev_loop_end] simp: strp_good_def strp_enabled_def)
next
  case False
  then have d: "ss_phase s = Strp_drain" using assms by simp
  show ?thesis
  proof (cases "\<forall>ca\<in>set (ss_cb_args s). \<not> ca_queued ca")
    case True
    then show ?thesis using d by (intro exI [of _ "Ev_close 0 0"]) (simp add: strp_good_def strp_enabled_def)
  next
    case False
    then obtain i where "i < length (ss_cb_args s)" "ca_queued (ss_cb_args s ! i)" by (auto simp: in_set_conv_nth)
    then show ?thesis using d by (intro exI [of _ "Ev_complete i 0"]) (simp add: strp_good_def strp_enabled_def)
  qed
qed

text \<open>Bounded runs that do not get stuck return.\<close>

lemma strp_returns:
  assumes "\<And>n s. strp_steps X io sp s0 n s \<Longrightarrow> n \<le> b"
    "\<And>n s ev. strp_steps X io sp s0 n s \<Longrightarrow> strp_good ev \<Longrightarrow> strp_enabled sp ev s \<Longrightarrow> strp_event X io sp ev s \<noteq> None"
    "\<And>n s. strp_steps X io sp s0 n s \<Longrightarrow> (\<exists>err. ss_phase s = Strp_done err) \<or> (\<exists>ev. strp_good ev \<and> strp_enabled sp ev s)"
  shows "\<exists>n s err. strp_steps X io sp s0 n s \<and> ss_phase s = Strp_done err"
proof -
  let ?A = "{n. \<exists>s. strp_steps X io sp s0 n s}"
  have fin: "finite ?A" using assms(1) by (intro finite_subset [of ?A "{..b}"]) auto
  have "?A \<noteq> {}" using steps_refl by blast
  from Max_in [OF fin this] obtain s where s: "strp_steps X io sp s0 (Max ?A) s" by blast
  show ?thesis
  proof (rule ccontr)
    assume "\<not> ?thesis"
    then obtain ev where ev: "strp_good ev" "strp_enabled sp ev s" using assms(3) [OF s] s by blast
    then obtain s' where "strp_event X io sp ev s = Some s'" using assms(2) [OF s] by blast
    then have "strp_steps X io sp s0 (Suc (Max ?A)) s'" using steps_step [OF s ev] by blast
    then show False using Max_ge [OF fin, of "Suc (Max ?A)"] by auto
  qed
qed

section \<open>Properties\<close>

text \<open>
  C36: A striped transfer moves every block once, whatever the order in which the queue completes the
  commands. On a device without errors and a queue that accepts the commands, no step is undefined, a
  step is always possible until the function returns, it returns within a bounded number of steps,
  the result is 0, block \<open>t\<close> of the buffer and its block of the striped object agree, and no other
  block of the device changes. This is for a transfer whose first commands stay in the buffer
  (\<open>strp_fits\<close>); the code does not ensure that.
\<close>

theorem fla_xne_async_strp_moves:
  assumes "sp_ok sp" "strp_fits sp" "xi_prep_ctx io = None \<or> xi_prep_ctx io = Some Prep_noop"
    "storage X blk" "reliable X (xi_dev io)" "lbsz X (xi_dev io) = sB sp" "sM sp * sB sp \<le> length (xi_buf io)"
  shows "\<exists>s0. fla_xne_async_strp_seq_xneio io sp 0 dp d = Some s0
    \<and> (\<exists>n s. strp_steps X io sp s0 n s \<and> ss_phase s = Strp_done 0)
    \<and> (\<forall>n s. strp_steps X io sp s0 n s \<longrightarrow> n \<le> sM sp + sN sp + 2
        \<and> (\<forall>ev. strp_good ev \<and> strp_enabled sp ev s \<longrightarrow> strp_event X io sp ev s \<noteq> None)
        \<and> ((\<exists>err. ss_phase s = Strp_done err) \<or> (\<exists>ev. strp_good ev \<and> strp_enabled sp ev s))
        \<and> (\<forall>err. ss_phase s = Strp_done err \<longrightarrow> err = 0 \<and> strp_rest blk (xi_dev io) sp (xi_buf io) d (ss_buf s) (ss_dev s)
            \<and> (\<forall>t. t < sM sp \<longrightarrow> strp_dst blk (xi_dev io) sp (ss_buf s) (ss_dev s) t = strp_src blk (xi_dev io) sp (xi_buf io) d t)))"
proof -
  note D = sp_okD [OF assms(1)]
  define s0 where "s0 = \<lparr>ss_cb_args = [], ss_sbuf_nbytes = 0, ss_buf = xi_buf io, ss_dp = dp, ss_dev = d, ss_phase = Strp_submit\<rparr>"
  have al: "unat (sp_xfer_nbytes sp mod ucast (sp_dev_lba_nbytes sp)) = 0" "unat (sp_xfer_snbytes sp mod ucast (sp_dev_lba_nbytes sp)) = 0"
    using D(7,8) by (simp_all add: unat_mod unat_ucast_widen)
  have "sp_dev_lba_nbytes sp \<noteq> 0" using D(1) by auto
  then have init: "fla_xne_async_strp_seq_xneio io sp 0 dp d = Some s0"
    using al by (simp add: fla_xne_async_strp_seq_xneio_def s0_def unat_eq_0)
  have inv0: "strp_inv blk (xi_dev io) sp (xi_buf io) d (\<lambda>_. 0) s0"
    by (simp add: strp_inv_def s0_def strp_off_def strp_rest_def strp_moved_def)
  have "card {t. t < sM sp \<and> \<not> strp_moved sp (\<lambda>_. 0) 0 t} \<le> card {t. t < sM sp}" by (intro card_mono) auto
  then have left: "strp_left sp (\<lambda>_. 0) s0 \<le> sM sp + sN sp + 2" by (simp add: strp_left_def s0_def)
  have all: "n \<le> sM sp + sN sp + 2 \<and> (\<forall>ev. strp_good ev \<and> strp_enabled sp ev s \<longrightarrow> strp_event X io sp ev s \<noteq> None)
      \<and> ((\<exists>err. ss_phase s = Strp_done err) \<or> (\<exists>ev. strp_good ev \<and> strp_enabled sp ev s))
      \<and> (\<forall>err. ss_phase s = Strp_done err \<longrightarrow> err = 0 \<and> strp_rest blk (xi_dev io) sp (xi_buf io) d (ss_buf s) (ss_dev s)
          \<and> (\<forall>t. t < sM sp \<longrightarrow> strp_dst blk (xi_dev io) sp (ss_buf s) (ss_dev s) t = strp_src blk (xi_dev io) sp (xi_buf io) d t))"
    if steps: "strp_steps X io sp s0 n s" for n s
  proof (intro conjI allI impI)
    from steps_inv [OF assms steps inv0] obtain R where
      R: "strp_inv blk (xi_dev io) sp (xi_buf io) d R s" "n + strp_left sp R s \<le> strp_left sp (\<lambda>_. 0) s0" by blast
    show "n \<le> sM sp + sN sp + 2" using R(2) left by simp
    show "strp_event X io sp ev s \<noteq> None" if "strp_good ev \<and> strp_enabled sp ev s" for ev
      using good_step [OF assms R(1), of ev] that by auto
    show "(\<exists>err. ss_phase s = Strp_done err) \<or> (\<exists>ev. strp_good ev \<and> strp_enabled sp ev s)"
      using some_event [of s sp] by (cases "ss_phase s") auto
    show "err = 0" "strp_rest blk (xi_dev io) sp (xi_buf io) d (ss_buf s) (ss_dev s)" if "ss_phase s = Strp_done err" for err
      using R(1) that by (simp_all add: strp_inv_def Let_def)
    show "strp_dst blk (xi_dev io) sp (ss_buf s) (ss_dev s) t = strp_src blk (xi_dev io) sp (xi_buf io) d t"
      if "ss_phase s = Strp_done err" "t < sM sp" for err t
      using all_moved [OF assms(1) R(1) _ _ that(2)] R(1) that by (simp add: strp_inv_def Let_def)
  qed
  from strp_returns [of X io sp s0 "sM sp + sN sp + 2"] all have "\<exists>n s. strp_steps X io sp s0 n s \<and> ss_phase s = Strp_done 0" by blast
  then show ?thesis using init all by blast
qed

text \<open>Two objects of four blocks in chunks of two; blocks 1 to 4 of the striped object are written.\<close>

definition strp_example :: fla_strp_params where
  "strp_example = \<lparr>sp_strp_nobjs = 2, sp_strp_chunk_nbytes = 1024, sp_faobj_nlbs = 4, sp_xfer_snbytes = 512, sp_xfer_nbytes = 2048,
     sp_strp_obj_tnbytes = 4096, sp_strp_obj_start_nbytes = 5120, sp_dev_lba_nbytes = 512, sp_write = True\<rparr>"

definition strp_io_example :: "u8 list \<Rightarrow> fla_xne_io" where
  "strp_io_example buf = \<lparr>xi_io_type = FLA_IO_DATA_WRITE, xi_dev = Data_dev, xi_buf = buf,
     xi_lba_range = \<lparr>lr_slba = 0, lr_elba = 0, lr_naddrs = 0, lr_is_valid = False\<rparr>, xi_pool_handle = None, xi_obj_handle = None, xi_prep_ctx = Some Prep_noop\<rparr>"

lemma strp_example_ok: "sp_ok strp_example" "strp_fits strp_example" "sM strp_example = 4" "sB strp_example = 512"
proof -
  have v: "sB strp_example = 512" "sN strp_example = 2" "sF strp_example = 4" "sK strp_example = 2" "sS strp_example = 1" "sM strp_example = 4" "sBase strp_example = 10"
    by (simp_all add: strp_example_def sK_def sS_def sM_def sBase_def)
  then show "sp_ok strp_example" by (simp add: sp_ok_def) (simp add: strp_example_def)
  have "k = 1" if "0 < k" "k < (2 :: nat)" for k using that by simp
  then show "strp_fits strp_example" by (auto simp: strp_fits_def strp_off_def v)
qed (simp_all add: strp_example_def sM_def)

theorem fla_xne_async_strp_moves_witness:
  "\<exists>s0 n s. fla_xne_async_strp_seq_xneio (strp_io_example (replicate 2048 7)) strp_example 0 (fs_dp fs_zero) (\<lambda>_ _. []) = Some s0
    \<and> strp_steps mem_xnvme (strp_io_example (replicate 2048 7)) strp_example s0 n s \<and> ss_phase s = Strp_done 0
    \<and> strp_dst mem_blk Data_dev strp_example (ss_buf s) (ss_dev s) 3 = strp_src mem_blk Data_dev strp_example (replicate 2048 7) (\<lambda>_ _. []) 3"
proof -
  let ?io = "strp_io_example (replicate 2048 7)"
  have io: "xi_prep_ctx ?io = None \<or> xi_prep_ctx ?io = Some Prep_noop" "xi_dev ?io = Data_dev" "xi_buf ?io = replicate 2048 7"
    by (simp_all add: strp_io_example_def)
  have "lbsz mem_xnvme (xi_dev ?io) = sB strp_example" using strp_example_ok(4) by (simp add: mem_xnvme_def mem_geo_def)
  moreover have "sM strp_example * sB strp_example \<le> length (xi_buf ?io)" using strp_example_ok(3,4) io(3) by simp
  ultimately show ?thesis
    using fla_xne_async_strp_moves [OF strp_example_ok(1,2) io(1) mem_storage mem_reliable, of "fs_dp fs_zero" "\<lambda>_ _. []"] strp_example_ok(3)
    unfolding io(2,3) by force
qed

text \<open>
  Three blocks from the start of an object with chunks of two: the second command is for two blocks,
  and reaches past the end of the buffer.
\<close>

lemma strp_overrun:
  "Option.bind (fla_xne_async_strp_seq_xneio (strp_io_example (replicate 1536 7)) (strp_example\<lparr>sp_xfer_snbytes := 0, sp_xfer_nbytes := 1536\<rparr>) 0 (fs_dp fs_zero) d)
     (strp_run mem_xnvme (strp_io_example (replicate 1536 7)) (strp_example\<lparr>sp_xfer_snbytes := 0, sp_xfer_nbytes := 1536\<rparr>)
       [Ev_submit 0, Ev_submit 0, Ev_complete 1 0]) = None"
  by (simp add: fla_xne_async_strp_seq_xneio_def strp_event_def strp_submit_def strp_command_def strp_example_def strp_io_example_def
      run_prep_ctx_def calc_strp_obj_first_nlbs_def fla_min_def buf_get_def mem_xnvme_def mem_geo_def Let_def)

text \<open>A command that the queue refuses with an error: nothing is transferred, and the result is 0.\<close>

lemma strp_error_lost:
  "map_option ss_phase (Option.bind (fla_xne_async_strp_seq_xneio (strp_io_example buf) strp_example 0 (fs_dp fs_zero) d)
     (strp_run mem_xnvme (strp_io_example buf) strp_example [Ev_submit (- EIO), Ev_close 0 0])) = Some (Strp_done 0)"
  by (simp add: fla_xne_async_strp_seq_xneio_def strp_event_def strp_submit_def strp_example_def strp_io_example_def run_prep_ctx_def Let_def)

end
