(* ===== verification/Fla_Wire.thy ===== *)
theory Fla_Wire
  imports Fla_Layout
begin

text \<open>
  The messages between the daemon and its clients and the transfer of a message over a socket,
  \<open>src/src/flexalloc_daemon_base.c\<close>: \<open>fla_sock_send_bytes\<close>, \<open>fla_sock_send_msg\<close> and
  \<open>fla_sock_recv_msg\<close>.

  A message buffer is a list of 2056 bytes, the header (length of the data, command, tag) and the
  data; \<open>msg->hdr\<close> and \<open>msg->data\<close> point into it. A socket is the bytes on the way to it, the bytes
  it has sent, \<open>errno\<close> as the calls on it leave it, and the list of what happens in the next calls:
  a call moves some of the bytes it is asked for, is interrupted by a signal, fails, or moves
  nothing and returns 0. A call for which nothing happens any more does not return.
\<close>

section \<open>Messages\<close>

definition FLA_MSG_DATA_MAX :: nat where
  "FLA_MSG_DATA_MAX = 2048"

definition FLA_MSG_BUFSIZ :: nat where
  "FLA_MSG_BUFSIZ = 8 + FLA_MSG_DATA_MAX"

definition FLA_MSG_CMD_NULL :: u16 where
  "FLA_MSG_CMD_NULL = 0xFFFF"

definition hdr_len :: "u8 list \<Rightarrow> u32" where
  "hdr_len b = u32_at b 0"

definition hdr_cmd :: "u8 list \<Rightarrow> u16" where
  "hdr_cmd b = u16_at b 4"

definition hdr_tag :: "u8 list \<Rightarrow> u16" where
  "hdr_tag b = u16_at b 6"

text \<open>\<open>put\<close> stores bytes over a buffer; \<open>put_chk\<close> has no result when they do not lie in it.\<close>

definition put :: "nat \<Rightarrow> u8 list \<Rightarrow> u8 list \<Rightarrow> u8 list" where
  "put off xs b = take off b @ xs @ drop (off + length xs) b"

definition put_chk :: "nat \<Rightarrow> u8 list \<Rightarrow> u8 list \<Rightarrow> u8 list option" where
  "put_chk off xs b = (if off + length xs \<le> length b then Some (put off xs b) else None)"

definition set_len :: "u32 \<Rightarrow> u8 list \<Rightarrow> u8 list" where
  "set_len w b = put 0 (le_bytes w) b"

definition set_cmd :: "u16 \<Rightarrow> u8 list \<Rightarrow> u8 list" where
  "set_cmd w b = put 4 (le16 w) b"

definition set_tag :: "u16 \<Rightarrow> u8 list \<Rightarrow> u8 list" where
  "set_tag w b = put 6 (le16 w) b"

section \<open>Sockets\<close>

abbreviation EINTR :: int where "EINTR \<equiv> 4"

text \<open>\<open>Sk_move k\<close> moves \<open>k + 1\<close> bytes, or as many as there are.\<close>

datatype sock_event = Sk_move nat | Sk_intr | Sk_fail int | Sk_zero

record sock =
  sk_in :: "u8 list"
  sk_out :: "u8 list"
  sk_errno :: int
  sk_evs :: "sock_event list"

definition sock_send :: "sock_event \<Rightarrow> u8 list \<Rightarrow> sock \<Rightarrow> int \<times> sock" where
  "sock_send ev bs s = (case ev of
       Sk_move k \<Rightarrow> let n = min (k + 1) (length bs) in (int n, s\<lparr>sk_out := sk_out s @ take n bs\<rparr>)
     | Sk_intr \<Rightarrow> (-1, s\<lparr>sk_errno := EINTR\<rparr>)
     | Sk_fail e \<Rightarrow> (-1, s\<lparr>sk_errno := e\<rparr>)
     | Sk_zero \<Rightarrow> (0, s))"

text \<open>\<open>recv\<close> and \<open>read\<close>; with \<open>peek\<close> the bytes stay.\<close>

definition sock_recv :: "sock_event \<Rightarrow> bool \<Rightarrow> nat \<Rightarrow> sock \<Rightarrow> (int \<times> u8 list \<times> sock) option" where
  "sock_recv ev peek n s = (case ev of
       Sk_move k \<Rightarrow>
         if sk_in s = [] then None
         else let m = min (k + 1) (min n (length (sk_in s)))
              in Some (int m, take m (sk_in s), if peek then s else s\<lparr>sk_in := drop m (sk_in s)\<rparr>)
     | Sk_intr \<Rightarrow> Some (-1, [], s\<lparr>sk_errno := EINTR\<rparr>)
     | Sk_fail e \<Rightarrow> Some (-1, [], s\<lparr>sk_errno := e\<rparr>)
     | Sk_zero \<Rightarrow> Some (0, [], s))"

section \<open>Sending and receiving messages\<close>

fun send_loop :: "sock_event list \<Rightarrow> u8 list \<Rightarrow> sock \<Rightarrow> (int \<times> sock) option" where
  "send_loop [] buf s = (if buf = [] then Some (0, s\<lparr>sk_evs := []\<rparr>) else None)"
| "send_loop (ev # evs) buf s =
     (if buf = [] then Some (0, s\<lparr>sk_evs := ev # evs\<rparr>)
      else let (nwritten, s) = sock_send ev buf s
      in if nwritten \<le> 0
         then if nwritten < 0 \<and> sk_errno s = EINTR then send_loop evs buf s
              else Some (if sk_errno s \<noteq> 0 then - sk_errno s else 1, s\<lparr>sk_evs := evs\<rparr>)
         else send_loop evs (drop (nat nwritten) buf) s)"

definition fla_sock_send_bytes :: "u8 list \<Rightarrow> sock \<Rightarrow> (int \<times> sock) option" where
  "fla_sock_send_bytes buf s = send_loop (sk_evs s) buf (s\<lparr>sk_errno := 0\<rparr>)"

text \<open>The bytes sent are read from the buffer of the message, which must hold them.\<close>

definition fla_sock_send_msg :: "u8 list \<Rightarrow> sock \<Rightarrow> (int \<times> sock) option" where
  "fla_sock_send_msg msg s =
     (let msg_size = 8 + unat (hdr_len msg)
      in if length msg < msg_size then None else fla_sock_send_bytes (take msg_size msg) s)"

text \<open>\<open>Inl err\<close>: the function returns; \<open>Inr retries\<close>: it goes on with the data.\<close>

fun recv_hdr :: "sock_event list \<Rightarrow> nat \<Rightarrow> u8 list \<Rightarrow> sock \<Rightarrow> ((int + nat) \<times> u8 list \<times> sock) option" where
  "recv_hdr [] retries buf s = None"
| "recv_hdr (ev # evs) retries buf s = do {
     (n, bs, s) \<leftarrow> sock_recv ev True 8 s;
     let buf = put 0 bs buf;
     if n \<noteq> 8 \<and> (n > 0 \<or> n = -1 \<and> sk_errno s = EINTR)
     then if retries = 0 then Some (Inl 1, buf, s\<lparr>sk_evs := evs\<rparr>) else recv_hdr evs (retries - 1) buf s
     else if n = -1 then Some (Inl (- sk_errno s), buf, s\<lparr>sk_evs := evs\<rparr>)
     else Some (Inr retries, buf, s\<lparr>sk_evs := evs\<rparr>)
   }"

fun recv_data :: "sock_event list \<Rightarrow> nat \<Rightarrow> nat \<Rightarrow> nat \<Rightarrow> u8 list \<Rightarrow> sock \<Rightarrow> (int \<times> u8 list \<times> sock) option" where
  "recv_data [] retries nleft off buf s =
     (if nleft = 0 then Some (c_bool (hdr_cmd buf = FLA_MSG_CMD_NULL), buf, s\<lparr>sk_evs := []\<rparr>) else None)"
| "recv_data (ev # evs) retries nleft off buf s =
     (if nleft = 0 then Some (c_bool (hdr_cmd buf = FLA_MSG_CMD_NULL), buf, s\<lparr>sk_evs := ev # evs\<rparr>)
      else do {
        (n, bs, s) \<leftarrow> sock_recv ev False nleft s;
        if n \<le> 0
        then if sk_errno s = EINTR \<and> retries \<noteq> 0 then recv_data evs (retries - 1) nleft off buf s
             else Some (- sk_errno s, buf, s\<lparr>sk_evs := evs\<rparr>)
        else recv_data evs retries (nleft - nat n) (off + nat n) (put off bs buf) s
      })"

definition fla_sock_recv_msg :: "u8 list \<Rightarrow> sock \<Rightarrow> (int \<times> u8 list \<times> sock) option" where
  "fla_sock_recv_msg msg s = do {
     let msg = set_cmd FLA_MSG_CMD_NULL msg;
     (r, msg, s) \<leftarrow> recv_hdr (sk_evs s) 3 msg s;
     (case r of
        Inl err \<Rightarrow> Some (err, msg, s)
      | Inr retries \<Rightarrow>
          if unat (hdr_len msg) > FLA_MSG_DATA_MAX then Some (2, msg, s)
          else recv_data (sk_evs s) retries (8 + unat (hdr_len msg)) 0 msg s)
   }"

section \<open>A message arrives as it was sent\<close>

text \<open>
  Calls that are not cut short, and calls that do not fail. \<open>msg_of\<close> is what is sent of a buffer.
\<close>

definition whole :: "sock_event \<Rightarrow> bool" where
  "whole ev = (case ev of Sk_move k \<Rightarrow> FLA_MSG_BUFSIZ \<le> k + 1 | _ \<Rightarrow> False)"

definition harmless :: "sock_event \<Rightarrow> bool" where
  "harmless ev = (case ev of Sk_move k \<Rightarrow> True | Sk_intr \<Rightarrow> True | _ \<Rightarrow> False)"

text \<open>The calls that may be cut short, and those that are not.\<close>

definition n_cut :: "sock_event list \<Rightarrow> nat" where
  "n_cut evs = length (filter (\<lambda>ev. \<not> whole ev) evs)"

definition n_whole :: "sock_event list \<Rightarrow> nat" where
  "n_whole evs = length (filter whole evs)"

text \<open>\<open>evs'\<close> is what is left of \<open>evs\<close> after at most one call that was not cut short.\<close>

definition left_of :: "sock_event list \<Rightarrow> sock_event list \<Rightarrow> bool" where
  "left_of evs' evs \<longleftrightarrow> n_cut evs' \<le> n_cut evs \<and> n_whole evs \<le> Suc (n_whole evs') \<and> set evs' \<subseteq> set evs"

definition msg_ok :: "u8 list \<Rightarrow> bool" where
  "msg_ok b \<longleftrightarrow> length b = FLA_MSG_BUFSIZ \<and> unat (hdr_len b) \<le> FLA_MSG_DATA_MAX"

definition msg_of :: "u8 list \<Rightarrow> u8 list" where
  "msg_of b = take (8 + unat (hdr_len b)) b"

lemma whole_harmless: "whole ev \<Longrightarrow> harmless ev"
  by (simp add: whole_def harmless_def split: sock_event.splits)

lemma n_cut_simps [simp]:
  "n_cut [] = 0" "n_cut (ev # evs) = (if whole ev then 0 else 1) + n_cut evs"
  "n_whole [] = 0" "n_whole (ev # evs) = (if whole ev then 1 else 0) + n_whole evs"
  by (simp_all add: n_cut_def n_whole_def)

lemma left_of_simps:
  "left_of evs evs" "left_of evs (ev # evs)" "\<not> whole ev \<Longrightarrow> left_of evs' evs \<Longrightarrow> left_of evs' (ev # evs)"
  by (auto simp: left_of_def)

lemma length_put: "off + length xs \<le> length b \<Longrightarrow> length (put off xs b) = length b"
  by (simp add: put_def)

lemma put_put: "length ys \<le> length xs \<Longrightarrow> off + length ys \<le> length b \<Longrightarrow> put off xs (put off ys b) = put off xs b"
  by (simp add: put_def add.commute)

lemma put_next:
  assumes "off + length xs + length ys \<le> length b"
  shows "put (off + length xs) ys (put off xs b) = put off (xs @ ys) b"
  using assms by (simp add: put_def ac_simps)

text \<open>The kinds of a harmless event.\<close>

lemma harmless_cases:
  assumes "harmless ev"
  obtains (whole) k where "ev = Sk_move k" "whole ev" "FLA_MSG_BUFSIZ \<le> k + 1"
    | (part) k where "ev = Sk_move k" "\<not> whole ev" | (intr) "ev = Sk_intr" "\<not> whole ev"
  using assms by (cases ev) (auto simp: harmless_def whole_def)

lemma send_loop_sends:
  assumes "\<forall>ev\<in>set evs. harmless ev" "0 < n_whole evs" "length buf \<le> FLA_MSG_BUFSIZ"
  shows "\<exists>evs' e. send_loop evs buf s = Some (0, s\<lparr>sk_out := sk_out s @ buf, sk_errno := e, sk_evs := evs'\<rparr>)
    \<and> left_of evs' evs"
  using assms
proof (induction evs arbitrary: buf s)
  case (Cons ev evs)
  show ?case
  proof (cases "buf = []")
    case True
    then have "send_loop (ev # evs) buf s = Some (0, s\<lparr>sk_out := sk_out s @ buf, sk_errno := sk_errno s, sk_evs := ev # evs\<rparr>)"
      by simp
    then show ?thesis using left_of_simps(1) by blast
  next
    case ne: False
    have "harmless ev" using Cons.prems(1) by simp
    then show ?thesis
    proof (cases rule: harmless_cases)
      case (whole k)
      then have "send_loop (ev # evs) buf s = send_loop evs [] (s\<lparr>sk_out := sk_out s @ buf\<rparr>)"
        using ne Cons.prems(3) by (simp add: sock_send_def min_def)
      then have "send_loop (ev # evs) buf s = Some (0, s\<lparr>sk_out := sk_out s @ buf, sk_errno := sk_errno s, sk_evs := evs\<rparr>)"
        by (cases evs) simp_all
      then show ?thesis using left_of_simps(2) by blast
    next
      case (part k)
      let ?n = "min (k + 1) (length buf)" and ?s = "\<lambda>n. s\<lparr>sk_out := sk_out s @ take n buf\<rparr>"
      have pos: "0 < ?n" using ne by simp
      have "send_loop (ev # evs) buf s = send_loop evs (drop ?n buf) (?s ?n)"
        using ne pos part(1) by (simp add: sock_send_def Let_def del: min_less_iff_conj)
      moreover have "length (drop ?n buf) \<le> FLA_MSG_BUFSIZ" using Cons.prems(3) by (simp add: le_diff_conv)
      moreover from Cons.IH [of "drop ?n buf" "?s ?n", OF _ _ this]
      obtain evs' e where "send_loop evs (drop ?n buf) (?s ?n)
        = Some (0, s\<lparr>sk_out := (sk_out s @ take ?n buf) @ drop ?n buf, sk_errno := e, sk_evs := evs'\<rparr>)" "left_of evs' evs"
        using Cons.prems(1,2) part(2) by auto
      ultimately show ?thesis using left_of_simps(3) [OF part(2)] by auto
    next
      case intr
      have "send_loop (ev # evs) buf s = send_loop evs buf (s\<lparr>sk_errno := EINTR\<rparr>)"
        using intr ne by (simp add: sock_send_def)
      moreover obtain evs' e where "send_loop evs buf (s\<lparr>sk_errno := EINTR\<rparr>)
        = Some (0, s\<lparr>sk_out := sk_out s @ buf, sk_errno := e, sk_evs := evs'\<rparr>)" "left_of evs' evs"
        using Cons.IH [of buf "s\<lparr>sk_errno := EINTR\<rparr>"] Cons.prems intr(2) by auto
      ultimately show ?thesis using left_of_simps(3) [OF intr(2)] by auto
    qed
  qed
qed simp

text \<open>Receiving the header, which stays in the socket; each call that is cut short costs a retry.\<close>

lemma recv_hdr_receives:
  assumes "\<forall>ev\<in>set evs. harmless ev" "0 < n_whole evs" "n_cut evs \<le> retries" "8 \<le> length (sk_in s)" "8 \<le> length buf"
  shows "\<exists>r evs' e. recv_hdr evs retries buf s
      = Some (Inr r, put 0 (take 8 (sk_in s)) buf, s\<lparr>sk_errno := e, sk_evs := evs'\<rparr>)
    \<and> left_of evs' evs \<and> n_cut evs' \<le> r"
  using assms
proof (induction evs arbitrary: retries buf s)
  case (Cons ev evs)
  have ne: "sk_in s \<noteq> []" using Cons.prems(4) by auto
  have "harmless ev" using Cons.prems(1) by simp
  then show ?case
  proof (cases rule: harmless_cases)
    case (whole k)
    then have "min (k + 1) (min 8 (length (sk_in s))) = 8" using Cons.prems(4) by (simp add: FLA_MSG_BUFSIZ_def)
    then have "recv_hdr (ev # evs) retries buf s
      = Some (Inr retries, put 0 (take 8 (sk_in s)) buf, s\<lparr>sk_errno := sk_errno s, sk_evs := evs\<rparr>)"
      using whole(1) ne by (simp add: sock_recv_def Let_def)
    moreover have "n_cut evs \<le> retries" using Cons.prems(3) whole(2) by simp
    ultimately show ?thesis using left_of_simps(2) by blast
  next
    case (part k)
    let ?m = "min (k + 1) (min 8 (length (sk_in s)))"
    show ?thesis
    proof (cases "?m = 8")
      case True
      then have "recv_hdr (ev # evs) retries buf s
        = Some (Inr retries, put 0 (take 8 (sk_in s)) buf, s\<lparr>sk_errno := sk_errno s, sk_evs := evs\<rparr>)"
        using part(1) ne by (simp add: sock_recv_def Let_def)
      moreover have "n_cut evs \<le> retries" using Cons.prems(3) part(2) by simp
      ultimately show ?thesis using left_of_simps(2) by blast
    next
      case False
      then have m: "?m < 8" "0 < ?m" using ne by auto
      then have st: "recv_hdr (ev # evs) retries buf s = recv_hdr evs (retries - 1) (put 0 (take ?m (sk_in s)) buf) s"
        using part Cons.prems(3) ne by (simp add: sock_recv_def Let_def del: min_less_iff_conj)
      have lm: "length (take ?m (sk_in s)) = ?m" using ne by simp
      then have "8 \<le> length (put 0 (take ?m (sk_in s)) buf)" using m(1) Cons.prems(5) by (subst length_put) simp_all
      moreover have "n_cut evs \<le> retries - 1" using Cons.prems(3) part(2) by simp
      ultimately obtain r evs' e where "recv_hdr evs (retries - 1) (put 0 (take ?m (sk_in s)) buf) s
        = Some (Inr r, put 0 (take 8 (sk_in s)) (put 0 (take ?m (sk_in s)) buf), s\<lparr>sk_errno := e, sk_evs := evs'\<rparr>)"
        "left_of evs' evs" "n_cut evs' \<le> r"
        using Cons.IH [of "retries - 1" s "put 0 (take ?m (sk_in s)) buf", OF _ _ _ Cons.prems(4)] Cons.prems(1,2) part(2) by auto
      moreover have "put 0 (take 8 (sk_in s)) (put 0 (take ?m (sk_in s)) buf) = put 0 (take 8 (sk_in s)) buf"
        using lm m Cons.prems(4,5) by (intro put_put) simp_all
      ultimately show ?thesis using st left_of_simps(3) [OF part(2)] by auto
    qed
  next
    case intr
    then have st: "recv_hdr (ev # evs) retries buf s = recv_hdr evs (retries - 1) buf (s\<lparr>sk_errno := EINTR\<rparr>)"
      using Cons.prems(3) by (simp add: sock_recv_def put_def)
    have "n_cut evs \<le> retries - 1" using Cons.prems(3) intr(2) by simp
    with Cons.IH [of "retries - 1" "s\<lparr>sk_errno := EINTR\<rparr>" buf] Cons.prems intr(2)
    obtain r evs' e where "recv_hdr evs (retries - 1) buf (s\<lparr>sk_errno := EINTR\<rparr>)
      = Some (Inr r, put 0 (take 8 (sk_in s)) buf, s\<lparr>sk_errno := e, sk_evs := evs'\<rparr>)" "left_of evs' evs" "n_cut evs' \<le> r"
      by auto
    then show ?thesis using st left_of_simps(3) [OF intr(2)] by auto
  qed
qed simp

text \<open>Receiving header and data.\<close>

lemma recv_data_receives:
  assumes "\<forall>ev\<in>set evs. harmless ev" "0 < n_whole evs" "n_cut evs \<le> retries" "nleft \<le> length (sk_in s)"
    "nleft \<le> FLA_MSG_BUFSIZ" "off + nleft \<le> length buf" "hdr_cmd (put off (take nleft (sk_in s)) buf) \<noteq> FLA_MSG_CMD_NULL"
  shows "\<exists>evs' e. recv_data evs retries nleft off buf s = Some (0, put off (take nleft (sk_in s)) buf,
      s\<lparr>sk_in := drop nleft (sk_in s), sk_errno := e, sk_evs := evs'\<rparr>) \<and> left_of evs' evs"
  using assms
proof (induction evs arbitrary: retries nleft off buf s)
  case (Cons ev evs)
  have pz: "put off [] buf = buf" by (simp add: put_def)
  show ?case
  proof (cases "nleft = 0")
    case True
    then have "recv_data (ev # evs) retries nleft off buf s = Some (0, put off (take nleft (sk_in s)) buf,
      s\<lparr>sk_in := drop nleft (sk_in s), sk_errno := sk_errno s, sk_evs := ev # evs\<rparr>)"
      using Cons.prems(7) pz by simp
    then show ?thesis using left_of_simps(1) by blast
  next
    case nz: False
    then have ne: "sk_in s \<noteq> []" using Cons.prems(4) by auto
    have "harmless ev" using Cons.prems(1) by simp
    then show ?thesis
    proof (cases rule: harmless_cases)
      case (whole k)
      then have "min (k + 1) (min nleft (length (sk_in s))) = nleft" using Cons.prems(4,5) by simp
      then have "recv_data (ev # evs) retries nleft off buf s
        = recv_data evs retries 0 (off + nleft) (put off (take nleft (sk_in s)) buf) (s\<lparr>sk_in := drop nleft (sk_in s)\<rparr>)"
        using whole(1) ne nz by (simp add: sock_recv_def Let_def)
      then have "recv_data (ev # evs) retries nleft off buf s = Some (0, put off (take nleft (sk_in s)) buf,
        s\<lparr>sk_in := drop nleft (sk_in s), sk_errno := sk_errno s, sk_evs := evs\<rparr>)"
        using Cons.prems(7) by (cases evs) simp_all
      then show ?thesis using left_of_simps(2) by blast
    next
      case (part k)
      define m where "m = min (k + 1) (min nleft (length (sk_in s)))"
      have m: "0 < m" "m \<le> nleft" "m \<le> length (sk_in s)" using nz ne by (simp_all add: m_def)
      let ?s = "s\<lparr>sk_in := drop m (sk_in s)\<rparr>" and ?b = "put off (take m (sk_in s)) buf"
      have "sock_recv ev False nleft s = Some (int m, take m (sk_in s), ?s)"
        using part(1) ne by (simp add: sock_recv_def m_def Let_def)
      then have "recv_data (ev # evs) retries nleft off buf s = recv_data evs retries (nleft - m) (off + m) ?b ?s"
        using nz m(1) by simp
      moreover have nx: "put (off + m) (take (nleft - m) (drop m (sk_in s))) ?b = put off (take nleft (sk_in s)) buf"
      proof -
        have "put (off + m) (take (nleft - m) (drop m (sk_in s))) ?b
          = put off (take m (sk_in s) @ take (nleft - m) (drop m (sk_in s))) buf"
          using put_next [of off "take m (sk_in s)" "take (nleft - m) (drop m (sk_in s))" buf] m Cons.prems(4,6) by simp
        then show ?thesis using m(2) by (simp flip: take_add)
      qed
      moreover have "length ?b = length buf" using m Cons.prems(6) by (intro length_put) simp
      moreover have "nleft - m \<le> length (sk_in s) - m" "nleft - m \<le> FLA_MSG_BUFSIZ" using Cons.prems(4,5) by linarith+
      ultimately obtain evs' e where "recv_data (ev # evs) retries nleft off buf s = Some (0, put off (take nleft (sk_in s)) buf,
        ?s\<lparr>sk_in := drop (nleft - m) (drop m (sk_in s)), sk_errno := e, sk_evs := evs'\<rparr>)" "left_of evs' evs"
        using Cons.IH [of retries "nleft - m" ?s "off + m" ?b] Cons.prems part(2) m by auto
      then show ?thesis using m(2) left_of_simps(3) [OF part(2)] by auto
    next
      case intr
      then have st: "recv_data (ev # evs) retries nleft off buf s = recv_data evs (retries - 1) nleft off buf (s\<lparr>sk_errno := EINTR\<rparr>)"
        using Cons.prems(3) nz by (simp add: sock_recv_def)
      have "n_cut evs \<le> retries - 1" using Cons.prems(3) intr(2) by simp
      then obtain evs' e where "recv_data evs (retries - 1) nleft off buf (s\<lparr>sk_errno := EINTR\<rparr>)
        = Some (0, put off (take nleft (sk_in s)) buf, s\<lparr>sk_in := drop nleft (sk_in s), sk_errno := e, sk_evs := evs'\<rparr>)" "left_of evs' evs"
        using Cons.IH [of "retries - 1" nleft "s\<lparr>sk_errno := EINTR\<rparr>" off buf] Cons.prems intr(2) by auto
      then show ?thesis using st left_of_simps(3) [OF intr(2)] by auto
    qed
  qed
qed simp

lemma fla_sock_send_msg_sends:
  assumes "msg_ok b" "\<forall>ev\<in>set (sk_evs s). harmless ev" "0 < n_whole (sk_evs s)"
  shows "\<exists>evs' e. fla_sock_send_msg b s = Some (0, s\<lparr>sk_out := sk_out s @ msg_of b, sk_errno := e, sk_evs := evs'\<rparr>)
    \<and> left_of evs' (sk_evs s)"
proof -
  have "8 + unat (hdr_len b) \<le> length b" "length (msg_of b) \<le> FLA_MSG_BUFSIZ"
    using assms(1) by (simp_all add: msg_ok_def msg_of_def FLA_MSG_BUFSIZ_def)
  then show ?thesis
    using send_loop_sends [OF assms(2,3), of "msg_of b" "s\<lparr>sk_errno := 0\<rparr>"]
    by (auto simp: fla_sock_send_msg_def fla_sock_send_bytes_def Let_def simp flip: msg_of_def)
qed

lemma hdr_put:
  assumes "8 \<le> length xs"
  shows "hdr_len (put 0 xs b) = hdr_len xs" "hdr_cmd (put 0 xs b) = hdr_cmd xs" "hdr_tag (put 0 xs b) = hdr_tag xs"
  using assms by (auto simp: put_def hdr_len_def hdr_cmd_def hdr_tag_def u32_at_def u16_at_def nth_append)

lemma hdr_take:
  assumes "8 \<le> n"
  shows "hdr_len (take n b) = hdr_len b" "hdr_cmd (take n b) = hdr_cmd b" "hdr_tag (take n b) = hdr_tag b"
  using assms by (simp_all add: hdr_len_def hdr_cmd_def hdr_tag_def u32_at_def u16_at_def)

lemma fla_sock_recv_msg_receives:
  assumes "msg_ok b" "hdr_cmd b \<noteq> FLA_MSG_CMD_NULL" "length buf = FLA_MSG_BUFSIZ" "sk_in s = msg_of b @ rest"
    "\<forall>ev\<in>set (sk_evs s). harmless ev" "2 \<le> n_whole (sk_evs s)" "n_cut (sk_evs s) \<le> 3"
  shows "\<exists>evs' e. fla_sock_recv_msg buf s
      = Some (0, msg_of b @ drop (length (msg_of b)) buf, s\<lparr>sk_in := rest, sk_errno := e, sk_evs := evs'\<rparr>)
    \<and> set evs' \<subseteq> set (sk_evs s) \<and> n_cut evs' \<le> n_cut (sk_evs s) \<and> n_whole (sk_evs s) \<le> n_whole evs' + 2"
proof -
  let ?M = "msg_of b" and ?b0 = "set_cmd FLA_MSG_CMD_NULL buf"
  have lb: "8 + unat (hdr_len b) \<le> length b" using assms(1) by (simp add: msg_ok_def FLA_MSG_BUFSIZ_def)
  have lm: "length ?M = 8 + unat (hdr_len b)" "length ?M \<le> FLA_MSG_BUFSIZ" "8 \<le> length ?M"
    using lb assms(1) by (simp_all add: msg_of_def msg_ok_def FLA_MSG_BUFSIZ_def)
  have l0: "length ?b0 = FLA_MSG_BUFSIZ" using assms(3) by (simp add: set_cmd_def length_put FLA_MSG_BUFSIZ_def)
  have "8 \<le> length (sk_in s)" "8 \<le> length ?b0" "0 < n_whole (sk_evs s)"
    using lm(3) assms(4,6) l0 by (simp_all add: FLA_MSG_BUFSIZ_def)
  from recv_hdr_receives [OF assms(5) this(3) assms(7) this(1,2)]
  obtain r evs1 e1 where h: "recv_hdr (sk_evs s) 3 ?b0 s
      = Some (Inr r, put 0 (take 8 (sk_in s)) ?b0, s\<lparr>sk_errno := e1, sk_evs := evs1\<rparr>)"
    "left_of evs1 (sk_evs s)" "n_cut evs1 \<le> r" by blast
  have t8: "take 8 (sk_in s) = take 8 ?M" using lm(3) assms(4) by simp
  let ?b1 = "put 0 (take 8 ?M) ?b0" and ?s1 = "s\<lparr>sk_errno := e1, sk_evs := evs1\<rparr>"
  have l8: "8 \<le> length (take 8 ?M)" using lm(3) by simp
  have len: "hdr_len ?b1 = hdr_len b" using l8 hdr_put(1) hdr_take(1) [of 8 ?M] hdr_take(1) [of "8 + unat (hdr_len b)" b]
    by (simp add: msg_of_def)
  have l1: "length ?b1 = FLA_MSG_BUFSIZ" using l0 by (subst length_put) (simp_all add: FLA_MSG_BUFSIZ_def)
  have cov: "put 0 ?M ?b1 = ?M @ drop (length ?M) buf"
    using lm(3) assms(3) by (simp add: put_def set_cmd_def FLA_MSG_BUFSIZ_def)
  have "hdr_cmd (put 0 (take (length ?M) (sk_in ?s1)) ?b1) \<noteq> FLA_MSG_CMD_NULL"
    using hdr_put(2) [OF lm(3), of ?b1] hdr_take(2) [of "8 + unat (hdr_len b)" b, folded msg_of_def] assms(2,4) by simp
  moreover have "\<forall>ev\<in>set evs1. harmless ev" "0 < n_whole evs1" using h(2) assms(5,6) by (auto simp: left_of_def)
  ultimately obtain evs2 e2 where d: "recv_data evs1 r (length ?M) 0 ?b1 ?s1
      = Some (0, put 0 ?M ?b1, s\<lparr>sk_in := rest, sk_errno := e2, sk_evs := evs2\<rparr>)" "left_of evs2 evs1"
    using recv_data_receives [of evs1 r "length ?M" ?s1 0 ?b1] h(3) lm(2) l1 assms(4) by auto
  have "fla_sock_recv_msg buf s = Some (0, ?M @ drop (length ?M) buf, s\<lparr>sk_in := rest, sk_errno := e2, sk_evs := evs2\<rparr>)"
    using h(1) d(1) assms(1) len t8 lm(1) cov by (simp add: fla_sock_recv_msg_def msg_ok_def)
  moreover have "set evs2 \<subseteq> set (sk_evs s) \<and> n_cut evs2 \<le> n_cut (sk_evs s) \<and> n_whole (sk_evs s) \<le> n_whole evs2 + 2"
    using h(2) d(2) by (auto simp: left_of_def)
  ultimately show ?thesis by blast
qed

text \<open>
  C37: A message arrives as it was sent, however the transfer is cut up: when no call fails and at most
  three calls of the receiver are cut short or interrupted by a signal, \<open>fla_sock_send_msg\<close> returns 0
  and has sent header and data, and \<open>fla_sock_recv_msg\<close> on a stream that starts with these bytes
  returns 0 with exactly the message in its buffer, the rest of the buffer as it was and the rest of
  the stream unread.
\<close>

theorem fla_sock_msg_roundtrip:
  assumes "msg_ok b" "hdr_cmd b \<noteq> FLA_MSG_CMD_NULL" "length buf = FLA_MSG_BUFSIZ"
    "\<forall>ev\<in>set (sk_evs s) \<union> set (sk_evs r). harmless ev"
    "0 < n_whole (sk_evs s)" "2 \<le> n_whole (sk_evs r)" "n_cut (sk_evs r) \<le> 3"
  shows "\<exists>s'. fla_sock_send_msg b s = Some (0, s') \<and> sk_out s' = sk_out s @ msg_of b
    \<and> (\<forall>rest. \<exists>r'. fla_sock_recv_msg buf (r\<lparr>sk_in := msg_of b @ rest\<rparr>) = Some (0, msg_of b @ drop (length (msg_of b)) buf, r')
         \<and> sk_in r' = rest \<and> sk_out r' = sk_out r)"
proof -
  obtain evs' e where "fla_sock_send_msg b s = Some (0, s\<lparr>sk_out := sk_out s @ msg_of b, sk_errno := e, sk_evs := evs'\<rparr>)"
    using fla_sock_send_msg_sends [OF assms(1)] assms(4,5) by blast
  moreover have "\<exists>r'. fla_sock_recv_msg buf (r\<lparr>sk_in := msg_of b @ rest\<rparr>) = Some (0, msg_of b @ drop (length (msg_of b)) buf, r')
    \<and> sk_in r' = rest \<and> sk_out r' = sk_out r" for rest
    using fla_sock_recv_msg_receives [OF assms(1-3), of "r\<lparr>sk_in := msg_of b @ rest\<rparr>" rest] assms(4,6,7) by auto
  ultimately show ?thesis by auto
qed

text \<open>The request to identify the server, with a receiver that is interrupted twice.\<close>

definition ex_msg :: "u8 list" where
  "ex_msg = [0, 0, 0, 0, 1, 0, 0, 0] @ replicate 2048 0"

definition ex_sock :: sock where
  "ex_sock = \<lparr>sk_in = [], sk_out = [], sk_errno = 0, sk_evs = [Sk_move 2, Sk_intr, Sk_move 4095, Sk_move 4095]\<rparr>"

lemma fla_sock_msg_roundtrip_witness:
  "\<exists>s'. fla_sock_send_msg ex_msg ex_sock = Some (0, s') \<and> sk_out s' = sk_out ex_sock @ msg_of ex_msg
    \<and> (\<forall>rest. \<exists>r'. fla_sock_recv_msg (replicate 2056 7) (ex_sock\<lparr>sk_in := msg_of ex_msg @ rest\<rparr>)
           = Some (0, msg_of ex_msg @ drop (length (msg_of ex_msg)) (replicate 2056 7), r')
         \<and> sk_in r' = rest \<and> sk_out r' = sk_out ex_sock)"
proof (rule fla_sock_msg_roundtrip)
  have h: "hdr_len ex_msg = 0" "hdr_cmd ex_msg = 1"
    by (simp_all add: ex_msg_def hdr_len_def hdr_cmd_def u32_at_def u16_at_def le_word_def)
  show "msg_ok ex_msg" using h by (simp add: msg_ok_def ex_msg_def FLA_MSG_BUFSIZ_def FLA_MSG_DATA_MAX_def)
  show "hdr_cmd ex_msg \<noteq> FLA_MSG_CMD_NULL" using h by (simp add: FLA_MSG_CMD_NULL_def)
qed (simp_all add: ex_sock_def harmless_def whole_def FLA_MSG_BUFSIZ_def FLA_MSG_DATA_MAX_def)

text \<open>
  When the peer has closed the connection and \<open>errno\<close> is 0, as \<open>fla_sock_send_bytes\<close> leaves it,
  \<open>fla_sock_recv_msg\<close> returns 0, as if a message had come: the length of the previous message is
  still in the buffer, and the return in the loop for the data skips the test for \<open>FLA_MSG_CMD_NULL\<close>.
\<close>

lemma recv_msg_closed:
  assumes "length buf = FLA_MSG_BUFSIZ" "unat (hdr_len buf) \<le> FLA_MSG_DATA_MAX" "sk_errno s = 0" "sk_evs s = [Sk_zero, Sk_zero]"
  shows "\<exists>buf' s'. fla_sock_recv_msg buf s = Some (0, buf', s') \<and> hdr_cmd buf' = FLA_MSG_CMD_NULL"
proof -
  have "hdr_len (set_cmd w buf) = hdr_len buf" "hdr_cmd (set_cmd w buf) = w" "put 0 [] (set_cmd w buf) = set_cmd w buf" for w
    using assms(1) u16_at_append [of "take 4 buf" "le16 w @ drop 6 buf" 0]
    by (simp_all add: hdr_len_def hdr_cmd_def set_cmd_def put_def FLA_MSG_BUFSIZ_def u32_at_def nth_append u16_at_le)
  then show ?thesis using assms(2-4) by (simp add: fla_sock_recv_msg_def sock_recv_def)
qed

end
