(* ===== verification/Fla_Daemon.thy ===== *)
theory Fla_Daemon
  imports Fla_Wire Fla_Mm
begin

text \<open>
  The daemon, \<open>src/src/flexalloc_daemon_base.c\<close> and \<open>src/src/flexalloc_daemon.c\<close>: the structures
  in the messages, the handler of each request, the switch \<open>msg_handler\<close> that calls them, the loop
  \<open>fla_daemon_loop\<close> that takes connections and reads requests, and the creation and destruction of
  the socket. The daemon's file system is one opened by \<open>fla_open\<close>, so that the handlers call the
  operations \<open>fla_base_*\<close>. What the operating system answers is an argument: the events of a
  socket as in \<open>Fla_Wire\<close>, and a record for each round of \<open>poll\<close> and for the calls that set up
  the listening socket.
\<close>

section \<open>Structures in messages\<close>

definition pool_of :: "u8 list \<Rightarrow> fla_pool" where
  "pool_of b = \<lparr>ph_h2 = u64_at b 0, ph_ndx = u32_at b 8\<rparr>"

definition pool_bytes :: "u8 list \<Rightarrow> fla_pool \<Rightarrow> u8 list" where
  "pool_bytes old p = le64 (ph_h2 p) @ le_bytes (ph_ndx p) @ drop 12 old"

definition object_of :: "u8 list \<Rightarrow> fla_object" where
  "object_of b = \<lparr>ob_slab_id = u32_at b 0, ob_entry_ndx = u32_at b 4\<rparr>"

definition object_bytes :: "u8 list \<Rightarrow> fla_object \<Rightarrow> u8 list" where
  "object_bytes old ob = le_bytes (ob_slab_id ob) @ le_bytes (ob_entry_ndx ob)"

record fla_sys_identity =
  id_type :: u32
  id_version :: u32

definition identity_of :: "u8 list \<Rightarrow> fla_sys_identity" where
  "identity_of b = \<lparr>id_type = u32_at b 0, id_version = u32_at b 4\<rparr>"

definition identity_bytes :: "u8 list \<Rightarrow> fla_sys_identity \<Rightarrow> u8 list" where
  "identity_bytes old i = le_bytes (id_type i) @ le_bytes (id_version i)"

definition geo_of :: "u8 list \<Rightarrow> fla_geo" where
  "geo_of b = \<lparr>g_nlb = u64_at b 0, g_lb_nbytes = u32_at b 8, g_slab_nlb = u32_at b 12, g_npools = u32_at b 16,
     g_nslabs = u32_at b 20, g_md_nlb = u32_at b 24,
     g_pool_sgmt = \<lparr>gp_freelist_nlb = u32_at b 28, gp_htbl_nlb = u32_at b 32, gp_htbl_tbl_size = u32_at b 36,
       gp_entries_nlb = u32_at b 40\<rparr>,
     g_slab_sgmt = \<lparr>gs_slab_sgmt_nlb = u32_at b 44\<rparr>\<rparr>"

definition geo_bytes :: "u8 list \<Rightarrow> fla_geo \<Rightarrow> u8 list" where
  "geo_bytes old g = le64 (g_nlb g) @ le_bytes (g_lb_nbytes g) @ le_bytes (g_slab_nlb g) @ le_bytes (g_npools g)
     @ le_bytes (g_nslabs g) @ le_bytes (g_md_nlb g) @ le_bytes (gp_freelist_nlb (g_pool_sgmt g))
     @ le_bytes (gp_htbl_nlb (g_pool_sgmt g)) @ le_bytes (gp_htbl_tbl_size (g_pool_sgmt g))
     @ le_bytes (gp_entries_nlb (g_pool_sgmt g)) @ le_bytes (gs_slab_sgmt_nlb (g_slab_sgmt g))"

text \<open>
  \<open>struct fla_pool_create_arg\<close>. The eight bytes of the pointer to the name are never read by the
  receiver, which points it to the bytes behind the structure; they stay as they were.
\<close>

definition create_arg_of :: "u8 list \<Rightarrow> u8 list \<Rightarrow> fla_pool_create_arg" where
  "create_arg_of b name = \<lparr>pa_flags = u64_at b 0, pa_name = name, pa_name_len = sint (u32_at b 16),
     pa_obj_nlb = u32_at b 20, pa_strp_nobjs = u32_at b 24, pa_strp_nbytes = u32_at b 28\<rparr>"

definition create_arg_bytes :: "u8 list \<Rightarrow> fla_pool_create_arg \<Rightarrow> u8 list" where
  "create_arg_bytes old a = le64 (pa_flags a) @ take 8 (drop 8 old) @ le_bytes (word_of_int (pa_name_len a))
     @ le_bytes (pa_obj_nlb a) @ le_bytes (pa_strp_nobjs a) @ le_bytes (pa_strp_nbytes a)"

interpretation pool_c: struct_codec 16 pool_bytes pool_of "\<lambda>_. True"
  by unfold_locales (simp_all add: pool_bytes_def pool_of_def field_at)

interpretation object_c: struct_codec 8 object_bytes object_of "\<lambda>_. True"
  by unfold_locales (simp_all add: object_bytes_def object_of_def field_at)

interpretation identity_c: struct_codec 8 identity_bytes identity_of "\<lambda>_. True"
  by unfold_locales (simp_all add: identity_bytes_def identity_of_def field_at)

interpretation geo_c: struct_codec 48 geo_bytes geo_of "\<lambda>_. True"
  by unfold_locales (simp_all add: geo_bytes_def geo_of_def field_at)

text \<open>The data of a message: a structure or an \<open>int\<close> at an offset.\<close>

definition data_part :: "nat \<Rightarrow> nat \<Rightarrow> u8 list \<Rightarrow> u8 list" where
  "data_part k n b = part (8 + k) n b"

definition put_data :: "nat \<Rightarrow> u8 list \<Rightarrow> u8 list \<Rightarrow> u8 list" where
  "put_data k xs b = put (8 + k) xs b"

definition put_struct :: "nat \<Rightarrow> nat \<Rightarrow> (u8 list \<Rightarrow> 'a \<Rightarrow> u8 list) \<Rightarrow> 'a \<Rightarrow> u8 list \<Rightarrow> u8 list" where
  "put_struct k n enc x b = put_data k (enc (data_part k n b) x) b"

definition put_int :: "int \<Rightarrow> u8 list \<Rightarrow> u8 list" where
  "put_int err b = put_data 0 (le_bytes (word_of_int err)) b"

definition get_int :: "u8 list \<Rightarrow> int" where
  "get_int b = sint (u32_at (data_part 0 4 b) 0)"

section \<open>The daemon\<close>

definition FLA_MSG_CMD_IDENTIFY :: u16 where "FLA_MSG_CMD_IDENTIFY = 1"
definition FLA_MSG_CMD_SYNC :: u16 where "FLA_MSG_CMD_SYNC = 2"
definition FLA_MSG_CMD_POOL_OPEN :: u16 where "FLA_MSG_CMD_POOL_OPEN = 3"
definition FLA_MSG_CMD_POOL_CREATE :: u16 where "FLA_MSG_CMD_POOL_CREATE = 5"
definition FLA_MSG_CMD_POOL_DESTROY :: u16 where "FLA_MSG_CMD_POOL_DESTROY = 6"
definition FLA_MSG_CMD_POOL_SET_ROOT_OBJECT :: u16 where "FLA_MSG_CMD_POOL_SET_ROOT_OBJECT = 7"
definition FLA_MSG_CMD_POOL_GET_ROOT_OBJECT :: u16 where "FLA_MSG_CMD_POOL_GET_ROOT_OBJECT = 8"
definition FLA_MSG_CMD_OBJECT_OPEN :: u16 where "FLA_MSG_CMD_OBJECT_OPEN = 9"
definition FLA_MSG_CMD_OBJECT_CREATE :: u16 where "FLA_MSG_CMD_OBJECT_CREATE = 10"
definition FLA_MSG_CMD_OBJECT_DESTROY :: u16 where "FLA_MSG_CMD_OBJECT_DESTROY = 11"
definition FLA_MSG_CMD_SYNC_NO_RSPS :: u16 where "FLA_MSG_CMD_SYNC_NO_RSPS = 12"
definition FLA_MSG_CMD_INIT_INFO :: u16 where "FLA_MSG_CMD_INIT_INFO = 30"

lemmas cmd_defs = FLA_MSG_CMD_IDENTIFY_def FLA_MSG_CMD_SYNC_def FLA_MSG_CMD_POOL_OPEN_def FLA_MSG_CMD_POOL_CREATE_def
  FLA_MSG_CMD_POOL_DESTROY_def FLA_MSG_CMD_POOL_SET_ROOT_OBJECT_def FLA_MSG_CMD_POOL_GET_ROOT_OBJECT_def
  FLA_MSG_CMD_OBJECT_OPEN_def FLA_MSG_CMD_OBJECT_CREATE_def FLA_MSG_CMD_OBJECT_DESTROY_def
  FLA_MSG_CMD_SYNC_NO_RSPS_def FLA_MSG_CMD_INIT_INFO_def FLA_MSG_CMD_NULL_def

text \<open>
  An open file system with its metadata buffer and its devices. The daemon has one, the names of
  its devices as C strings, and the two message buffers of \<open>fla_daemon_loop\<close>.
\<close>

record 'd base =
  ba_fs :: flexalloc
  ba_buf :: "u8 list"
  ba_dev :: 'd

record 'd fla_daemon =
  dm_base :: "'d base"
  dm_dev_uri :: "u8 list"
  dm_md_dev_uri :: "u8 list option"
  dm_identity :: fla_sys_identity
  dm_recv :: "u8 list"
  dm_send :: "u8 list"

definition set_fs :: "'d fla_daemon \<Rightarrow> flexalloc \<Rightarrow> 'd fla_daemon" where
  "set_fs D fs = D\<lparr>dm_base := (dm_base D)\<lparr>ba_fs := fs\<rparr>\<rparr>"

definition set_dev :: "'d fla_daemon \<Rightarrow> 'd \<Rightarrow> 'd fla_daemon" where
  "set_dev D d = D\<lparr>dm_base := (dm_base D)\<lparr>ba_dev := d\<rparr>\<rparr>"

text \<open>The end of a handler: the send buffer is filled and its message sent.\<close>

definition send_reply :: "'d fla_daemon \<Rightarrow> u8 list \<Rightarrow> sock \<Rightarrow> (int \<times> 'd fla_daemon \<times> sock) option" where
  "send_reply D send s = do {
     (err, s) \<leftarrow> fla_sock_send_msg send s;
     Some (err, D\<lparr>dm_send := send\<rparr>, s)
   }"

section \<open>The handlers of requests\<close>

definition fla_daemon_identify_rsp :: "'d fla_daemon \<Rightarrow> sock \<Rightarrow> (int \<times> 'd fla_daemon \<times> sock) option" where
  "fla_daemon_identify_rsp D s =
     send_reply D (set_len 8 (put_struct 0 8 identity_bytes (dm_identity D) (dm_send D))) s"

text \<open>\<open>dev_uri_len\<close> counts the terminating byte, \<open>md_dev_uri_len\<close> does not.\<close>

definition fla_daemon_fs_init_rsp :: "'d fla_daemon \<Rightarrow> sock \<Rightarrow> (int \<times> 'd fla_daemon \<times> sock) option" where
  "fla_daemon_fs_init_rsp D s = do {
     let send = put_data 0 (replicate FLA_MSG_DATA_MAX 0) (dm_send D);
     let send = put_struct 0 48 geo_bytes (fs_geo (ba_fs (dm_base D))) send;
     let dev_uri_len = length (cstr (dm_dev_uri D)) + 1;
     if length (dm_dev_uri D) < dev_uri_len then None
     else do {
       send \<leftarrow> put_chk 56 (le64 (of_nat dev_uri_len)) send;
       send \<leftarrow> put_chk 64 (take dev_uri_len (dm_dev_uri D)) send;
       let md_dev_uri_len = (case dm_md_dev_uri D of None \<Rightarrow> 0 | Some uri \<Rightarrow> length (cstr uri));
       send \<leftarrow> put_chk (64 + dev_uri_len) (le64 (of_nat md_dev_uri_len)) send;
       send \<leftarrow> (case dm_md_dev_uri D of None \<Rightarrow> Some send | Some uri \<Rightarrow> put_chk (72 + dev_uri_len) (cstr uri) send);
       send_reply D (set_len (of_nat (48 + 8 + dev_uri_len + 8 + md_dev_uri_len)) send) s
     }
   }"

definition fla_daemon_close_rsp :: "'d xnvme \<Rightarrow> 'd fla_daemon \<Rightarrow> sock \<Rightarrow> (int \<times> 'd fla_daemon \<times> sock) option" where
  "fla_daemon_close_rsp X D s = do {
     let b = dm_base D;
     (err, fs, d) \<leftarrow> fla_base_close X (ba_fs b) (ba_buf b) (ba_dev b);
     send_reply (set_dev (set_fs D fs) d) (set_len 4 (put_int err (dm_send D))) s
   }"

text \<open>\<open>answer\<close> is whether \<open>send\<close> is not \<open>NULL\<close>.\<close>

definition fla_daemon_sync_rsp :: "'d xnvme \<Rightarrow> bool \<Rightarrow> 'd fla_daemon \<Rightarrow> sock \<Rightarrow> (int \<times> 'd fla_daemon \<times> sock) option" where
  "fla_daemon_sync_rsp X answer D s = do {
     let b = dm_base D;
     (err, fs, d) \<leftarrow> fla_base_sync X (ba_fs b) (ba_buf b) (ba_dev b);
     let D = set_dev (set_fs D fs) d;
     if answer then send_reply D (set_len 4 (put_int err (dm_send D))) s else Some (err, D, s)
   }"

text \<open>
  The pointer through which \<open>fla_base_pool_open\<close> is to return the handle is \<open>NULL\<close>: the handler
  gets past the call only when no pool has the name. The name is terminated in the receive buffer.
\<close>

definition fla_daemon_pool_open_rsp :: "'d fla_daemon \<Rightarrow> sock \<Rightarrow> (int \<times> 'd fla_daemon \<times> sock) option" where
  "fla_daemon_pool_open_rsp D s = do {
     recv \<leftarrow> put_chk (8 + unat (hdr_len (dm_recv D))) [0] (dm_recv D);
     let D = D\<lparr>dm_recv := recv\<rparr>;
     htbl_entry \<leftarrow> htbl_lookup (po_htbl (fs_pools (ba_fs (dm_base D)))) (drop 8 recv);
     if htbl_entry \<noteq> None then None
     else send_reply D (set_len 4 (put_int (-1) (dm_send D))) s
   }"

text \<open>The answer to a pool request: error code, handle and pool entry.\<close>

definition put_pool_reply :: "'d fla_daemon \<Rightarrow> fla_pool \<Rightarrow> u8 list \<Rightarrow> u8 list option" where
  "put_pool_reply D handle send = do {
     pool_entry \<leftarrow> rd (po_entries (fs_pools (ba_fs (dm_base D)))) (unat (ph_ndx handle));
     Some (set_len (4 + 16 + 160) (put_struct 20 160 pool_entry_bytes pool_entry (put_struct 4 16 pool_bytes handle send)))
   }"

definition fla_daemon_pool_create_rsp :: "'d xnvme \<Rightarrow> 'd fla_daemon \<Rightarrow> sock \<Rightarrow> (int \<times> 'd fla_daemon \<times> sock) option" where
  "fla_daemon_pool_create_rsp X D s = do {
     let pool_arg = create_arg_of (data_part 0 32 (dm_recv D)) (drop 40 (dm_recv D));
     (err, fs, handle) \<leftarrow> fla_base_pool_create X (ba_fs (dm_base D)) pool_arg;
     let D = set_fs D fs;
     let send = put_int err (dm_send D);
     if err \<noteq> 0 then send_reply D (set_len 4 send) s
     else do {
       handle \<leftarrow> handle;
       send \<leftarrow> put_pool_reply D handle send;
       send_reply D send s
     }
   }"

definition fla_daemon_pool_destroy_rsp :: "'d xnvme \<Rightarrow> 'd fla_daemon \<Rightarrow> sock \<Rightarrow> (int \<times> 'd fla_daemon \<times> sock) option" where
  "fla_daemon_pool_destroy_rsp X D s =
     (if hdr_len (dm_recv D) \<noteq> 16 then Some (1, D, s)
      else if \<not> x_malloc X Malloc_pool_handle then Some (- ENOMEM, D, s)
      else do {
        (err, fs) \<leftarrow> fla_base_pool_destroy (ba_fs (dm_base D)) (pool_of (data_part 0 16 (dm_recv D)));
        send_reply (set_fs D fs) (set_len 4 (put_int err (dm_send D))) s
      })"

definition fla_daemon_object_open_rsp :: "'d xnvme \<Rightarrow> 'd fla_daemon \<Rightarrow> sock \<Rightarrow> (int \<times> 'd fla_daemon \<times> sock) option" where
  "fla_daemon_object_open_rsp X D s = do {
     let b = dm_base D;
     let pool = pool_of (data_part 0 16 (dm_recv D));
     let object = object_of (data_part 16 8 (dm_recv D));
     (err, fs) \<leftarrow> fla_base_object_open X (ba_fs b) pool object (ba_dev b);
     send_reply (set_fs D fs) (set_len 4 (put_int err (dm_send D))) s
   }"

definition fla_daemon_object_create_rsp :: "'d xnvme \<Rightarrow> 'd fla_daemon \<Rightarrow> sock \<Rightarrow> (int \<times> 'd fla_daemon \<times> sock) option" where
  "fla_daemon_object_create_rsp X D s = do {
     let b = dm_base D;
     (err, fs, object) \<leftarrow> fla_base_object_create X (ba_fs b) (pool_of (data_part 0 16 (dm_recv D))) (ba_dev b);
     let D = set_fs D fs;
     let send = put_int err (dm_send D);
     if err \<noteq> 0 then send_reply D (set_len 4 send) s
     else do {
       object \<leftarrow> object;
       send_reply D (put_struct 4 8 object_bytes object (set_len (4 + 8) send)) s
     }
   }"

definition fla_daemon_object_destroy_rsp :: "'d xnvme \<Rightarrow> 'd fla_daemon \<Rightarrow> sock \<Rightarrow> (int \<times> 'd fla_daemon \<times> sock) option" where
  "fla_daemon_object_destroy_rsp X D s = do {
     let b = dm_base D;
     let pool = pool_of (data_part 0 16 (dm_recv D));
     let object = object_of (data_part 16 8 (dm_recv D));
     (err, fs, d) \<leftarrow> fla_base_object_destroy X (ba_fs b) pool object (ba_dev b);
     send_reply (set_dev (set_fs D fs) d) (set_len 4 (put_int err (dm_send D))) s
   }"

definition fla_daemon_pool_set_root_object_rsp :: "'d fla_daemon \<Rightarrow> sock \<Rightarrow> (int \<times> 'd fla_daemon \<times> sock) option" where
  "fla_daemon_pool_set_root_object_rsp D s = do {
     let pool = pool_of (data_part 0 16 (dm_recv D));
     let object = object_of (data_part 16 8 (dm_recv D));
     let action = u32_at (data_part 24 4 (dm_recv D)) 0;
     (err, fs) \<leftarrow> fla_base_pool_set_root_object (ba_fs (dm_base D)) pool object action;
     send_reply (set_fs D fs) (set_len 4 (put_int err (dm_send D))) s
   }"

text \<open>The error code is not put into the answer.\<close>

definition fla_daemon_pool_get_root_object_rsp :: "'d fla_daemon \<Rightarrow> sock \<Rightarrow> (int \<times> 'd fla_daemon \<times> sock) option" where
  "fla_daemon_pool_get_root_object_rsp D s = do {
     (err, object) \<leftarrow> fla_base_pool_get_root_object (ba_fs (dm_base D)) (pool_of (data_part 0 16 (dm_recv D)));
     if err \<noteq> 0 then send_reply D (set_len 4 (dm_send D)) s
     else do {
       object \<leftarrow> object;
       send_reply D (put_struct 4 8 object_bytes object (set_len (4 + 8) (dm_send D))) s
     }
   }"

definition msg_handler :: "'d xnvme \<Rightarrow> 'd fla_daemon \<Rightarrow> sock \<Rightarrow> (int \<times> 'd fla_daemon \<times> sock) option" where
  "msg_handler X D s = do {
     let cmd = hdr_cmd (dm_recv D);
     (err, D, s) \<leftarrow>
       (if cmd = FLA_MSG_CMD_OBJECT_OPEN then fla_daemon_object_open_rsp X D s
        else if cmd = FLA_MSG_CMD_OBJECT_CREATE then fla_daemon_object_create_rsp X D s
        else if cmd = FLA_MSG_CMD_OBJECT_DESTROY then fla_daemon_object_destroy_rsp X D s
        else if cmd = FLA_MSG_CMD_POOL_OPEN then fla_daemon_pool_open_rsp D s
        else if cmd = FLA_MSG_CMD_POOL_CREATE then fla_daemon_pool_create_rsp X D s
        else if cmd = FLA_MSG_CMD_POOL_DESTROY then fla_daemon_pool_destroy_rsp X D s
        else if cmd = FLA_MSG_CMD_SYNC then fla_daemon_sync_rsp X True D s
        else if cmd = FLA_MSG_CMD_SYNC_NO_RSPS then fla_daemon_sync_rsp X False D s
        else if cmd = FLA_MSG_CMD_POOL_GET_ROOT_OBJECT then fla_daemon_pool_get_root_object_rsp D s
        else if cmd = FLA_MSG_CMD_POOL_SET_ROOT_OBJECT then fla_daemon_pool_set_root_object_rsp D s
        else if cmd = FLA_MSG_CMD_IDENTIFY then fla_daemon_identify_rsp D s
        else if cmd = FLA_MSG_CMD_INIT_INFO then fla_daemon_fs_init_rsp D s
        else Some (-1, D, s));
     Some (if err \<noteq> 0 then -1 else 0, D, s)
   }"

section \<open>The loop\<close>

text \<open>\<open>read\<close> into the receive buffer at an offset; a read of nothing returns at once.\<close>

definition sock_read :: "nat \<Rightarrow> nat \<Rightarrow> u8 list \<Rightarrow> sock \<Rightarrow> (int \<times> u8 list \<times> sock) option" where
  "sock_read off n buf s =
     (if n = 0 then Some (0, buf, s)
      else (case sk_evs s of
          [] \<Rightarrow> None
        | ev # evs \<Rightarrow> do {
            (r, bs, s) \<leftarrow> sock_recv ev False n (s\<lparr>sk_evs := evs\<rparr>);
            buf \<leftarrow> put_chk off bs buf;
            Some (r, buf, s)
          }))"

text \<open>
  Reading and handling one request. The first value is whether the client is disconnected, the
  second whether the round goes on to count the request in \<open>nready\<close>, which it does not do when
  the header was not read. A header may announce more data than the buffer holds.
\<close>

definition daemon_request ::
  "('d fla_daemon \<Rightarrow> sock \<Rightarrow> (int \<times> 'd fla_daemon \<times> sock) option) \<Rightarrow> 'd fla_daemon \<Rightarrow> sock
    \<Rightarrow> (bool \<times> bool \<times> 'd fla_daemon \<times> sock) option" where
  "daemon_request on_msg D s = do {
     (n, recv, s) \<leftarrow> sock_read 0 8 (dm_recv D) s;
     let D = D\<lparr>dm_recv := recv\<rparr>;
     if n \<noteq> 8 then Some (True, False, D, s)
     else do {
       (n, recv, s) \<leftarrow> sock_read 8 (unat (hdr_len recv)) recv s;
       let D = D\<lparr>dm_recv := recv\<rparr>;
       if n \<noteq> int (unat (hdr_len recv)) then Some (True, True, D, s)
       else do {
         let send = set_tag (hdr_tag recv) (set_cmd (hdr_cmd recv) (dm_send D));
         (err, D, s) \<leftarrow> on_msg (D\<lparr>dm_send := send\<rparr>) s;
         Some (err \<noteq> 0, True, D, s)
       }
     }
   }"

text \<open>
  The state of the loop: the descriptors of the array \<open>clients\<close>, \<open>max_clients_ndx\<close>,
  \<open>active_clients\<close>, the daemon and the sockets of the descriptors.
\<close>

definition FLA_DAEMON_FD_FREE :: int where
  "FLA_DAEMON_FD_FREE = -1"

record 'd daemon_loop =
  lo_clients :: "int list"
  lo_max :: nat
  lo_active :: int
  lo_daemon :: "'d fla_daemon"
  lo_socks :: "int \<Rightarrow> sock"

text \<open>
  What a round gets from outside: \<open>*keep_running\<close> at the head of the loop and after \<open>poll\<close>, the
  value of \<open>poll\<close>, which descriptors are ready, and the value of \<open>accept\<close> with the new socket.
\<close>

record poll_round =
  pl_keep_head :: bool
  pl_keep :: bool
  pl_nready :: int
  pl_listen :: bool
  pl_ready :: "nat \<Rightarrow> bool"
  pl_accept :: int
  pl_accept_fatal :: bool
  pl_sock :: sock

definition fla_daemon_client_disconnect :: "nat \<Rightarrow> 'd daemon_loop \<Rightarrow> 'd daemon_loop" where
  "fla_daemon_client_disconnect i L =
     L\<lparr>lo_active := lo_active L - 1, lo_clients := (lo_clients L)[i := FLA_DAEMON_FD_FREE]\<rparr>"

text \<open>The search for a free slot; all slots taken, the code stores behind the array.\<close>

definition first_free :: "int list \<Rightarrow> nat" where
  "first_free cs = length (takeWhile (\<lambda>fd. \<not> fd < 0) cs)"

definition add_client :: "poll_round \<Rightarrow> 'd daemon_loop \<Rightarrow> 'd daemon_loop option" where
  "add_client p L =
     (let i = first_free (lo_clients L)
      in if i = length (lo_clients L) then None
         else Some (L\<lparr>lo_clients := (lo_clients L)[i := pl_accept p], lo_max := max i (lo_max L),
           lo_active := lo_active L + 1, lo_socks := (lo_socks L)(pl_accept p := pl_sock p)\<rparr>))"

fun serve_clients ::
  "('d fla_daemon \<Rightarrow> sock \<Rightarrow> (int \<times> 'd fla_daemon \<times> sock) option) \<Rightarrow> poll_round \<Rightarrow> nat list \<Rightarrow> int \<Rightarrow> 'd daemon_loop
    \<Rightarrow> 'd daemon_loop option" where
  "serve_clients on_msg p [] nready L = Some L"
| "serve_clients on_msg p (i # is) nready L = do {
     sockfd \<leftarrow> rd (lo_clients L) i;
     if sockfd < 0 \<or> \<not> pl_ready p i then serve_clients on_msg p is nready L
     else do {
       (disc, counted, D, s) \<leftarrow> daemon_request on_msg (lo_daemon L) (lo_socks L sockfd);
       let L = L\<lparr>lo_daemon := D, lo_socks := (lo_socks L)(sockfd := s)\<rparr>;
       let L = (if disc then fla_daemon_client_disconnect i L else L);
       if \<not> counted then serve_clients on_msg p is nready L
       else if nready - 1 \<le> 0 then Some L
       else serve_clients on_msg p is (nready - 1) L
     }
   }"

text \<open>One round: \<open>Inl err\<close> when the function returns.\<close>

definition loop_round ::
  "('d fla_daemon \<Rightarrow> sock \<Rightarrow> (int \<times> 'd fla_daemon \<times> sock) option) \<Rightarrow> poll_round \<Rightarrow> 'd daemon_loop
    \<Rightarrow> (int + 'd daemon_loop) option" where
  "loop_round on_msg p L =
     (if pl_nready p = 0 \<and> \<not> pl_keep p \<and> lo_active L = 0 then Some (Inl 0)
      else if pl_nready p < 0 then Some (Inr L)
      else if pl_listen p
      then if pl_accept p < 0 \<and> pl_accept_fatal p then Some (Inl 1)
           else do {
             L \<leftarrow> add_client p L;
             if pl_nready p - 1 \<le> 0 then Some (Inr L)
             else map_option Inr (serve_clients on_msg p [1..<Suc (lo_max L)] (pl_nready p - 1) L)
           }
      else map_option Inr (serve_clients on_msg p [1..<Suc (lo_max L)] (pl_nready p) L))"

fun loop_rounds ::
  "('d fla_daemon \<Rightarrow> sock \<Rightarrow> (int \<times> 'd fla_daemon \<times> sock) option) \<Rightarrow> poll_round list \<Rightarrow> 'd daemon_loop
    \<Rightarrow> (int \<times> 'd daemon_loop) option" where
  "loop_rounds on_msg [] L = None"
| "loop_rounds on_msg (p # ps) L =
     (if \<not> pl_keep_head p \<and> lo_active L = 0 then Some (0, L)
      else do {
        r \<leftarrow> loop_round on_msg p L;
        (case r of Inl err \<Rightarrow> Some (err, L) | Inr L \<Rightarrow> loop_rounds on_msg ps L)
      })"

definition loop_start :: "int \<Rightarrow> nat \<Rightarrow> 'd fla_daemon \<Rightarrow> (int \<Rightarrow> sock) \<Rightarrow> 'd daemon_loop" where
  "loop_start listen_fd max_clients D socks =
     \<lparr>lo_clients = listen_fd # replicate (max_clients - 1) FLA_DAEMON_FD_FREE, lo_max = 0, lo_active = 0,
      lo_daemon = D, lo_socks = socks\<rparr>"

text \<open>\<open>keep_running\<close> is \<open>None\<close> for a null pointer and else the value on entry.\<close>

definition fla_daemon_loop ::
  "('d fla_daemon \<Rightarrow> sock \<Rightarrow> (int \<times> 'd fla_daemon \<times> sock) option) \<Rightarrow> bool option \<Rightarrow> int \<Rightarrow> nat \<Rightarrow> poll_round list
    \<Rightarrow> 'd fla_daemon \<Rightarrow> (int \<Rightarrow> sock) \<Rightarrow> (int \<times> 'd daemon_loop) option" where
  "fla_daemon_loop on_msg keep_running listen_fd max_clients ps D socks =
     (let L = loop_start listen_fd max_clients D socks
      in if keep_running = None \<or> keep_running = Some False then Some (- EINVAL, L)
         else if max_clients = 0 then None
         else loop_rounds on_msg ps L)"

section \<open>The listening socket\<close>

text \<open>
  What the operating system answers: the descriptor of \<open>socket\<close>, the values of \<open>bind\<close>, \<open>listen\<close>,
  \<open>close\<close> and \<open>unlink\<close>. \<open>os_file\<close> is whether there is a file at the path of the socket; \<open>bind\<close>
  makes it.
\<close>

record daemon_os =
  os_file :: bool
  os_socket :: int
  os_bind :: int
  os_listen :: int
  os_close :: int
  os_unlink :: int

record daemon_sock =
  ds_listen_fd :: int
  ds_path :: "u8 list"
  ds_max_clients :: int

definition fla_sock_sockaddr_init :: "u8 list \<Rightarrow> int \<times> u8 list" where
  "fla_sock_sockaddr_init socket_path =
     (if length (cstr socket_path) > 107 then (-1, []) else (0, cstr socket_path))"

definition fla_daemon_create :: "bool \<Rightarrow> u8 list \<Rightarrow> int \<Rightarrow> daemon_os \<Rightarrow> int \<times> daemon_sock \<times> daemon_os" where
  "fla_daemon_create alloc_ok socket_path max_clients os =
     (let d = \<lparr>ds_listen_fd = 0, ds_path = [], ds_max_clients = 0\<rparr>
      in if os_file os then (-1, d, os)
         else if fla_fs_alloc alloc_ok = None then (- ENOMEM, d, os)
         else let d = d\<lparr>ds_listen_fd := os_socket os\<rparr>
         in if os_socket os < 0 then (1, d, os)
         else let (err, path) = fla_sock_sockaddr_init socket_path
         in if err \<noteq> 0 then (-1, d, os)
         else let d = d\<lparr>ds_path := path\<rparr>
         in if os_bind os < 0 then (os_bind os, d, os)
         else let os = os\<lparr>os_file := True\<rparr>
         in if os_listen os < 0 then (-1, d, os\<lparr>os_file := os_unlink os \<noteq> 0\<rparr>)
         else (0, d\<lparr>ds_max_clients := max_clients\<rparr>, os))"

text \<open>\<open>access\<close> returns 0 when the file is there.\<close>

definition fla_daemon_destroy :: "daemon_sock \<Rightarrow> daemon_os \<Rightarrow> int \<times> daemon_sock \<times> daemon_os" where
  "fla_daemon_destroy d os =
     (if ds_listen_fd d \<noteq> 0 \<and> os_close os \<noteq> 0 then (-1, d, os)
      else let d = d\<lparr>ds_listen_fd := 0\<rparr>; os_access = (if os_file os then 0 else -1 :: int)
      in if ds_path d \<noteq> [] \<and> os_access \<noteq> 0
         then if os_unlink os \<noteq> 0 then (-2, d, os) else (0, d\<lparr>ds_path := []\<rparr>, os\<lparr>os_file := False\<rparr>)
         else (0, d, os))"

text \<open>
  The test is the wrong way round: the file of the socket stays after the daemon has gone, and the
  next \<open>fla_daemon_create\<close> at that path fails.
\<close>

lemma fla_daemon_destroy_keeps_file:
  assumes "fla_daemon_create alloc_ok path n os = (0, d, os')" "os_close os' = 0"
  shows "\<exists>d' os''. fla_daemon_destroy d os' = (0, d', os'') \<and> fst (fla_daemon_create alloc_ok path n os'') = -1"
proof -
  have "os_file os'" using assms(1) by (auto simp: fla_daemon_create_def Let_def split: if_splits prod.splits)
  then show ?thesis using assms(2) by (simp add: fla_daemon_destroy_def fla_daemon_create_def)
qed

section \<open>The clients of the loop\<close>

text \<open>The slots of connected clients; slot 0 is the listening socket.\<close>

definition used_slots :: "'d daemon_loop \<Rightarrow> nat set" where
  "used_slots L = {i. 1 \<le> i \<and> i < length (lo_clients L) \<and> 0 \<le> lo_clients L ! i}"

definition loop_inv :: "'d daemon_loop \<Rightarrow> bool" where
  "loop_inv L \<longleftrightarrow> lo_max L < length (lo_clients L) \<and> 0 \<le> lo_clients L ! 0 \<and> used_slots L \<subseteq> {1..lo_max L}
     \<and> lo_active L = int (card (used_slots L))"

text \<open>The states after rounds that did not return, when \<open>accept\<close> gives a connection whenever \<open>poll\<close> announces one.\<close>

inductive loop_reach ::
  "('d fla_daemon \<Rightarrow> sock \<Rightarrow> (int \<times> 'd fla_daemon \<times> sock) option) \<Rightarrow> 'd daemon_loop \<Rightarrow> 'd daemon_loop \<Rightarrow> bool"
  for on_msg L0 where
  start: "loop_reach on_msg L0 L0"
| "round": "loop_reach on_msg L0 L \<Longrightarrow> loop_round on_msg p L = Some (Inr L') \<Longrightarrow> (pl_listen p \<longrightarrow> 0 \<le> pl_accept p)
    \<Longrightarrow> loop_reach on_msg L0 L'"

lemma finite_used [simp]: "finite (used_slots L)"
  by (rule finite_subset [of _ "{..<length (lo_clients L)}"]) (auto simp: used_slots_def)

lemma loop_inv_start: "0 \<le> listen_fd \<Longrightarrow> loop_inv (loop_start listen_fd max_clients D socks)"
proof -
  assume fd: "0 \<le> listen_fd"
  have "used_slots (loop_start listen_fd max_clients D socks) = {}"
    by (auto simp: used_slots_def loop_start_def FLA_DAEMON_FD_FREE_def nth_Cons' split: if_splits)
  then show ?thesis using fd by (simp add: loop_inv_def) (simp add: loop_start_def)
qed

lemma first_free_slot:
  assumes "first_free cs \<noteq> length cs"
  shows "first_free cs < length cs" "cs ! first_free cs < 0"
proof -
  show lt: "first_free cs < length cs" using assms length_takeWhile_le [of _ cs] by (simp add: first_free_def le_neq_implies_less)
  show "cs ! first_free cs < 0"
    using nth_length_takeWhile [of "\<lambda>fd. \<not> fd < 0" cs] lt by (simp add: first_free_def)
qed

lemma add_client_inv:
  assumes "loop_inv L" "add_client p L = Some L'" "0 \<le> pl_accept p"
  shows "loop_inv L'" "\<exists>i. i \<notin> used_slots L \<and> used_slots L' = insert i (used_slots L)"
proof -
  let ?i = "first_free (lo_clients L)"
  have ne: "?i \<noteq> length (lo_clients L)"
    and L': "L' = L\<lparr>lo_clients := (lo_clients L)[?i := pl_accept p], lo_max := max ?i (lo_max L), lo_active := lo_active L + 1,
      lo_socks := (lo_socks L)(pl_accept p := pl_sock p)\<rparr>"
    using assms(2) by (auto simp: add_client_def Let_def split: if_splits)
  note sl = first_free_slot [OF ne]
  have i0: "?i \<noteq> 0" using sl(2) assms(1) by (metis loop_inv_def not_less)
  then have us: "used_slots L' = insert ?i (used_slots L)" "?i \<notin> used_slots L"
    using sl assms(3) by (auto simp: used_slots_def L' nth_list_update split: if_splits)
  then show "\<exists>i. i \<notin> used_slots L \<and> used_slots L' = insert i (used_slots L)" by blast
  have "used_slots L \<subseteq> {1..max ?i (lo_max L)}" using assms(1) by (force simp: loop_inv_def)
  then show "loop_inv L'"
    unfolding loop_inv_def us(1)
    using assms(1) us(2) sl i0 by (auto simp: loop_inv_def L')
qed

lemma disconnect_inv:
  assumes "loop_inv L" "i \<in> used_slots L"
  shows "loop_inv (fla_daemon_client_disconnect i L)" "used_slots (fla_daemon_client_disconnect i L) = used_slots L - {i}"
proof -
  let ?L = "fla_daemon_client_disconnect i L"
  show us: "used_slots ?L = used_slots L - {i}" using assms(2)
    by (auto simp: used_slots_def fla_daemon_client_disconnect_def FLA_DAEMON_FD_FREE_def nth_list_update split: if_splits)
  have "i \<noteq> 0" using assms(2) by (simp add: used_slots_def)
  moreover have "0 < card (used_slots L)" using assms(2) by (auto simp: card_gt_0_iff)
  ultimately show "loop_inv ?L"
    unfolding loop_inv_def us using assms
    by (auto simp: loop_inv_def fla_daemon_client_disconnect_def card_Diff_singleton)
qed

lemma serve_clients_inv:
  assumes "loop_inv L" "serve_clients on_msg p is nready L = Some L'" "0 \<notin> set is"
  shows "loop_inv L' \<and> used_slots L' \<subseteq> used_slots L"
  using assms
proof (induction "is" arbitrary: nready L)
  case (Cons i "is")
  obtain fd where fd: "rd (lo_clients L) i = Some fd" using Cons.prems(2) by (auto split: bind_splits)
  show ?case
  proof (cases "fd < 0 \<or> \<not> pl_ready p i")
    case True
    then show ?thesis using Cons fd by auto
  next
    case False
    then obtain disc counted D s where rq: "daemon_request on_msg (lo_daemon L) (lo_socks L fd) = Some (disc, counted, D, s)"
      using Cons.prems(2) fd by (auto split: bind_splits)
    let ?L = "L\<lparr>lo_daemon := D, lo_socks := (lo_socks L)(fd := s)\<rparr>"
    let ?L2 = "if disc then fla_daemon_client_disconnect i ?L else ?L"
    have inv: "loop_inv ?L" "used_slots ?L = used_slots L" using Cons.prems(1) by (simp_all add: loop_inv_def used_slots_def)
    have "i \<in> used_slots ?L" using fd False Cons.prems(3) by (auto simp: used_slots_def dest: rd_SomeD)
    from disconnect_inv [OF inv(1) this] inv have inv2: "loop_inv ?L2" "used_slots ?L2 \<subseteq> used_slots L" by auto
    have "Some L' = (if \<not> counted then serve_clients on_msg p is nready ?L2
      else if nready - 1 \<le> 0 then Some ?L2 else serve_clients on_msg p is (nready - 1) ?L2)"
      using Cons.prems(2) fd False rq by (simp add: Let_def)
    then show ?thesis using Cons.IH [OF inv2(1)] inv2 Cons.prems(3) by (auto split: if_splits)
  qed
qed simp

lemma loop_round_inv:
  assumes "loop_inv L" "loop_round on_msg p L = Some (Inr L')" "pl_listen p \<longrightarrow> 0 \<le> pl_accept p"
  shows "loop_inv L'"
proof (cases "pl_listen p \<and> \<not> pl_nready p < 0")
  case True
  then obtain L1 where L1: "add_client p L = Some L1"
    "(pl_nready p - 1 \<le> 0 \<and> L' = L1) \<or> serve_clients on_msg p [1..<Suc (lo_max L1)] (pl_nready p - 1) L1 = Some L'"
    using assms(2) by (auto simp: loop_round_def split: if_splits bind_splits)
  have "loop_inv L1" using add_client_inv(1) [OF assms(1) L1(1)] assms(3) True by simp
  then show ?thesis using L1(2) serve_clients_inv [of L1] by auto
next
  case False
  then have "L' = L \<or> serve_clients on_msg p [1..<Suc (lo_max L)] (pl_nready p) L = Some L'"
    using assms(2) by (auto simp: loop_round_def split: if_splits)
  then show ?thesis using assms(1) serve_clients_inv [of L] by auto
qed


text \<open>A client comes in the first round and closes its connection in the second.\<close>

definition ex_daemon :: "(xdev \<Rightarrow> nat \<Rightarrow> u8 list) fla_daemon" where
  "ex_daemon = \<lparr>dm_base = \<lparr>ba_fs = fs_zero, ba_buf = [], ba_dev = (\<lambda>_ _. [])\<rparr>, dm_dev_uri = [47, 0], dm_md_dev_uri = None,
     dm_identity = \<lparr>id_type = 1000, id_version = 1\<rparr>, dm_recv = replicate 2056 0, dm_send = replicate 2056 0\<rparr>"

definition ex_round :: "bool \<Rightarrow> bool \<Rightarrow> poll_round" where
  "ex_round keep listen = \<lparr>pl_keep_head = keep, pl_keep = keep, pl_nready = 1, pl_listen = listen, pl_ready = (\<lambda>i. i = 1),
     pl_accept = 5, pl_accept_fatal = False, pl_sock = \<lparr>sk_in = [], sk_out = [], sk_errno = 0, sk_evs = [Sk_zero]\<rparr>\<rparr>"


text \<open>
  A connection that is announced and then not given, and the array full: the first leaves
  \<open>active_clients\<close> one too high for ever, the second stores behind the array.
\<close>

lemma accept_again_miscounts:
  assumes "loop_inv L" "pl_listen p" "pl_accept p = -1" "\<not> pl_accept_fatal p" "pl_nready p = 1"
    "first_free (lo_clients L) < length (lo_clients L)"
  shows "\<exists>L'. loop_round on_msg p L = Some (Inr L') \<and> used_slots L' = used_slots L \<and> lo_active L' = int (card (used_slots L')) + 1"
proof -
  let ?i = "first_free (lo_clients L)"
  have "lo_clients L ! ?i < 0" using first_free_slot(2) [of "lo_clients L"] assms(6) by simp
  then have "used_slots (L\<lparr>lo_clients := (lo_clients L)[?i := -1], lo_max := m, lo_active := a, lo_socks := f\<rparr>) = used_slots L" for m a f
    using assms(6) by (auto simp: used_slots_def nth_list_update split: if_splits)
  then show ?thesis using assms by (simp add: loop_round_def add_client_def Let_def loop_inv_def)
qed

lemma clients_full_overflow:
  assumes "loop_inv L" "pl_listen p" "0 \<le> pl_accept p" "0 < pl_nready p" "first_free (lo_clients L) = length (lo_clients L)"
  shows "loop_round on_msg p L = None"
  using assms by (simp add: loop_round_def add_client_def)

text \<open>A header that announces more data than fit, with the data behind it, is read over the end of the buffer.\<close>

lemma daemon_request_overflow:
  assumes "length (dm_recv D) = FLA_MSG_BUFSIZ" "length hdr = 8" "sk_in s = hdr @ dat" "length dat = unat (hdr_len hdr)"
    "FLA_MSG_DATA_MAX < length dat" "sk_evs s = [Sk_move k, Sk_move k']" "7 \<le> k" "length dat \<le> Suc k'"
  shows "daemon_request on_msg D s = None"
proof -
  have h: "hdr_len (put 0 hdr (dm_recv D)) = hdr_len hdr" using hdr_put(1) assms(2) by simp
  have "min (Suc k) 8 = 8" "dat \<noteq> []" "min (Suc k') (length dat) = length dat"
    using assms(5,7,8) by (auto simp: FLA_MSG_DATA_MAX_def)
  then show ?thesis using assms h
    by (simp add: daemon_request_def sock_read_def sock_recv_def put_chk_def FLA_MSG_BUFSIZ_def length_put Let_def)
qed

end
