(* ===== verification/Fla_Client.thy ===== *)
theory Fla_Client
  imports Fla_Daemon
begin

text \<open>
  The client side of the daemon, the requests \<open>fla_daemon_*_rq\<close> and \<open>fla_daemon_open\<close> of
  \<open>src/src/flexalloc_daemon_base.c\<close>, and the calls of \<open>src/src/libflexalloc.c\<close>, which go to the file
  system itself or to the daemon, by the table \<open>fns\<close> of the handle.

  A client waits for the answer after it has sent a request. What the process at the other end does
  with the bytes it gets is the argument \<open>peer\<close> of every request: a function from its state and the
  bytes to its next state and the bytes it sends. \<open>serve\<close> is this function for the daemon.
\<close>

section \<open>The client\<close>

text \<open>
  \<open>cl_fs\<close> is \<open>None\<close> when the structure has been freed, \<open>cl_open\<close> is whether \<open>sock_fd\<close> is not 0.
  Of the file system a client uses only the geometry and the pool entries it has opened.
\<close>

record 'w fla_daemon_client =
  cl_fs :: "flexalloc option"
  cl_dev_uri :: "u8 list option"
  cl_md_dev_uri :: "u8 list option"
  cl_server_version :: fla_sys_identity
  cl_open :: bool
  cl_send :: "u8 list"
  cl_recv :: "u8 list"
  cl_sock :: sock
  cl_peer :: 'w

type_synonym 'w peer = "'w \<Rightarrow> u8 list \<Rightarrow> ('w \<times> u8 list) option"

definition fla_send_recv :: "'w peer \<Rightarrow> 'w fla_daemon_client \<Rightarrow> (int \<times> 'w fla_daemon_client) option" where
  "fla_send_recv peer C = do {
     (err, s) \<leftarrow> fla_sock_send_msg (cl_send C) (cl_sock C);
     let C = C\<lparr>cl_sock := s\<rparr>;
     if err \<noteq> 0 then Some (err, C)
     else do {
       (w, bs) \<leftarrow> peer (cl_peer C) (sk_out s);
       (err, recv, s) \<leftarrow> fla_sock_recv_msg (cl_recv C) (s\<lparr>sk_in := sk_in s @ bs, sk_out := []\<rparr>);
       Some (err, C\<lparr>cl_peer := w, cl_recv := recv, cl_sock := s\<rparr>)
     }
   }"

text \<open>Filling the header of a request.\<close>

definition request :: "u16 \<Rightarrow> u32 \<Rightarrow> u8 list \<Rightarrow> u8 list" where
  "request cmd len b = set_cmd cmd (set_len len b)"

definition fla_daemon_identify_rq :: "'w peer \<Rightarrow> 'w fla_daemon_client \<Rightarrow> (int \<times> 'w fla_daemon_client) option" where
  "fla_daemon_identify_rq peer C = do {
     (err, C) \<leftarrow> fla_send_recv peer (C\<lparr>cl_send := request FLA_MSG_CMD_IDENTIFY 0 (cl_send C)\<rparr>);
     if err \<noteq> 0 then Some (err, C)
     else Some (0, C\<lparr>cl_server_version := identity_of (data_part 0 8 (cl_recv C))\<rparr>)
   }"

definition client_entries :: "flexalloc \<Rightarrow> fla_pool_entry list \<Rightarrow> flexalloc" where
  "client_entries fs es = fs\<lparr>fs_pools := (fs_pools fs)\<lparr>po_entries := es\<rparr>\<rparr>"

text \<open>
  The answer is read from the receive buffer, which was cleared before: the geometry, then two names
  with their lengths. \<open>get_u64\<close> and \<open>fla_strndup\<close> have no result when they read behind the buffer.
\<close>

definition get_u64 :: "nat \<Rightarrow> u8 list \<Rightarrow> u64 option" where
  "get_u64 off b = (if off + 8 \<le> length b then Some (u64_at b off) else None)"

definition fs_init_open :: "'d xnvme \<Rightarrow> bool \<Rightarrow> flexalloc \<Rightarrow> 'w fla_daemon_client \<Rightarrow> int \<times> 'w fla_daemon_client" where
  "fs_init_open X has_md fs C =
     (if \<not> x_malloc X Malloc_client_entries then (- ENOMEM, C\<lparr>cl_fs := Some fs, cl_dev_uri := None\<rparr>)
      else let err = fla_xne_dev_open X Data_dev
      in if err \<noteq> 0 then (err, C\<lparr>cl_fs := Some fs, cl_dev_uri := None\<rparr>)
      else let err = (if has_md then fla_xne_dev_open X Md_dev else 0)
      in if err \<noteq> 0 then (err, C\<lparr>cl_fs := Some fs, cl_dev_uri := None\<rparr>)
      else (0, C\<lparr>cl_fs := Some (client_entries (fs\<lparr>fs_dev := (fs_dev fs)\<lparr>dv_md_dev := has_md\<rparr>\<rparr>)
                  (replicate (unat (g_npools (fs_geo fs))) pool_entry_zero))\<rparr>))"

definition fla_daemon_fs_init_rq :: "'d xnvme \<Rightarrow> 'w peer \<Rightarrow> 'w fla_daemon_client \<Rightarrow> (int \<times> 'w fla_daemon_client) option" where
  "fla_daemon_fs_init_rq X peer C = do {
     let zero = put_data 0 (replicate FLA_MSG_DATA_MAX 0);
     fs \<leftarrow> cl_fs C;
     (err, C) \<leftarrow> fla_send_recv peer
       (C\<lparr>cl_send := request FLA_MSG_CMD_INIT_INFO 0 (zero (cl_send C)), cl_recv := zero (cl_recv C)\<rparr>);
     if err \<noteq> 0 then Some (err, C)
     else do {
       let geo = geo_of (data_part 0 48 (cl_recv C));
       let fs = fs\<lparr>fs_geo := geo, fs_dev := (fs_dev fs)\<lparr>dv_lb_nbytes := g_lb_nbytes geo\<rparr>\<rparr>;
       dev_uri_len \<leftarrow> get_u64 56 (cl_recv C);
       dev_uri \<leftarrow> fla_strndup (x_malloc X Malloc_dev_uri) (drop 64 (cl_recv C)) (unat dev_uri_len);
       (case dev_uri of
          None \<Rightarrow> Some (- ENOMEM, C\<lparr>cl_fs := Some fs, cl_dev_uri := None\<rparr>)
        | Some dev_uri \<Rightarrow> do {
            let C = C\<lparr>cl_dev_uri := Some dev_uri\<rparr>;
            md_dev_uri_len \<leftarrow> get_u64 (64 + unat dev_uri_len) (cl_recv C);
            if md_dev_uri_len = 0 then Some (fs_init_open X False fs (C\<lparr>cl_md_dev_uri := None\<rparr>))
            else do {
              md_dev_uri \<leftarrow> fla_strndup (x_malloc X Malloc_md_dev_uri) (drop (72 + unat dev_uri_len) (cl_recv C)) (unat md_dev_uri_len);
              (case md_dev_uri of
                 None \<Rightarrow> Some (- ENOMEM, C\<lparr>cl_fs := Some fs, cl_dev_uri := None, cl_md_dev_uri := None\<rparr>)
               | Some md_dev_uri \<Rightarrow> Some (fs_init_open X True fs (C\<lparr>cl_md_dev_uri := Some md_dev_uri\<rparr>)))
            }
          })
     }
   }"

text \<open>A second call reads the freed structure.\<close>

definition fla_daemon_close_rq :: "'w fla_daemon_client \<Rightarrow> (int \<times> 'w fla_daemon_client) option" where
  "fla_daemon_close_rq C = do {
     fs \<leftarrow> cl_fs C;
     if \<not> cl_open C then Some (0, C)
     else do {
       let C = C\<lparr>cl_send := request FLA_MSG_CMD_SYNC_NO_RSPS 0 (cl_send C)\<rparr>;
       (err, s) \<leftarrow> fla_sock_send_msg (cl_send C) (cl_sock C);
       let C = C\<lparr>cl_sock := s\<rparr>;
       if err \<noteq> 0 then Some (err, C)
       else Some (0, C\<lparr>cl_open := False, cl_fs := None, cl_dev_uri := None, cl_md_dev_uri := None\<rparr>)
     }
   }"

text \<open>The error code in the answer is not looked at.\<close>

definition fla_daemon_sync_rq :: "'w peer \<Rightarrow> 'w fla_daemon_client \<Rightarrow> (int \<times> 'w fla_daemon_client) option" where
  "fla_daemon_sync_rq peer C = fla_send_recv peer (C\<lparr>cl_send := request FLA_MSG_CMD_SYNC 0 (cl_send C)\<rparr>)"

text \<open>The answer to a pool request: the handle, and the pool entry, which the client keeps.\<close>

definition get_pool_reply :: "'w fla_daemon_client \<Rightarrow> (int \<times> 'w fla_daemon_client \<times> fla_pool option) option" where
  "get_pool_reply C = do {
     let handle = pool_of (data_part 4 16 (cl_recv C));
     fs \<leftarrow> cl_fs C;
     es \<leftarrow> wr (po_entries (fs_pools fs)) (unat (ph_ndx handle)) (pool_entry_of (data_part 20 160 (cl_recv C)));
     Some (0, C\<lparr>cl_fs := Some (client_entries fs es)\<rparr>, Some handle)
   }"

definition pool_request ::
  "'d xnvme \<Rightarrow> 'w peer \<Rightarrow> u8 list \<Rightarrow> 'w fla_daemon_client \<Rightarrow> (int \<times> 'w fla_daemon_client \<times> fla_pool option) option" where
  "pool_request X peer send C = do {
     (err, C) \<leftarrow> fla_send_recv peer (C\<lparr>cl_send := send\<rparr>);
     if err \<noteq> 0 then Some (err, C, None)
     else if get_int (cl_recv C) \<noteq> 0 then Some (get_int (cl_recv C), C, None)
     else get_pool_reply C
   }"

definition fla_daemon_pool_open_rq ::
  "'d xnvme \<Rightarrow> 'w peer \<Rightarrow> u8 list \<Rightarrow> 'w fla_daemon_client \<Rightarrow> (int \<times> 'w fla_daemon_client \<times> fla_pool option) option" where
  "fla_daemon_pool_open_rq X peer name C = do {
     name_len \<leftarrow> fla_strnlen name FLA_NAME_SIZE_POOL;
     if name_len = FLA_NAME_SIZE_POOL then Some (1, C, None)
     else if \<not> x_malloc X Malloc_pool_handle then Some (- ENOMEM, C, None)
     else pool_request X peer
       (request FLA_MSG_CMD_POOL_OPEN (of_nat name_len) (put_data 0 (take name_len name) (cl_send C))) C
   }"

text \<open>\<open>fla_daemon_pool_close_rq\<close> frees the handle and sends nothing.\<close>

definition fla_daemon_pool_close_rq :: "'w fla_daemon_client \<Rightarrow> fla_pool \<Rightarrow> 'w fla_daemon_client" where
  "fla_daemon_pool_close_rq C handle = C"

text \<open>The length in the header is what the previous request left.\<close>

definition fla_daemon_pool_create_rq ::
  "'d xnvme \<Rightarrow> 'w peer \<Rightarrow> fla_pool_create_arg \<Rightarrow> 'w fla_daemon_client \<Rightarrow> (int \<times> 'w fla_daemon_client \<times> fla_pool option) option" where
  "fla_daemon_pool_create_rq X peer pool_arg C =
     (if \<not> x_malloc X Malloc_pool_handle then Some (- ENOMEM, C, None)
      else if pa_name_len pool_arg < 0 \<or> length (pa_name pool_arg) < nat (pa_name_len pool_arg) then None
      else do {
        let send = put_struct 0 32 create_arg_bytes pool_arg (cl_send C);
        send \<leftarrow> put_chk 40 (take (nat (pa_name_len pool_arg)) (pa_name pool_arg)) send;
        pool_request X peer (set_cmd FLA_MSG_CMD_POOL_CREATE send) C
      })"

text \<open>A request that is answered by an error code only.\<close>

definition int_request :: "'w peer \<Rightarrow> u8 list \<Rightarrow> 'w fla_daemon_client \<Rightarrow> (int \<times> 'w fla_daemon_client) option" where
  "int_request peer send C = do {
     (err, C) \<leftarrow> fla_send_recv peer (C\<lparr>cl_send := send\<rparr>);
     Some (if err \<noteq> 0 then err else get_int (cl_recv C), C)
   }"

definition fla_daemon_pool_destroy_rq ::
  "'w peer \<Rightarrow> fla_pool \<Rightarrow> 'w fla_daemon_client \<Rightarrow> (int \<times> 'w fla_daemon_client) option" where
  "fla_daemon_pool_destroy_rq peer handle C =
     int_request peer (request FLA_MSG_CMD_POOL_DESTROY 16 (put_struct 0 16 pool_bytes handle (cl_send C))) C"

definition fla_daemon_object_open_rq ::
  "'w peer \<Rightarrow> fla_pool \<Rightarrow> fla_object \<Rightarrow> 'w fla_daemon_client \<Rightarrow> (int \<times> 'w fla_daemon_client) option" where
  "fla_daemon_object_open_rq peer pool object C =
     int_request peer (request FLA_MSG_CMD_OBJECT_OPEN (16 + 8)
       (put_struct 16 8 object_bytes object (put_struct 0 16 pool_bytes pool (cl_send C)))) C"

text \<open>A request that is answered by an error code and, if it is 0, an object.\<close>

definition object_request ::
  "'w peer \<Rightarrow> u8 list \<Rightarrow> 'w fla_daemon_client \<Rightarrow> (int \<times> 'w fla_daemon_client \<times> fla_object option) option" where
  "object_request peer send C = do {
     (err, C) \<leftarrow> fla_send_recv peer (C\<lparr>cl_send := send\<rparr>);
     if err \<noteq> 0 then Some (err, C, None)
     else if get_int (cl_recv C) \<noteq> 0 then Some (get_int (cl_recv C), C, None)
     else Some (0, C, Some (object_of (data_part 4 8 (cl_recv C))))
   }"

definition fla_daemon_object_create_rq ::
  "'w peer \<Rightarrow> fla_pool \<Rightarrow> 'w fla_daemon_client \<Rightarrow> (int \<times> 'w fla_daemon_client \<times> fla_object option) option" where
  "fla_daemon_object_create_rq peer pool C =
     object_request peer (request FLA_MSG_CMD_OBJECT_CREATE 16 (put_struct 0 16 pool_bytes pool (cl_send C))) C"

definition fla_daemon_object_destroy_rq ::
  "'w peer \<Rightarrow> fla_pool \<Rightarrow> fla_object \<Rightarrow> 'w fla_daemon_client \<Rightarrow> (int \<times> 'w fla_daemon_client) option" where
  "fla_daemon_object_destroy_rq peer pool object C =
     int_request peer (request FLA_MSG_CMD_OBJECT_DESTROY (16 + 8)
       (put_struct 16 8 object_bytes object (put_struct 0 16 pool_bytes pool (cl_send C)))) C"

definition fla_daemon_pool_set_root_object_rq ::
  "'w peer \<Rightarrow> fla_pool \<Rightarrow> fla_object \<Rightarrow> u32 \<Rightarrow> 'w fla_daemon_client \<Rightarrow> (int \<times> 'w fla_daemon_client) option" where
  "fla_daemon_pool_set_root_object_rq peer pool object action C =
     int_request peer (request FLA_MSG_CMD_POOL_SET_ROOT_OBJECT (16 + 8 + 4)
       (put_data 24 (le_bytes action)
         (put_struct 16 8 object_bytes object (put_struct 0 16 pool_bytes pool (cl_send C))))) C"

definition fla_daemon_pool_get_root_object_rq ::
  "'w peer \<Rightarrow> fla_pool \<Rightarrow> 'w fla_daemon_client \<Rightarrow> (int \<times> 'w fla_daemon_client \<times> fla_object option) option" where
  "fla_daemon_pool_get_root_object_rq peer pool C =
     object_request peer (request FLA_MSG_CMD_POOL_GET_ROOT_OBJECT 16 (put_struct 0 16 pool_bytes pool (cl_send C))) C"

text \<open>
  \<open>fla_daemon_open\<close>; \<open>fd\<close> and \<open>conn\<close> are the values of \<open>socket\<close> and \<open>connect\<close>, \<open>s\<close> is the new
  socket. The failures of \<open>fla_fs_alloc\<close> and of the request for the identity leave \<open>err\<close> at 0.
\<close>

definition close_client :: "int \<Rightarrow> 'w fla_daemon_client \<Rightarrow> int \<times> 'w fla_daemon_client" where
  "close_client err C = (err, C\<lparr>cl_fs := None, cl_open := False\<rparr>)"

definition fla_daemon_open ::
  "'d xnvme \<Rightarrow> 'w peer \<Rightarrow> u8 list \<Rightarrow> int \<Rightarrow> int \<Rightarrow> sock \<Rightarrow> 'w fla_daemon_client \<Rightarrow> (int \<times> 'w fla_daemon_client) option" where
  "fla_daemon_open X peer socket_path fd conn s C =
     (if fd < 0 then Some (1, C)
      else let err = fst (fla_sock_sockaddr_init socket_path)
      in if err \<noteq> 0 then Some (err, C\<lparr>cl_open := False\<rparr>)
      else if conn \<noteq> 0 then Some (conn, C\<lparr>cl_open := False\<rparr>)
      else (case fla_fs_alloc (x_malloc X Malloc_fs) of
          None \<Rightarrow> Some (0, C\<lparr>cl_fs := None, cl_open := False\<rparr>)
        | Some fs \<Rightarrow> do {
            (err, C) \<leftarrow> fla_daemon_identify_rq peer (C\<lparr>cl_sock := s, cl_open := True, cl_fs := Some fs\<rparr>);
            if err \<noteq> 0 then Some (close_client 0 C)
            else do {
              (err, C) \<leftarrow> fla_daemon_fs_init_rq X peer C;
              if err \<noteq> 0 then Some (close_client err C) else Some (0, C)
            }
          }))"

section \<open>The library\<close>

text \<open>
  A handle whose \<open>fns\<close> are \<open>base_fns\<close>, or one whose \<open>fns\<close> are \<open>client_fns\<close>.
\<close>

datatype ('d, 'w) handle = Base_fns "'d base" | Client_fns "'w fla_daemon_client"

definition fla_close :: "'d xnvme \<Rightarrow> ('d, 'w) handle \<Rightarrow> (int \<times> ('d, 'w) handle) option" where
  "fla_close X h = (case h of
       Base_fns b \<Rightarrow> do { (err, fs, d) \<leftarrow> fla_base_close X (ba_fs b) (ba_buf b) (ba_dev b); Some (err, Base_fns (b\<lparr>ba_fs := fs, ba_dev := d\<rparr>)) }
     | Client_fns C \<Rightarrow> do { (err, C) \<leftarrow> fla_daemon_close_rq C; Some (err, Client_fns C) })"

definition fla_sync :: "'d xnvme \<Rightarrow> 'w peer \<Rightarrow> ('d, 'w) handle \<Rightarrow> (int \<times> ('d, 'w) handle) option" where
  "fla_sync X peer h = (case h of
       Base_fns b \<Rightarrow> do { (err, fs, d) \<leftarrow> fla_base_sync X (ba_fs b) (ba_buf b) (ba_dev b); Some (err, Base_fns (b\<lparr>ba_fs := fs, ba_dev := d\<rparr>)) }
     | Client_fns C \<Rightarrow> do { (err, C) \<leftarrow> fla_daemon_sync_rq peer C; Some (err, Client_fns C) })"

definition fla_pool_create ::
  "'d xnvme \<Rightarrow> 'w peer \<Rightarrow> ('d, 'w) handle \<Rightarrow> fla_pool_create_arg \<Rightarrow> (int \<times> ('d, 'w) handle \<times> fla_pool option) option" where
  "fla_pool_create X peer h arg = (case h of
       Base_fns b \<Rightarrow> do { (err, fs, pool) \<leftarrow> fla_base_pool_create X (ba_fs b) arg; Some (err, Base_fns (b\<lparr>ba_fs := fs\<rparr>), pool) }
     | Client_fns C \<Rightarrow> do { (err, C, pool) \<leftarrow> fla_daemon_pool_create_rq X peer arg C; Some (err, Client_fns C, pool) })"

definition fla_pool_destroy :: "'w peer \<Rightarrow> ('d, 'w) handle \<Rightarrow> fla_pool \<Rightarrow> (int \<times> ('d, 'w) handle) option" where
  "fla_pool_destroy peer h pool = (case h of
       Base_fns b \<Rightarrow> do { (err, fs) \<leftarrow> fla_base_pool_destroy (ba_fs b) pool; Some (err, Base_fns (b\<lparr>ba_fs := fs\<rparr>)) }
     | Client_fns C \<Rightarrow> do { (err, C) \<leftarrow> fla_daemon_pool_destroy_rq peer pool C; Some (err, Client_fns C) })"

definition fla_pool_open ::
  "'d xnvme \<Rightarrow> 'w peer \<Rightarrow> ('d, 'w) handle \<Rightarrow> u8 list \<Rightarrow> (int \<times> ('d, 'w) handle \<times> fla_pool option) option" where
  "fla_pool_open X peer h name = (case h of
       Base_fns b \<Rightarrow> do { (err, pool) \<leftarrow> fla_base_pool_open X (ba_fs b) name; Some (err, Base_fns b, pool) }
     | Client_fns C \<Rightarrow> do { (err, C, pool) \<leftarrow> fla_daemon_pool_open_rq X peer name C; Some (err, Client_fns C, pool) })"

definition fla_object_create ::
  "'d xnvme \<Rightarrow> 'w peer \<Rightarrow> ('d, 'w) handle \<Rightarrow> fla_pool \<Rightarrow> (int \<times> ('d, 'w) handle \<times> fla_object option) option" where
  "fla_object_create X peer h pool = (case h of
       Base_fns b \<Rightarrow> do { (err, fs, object) \<leftarrow> fla_base_object_create X (ba_fs b) pool (ba_dev b); Some (err, Base_fns (b\<lparr>ba_fs := fs\<rparr>), object) }
     | Client_fns C \<Rightarrow> do { (err, C, object) \<leftarrow> fla_daemon_object_create_rq peer pool C; Some (err, Client_fns C, object) })"

definition fla_object_open ::
  "'d xnvme \<Rightarrow> 'w peer \<Rightarrow> ('d, 'w) handle \<Rightarrow> fla_pool \<Rightarrow> fla_object \<Rightarrow> (int \<times> ('d, 'w) handle) option" where
  "fla_object_open X peer h pool object = (case h of
       Base_fns b \<Rightarrow> do { (err, fs) \<leftarrow> fla_base_object_open X (ba_fs b) pool object (ba_dev b); Some (err, Base_fns (b\<lparr>ba_fs := fs\<rparr>)) }
     | Client_fns C \<Rightarrow> do { (err, C) \<leftarrow> fla_daemon_object_open_rq peer pool object C; Some (err, Client_fns C) })"

definition fla_object_destroy ::
  "'d xnvme \<Rightarrow> 'w peer \<Rightarrow> ('d, 'w) handle \<Rightarrow> fla_pool \<Rightarrow> fla_object \<Rightarrow> (int \<times> ('d, 'w) handle) option" where
  "fla_object_destroy X peer h pool object = (case h of
       Base_fns b \<Rightarrow> do { (err, fs, d) \<leftarrow> fla_base_object_destroy X (ba_fs b) pool object (ba_dev b);
         Some (err, Base_fns (b\<lparr>ba_fs := fs, ba_dev := d\<rparr>)) }
     | Client_fns C \<Rightarrow> do { (err, C) \<leftarrow> fla_daemon_object_destroy_rq peer pool object C; Some (err, Client_fns C) })"

definition fla_pool_set_root_object ::
  "'w peer \<Rightarrow> ('d, 'w) handle \<Rightarrow> fla_pool \<Rightarrow> fla_object \<Rightarrow> u32 \<Rightarrow> (int \<times> ('d, 'w) handle) option" where
  "fla_pool_set_root_object peer h pool object act = (case h of
       Base_fns b \<Rightarrow> do { (err, fs) \<leftarrow> fla_base_pool_set_root_object (ba_fs b) pool object act; Some (err, Base_fns (b\<lparr>ba_fs := fs\<rparr>)) }
     | Client_fns C \<Rightarrow> do { (err, C) \<leftarrow> fla_daemon_pool_set_root_object_rq peer pool object act C; Some (err, Client_fns C) })"

definition fla_pool_get_root_object ::
  "'w peer \<Rightarrow> ('d, 'w) handle \<Rightarrow> fla_pool \<Rightarrow> (int \<times> ('d, 'w) handle \<times> fla_object option) option" where
  "fla_pool_get_root_object peer h pool = (case h of
       Base_fns b \<Rightarrow> do { (err, object) \<leftarrow> fla_base_pool_get_root_object (ba_fs b) pool; Some (err, Base_fns b, object) }
     | Client_fns C \<Rightarrow> do { (err, C, object) \<leftarrow> fla_daemon_pool_get_root_object_rq peer pool C; Some (err, Client_fns C, object) })"

text \<open>Closing a pool frees its handle; a buffer for transfers comes from xNVMe for both kinds of handles.\<close>

definition fla_pool_close :: "('d, 'w) handle \<Rightarrow> fla_pool \<Rightarrow> ('d, 'w) handle" where
  "fla_pool_close h pool = (case h of Base_fns b \<Rightarrow> Base_fns b | Client_fns C \<Rightarrow> Client_fns (fla_daemon_pool_close_rq C pool))"

definition fla_buf_alloc :: "'d xnvme \<Rightarrow> u64 \<Rightarrow> u8 list option" where
  "fla_buf_alloc X nbytes = fla_xne_alloc_buf X Data_dev nbytes"

end
