(* ===== verification/Fla_Remote.thy ===== *)
theory Fla_Remote
  imports Fla_Client
begin

text \<open>
  A client and the daemon together: what a call through a client does is what the call does on the
  file system of the daemon.
\<close>

section \<open>Fields of messages\<close>

lemma put_with_part: "put off xs b = with_part off (length xs) (\<lambda>_. xs) b"
  by (simp add: put_def with_part_def)

lemma part_put_same: "off + length xs \<le> length b \<Longrightarrow> part off (length xs) (put off xs b) = xs"
  by (simp add: put_with_part part_with_part_same)

lemma part_put_other:
  assumes "off + n \<le> off' \<or> off' + length xs \<le> off" "off' + length xs \<le> length b"
  shows "part off n (put off' xs b) = part off n b"
  using assms by (auto simp: put_with_part part_with_part_before part_with_part_after)

lemma hdr_parts: "hdr_len b = u32_at (part 0 4 b) 0" "hdr_cmd b = u16_at (part 4 2 b) 0" "hdr_tag b = u16_at (part 6 2 b) 0"
  if "8 \<le> length b"
  using that by (simp_all add: hdr_len_def hdr_cmd_def hdr_tag_def u32_at_def u16_at_def part_def)

text \<open>The parts of a buffer after a store, for buffers of the size of a message.\<close>

definition buf_ok :: "u8 list \<Rightarrow> bool" where
  "buf_ok b \<longleftrightarrow> length b = FLA_MSG_BUFSIZ"

named_theorems msg_simps \<open>lengths, headers and data of message buffers\<close>

lemma buf_ok_puts [msg_simps]:
  "buf_ok b \<Longrightarrow> buf_ok (set_len w b)" "buf_ok b \<Longrightarrow> buf_ok (set_cmd c b)" "buf_ok b \<Longrightarrow> buf_ok (set_tag c b)"
  "buf_ok b \<Longrightarrow> k + length xs \<le> FLA_MSG_DATA_MAX \<Longrightarrow> buf_ok (put_data k xs b)"
  "buf_ok b \<Longrightarrow> buf_ok (put_int err b)" "buf_ok b \<Longrightarrow> buf_ok (request c w b)"
  by (simp_all add: buf_ok_def set_len_def set_cmd_def set_tag_def put_data_def put_int_def request_def length_put FLA_MSG_BUFSIZ_def
    FLA_MSG_DATA_MAX_def)

lemma hdr_puts [msg_simps]:
  assumes "buf_ok b"
  shows "hdr_len (set_len w b) = w" "hdr_cmd (set_len w b) = hdr_cmd b" "hdr_tag (set_len w b) = hdr_tag b"
    "hdr_len (set_cmd c b) = hdr_len b" "hdr_cmd (set_cmd c b) = c" "hdr_tag (set_cmd c b) = hdr_tag b"
    "hdr_len (set_tag c b) = hdr_len b" "hdr_cmd (set_tag c b) = hdr_cmd b" "hdr_tag (set_tag c b) = c"
    "k + length xs \<le> FLA_MSG_DATA_MAX \<Longrightarrow> hdr_len (put_data k xs b) = hdr_len b"
    "k + length xs \<le> FLA_MSG_DATA_MAX \<Longrightarrow> hdr_cmd (put_data k xs b) = hdr_cmd b"
    "k + length xs \<le> FLA_MSG_DATA_MAX \<Longrightarrow> hdr_tag (put_data k xs b) = hdr_tag b"
proof -
  have l: "8 \<le> length b" "length b = 8 + FLA_MSG_DATA_MAX" using assms by (simp_all add: buf_ok_def FLA_MSG_BUFSIZ_def)
  have s: "part 0 4 (put 0 (le_bytes w) b) = le_bytes w" "part 4 2 (put 4 (le16 c) b) = le16 c" "part 6 2 (put 6 (le16 c) b) = le16 c"
    using l(1) part_put_same [of 0 "le_bytes w" b] part_put_same [of 4 "le16 c" b] part_put_same [of 6 "le16 c" b] by simp_all
  note p = set_len_def set_cmd_def set_tag_def put_data_def hdr_parts length_put part_put_other s u32_at_last
    u16_at_le [of _ "[]", simplified]
  show "hdr_len (set_len w b) = w" "hdr_cmd (set_len w b) = hdr_cmd b" "hdr_tag (set_len w b) = hdr_tag b"
    "hdr_len (set_cmd c b) = hdr_len b" "hdr_cmd (set_cmd c b) = c" "hdr_tag (set_cmd c b) = hdr_tag b"
    "hdr_len (set_tag c b) = hdr_len b" "hdr_cmd (set_tag c b) = hdr_cmd b" "hdr_tag (set_tag c b) = c"
    using l(1) by (simp_all add: p)
  assume "k + length xs \<le> FLA_MSG_DATA_MAX"
  then show "hdr_len (put_data k xs b) = hdr_len b" "hdr_cmd (put_data k xs b) = hdr_cmd b" "hdr_tag (put_data k xs b) = hdr_tag b"
    using l by (simp_all add: p)
qed

lemma data_puts [msg_simps]:
  assumes "buf_ok b"
  shows "data_part k n (set_len w b) = data_part k n b" "data_part k n (set_cmd c b) = data_part k n b"
    "data_part k n (set_tag c b) = data_part k n b" "data_part k n (request c w b) = data_part k n b"
    "k + length xs \<le> FLA_MSG_DATA_MAX \<Longrightarrow> n = length xs \<Longrightarrow> data_part k n (put_data k xs b) = xs"
    "k' + length xs \<le> FLA_MSG_DATA_MAX \<Longrightarrow> k + n \<le> k' \<or> k' + length xs \<le> k \<Longrightarrow> data_part k n (put_data k' xs b) = data_part k n b"
  using assms by (auto simp: buf_ok_def set_len_def set_cmd_def set_tag_def put_data_def data_part_def request_def FLA_MSG_BUFSIZ_def
    length_put part_put_same part_put_other)

lemma hdr_request [msg_simps]:
  assumes "buf_ok b"
  shows "hdr_len (request c w b) = w" "hdr_cmd (request c w b) = c"
  using assms by (simp_all add: request_def msg_simps)

lemma get_put_int:
  assumes "buf_ok b" "- (2 ^ 31) \<le> err" "err < 2 ^ 31"
  shows "get_int (put_int err b) = err"
proof -
  have "signed_take_bit 31 err = err" using assms(2,3) by (intro signed_take_bit_int_eq_self) simp_all
  then show ?thesis using assms(1)
    by (simp add: get_int_def put_int_def msg_simps FLA_MSG_DATA_MAX_def u32_at_last sint_sbintrunc')
qed

lemma length_data_part: "buf_ok b \<Longrightarrow> k + n \<le> FLA_MSG_DATA_MAX \<Longrightarrow> length (data_part k n b) = n"
  by (simp add: buf_ok_def data_part_def length_part FLA_MSG_BUFSIZ_def)

section \<open>A request and its answer\<close>

text \<open>
  The daemon as the process at the other end: it reads and handles one request. Its state is that of
  the daemon and of its socket for this client.
\<close>

definition serve :: "'d xnvme \<Rightarrow> ('d fla_daemon \<times> sock) peer" where
  "serve X w bs = do {
     let (D, s) = w;
     (disc, counted, D, s) \<leftarrow> daemon_request (msg_handler X) D (s\<lparr>sk_in := sk_in s @ bs\<rparr>);
     Some ((D, s\<lparr>sk_out := []\<rparr>), sk_out s)
   }"

text \<open>Both ends have their buffers and no message is on the way.\<close>

definition idle :: "sock \<Rightarrow> bool" where
  "idle s \<longleftrightarrow> sk_in s = [] \<and> sk_out s = []"

definition connected :: "('d fla_daemon \<times> sock) fla_daemon_client \<Rightarrow> bool" where
  "connected C \<longleftrightarrow> buf_ok (cl_send C) \<and> buf_ok (cl_recv C) \<and> idle (cl_sock C)
     \<and> buf_ok (dm_recv (fst (cl_peer C))) \<and> buf_ok (dm_send (fst (cl_peer C))) \<and> idle (snd (cl_peer C))"

text \<open>
  What happens in the next \<open>k\<close> calls: no call of the client fails and at most three are cut short or
  interrupted, and the daemon, which does not repeat a read, gets what it asks for.
\<close>

definition steady :: "nat \<Rightarrow> ('d fla_daemon \<times> sock) fla_daemon_client \<Rightarrow> bool" where
  "steady k C \<longleftrightarrow> (\<forall>ev\<in>set (sk_evs (cl_sock C)). harmless ev) \<and> 3 * k \<le> n_whole (sk_evs (cl_sock C))
     \<and> n_cut (sk_evs (cl_sock C)) \<le> 3
     \<and> (\<forall>ev\<in>set (sk_evs (snd (cl_peer C))). whole ev) \<and> 3 * k \<le> length (sk_evs (snd (cl_peer C)))"

text \<open>The handler of a request that changes the daemon to \<open>D'\<close> and sends \<open>reply\<close>.\<close>

definition answers :: "'d xnvme \<Rightarrow> 'd fla_daemon \<Rightarrow> 'd fla_daemon \<Rightarrow> u8 list \<Rightarrow> bool" where
  "answers X D D' reply \<longleftrightarrow> (\<forall>s. msg_handler X D s = do {
     (err, D, s) \<leftarrow> send_reply D' reply s;
     Some (if err \<noteq> 0 then -1 else 0, D, s)
   })"

lemma sock_read_whole:
  assumes "sk_evs s = ev # evs" "whole ev" "0 < n" "n \<le> length (sk_in s)" "n \<le> FLA_MSG_BUFSIZ" "off + n \<le> length buf"
  shows "sock_read off n buf s = Some (int n, put off (take n (sk_in s)) buf, s\<lparr>sk_evs := evs, sk_in := drop n (sk_in s)\<rparr>)"
proof -
  obtain k where "ev = Sk_move k" "FLA_MSG_BUFSIZ \<le> k + 1"
    using assms(2) by (cases ev) (auto simp: whole_def)
  moreover have "sk_in s \<noteq> []" using assms(3,4) by auto
  ultimately show ?thesis using assms
    by (simp add: sock_read_def sock_recv_def put_chk_def Let_def)
qed

text \<open>The request as the handler finds it in the daemon's buffers.\<close>

definition received :: "u8 list \<Rightarrow> 'd fla_daemon \<Rightarrow> 'd fla_daemon" where
  "received b D = D\<lparr>dm_recv := put 0 (msg_of b) (dm_recv D), dm_send := set_tag (hdr_tag b) (set_cmd (hdr_cmd b) (dm_send D))\<rparr>"

lemma daemon_request_handles:
  assumes "msg_ok b" "buf_ok (dm_recv D)" "sk_in s = msg_of b" "\<forall>ev\<in>set (sk_evs s). whole ev" "3 \<le> length (sk_evs s)"
  shows "\<exists>evs. set evs \<subseteq> set (sk_evs s) \<and> length (sk_evs s) \<le> length evs + 2 \<and> daemon_request (msg_handler X) D s = do {
     (err, D, s) \<leftarrow> msg_handler X (received b D) (s\<lparr>sk_evs := evs, sk_in := []\<rparr>);
     Some (err \<noteq> 0, True, D, s)
   }"
proof -
  let ?M = "msg_of b" and ?R = "dm_recv D"
  obtain e1 e2 es where evs: "sk_evs s = e1 # e2 # es" "1 \<le> length es"
    using assms(5) by (auto simp: numeral_eq_Suc Suc_le_length_iff)
  have lm: "length ?M = 8 + unat (hdr_len b)" "length ?R = 8 + FLA_MSG_DATA_MAX" "unat (hdr_len b) \<le> FLA_MSG_DATA_MAX"
    using assms(1,2) by (simp_all add: msg_ok_def msg_of_def buf_ok_def FLA_MSG_BUFSIZ_def)
  have hd: "sock_read 0 8 ?R s = Some (8, put 0 (take 8 ?M) ?R, s\<lparr>sk_evs := e2 # es, sk_in := drop 8 ?M\<rparr>)"
    using sock_read_whole [OF evs(1), of 8 0 ?R] evs(1) assms(3,4) lm by (simp add: FLA_MSG_BUFSIZ_def)
  let ?b1 = "put 0 (take 8 ?M) ?R"
  have h: "hdr_len (put 0 xs ?R) = hdr_len b" "hdr_cmd (put 0 xs ?R) = hdr_cmd b" "hdr_tag (put 0 xs ?R) = hdr_tag b"
    if "xs = take n ?M" "8 \<le> n" for xs n
    using that lm(1) hdr_put [of xs ?R] hdr_take [of n ?M] hdr_take [of "8 + unat (hdr_len b)" b] by (simp_all add: msg_of_def)
  have l1: "length ?b1 = length ?R" using lm by (subst length_put) simp_all
  have all: "put 8 (drop 8 ?M) ?b1 = put 0 ?M ?R"
    using put_next [of 0 "take 8 ?M" "drop 8 ?M" ?R] lm by simp
  have data: "\<exists>evs. set evs \<subseteq> set (sk_evs s) \<and> length (sk_evs s) \<le> length evs + 2
    \<and> sock_read 8 (unat (hdr_len b)) ?b1 (s\<lparr>sk_evs := e2 # es, sk_in := drop 8 ?M\<rparr>)
      = Some (int (unat (hdr_len b)), put 0 ?M ?R, s\<lparr>sk_evs := evs, sk_in := []\<rparr>)"
  proof (cases "unat (hdr_len b) = 0")
    case True
    then have "drop 8 ?M = []" using lm(1) by simp
    then show ?thesis using True evs all by (intro exI [of _ "e2 # es"]) (auto simp: sock_read_def put_def)
  next
    case False
    then show ?thesis
      using sock_read_whole [of "s\<lparr>sk_evs := e2 # es, sk_in := drop 8 ?M\<rparr>" e2 es "unat (hdr_len b)" 8 ?b1] evs assms(4) lm l1 all
      by (auto simp: FLA_MSG_BUFSIZ_def)
  qed
  then obtain evs' where d: "set evs' \<subseteq> set (sk_evs s)" "length (sk_evs s) \<le> length evs' + 2"
    "sock_read 8 (unat (hdr_len b)) ?b1 (s\<lparr>sk_evs := e2 # es, sk_in := drop 8 ?M\<rparr>)
      = Some (int (unat (hdr_len b)), put 0 ?M ?R, s\<lparr>sk_evs := evs', sk_in := []\<rparr>)" by blast
  show ?thesis
    using d h(1) [of "take 8 ?M" 8] h [of ?M "length ?M"] lm(1) hd
    by (intro exI [of _ evs']) (simp add: daemon_request_def received_def)
qed

text \<open>The client when the answer has come.\<close>

definition answered :: "('d fla_daemon \<times> sock) fla_daemon_client \<Rightarrow> 'd fla_daemon \<Rightarrow> u8 list \<Rightarrow> sock \<Rightarrow> sock
    \<Rightarrow> ('d fla_daemon \<times> sock) fla_daemon_client" where
  "answered C D' reply ds cs =
     C\<lparr>cl_peer := (D'\<lparr>dm_send := reply\<rparr>, ds), cl_recv := put 0 (msg_of reply) (cl_recv C), cl_sock := cs\<rparr>"

lemma send_recv_serve:
  assumes "connected C" "steady (Suc k) C" "cl_peer C = (D, s)" "msg_ok (cl_send C)" "hdr_cmd (cl_send C) \<noteq> FLA_MSG_CMD_NULL"
    "answers X (received (cl_send C) D) D' reply" "msg_ok reply" "hdr_cmd reply = hdr_cmd (cl_send C)" "buf_ok (dm_recv D')"
  shows "\<exists>cs ds. fla_send_recv (serve X) C = Some (0, answered C D' reply ds cs)
    \<and> connected (answered C D' reply ds cs) \<and> steady k (answered C D' reply ds cs)"
proof -
  let ?b = "cl_send C" and ?c = "cl_sock C"
  have con: "buf_ok ?b" "length (cl_recv C) = FLA_MSG_BUFSIZ" "sk_in ?c = []" "sk_out ?c = []" "buf_ok (dm_recv D)" "sk_in s = []" "sk_out s = []"
    using assms(1,3) by (simp_all add: connected_def idle_def buf_ok_def)
  have st: "\<forall>ev\<in>set (sk_evs ?c). harmless ev" "3 * Suc k \<le> n_whole (sk_evs ?c)" "n_cut (sk_evs ?c) \<le> 3"
    "\<forall>ev\<in>set (sk_evs s). whole ev" "3 * Suc k \<le> length (sk_evs s)"
    using assms(2,3) by (simp_all add: steady_def)
  obtain evs1 e1 where snd: "fla_sock_send_msg ?b ?c = Some (0, ?c\<lparr>sk_out := msg_of ?b, sk_errno := e1, sk_evs := evs1\<rparr>)"
    "left_of evs1 (sk_evs ?c)"
    using fla_sock_send_msg_sends [OF assms(4) st(1)] st(2) con(4) by auto
  obtain evs2 where rq: "set evs2 \<subseteq> set (sk_evs s)" "length (sk_evs s) \<le> length evs2 + 2"
    "daemon_request (msg_handler X) D (s\<lparr>sk_in := msg_of ?b\<rparr>) = do {
       (err, D, s) \<leftarrow> msg_handler X (received ?b D) (s\<lparr>sk_evs := evs2, sk_in := []\<rparr>);
       Some (err \<noteq> 0, True, D, s)
     }"
    using daemon_request_handles [OF assms(4) con(5), of "s\<lparr>sk_in := msg_of ?b\<rparr>" X] st(4,5) by auto
  have wh: "n_whole evs = length evs \<and> n_cut evs = 0" if "set evs \<subseteq> set (sk_evs s)" for evs
  proof -
    have "\<forall>ev\<in>set evs. whole ev" using that st(4) by blast
    then have "filter whole evs = evs" "filter (\<lambda>ev. \<not> whole ev) evs = []" by (simp_all add: filter_empty_conv)
    then show ?thesis by (simp add: n_whole_def n_cut_def)
  qed
  have "\<forall>ev\<in>set evs2. harmless ev" "0 < n_whole evs2"
    using rq(1,2) st(4,5) wh [OF rq(1)] whole_harmless by auto
  then obtain evs3 e3 where rp: "fla_sock_send_msg reply (s\<lparr>sk_evs := evs2, sk_in := []\<rparr>)
      = Some (0, s\<lparr>sk_in := [], sk_out := msg_of reply, sk_errno := e3, sk_evs := evs3\<rparr>)" "left_of evs3 evs2"
    using fla_sock_send_msg_sends [OF assms(7), of "s\<lparr>sk_evs := evs2, sk_in := []\<rparr>"] con(7) by auto
  let ?ds = "s\<lparr>sk_in := [], sk_out := [], sk_errno := e3, sk_evs := evs3\<rparr>" and ?D = "D'\<lparr>dm_send := reply\<rparr>"
  have sv: "serve X (D, s) (msg_of ?b) = Some ((?D, ?ds), msg_of reply)"
    using rq(3) rp(1) assms(6) con(6) by (simp add: serve_def answers_def send_reply_def)
  let ?s1 = "?c\<lparr>sk_errno := e1, sk_evs := evs1, sk_in := msg_of reply, sk_out := []\<rparr>"
  obtain evs4 e4 where rc: "fla_sock_recv_msg (cl_recv C) ?s1
      = Some (0, msg_of reply @ drop (length (msg_of reply)) (cl_recv C), ?s1\<lparr>sk_in := [], sk_errno := e4, sk_evs := evs4\<rparr>)"
    "set evs4 \<subseteq> set evs1" "n_cut evs4 \<le> n_cut evs1" "n_whole evs1 \<le> n_whole evs4 + 2"
    using fla_sock_recv_msg_receives [OF assms(7) _ con(2), of ?s1 "[]"] assms(5,8) snd(2) st(1-3) by (auto simp: left_of_def)
  let ?cs = "?s1\<lparr>sk_in := [], sk_errno := e4, sk_evs := evs4\<rparr>"
  have pt: "put 0 (msg_of reply) (cl_recv C) = msg_of reply @ drop (length (msg_of reply)) (cl_recv C)" by (simp add: put_def)
  have lr: "length (msg_of reply) \<le> FLA_MSG_BUFSIZ" using assms(7) by (simp add: msg_of_def msg_ok_def)
  have run: "fla_send_recv (serve X) C = Some (0, answered C D' reply ?ds ?cs)"
    using snd(1) sv rc(1) con(3) assms(3) unfolding answered_def pt by (simp add: fla_send_recv_def)
  have "connected (answered C D' reply ?ds ?cs)"
    using con(1,2) lr assms(7,9) unfolding connected_def answered_def pt by (simp add: idle_def buf_ok_def msg_ok_def)
  moreover have "steady k (answered C D' reply ?ds ?cs)"
    using snd(2) rc(2-4) st rq(1,2) rp(2) wh [of evs2] wh [of evs3] by (auto simp: steady_def left_of_def answered_def)
  ultimately show ?thesis using run by blast
qed

text \<open>What the receiver of a message finds in its buffer.\<close>

lemma msg_received [msg_simps]:
  assumes "msg_ok b" "buf_ok R"
  shows "buf_ok (put 0 (msg_of b) R)" "hdr_len (put 0 (msg_of b) R) = hdr_len b" "hdr_cmd (put 0 (msg_of b) R) = hdr_cmd b"
    "k + n \<le> unat (hdr_len b) \<Longrightarrow> data_part k n (put 0 (msg_of b) R) = data_part k n b"
proof -
  have l: "length (msg_of b) = 8 + unat (hdr_len b)" "unat (hdr_len b) \<le> FLA_MSG_DATA_MAX" "length R = 8 + FLA_MSG_DATA_MAX"
    using assms by (simp_all add: msg_ok_def msg_of_def buf_ok_def FLA_MSG_BUFSIZ_def)
  then show "buf_ok (put 0 (msg_of b) R)" by (simp add: buf_ok_def length_put FLA_MSG_BUFSIZ_def)
  show "hdr_len (put 0 (msg_of b) R) = hdr_len b" "hdr_cmd (put 0 (msg_of b) R) = hdr_cmd b"
    using l(1) hdr_put [of "msg_of b" R] hdr_take [of "8 + unat (hdr_len b)" b] by (simp_all add: msg_of_def)
  assume "k + n \<le> unat (hdr_len b)"
  then show "data_part k n (put 0 (msg_of b) R) = data_part k n b"
    using l by (simp add: data_part_def part_def put_def) (simp add: msg_of_def take_drop min_def)
qed

lemma received_simps [msg_simps]:
  assumes "msg_ok b" "buf_ok (dm_recv D)" "buf_ok (dm_send D)"
  shows "buf_ok (dm_recv (received b D))" "buf_ok (dm_send (received b D))"
    "hdr_cmd (dm_recv (received b D)) = hdr_cmd b" "hdr_len (dm_recv (received b D)) = hdr_len b"
    "hdr_cmd (dm_send (received b D)) = hdr_cmd b"
    "k + n \<le> unat (hdr_len b) \<Longrightarrow> data_part k n (dm_recv (received b D)) = data_part k n b"
  using assms by (simp_all add: received_def msg_simps)

lemma dm_base_received [simp]: "dm_base (received b D) = dm_base D"
  by (simp add: received_def)

lemma set_fs_simps [simp]:
  "dm_recv (set_fs D fs) = dm_recv D" "dm_send (set_fs D fs) = dm_send D" "dm_base (set_fs D fs) = (dm_base D)\<lparr>ba_fs := fs\<rparr>"
  "dm_recv (set_dev D d) = dm_recv D" "dm_send (set_dev D d) = dm_send D" "dm_base (set_dev D d) = (dm_base D)\<lparr>ba_dev := d\<rparr>"
  by (simp_all add: set_fs_def set_dev_def)

text \<open>Answers: an error code, or an error code of 0 and an object.\<close>

definition int_reply :: "int \<Rightarrow> u8 list \<Rightarrow> u8 list" where
  "int_reply err b = set_len 4 (put_int err b)"

definition object_reply :: "fla_object \<Rightarrow> u8 list \<Rightarrow> u8 list" where
  "object_reply ob b = put_struct 4 8 object_bytes ob (set_len (4 + 8) (put_int 0 b))"

lemma msg_ok_iff: "msg_ok b \<longleftrightarrow> buf_ok b \<and> unat (hdr_len b) \<le> FLA_MSG_DATA_MAX"
  by (simp add: msg_ok_def buf_ok_def)

lemma put_int_hdr [msg_simps]: "buf_ok b \<Longrightarrow> hdr_cmd (put_int err b) = hdr_cmd b"
  by (simp add: put_int_def msg_simps FLA_MSG_DATA_MAX_def)

lemma int_reply_ok [msg_simps]:
  assumes "buf_ok b"
  shows "msg_ok (int_reply err b)" "hdr_cmd (int_reply err b) = hdr_cmd b" "hdr_len (int_reply err b) = 4"
    "data_part k n (int_reply err b) = data_part k n (put_int err b)"
  using assms by (simp_all add: int_reply_def msg_ok_iff msg_simps FLA_MSG_DATA_MAX_def)

lemma object_reply_ok [msg_simps]:
  assumes "buf_ok b"
  shows "msg_ok (object_reply ob b)" "hdr_cmd (object_reply ob b) = hdr_cmd b" "hdr_len (object_reply ob b) = 12"
    "get_int (object_reply ob b) = 0" "object_of (data_part 4 8 (object_reply ob b)) = ob"
proof -
  let ?b = "set_len (4 + 8) (put_int 0 b)"
  have b: "buf_ok ?b" "length (object_bytes (data_part 4 8 ?b) ob) = 8"
    using assms by (simp_all add: msg_simps object_bytes_def)
  have "data_part 4 8 (object_reply ob b) = object_bytes (data_part 4 8 ?b) ob" "get_int (object_reply ob b) = get_int (put_int 0 b)"
    unfolding object_reply_def put_struct_def get_int_def using b assms by (simp_all add: msg_simps FLA_MSG_DATA_MAX_def)
  then show "get_int (object_reply ob b) = 0" "object_of (data_part 4 8 (object_reply ob b)) = ob"
    using get_put_int [OF assms, of 0] object_c.dec_enc [OF length_data_part [OF b(1)]] by (simp_all add: FLA_MSG_DATA_MAX_def)
  show "hdr_cmd (object_reply ob b) = hdr_cmd b" "hdr_len (object_reply ob b) = 12"
    unfolding object_reply_def put_struct_def using b assms by (simp_all add: msg_simps FLA_MSG_DATA_MAX_def)
  have "buf_ok (object_reply ob b)" unfolding object_reply_def put_struct_def
    by (rule buf_ok_puts(4) [OF b(1)]) (simp add: object_bytes_def FLA_MSG_DATA_MAX_def)
  then show "msg_ok (object_reply ob b)" using \<open>hdr_len (object_reply ob b) = 12\<close> by (simp add: msg_ok_iff FLA_MSG_DATA_MAX_def)
qed

text \<open>The two kinds of requests.\<close>

lemma get_int_received: "msg_ok b \<Longrightarrow> buf_ok R \<Longrightarrow> 4 \<le> unat (hdr_len b) \<Longrightarrow> get_int (put 0 (msg_of b) R) = get_int b"
  by (simp add: get_int_def msg_simps)

lemma int_request_serve:
  assumes "connected C" "steady (Suc k) C" "cl_peer C = (D, s)" "msg_ok send" "hdr_cmd send \<noteq> FLA_MSG_CMD_NULL"
    "answers X (received send D) D' (int_reply err (dm_send (received send D)))" "buf_ok (dm_recv D')"
    "- (2 ^ 31) \<le> err" "err < 2 ^ 31"
  shows "\<exists>C'. int_request (serve X) send C = Some (err, C') \<and> fla_send_recv (serve X) (C\<lparr>cl_send := send\<rparr>) = Some (0, C') \<and> connected C' \<and> steady k C' \<and> dm_base (fst (cl_peer C')) = dm_base D'"
proof -
  let ?C = "C\<lparr>cl_send := send\<rparr>" and ?S = "dm_send (received send D)"
  have b: "buf_ok (dm_recv D)" "buf_ok (dm_send D)" "buf_ok (cl_recv C)" using assms(1,3) by (simp_all add: connected_def)
  have S: "buf_ok ?S" "hdr_cmd ?S = hdr_cmd send" using b assms(4) by (simp_all add: msg_simps)
  have "connected ?C" "steady (Suc k) ?C" "cl_peer ?C = (D, s)"
    using assms(1-4) by (simp_all add: connected_def steady_def msg_ok_iff)
  from send_recv_serve [OF this, of X D' "int_reply err ?S"] obtain cs ds where
    r: "fla_send_recv (serve X) ?C = Some (0, answered ?C D' (int_reply err ?S) ds cs)"
      "connected (answered ?C D' (int_reply err ?S) ds cs)" "steady k (answered ?C D' (int_reply err ?S) ds cs)"
    using assms(4-7) S by (auto simp: msg_simps)
  have "get_int (cl_recv (answered ?C D' (int_reply err ?S) ds cs)) = err"
    using S(1) b(3) get_put_int [OF S(1) assms(8,9)]
    by (simp add: answered_def get_int_received msg_simps) (simp add: get_int_def msg_simps)
  then show ?thesis using r by (intro exI [of _ "answered ?C D' (int_reply err ?S) ds cs"]) (simp add: int_request_def answered_def)
qed

lemma object_request_serve:
  assumes "connected C" "steady (Suc k) C" "cl_peer C = (D, s)" "msg_ok send" "hdr_cmd send \<noteq> FLA_MSG_CMD_NULL"
    "answers X (received send D) D' (object_reply ob (dm_send (received send D)))" "buf_ok (dm_recv D')"
  shows "\<exists>C'. object_request (serve X) send C = Some (0, C', Some ob) \<and> connected C' \<and> steady k C' \<and> dm_base (fst (cl_peer C')) = dm_base D'"
proof -
  let ?C = "C\<lparr>cl_send := send\<rparr>" and ?S = "dm_send (received send D)"
  have b: "buf_ok (dm_recv D)" "buf_ok (dm_send D)" "buf_ok (cl_recv C)" using assms(1,3) by (simp_all add: connected_def)
  have S: "buf_ok ?S" "hdr_cmd ?S = hdr_cmd send" using b assms(4) by (simp_all add: msg_simps)
  have "connected ?C" "steady (Suc k) ?C" "cl_peer ?C = (D, s)"
    using assms(1-4) by (simp_all add: connected_def steady_def msg_ok_iff)
  from send_recv_serve [OF this, of X D' "object_reply ob ?S"] obtain cs ds where
    r: "fla_send_recv (serve X) ?C = Some (0, answered ?C D' (object_reply ob ?S) ds cs)"
      "connected (answered ?C D' (object_reply ob ?S) ds cs)" "steady k (answered ?C D' (object_reply ob ?S) ds cs)"
    using assms(4-7) S by (auto simp: msg_simps)
  have "get_int (cl_recv (answered ?C D' (object_reply ob ?S) ds cs)) = 0"
    "object_of (data_part 4 8 (cl_recv (answered ?C D' (object_reply ob ?S) ds cs))) = ob"
    using S(1) b(3) by (simp_all add: answered_def get_int_received msg_simps)
  then show ?thesis using r by (intro exI [of _ "answered ?C D' (object_reply ob ?S) ds cs"]) (simp add: object_request_def answered_def)
qed

text \<open>An object request that is answered by an error.\<close>

lemma object_request_error:
  assumes "int_request peer send C = Some (err, C')" "fla_send_recv peer (C\<lparr>cl_send := send\<rparr>) = Some (0, C')" "err \<noteq> 0"
  shows "object_request peer send C = Some (err, C', None)"
  using assms by (simp add: object_request_def int_request_def)

section \<open>Calls through a client\<close>

text \<open>The calls of the library that are the same through a client.\<close>

datatype call = Call_object_open fla_pool fla_object | Call_object_create fla_pool | Call_object_destroy fla_pool fla_object
  | Call_pool_destroy fla_pool | Call_set_root_object fla_pool fla_object u32

definition no_object :: "(int \<times> 'h) option \<Rightarrow> (int \<times> 'h \<times> fla_object option) option" where
  "no_object r = map_option (\<lambda>(err, h). (err, h, None)) r"

fun do_call :: "'d xnvme \<Rightarrow> 'w peer \<Rightarrow> ('d, 'w) handle \<Rightarrow> call \<Rightarrow> (int \<times> ('d, 'w) handle \<times> fla_object option) option" where
  "do_call X peer h (Call_object_open pool ob) = no_object (fla_object_open X peer h pool ob)"
| "do_call X peer h (Call_object_create pool) = fla_object_create X peer h pool"
| "do_call X peer h (Call_object_destroy pool ob) = no_object (fla_object_destroy X peer h pool ob)"
| "do_call X peer h (Call_pool_destroy pool) = no_object (fla_pool_destroy peer h pool)"
| "do_call X peer h (Call_set_root_object pool ob act) = no_object (fla_pool_set_root_object peer h pool ob act)"

text \<open>The parts of the requests.\<close>

lemma pool_request_parts:
  assumes "buf_ok b"
  shows "msg_ok (request c 16 (put_struct 0 16 pool_bytes p b))"
    "pool_of (data_part 0 16 (request c 16 (put_struct 0 16 pool_bytes p b))) = p"
proof -
  have l: "length (pool_bytes (data_part 0 16 b) p) = 16"
    using pool_c.enc_length length_data_part [OF assms, of 0 16] by (simp add: FLA_MSG_DATA_MAX_def)
  have "buf_ok (put_struct 0 16 pool_bytes p b)"
    unfolding put_struct_def by (rule buf_ok_puts(4) [OF assms]) (simp add: l FLA_MSG_DATA_MAX_def)
  then show "msg_ok (request c 16 (put_struct 0 16 pool_bytes p b))" by (simp add: msg_ok_iff msg_simps FLA_MSG_DATA_MAX_def)
  show "pool_of (data_part 0 16 (request c 16 (put_struct 0 16 pool_bytes p b))) = p"
    using \<open>buf_ok (put_struct 0 16 pool_bytes p b)\<close> pool_c.dec_enc [OF length_data_part [OF assms, of 0 16]] assms l
    by (simp add: msg_simps) (simp add: put_struct_def msg_simps FLA_MSG_DATA_MAX_def)
qed

lemma pool_request_hdr:
  assumes "buf_ok b"
  shows "hdr_cmd (request c 16 (put_struct 0 16 pool_bytes p b)) = c" "hdr_len (request c 16 (put_struct 0 16 pool_bytes p b)) = 16"
proof -
  have "length (pool_bytes (data_part 0 16 b) p) = 16"
    using pool_c.enc_length length_data_part [OF assms, of 0 16] by (simp add: FLA_MSG_DATA_MAX_def)
  then have "buf_ok (put_struct 0 16 pool_bytes p b)" using assms by (simp add: put_struct_def msg_simps FLA_MSG_DATA_MAX_def)
  then show "hdr_cmd (request c 16 (put_struct 0 16 pool_bytes p b)) = c" "hdr_len (request c 16 (put_struct 0 16 pool_bytes p b)) = 16"
    by (simp_all add: msg_simps)
qed

definition pool_object :: "fla_pool \<Rightarrow> fla_object \<Rightarrow> u8 list \<Rightarrow> u8 list" where
  "pool_object p ob b = put_struct 16 8 object_bytes ob (put_struct 0 16 pool_bytes p b)"

lemma pool_object_parts:
  assumes "buf_ok b"
  shows "buf_ok (pool_object p ob b)" "pool_of (data_part 0 16 (pool_object p ob b)) = p"
    "object_of (data_part 16 8 (pool_object p ob b)) = ob"
proof -
  let ?b = "put_struct 0 16 pool_bytes p b"
  have l: "length (pool_bytes (data_part 0 16 b) p) = 16" "length (object_bytes (data_part 16 8 ?b) ob) = 8"
    using pool_c.enc_length length_data_part [OF assms, of 0 16] by (simp_all add: FLA_MSG_DATA_MAX_def object_bytes_def)
  have b: "buf_ok ?b" unfolding put_struct_def by (rule buf_ok_puts(4) [OF assms]) (simp add: l FLA_MSG_DATA_MAX_def)
  show "buf_ok (pool_object p ob b)"
    unfolding pool_object_def put_struct_def [of 16] by (rule buf_ok_puts(4) [OF b]) (simp add: l FLA_MSG_DATA_MAX_def)
  have "data_part 0 16 (pool_object p ob b) = data_part 0 16 ?b" "data_part 16 8 (pool_object p ob b) = object_bytes (data_part 16 8 ?b) ob"
    unfolding pool_object_def put_struct_def [of 16] using b l by (simp_all add: msg_simps FLA_MSG_DATA_MAX_def)
  moreover have "data_part 0 16 ?b = pool_bytes (data_part 0 16 b) p"
    unfolding put_struct_def using assms l by (simp add: msg_simps FLA_MSG_DATA_MAX_def)
  ultimately show "pool_of (data_part 0 16 (pool_object p ob b)) = p" "object_of (data_part 16 8 (pool_object p ob b)) = ob"
    using pool_c.dec_enc [OF length_data_part [OF assms, of 0 16]] object_c.dec_enc [OF length_data_part [OF b, of 16 8]]
    by (simp_all add: FLA_MSG_DATA_MAX_def)
qed

lemma fla_base_object_create_some:
  assumes "fla_base_object_create X fs pool d = Some (0, fs', ob)"
  shows "ob \<noteq> None"
proof -
  have "obj \<noteq> None" if "fla_slab_next_available_obj fs1 s n = Some (0, fs2, obj)" for fs1 s n fs2 obj
    using that by (auto simp: fla_slab_next_available_obj_def fla_slab_cache_obj_alloc_def FLA_SLAB_CACHE_INVALID_STATE_def Let_def
      split: if_splits bind_splits option.splits prod.splits)
  then show ?thesis using assms by (auto simp: fla_base_object_create_def Let_def split: if_splits bind_splits prod.splits)
qed

text \<open>The handlers answer with what the operation on the file system gives.\<close>

lemmas rsp_defs = answers_def msg_handler_def Let_def int_reply_def object_reply_def

lemma handlers_answer:
  assumes ok: "msg_ok b" "buf_ok (dm_recv D)" "buf_ok (dm_send D)"
    and pool: "16 \<le> unat (hdr_len b)" "pool_of (data_part 0 16 b) = pool"
  shows "hdr_cmd b = FLA_MSG_CMD_OBJECT_CREATE \<Longrightarrow>
      fla_base_object_create X (ba_fs (dm_base D)) pool (ba_dev (dm_base D)) = Some (err, fs, obj) \<Longrightarrow> err \<noteq> 0 \<Longrightarrow>
      answers X (received b D) (set_fs (received b D) fs) (int_reply err (dm_send (received b D)))"
    and "hdr_cmd b = FLA_MSG_CMD_OBJECT_CREATE \<Longrightarrow>
      fla_base_object_create X (ba_fs (dm_base D)) pool (ba_dev (dm_base D)) = Some (0, fs, Some ob) \<Longrightarrow>
      answers X (received b D) (set_fs (received b D) fs) (object_reply ob (dm_send (received b D)))"
    and "hdr_cmd b = FLA_MSG_CMD_POOL_DESTROY \<Longrightarrow> hdr_len b = 16 \<Longrightarrow> x_malloc X Malloc_pool_handle \<Longrightarrow>
      fla_base_pool_destroy (ba_fs (dm_base D)) pool = Some (err, fs) \<Longrightarrow>
      answers X (received b D) (set_fs (received b D) fs) (int_reply err (dm_send (received b D)))"
  using assms by (simp_all add: rsp_defs cmd_defs msg_simps fla_daemon_object_create_rsp_def fla_daemon_pool_destroy_rsp_def)

lemma handlers_answer_object:
  assumes ok: "msg_ok b" "buf_ok (dm_recv D)" "buf_ok (dm_send D)"
    and parts: "24 \<le> unat (hdr_len b)" "pool_of (data_part 0 16 b) = pool" "object_of (data_part 16 8 b) = ob"
  shows "hdr_cmd b = FLA_MSG_CMD_OBJECT_OPEN \<Longrightarrow>
      fla_base_object_open X (ba_fs (dm_base D)) pool ob (ba_dev (dm_base D)) = Some (err, fs) \<Longrightarrow>
      answers X (received b D) (set_fs (received b D) fs) (int_reply err (dm_send (received b D)))"
    and "hdr_cmd b = FLA_MSG_CMD_OBJECT_DESTROY \<Longrightarrow>
      fla_base_object_destroy X (ba_fs (dm_base D)) pool ob (ba_dev (dm_base D)) = Some (err, fs, d) \<Longrightarrow>
      answers X (received b D) (set_dev (set_fs (received b D) fs) d) (int_reply err (dm_send (received b D)))"
    and "hdr_cmd b = FLA_MSG_CMD_POOL_SET_ROOT_OBJECT \<Longrightarrow> 28 \<le> unat (hdr_len b) \<Longrightarrow> u32_at (data_part 24 4 b) 0 = act \<Longrightarrow>
      fla_base_pool_set_root_object (ba_fs (dm_base D)) pool ob act = Some (err, fs) \<Longrightarrow>
      answers X (received b D) (set_fs (received b D) fs) (int_reply err (dm_send (received b D)))"
  using assms by (simp_all add: rsp_defs cmd_defs msg_simps fla_daemon_object_open_rsp_def fla_daemon_object_destroy_rsp_def
    fla_daemon_pool_set_root_object_rsp_def)

text \<open>The requests, one by one.\<close>

lemma object_open_remote:
  assumes con: "connected C" and st: "steady (Suc k) C" and peer: "cl_peer C = (D, s)"
    and err: "- (2 ^ 31) \<le> err" "err < 2 ^ 31"
    and base: "fla_base_object_open X (ba_fs (dm_base D)) p ob (ba_dev (dm_base D)) = Some (err, fs)"
  shows "\<exists>C'. fla_daemon_object_open_rq (serve X) p ob C = Some (err, C') \<and> connected C' \<and> steady k C' \<and> dm_base (fst (cl_peer C')) = (dm_base D)\<lparr>ba_fs := fs\<rparr>"
proof -
  have bo: "buf_ok (cl_send C)" "buf_ok (dm_recv D)" "buf_ok (dm_send D)" using con peer by (simp_all add: connected_def)
  let ?b = "request FLA_MSG_CMD_OBJECT_OPEN (16 + 8) (pool_object p ob (cl_send C))"
  note parts = pool_object_parts [OF bo(1), of p ob]
  have ok: "msg_ok ?b" and c: "hdr_cmd ?b \<noteq> FLA_MSG_CMD_NULL"
    using parts(1) by (simp_all add: msg_ok_iff msg_simps FLA_MSG_DATA_MAX_def cmd_defs)
  have "answers X (received ?b D) (set_fs (received ?b D) fs) (int_reply err (dm_send (received ?b D)))"
    using parts base by (intro handlers_answer_object(1) [OF ok bo(2,3)]) (simp_all add: msg_simps)
  from int_request_serve [OF con st peer ok c this _ err] show ?thesis
    using bo ok by (auto simp: fla_daemon_object_open_rq_def msg_simps simp flip: pool_object_def)
qed

lemma object_destroy_remote:
  assumes con: "connected C" and st: "steady (Suc k) C" and peer: "cl_peer C = (D, s)"
    and err: "- (2 ^ 31) \<le> err" "err < 2 ^ 31"
    and base: "fla_base_object_destroy X (ba_fs (dm_base D)) p ob (ba_dev (dm_base D)) = Some (err, fs, d)"
  shows "\<exists>C'. fla_daemon_object_destroy_rq (serve X) p ob C = Some (err, C') \<and> connected C' \<and> steady k C' \<and> dm_base (fst (cl_peer C')) = (dm_base D)\<lparr>ba_fs := fs, ba_dev := d\<rparr>"
proof -
  have bo: "buf_ok (cl_send C)" "buf_ok (dm_recv D)" "buf_ok (dm_send D)" using con peer by (simp_all add: connected_def)
  let ?b = "request FLA_MSG_CMD_OBJECT_DESTROY (16 + 8) (pool_object p ob (cl_send C))"
  note parts = pool_object_parts [OF bo(1), of p ob]
  have ok: "msg_ok ?b" and c: "hdr_cmd ?b \<noteq> FLA_MSG_CMD_NULL"
    using parts(1) by (simp_all add: msg_ok_iff msg_simps FLA_MSG_DATA_MAX_def cmd_defs)
  have "answers X (received ?b D) (set_dev (set_fs (received ?b D) fs) d) (int_reply err (dm_send (received ?b D)))"
    using parts base by (intro handlers_answer_object(2) [OF ok bo(2,3)]) (simp_all add: msg_simps)
  from int_request_serve [OF con st peer ok c this _ err] show ?thesis
    using bo ok by (auto simp: fla_daemon_object_destroy_rq_def msg_simps simp flip: pool_object_def)
qed

lemma set_root_object_remote:
  assumes con: "connected C" and st: "steady (Suc k) C" and peer: "cl_peer C = (D, s)"
    and err: "- (2 ^ 31) \<le> err" "err < 2 ^ 31"
    and base: "fla_base_pool_set_root_object (ba_fs (dm_base D)) p ob act = Some (err, fs)"
  shows "\<exists>C'. fla_daemon_pool_set_root_object_rq (serve X) p ob act C = Some (err, C') \<and> connected C' \<and> steady k C' \<and> dm_base (fst (cl_peer C')) = (dm_base D)\<lparr>ba_fs := fs\<rparr>"
proof -
  have bo: "buf_ok (cl_send C)" "buf_ok (dm_recv D)" "buf_ok (dm_send D)" using con peer by (simp_all add: connected_def)
  let ?b1 = "put_data 24 (le_bytes act) (pool_object p ob (cl_send C))"
  let ?b = "request FLA_MSG_CMD_POOL_SET_ROOT_OBJECT (16 + 8 + 4) ?b1"
  note parts = pool_object_parts [OF bo(1), of p ob]
  have b1: "buf_ok ?b1" using parts(1) by (simp add: msg_simps FLA_MSG_DATA_MAX_def)
  then have ok: "msg_ok ?b" and c: "hdr_cmd ?b \<noteq> FLA_MSG_CMD_NULL"
    by (simp_all add: msg_ok_iff msg_simps FLA_MSG_DATA_MAX_def cmd_defs)
  have "answers X (received ?b D) (set_fs (received ?b D) fs) (int_reply err (dm_send (received ?b D)))"
    using parts base b1 by (intro handlers_answer_object(3) [OF ok bo(2,3)]) (simp_all add: msg_simps FLA_MSG_DATA_MAX_def u32_at_last)
  from int_request_serve [OF con st peer ok c this _ err] show ?thesis
    using bo ok by (auto simp: fla_daemon_pool_set_root_object_rq_def msg_simps simp flip: pool_object_def)
qed

lemma pool_destroy_remote:
  assumes con: "connected C" and st: "steady (Suc k) C" and peer: "cl_peer C = (D, s)"
    and err: "- (2 ^ 31) \<le> err" "err < 2 ^ 31"
    and alloc: "x_malloc X Malloc_pool_handle" and base: "fla_base_pool_destroy (ba_fs (dm_base D)) p = Some (err, fs)"
  shows "\<exists>C'. fla_daemon_pool_destroy_rq (serve X) p C = Some (err, C') \<and> connected C' \<and> steady k C' \<and> dm_base (fst (cl_peer C')) = (dm_base D)\<lparr>ba_fs := fs\<rparr>"
proof -
  have bo: "buf_ok (cl_send C)" "buf_ok (dm_recv D)" "buf_ok (dm_send D)" using con peer by (simp_all add: connected_def)
  let ?b = "request FLA_MSG_CMD_POOL_DESTROY 16 (put_struct 0 16 pool_bytes p (cl_send C))"
  note parts = pool_request_parts [OF bo(1), of FLA_MSG_CMD_POOL_DESTROY p] and h = pool_request_hdr [OF bo(1), of FLA_MSG_CMD_POOL_DESTROY p]
  have c: "hdr_cmd ?b \<noteq> FLA_MSG_CMD_NULL" using h(1) by (simp add: cmd_defs)
  have "answers X (received ?b D) (set_fs (received ?b D) fs) (int_reply err (dm_send (received ?b D)))"
    using parts(2) base h alloc by (intro handlers_answer(3) [OF parts(1) bo(2,3)]) simp_all
  from int_request_serve [OF con st peer parts(1) c this _ err] show ?thesis
    using bo parts(1) by (auto simp: fla_daemon_pool_destroy_rq_def msg_simps)
qed

lemma object_create_remote:
  assumes con: "connected C" and st: "steady (Suc k) C" and peer: "cl_peer C = (D, s)"
    and err: "- (2 ^ 31) \<le> err" "err < 2 ^ 31"
    and base: "fla_base_object_create X (ba_fs (dm_base D)) p (ba_dev (dm_base D)) = Some (err, fs, ob)"
  shows "\<exists>C'. fla_daemon_object_create_rq (serve X) p C = Some (err, C', if err = 0 then ob else None) \<and> connected C' \<and> steady k C' \<and> dm_base (fst (cl_peer C')) = (dm_base D)\<lparr>ba_fs := fs\<rparr>"
proof -
  have bo: "buf_ok (cl_send C)" "buf_ok (dm_recv D)" "buf_ok (dm_send D)" using con peer by (simp_all add: connected_def)
  let ?b = "request FLA_MSG_CMD_OBJECT_CREATE 16 (put_struct 0 16 pool_bytes p (cl_send C))"
  note parts = pool_request_parts [OF bo(1), of FLA_MSG_CMD_OBJECT_CREATE p] and h = pool_request_hdr [OF bo(1), of FLA_MSG_CMD_OBJECT_CREATE p]
  have c: "hdr_cmd ?b \<noteq> FLA_MSG_CMD_NULL" using h(1) by (simp add: cmd_defs)
  have R: "buf_ok (dm_recv (set_fs (received ?b D) fs))" using bo parts(1) by (simp add: msg_simps)
  show ?thesis
  proof (cases "err = 0")
    case True
    obtain o1 where o1: "ob = Some o1" using fla_base_object_create_some [OF base [unfolded True]] by auto
    then have "answers X (received ?b D) (set_fs (received ?b D) fs) (object_reply o1 (dm_send (received ?b D)))"
      using parts(2) base h True by (intro handlers_answer(2) [OF parts(1) bo(2,3)]) simp_all
    from object_request_serve [OF con st peer parts(1) c this R] show ?thesis using True o1
      by (auto simp: fla_daemon_object_create_rq_def)
  next
    case False
    then have "answers X (received ?b D) (set_fs (received ?b D) fs) (int_reply err (dm_send (received ?b D)))"
      using parts(2) base h by (intro handlers_answer(1) [OF parts(1) bo(2,3)]) simp_all
    from int_request_serve [OF con st peer parts(1) c this R err] show ?thesis
      using object_request_error [of "serve X" ?b C err] False by (auto simp: fla_daemon_object_create_rq_def)
  qed
qed

section \<open>Sequences of calls\<close>

text \<open>One call: the client gets what the call on the daemon's file system gives, which becomes the daemon's.\<close>

lemma do_call_remote:
  assumes con: "connected C" and st: "steady (Suc k) C" and peer: "cl_peer C = (D, s)" and alloc: "x_malloc X Malloc_pool_handle"
    and base: "do_call X (serve X) (Base_fns (dm_base D)) c = Some (err, Base_fns b', ob)" and err: "- (2 ^ 31) \<le> err" "err < 2 ^ 31"
  shows "\<exists>C'. do_call X (serve X) (Client_fns C) c = Some (err, Client_fns C', if err = 0 then ob else None)
    \<and> connected C' \<and> steady k C' \<and> dm_base (fst (cl_peer C')) = b'"
proof (cases c)
  case (Call_object_open p o1)
  then obtain fs where "fla_base_object_open X (ba_fs (dm_base D)) p o1 (ba_dev (dm_base D)) = Some (err, fs)"
    "b' = (dm_base D)\<lparr>ba_fs := fs\<rparr>" "ob = None"
    using base by (auto simp: no_object_def fla_object_open_def split: bind_splits)
  then show ?thesis using object_open_remote [OF con st peer err] Call_object_open
    by (fastforce simp: no_object_def fla_object_open_def)
next
  case (Call_object_create p)
  then obtain fs where "fla_base_object_create X (ba_fs (dm_base D)) p (ba_dev (dm_base D)) = Some (err, fs, ob)"
    "b' = (dm_base D)\<lparr>ba_fs := fs\<rparr>"
    using base by (auto simp: fla_object_create_def split: bind_splits)
  then show ?thesis using object_create_remote [OF con st peer err] Call_object_create
    by (fastforce simp: fla_object_create_def)
next
  case (Call_object_destroy p o1)
  then obtain fs d where "fla_base_object_destroy X (ba_fs (dm_base D)) p o1 (ba_dev (dm_base D)) = Some (err, fs, d)"
    "b' = (dm_base D)\<lparr>ba_fs := fs, ba_dev := d\<rparr>" "ob = None"
    using base by (auto simp: no_object_def fla_object_destroy_def split: bind_splits)
  then show ?thesis using object_destroy_remote [OF con st peer err] Call_object_destroy
    by (fastforce simp: no_object_def fla_object_destroy_def)
next
  case (Call_pool_destroy p)
  then obtain fs where "fla_base_pool_destroy (ba_fs (dm_base D)) p = Some (err, fs)" "b' = (dm_base D)\<lparr>ba_fs := fs\<rparr>" "ob = None"
    using base by (auto simp: no_object_def fla_pool_destroy_def split: bind_splits)
  then show ?thesis using pool_destroy_remote [OF con st peer err alloc] Call_pool_destroy
    by (fastforce simp: no_object_def fla_pool_destroy_def)
next
  case (Call_set_root_object p o1 act)
  then obtain fs where "fla_base_pool_set_root_object (ba_fs (dm_base D)) p o1 act = Some (err, fs)" "b' = (dm_base D)\<lparr>ba_fs := fs\<rparr>" "ob = None"
    using base by (auto simp: no_object_def fla_pool_set_root_object_def split: bind_splits)
  then show ?thesis using set_root_object_remote [where X = X, OF con st peer err] Call_set_root_object
    by (fastforce simp: no_object_def fla_pool_set_root_object_def)
qed

text \<open>The results of a sequence of calls: error codes, and the objects of calls that succeeded.\<close>

fun do_calls :: "'d xnvme \<Rightarrow> 'w peer \<Rightarrow> ('d, 'w) handle \<Rightarrow> call list \<Rightarrow> ((int \<times> fla_object option) list \<times> ('d, 'w) handle) option" where
  "do_calls X peer h [] = Some ([], h)"
| "do_calls X peer h (c # cs) = do {
     (err, h, ob) \<leftarrow> do_call X peer h c;
     (rs, h) \<leftarrow> do_calls X peer h cs;
     Some ((err, if err = 0 then ob else None) # rs, h)
   }"

lemma do_call_base: "do_call X peer (Base_fns b) c = Some (err, h, ob) \<Longrightarrow> \<exists>b'. h = Base_fns b'"
  by (cases c) (auto simp: no_object_def fla_object_open_def fla_object_create_def fla_object_destroy_def fla_pool_destroy_def
    fla_pool_set_root_object_def split: bind_splits)

text \<open>
  C6: The daemon is transparent: any sequence of calls that create, open and destroy objects, destroy
  pools and set root objects returns through a client exactly the error codes and objects that it
  returns on the file system itself, and leaves the daemon with the file system and the devices that
  it leaves there. The client's calls on its socket may be cut short or interrupted three times, the
  daemon's are not; error codes are those of a C \<open>int\<close>.
\<close>

theorem fla_daemon_transparent:
  assumes "connected C" "steady (length cs) C" "x_malloc X Malloc_pool_handle"
    "do_calls X (serve X) (Base_fns (dm_base (fst (cl_peer C)))) cs = Some (rs, Base_fns b')"
    "\<forall>r\<in>set rs. - (2 ^ 31) \<le> fst r \<and> fst r < 2 ^ 31"
  shows "\<exists>C'. do_calls X (serve X) (Client_fns C) cs = Some (rs, Client_fns C') \<and> dm_base (fst (cl_peer C')) = b' \<and> connected C'"
  using assms
proof (induction cs arbitrary: C rs)
  case (Cons c cs)
  obtain D s where peer: "cl_peer C = (D, s)" by (cases "cl_peer C")
  obtain err h ob rs1 where c: "do_call X (serve X) (Base_fns (dm_base D)) c = Some (err, h, ob)"
    "do_calls X (serve X) h cs = Some (rs1, Base_fns b')" "rs = (err, if err = 0 then ob else None) # rs1"
    using Cons.prems(4) peer by (auto split: bind_splits)
  obtain b1 where h: "h = Base_fns b1" using do_call_base c(1) by blast
  have "- (2 ^ 31) \<le> err" "err < 2 ^ 31" using Cons.prems(5) c(3) by simp_all
  then obtain C1 where C1: "do_call X (serve X) (Client_fns C) c = Some (err, Client_fns C1, if err = 0 then ob else None)"
    "connected C1" "steady (length cs) C1" "dm_base (fst (cl_peer C1)) = b1"
    using do_call_remote [OF Cons.prems(1) _ peer Cons.prems(3) c(1) [unfolded h]] Cons.prems(2) by auto
  obtain C' where "do_calls X (serve X) (Client_fns C1) cs = Some (rs1, Client_fns C')" "dm_base (fst (cl_peer C')) = b'" "connected C'"
    using Cons.IH [OF C1(2,3) Cons.prems(3), of rs1] c(2,3) h C1(4) Cons.prems(5) by auto
  then show ?case using C1(1) c(3) by auto
qed simp

text \<open>
  Setting the root object of a pool, setting it again without force, and opening an object of a slab
  that is not there; the client is interrupted once and one of its calls is cut short.
\<close>

definition ex_base :: "(xdev \<Rightarrow> nat \<Rightarrow> u8 list) base" where
  "ex_base = \<lparr>ba_fs = client_entries (fs_zero\<lparr>fs_geo := (fs_geo fs_zero)\<lparr>g_nslabs := 2\<rparr>\<rparr>)
     [pool_entry_zero\<lparr>pe_root_obj_hndl := FLA_ROOT_OBJ_NONE\<rparr>], ba_buf = [], ba_dev = (\<lambda>_ _. [])\<rparr>"

definition ex_client :: "((xdev \<Rightarrow> nat \<Rightarrow> u8 list) fla_daemon \<times> sock) fla_daemon_client" where
  "ex_client = \<lparr>cl_fs = Some fs_zero, cl_dev_uri = None, cl_md_dev_uri = None, cl_server_version = \<lparr>id_type = 0, id_version = 0\<rparr>,
     cl_open = True, cl_send = replicate 2056 0, cl_recv = replicate 2056 0,
     cl_sock = \<lparr>sk_in = [], sk_out = [], sk_errno = 0, sk_evs = Sk_intr # Sk_move 3 # replicate 9 (Sk_move 4095)\<rparr>,
     cl_peer = (ex_daemon\<lparr>dm_base := ex_base\<rparr>, \<lparr>sk_in = [], sk_out = [], sk_errno = 0, sk_evs = replicate 9 (Sk_move 4095)\<rparr>)\<rparr>"

definition ex_calls :: "call list" where
  "ex_calls = (let p = \<lparr>ph_h2 = 77, ph_ndx = 0\<rparr>; ob = \<lparr>ob_slab_id = 3, ob_entry_ndx = 5\<rparr>
     in [Call_set_root_object p ob ROOT_OBJ_SET_DEF, Call_set_root_object p ob ROOT_OBJ_SET_DEF, Call_object_open p ob])"

lemma fla_daemon_transparent_witness:
  "\<exists>C' b'. do_calls mem_xnvme (serve mem_xnvme) (Base_fns ex_base) ex_calls = Some ([(0, None), (EINVAL, None), (1, None)], Base_fns b')
    \<and> do_calls mem_xnvme (serve mem_xnvme) (Client_fns ex_client) ex_calls = Some ([(0, None), (EINVAL, None), (1, None)], Client_fns C')
    \<and> dm_base (fst (cl_peer C')) = b'"
proof -
  let ?rs = "[(0, None), (EINVAL, None), (1, None)] :: (int \<times> fla_object option) list"
  obtain b' where b': "do_calls mem_xnvme (serve mem_xnvme) (Base_fns ex_base) ex_calls = Some (?rs, Base_fns b')"
    by (simp add: ex_calls_def Let_def ex_base_def client_entries_def no_object_def fla_pool_set_root_object_def fla_object_open_def
      fla_base_pool_set_root_object_def fla_pool_lookup_root_object_def set_entry_def fs_zero_def ROOT_OBJ_SET_DEF_def
      fla_base_object_open_def fla_slab_header_ptr_def fla_slab_range_check_id_def u64_of_object_def FLA_ROOT_OBJ_NONE_def)
  have "connected ex_client" by (simp add: connected_def ex_client_def buf_ok_def idle_def ex_daemon_def FLA_MSG_BUFSIZ_def FLA_MSG_DATA_MAX_def)
  moreover have "steady (length ex_calls) ex_client"
    by (simp add: steady_def ex_client_def ex_calls_def Let_def harmless_def whole_def FLA_MSG_BUFSIZ_def FLA_MSG_DATA_MAX_def numeral_eq_Suc)
  moreover have "x_malloc mem_xnvme Malloc_pool_handle" by (simp add: mem_xnvme_def)
  moreover have "dm_base (fst (cl_peer ex_client)) = ex_base" by (simp add: ex_client_def)
  ultimately show ?thesis using fla_daemon_transparent [of ex_client ex_calls mem_xnvme ?rs b'] b' by auto
qed

section \<open>Opening a client\<close>

text \<open>The names of the devices, as strings, fit in a message with the geometry.\<close>

definition uris_ok :: "'d fla_daemon \<Rightarrow> bool" where
  "uris_ok D \<longleftrightarrow> 0 \<in> set (dm_dev_uri D) \<and> (\<forall>m. dm_md_dev_uri D = Some m \<longrightarrow> cstr m \<noteq> [])
     \<and> 65 + length (cstr (dm_dev_uri D)) + (case dm_md_dev_uri D of None \<Rightarrow> 0 | Some m \<Rightarrow> length (cstr m)) \<le> FLA_MSG_DATA_MAX"

lemma length_cstr_less: "0 \<in> set xs \<Longrightarrow> length (cstr xs) < length xs"
  by (induction xs) (auto simp: cstr_def)

lemma take_cstr: "0 \<in> set xs \<Longrightarrow> take (length (cstr xs) + 1) xs = cstr xs @ [0]"
  by (induction xs) (auto simp: cstr_def)

lemma part_received:
  assumes "msg_ok b" "buf_ok R" "off + n \<le> 8 + unat (hdr_len b)"
  shows "part off n (put 0 (msg_of b) R) = part off n b"
proof -
  have "length (msg_of b) = 8 + unat (hdr_len b)" using assms(1) by (simp add: msg_ok_def msg_of_def FLA_MSG_BUFSIZ_def)
  then show ?thesis using assms(3) by (simp add: part_def put_def) (simp add: msg_of_def take_drop min_def)
qed

lemma length_set_len: "4 \<le> length b \<Longrightarrow> length (set_len w b) = length b"
  by (simp add: set_len_def length_put)

text \<open>The answer to the request for the geometry.\<close>

lemma fs_init_reply:
  assumes "uris_ok D" "buf_ok (dm_send D)"
    and n_def: "n = length (cstr (dm_dev_uri D)) + 1"
    and m_def: "m = (case dm_md_dev_uri D of None \<Rightarrow> 0 | Some u \<Rightarrow> length (cstr u))"
  shows "\<exists>reply. (\<forall>s. fla_daemon_fs_init_rsp D s = send_reply D reply s) \<and> msg_ok reply \<and> hdr_cmd reply = hdr_cmd (dm_send D)
    \<and> unat (hdr_len reply) = 64 + n + m \<and> geo_of (part 8 48 reply) = fs_geo (ba_fs (dm_base D))
    \<and> u64_at (part 56 8 reply) 0 = of_nat n \<and> part 64 n reply = cstr (dm_dev_uri D) @ [0]
    \<and> u64_at (part (64 + n) 8 reply) 0 = of_nat m
    \<and> (\<forall>u. dm_md_dev_uri D = Some u \<longrightarrow> part (72 + n) m reply = cstr u)"
proof -
  let ?z = "put_data 0 (replicate FLA_MSG_DATA_MAX 0) (dm_send D)" and ?g = "fs_geo (ba_fs (dm_base D))"
  define U where "U = cstr (dm_dev_uri D) @ [0]"
  define M where "M = (case dm_md_dev_uri D of None \<Rightarrow> [] | Some u \<Rightarrow> cstr u)"
  define b1 where "b1 = put 8 (geo_bytes (data_part 0 48 ?z) ?g) ?z"
  define b2 where "b2 = put 56 (le64 (of_nat n)) b1"
  define b3 where "b3 = put 64 U b2"
  define b4 where "b4 = put (64 + n) (le64 (of_nat m)) b3"
  define b5 where "b5 = put (72 + n) M b4"
  define r where "r = set_len (of_nat (64 + n + m)) b5"
  have sz: "length U = n" "length M = m" "64 + n + m \<le> FLA_MSG_DATA_MAX"
    using assms(1) by (auto simp: U_def M_def n_def m_def uris_ok_def split: option.splits)
  have u: "take n (dm_dev_uri D) = U" "n \<le> length (dm_dev_uri D)"
    using assms(1) take_cstr length_cstr_less by (auto simp: n_def U_def uris_ok_def Suc_le_eq)
  have lz: "length ?z = 2056" "hdr_cmd ?z = hdr_cmd (dm_send D)"
    using assms(2) buf_ok_puts(4) [OF assms(2), of 0 "replicate FLA_MSG_DATA_MAX 0"] hdr_puts(11) [OF assms(2), of 0 "replicate FLA_MSG_DATA_MAX 0"]
    by (simp_all add: buf_ok_def FLA_MSG_BUFSIZ_def FLA_MSG_DATA_MAX_def)
  have lg: "length (geo_bytes (data_part 0 48 ?z) ?g) = 48" "geo_of (geo_bytes (data_part 0 48 ?z) ?g) = ?g"
    using lz(1) by (auto intro!: geo_c.enc_length geo_c.dec_enc simp: data_part_def length_part)
  have l1: "length b1 = 2056" unfolding b1_def using lz(1) lg(1) by (subst length_put) simp_all
  have l2: "length b2 = 2056" unfolding b2_def using l1 by (subst length_put) simp_all
  have l3: "length b3 = 2056" unfolding b3_def using l2 sz by (subst length_put) (simp_all add: FLA_MSG_DATA_MAX_def)
  have l4: "length b4 = 2056" unfolding b4_def using l3 sz by (subst length_put) (simp_all add: FLA_MSG_DATA_MAX_def)
  have l5: "length b5 = 2056" unfolding b5_def using l4 sz by (subst length_put) (simp_all add: FLA_MSG_DATA_MAX_def)
  note l = l1 l2 l3 l4 l5
  have b5: "b5 = (case dm_md_dev_uri D of None \<Rightarrow> b4 | Some u \<Rightarrow> put (72 + n) (cstr u) b4)"
    by (auto simp: b5_def M_def put_def split: option.splits)
  have run: "fla_daemon_fs_init_rsp D s = send_reply D r s" for s
  proof -
    have "put_chk 56 (le64 (of_nat n)) b1 = Some b2" "put_chk 64 U b2 = Some b3" "put_chk (64 + n) (le64 (of_nat m)) b3 = Some b4"
      "dm_md_dev_uri D = Some u \<Longrightarrow> put_chk (72 + n) (cstr u) b4 = Some b5" for u
      using l sz b5 by (auto simp: put_chk_def b2_def b3_def b4_def M_def FLA_MSG_DATA_MAX_def)
    moreover have "put_struct 0 48 geo_bytes ?g ?z = b1" by (simp add: put_struct_def put_data_def b1_def)
    ultimately show ?thesis using u b5
      unfolding fla_daemon_fs_init_rsp_def Let_def n_def [symmetric] m_def [symmetric]
      by (simp add: r_def split: option.splits)
  qed
  have pr: "part off k r = part off k b5" if "4 \<le> off" for off k
    unfolding r_def set_len_def using l5 that by (intro part_put_other) simp_all
  have bo: "buf_ok b5" using l5 by (simp add: buf_ok_def FLA_MSG_BUFSIZ_def FLA_MSG_DATA_MAX_def)
  have p: "part 8 48 r = geo_bytes (data_part 0 48 ?z) ?g" "part 56 8 r = le64 (of_nat n)" "part 64 n r = U"
    "part (64 + n) 8 r = le64 (of_nat m)" "part (72 + n) m r = M"
    using part_put_same [of 8 "geo_bytes (data_part 0 48 ?z) ?g" ?z] part_put_same [of 56 "le64 (of_nat n)" b1]
      part_put_same [of 64 U b2] part_put_same [of "64 + n" "le64 (of_nat m)" b3] part_put_same [of "72 + n" M b4] l lz(1) lg(1) sz
    by (simp_all add: pr b5_def part_put_other b4_def b3_def b2_def b1_def length_put FLA_MSG_DATA_MAX_def)
  have "part 4 2 r = part 4 2 ?z"
    using l lz(1) lg(1) sz by (simp add: pr b5_def part_put_other b4_def b3_def b2_def b1_def length_put FLA_MSG_DATA_MAX_def)
  moreover have len: "length r = 2056" using l5 by (simp add: r_def length_set_len)
  ultimately have c: "hdr_cmd r = hdr_cmd (dm_send D)" using lz by (simp add: hdr_parts(2))
  have h: "unat (hdr_len r) = 64 + n + m"
    using hdr_puts(1) [OF bo] sz(3) unat_of_nat_small [of "64 + n + m", where 'a = 32] by (simp add: r_def FLA_MSG_DATA_MAX_def)
  have "msg_ok r" using h sz(3) len by (simp add: msg_ok_def FLA_MSG_BUFSIZ_def FLA_MSG_DATA_MAX_def)
  moreover have "M = cstr u" if "dm_md_dev_uri D = Some u" for u using that by (simp add: M_def)
  ultimately show ?thesis
    using run c h p lg(2) by (intro exI [of _ r]) (simp add: U_def u64_at_le [of _ "[]", simplified])
qed

text \<open>Two requests one after the other, the first for the identity.\<close>

lemma identify_remote:
  assumes "connected C" "steady (Suc k) C" "cl_peer C = (D, s)"
  shows "\<exists>C' D' s'. fla_daemon_identify_rq (serve X) C = Some (0, C') \<and> connected C' \<and> steady k C' \<and> cl_peer C' = (D', s')
    \<and> dm_base D' = dm_base D \<and> dm_dev_uri D' = dm_dev_uri D \<and> dm_md_dev_uri D' = dm_md_dev_uri D
    \<and> cl_server_version C' = dm_identity D \<and> cl_fs C' = cl_fs C"
proof -
  let ?b = "request FLA_MSG_CMD_IDENTIFY 0 (cl_send C)" and ?C = "C\<lparr>cl_send := request FLA_MSG_CMD_IDENTIFY 0 (cl_send C)\<rparr>"
  have bo: "buf_ok (cl_send C)" "buf_ok (cl_recv C)" "buf_ok (dm_recv D)" "buf_ok (dm_send D)" using assms(1,3) by (simp_all add: connected_def)
  have ok: "msg_ok ?b" "hdr_cmd ?b = FLA_MSG_CMD_IDENTIFY" using bo(1) by (simp_all add: msg_ok_iff msg_simps)
  let ?D = "received ?b D"
  let ?S = "dm_send ?D"
  let ?r = "set_len 8 (put_struct 0 8 identity_bytes (dm_identity D) ?S)"
  have S: "buf_ok ?S" "hdr_cmd ?S = hdr_cmd ?b" using bo ok(1) by (simp_all add: msg_simps)
  have P: "buf_ok (put_struct 0 8 identity_bytes (dm_identity D) ?S)"
    unfolding put_struct_def by (rule buf_ok_puts(4) [OF S(1)]) (simp add: identity_bytes_def FLA_MSG_DATA_MAX_def)
  have r: "msg_ok ?r" "hdr_len ?r = 8" "hdr_cmd ?r = hdr_cmd ?b" "identity_of (data_part 0 8 ?r) = dm_identity D"
    using P S unfolding msg_ok_iff
    by (simp_all add: msg_simps FLA_MSG_DATA_MAX_def put_struct_def identity_bytes_def identity_of_def field_at)
  have "answers X ?D ?D ?r"
    using ok bo by (simp add: rsp_defs cmd_defs msg_simps fla_daemon_identify_rsp_def) (simp add: received_def)
  then obtain cs ds where a: "fla_send_recv (serve X) ?C = Some (0, answered ?C ?D ?r ds cs)" "connected (answered ?C ?D ?r ds cs)"
    "steady k (answered ?C ?D ?r ds cs)"
    using send_recv_serve [of ?C k D s X ?D ?r] assms ok bo r by (auto simp: connected_def steady_def msg_ok_iff msg_simps cmd_defs)
  moreover have "identity_of (data_part 0 8 (cl_recv (answered ?C ?D ?r ds cs))) = dm_identity D"
    using r bo(2) by (simp add: answered_def msg_simps)
  ultimately show ?thesis
    by (simp add: fla_daemon_identify_rq_def connected_def steady_def) (simp add: answered_def received_def)
qed

lemma cstr_app: "0 \<notin> set xs \<Longrightarrow> cstr (xs @ 0 # ys) = xs"
  by (induction xs) (auto simp: cstr_def)

text \<open>The environment that \<open>fla_daemon_open\<close> needs on the side of the client.\<close>

definition client_env :: "'d xnvme \<Rightarrow> bool" where
  "client_env X \<longleftrightarrow> x_malloc X Malloc_fs \<and> x_malloc X Malloc_dev_uri \<and> x_malloc X Malloc_md_dev_uri
     \<and> x_malloc X Malloc_client_entries \<and> x_dev_open X Data_dev \<and> x_dev_open X Md_dev"

lemma u64_at_part: "u64_at (part off 8 b) 0 = u64_at b off" if "off + 8 \<le> length b"
  using that u64_at_append [of "take off b" "drop off b" 0] by (simp add: part_def) (simp add: u64_at_def u32_at_def)

lemma fs_init_open_ok:
  assumes "client_env X"
  shows "\<exists>fs'. fs_init_open X md fs C = (0, C\<lparr>cl_fs := Some fs'\<rparr>) \<and> fs_geo fs' = fs_geo fs
    \<and> length (po_entries (fs_pools fs')) = unat (g_npools (fs_geo fs))"
  using assms
  by (intro exI [of _ "client_entries (fs\<lparr>fs_dev := (fs_dev fs)\<lparr>dv_md_dev := md\<rparr>\<rparr>) (replicate (unat (g_npools (fs_geo fs))) pool_entry_zero)"])
    (simp add: fs_init_open_def client_env_def fla_xne_dev_open_def client_entries_def)

text \<open>The exchange, and what the client finds in its buffer.\<close>

lemma fs_init_exchange:
  assumes "connected C" "steady (Suc k) C" "cl_peer C = (D, s)" "uris_ok D"
    and n_def: "n = length (cstr (dm_dev_uri D)) + 1"
    and m_def: "m = (case dm_md_dev_uri D of None \<Rightarrow> 0 | Some u \<Rightarrow> length (cstr u))"
  defines "zero \<equiv> put_data 0 (replicate FLA_MSG_DATA_MAX 0)"
  shows "\<exists>A. fla_send_recv (serve X) (C\<lparr>cl_send := request FLA_MSG_CMD_INIT_INFO 0 (zero (cl_send C)), cl_recv := zero (cl_recv C)\<rparr>) = Some (0, A)
    \<and> connected A \<and> steady k A \<and> dm_base (fst (cl_peer A)) = dm_base D \<and> cl_server_version A = cl_server_version C
    \<and> n + m \<le> 1984 \<and> geo_of (data_part 0 48 (cl_recv A)) = fs_geo (ba_fs (dm_base D))
    \<and> get_u64 56 (cl_recv A) = Some (of_nat n) \<and> fla_strndup True (drop 64 (cl_recv A)) n = Some (Some (cstr (dm_dev_uri D) @ [0, 0]))
    \<and> get_u64 (64 + n) (cl_recv A) = Some (of_nat m)
    \<and> (\<forall>u. dm_md_dev_uri D = Some u \<longrightarrow> fla_strndup True (drop (72 + n) (cl_recv A)) m = Some (Some (cstr u @ [0])))"
proof -
  let ?b = "request FLA_MSG_CMD_INIT_INFO 0 (zero (cl_send C))"
  let ?C = "C\<lparr>cl_send := ?b, cl_recv := zero (cl_recv C)\<rparr>"
  have bo: "buf_ok (zero (cl_send C))" "buf_ok (zero (cl_recv C))" "buf_ok (dm_recv D)" "buf_ok (dm_send D)"
    using assms(1,3) by (simp_all add: connected_def msg_simps zero_def)
  have ok: "msg_ok ?b" "hdr_cmd ?b = FLA_MSG_CMD_INIT_INFO" using bo(1) by (simp_all add: msg_ok_iff msg_simps)
  let ?D = "received ?b D"
  have D: "uris_ok ?D" "buf_ok (dm_send ?D)" "hdr_cmd (dm_send ?D) = hdr_cmd ?b" "dm_dev_uri ?D = dm_dev_uri D" "dm_md_dev_uri ?D = dm_md_dev_uri D"
    using assms(4) bo ok(1) by (simp_all add: msg_simps) (simp_all add: received_def uris_ok_def)
  obtain r where r: "\<And>s. fla_daemon_fs_init_rsp ?D s = send_reply ?D r s" "msg_ok r" "hdr_cmd r = hdr_cmd ?b" "unat (hdr_len r) = 64 + n + m"
    "geo_of (part 8 48 r) = fs_geo (ba_fs (dm_base D))" "u64_at (part 56 8 r) 0 = of_nat n" "part 64 n r = cstr (dm_dev_uri D) @ [0]"
    "u64_at (part (64 + n) 8 r) 0 = of_nat m" "\<And>u. dm_md_dev_uri D = Some u \<Longrightarrow> part (72 + n) m r = cstr u"
    using fs_init_reply [OF D(1,2), of n m] D(3-5) n_def m_def by auto
  have "answers X ?D ?D r" using r(1) ok bo by (simp add: rsp_defs cmd_defs msg_simps)
  then obtain cs ds where a: "fla_send_recv (serve X) ?C = Some (0, answered ?C ?D r ds cs)" "connected (answered ?C ?D r ds cs)"
    "steady k (answered ?C ?D r ds cs)"
    using send_recv_serve [of ?C k D s X ?D r] assms(1-3) ok bo r(2,3) by (auto simp: connected_def steady_def msg_ok_iff msg_simps cmd_defs)
  let ?A = "answered ?C ?D r ds cs"
  let ?R = "cl_recv ?A"
  have pR: "part off j ?R = part off j r" if "off + j \<le> 72 + n + m" for off j
    using part_received [OF r(2) bo(2), of off j] that r(4) by (simp add: answered_def)
  have lR: "length ?R = 2056" using a(2) by (simp add: connected_def buf_ok_def FLA_MSG_BUFSIZ_def FLA_MSG_DATA_MAX_def)
  have sz: "n + m \<le> 1984" using r(2,4) by (simp add: msg_ok_def FLA_MSG_DATA_MAX_def)
  have g: "get_u64 56 ?R = Some (of_nat n)" "get_u64 (64 + n) ?R = Some (of_nat m)" "geo_of (data_part 0 48 ?R) = fs_geo (ba_fs (dm_base D))"
    using lR sz r(5,6,8) pR [of 56 8] pR [of "64 + n" 8] pR [of 8 48] u64_at_part [of 56 ?R] u64_at_part [of "64 + n" ?R]
    by (simp_all add: get_u64_def data_part_def)
  have "fla_strndup True (drop 64 ?R) n = Some (Some (cstr (dm_dev_uri D) @ [0, 0]))"
    "\<forall>u. dm_md_dev_uri D = Some u \<longrightarrow> fla_strndup True (drop (72 + n) ?R) m = Some (Some (cstr u @ [0]))"
    using lR sz r(7,9) pR [of 64 n] pR [of "72 + n" m] by (auto simp: fla_strndup_def part_def)
  moreover have "dm_base (fst (cl_peer ?A)) = dm_base D" "cl_server_version ?A = cl_server_version C" by (simp_all add: answered_def)
  ultimately show ?thesis using a sz g by blast
qed

lemma fs_init_remote:
  assumes "connected C" "steady (Suc k) C" "cl_peer C = (D, s)" "uris_ok D" "client_env X" "cl_fs C = Some fs"
  shows "\<exists>C' fs'. fla_daemon_fs_init_rq X (serve X) C = Some (0, C') \<and> connected C' \<and> steady k C' \<and> cl_fs C' = Some fs'
    \<and> fs_geo fs' = fs_geo (ba_fs (dm_base D)) \<and> dm_base (fst (cl_peer C')) = dm_base D
    \<and> length (po_entries (fs_pools fs')) = unat (g_npools (fs_geo fs'))
    \<and> map_option cstr (cl_dev_uri C') = Some (cstr (dm_dev_uri D))
    \<and> map_option cstr (cl_md_dev_uri C') = map_option cstr (dm_md_dev_uri D)
    \<and> cl_server_version C' = cl_server_version C"
proof -
  define n where "n = length (cstr (dm_dev_uri D)) + 1"
  define m where "m = (case dm_md_dev_uri D of None \<Rightarrow> 0 | Some u \<Rightarrow> length (cstr u))"
  let ?uri = "cstr (dm_dev_uri D) @ [0, 0]"
  note ex = fs_init_exchange [OF assms(1-4) n_def m_def, of X]
  then obtain A where a: "fla_send_recv (serve X) (C\<lparr>cl_send := request FLA_MSG_CMD_INIT_INFO 0 (put_data 0 (replicate FLA_MSG_DATA_MAX 0) (cl_send C)),
      cl_recv := put_data 0 (replicate FLA_MSG_DATA_MAX 0) (cl_recv C)\<rparr>) = Some (0, A)"
    "connected A" "steady k A" "dm_base (fst (cl_peer A)) = dm_base D" "cl_server_version A = cl_server_version C" "n + m \<le> 1984"
    and g: "geo_of (data_part 0 48 (cl_recv A)) = fs_geo (ba_fs (dm_base D))" "get_u64 56 (cl_recv A) = Some (of_nat n)"
    "fla_strndup True (drop 64 (cl_recv A)) n = Some (Some ?uri)" "get_u64 (64 + n) (cl_recv A) = Some (of_nat m)"
    "\<And>u. dm_md_dev_uri D = Some u \<Longrightarrow> fla_strndup True (drop (72 + n) (cl_recv A)) m = Some (Some (cstr u @ [0]))" by blast
  have un: "unat (of_nat n :: u64) = n" "unat (of_nat m :: u64) = m" using a(6) by (simp_all add: unat_of_nat_small)
  define geo where "geo = geo_of (data_part 0 48 (cl_recv A))"
  define fs1 where "fs1 = fs\<lparr>fs_geo := geo, fs_dev := (fs_dev fs)\<lparr>dv_lb_nbytes := g_lb_nbytes geo\<rparr>\<rparr>"
  have env: "x_malloc X Malloc_dev_uri" "x_malloc X Malloc_md_dev_uri" using assms(5) by (simp_all add: client_env_def)
  have "\<exists>md uri. fla_daemon_fs_init_rq X (serve X) C = Some (fs_init_open X md fs1 (A\<lparr>cl_dev_uri := Some ?uri, cl_md_dev_uri := uri\<rparr>))
    \<and> map_option cstr uri = map_option cstr (dm_md_dev_uri D)"
  proof (cases "dm_md_dev_uri D")
    case None
    then show ?thesis using a(1) g(2-4) un assms(6) env m_def
      by (intro exI [of _ False] exI [of _ None]) (simp add: fla_daemon_fs_init_rq_def Let_def fs1_def geo_def)
  next
    case (Some u)
    then have "of_nat m \<noteq> (0 :: u64)" using assms(4) un(2) by (auto simp: m_def uris_ok_def)
    then show ?thesis using a(1) g(2-4) g(5) [OF Some] un Some assms(6) env
      by (intro exI [of _ True] exI [of _ "Some (cstr u @ [0])"])
        (simp add: fla_daemon_fs_init_rq_def Let_def fs1_def geo_def cstr_app cstr_no_zero)
  qed
  then obtain md uri where run: "map_option cstr uri = map_option cstr (dm_md_dev_uri D)"
    "fla_daemon_fs_init_rq X (serve X) C = Some (fs_init_open X md fs1 (A\<lparr>cl_dev_uri := Some ?uri, cl_md_dev_uri := uri\<rparr>))" by blast
  let ?A = "A\<lparr>cl_dev_uri := Some ?uri, cl_md_dev_uri := uri\<rparr>"
  obtain fs' where fs': "fs_init_open X md fs1 ?A = (0, ?A\<lparr>cl_fs := Some fs'\<rparr>)" "fs_geo fs' = fs_geo fs1"
    "length (po_entries (fs_pools fs')) = unat (g_npools (fs_geo fs1))"
    using fs_init_open_ok [OF assms(5)] by blast
  have "connected (?A\<lparr>cl_fs := Some fs'\<rparr>)" "steady k (?A\<lparr>cl_fs := Some fs'\<rparr>)" using a(2,3) by (simp_all add: connected_def steady_def)
  then show ?thesis using run fs' g(1) a(4,5)
    by (intro exI [of _ "?A\<lparr>cl_fs := Some fs'\<rparr>"] exI [of _ fs']) (simp add: fs1_def geo_def cstr_app cstr_no_zero)
qed

text \<open>
  C39: A client that opens its connection to the daemon sees the daemon's file system: \<open>fla_daemon_open\<close>
  returns 0, the client has the geometry, the names of the devices and the identity of the daemon
  and room for an entry of every pool, the daemon's file system is untouched, and the connection is
  ready for calls. This is for names that fit in a message and enough memory.
\<close>

theorem fla_daemon_open_sees:
  assumes "connected (C\<lparr>cl_sock := s\<rparr>)" "steady (k + 2) (C\<lparr>cl_sock := s\<rparr>)" "cl_peer C = (D, t)" "uris_ok D" "client_env X"
    "0 \<le> fd" "length (cstr socket_path) \<le> 107"
  shows "\<exists>C' fs'. fla_daemon_open X (serve X) socket_path fd 0 s C = Some (0, C') \<and> cl_fs C' = Some fs'
    \<and> fs_geo fs' = fs_geo (ba_fs (dm_base D)) \<and> length (po_entries (fs_pools fs')) = unat (g_npools (fs_geo fs'))
    \<and> map_option cstr (cl_dev_uri C') = Some (cstr (dm_dev_uri D))
    \<and> map_option cstr (cl_md_dev_uri C') = map_option cstr (dm_md_dev_uri D) \<and> cl_server_version C' = dm_identity D
    \<and> dm_base (fst (cl_peer C')) = dm_base D \<and> connected C' \<and> steady k C'"
proof -
  let ?C = "C\<lparr>cl_sock := s, cl_open := True, cl_fs := Some fs_zero\<rparr>"
  have "connected ?C" "steady (Suc (Suc k)) ?C" "cl_peer ?C = (D, t)"
    using assms(1-3) by (simp_all add: connected_def steady_def)
  from identify_remote [OF this, of X] obtain C1 D1 t1 where c1: "fla_daemon_identify_rq (serve X) ?C = Some (0, C1)" "connected C1"
    "steady (Suc k) C1" "cl_peer C1 = (D1, t1)" "dm_base D1 = dm_base D" "dm_dev_uri D1 = dm_dev_uri D" "dm_md_dev_uri D1 = dm_md_dev_uri D"
    "cl_server_version C1 = dm_identity D" "cl_fs C1 = Some fs_zero" by auto
  have "uris_ok D1" using assms(4) c1(6,7) by (simp add: uris_ok_def)
  from fs_init_remote [OF c1(2-4) this assms(5) c1(9)] obtain C' fs' where c2: "fla_daemon_fs_init_rq X (serve X) C1 = Some (0, C')"
    "cl_fs C' = Some fs'" "fs_geo fs' = fs_geo (ba_fs (dm_base D))" "length (po_entries (fs_pools fs')) = unat (g_npools (fs_geo fs'))"
    "map_option cstr (cl_dev_uri C') = Some (cstr (dm_dev_uri D))" "map_option cstr (cl_md_dev_uri C') = map_option cstr (dm_md_dev_uri D)"
    "cl_server_version C' = dm_identity D" "dm_base (fst (cl_peer C')) = dm_base D" "connected C'" "steady k C'"
    using c1(5-8) by auto
  have "fla_fs_alloc (x_malloc X Malloc_fs) = Some fs_zero" "fst (fla_sock_sockaddr_init socket_path) = 0"
    using assms(5,7) by (simp_all add: client_env_def fla_fs_alloc_def fla_sock_sockaddr_init_def)
  then have "fla_daemon_open X (serve X) socket_path fd 0 s C = Some (0, C')"
    using assms(6) c1(1) c2(1) by (simp add: fla_daemon_open_def)
  then show ?thesis using c2 by blast
qed

lemma fla_daemon_open_sees_witness:
  "\<exists>C' fs'. fla_daemon_open mem_xnvme (serve mem_xnvme) [47, 116, 0] 5 0 (cl_sock ex_client) ex_client = Some (0, C') \<and> cl_fs C' = Some fs'
    \<and> g_nslabs (fs_geo fs') = 2 \<and> map_option cstr (cl_dev_uri C') = Some [47]
    \<and> cl_server_version C' = \<lparr>id_type = 1000, id_version = 1\<rparr> \<and> connected C' \<and> steady 1 C'"
proof -
  have "connected (ex_client\<lparr>cl_sock := cl_sock ex_client\<rparr>)"
    by (simp add: connected_def ex_client_def buf_ok_def idle_def ex_daemon_def FLA_MSG_BUFSIZ_def FLA_MSG_DATA_MAX_def)
  moreover have "steady (1 + 2) (ex_client\<lparr>cl_sock := cl_sock ex_client\<rparr>)"
    by (simp add: steady_def ex_client_def harmless_def whole_def FLA_MSG_BUFSIZ_def FLA_MSG_DATA_MAX_def numeral_eq_Suc)
  moreover have "cl_peer ex_client = (ex_daemon\<lparr>dm_base := ex_base\<rparr>, snd (cl_peer ex_client))" by (simp add: ex_client_def)
  moreover have "uris_ok (ex_daemon\<lparr>dm_base := ex_base\<rparr>)"
    by (simp add: uris_ok_def ex_daemon_def cstr_def FLA_MSG_DATA_MAX_def)
  moreover have "client_env mem_xnvme" by (simp add: client_env_def mem_xnvme_def)
  ultimately have "\<exists>C' fs'. fla_daemon_open mem_xnvme (serve mem_xnvme) [47, 116, 0] 5 0 (cl_sock ex_client) ex_client = Some (0, C') \<and> cl_fs C' = Some fs'
    \<and> fs_geo fs' = fs_geo (ba_fs ex_base) \<and> map_option cstr (cl_dev_uri C') = Some (cstr (dm_dev_uri ex_daemon))
    \<and> cl_server_version C' = dm_identity ex_daemon \<and> connected C' \<and> steady 1 C'"
    using fla_daemon_open_sees [where C = ex_client and s = "cl_sock ex_client" and k = 1 and D = "ex_daemon\<lparr>dm_base := ex_base\<rparr>"
      and t = "snd (cl_peer ex_client)" and X = mem_xnvme and fd = 5 and socket_path = "[47, 116, 0]"]
    by (auto simp: cstr_def)
  then show ?thesis by (auto simp: ex_base_def client_entries_def ex_daemon_def cstr_def)
qed

section \<open>Where the daemon is not transparent\<close>

text \<open>Opening a pool that exists makes the daemon store through a null pointer.\<close>

lemma pool_open_rsp_crash:
  assumes "buf_ok (dm_recv D)" "unat (hdr_len (dm_recv D)) < FLA_MSG_DATA_MAX"
    "htbl_lookup (po_htbl (fs_pools (ba_fs (dm_base D)))) (drop 8 (put (8 + unat (hdr_len (dm_recv D))) [0] (dm_recv D))) = Some (Some k)"
  shows "fla_daemon_pool_open_rsp D s = None"
  using assms by (simp add: fla_daemon_pool_open_rsp_def put_chk_def buf_ok_def FLA_MSG_BUFSIZ_def)

text \<open>A synchronisation that fails in the daemon returns 0 to the client.\<close>

lemma sync_error_lost:
  assumes "connected C" "steady (Suc k) C" "cl_peer C = (D, s)"
    "fla_base_sync X (ba_fs (dm_base D)) (ba_buf (dm_base D)) (ba_dev (dm_base D)) = Some (err, fs, d)"
  shows "\<exists>C'. fla_daemon_sync_rq (serve X) C = Some (0, C') \<and> dm_base (fst (cl_peer C')) = (dm_base D)\<lparr>ba_fs := fs, ba_dev := d\<rparr>"
proof -
  let ?b = "request FLA_MSG_CMD_SYNC 0 (cl_send C)"
  have bo: "buf_ok (cl_send C)" "buf_ok (dm_recv D)" "buf_ok (dm_send D)" using assms(1,3) by (simp_all add: connected_def)
  have ok: "msg_ok ?b" "hdr_cmd ?b = FLA_MSG_CMD_SYNC" using bo(1) by (simp_all add: msg_ok_iff msg_simps)
  let ?D = "received ?b D"
  have S: "buf_ok (dm_send ?D)" "hdr_cmd (dm_send ?D) = hdr_cmd ?b" "buf_ok (dm_recv ?D)" using bo ok(1) by (simp_all add: msg_simps)
  have ans: "answers X ?D (set_dev (set_fs ?D fs) d) (int_reply err (dm_send ?D))"
    using ok bo assms(4) by (simp add: rsp_defs cmd_defs msg_simps fla_daemon_sync_rsp_def)
  let ?C = "C\<lparr>cl_send := ?b\<rparr>"
  have "connected ?C" "steady (Suc k) ?C" "cl_peer ?C = (D, s)" "msg_ok (cl_send ?C)" "hdr_cmd (cl_send ?C) \<noteq> FLA_MSG_CMD_NULL"
    using assms(1-3) ok by (simp_all add: connected_def steady_def msg_ok_iff cmd_defs)
  from send_recv_serve [OF this, of X "set_dev (set_fs ?D fs) d" "int_reply err (dm_send ?D)"] obtain cs ds where
    "fla_send_recv (serve X) ?C = Some (0, answered ?C (set_dev (set_fs ?D fs) d) (int_reply err (dm_send ?D)) ds cs)"
    using ans S int_reply_ok(1,2) [OF S(1), of err] by auto
  then show ?thesis by (simp add: fla_daemon_sync_rq_def) (simp add: answered_def)
qed

text \<open>A request for a root object that is not there is answered with the error code of an earlier answer.\<close>

lemma get_root_object_error_lost:
  assumes "fla_base_pool_get_root_object (ba_fs (dm_base D)) (pool_of (data_part 0 16 (dm_recv D))) = Some (err, ob)" "err \<noteq> 0"
  shows "fla_daemon_pool_get_root_object_rsp D s = send_reply D (set_len 4 (dm_send D)) s"
    and "buf_ok (dm_send D) \<Longrightarrow> get_int (set_len 4 (dm_send D)) = get_int (dm_send D)"
  using assms by (simp_all add: fla_daemon_pool_get_root_object_rsp_def get_int_def msg_simps)

text \<open>A client that cannot get the identity of the server is closed, and 0 returned.\<close>

lemma open_identify_error_lost:
  assumes "fla_daemon_identify_rq peer (C\<lparr>cl_sock := s, cl_open := True, cl_fs := Some fs_zero\<rparr>) = Some (err, C1)" "err \<noteq> 0"
    "x_malloc X Malloc_fs" "0 \<le> fd" "length (cstr socket_path) \<le> 107"
  shows "\<exists>C'. fla_daemon_open X peer socket_path fd 0 s C = Some (0, C') \<and> cl_fs C' = None"
  using assms by (simp add: fla_daemon_open_def fla_sock_sockaddr_init_def fla_fs_alloc_def close_client_def)

text \<open>The request to create a pool carries the length of the request before it.\<close>

lemma pool_create_length:
  assumes "x_malloc X Malloc_pool_handle" "0 \<le> pa_name_len a" "nat (pa_name_len a) \<le> length (pa_name a)" "pa_name_len a < 112" "buf_ok (cl_send C)"
  shows "\<exists>b. fla_daemon_pool_create_rq X peer a C = pool_request X peer b C \<and> hdr_len b = hdr_len (cl_send C)"
proof -
  let ?b1 = "put_struct 0 32 create_arg_bytes a (cl_send C)"
  let ?n = "take (nat (pa_name_len a)) (pa_name a)"
  have l: "length (create_arg_bytes (data_part 0 32 (cl_send C)) a) = 32"
    using length_data_part [OF assms(5), of 0 32] by (simp add: create_arg_bytes_def FLA_MSG_DATA_MAX_def)
  have b1: "buf_ok ?b1" "hdr_len ?b1 = hdr_len (cl_send C)"
    using assms(5) l by (simp_all add: put_struct_def msg_simps FLA_MSG_DATA_MAX_def)
  have n: "32 + length ?n \<le> FLA_MSG_DATA_MAX" using assms(4) by (simp add: FLA_MSG_DATA_MAX_def)
  then have "put_chk 40 ?n ?b1 = Some (put_data 32 ?n ?b1)"
    using b1(1) by (simp add: put_chk_def put_data_def buf_ok_def FLA_MSG_BUFSIZ_def FLA_MSG_DATA_MAX_def)
  then have "fla_daemon_pool_create_rq X peer a C = pool_request X peer (set_cmd FLA_MSG_CMD_POOL_CREATE (put_data 32 ?n ?b1)) C"
    using assms(1-3) by (simp add: fla_daemon_pool_create_rq_def)
  moreover have "hdr_len (set_cmd FLA_MSG_CMD_POOL_CREATE (put_data 32 ?n ?b1)) = hdr_len (cl_send C)"
    using b1 n by (simp add: msg_simps)
  ultimately show ?thesis by blast
qed

end
