(* ===== verification/Fla_Introspection.thy ===== *)
theory Fla_Introspection
  imports Fla_Life
begin

text \<open>
  The checks of \<open>src/src/flexalloc_introspection.c\<close> on an open file system: whether the freelist and
  the hash table of the pools agree, whether the entries of the hash table name pool entries that fit
  them, and whether the pointers into the metadata buffer are as far apart as the geometry says. The
  pointers are the offsets of \<open>Fla_Layout\<close>. The printing of an entry is left out.
\<close>

section \<open>The checks\<close>

text \<open>
  \<open>__flist_bit_reserved\<close>: the loop stops at 32 or below, so that for the first bit of a word after
  the first the shift is by 32, which is undefined.
\<close>

fun flist_bit_reserved_from :: "freelist \<Rightarrow> nat \<Rightarrow> nat \<Rightarrow> bool option" where
  "flist_bit_reserved_from flist start ndx =
     (if ndx > 32 then flist_bit_reserved_from flist (Suc start) (ndx - 32)
      else do {
        w \<leftarrow> rd flist start;
        if ndx = 32 then None else Some (\<not> bit w ndx)
      })"

definition flist_bit_reserved :: "freelist \<Rightarrow> u32 \<Rightarrow> bool option" where
  "flist_bit_reserved flist ndx = flist_bit_reserved_from flist 1 (unat ndx)"

fun count_reserved :: "fla_htbl_entry list \<Rightarrow> u32 \<Rightarrow> u32" where
  "count_reserved [] num_reserved = num_reserved"
| "count_reserved (entry # es) num_reserved =
     count_reserved es (if he_h2 entry \<noteq> FLA_HTBL_ENTRY_UNSET then num_reserved + 1 else num_reserved)"

text \<open>The entries from \<open>tbl\<close> to \<open>tbl + tbl_size\<close>; reading behind the table has no result.\<close>

definition htbl_range :: "fla_htbl \<Rightarrow> fla_htbl_entry list option" where
  "htbl_range htbl = do {
     T \<leftarrow> ht_tbl htbl;
     if length T < unat (ht_tbl_size htbl) then None else Some (take (unat (ht_tbl_size htbl)) T)
   }"

definition pool_htbl_num_reserved :: "flexalloc \<Rightarrow> u32 option" where
  "pool_htbl_num_reserved fs = do {
     T \<leftarrow> htbl_range (po_htbl (fs_pools fs));
     Some (count_reserved T 0)
   }"

text \<open>The super block is at the head of the buffer.\<close>

definition off_super :: nat where "off_super = 0"

definition mdr_ptr_check_super_offset :: int where
  "mdr_ptr_check_super_offset = c_bool (\<not> off_super = 0)"

text \<open>The distances between the pointers; the products are of 32 bits.\<close>

definition md_ptr_check_super_size :: "fla_geo \<Rightarrow> int" where
  "md_ptr_check_super_size geo = c_bool (int (off_freelist geo) - int off_super \<noteq> uint (g_md_nlb geo * g_lb_nbytes geo))"

definition md_ptr_check_pool_freelist_size :: "fla_geo \<Rightarrow> int" where
  "md_ptr_check_pool_freelist_size geo =
     c_bool (int (off_htbl_header geo) - int (off_freelist geo) \<noteq> uint (gp_freelist_nlb (g_pool_sgmt geo) * g_lb_nbytes geo))"

definition md_ptr_check_pool_htbl_size :: "fla_geo \<Rightarrow> int" where
  "md_ptr_check_pool_htbl_size geo =
     c_bool (int (off_entries geo) - int (off_htbl_header geo) \<noteq> uint (gp_htbl_nlb (g_pool_sgmt geo) * g_lb_nbytes geo))"

definition md_ptr_check_pool_entries_size :: "fla_geo \<Rightarrow> int" where
  "md_ptr_check_pool_entries_size geo =
     c_bool (int (off_headers geo) - int (off_entries geo) \<noteq> uint (gp_entries_nlb (g_pool_sgmt geo) * g_lb_nbytes geo))"

definition POOLS_SUPER_FLIST_DISCREPANCY :: u32 where "POOLS_SUPER_FLIST_DISCREPANCY = 1"
definition POOLS_FLIST_HTBL_RESERVED_DISCREPANCY :: u32 where "POOLS_FLIST_HTBL_RESERVED_DISCREPANCY = 2"
definition POOL_ENTRY_NO_FLIST_ENTRY :: u32 where "POOL_ENTRY_NO_FLIST_ENTRY = 1"
definition POOL_ENTRY_HTBL_VAL_OUT_OF_BOUNDS :: u32 where "POOL_ENTRY_HTBL_VAL_OUT_OF_BOUNDS = 2"
definition POOL_ENTRY_NAME_UNSET :: u32 where "POOL_ENTRY_NAME_UNSET = 4"
definition POOL_ENTRY_NAME_NO_NULLTERM :: u32 where "POOL_ENTRY_NAME_NO_NULLTERM = 8"
definition POOL_ENTRY_H2_DISCREPANCY :: u32 where "POOL_ENTRY_H2_DISCREPANCY = 16"
definition POOL_ENTRY_INVALID_OBJ_SIZE :: u32 where "POOL_ENTRY_INVALID_OBJ_SIZE = 32"

lemmas check_flags = POOLS_SUPER_FLIST_DISCREPANCY_def POOLS_FLIST_HTBL_RESERVED_DISCREPANCY_def POOL_ENTRY_NO_FLIST_ENTRY_def
  POOL_ENTRY_HTBL_VAL_OUT_OF_BOUNDS_def POOL_ENTRY_NAME_UNSET_def POOL_ENTRY_NAME_NO_NULLTERM_def POOL_ENTRY_H2_DISCREPANCY_def
  POOL_ENTRY_INVALID_OBJ_SIZE_def

text \<open>
  The body of the loop of \<open>check_pool_entries\<close> for an entry that is set; the second value is whether
  the function leaves the loop at once. \<open>err\<close> is 0 at the start.
\<close>

definition flag :: "bool \<Rightarrow> u32 \<Rightarrow> u32" where
  "flag b w = (if b then w else 0)"

definition check_entry :: "flexalloc \<Rightarrow> u32 \<Rightarrow> fla_htbl_entry \<Rightarrow> (u32 \<times> bool) option" where
  "check_entry fs npools entry = do {
     reserved \<leftarrow> flist_bit_reserved (po_freelist (fs_pools fs)) (he_val entry);
     let err = flag (\<not> reserved) POOL_ENTRY_NO_FLIST_ENTRY;
     if he_val entry \<ge> npools then Some (err OR POOL_ENTRY_HTBL_VAL_OUT_OF_BOUNDS, True)
     else do {
       pool_entry \<leftarrow> rd (po_entries (fs_pools fs)) (unat (he_val entry));
       c \<leftarrow> rd (pe_name pool_entry) 0;
       let err = err OR flag (c = 0) POOL_ENTRY_NAME_UNSET;
       len \<leftarrow> fla_strnlen (pe_name pool_entry) FLA_NAME_SIZE_POOL;
       let err = err OR flag (len = FLA_NAME_SIZE_POOL) POOL_ENTRY_NAME_NO_NULLTERM;
       let err = err OR flag (err AND POOL_ENTRY_NAME_UNSET \<noteq> 0 \<or> err AND POOL_ENTRY_NAME_NO_NULLTERM \<noteq> 0
         \<or> FLA_HTBL_H2 (pe_name pool_entry) \<noteq> he_h2 entry) POOL_ENTRY_H2_DISCREPANCY;
       let err = err OR flag (pe_obj_nlb pool_entry = 0) POOL_ENTRY_INVALID_OBJ_SIZE;
       let err = err OR flag (pe_obj_nlb pool_entry = 10) POOL_ENTRY_INVALID_OBJ_SIZE;
       Some (err, False)
     }
   }"

text \<open>The loop, with \<open>delta\<close>; the entry is counted before the condition sees the error, unless the loop is left.\<close>

fun check_entries :: "flexalloc \<Rightarrow> u32 \<Rightarrow> fla_htbl_entry list \<Rightarrow> u32 \<Rightarrow> (u32 \<times> u32) option" where
  "check_entries fs npools [] delta = Some (0, delta)"
| "check_entries fs npools (entry # es) delta =
     (if he_h2 entry = FLA_HTBL_ENTRY_UNSET then check_entries fs npools es (delta + 1)
      else do {
        (err, leave) \<leftarrow> check_entry fs npools entry;
        if leave then Some (err, delta)
        else if err \<noteq> 0 then Some (err, delta + 1)
        else check_entries fs npools es (delta + 1)
      })"

text \<open>An offset behind the table lets the loop run past its end.\<close>

definition check_pool_entries :: "flexalloc \<Rightarrow> u32 \<Rightarrow> (u32 \<times> u32) option" where
  "check_pool_entries fs offset = do {
     T \<leftarrow> htbl_range (po_htbl (fs_pools fs));
     npools \<leftarrow> fla_flist_len (po_freelist (fs_pools fs));
     if length T < unat offset then None
     else do {
       (err, delta) \<leftarrow> check_entries fs npools (drop (unat offset) T) 0;
       Some (err, if err \<noteq> 0 then offset + (delta - 1) else 0)
     }
   }"

definition check_pools_num_entries :: "flexalloc \<Rightarrow> u32 option" where
  "check_pools_num_entries fs = do {
     flist_reserved \<leftarrow> fla_flist_num_reserved (po_freelist (fs_pools fs));
     flist_len \<leftarrow> fla_flist_len (po_freelist (fs_pools fs));
     T \<leftarrow> htbl_range (po_htbl (fs_pools fs));
     let err = flag (su_npools (fs_super fs) \<noteq> flist_len) POOLS_SUPER_FLIST_DISCREPANCY;
     let htbl_reserved = count_reserved T 0;
     Some (err OR flag (flist_reserved \<noteq> htbl_reserved) POOLS_FLIST_HTBL_RESERVED_DISCREPANCY)
   }"

declare flist_bit_reserved_from.simps [simp del]

section \<open>Counting\<close>

lemma htbl_range_inv:
  assumes "htbl_inv hm H" "ht_tbl H = Some T"
  shows "htbl_range H = Some T"
  using assms(1) by (rule htbl_invE) (use assms(2) in \<open>simp add: htbl_range_def\<close>)

lemma dir_range:
  assumes "dir_inv hm fs" "ht_tbl (po_htbl (fs_pools fs)) = Some T"
  shows "htbl_range (po_htbl (fs_pools fs)) = Some T"
  using htbl_range_inv [OF _ assms(2), of hm] assms(1) unfolding dir_inv_def by blast

lemma count_reserved_eq: "count_reserved T w = w + of_nat (length (filter occ T))"
  by (induction T arbitrary: w) simp_all

lemma dir_count:
  assumes "dir_inv hm fs" "ht_tbl (po_htbl (fs_pools fs)) = Some T"
  shows "length (filter occ T) = flist_cap (po_freelist (fs_pools fs)) - card (flist_free (po_freelist (fs_pools fs)))"
proof -
  let ?H = "po_htbl (fs_pools fs)" and ?f = "po_freelist (fs_pools fs)" and ?v = "pool_names fs"
  have d: "htbl_inv hm ?H" "flist_cap ?f = length (entries fs)" "inj_on ?v (dom ?v)" "unat ` ran ?v = {..<length (entries fs)} - flist_free ?f"
    using assms(1) by (simp_all add: dir_inv_def)
  from d(1) obtain T' where T': "ht_tbl ?H = Some T'" "rh_uniq T'" "?v = rh_map T'" by (rule htbl_invE)
  then have T: "rh_uniq T" "?v = rh_map T" using assms(2) by simp_all
  have "ran ?v = (\<lambda>k. the (?v k)) ` dom ?v" by (force simp: ran_def dom_def image_iff)
  moreover have "inj_on (\<lambda>k. the (?v k)) (dom ?v)" using d(3) by (auto simp: inj_on_def dom_def)
  ultimately have "card (ran ?v) = card (dom ?v)" by (simp add: card_image)
  moreover have "card (unat ` ran ?v) = card (ran ?v)" by (rule card_image) (simp add: inj_on_def)
  ultimately have "card ({..<length (entries fs)} - flist_free ?f) = card (dom (rh_map T))" using d(4) T(2) by simp
  moreover have "flist_free ?f \<subseteq> {..<length (entries fs)}" using d(2) by (auto simp: flist_free_def)
  moreover have "card {i. i < length T \<and> occ (T ! i)} = length (filter occ T)" by (simp add: length_filter_conv_card)
  ultimately show ?thesis using rh_count_dom [OF T(1)] d(2) by (simp add: card_Diff_subset finite_subset [OF _ finite_lessThan])
qed

text \<open>The distances between the pointers, for metadata smaller than 4 GiB.\<close>

lemma md_ptr_checks:
  assumes "geo_ok X dev geo" "media X blk dev"
  shows "md_ptr_check_super_size geo = 0" "md_ptr_check_pool_freelist_size geo = 0" "md_ptr_check_pool_htbl_size geo = 0"
    "md_ptr_check_pool_entries_size geo = 0"
proof -
  let ?L = "unat (g_lb_nbytes geo)" and ?m = "unat (g_md_nlb geo)"
  let ?f = "unat (gp_freelist_nlb (g_pool_sgmt geo))" and ?h = "unat (gp_htbl_nlb (g_pool_sgmt geo))"
    and ?e = "unat (gp_entries_nlb (g_pool_sgmt geo))" and ?s = "unat (gs_slab_sgmt_nlb (g_slab_sgmt geo))"
  have g: "geo_fits geo" "512 \<le> ?L" "md_blocks geo * ?L < 2 ^ 32" using assms by (auto simp: geo_ok_def media_def)
  have sroom: "12 \<le> ?s * ?L"
    using slab_sgmt_room [of "g_lb_nbytes geo" "g_nslabs geo"] g(1,2) by (simp add: geo_fits_def fla_geo_slab_sgmt_calc_def)
  have n: "unat (g_npools geo) < 2 ^ 31" using g(1) by (simp add: geo_fits_def)
  have sg: "g_pool_sgmt geo = fla_geo_pool_sgmt_calc (g_npools geo) (g_lb_nbytes geo)" using g(1) by (simp add: geo_fits_def)
  note P = pool_sgmt_parts [OF g(2) n, folded sg]
  have mb: "md_blocks geo = ?m + ?f + ?h + ?e + ?s"
    using pool_sgmt_calc_nat(1) [OF g(2) n] P by (simp add: sg pool_blocks_def md_blocks_def fla_geo_slab_sgmt_nblocks_def)
  have "0 < ?L" using g(2) by simp
  note offs = md_offsets [of geo, folded mb, OF g(3) this sroom]
  have w: "uint (k * g_lb_nbytes geo) = int (unat k * ?L)" if "unat k \<le> md_blocks geo" for k
  proof -
    have "unat k * ?L < 2 ^ 32" using mult_le_mono1 [OF that, of ?L] g(3) by (rule le_less_trans)
    then have "unat (k * g_lb_nbytes geo) = unat k * ?L" by (intro unat_mult_no_wrap) simp
    then show ?thesis by (metis uint_nat)
  qed
  have "?m \<le> md_blocks geo" "?f \<le> md_blocks geo" "?h \<le> md_blocks geo" "?e \<le> md_blocks geo" unfolding mb by simp_all
  note w = this [THEN w]
  have diff: "int ((a + b) * c) - int (a * c) = int (b * c)" for a b c by (simp add: add_mult_distrib)
  show "md_ptr_check_super_size geo = 0" unfolding md_ptr_check_super_size_def offs(1) w off_super_def by simp
  show "md_ptr_check_pool_freelist_size geo = 0" unfolding md_ptr_check_pool_freelist_size_def offs(1,2) w diff by simp
  show "md_ptr_check_pool_htbl_size geo = 0" unfolding md_ptr_check_pool_htbl_size_def offs(2,3) w diff by simp
  show "md_ptr_check_pool_entries_size geo = 0" unfolding md_ptr_check_pool_entries_size_def offs(3,4) w diff by simp
qed

lemma introspection_run:
  assumes "media X blk (cache_dev fs)" "mounted X fs buf" "dir_inv hm fs"
  shows "check_pools_num_entries fs = Some 0 \<and> (\<exists>n. pool_htbl_num_reserved fs = Some n \<and> unat n = card (dom (pool_names fs)))
    \<and> md_ptr_check_super_size (fs_geo fs) = 0 \<and> md_ptr_check_pool_freelist_size (fs_geo fs) = 0
    \<and> md_ptr_check_pool_htbl_size (fs_geo fs) = 0 \<and> md_ptr_check_pool_entries_size (fs_geo fs) = 0"
proof -
  let ?f = "po_freelist (fs_pools fs)"
  have m: "flist_inv ?f" "flist_cap ?f = unat (g_npools (fs_geo fs))" "geo_ok X (cache_dev fs) (fs_geo fs)"
    "fla_geo_from_super (x_geo X Data_dev) (fs_super fs) = fs_geo fs"
    using assms(2) by (simp_all add: mounted_def)
  from assms(3) have "htbl_inv hm (po_htbl (fs_pools fs))" by (simp add: dir_inv_def)
  then obtain T where T: "ht_tbl (po_htbl (fs_pools fs)) = Some T" "rh_table hm T" "rh_uniq T" "pool_names fs = rh_map T"
    by (rule htbl_invE)
  have "su_npools (fs_super fs) = g_npools (fs_geo fs)" unfolding m(4) [symmetric] by (simp add: fla_geo_from_super_def Let_def)
  then have np: "su_npools (fs_super fs) = ?f ! 0" using m(2) by (simp only: word_unat_eq_iff flist_cap_def)
  have "length ?f \<noteq> 0" using m(1) by (auto simp: flist_inv_def)
  then have len: "fla_flist_len ?f = Some (?f ! 0)" by (simp add: fla_flist_len_def)
  have cnt: "count_reserved T 0 = of_nat (length (filter occ T))" by (simp add: count_reserved_eq)
  have "fla_flist_num_reserved ?f = Some (of_nat (length (filter occ T)))"
    using fla_flist_num_reserved_eq [OF m(1)] dir_count [OF assms(3) T(1)] by simp
  then have "check_pools_num_entries fs = Some 0" using dir_range [OF assms(3) T(1)] np len cnt by (simp add: check_pools_num_entries_def flag_def)
  moreover have "length (filter occ T) \<le> 2 ^ 16"
    by (rule le_trans [OF length_filter_le]) (use T(2) in \<open>simp add: rh_table_def\<close>)
  then have "unat (of_nat (length (filter occ T)) :: u32) = card (dom (pool_names fs))"
    using rh_count_dom [OF T(3)] T(4) by (simp add: unat_of_nat_small length_filter_conv_card)
  then have "\<exists>n. pool_htbl_num_reserved fs = Some n \<and> unat n = card (dom (pool_names fs))"
    using dir_range [OF assms(3) T(1)] cnt by (simp add: pool_htbl_num_reserved_def)
  ultimately show ?thesis using md_ptr_checks [OF m(3) assms(1)] by blast
qed

section \<open>The check of the entries\<close>

text \<open>What is wrong with an entry whose index is in range.\<close>

definition entry_faults :: "flexalloc \<Rightarrow> fla_htbl_entry \<Rightarrow> u32" where
  "entry_faults fs e =
     (let pe = entries fs ! unat (he_val e); no_name = (pe_name pe ! 0 = 0); no_end = (0 \<notin> set (pe_name pe))
      in flag (unat (he_val e) \<in> flist_free (po_freelist (fs_pools fs))) POOL_ENTRY_NO_FLIST_ENTRY
         OR flag no_name POOL_ENTRY_NAME_UNSET OR flag no_end POOL_ENTRY_NAME_NO_NULLTERM
         OR flag (no_name \<or> no_end \<or> FLA_HTBL_H2 (pe_name pe) \<noteq> he_h2 e) POOL_ENTRY_H2_DISCREPANCY
         OR flag (pe_obj_nlb pe = 0 \<or> pe_obj_nlb pe = 10) POOL_ENTRY_INVALID_OBJ_SIZE)"

text \<open>An entry without fault.\<close>

definition entry_fits :: "flexalloc \<Rightarrow> fla_htbl_entry \<Rightarrow> bool" where
  "entry_fits fs e \<longleftrightarrow> (let pe = entries fs ! unat (he_val e)
     in unat (he_val e) \<notin> flist_free (po_freelist (fs_pools fs)) \<and> pe_name pe ! 0 \<noteq> 0 \<and> 0 \<in> set (pe_name pe)
       \<and> FLA_HTBL_H2 (pe_name pe) = he_h2 e \<and> pe_obj_nlb pe \<noteq> 0 \<and> pe_obj_nlb pe \<noteq> 10)"

lemma entry_faults_zero: "entry_faults fs e = 0 \<longleftrightarrow> entry_fits fs e"
  by (simp add: entry_faults_def entry_fits_def Let_def check_flags flag_def)

lemma strnlen_max: "length s = n \<Longrightarrow> fla_strnlen s n = Some (length (cstr s))"
  using fla_strnlen_from_eq [of 0 n s] by (simp add: fla_strnlen_def cstr_def)

lemma length_cstr_eq: "length (cstr s) = length s \<longleftrightarrow> 0 \<notin> set s"
  by (induction s) (auto simp: cstr_def length_takeWhile_le Suc_le_eq le_less_trans)

lemma flag_and:
  "(flag a 1 OR flag b 4) AND 4 \<noteq> 0 \<longleftrightarrow> b" "(flag a 1 OR flag b 4 OR flag c 8) AND 4 \<noteq> 0 \<longleftrightarrow> b"
  "(flag a 1 OR flag b 4 OR flag c 8) AND 8 \<noteq> 0 \<longleftrightarrow> c"
  by (simp_all add: flag_def)

lemma check_entry_spec:
  assumes "dir_inv hm fs" "length (entries fs) \<le> 32" "unat (he_val e) < length (entries fs)"
    "fla_flist_len (po_freelist (fs_pools fs)) = Some npools"
  shows "check_entry fs npools e = Some (entry_faults fs e, False)"
proof -
  let ?f = "po_freelist (fs_pools fs)" and ?i = "unat (he_val e)"
  let ?pe = "entries fs ! ?i"
  have d: "flist_inv ?f" "flist_cap ?f = length (entries fs)" "length (pe_name ?pe) = FLA_NAME_SIZE_POOL"
    using assms(1,3) by (simp_all add: dir_inv_def)
  have i: "?i < 32" using assms(2,3) by simp
  have "1 < length ?f" using d(1) by (auto simp: flist_inv_def)
  then have "flist_bit_reserved ?f (he_val e) = Some (\<not> bit (?f ! 1) ?i)"
    using i by (simp add: flist_bit_reserved_def flist_bit_reserved_from.simps [of _ _ "?i"])
  moreover have "bit (?f ! 1) ?i \<longleftrightarrow> ?i \<in> flist_free ?f" using i d(2) assms(3) by (simp add: flist_free_def fbit_def)
  moreover have "rd ?f 0 = Some (?f ! 0)" using \<open>1 < length ?f\<close> by (intro rd_in) linarith
  then have "npools = ?f ! 0" using assms(4) by (simp add: fla_flist_len_def)
  then have "\<not> npools \<le> he_val e" using assms(3) d(2) by (simp add: flist_cap_def word_le_nat_alt)
  moreover have "fla_strnlen (pe_name ?pe) FLA_NAME_SIZE_POOL = Some (length (cstr (pe_name ?pe)))" by (rule strnlen_max [OF d(3)])
  moreover have "length (cstr (pe_name ?pe)) = FLA_NAME_SIZE_POOL \<longleftrightarrow> 0 \<notin> set (pe_name ?pe)" using length_cstr_eq [of "pe_name ?pe"] d(3) by simp
  moreover have "rd (pe_name ?pe) 0 = Some (pe_name ?pe ! 0)" using d(3) by (simp add: FLA_NAME_SIZE_POOL_def)
  ultimately show ?thesis using assms(3)
    by (simp add: check_entry_def entry_faults_def Let_def check_flags flag_and) (simp add: flag_def)
qed

lemma check_entries_spec:
  assumes "\<And>e. e \<in> set es \<Longrightarrow> occ e \<Longrightarrow> check_entry fs npools e = Some (entry_faults fs e, False)"
  defines "bad \<equiv> \<lambda>e. occ e \<and> entry_faults fs e \<noteq> 0"
  shows "check_entries fs npools es delta = Some (
    if \<exists>e\<in>set es. bad e then (entry_faults fs (es ! length (takeWhile (\<lambda>e. \<not> bad e) es)), delta + of_nat (length (takeWhile (\<lambda>e. \<not> bad e) es)) + 1)
    else (0, delta + of_nat (length es)))"
  using assms(1)
proof (induction es arbitrary: delta)
  case (Cons e es)
  have IH: "check_entries fs npools es (delta + 1) = Some (
    if \<exists>e\<in>set es. bad e then (entry_faults fs (es ! length (takeWhile (\<lambda>e. \<not> bad e) es)), delta + 1 + of_nat (length (takeWhile (\<lambda>e. \<not> bad e) es)) + 1)
    else (0, delta + 1 + of_nat (length es)))" using Cons by simp
  show ?case
  proof (cases "bad e")
    case True
    then show ?thesis using Cons.prems [of e] by (simp add: bad_def)
  next
    case False
    then have "check_entries fs npools (e # es) delta = check_entries fs npools es (delta + 1)"
      using Cons.prems [of e] by (auto simp: bad_def)
    then show ?thesis using IH False by (simp add: algebra_simps)
  qed
qed simp

definition bad_entry :: "flexalloc \<Rightarrow> fla_htbl_entry list \<Rightarrow> u32 \<Rightarrow> nat \<Rightarrow> bool" where
  "bad_entry fs T offset i \<longleftrightarrow> i < length T \<and> unat offset \<le> i \<and> occ (T ! i) \<and> entry_faults fs (T ! i) \<noteq> 0"

lemma first_bad_holds: "\<exists>e\<in>set es. P e \<Longrightarrow> P (es ! length (takeWhile (\<lambda>e. \<not> P e) es))"
  by (induction es) auto

lemma first_bad:
  assumes "i < length es" "P (es ! i)" "\<And>j. j < i \<Longrightarrow> \<not> P (es ! j)"
  shows "length (takeWhile (\<lambda>e. \<not> P e) es) = i"
proof (rule antisym)
  show "i \<le> length (takeWhile (\<lambda>e. \<not> P e) es)" using assms(1,3) by (intro length_takeWhile_less_P_nth) simp_all
  show "length (takeWhile (\<lambda>e. \<not> P e) es) \<le> i"
  proof (rule ccontr)
    assume "\<not> ?thesis"
    then have "es ! i \<in> set (takeWhile (\<lambda>e. \<not> P e) es)" by (metis not_le nth_mem takeWhile_nth)
    then show False using assms(2) by (auto dest: set_takeWhileD)
  qed
qed

text \<open>
  For a consistent directory of at most 32 pools the check of the entries finds the first entry of
  the hash table at or behind the given offset that does not fit its pool entry, and returns what is
  wrong with it and its index; when all entries fit it returns 0 and sets the offset to 0. An entry
  fits when its pool is taken in the freelist and has a terminated name that is not empty, whose
  hash is the entry's, and an object size other than 0 and 10.
\<close>

theorem check_pool_entries_first:
  assumes "dir_inv hm fs" "length (entries fs) \<le> 32" "ht_tbl (po_htbl (fs_pools fs)) = Some T" "unat offset \<le> length T"
  shows "((\<forall>i. \<not> bad_entry fs T offset i) \<longrightarrow> check_pool_entries fs offset = Some (0, 0))
    \<and> (\<forall>i. bad_entry fs T offset i \<and> (\<forall>j<i. \<not> bad_entry fs T offset j)
          \<longrightarrow> check_pool_entries fs offset = Some (entry_faults fs (T ! i), of_nat i))"
proof -
  let ?f = "po_freelist (fs_pools fs)" and ?o = "unat offset"
  let ?es = "drop ?o T" and ?b = "\<lambda>e. occ e \<and> entry_faults fs e \<noteq> 0"
  have d: "flist_inv ?f" "htbl_inv hm (po_htbl (fs_pools fs))" using assms(1) by (simp_all add: dir_inv_def)
  have "0 < length ?f" using d(1) by (auto simp: flist_inv_def)
  then have len: "fla_flist_len ?f = Some (?f ! 0)" by (simp add: fla_flist_len_def)
  obtain T' where "ht_tbl (po_htbl (fs_pools fs)) = Some T'" "rh_uniq T'" "pool_names fs = rh_map T'"
    using d(2) by (rule htbl_invE)
  then have T: "rh_uniq T" "pool_names fs = rh_map T" using assms(3) by simp_all
  have "unat (he_val e) < length (entries fs)" if "e \<in> set T" "occ e" for e
  proof -
    from that have "rh_map T (he_h2 e) = Some (he_val e)" using rh_map_Some [OF T(1)] by (auto simp: in_set_conv_nth)
    then have "he_val e \<in> ran (pool_names fs)" unfolding T(2) by (rule ranI)
    then show ?thesis using assms(1) unfolding dir_inv_def by blast
  qed
  then have "check_entry fs (?f ! 0) e = Some (entry_faults fs e, False)" if "e \<in> set ?es" "occ e" for e
    using that in_set_dropD [of e ?o T] by (intro check_entry_spec [OF assms(1,2) _ len]) auto
  note ok = this
  let ?k = "length (takeWhile (\<lambda>e. \<not> ?b e) ?es)"
  have spec: "check_entries fs (?f ! 0) ?es 0 = Some (if \<exists>e\<in>set ?es. ?b e then (entry_faults fs (?es ! ?k), 0 + of_nat ?k + 1)
    else (0, 0 + of_nat (length ?es)))"
    by (rule check_entries_spec) (use ok in blast)
  have run: "check_pool_entries fs offset = Some (if \<exists>e\<in>set ?es. ?b e then (entry_faults fs (T ! (?o + ?k)), of_nat (?o + ?k)) else (0, 0))"
  proof (cases "\<exists>e\<in>set ?es. ?b e")
    case True
    then have "?b (?es ! ?k)" by (rule first_bad_holds)
    moreover have "?es ! ?k = T ! (?o + ?k)" using assms(4) by simp
    ultimately show ?thesis using True spec dir_range [OF assms(1,3)] assms(4) len by (simp add: check_pool_entries_def)
  next
    case False
    then have "check_entries fs (?f ! 0) ?es 0 = Some (0, of_nat (length ?es))" using spec by (simp only: if_False add_0)
    then show ?thesis using False dir_range [OF assms(1,3)] assms(4) len by (simp only: check_pool_entries_def) simp
  qed
  have "check_pool_entries fs offset = Some (0, 0)" if "\<forall>i. \<not> bad_entry fs T offset i"
  proof -
    have "\<not> ?b e" if "e \<in> set ?es" for e
    proof -
      obtain j where "j < length ?es" "e = ?es ! j" using \<open>e \<in> set ?es\<close> by (auto simp: in_set_conv_nth)
      then show ?thesis using \<open>\<forall>i. \<not> bad_entry fs T offset i\<close> [rule_format, of "?o + j"] by (simp add: bad_entry_def)
    qed
    then show ?thesis unfolding run by auto
  qed
  moreover have "check_pool_entries fs offset = Some (entry_faults fs (T ! i), of_nat i)"
    if i: "bad_entry fs T offset i" "\<forall>j<i. \<not> bad_entry fs T offset j" for i
  proof -
    have o: "?o \<le> i" "i < length T" "?b (T ! i)" using i(1) by (simp_all add: bad_entry_def)
    then have "i - ?o < length ?es" "?b (?es ! (i - ?o))" by simp_all
    moreover have "\<not> ?b (?es ! j)" if "j < i - ?o" for j
      using i(2) [rule_format, of "?o + j"] that o(2) by (auto simp: bad_entry_def)
    ultimately have "?k = i - ?o" by (rule first_bad)
    moreover have "\<exists>e\<in>set ?es. ?b e" using \<open>i - ?o < length ?es\<close> \<open>?b (?es ! (i - ?o))\<close> nth_mem by blast
    ultimately show ?thesis unfolding run using o(1) by simp
  qed
  ultimately show ?thesis by blast
qed

lemma check_pool_entries_clean:
  assumes "dir_inv hm fs" "length (entries fs) \<le> 32" "ht_tbl (po_htbl (fs_pools fs)) = Some T"
  shows "check_pool_entries fs 0 = Some (0, 0) \<longleftrightarrow> (\<forall>e\<in>set T. occ e \<longrightarrow> entry_faults fs e = 0)"
proof (cases "\<exists>i. bad_entry fs T 0 i")
  case True
  define i where "i = (LEAST i. bad_entry fs T 0 i)"
  have i: "bad_entry fs T 0 i" "\<forall>j<i. \<not> bad_entry fs T 0 j"
    using True LeastI_ex not_less_Least unfolding i_def by blast+
  then have "check_pool_entries fs 0 = Some (entry_faults fs (T ! i), of_nat i)"
    using check_pool_entries_first [OF assms, of 0] by simp
  moreover have "i < length T" "occ (T ! i)" "entry_faults fs (T ! i) \<noteq> 0" using i(1) by (simp_all add: bad_entry_def)
  ultimately show ?thesis using nth_mem by fastforce
next
  case False
  then have "check_pool_entries fs 0 = Some (0, 0)" using check_pool_entries_first [OF assms, of 0] by simp
  moreover have "\<forall>e\<in>set T. occ e \<longrightarrow> entry_faults fs e = 0" using False by (auto simp: bad_entry_def in_set_conv_nth)
  ultimately show ?thesis by blast
qed

text \<open>
  C40: On every open file system whose directory is consistent the checks of the counts and of the
  pointers find nothing: freelist and hash table hold the same number of pools, which is the number of
  bound names, the super block has the length of the freelist and is at the start of the buffer, and all
  distances between the pointers into the metadata are those of the geometry. The check of the single
  entries is stricter than consistency. With at most 32 pools it finds nothing exactly when every entry
  names a taken pool with a terminated name that is not empty and has the hash of the entry, and with an
  object size other than 0 and 10; for more pools it can have no result.
\<close>

theorem introspection_accepts:
  assumes "media X blk (cache_dev fs)" "mounted X fs buf" "dir_inv hm fs"
  shows "check_pools_num_entries fs = Some 0 \<and> (\<exists>n. pool_htbl_num_reserved fs = Some n \<and> unat n = card (dom (pool_names fs)))
    \<and> mdr_ptr_check_super_offset = 0
    \<and> md_ptr_check_super_size (fs_geo fs) = 0 \<and> md_ptr_check_pool_freelist_size (fs_geo fs) = 0
    \<and> md_ptr_check_pool_htbl_size (fs_geo fs) = 0 \<and> md_ptr_check_pool_entries_size (fs_geo fs) = 0
    \<and> (length (entries fs) \<le> 32 \<longrightarrow> (\<exists>T. ht_tbl (po_htbl (fs_pools fs)) = Some T
         \<and> (check_pool_entries fs 0 = Some (0, 0) \<longleftrightarrow> (\<forall>e\<in>set T. occ e \<longrightarrow> entry_fits fs e))))"
proof -
  from assms(3) have "htbl_inv hm (po_htbl (fs_pools fs))" by (simp add: dir_inv_def)
  then obtain T where T: "ht_tbl (po_htbl (fs_pools fs)) = Some T" by (rule htbl_invE)
  have "check_pool_entries fs 0 = Some (0, 0) \<longleftrightarrow> (\<forall>e\<in>set T. occ e \<longrightarrow> entry_fits fs e)" if "length (entries fs) \<le> 32"
    using check_pool_entries_clean [OF assms(3) that T] by (simp add: entry_faults_zero)
  then show ?thesis using introspection_run [OF assms] T by (auto simp: mdr_ptr_check_super_offset_def off_super_def)
qed

theorem introspection_accepts_witness:
  "\<exists>fs buf. mounted mem_xnvme fs buf \<and> dom (pool_names fs) \<noteq> {} \<and> check_pools_num_entries fs = Some 0 \<and> md_ptr_check_super_size (fs_geo fs) = 0"
proof -
  from first_pool_run [OF mem_media mem_works mem_plain mkfs_example_geo life_example(4,5,1-3), of "\<lambda>_ _. []"] obtain hm buf fs where
    f: "mounted mem_xnvme fs buf" "dir_inv hm fs" "0 \<notin> flist_free (po_freelist (fs_pools fs))" by blast
  have "flist_inv (po_freelist (fs_pools fs))" "flist_cap (po_freelist (fs_pools fs)) = length (entries fs)"
    "unat ` ran (pool_names fs) = {..<length (entries fs)} - flist_free (po_freelist (fs_pools fs))"
    using f(2) by (simp_all add: dir_inv_def)
  then have "0 \<in> unat ` ran (pool_names fs)" using f(3) by (simp add: flist_inv_def)
  then have "dom (pool_names fs) \<noteq> {}" by (auto simp: ran_def)
  moreover have "media mem_xnvme mem_blk (cache_dev fs)" by (rule mem_media)
  ultimately show ?thesis using introspection_accepts [OF _ f(1,2)] f(1) by blast
qed

text \<open>A directory of two pools with one entry in the hash table, whose pool entry was never filled.\<close>

definition tbl_example :: "fla_htbl_entry list" where
  "tbl_example = [htbl_unset_entry, \<lparr>he_h2 = 5, he_val = 0, he_psl = 0\<rparr>, htbl_unset_entry, htbl_unset_entry]"

definition unnamed_example :: flexalloc where
  "unnamed_example = cache_example\<lparr>fs_pools := \<lparr>po_freelist = [2, 2],
     po_htbl = \<lparr>ht_tbl = Some tbl_example, ht_tbl_size = 4, ht_len = 1, ht_stat_insert_calls = 0, ht_stat_insert_failed = 0, ht_stat_insert_tries = 0\<rparr>,
     po_htbl_hdr = \<lparr>hh_size = 4, hh_len = 1\<rparr>, po_entries = replicate 2 pool_entry_zero, po_funcs = replicate 2 None\<rparr>\<rparr>"

lemma unnamed_example_free: "flist_free [2, 2] = {1}" "flist_inv [2, 2]"
proof -
  have two: "bit (2 :: u32) i \<longleftrightarrow> i = 1" for i using bit_exp_iff [of 1 i, where 'a = "32 word"] by (auto simp: possible_bit_word)
  have "flist_cap [2, 2] = 2" by (simp add: flist_cap_def)
  moreover have "fbit [2, 2] i \<longleftrightarrow> i = 1" if "i < 32" for i using that two [of i] by (simp add: fbit_def)
  ultimately show "flist_free [2, 2] = {1}" "flist_inv [2, 2]" by (auto simp: flist_free_def flist_inv_def)
qed

lemma unnamed_example_inv: "dir_inv (\<lambda>_. 1) unnamed_example"
proof -
  have map: "rh_map tbl_example = [5 \<mapsto> 0]" by (simp add: rh_map_def tbl_example_def htbl_unset_entry_def FLA_HTBL_ENTRY_UNSET_def)
  have nth: "tbl_example ! 0 = htbl_unset_entry" "tbl_example ! 1 = \<lparr>he_h2 = 5, he_val = 0, he_psl = 0\<rparr>"
    "tbl_example ! 2 = htbl_unset_entry" "tbl_example ! 3 = htbl_unset_entry" "length tbl_example = 4"
    "tbl_example ! Suc 0 = \<lparr>he_h2 = 5, he_val = 0, he_psl = 0\<rparr>" "tbl_example ! Suc (Suc 0) = htbl_unset_entry" by (simp_all add: tbl_example_def)
  have four: "i < 4 \<longleftrightarrow> i = 0 \<or> i = 1 \<or> i = 2 \<or> i = (3 :: nat)" for i by auto
  have "rh_ord tbl_example" "rh_at (\<lambda>_. 1) tbl_example" "rh_uniq tbl_example" "rh_unset tbl_example"
    unfolding rh_ord_def rh_at_def rh_uniq_def rh_unset_def nth(5) four
    by (auto simp: nth rank_def nxt_def ring_dist_def htbl_unset_entry_def FLA_HTBL_ENTRY_UNSET_def)
  then have "rh_table (\<lambda>_. 1) tbl_example" by (simp add: rh_table_def nth(5))
  then have "htbl_inv (\<lambda>_. 1) (po_htbl (fs_pools unnamed_example))"
    using map by (simp add: htbl_inv_def unnamed_example_def) (simp add: tbl_example_def)
  moreover have "{..<2} - {1} = {0 :: nat}" by auto
  ultimately show ?thesis using unnamed_example_free map
    by (simp add: dir_inv_def) (simp add: unnamed_example_def htbl_view_def flist_cap_def pool_entry_zero_def)
qed

theorem check_pool_entries_first_witness:
  "entry_faults unnamed_example (tbl_example ! 1) = POOL_ENTRY_NAME_UNSET OR POOL_ENTRY_H2_DISCREPANCY OR POOL_ENTRY_INVALID_OBJ_SIZE
    \<and> check_pool_entries unnamed_example 0 = Some (entry_faults unnamed_example (tbl_example ! 1), 1)
    \<and> check_pool_entries unnamed_example 2 = Some (0, 0)"
proof -
  have f: "entry_faults unnamed_example (tbl_example ! 1) = POOL_ENTRY_NAME_UNSET OR POOL_ENTRY_H2_DISCREPANCY OR POOL_ENTRY_INVALID_OBJ_SIZE"
    by (simp add: entry_faults_def unnamed_example_def tbl_example_def unnamed_example_free pool_entry_zero_def check_flags flag_def FLA_NAME_SIZE_POOL_def)
  have bad: "bad_entry unnamed_example tbl_example w i \<longleftrightarrow> unat w \<le> i \<and> i = 1" for w i
    using f by (auto simp: bad_entry_def tbl_example_def htbl_unset_entry_def check_flags FLA_HTBL_ENTRY_UNSET_def nth_Cons' split: if_splits)
  have T: "length (entries unnamed_example) \<le> 32" "ht_tbl (po_htbl (fs_pools unnamed_example)) = Some tbl_example" "length tbl_example = 4"
    by (simp_all add: unnamed_example_def tbl_example_def)
  note c = check_pool_entries_first [OF unnamed_example_inv T(1,2)]
  show ?thesis using f c [of 0] c [of 2] T(3) by (simp add: bad)
qed

text \<open>
  When the function leaves the loop for an index out of range, the entry is not counted and the
  offset returned is one too low; for the first entry of the table it wraps around.
\<close>

lemma check_pool_entries_offset_wraps:
  assumes "htbl_range (po_htbl (fs_pools fs)) = Some (e # T)" "occ e" "fla_flist_len (po_freelist (fs_pools fs)) = Some npools"
    "npools \<le> he_val e" "flist_bit_reserved (po_freelist (fs_pools fs)) (he_val e) = Some True"
  shows "check_pool_entries fs 0 = Some (POOL_ENTRY_HTBL_VAL_OUT_OF_BOUNDS, 0xFFFFFFFF)"
  using assms by (simp add: check_pool_entries_def check_entry_def flag_def POOL_ENTRY_HTBL_VAL_OUT_OF_BOUNDS_def)

end
