(* ===== verification/Fla_Args.thy ===== *)
theory Fla_Args
  imports Fla_Prelude
begin

text \<open>
  The command lines of the programs: \<open>src/src/flexalloc_cli_common.c\<close> and what the programs use of the
  C library, \<open>getopt_long\<close> with its rearrangement of the arguments and \<open>strtol\<close> with base 0. Strings
  are lists of characters.
\<close>

abbreviation path_bytes :: "string \<Rightarrow> u8 list" where
  "path_bytes \<equiv> map of_char"

section \<open>Options\<close>

datatype has_arg = No_argument | Required_argument | Optional_argument

text \<open>An option with its description; the end of the list stands for the entry without a name.\<close>

record cli_option =
  co_name :: string
  co_has_arg :: has_arg
  co_val :: char
  co_description :: string
  co_arg_ex :: "string option"

text \<open>The buffer has 384 bytes; \<open>sprintf\<close> prints a null pointer as \<open>(null)\<close>.\<close>

definition fmt_arg :: "cli_option \<Rightarrow> string option" where
  "fmt_arg opt =
     (let buf = (if co_has_arg opt \<noteq> No_argument
                 then ''--'' @ co_name opt @ ''='' @ (case co_arg_ex opt of None \<Rightarrow> ''(null)'' | Some ex \<Rightarrow> ex)
                 else ''--'' @ co_name opt)
      in if length buf < 384 then Some buf else None)"

fun longest_arg :: "cli_option list \<Rightarrow> nat \<Rightarrow> nat option" where
  "longest_arg [] longest = Some longest"
| "longest_arg (opt # opts) longest = do {
     buf \<leftarrow> fmt_arg opt;
     longest_arg opts (if length buf > longest then length buf else longest)
   }"

fun option_lines :: "cli_option list \<Rightarrow> nat \<Rightarrow> string option" where
  "option_lines [] longest = Some []"
| "option_lines (opt # opts) longest = do {
     buf \<leftarrow> fmt_arg opt;
     ls \<leftarrow> option_lines opts longest;
     Some ('' -'' @ [co_val opt] @ '', '' @ buf @ replicate (longest - length buf) CHR '' '' @ [CHR 0x09] @ co_description opt @ [CHR 0x0A] @ ls)
   }"

definition print_options_out :: "cli_option list \<Rightarrow> string option" where
  "print_options_out options = do {
     longest \<leftarrow> longest_arg options 0;
     ls \<leftarrow> option_lines options longest;
     Some (''Options:'' @ [CHR 0x0A] @ ls @ [CHR 0x0A, CHR 0x0A])
   }"

section \<open>getopt\<close>

text \<open>
  A call of \<open>getopt_long\<close> returns a character and sets \<open>optarg\<close>; an option that is unknown, ambiguous
  or lacks its argument gives a question mark.
\<close>

type_synonym getopt_ret = "char \<times> string option"

abbreviation bad_option :: getopt_ret where
  "bad_option \<equiv> (CHR ''?'', None)"

fun find_short :: "string \<Rightarrow> char \<Rightarrow> has_arg option" where
  "find_short [] c = None"
| "find_short (x # xs) c =
     (if x = c \<and> c \<noteq> CHR '':'' \<and> c \<noteq> CHR '';''
      then Some (if take 2 xs = ''::'' then Optional_argument else if take 1 xs = '':'' then Required_argument else No_argument)
      else find_short xs c)"

text \<open>A group of short options after one dash, and the arguments that follow it.\<close>

fun short_opts :: "string \<Rightarrow> string \<Rightarrow> string list \<Rightarrow> getopt_ret list \<times> string list" where
  "short_opts spec [] rest = ([], rest)"
| "short_opts spec (c # cs) rest = (case find_short spec c of
     None \<Rightarrow> let (es, rest) = short_opts spec cs rest in (bad_option # es, rest)
   | Some No_argument \<Rightarrow> let (es, rest) = short_opts spec cs rest in ((c, None) # es, rest)
   | Some Required_argument \<Rightarrow>
       if cs \<noteq> [] then ([(c, Some cs)], rest)
       else (case rest of [] \<Rightarrow> ([bad_option], []) | a # rest \<Rightarrow> ([(c, Some a)], rest))
   | Some Optional_argument \<Rightarrow> ([(c, if cs \<noteq> [] then Some cs else None)], rest))"

text \<open>A long option may be shortened as long as it can mean only one.\<close>

definition find_long :: "cli_option list \<Rightarrow> string \<Rightarrow> cli_option option" where
  "find_long opts name = (case filter (\<lambda>opt. co_name opt = name) opts of
     opt # _ \<Rightarrow> Some opt
   | [] \<Rightarrow> (case filter (\<lambda>opt. take (length name) (co_name opt) = name) opts of
       [] \<Rightarrow> None
     | opt # others \<Rightarrow>
         if list_all (\<lambda>o'. co_has_arg o' = co_has_arg opt \<and> co_val o' = co_val opt) others then Some opt else None))"

definition long_opt :: "cli_option list \<Rightarrow> string \<Rightarrow> string list \<Rightarrow> getopt_ret \<times> string list" where
  "long_opt opts body rest =
     (let name = takeWhile (\<lambda>c. c \<noteq> CHR ''='') body; arg = dropWhile (\<lambda>c. c \<noteq> CHR ''='') body
      in case find_long opts name of
           None \<Rightarrow> (bad_option, rest)
         | Some opt \<Rightarrow>
             if arg \<noteq> [] then (if co_has_arg opt = No_argument then bad_option else (co_val opt, Some (tl arg)), rest)
             else if co_has_arg opt = Required_argument
             then (case rest of [] \<Rightarrow> (bad_option, []) | a # rest \<Rightarrow> ((co_val opt, Some a), rest))
             else ((co_val opt, None), rest))"

lemma long_opt_rest: "length (snd (long_opt opts body rest)) \<le> length rest"
  by (auto simp: long_opt_def Let_def split: option.split list.split)

lemma long_opt_le: "(e, r) = long_opt opts body rest \<Longrightarrow> length r \<le> length rest"
  using long_opt_rest [of opts body rest] by (metis snd_conv)

lemma short_opts_rest: "length (snd (short_opts spec cs rest)) \<le> length rest"
  by (induction spec cs rest rule: short_opts.induct) (auto split: option.split list.split has_arg.split prod.split)

lemma short_opts_le: "(es, r) = short_opts spec cs rest \<Longrightarrow> length r \<le> length rest"
  using short_opts_rest [of spec cs rest] by (metis snd_conv)

text \<open>
  All calls of \<open>getopt_long\<close> until it returns \<open>-1\<close>: what they return, and the arguments that are then
  at \<open>optind\<close> and behind. Arguments that are no options are moved behind the options in their order.
\<close>

function getopt_long :: "string \<Rightarrow> cli_option list \<Rightarrow> string list \<Rightarrow> getopt_ret list \<times> string list" where
  "getopt_long spec opts [] = ([], [])"
| "getopt_long spec opts (a # args) =
     (if a = ''--'' then ([], args)
      else if take 2 a = ''--''
      then let (e, rest) = long_opt opts (drop 2 a) args; (es, pos) = getopt_long spec opts rest in (e # es, pos)
      else if take 1 a = ''-'' \<and> 1 < length a
      then let (es1, rest) = short_opts spec (drop 1 a) args; (es2, pos) = getopt_long spec opts rest in (es1 @ es2, pos)
      else let (es, pos) = getopt_long spec opts args in (es, a # pos))"
  by pat_completeness auto
termination
  by (relation "measure (\<lambda>(spec, opts, args). length args)")
    (auto simp: less_Suc_eq_le dest!: long_opt_le short_opts_le)

section \<open>strtol\<close>

definition isspace :: "char \<Rightarrow> bool" where
  "isspace c \<longleftrightarrow> c = CHR '' '' \<or> 9 \<le> (of_char c :: nat) \<and> (of_char c :: nat) \<le> 13"

definition digit_val :: "char \<Rightarrow> nat" where
  "digit_val c =
     (let n = of_char c
      in if 48 \<le> n \<and> n \<le> 57 then n - 48 else if 65 \<le> n \<and> n \<le> 90 then n - 55
         else if 97 \<le> n \<and> n \<le> 122 then n - 87 else 36)"

definition LONG_MAX :: int where "LONG_MAX = 2 ^ 63 - 1"
definition INT_MAX :: int where "INT_MAX = 2 ^ 31 - 1"

definition digits_val :: "nat \<Rightarrow> string \<Rightarrow> nat" where
  "digits_val base ds = foldl (\<lambda>v c. v * base + digit_val c) 0 ds"

text \<open>\<open>strtol (optarg, &arg_end, 0)\<close>; the second value is whether \<open>arg_end\<close> differs from \<open>optarg\<close>.\<close>

definition strtol :: "string \<Rightarrow> int \<times> bool" where
  "strtol nptr =
     (let s = dropWhile isspace nptr;
          neg = (take 1 s = ''-'');
          s = (if take 1 s = ''-'' \<or> take 1 s = ''+'' then drop 1 s else s);
          (base, s) = (if take 1 s = ''0''
             then if (take 2 s = ''0x'' \<or> take 2 s = ''0X'') \<and> 2 < length s \<and> digit_val (s ! 2) < 16 then (16, drop 2 s) else (8, s)
             else (10, s));
          ds = takeWhile (\<lambda>c. digit_val c < base) s;
          v = (if neg then - int (digits_val base ds) else int (digits_val base ds))
      in if ds = [] then (0, False) else (max (- LONG_MAX - 1) (min LONG_MAX v), True))"

text \<open>Decimal numbers, as \<open>printf\<close> writes them.\<close>

fun dec :: "nat \<Rightarrow> string" where
  "dec n = (if n < 10 then [char_of (48 + n)] else dec (n div 10) @ [char_of (48 + n mod 10)])"

declare dec.simps [simp del]

lemma digit_val_dec [simp]: "n < 10 \<Longrightarrow> digit_val (char_of (48 + n)) = n"
  by (simp add: digit_val_def of_char_of)

lemma digits_val_snoc: "digits_val base (ds @ [c]) = digits_val base ds * base + digit_val c"
  by (simp add: digits_val_def)

lemma dec_digits: "\<forall>c\<in>set (dec n). digit_val c < 10"
proof (induction n rule: dec.induct)
  case (1 n)
  then show ?case by (subst dec.simps) auto
qed

lemma digits_val_dec: "digits_val 10 (dec n) = n"
proof (induction n rule: dec.induct)
  case (1 n)
  then show ?case by (subst dec.simps) (simp add: digits_val_snoc, simp add: digits_val_def)
qed

text \<open>The first digit of a positive number is neither a zero nor a sign nor a space.\<close>

lemma dec_first: "0 < n \<Longrightarrow> \<exists>k cs. dec n = char_of (48 + k) # cs \<and> 0 < k \<and> k < (10 :: nat)"
proof (induction n rule: dec.induct)
  case (1 n)
  show ?case
  proof (cases "n < 10")
    case True
    then show ?thesis using 1(2) by (intro exI [of _ n] exI [of _ "[]"]) (subst dec.simps, simp)
  next
    case False
    then obtain k cs where "dec (n div 10) = char_of (48 + k) # cs" "0 < k" "k < (10 :: nat)"
      using 1(1) [OF False] by (auto simp: div_greater_zero_iff)
    then show ?thesis using False
      by (intro exI [of _ k] exI [of _ "cs @ [char_of (48 + n mod 10)]"]) (subst dec.simps, simp)
  qed
qed

lemma strtol_dec:
  assumes "0 < n" "int n \<le> LONG_MAX"
  shows "strtol (dec n) = (int n, True)"
proof -
  obtain k cs where d: "dec n = char_of (48 + k) # cs" "0 < k" "k < (10 :: nat)" using dec_first [OF assms(1)] by blast
  have oc: "of_char (char_of (48 + k) :: char) = 48 + k" using d(3) by (simp add: of_char_of)
  then have c: "char_of (48 + k) \<noteq> CHR ''0''" "char_of (48 + k) \<noteq> CHR ''-''" "char_of (48 + k) \<noteq> CHR ''+''"
    "\<not> isspace (char_of (48 + k))"
    using d(2,3) by (auto simp: isspace_def dest!: arg_cong [of _ _ "of_char :: char \<Rightarrow> nat"])
  have "takeWhile (\<lambda>c. digit_val c < 10) (dec n) = dec n" using dec_digits by (simp add: takeWhile_eq_all_conv)
  then have tw: "takeWhile (\<lambda>c. digit_val c < 10) (char_of (48 + k) # cs) = char_of (48 + k) # cs" by (simp only: d(1))
  have v: "digits_val 10 (char_of (48 + k) # cs) = n" using digits_val_dec [of n] by (simp only: d(1))
  have "strtol (dec n) = (if takeWhile (\<lambda>c. digit_val c < 10) (char_of (48 + k) # cs) = [] then (0, False)
    else (max (- LONG_MAX - 1) (min LONG_MAX (int (digits_val 10 (takeWhile (\<lambda>c. digit_val c < 10) (char_of (48 + k) # cs))))), True))"
    unfolding strtol_def d(1) Let_def using c by (simp del: takeWhile.simps)
  then show ?thesis unfolding tw v using assms(2) by (simp add: LONG_MAX_def)
qed

end
