(* ===== verification/Fla_Inspect.thy ===== *)
theory Fla_Inspect
  imports Fla_Introspection
begin

text \<open>
  The validations of \<open>src/src/flexalloc_inspect.c\<close> on an open file system. What a function prints is
  the list of its reports, in place of the texts.
\<close>

section \<open>The validations\<close>

text \<open>
  The lines under \<open>errors\<close> of an entry. There is none for \<open>POOL_ENTRY_H2_DISCREPANCY\<close>. Of the pool entry
  the name, up to its end or its last byte, the size of the objects and the three lists are printed.
\<close>

datatype entry_error = No_flist_entry | Val_out_of_bounds | Name_unset | Name_no_nullterm | Invalid_obj_size

record pool_line =
  pl_name :: "u8 list"
  pl_obj_nlb :: u32
  pl_empty :: u32
  pl_full :: u32
  pl_partial :: u32

datatype report =
  No_slabs
| More_pools_than_slabs
| No_format_version
| Invalid_magic "u8 list"
| Super_offset_error
| Super_size_error
| Freelist_size_error
| Htbl_size_error
| Entries_size_error
| Offsets_incorrect
| Npools_disagree u32 u32
| Active_disagree u32 u32
| Invalid_entry u32 fla_htbl_entry "pool_line option" "entry_error list"

definition rep :: "bool \<Rightarrow> 'r \<Rightarrow> 'r list" where
  "rep b r = (if b then [r] else [])"

text \<open>The condition of each message is the error collected so far, not the last comparison.\<close>

definition validate_super :: "flexalloc \<Rightarrow> int \<times> report list" where
  "validate_super fs =
     (let s = fs_super fs; b = take 4 (le64 (su_magic s));
          err = c_bool (su_nslabs s = 0);
          r1 = rep (err \<noteq> 0) No_slabs;
          err = err OR c_bool (su_npools s > su_nslabs s);
          r2 = rep (err \<noteq> 0) More_pools_than_slabs;
          err = err OR c_bool (su_fmt_version s = 0);
          r3 = rep (err \<noteq> 0) No_format_version;
          r4 = rep (b \<noteq> [0x21, 0x46, 0x53, 0]) (Invalid_magic b)
      in (err, r1 @ r2 @ r3 @ r4))"

definition validate_md_ptr_offsets :: "flexalloc \<Rightarrow> int \<times> report list" where
  "validate_md_ptr_offsets fs =
     (let s = mdr_ptr_check_super_offset \<noteq> 0;
          a = md_ptr_check_super_size (fs_geo fs) \<noteq> 0;
          b = md_ptr_check_pool_freelist_size (fs_geo fs) \<noteq> 0;
          c = md_ptr_check_pool_htbl_size (fs_geo fs) \<noteq> 0;
          d = md_ptr_check_pool_entries_size (fs_geo fs) \<noteq> 0;
          err = (if s \<or> a \<or> b \<or> c \<or> d then - 1 else 0)
      in (err, rep s Super_offset_error @ rep a Super_size_error @ rep b Freelist_size_error @ rep c Htbl_size_error @ rep d Entries_size_error
               @ rep (err \<noteq> 0) Offsets_incorrect))"

definition validate_pool_num_entries :: "flexalloc \<Rightarrow> (u32 \<times> report list) option" where
  "validate_pool_num_entries fs = do {
     err \<leftarrow> check_pools_num_entries fs;
     flist_len \<leftarrow> fla_flist_len (po_freelist (fs_pools fs));
     flist_reserved \<leftarrow> fla_flist_num_reserved (po_freelist (fs_pools fs));
     htbl_reserved \<leftarrow> pool_htbl_num_reserved fs;
     Some (err, rep (err AND POOLS_SUPER_FLIST_DISCREPANCY \<noteq> 0) (Npools_disagree (su_npools (fs_super fs)) flist_len)
                @ rep (err AND POOLS_FLIST_HTBL_RESERVED_DISCREPANCY \<noteq> 0) (Active_disagree flist_reserved htbl_reserved))
   }"

text \<open>The name is copied and its last byte is set to 0.\<close>

definition pool_entry_line :: "fla_pool_entry \<Rightarrow> pool_line" where
  "pool_entry_line pentry =
     (let name_buffer = (take FLA_NAME_SIZE_POOL (pe_name pentry))[FLA_NAME_SIZE_POOL - 1 := 0]
      in \<lparr>pl_name = cstr name_buffer, pl_obj_nlb = pe_obj_nlb pentry, pl_empty = pe_empty_slabs pentry,
          pl_full = pe_full_slabs pentry, pl_partial = pe_partial_slabs pentry\<rparr>)"

definition entry_errors :: "u32 \<Rightarrow> entry_error list" where
  "entry_errors fn_err =
     rep (fn_err AND POOL_ENTRY_NO_FLIST_ENTRY \<noteq> 0) No_flist_entry
     @ rep (fn_err AND POOL_ENTRY_HTBL_VAL_OUT_OF_BOUNDS \<noteq> 0) Val_out_of_bounds
     @ rep (fn_err AND POOL_ENTRY_NAME_UNSET \<noteq> 0) Name_unset
     @ rep (fn_err AND POOL_ENTRY_NAME_NO_NULLTERM \<noteq> 0) Name_no_nullterm
     @ rep (fn_err AND POOL_ENTRY_INVALID_OBJ_SIZE \<noteq> 0) Invalid_obj_size"

text \<open>The entry at the returned offset and, unless its index is out of range, its pool entry are printed.\<close>

definition report_entry :: "flexalloc \<Rightarrow> u32 \<Rightarrow> u32 \<Rightarrow> report option" where
  "report_entry fs offset fn_err = do {
     T \<leftarrow> ht_tbl (po_htbl (fs_pools fs));
     entry \<leftarrow> rd T (unat offset);
     if fn_err AND POOL_ENTRY_HTBL_VAL_OUT_OF_BOUNDS \<noteq> 0 then Some (Invalid_entry offset entry None (entry_errors fn_err))
     else do {
       pentry \<leftarrow> rd (po_entries (fs_pools fs)) (unat (he_val entry));
       Some (Invalid_entry offset entry (Some (pool_entry_line pentry)) (entry_errors fn_err))
     }
   }"

partial_function (option) validate_entries_from :: "flexalloc \<Rightarrow> u32 \<Rightarrow> u32 \<Rightarrow> (u32 \<times> report list) option" where
  "validate_entries_from fs err offset = do {
     (fn_err, offset) \<leftarrow> check_pool_entries fs offset;
     if fn_err = 0 then Some (err, [])
     else do {
       r \<leftarrow> report_entry fs offset fn_err;
       (err, rs) \<leftarrow> validate_entries_from fs (err OR fn_err) (offset + 1);
       Some (err, r # rs)
     }
   }"

definition validate_pool_entries :: "flexalloc \<Rightarrow> (u32 \<times> report list) option" where
  "validate_pool_entries fs = validate_entries_from fs 0 0"

text \<open>\<open>main\<close> after the device is opened: the results of the functions are not used.\<close>

definition inspect_fs :: "flexalloc \<Rightarrow> (report list \<times> flexalloc) option" where
  "inspect_fs fs = do {
     let (_, r1) = validate_super fs;
     let (_, r2) = validate_md_ptr_offsets fs;
     (_, r3) \<leftarrow> validate_pool_num_entries fs;
     (_, r4) \<leftarrow> validate_pool_entries fs;
     fs \<leftarrow> fla_close_noflush fs;
     Some (r1 @ r2 @ r3 @ r4, fs)
   }"

section \<open>The entries\<close>

text \<open>The indices of the entries that do not fit, from an offset on.\<close>

definition bad_from :: "flexalloc \<Rightarrow> fla_htbl_entry list \<Rightarrow> nat \<Rightarrow> nat list" where
  "bad_from fs T k = filter (\<lambda>i. occ (T ! i) \<and> entry_faults fs (T ! i) \<noteq> 0) [k..<length T]"

text \<open>What is reported of the entry at index \<open>i\<close>, from what is wrong with it.\<close>

definition entry_report :: "flexalloc \<Rightarrow> fla_htbl_entry list \<Rightarrow> nat \<Rightarrow> report" where
  "entry_report fs T i =
     (let e = T ! i; pe = entries fs ! unat (he_val e)
      in Invalid_entry (of_nat i) e (Some (pool_entry_line pe))
           (rep (unat (he_val e) \<in> flist_free (po_freelist (fs_pools fs))) No_flist_entry @ rep (pe_name pe ! 0 = 0) Name_unset
            @ rep (0 \<notin> set (pe_name pe)) Name_no_nullterm @ rep (pe_obj_nlb pe = 0 \<or> pe_obj_nlb pe = 10) Invalid_obj_size))"

lemma entry_errors_faults:
  "Invalid_entry (of_nat i) (T ! i) (Some (pool_entry_line (entries fs ! unat (he_val (T ! i))))) (entry_errors (entry_faults fs (T ! i)))
    = entry_report fs T i"
  by (simp add: entry_report_def entry_errors_def entry_faults_def Let_def check_flags flag_def rep_def)

definition all_faults :: "flexalloc \<Rightarrow> fla_htbl_entry list \<Rightarrow> nat list \<Rightarrow> u32 \<Rightarrow> u32" where
  "all_faults fs T is err = foldl (\<lambda>w i. w OR entry_faults fs (T ! i)) err is"

lemma filter_upt_Cons:
  assumes "filter P [k..<n] = i # is"
  shows "k \<le> i" "i < n" "P i" "\<And>j. k \<le> j \<Longrightarrow> j < i \<Longrightarrow> \<not> P j" "is = filter P [Suc i..<n]"
proof -
  from assms obtain us vs where s: "[k..<n] = us @ i # vs" "\<forall>u\<in>set us. \<not> P u" "P i" "is = filter P vs"
    by (auto simp: filter_eq_Cons_iff)
  have len: "length us < n - k" using arg_cong [OF s(1), of length] by simp
  have i: "i = k + length us" using s(1) len by (metis nth_append_length nth_upt less_diff_conv add.commute)
  have us: "us = [k..<i]" using arg_cong [OF s(1), of "take (length us)"] i len by (simp add: take_upt)
  have vs: "vs = [Suc i..<n]" using arg_cong [OF s(1), of "drop (Suc (length us))"] i len by (simp add: drop_upt)
  show "k \<le> i" "i < n" "P i" "is = filter P [Suc i..<n]" using i len s(3,4) vs by auto
  show "\<not> P j" if "k \<le> j" "j < i" for j using s(2) us that by auto
qed

lemma flags_no_bounds: "entry_faults fs e AND POOL_ENTRY_HTBL_VAL_OUT_OF_BOUNDS = 0"
  by (auto simp: entry_faults_def Let_def check_flags flag_def)

lemma dir_table:
  assumes "dir_inv hm fs" "ht_tbl (po_htbl (fs_pools fs)) = Some T"
  shows "length T \<le> 2 ^ 16" "e \<in> set T \<Longrightarrow> occ e \<Longrightarrow> unat (he_val e) < length (entries fs)"
proof -
  from assms(1) have "htbl_inv hm (po_htbl (fs_pools fs))" by (simp add: dir_inv_def)
  then obtain T' where "ht_tbl (po_htbl (fs_pools fs)) = Some T'" "rh_table hm T'" "rh_uniq T'" "pool_names fs = rh_map T'"
    by (rule htbl_invE)
  then have T: "rh_table hm T" "rh_uniq T" "pool_names fs = rh_map T" using assms(2) by simp_all
  show "length T \<le> 2 ^ 16" using T(1) by (simp add: rh_table_def)
  assume "e \<in> set T" "occ e"
  then have "rh_map T (he_h2 e) = Some (he_val e)" using rh_map_Some [OF T(2)] by (auto simp: in_set_conv_nth)
  then have "he_val e \<in> ran (pool_names fs)" unfolding T(3) by (rule ranI)
  then show "unat (he_val e) < length (entries fs)" using assms(1) unfolding dir_inv_def by blast
qed

lemma validate_entries_from_spec:
  assumes "dir_inv hm fs" "length (entries fs) \<le> 32" "ht_tbl (po_htbl (fs_pools fs)) = Some T"
  shows "k \<le> length T \<Longrightarrow> validate_entries_from fs err (of_nat k)
    = Some (all_faults fs T (bad_from fs T k) err, map (entry_report fs T) (bad_from fs T k))"
proof (induction "bad_from fs T k" arbitrary: k err)
  case Nil
  have len: "length T \<le> 2 ^ 16" by (rule dir_table [OF assms(1,3)])
  then have u: "unat (of_nat k :: u32) = k" using Nil(2) by (simp add: unat_of_nat_small)
  have "\<not> bad_entry fs T (of_nat k) i" for i
  proof
    assume "bad_entry fs T (of_nat k) i"
    then have "i \<in> set (bad_from fs T k)" unfolding bad_entry_def u by (auto simp: bad_from_def)
    then show False by (simp flip: Nil(1))
  qed
  then have "check_pool_entries fs (of_nat k) = Some (0, 0)"
    using check_pool_entries_first [OF assms, of "of_nat k"] Nil(2) u by auto
  then show ?case by (subst validate_entries_from.simps) (simp add: all_faults_def flip: Nil(1))
next
  case (Cons i "is")
  have len: "length T \<le> 2 ^ 16" by (rule dir_table [OF assms(1,3)])
  have u: "unat (of_nat j :: u32) = j" if "j \<le> length T" for j using len that by (simp add: unat_of_nat_small)
  note f = filter_upt_Cons [OF Cons(2) [unfolded bad_from_def, symmetric]]
  have "bad_entry fs T (of_nat k) i" "\<forall>j<i. \<not> bad_entry fs T (of_nat k) j"
    using f(1-4) u [OF Cons(3)] by (auto simp: bad_entry_def)
  then have chk: "check_pool_entries fs (of_nat k) = Some (entry_faults fs (T ! i), of_nat i)"
    using check_pool_entries_first [OF assms, of "of_nat k"] Cons(3) u by auto
  have "rd T (unat (of_nat i :: u32)) = Some (T ! i)" using f(2) u [of i] by simp
  moreover have "unat (he_val (T ! i)) < length (entries fs)" using dir_table(2) [OF assms(1,3), of "T ! i"] f(2,3) by simp
  ultimately have r: "report_entry fs (of_nat i) (entry_faults fs (T ! i)) = Some (entry_report fs T i)"
    using assms(3) flags_no_bounds by (simp add: report_entry_def entry_errors_faults)
  have "of_nat i + 1 = (of_nat (Suc i) :: u32)" by simp
  moreover have "is = bad_from fs T (Suc i)" using f(5) by (simp add: bad_from_def)
  then have "validate_entries_from fs w (of_nat (Suc i)) = Some (all_faults fs T is w, map (entry_report fs T) is)" for w
    using Cons(1) [of "Suc i"] f(2) by simp
  ultimately show ?case using f(3)
    by (subst validate_entries_from.simps) (simp only: chk r bind.bind_lunit option.simps prod.case if_False Cons(2) [symmetric] list.map, simp add: all_faults_def)
qed


lemma all_faults_zero: "all_faults fs T is err = 0 \<longleftrightarrow> err = 0 \<and> (\<forall>i\<in>set is. entry_faults fs (T ! i) = 0)"
proof (induction "is" arbitrary: err)
  case (Cons i "is")
  have "err OR w = 0 \<longleftrightarrow> err = 0 \<and> w = 0" for w :: u32 by (auto simp: bit_eq_iff bit_or_iff)
  then show ?case using Cons [of "err OR entry_faults fs (T ! i)"] by (simp add: all_faults_def)
qed (simp add: all_faults_def)

text \<open>
  C9: For a consistent directory of at most 32 pools \<open>validate_pool_entries\<close> ends and reports every entry
  of the hash table that does not fit its pool entry exactly once, in the order of the table, and
  returns 0 exactly when there is none. A report has the index, the entry and its pool entry, and a
  line for each of four faults: the pool is free, the name is empty, it is not terminated, the object
  size is 0 or 10. The fifth fault, a hash that is not that of the name, makes an entry a reported
  one but has no line.
\<close>

theorem validate_pool_entries_reports:
  assumes "dir_inv hm fs" "length (entries fs) \<le> 32" "ht_tbl (po_htbl (fs_pools fs)) = Some T"
  shows "\<exists>err. validate_pool_entries fs
      = Some (err, map (entry_report fs T) (filter (\<lambda>i. occ (T ! i) \<and> \<not> entry_fits fs (T ! i)) [0..<length T]))
    \<and> (err = 0 \<longleftrightarrow> (\<forall>i<length T. occ (T ! i) \<longrightarrow> entry_fits fs (T ! i)))"
proof -
  have "validate_pool_entries fs = Some (all_faults fs T (bad_from fs T 0) 0, map (entry_report fs T) (bad_from fs T 0))"
    using validate_entries_from_spec [OF assms, of 0 0] by (simp add: validate_pool_entries_def)
  then show ?thesis by (auto simp: all_faults_zero bad_from_def entry_faults_zero)
qed

theorem validate_pool_entries_reports_witness:
  "\<exists>err. validate_pool_entries unnamed_example = Some (err, [entry_report unnamed_example tbl_example 1]) \<and> err \<noteq> 0"
proof -
  have f: "entry_faults unnamed_example (tbl_example ! 1) \<noteq> 0"
    by (simp add: entry_faults_def unnamed_example_def tbl_example_def unnamed_example_free pool_entry_zero_def check_flags flag_def FLA_NAME_SIZE_POOL_def)
  have T: "length (entries unnamed_example) \<le> 32" "ht_tbl (po_htbl (fs_pools unnamed_example)) = Some tbl_example"
    by (simp_all add: unnamed_example_def tbl_example_def)
  have up: "[0..<length tbl_example] = [0, 1, 2, 3]" by (simp add: tbl_example_def upt_rec)
  have "filter (\<lambda>i. occ (tbl_example ! i) \<and> \<not> entry_fits unnamed_example (tbl_example ! i)) [0..<length tbl_example] = [1]"
    using f unfolding up entry_faults_zero by (simp add: tbl_example_def htbl_unset_entry_def FLA_HTBL_ENTRY_UNSET_def)
  moreover have "1 < length tbl_example" "occ (tbl_example ! 1)" by (simp_all add: tbl_example_def FLA_HTBL_ENTRY_UNSET_def)
  ultimately show ?thesis using validate_pool_entries_reports [OF unnamed_example_inv T] f by (auto simp: entry_faults_zero)
qed

text \<open>An entry whose hash does not fit is found, and reported without a line.\<close>

lemma h2_discrepancy_not_printed: "entry_errors POOL_ENTRY_H2_DISCREPANCY = []"
  by (simp add: entry_errors_def check_flags rep_def)

text \<open>
  An entry whose index is out of range is never passed: the offset returned for it is one too low,
  so that the next check starts at the same entry. When it is the first in the table the program
  reads outside the table, otherwise it does not end.
\<close>

lemma check_at_bad_index:
  assumes "htbl_range (po_htbl (fs_pools fs)) = Some T" "k < length T" "length T \<le> 2 ^ 16" "occ (T ! k)"
    "fla_flist_len (po_freelist (fs_pools fs)) = Some npools" "npools \<le> he_val (T ! k)"
    "flist_bit_reserved (po_freelist (fs_pools fs)) (he_val (T ! k)) = Some b" "j \<le> k" "\<forall>i<k. j \<le> i \<longrightarrow> \<not> occ (T ! i)"
  shows "\<exists>e. e \<noteq> 0 \<and> check_pool_entries fs (of_nat j) = Some (e, of_nat k - 1)"
proof -
  let ?e = "flag (\<not> b) POOL_ENTRY_NO_FLIST_ENTRY OR POOL_ENTRY_HTBL_VAL_OUT_OF_BOUNDS"
  have run: "check_entries fs npools (drop i T) w = Some (?e, w + of_nat (k - i))" if "j \<le> i" "i \<le> k" for i w
    using that(2,1)
  proof (induction i arbitrary: w rule: inc_induct)
    case base
    then show ?case using assms(2,4,6,7) by (simp add: Cons_nth_drop_Suc [symmetric] check_entry_def)
  next
    case (step i)
    then have "check_entries fs npools (drop i T) w = check_entries fs npools (drop (Suc i) T) (w + 1)"
      using assms(2,9) by (simp add: Cons_nth_drop_Suc [symmetric])
    moreover have "k - i = Suc (k - Suc i)" using step(2) by simp
    ultimately show ?case using step(3) [of "w + 1"] step(4) by (simp add: algebra_simps)
  qed
  have "unat (of_nat j :: u32) = j" using assms(2,3,8) by (simp add: unat_of_nat_small)
  moreover have "of_nat j + (of_nat (k - j) - 1) = (of_nat k - 1 :: u32)" using assms(8) by (simp add: of_nat_diff)
  moreover have "?e \<noteq> 0" by (simp add: check_flags flag_def)
  ultimately show ?thesis using run [of j 0] assms(1,2,5,8) by (simp add: check_pool_entries_def)
qed

lemma validate_pool_entries_stuck:
  assumes "htbl_range (po_htbl (fs_pools fs)) = Some T" "k < length T" "length T \<le> 2 ^ 16" "occ (T ! k)"
    "fla_flist_len (po_freelist (fs_pools fs)) = Some npools" "npools \<le> he_val (T ! k)"
    "flist_bit_reserved (po_freelist (fs_pools fs)) (he_val (T ! k)) = Some b" "\<forall>i<k. \<not> occ (T ! i)"
  shows "validate_pool_entries fs = None"
proof -
  note chk = check_at_bad_index [OF assms(1-7)]
  have loop: "validate_entries_from fs' err off = Some r \<Longrightarrow> \<not> (fs' = fs \<and> off = of_nat k)" for fs' err off r
  proof (rule validate_entries_from.raw_induct [where P = "\<lambda>fs' err off r. \<not> (fs' = fs \<and> off = of_nat k)"])
    fix rec fs' err off r
    assume IH: "\<And>fs' err off r. rec fs' err off = Some r \<Longrightarrow> \<not> (fs' = fs \<and> off = of_nat k)"
      and run: "do {
        (fn_err, offset) \<leftarrow> check_pool_entries fs' off;
        if fn_err = 0 then Some (err, [])
        else do {
          r \<leftarrow> report_entry fs' offset fn_err;
          (err, rs) \<leftarrow> rec fs' (err OR fn_err) (offset + 1);
          Some (err, r # rs)
        }
      } = Some r"
    show "\<not> (fs' = fs \<and> off = of_nat k)" using run chk [of k] by (auto split: bind_splits dest: IH)
  qed
  obtain e where e: "e \<noteq> 0" "check_pool_entries fs (of_nat 0) = Some (e, of_nat k - 1)" using chk [of 0] assms(8) by auto
  have "validate_entries_from fs (0 OR e) (of_nat k - 1 + 1) = None" using loop [of fs] by (cases "validate_entries_from fs e (of_nat k)") auto
  then show ?thesis unfolding validate_pool_entries_def using e by (subst validate_entries_from.simps) (auto split: bind_splits)
qed


section \<open>A clean file system\<close>

lemma flist_len_inv: "flist_inv f \<Longrightarrow> fla_flist_len f = Some (f ! 0)"
  by (auto simp: flist_inv_def fla_flist_len_def intro!: rd_in)

lemma magic_bytes: "take 4 (le64 FLA_MAGIC) = [0x21, 0x46, 0x53, 0]"
  by (simp add: le64_def le_bytes_def FLA_MAGIC_def)

text \<open>On a consistent file system whose entries all fit the program has nothing to report.\<close>

lemma inspect_clean:
  assumes env: "media X blk (cache_dev fs)" and fs: "mounted X fs buf" "dir_inv hm fs" "su_fmt_version (fs_super fs) \<noteq> 0"
    and fits: "validate_pool_entries fs = Some (0, [])"
    and cache: "fs_slab_cache fs = Some c" "unat (g_nslabs (fs_geo fs)) \<le> length c"
  shows "\<exists>fs'. inspect_fs fs = Some ([], fs')"
proof -
  let ?f = "po_freelist (fs_pools fs)"
  have m: "geo_ok X (cache_dev fs) (fs_geo fs)" "fla_geo_from_super (x_geo X Data_dev) (fs_super fs) = fs_geo fs"
    "su_magic (fs_super fs) = FLA_MAGIC" "flist_inv ?f"
    using fs(1) by (simp_all add: mounted_def)
  have s: "su_npools (fs_super fs) = g_npools (fs_geo fs)" "su_nslabs (fs_super fs) = g_nslabs (fs_geo fs)"
    unfolding m(2) [symmetric] by (simp_all add: fla_geo_from_super_def Let_def)
  have "0 < unat (g_nslabs (fs_geo fs))" "unat (g_npools (fs_geo fs)) \<le> unat (g_nslabs (fs_geo fs))"
    using m(1) by (simp_all add: geo_ok_def geo_fits_def)
  then have "su_nslabs (fs_super fs) \<noteq> 0" "\<not> su_nslabs (fs_super fs) < su_npools (fs_super fs)"
    unfolding s by (auto simp: word_less_nat_alt)
  then have 1: "validate_super fs = (0, [])" using fs(3) m(3) magic_bytes by (simp add: validate_super_def Let_def rep_def)
  have 2: "validate_md_ptr_offsets fs = (0, [])"
    using md_ptr_checks [OF m(1) env] by (simp add: validate_md_ptr_offsets_def mdr_ptr_check_super_offset_def off_super_def Let_def rep_def)
  obtain n where n: "pool_htbl_num_reserved fs = Some n" "check_pools_num_entries fs = Some 0"
    using introspection_run [OF env fs(1,2)] by blast
  moreover have "fla_flist_len ?f = Some (?f ! 0)" by (rule flist_len_inv [OF m(4)])
  ultimately have 3: "validate_pool_num_entries fs = Some (0, [])"
    using fla_flist_num_reserved_eq [OF m(4)] by (simp add: validate_pool_num_entries_def rep_def)
  show ?thesis using 1 2 3 fits cache by (auto simp: inspect_fs_def fla_close_noflush_def fla_slab_cache_free_def)
qed

lemma no_pools_validate:
  assumes "dir_inv hm fs" "pool_names fs = Map.empty"
  shows "validate_pool_entries fs = Some (0, [])"
proof -
  from assms(1) have d: "htbl_inv hm (po_htbl (fs_pools fs))" "flist_inv (po_freelist (fs_pools fs))" by (simp_all add: dir_inv_def)
  from d(1) obtain T where T: "ht_tbl (po_htbl (fs_pools fs)) = Some T" "rh_uniq T" "pool_names fs = rh_map T" by (rule htbl_invE)
  have "rh_map T = Map.empty" using T(3) assms(2) by simp
  then have "\<not> occ e" if "e \<in> set T" for e
    using that rh_map_Some [OF T(2), of "he_h2 e" "he_val e"] by (auto simp: in_set_conv_nth)
  then have "check_entries fs npools T w = Some (0, w + of_nat (length T))" for npools w
    by (induction T arbitrary: w) (simp_all add: algebra_simps)
  moreover have "fla_flist_len (po_freelist (fs_pools fs)) = Some (po_freelist (fs_pools fs) ! 0)"
    by (rule flist_len_inv [OF d(2)])
  ultimately have "check_pool_entries fs 0 = Some (0, 0)" using htbl_range_inv [OF d(1) T(1)] by (simp add: check_pool_entries_def)
  then show ?thesis by (simp add: validate_pool_entries_def validate_entries_from.simps)
qed

text \<open>A device that was just formatted has nothing to report.\<close>

lemma mkfs_inspect_clean:
  assumes "media X blk Data_dev" "works X Data_dev" "plain_dev X" "mkfs_geo X p geo0 geo"
    "2 \<le> unat (g_nslabs geo)" "unat (g_npools geo) \<le> 2 ^ 15"
  shows "\<exists>d' fs buf fs'. fla_mkfs X p geo0 d = Some (0, d') \<and> fla_open X False d' = Some (0, Some (fs, buf))
    \<and> inspect_fs fs = Some ([], fs')"
proof -
  from mkfs_open_run [OF assms, of d "\<lambda>_. 0"] obtain d' fs buf where
    r: "fla_mkfs X p geo0 d = Some (0, d')" "fla_open X False d' = Some (0, Some (fs, buf))" "fresh_fs (\<lambda>_. 0) geo fs"
      "mounted X fs buf" "\<not> dv_md_dev (fs_dev fs)" by blast
  have f: "dir_inv (\<lambda>_. 0) fs" "pool_names fs = Map.empty" "su_fmt_version (fs_super fs) \<noteq> 0" "fs_geo fs = geo"
    "fs_slab_cache fs = Some (replicate (unat (g_nslabs geo)) \<lparr>ce_freelist = None, ce_state = FLA_SLAB_CACHE_ELEM_STALE\<rparr>)"
    using r(3) by (simp_all add: fresh_fs_def FLA_FMT_VER_def)
  have "cache_dev fs = Data_dev" using r(5) by (simp add: cache_dev_def)
  with assms(1) have "media X blk (cache_dev fs)" by simp
  from inspect_clean [OF this r(4) f(1,3) no_pools_validate [OF f(1,2)] f(5)] f(4) r(1,2) show ?thesis by auto
qed

end
