(* ===== verification/Fla_Programs.thy ===== *)
theory Fla_Programs
  imports Fla_Args Fla_Inspect Fla_Client
begin

text \<open>
  The programs: \<open>src/src/flexalloc_mkfs.c\<close>, \<open>src/src/flexalloc_inspect.c\<close> and the start of the daemon in
  \<open>src/src/flexalloc_daemon.c\<close>. A program is a function of its arguments without the program's name, of
  the answers of the operating system and of the state of the devices; its result is the exit code
  with what it printed or left behind. The device that the command line names is \<open>Data_dev\<close>, the
  metadata device is \<open>Md_dev\<close>.
\<close>

section \<open>mkfs\<close>

definition FLA_MKFS_SHOW_USAGE :: int where "FLA_MKFS_SHOW_USAGE = 100"

definition cli_opt :: "string \<Rightarrow> has_arg \<Rightarrow> char \<Rightarrow> string \<Rightarrow> string option \<Rightarrow> cli_option" where
  "cli_opt name has_arg c description arg_ex =
     \<lparr>co_name = name, co_has_arg = has_arg, co_val = c, co_description = description, co_arg_ex = arg_ex\<rparr>"

definition mkfs_options :: "cli_option list" where
  "mkfs_options =
     [cli_opt ''slba-nlb'' Required_argument CHR ''s'' ''size of slab in logical blocks'' (Some ''NUM''),
      cli_opt ''pools'' Required_argument CHR ''p'' ''number of pools'' (Some ''NUM''),
      cli_opt ''help'' No_argument CHR ''h'' ''display this help'' None,
      cli_opt ''verbose'' No_argument CHR ''v'' ''display additional information..!'' None,
      cli_opt ''md_dev'' Optional_argument CHR ''m'' (''MD device to use'' @ [CHR 0x0A]) (Some ''/path/to/md_device'')]"

record mkfs_args =
  ma_dev_uri :: "string option"
  ma_md_dev_uri :: "string option"
  ma_slab_nlb :: u32
  ma_npools :: u32
  ma_verbose :: u8

definition mkfs_args_zero :: mkfs_args where
  "mkfs_args_zero = \<lparr>ma_dev_uri = None, ma_md_dev_uri = None, ma_slab_nlb = 0, ma_npools = 0, ma_verbose = 0\<rparr>"

text \<open>The number in an argument and whether it is refused; \<open>strtol\<close> of a null pointer has no result.\<close>

definition num_arg :: "string option \<Rightarrow> (int \<times> bool) option" where
  "num_arg optarg = do {
     s \<leftarrow> optarg;
     let (arg_long, moved) = strtol s;
     Some (arg_long, \<not> moved \<or> arg_long > INT_MAX \<or> arg_long \<le> 0)
   }"

text \<open>The loop over the options; \<open>Inl\<close> is a return from within it.\<close>

fun mkfs_opts :: "getopt_ret list \<Rightarrow> int \<Rightarrow> mkfs_args \<Rightarrow> ((int + int) \<times> mkfs_args) option" where
  "mkfs_opts [] err p = Some (Inr err, p)"
| "mkfs_opts ((c, optarg) # es) err p =
     (if c = CHR ''v'' then mkfs_opts es err (p\<lparr>ma_verbose := 1\<rparr>)
      else if c = CHR ''h'' then Some (Inl FLA_MKFS_SHOW_USAGE, p)
      else if c = CHR ''s'' then do {
        (arg_long, invalid) \<leftarrow> num_arg optarg;
        mkfs_opts es (if invalid then err OR -1 else err) (p\<lparr>ma_slab_nlb := word_of_int arg_long\<rparr>)
      }
      else if c = CHR ''p'' then do {
        (arg_long, invalid) \<leftarrow> num_arg optarg;
        mkfs_opts es (if invalid then -1 else err) (p\<lparr>ma_npools := word_of_int arg_long\<rparr>)
      }
      else if c = CHR ''m'' then mkfs_opts es err (p\<lparr>ma_md_dev_uri := optarg\<rparr>)
      else mkfs_opts es err p)"

text \<open>What follows the loop: one argument that is no option is expected, the device to format.\<close>

definition mkfs_positional :: "string list \<Rightarrow> int \<Rightarrow> mkfs_args \<Rightarrow> int \<times> mkfs_args" where
  "mkfs_positional pos err p = (case pos of
       [] \<Rightarrow> (-1, p)
     | dev_uri # others \<Rightarrow>
         let p = p\<lparr>ma_dev_uri := Some dev_uri\<rparr>
         in if others \<noteq> [] then (-1, p)
            else if err \<noteq> 0 then (err, p)
            else if ma_slab_nlb p = 0 then (-1, p)
            else (0, p))"

definition fla_mkfs_parse_args :: "string list \<Rightarrow> mkfs_args \<Rightarrow> (int \<times> mkfs_args) option" where
  "fla_mkfs_parse_args args p = do {
     let (es, pos) = getopt_long ''vhs:p:m:'' mkfs_options args;
     (r, p) \<leftarrow> mkfs_opts es 0 p;
     Some (case r of Inl err \<Rightarrow> (err, p) | Inr err \<Rightarrow> mkfs_positional pos err p)
   }"

definition mkfs_params :: "mkfs_args \<Rightarrow> fla_mkfs_p" where
  "mkfs_params p = \<lparr>mp_md_dev_uri = (ma_md_dev_uri p \<noteq> None), mp_slab_nlb = ma_slab_nlb p, mp_npools = ma_npools p\<rparr>"

text \<open>\<open>main\<close> does not look at the result of \<open>fla_mkfs\<close>.\<close>

definition mkfs_main :: "'d xnvme \<Rightarrow> fla_geo \<Rightarrow> string list \<Rightarrow> 'd \<Rightarrow> (int \<times> 'd) option" where
  "mkfs_main X geo0 args d = do {
     (err, p) \<leftarrow> fla_mkfs_parse_args args mkfs_args_zero;
     if err \<noteq> 0 then Some (if err = FLA_MKFS_SHOW_USAGE then 0 else err, d)
     else do {
       (_, d) \<leftarrow> fla_mkfs X (mkfs_params p) geo0 d;
       Some (0, d)
     }
   }"

section \<open>inspect\<close>

definition inspect_options :: "cli_option list" where
  "inspect_options = [cli_opt ''help'' No_argument CHR ''h'' ''display this help'' None]"

text \<open>Arguments behind the device are not looked at; a metadata device cannot be named.\<close>

definition inspect_main :: "'d xnvme \<Rightarrow> string list \<Rightarrow> 'd \<Rightarrow> (int \<times> report list) option" where
  "inspect_main X args d =
     (let (es, pos) = getopt_long ''h'' inspect_options args
      in if CHR ''h'' \<in> set (map fst es) then Some (0, [])
         else if pos = [] then Some (-1, [])
         else do {
           (err, opened) \<leftarrow> fla_open X False d;
           if err \<noteq> 0 then Some (-1, [])
           else do {
             (fs, buf) \<leftarrow> opened;
             (reports, fs) \<leftarrow> inspect_fs fs;
             Some (0, reports)
           }
         })"

section \<open>The daemon\<close>

definition daemon_options :: "cli_option list" where
  "daemon_options =
     [cli_opt ''socket'' Required_argument CHR ''s'' ''path of where to create the UNIX socket'' (Some ''PATH''),
      cli_opt ''device'' Required_argument CHR ''d'' ''path of device containing the FlexAlloc system'' (Some ''DEVICE''),
      cli_opt ''md_device'' Optional_argument CHR ''m'' (''path to metadata device'' @ [CHR 0x0A]) (Some ''DEVICE'')]"

record daemon_args =
  da_socket :: "string option"
  da_device :: "string option"
  da_md_device :: "string option"

fun daemon_opts :: "getopt_ret list \<Rightarrow> daemon_args \<Rightarrow> daemon_args" where
  "daemon_opts [] p = p"
| "daemon_opts ((c, optarg) # es) p = daemon_opts es
     (if c = CHR ''s'' then p\<lparr>da_socket := optarg\<rparr>
      else if c = CHR ''d'' then p\<lparr>da_device := optarg\<rparr>
      else if c = CHR ''m'' then p\<lparr>da_md_device := optarg\<rparr>
      else p)"

definition FLA_SYS_FLEXALLOC_TYPE :: u32 where "FLA_SYS_FLEXALLOC_TYPE = 1000"
definition FLA_SYS_FLEXALLOC_V1 :: u32 where "FLA_SYS_FLEXALLOC_V1 = 1"
definition MAX_CLIENTS :: nat where "MAX_CLIENTS = 110"

text \<open>
  \<open>main\<close>; \<open>mb\<close> are the message buffers of the loop, \<open>ps\<close> and \<open>socks\<close> what the operating system
  answers to it. The result is the exit code, the operating system and the devices. The names of the
  devices are the copies that \<open>fla_open\<close> has made of the arguments; when it returns 0, the memory for
  them was there.
\<close>

definition daemon_main ::
  "'d xnvme \<Rightarrow> string list \<Rightarrow> u8 list \<times> u8 list \<Rightarrow> poll_round list \<Rightarrow> (int \<Rightarrow> sock) \<Rightarrow> daemon_os \<Rightarrow> 'd
    \<Rightarrow> (int \<times> daemon_os \<times> 'd) option" where
  "daemon_main X args mb ps socks os d =
     (let p = daemon_opts (fst (getopt_long ''vs:d:m:'' daemon_options args))
                \<lparr>da_socket = None, da_device = None, da_md_device = None\<rparr>
      in case (da_socket p, da_device p) of
        (Some socket_path, Some device) \<Rightarrow>
          let (err, ds, os) = fla_daemon_create (x_malloc X Malloc_fs) (path_bytes socket_path) (int MAX_CLIENTS) os
          in if err \<noteq> 0 then Some (1, os, d)
             else do {
               (err, opened) \<leftarrow> fla_open X (da_md_device p \<noteq> None) d;
               if err \<noteq> 0 then Some (err, os, d)
               else do {
                 (fs, buf) \<leftarrow> opened;
                 copy \<leftarrow> fla_strdup (x_malloc X Malloc_dev_uri) (path_bytes device @ [0]);
                 dev_uri \<leftarrow> copy;
                 md_dev_uri \<leftarrow> (case da_md_device p of None \<Rightarrow> Some None
                   | Some md_device \<Rightarrow> fla_strdup (x_malloc X Malloc_md_dev_uri) (path_bytes md_device @ [0]));
                 let D = \<lparr>dm_base = \<lparr>ba_fs = fs, ba_buf = buf, ba_dev = d\<rparr>, dm_dev_uri = dev_uri, dm_md_dev_uri = md_dev_uri,
                          dm_identity = \<lparr>id_type = FLA_SYS_FLEXALLOC_TYPE, id_version = FLA_SYS_FLEXALLOC_V1\<rparr>,
                          dm_recv = fst mb, dm_send = snd mb\<rparr>;
                 (err, L) \<leftarrow> fla_daemon_loop (msg_handler X) (Some True) (ds_listen_fd ds) (nat (ds_max_clients ds)) ps D socks;
                 let b = dm_base (lo_daemon L);
                 let (err, os) = (if err \<noteq> 0 then (err, os) else let (err, ds, os) = fla_daemon_destroy ds os in (err, os));
                 if err \<noteq> 0 then do {
                   (_, fs, d) \<leftarrow> fla_base_close X (ba_fs b) (ba_buf b) (ba_dev b);
                   Some (err, os, d)
                 }
                 else Some (0, os, ba_dev b)
               }
             }
      | _ \<Rightarrow> Some (2, os, d))"


section \<open>The arguments of mkfs\<close>

text \<open>An option that needs an argument is returned with one.\<close>

lemma short_opts_arg:
  "(c, None) \<in> set (fst (short_opts spec cs rest)) \<Longrightarrow> c \<noteq> CHR ''?'' \<Longrightarrow> find_short spec c \<noteq> Some Required_argument"
  by (induction spec cs rest rule: short_opts.induct)
    (auto split: option.splits list.splits has_arg.splits prod.splits if_splits)

lemma find_long_in: "find_long opts name = Some opt \<Longrightarrow> opt \<in> set opts"
  by (auto simp: find_long_def filter_eq_Cons_iff split: list.splits if_splits)

lemma long_opt_arg:
  "fst (long_opt opts body rest) = (c, None) \<Longrightarrow> c \<noteq> CHR ''?'' \<Longrightarrow> \<exists>opt\<in>set opts. co_val opt = c \<and> co_has_arg opt \<noteq> Required_argument"
  by (auto simp: long_opt_def Let_def split: option.splits list.splits if_splits dest: find_long_in)

lemma getopt_arg:
  assumes "(c, None) \<in> set (fst (getopt_long spec opts args))" "c \<noteq> CHR ''?''" "find_short spec c = Some Required_argument"
  shows "\<exists>opt\<in>set opts. co_val opt = c \<and> co_has_arg opt \<noteq> Required_argument"
  using assms
proof (induction spec opts args rule: getopt_long.induct)
  case (2 spec opts a args)
  show ?case
  proof (cases "a = ''--'' \<or> take 2 a = ''--''")
    case True
    then show ?thesis using 2 long_opt_arg [of opts "drop 2 a" args c] by (auto split: prod.splits if_splits)
  next
    case False
    then show ?thesis using 2 short_opts_arg [of c spec "drop 1 a" args] by (auto split: prod.splits if_splits)
  qed
qed simp

definition small_nums :: "mkfs_args \<Rightarrow> bool" where
  "small_nums p \<longleftrightarrow> unat (ma_slab_nlb p) < 2 ^ 31 \<and> unat (ma_npools p) < 2 ^ 31"

lemma num_arg_small: "num_arg (Some s) = Some (v, False) \<Longrightarrow> unat (word_of_int v :: u32) < 2 ^ 31"
  by (auto simp: num_arg_def INT_MAX_def split: prod.splits) (simp add: unat_eq_nat_uint uint_word_of_int)

lemma mkfs_opts_run:
  assumes "\<forall>c\<in>{CHR ''s'', CHR ''p''}. (c, None) \<notin> set es"
  shows "\<exists>r p'. mkfs_opts es err p = Some (r, p')
    \<and> (r = Inl FLA_MKFS_SHOW_USAGE \<or> (r = Inr err \<or> r = Inr (- 1)) \<and> (r = Inr 0 \<longrightarrow> small_nums p \<longrightarrow> small_nums p'))"
  using assms
proof (induction es err p rule: mkfs_opts.induct)
  case (2 c optarg es err p)
  have num: "\<exists>v inv. num_arg optarg = Some (v, inv) \<and> (\<not> inv \<longrightarrow> unat (word_of_int v :: u32) < 2 ^ 31)" if c: "c \<in> {CHR ''s'', CHR ''p''}"
  proof -
    obtain str where "optarg = Some str" using c 2(6) by (cases optarg) auto
    moreover obtain v inv where "num_arg (Some str) = Some (v, inv)" by (cases "strtol str") (simp add: num_arg_def)
    ultimately show ?thesis using num_arg_small [of str v] by auto
  qed
  show ?case
  proof (cases "c = CHR ''s'' \<or> c = CHR ''p''")
    case True
    then obtain v inv where v: "num_arg optarg = Some (v, inv)" "\<not> inv \<longrightarrow> unat (word_of_int v :: u32) < 2 ^ 31" using num by blast
    then show ?thesis using True 2(2) [OF _ _ _ v(1) refl] 2(3) [OF _ _ _ _ v(1) refl] 2(6)
      by (cases inv) (auto simp: small_nums_def)
  next
    case False
    then show ?thesis using 2(1,4,5,6) by (auto simp: small_nums_def)
  qed
qed simp


lemma mkfs_required: "c \<in> {CHR ''s'', CHR ''p''} \<Longrightarrow> (c, None) \<notin> set (fst (getopt_long ''vhs:p:m:'' mkfs_options args))"
  using getopt_arg [of c "''vhs:p:m:''" mkfs_options args] by (auto simp: mkfs_options_def cli_opt_def)

text \<open>
  C10: The arguments of \<open>mkfs.flexalloc\<close>, whatever they are: parsing them returns, with 0, with -1 or with
  the request for the usage text. When it returns 0, exactly one argument that is no option was given
  and is the device, the size of a slab is positive, and it and the number of pools are below \<open>2^31\<close>.
\<close>

theorem fla_mkfs_parse_args_ok:
  "\<exists>err p. fla_mkfs_parse_args args mkfs_args_zero = Some (err, p) \<and> err \<in> {0, - 1, FLA_MKFS_SHOW_USAGE}
    \<and> (err = 0 \<longrightarrow> (\<exists>dev. snd (getopt_long ''vhs:p:m:'' mkfs_options args) = [dev] \<and> ma_dev_uri p = Some dev)
        \<and> 0 < unat (ma_slab_nlb p) \<and> unat (ma_slab_nlb p) < 2 ^ 31 \<and> unat (ma_npools p) < 2 ^ 31)"
proof -
  obtain es pos where g: "getopt_long ''vhs:p:m:'' mkfs_options args = (es, pos)" by fastforce
  have "\<forall>c\<in>{CHR ''s'', CHR ''p''}. (c, None) \<notin> set es" using mkfs_required [of _ args] g by auto
  from mkfs_opts_run [OF this, of 0 mkfs_args_zero] obtain r p where r: "mkfs_opts es 0 mkfs_args_zero = Some (r, p)"
    "r = Inl FLA_MKFS_SHOW_USAGE \<or> (r = Inr 0 \<or> r = Inr (- 1)) \<and> (r = Inr 0 \<longrightarrow> small_nums mkfs_args_zero \<longrightarrow> small_nums p)" by blast
  have z: "small_nums mkfs_args_zero" by (simp add: small_nums_def mkfs_args_zero_def)
  obtain err q where q: "(case r of Inl err \<Rightarrow> (err, p) | Inr err \<Rightarrow> mkfs_positional pos err p) = (err, q)" by fastforce
  then have "fla_mkfs_parse_args args mkfs_args_zero = Some (err, q)" using r(1) g by (simp add: fla_mkfs_parse_args_def)
  moreover have "err \<in> {0, - 1, FLA_MKFS_SHOW_USAGE}" using q r(2) by (auto simp: mkfs_positional_def Let_def split: list.splits if_splits)
  moreover have "(\<exists>dev. pos = [dev] \<and> ma_dev_uri q = Some dev) \<and> 0 < unat (ma_slab_nlb q) \<and> small_nums q" if "err = 0"
    using q r(2) z \<open>err = 0\<close>
    by (auto simp: mkfs_positional_def Let_def small_nums_def unat_gt_0 FLA_MKFS_SHOW_USAGE_def split: list.splits if_splits)
  ultimately show ?thesis using g by (auto simp: small_nums_def)
qed

theorem fla_mkfs_parse_args_ok_witness:
  "\<exists>p. fla_mkfs_parse_args [''disk'', ''-vs0x10''] mkfs_args_zero = Some (0, p) \<and> ma_dev_uri p = Some ''disk'' \<and> ma_slab_nlb p = 16
    \<and> unat (ma_npools p) < 2 ^ 31"
proof -
  have "strtol ''0x10'' = (16, True)"
    by (simp add: strtol_def isspace_def digit_val_def digits_val_def LONG_MAX_def Let_def)
  then have "fla_mkfs_parse_args [''disk'', ''-vs0x10''] mkfs_args_zero
    = Some (0, mkfs_args_zero\<lparr>ma_verbose := 1, ma_slab_nlb := 16, ma_dev_uri := Some ''disk''\<rparr>)"
    by (simp add: fla_mkfs_parse_args_def num_arg_def INT_MAX_def mkfs_args_zero_def mkfs_positional_def)
  then show ?thesis using fla_mkfs_parse_args_ok [of "[''disk'', ''-vs0x10'']"] by auto
qed

text \<open>The usual command line.\<close>

lemma mkfs_parse_usual:
  assumes "0 < n" "int n \<le> INT_MAX" "0 < m" "int m \<le> INT_MAX" "take 1 dev \<noteq> ''-''"
  shows "fla_mkfs_parse_args [''-s'', dec n, ''-p'', dec m, dev] mkfs_args_zero
    = Some (0, \<lparr>ma_dev_uri = Some dev, ma_md_dev_uri = None, ma_slab_nlb = of_nat n, ma_npools = of_nat m, ma_verbose = 0\<rparr>)"
proof -
  have "dev \<noteq> ''--''" "take 2 dev \<noteq> ''--''" using assms(5) by (cases dev; auto)+
  then have g: "getopt_long ''vhs:p:m:'' mkfs_options [''-s'', dec n, ''-p'', dec m, dev]
    = ([(CHR ''s'', Some (dec n)), (CHR ''p'', Some (dec m))], [dev])"
    using assms(5) by (simp add: numeral_eq_Suc)
  have "int n \<le> LONG_MAX" "int m \<le> LONG_MAX" using assms(2,4) by (simp_all add: INT_MAX_def LONG_MAX_def)
  then have "strtol (dec n) = (int n, True)" "strtol (dec m) = (int m, True)" using strtol_dec assms(1,3) by simp_all
  moreover have "(of_nat n :: u32) \<noteq> 0" using assms(1,2) by (simp add: INT_MAX_def word_of_nat_eq_0_iff nat_dvd_not_less)
  ultimately show ?thesis unfolding fla_mkfs_parse_args_def g using assms(1-4)
    by (simp add: num_arg_def mkfs_args_zero_def mkfs_positional_def)
qed

text \<open>
  C7: The two programs together: \<open>mkfs.flexalloc -s n -p m dev\<close> and then \<open>fla_inspect dev\<close> both exit with
  0, and the second has nothing to report. This is on a conventional device without errors for numbers
  from which a geometry can be computed.
\<close>

theorem mkfs_then_inspect:
  assumes "media X blk Data_dev" "works X Data_dev" "plain_dev X"
    "mkfs_geo X \<lparr>mp_md_dev_uri = False, mp_slab_nlb = of_nat n, mp_npools = of_nat m\<rparr> geo0 geo"
    "2 \<le> unat (g_nslabs geo)" "unat (g_npools geo) \<le> 2 ^ 15"
    "0 < n" "int n \<le> INT_MAX" "0 < m" "int m \<le> INT_MAX" "take 1 dev \<noteq> ''-''"
  shows "\<exists>d'. mkfs_main X geo0 [''-s'', dec n, ''-p'', dec m, dev] d = Some (0, d') \<and> inspect_main X [dev] d' = Some (0, [])"
proof -
  from mkfs_inspect_clean [OF assms(1-6), of d] obtain d' fs buf fs' where
    r: "fla_mkfs X \<lparr>mp_md_dev_uri = False, mp_slab_nlb = of_nat n, mp_npools = of_nat m\<rparr> geo0 d = Some (0, d')"
      "fla_open X False d' = Some (0, Some (fs, buf))" "inspect_fs fs = Some ([], fs')" by blast
  have "dev \<noteq> ''--''" "take 2 dev \<noteq> ''--''" using assms(11) by (cases dev; auto)+
  then have "getopt_long ''h'' inspect_options [dev] = ([], [dev])" using assms(11) by simp
  then have "inspect_main X [dev] d' = Some (0, [])" using r(2,3) by (simp add: inspect_main_def)
  moreover have "mkfs_main X geo0 [''-s'', dec n, ''-p'', dec m, dev] d = Some (0, d')"
    using r(1) by (simp add: mkfs_main_def mkfs_parse_usual [OF assms(7-11)] mkfs_params_def)
  ultimately show ?thesis by blast
qed

theorem mkfs_then_inspect_witness:
  "\<exists>d'. mkfs_main mem_xnvme (fs_geo fs_zero) [''-s'', dec 200, ''-p'', dec 2, ''/dev/nvme0n1''] (\<lambda>_ _. []) = Some (0, d')
    \<and> inspect_main mem_xnvme [''/dev/nvme0n1''] d' = Some (0, [])"
  by (rule mkfs_then_inspect [OF mem_media mem_works mem_plain, of 200 2 "fs_geo fs_zero" geo_example])
    (use mkfs_example_geo in \<open>simp_all add: mkfs_example_def geo_example_def INT_MAX_def\<close>)

text \<open>An option that is not known is passed over, and so is the failure of formatting.\<close>

lemma mkfs_unknown_option: "fla_mkfs_parse_args [''-q'', ''-s'', ''8'', ''disk''] mkfs_args_zero
    = fla_mkfs_parse_args [''-s'', ''8'', ''disk''] mkfs_args_zero"
  by (simp add: fla_mkfs_parse_args_def)

lemma mkfs_failure_lost:
  assumes "fla_mkfs_parse_args args mkfs_args_zero = Some (0, p)" "fla_mkfs X (mkfs_params p) geo0 d = Some (err, d')"
  shows "mkfs_main X geo0 args d = Some (0, d')"
  using assms by (simp add: mkfs_main_def)

text \<open>The long option for the metadata device takes its argument only after an equals sign.\<close>

lemma mkfs_md_dev_separate:
  "fst (the (fla_mkfs_parse_args [''-s'', ''8'', ''--md_dev'', ''meta'', ''disk''] mkfs_args_zero)) = - 1"
  "ma_md_dev_uri (snd (the (fla_mkfs_parse_args [''-s'', ''8'', ''--md_dev=meta'', ''disk''] mkfs_args_zero))) = Some ''meta''"
  by (simp_all add: fla_mkfs_parse_args_def mkfs_options_def cli_opt_def long_opt_def find_long_def num_arg_def strtol_def
    isspace_def digit_val_def digits_val_def LONG_MAX_def INT_MAX_def Let_def mkfs_positional_def mkfs_args_zero_def)

section \<open>Restarting the daemon\<close>

lemma daemon_create_file: "fla_daemon_create ok path n os = (0, ds, os') \<Longrightarrow> os_file os'"
  by (auto simp: fla_daemon_create_def Let_def split: if_splits prod.splits)

lemma daemon_create_exists: "os_file os \<Longrightarrow> fst (fla_daemon_create ok path n os) \<noteq> 0"
  by (simp add: fla_daemon_create_def Let_def)

lemma daemon_destroy_keeps: "os_file os \<Longrightarrow> fla_daemon_destroy ds os = (err, ds', os') \<Longrightarrow> os' = os"
  by (auto simp: fla_daemon_destroy_def Let_def split: if_splits)

text \<open>
  A daemon that has shut down normally cannot be started again. The comment in \<open>fla_daemon_destroy\<close> says
  that the socket file is removed when it exists, but the condition is the opposite one: the file stays,
  and every later start with this path ends with the exit code 1 before a device is opened.
\<close>

lemma daemon_restart_fails:
  assumes "daemon_main X args mb ps socks os d = Some (0, os', d')"
  shows "os_file os' \<and> daemon_main X args mb' ps' socks' os' d' = Some (1, os', d')"
proof -
  let ?p = "daemon_opts (fst (getopt_long ''vs:d:m:'' daemon_options args)) \<lparr>da_socket = None, da_device = None, da_md_device = None\<rparr>"
  obtain sp dv where p: "da_socket ?p = Some sp" "da_device ?p = Some dv"
    using assms by (auto simp: daemon_main_def Let_def split: option.splits)
  obtain ds os1 where c: "fla_daemon_create (x_malloc X Malloc_fs) (path_bytes sp) (int MAX_CLIENTS) os = (0, ds, os1)"
    using assms p by (auto simp: daemon_main_def Let_def split: prod.splits if_splits)
  have "os' = os1" using assms p c daemon_destroy_keeps [OF daemon_create_file [OF c]]
    by (auto simp: daemon_main_def Let_def split: bind_splits prod.splits if_splits)
  then have f: "os_file os'" using daemon_create_file [OF c] by simp
  then show ?thesis using p daemon_create_exists [OF f] by (simp add: daemon_main_def Let_def fla_daemon_create_def)
qed

lemma daemon_restart_example:
  "\<exists>d os'. daemon_main mem_xnvme [''-s'', ''sock'', ''--device=disk''] ([], []) [ex_round False False] (\<lambda>_. ex_sock)
      \<lparr>os_file = False, os_socket = 3, os_bind = 0, os_listen = 0, os_close = 0, os_unlink = 0\<rparr> d = Some (0, os', d)
    \<and> daemon_main mem_xnvme [''-s'', ''sock'', ''--device=disk''] ([], []) [] (\<lambda>_. ex_sock) os' d = Some (1, os', d)"
proof -
  let ?os = "\<lparr>os_file = False, os_socket = 3, os_bind = 0, os_listen = 0, os_close = 0, os_unlink = 0\<rparr>"
  let ?args = "[''-s'', ''sock'', ''--device=disk'']"
  from mkfs_open_run [OF mem_media mem_works mem_plain mkfs_example_geo, of "\<lambda>_ _. []" "\<lambda>_. 0"] obtain d fs buf where
    o: "fla_open mem_xnvme False d = Some (0, Some (fs, buf))" by (auto simp: geo_example_def)
  have g: "getopt_long ''vs:d:m:'' daemon_options ?args = ([(CHR ''s'', Some ''sock''), (CHR ''d'', Some ''disk'')], [])"
    by (simp add: daemon_options_def cli_opt_def long_opt_def find_long_def)
  have "x_malloc mem_xnvme Malloc_fs" "x_malloc mem_xnvme Malloc_dev_uri" by (simp_all add: mem_xnvme_def)
  moreover have "0 \<in> set (path_bytes ''disk'' @ [0])" by simp
  ultimately have "\<exists>os'. daemon_main mem_xnvme ?args ([], []) [ex_round False False] (\<lambda>_. ex_sock) ?os d = Some (0, os', d)"
    unfolding daemon_main_def g using o by (simp add: Let_def fla_strdup_cstr fla_daemon_create_def fla_sock_sockaddr_init_def cstr_def fla_fs_alloc_def MAX_CLIENTS_def
      fla_daemon_loop_def loop_start_def ex_round_def fla_daemon_destroy_def)
  then show ?thesis using daemon_restart_fails [where X = mem_xnvme and args = ?args] by blast
qed

end
