(* ===== verification/Fla_Fio.thy ===== *)
theory Fla_Fio
  imports Fla_Args Fla_Client Fla_Persist
begin

text \<open>
  The engine for the benchmark program fio, \<open>src/fio-ioengine/flexalloc.c\<close>. The threads of fio that work
  on one device share one file system: the first thread that is initialised opens it, the last one
  that is cleaned up closes it, and both happen under one lock. A thread publishes its data before it
  takes the lock, and fio takes the pointer out of the thread after the lock is released, so that
  threads also see each other between these points. The structures are in a store and are named by
  their addresses, so that a pointer to a structure that was freed is visible.

  The engine creates its pool by a call of \<open>fla_pool_create\<close> with five arguments and stripes it by a
  call of \<open>fla_pool_set_strp\<close>. The library has neither function, so that both are parameters.
\<close>

section \<open>Structures\<close>

record flexalloc_options =
  fo_daemon_uri :: "string option"
  fo_dev_uri :: "string option"
  fo_md_dev_uri :: "string option"
  fo_poolname :: "string option"
  fo_strp_nobj :: int
  fo_strp_nbyte :: int

record flexalloc_data =
  fa_fs :: "nat option"
  fa_pool :: "fla_pool option"
  fa_object :: "fla_object list"

text \<open>What the engine uses of the structures of fio.\<close>

record thread_options =
  to_ioengine :: string
  to_name :: string
  to_file_size_low :: u64
  to_file_size_high :: u64
  to_odirect :: bool
  to_use_thread :: bool
  to_nr_files :: nat

record thread_data =
  td_thread_number :: nat
  td_subjob_number :: nat
  td_o :: thread_options
  td_eo :: "flexalloc_options option"
  td_io_ops_data :: "nat option"

record fio_file =
  ff_fileno :: nat
  ff_engine_pos :: bool
  ff_real_file_size :: u64
  ff_size_known :: bool

datatype ddir = DDIR_READ | DDIR_WRITE | DDIR_SYNC | DDIR_DATASYNC | DDIR_SYNC_FILE_RANGE | DDIR_OTHER

record io_u =
  io_ddir :: ddir
  io_offset :: u64
  io_xfer_buf :: "u8 list"
  io_xfer_buflen :: u64
  io_error :: int

text \<open>
  A file system that the process has opened itself, with the path of its device and its metadata
  buffer, or one of the daemon. The state of a device is found under its path.
\<close>

datatype 'w fio_fs = Direct_fs "u8 list" flexalloc "u8 list" | Daemon_fs "'w fla_daemon_client"

record ('d, 'w) fio_state =
  fi_tds :: "thread_data list"
  fi_fs :: "nat \<Rightarrow> 'w fio_fs option"
  fi_data :: "nat \<Rightarrow> flexalloc_data option"
  fi_next :: nat
  fi_devs :: "u8 list \<Rightarrow> 'd"

text \<open>
  The world around the engine: the devices by their paths, the process behind the socket, what
  \<open>socket\<close> and \<open>connect\<close> return for a thread and its client structure, and the two missing functions.
\<close>

record ('d, 'w) fio_env =
  fe_xnvme :: "u8 list \<Rightarrow> 'd xnvme"
  fe_peer :: "'w peer"
  fe_client :: "nat \<Rightarrow> int \<times> int \<times> sock \<times> 'w fla_daemon_client"
  fe_pool_create :: "string \<Rightarrow> u64 \<Rightarrow> ('d, 'w) handle \<Rightarrow> (int \<times> ('d, 'w) handle \<times> fla_pool option) option"
  fe_pool_set_strp :: "fla_pool \<Rightarrow> int \<Rightarrow> int \<Rightarrow> ('d, 'w) handle \<Rightarrow> (int \<times> ('d, 'w) handle) option"

section \<open>Access to the store\<close>

definition ioengine_name :: string where "ioengine_name = ''flexalloc''"

definition fs_path :: "'w fio_fs \<Rightarrow> u8 list" where
  "fs_path c = (case c of Direct_fs uri fs buf \<Rightarrow> uri | Daemon_fs C \<Rightarrow> (case cl_dev_uri C of None \<Rightarrow> [] | Some uri \<Rightarrow> uri))"

definition get_handle :: "('d, 'w) fio_state \<Rightarrow> nat \<Rightarrow> ('d, 'w) handle option" where
  "get_handle S p = do {
     c \<leftarrow> fi_fs S p;
     Some (case c of Direct_fs uri fs buf \<Rightarrow> Base_fns \<lparr>ba_fs = fs, ba_buf = buf, ba_dev = fi_devs S uri\<rparr> | Daemon_fs C \<Rightarrow> Client_fns C)
   }"

definition put_handle :: "nat \<Rightarrow> u8 list \<Rightarrow> ('d, 'w) handle \<Rightarrow> ('d, 'w) fio_state \<Rightarrow> ('d, 'w) fio_state" where
  "put_handle p uri h S = (case h of
       Base_fns b \<Rightarrow> S\<lparr>fi_fs := (fi_fs S)(p \<mapsto> Direct_fs uri (ba_fs b) (ba_buf b)), fi_devs := (fi_devs S)(uri := ba_dev b)\<rparr>
     | Client_fns C \<Rightarrow> S\<lparr>fi_fs := (fi_fs S)(p \<mapsto> Daemon_fs C)\<rparr>)"

text \<open>A call of the library on the file system at an address.\<close>

definition on_fs ::
  "('d, 'w) fio_env \<Rightarrow> nat \<Rightarrow> ('d xnvme \<Rightarrow> ('d, 'w) handle \<Rightarrow> ('a \<times> ('d, 'w) handle) option) \<Rightarrow> ('d, 'w) fio_state
    \<Rightarrow> ('a \<times> ('d, 'w) fio_state) option" where
  "on_fs E p call S = do {
     c \<leftarrow> fi_fs S p;
     h \<leftarrow> get_handle S p;
     (r, h) \<leftarrow> call (fe_xnvme E (fs_path c)) h;
     Some (r, put_handle p (fs_path c) h S)
   }"

definition get_td :: "('d, 'w) fio_state \<Rightarrow> nat \<Rightarrow> thread_data option" where
  "get_td S i = rd (fi_tds S) i"

definition set_td_data :: "nat \<Rightarrow> nat option \<Rightarrow> ('d, 'w) fio_state \<Rightarrow> ('d, 'w) fio_state" where
  "set_td_data i a S = S\<lparr>fi_tds := (fi_tds S)[i := (fi_tds S ! i)\<lparr>td_io_ops_data := a\<rparr>]\<rparr>"

definition get_fad :: "('d, 'w) fio_state \<Rightarrow> nat \<Rightarrow> flexalloc_data option" where
  "get_fad S i = do {
     td \<leftarrow> get_td S i;
     a \<leftarrow> td_io_ops_data td;
     fi_data S a
   }"

definition set_fad :: "nat \<Rightarrow> flexalloc_data \<Rightarrow> ('d, 'w) fio_state \<Rightarrow> ('d, 'w) fio_state" where
  "set_fad a fad S = S\<lparr>fi_data := (fi_data S)(a \<mapsto> fad)\<rparr>"

section \<open>The engine\<close>

definition daemon_mode :: "flexalloc_options \<Rightarrow> bool" where
  "daemon_mode opts \<longleftrightarrow> fo_daemon_uri opts \<noteq> None"

text \<open>Reading and writing use the file system structure itself, of a client too.\<close>

definition fio_object_read ::
  "('d, 'w) fio_env \<Rightarrow> nat \<Rightarrow> fla_pool \<Rightarrow> fla_object \<Rightarrow> io_u \<Rightarrow> ('d, 'w) fio_state \<Rightarrow> (int \<times> u8 list) option" where
  "fio_object_read E p pool ob u S = do {
     c \<leftarrow> fi_fs S p;
     fs \<leftarrow> (case c of Direct_fs uri fs buf \<Rightarrow> Some fs | Daemon_fs C \<Rightarrow> cl_fs C);
     fla_object_read (fe_xnvme E (fs_path c)) fs pool ob (io_xfer_buf u) (io_offset u) (io_xfer_buflen u) (fi_devs S (fs_path c))
   }"

definition fio_object_write ::
  "('d, 'w) fio_env \<Rightarrow> nat \<Rightarrow> fla_pool \<Rightarrow> fla_object \<Rightarrow> io_u \<Rightarrow> ('d, 'w) fio_state \<Rightarrow> (int \<times> ('d, 'w) fio_state) option" where
  "fio_object_write E p pool ob u S = do {
     c \<leftarrow> fi_fs S p;
     fs \<leftarrow> (case c of Direct_fs uri fs buf \<Rightarrow> Some fs | Daemon_fs C \<Rightarrow> cl_fs C);
     (err, fs, d) \<leftarrow> fla_object_write (fe_xnvme E (fs_path c)) fs pool ob (io_xfer_buf u) (io_offset u) (io_xfer_buflen u) (fi_devs S (fs_path c));
     let c' = (case c of Direct_fs uri _ buf \<Rightarrow> Direct_fs uri fs buf | Daemon_fs C \<Rightarrow> Daemon_fs (C\<lparr>cl_fs := Some fs\<rparr>));
     Some (err, S\<lparr>fi_fs := (fi_fs S)(p \<mapsto> c'), fi_devs := (fi_devs S)(fs_path c := d)\<rparr>)
   }"

text \<open>\<open>fio_flexalloc_queue\<close> for thread \<open>i\<close>; it always returns \<open>FIO_Q_COMPLETED\<close>.\<close>

definition fio_flexalloc_queue ::
  "('d, 'w) fio_env \<Rightarrow> nat \<Rightarrow> fio_file \<Rightarrow> io_u \<Rightarrow> ('d, 'w) fio_state \<Rightarrow> (io_u \<times> ('d, 'w) fio_state) option" where
  "fio_flexalloc_queue E i f u S = do {
     let u = u\<lparr>io_error := 0\<rparr>;
     (ret, u, S) \<leftarrow> (case io_ddir u of
         DDIR_READ \<Rightarrow> do {
           fad \<leftarrow> get_fad S i;
           p \<leftarrow> fa_fs fad;
           pool \<leftarrow> fa_pool fad;
           ob \<leftarrow> rd (fa_object fad) (ff_fileno f);
           (ret, buf) \<leftarrow> fio_object_read E p pool ob u S;
           Some (ret, u\<lparr>io_xfer_buf := buf\<rparr>, S)
         }
       | DDIR_WRITE \<Rightarrow> do {
           fad \<leftarrow> get_fad S i;
           p \<leftarrow> fa_fs fad;
           pool \<leftarrow> fa_pool fad;
           ob \<leftarrow> rd (fa_object fad) (ff_fileno f);
           (ret, S) \<leftarrow> fio_object_write E p pool ob u S;
           Some (ret, u, S)
         }
       | DDIR_OTHER \<Rightarrow> Some (0, u\<lparr>io_error := EINVAL\<rparr>, S)
       | _ \<Rightarrow> do {
           fad \<leftarrow> get_fad S i;
           p \<leftarrow> fa_fs fad;
           (ret, S) \<leftarrow> on_fs E p (\<lambda>X h. fla_sync X (fe_peer E) h) S;
           Some (ret, u, S)
         });
     Some (if ret \<noteq> 0 then u\<lparr>io_error := EIO\<rparr> else u, S)
   }"

definition fio_flexalloc_object_open ::
  "('d, 'w) fio_env \<Rightarrow> nat \<Rightarrow> fio_file \<Rightarrow> ('d, 'w) fio_state \<Rightarrow> (int \<times> fio_file \<times> ('d, 'w) fio_state) option" where
  "fio_flexalloc_object_open E i f S = do {
     td \<leftarrow> get_td S i;
     a \<leftarrow> td_io_ops_data td;
     fad \<leftarrow> fi_data S a;
     p \<leftarrow> fa_fs fad;
     pool \<leftarrow> fa_pool fad;
     if to_nr_files (td_o td) \<le> ff_fileno f then None
     else if ff_engine_pos f then do {
       ob \<leftarrow> rd (fa_object fad) (ff_fileno f);
       (ret, S) \<leftarrow> on_fs E p (\<lambda>X h. fla_object_open X (fe_peer E) h pool ob) S;
       Some (ret, f, S)
     }
     else do {
       ((ret, ob), S) \<leftarrow> on_fs E p (\<lambda>X h. do { (ret, h, ob) \<leftarrow> fla_object_create X (fe_peer E) h pool; Some ((ret, ob), h) }) S;
       objs \<leftarrow> (case ob of None \<Rightarrow> Some (fa_object fad) | Some ob \<Rightarrow> wr (fa_object fad) (ff_fileno f) ob);
       Some (ret, if ret = 0 then f\<lparr>ff_engine_pos := True\<rparr> else f, set_fad a (fad\<lparr>fa_object := objs\<rparr>) S)
     }
   }"

definition fio_flexalloc_object_close :: "nat \<Rightarrow> fio_file \<Rightarrow> int" where
  "fio_flexalloc_object_close i f = 0"

text \<open>Whether a thread other than the one with number \<open>n\<close> has data and the same device.\<close>

fun other_user :: "nat \<Rightarrow> string option \<Rightarrow> thread_data list \<Rightarrow> bool" where
  "other_user n dev_uri [] = False"
| "other_user n dev_uri (td2 # tds) =
     (if n = td_thread_number td2 then other_user n dev_uri tds
      else if to_ioengine (td_o td2) \<noteq> ioengine_name then other_user n dev_uri tds
      else (case td_eo td2 of
          None \<Rightarrow> other_user n dev_uri tds
        | Some fao2 \<Rightarrow>
            if fo_dev_uri fao2 = None \<or> dev_uri = None \<or> fo_dev_uri fao2 \<noteq> dev_uri then other_user n dev_uri tds
            else if td_io_ops_data td2 \<noteq> None then True
            else other_user n dev_uri tds))"

text \<open>\<open>fla_close\<close> frees the structure when it returns 0; its result is not used by the engine and returned here.\<close>

definition close_fs :: "('d, 'w) fio_env \<Rightarrow> nat \<Rightarrow> ('d, 'w) fio_state \<Rightarrow> (int \<times> ('d, 'w) fio_state) option" where
  "close_fs E p S = do {
     (err, S) \<leftarrow> on_fs E p fla_close S;
     Some (err, if err = 0 then S\<lparr>fi_fs := (fi_fs S)(p := None)\<rparr> else S)
   }"

definition fio_flexalloc_cleanup_direct :: "('d, 'w) fio_env \<Rightarrow> nat \<Rightarrow> ('d, 'w) fio_state \<Rightarrow> (int \<times> ('d, 'w) fio_state) option" where
  "fio_flexalloc_cleanup_direct E i S = do {
     td \<leftarrow> get_td S i;
     opts \<leftarrow> td_eo td;
     (case td_io_ops_data td of
        None \<Rightarrow> Some (0, S)
      | Some a \<Rightarrow> do {
          fad \<leftarrow> fi_data S a;
          (case fa_fs fad of
             None \<Rightarrow> Some (0, S)
           | Some p \<Rightarrow> do {
               (err, S) \<leftarrow> (if other_user (td_thread_number td) (fo_dev_uri opts) (fi_tds S) then Some (0, S) else close_fs E p S);
               Some (err, S\<lparr>fi_data := (fi_data S)(a := None)\<rparr>)
             })
        })
   }"

definition fio_flexalloc_cleanup_daemon :: "('d, 'w) fio_env \<Rightarrow> nat \<Rightarrow> ('d, 'w) fio_state \<Rightarrow> (int \<times> ('d, 'w) fio_state) option" where
  "fio_flexalloc_cleanup_daemon E i S = do {
     td \<leftarrow> get_td S i;
     a \<leftarrow> td_io_ops_data td;
     fad \<leftarrow> fi_data S a;
     (err, S) \<leftarrow> (case fa_fs fad of None \<Rightarrow> Some (0, S) | Some p \<Rightarrow> close_fs E p S);
     Some (err, S\<lparr>fi_data := (fi_data S)(a := None)\<rparr>)
   }"

definition fio_flexalloc_cleanup :: "('d, 'w) fio_env \<Rightarrow> nat \<Rightarrow> ('d, 'w) fio_state \<Rightarrow> (int \<times> ('d, 'w) fio_state) option" where
  "fio_flexalloc_cleanup E i S = do {
     td \<leftarrow> get_td S i;
     opts \<leftarrow> td_eo td;
     if daemon_mode opts then fio_flexalloc_cleanup_daemon E i S else fio_flexalloc_cleanup_direct E i S
   }"

text \<open>
  The search of \<open>fio_flexalloc_open_direct\<close>: the file system of another thread. Comparing with a
  device that was not given, and the options of a thread that has none, give no result.
\<close>

fun find_fs :: "nat \<Rightarrow> string option \<Rightarrow> ('d, 'w) fio_state \<Rightarrow> thread_data list \<Rightarrow> nat option option" where
  "find_fs n dev_uri S [] = Some None"
| "find_fs n dev_uri S (td # tds) =
     (if n = td_thread_number td \<or> to_ioengine (td_o td) \<noteq> ioengine_name then find_fs n dev_uri S tds
      else do {
        fao \<leftarrow> td_eo td;
        if fo_dev_uri fao \<noteq> None \<and> dev_uri = None then None
        else if fo_dev_uri fao \<noteq> None \<and> fo_dev_uri fao \<noteq> dev_uri then find_fs n dev_uri S tds
        else (case td_io_ops_data td of
            None \<Rightarrow> find_fs n dev_uri S tds
          | Some a \<Rightarrow> do {
              fad \<leftarrow> fi_data S a;
              if fa_fs fad \<noteq> None then Some (fa_fs fad) else find_fs n dev_uri S tds
            })
      })"

text \<open>
  \<open>fla_open\<close> stores the address of the structure before anything else and does not take it back when
  it fails and frees the structure.
\<close>

definition fio_flexalloc_open_direct ::
  "('d, 'w) fio_env \<Rightarrow> string option \<Rightarrow> string option \<Rightarrow> nat \<Rightarrow> ('d, 'w) fio_state \<Rightarrow> (int \<times> nat option \<times> ('d, 'w) fio_state) option" where
  "fio_flexalloc_open_direct E dev_uri md_dev_uri n S = do {
     found \<leftarrow> find_fs n dev_uri S (fi_tds S);
     (case found of
        Some p \<Rightarrow> Some (0, Some p, S)
      | None \<Rightarrow> do {
          uri \<leftarrow> map_option path_bytes dev_uri;
          (err, opened) \<leftarrow> fla_open (fe_xnvme E uri) (md_dev_uri \<noteq> None) (fi_devs S uri);
          if err \<noteq> 0 then Some (err, if fla_fs_alloc (x_malloc (fe_xnvme E uri) Malloc_fs) = None then None else Some (fi_next S),
            S\<lparr>fi_next := Suc (fi_next S)\<rparr>)
          else do {
            (fs, buf) \<leftarrow> opened;
            Some (0, Some (fi_next S), S\<lparr>fi_fs := (fi_fs S)(fi_next S \<mapsto> Direct_fs uri fs buf), fi_next := Suc (fi_next S)\<rparr>)
          }
        })
   }"

definition fio_flexalloc_open_daemon ::
  "('d, 'w) fio_env \<Rightarrow> string \<Rightarrow> nat \<Rightarrow> ('d, 'w) fio_state \<Rightarrow> (int \<times> nat option \<times> ('d, 'w) fio_state) option" where
  "fio_flexalloc_open_daemon E daemon_uri i S = do {
     let (fd, conn, s, C) = fe_client E i;
     (err, C) \<leftarrow> fla_daemon_open (fe_xnvme E (fs_path (Daemon_fs C))) (fe_peer E) (path_bytes daemon_uri) fd conn s C;
     if err \<noteq> 0 then Some (err, None, S)
     else if cl_fs C = None then Some (0, None, S)
     else Some (0, Some (fi_next S), S\<lparr>fi_fs := (fi_fs S)(fi_next S \<mapsto> Daemon_fs C), fi_next := Suc (fi_next S)\<rparr>)
   }"

definition PATH_MAX :: nat where "PATH_MAX = 4096"

definition pool_name :: "flexalloc_options \<Rightarrow> thread_data \<Rightarrow> string" where
  "pool_name opts td = take (PATH_MAX - 1)
     ((case fo_poolname opts of Some name \<Rightarrow> name | None \<Rightarrow> to_name (td_o td)) @ ''.'' @ dec (td_subjob_number td))"

definition init_refused :: "thread_data \<Rightarrow> flexalloc_options \<Rightarrow> bool" where
  "init_refused td opts \<longleftrightarrow> to_file_size_low (td_o td) \<noteq> to_file_size_high (td_o td) \<or> \<not> to_odirect (td_o td)
     \<or> \<not> to_use_thread (td_o td) \<and> fo_daemon_uri opts = None
     \<or> fo_daemon_uri opts \<noteq> None \<and> (fo_dev_uri opts \<noteq> None \<or> fo_md_dev_uri opts \<noteq> None)
     \<or> fo_md_dev_uri opts \<noteq> None \<and> fo_dev_uri opts = None"

definition handle_fs :: "('d, 'w) handle \<Rightarrow> flexalloc option" where
  "handle_fs h = (case h of Base_fns b \<Rightarrow> Some (ba_fs b) | Client_fns C \<Rightarrow> cl_fs C)"

text \<open>The pool of the thread; the quotient is by the block size as an unsigned number.\<close>

definition init_pool ::
  "('d, 'w) fio_env \<Rightarrow> thread_data \<Rightarrow> flexalloc_options \<Rightarrow> ('d, 'w) handle \<Rightarrow> ((int \<times> fla_pool option) \<times> ('d, 'w) handle) option" where
  "init_pool E td opts h = do {
     fs \<leftarrow> handle_fs h;
     let lb = word_of_int (fla_fs_lb_nbytes fs);
     if lb = 0 then None
     else do {
       (ret, h, pool) \<leftarrow> fe_pool_create E (pool_name opts td) (to_file_size_low (td_o td) div lb) h;
       if ret \<noteq> 0 then Some ((ret, pool), h)
       else if fo_strp_nobj opts \<noteq> 0 \<and> fo_strp_nbyte opts \<noteq> 0
       then do {
         pl \<leftarrow> pool;
         (ret, h) \<leftarrow> fe_pool_set_strp E pl (fo_strp_nobj opts) (fo_strp_nbyte opts) h;
         Some ((ret, pool), h)
       }
       else Some ((0, pool), h)
     }
   }"

text \<open>
  \<open>fio_flexalloc_init\<close> in two parts: up to where the data of the thread is published, and from where
  the lock is taken (for a thread without daemon) to the end. \<open>calloc\<close> is asserted to succeed.
\<close>

definition init_publish :: "nat \<Rightarrow> ('d, 'w) fio_state \<Rightarrow> (int \<times> ('d, 'w) fio_state) option" where
  "init_publish i S = do {
     td \<leftarrow> get_td S i;
     opts \<leftarrow> td_eo td;
     if init_refused td opts then Some (1, S)
     else do {
       let a = fi_next S;
       let fad = \<lparr>fa_fs = None, fa_pool = None, fa_object = replicate (to_nr_files (td_o td)) \<lparr>ob_slab_id = 0, ob_entry_ndx = 0\<rparr>\<rparr>;
       Some (0, set_td_data i (Some a) (set_fad a fad (S\<lparr>fi_next := Suc a\<rparr>)))
     }
   }"

definition init_open :: "('d, 'w) fio_env \<Rightarrow> nat \<Rightarrow> ('d, 'w) fio_state \<Rightarrow> (int \<times> ('d, 'w) fio_state) option" where
  "init_open E i S = do {
     td \<leftarrow> get_td S i;
     opts \<leftarrow> td_eo td;
     a \<leftarrow> td_io_ops_data td;
     fad \<leftarrow> fi_data S a;
     (ret, p, S) \<leftarrow> (case fo_daemon_uri opts of
         Some daemon_uri \<Rightarrow> fio_flexalloc_open_daemon E daemon_uri i S
       | None \<Rightarrow> fio_flexalloc_open_direct E (fo_dev_uri opts) (fo_md_dev_uri opts) (td_thread_number td) S);
     let fad = fad\<lparr>fa_fs := p\<rparr>;
     let S = set_fad a fad S;
     if ret \<noteq> 0 then Some (ret, S)
     else do {
       p \<leftarrow> p;
       ((ret, pool), S) \<leftarrow> on_fs E p (\<lambda>X h. init_pool E td opts h) S;
       Some (ret, set_fad a (fad\<lparr>fa_pool := pool\<rparr>) S)
     }
   }"

definition fio_flexalloc_init :: "('d, 'w) fio_env \<Rightarrow> nat \<Rightarrow> ('d, 'w) fio_state \<Rightarrow> (int \<times> ('d, 'w) fio_state) option" where
  "fio_flexalloc_init E i S = do {
     (ret, S) \<leftarrow> init_publish i S;
     if ret \<noteq> 0 then Some (ret, S) else init_open E i S
   }"

definition fio_flexalloc_get_file_size :: "thread_data \<Rightarrow> fio_file \<Rightarrow> int \<times> fio_file" where
  "fio_flexalloc_get_file_size td f =
     (if ff_size_known f then (0, f) else (0, f\<lparr>ff_real_file_size := to_file_size_low (td_o td), ff_size_known := True\<rparr>))"


section \<open>Runs of the engine\<close>

text \<open>
  The threads of this engine, and the path of the device of a thread. In the runs below every thread of
  the engine opens a device itself and the thread numbers are different.
\<close>

definition ours :: "thread_data \<Rightarrow> bool" where
  "ours td \<longleftrightarrow> to_ioengine (td_o td) = ioengine_name"

definition td_dev :: "thread_data \<Rightarrow> string option" where
  "td_dev td = do { opts \<leftarrow> td_eo td; fo_dev_uri opts }"

definition direct_td :: "thread_data \<Rightarrow> bool" where
  "direct_td td \<longleftrightarrow> (\<exists>opts. td_eo td = Some opts \<and> fo_daemon_uri opts = None \<and> fo_dev_uri opts \<noteq> None)"

definition direct_job :: "('d, 'w) fio_state \<Rightarrow> bool" where
  "direct_job S \<longleftrightarrow> distinct (map td_thread_number (fi_tds S)) \<and> (\<forall>td\<in>set (fi_tds S). ours td \<longrightarrow> direct_td td)"

definition fio_start :: "('d, 'w) fio_state \<Rightarrow> bool" where
  "fio_start S \<longleftrightarrow> direct_job S \<and> (\<forall>td\<in>set (fi_tds S). ours td \<longrightarrow> td_io_ops_data td = None) \<and> fi_fs S = Map.empty \<and> fi_data S = Map.empty"

text \<open>The documented task of the two missing functions is on the file system they are given.\<close>

definition missing_ok :: "('d, 'w) fio_env \<Rightarrow> bool" where
  "missing_ok E \<longleftrightarrow> (\<forall>name n b r h pool. fe_pool_create E name n (Base_fns b) = Some (r, h, pool) \<longrightarrow> (\<exists>b'. h = Base_fns b'))
     \<and> (\<forall>pool n m b r h. fe_pool_set_strp E pool n m (Base_fns b) = Some (r, h) \<longrightarrow> (\<exists>b'. h = Base_fns b'))"

lemma missing_okD:
  assumes "missing_ok E"
  shows "fe_pool_create E name n (Base_fns b) = Some (r, h, pool) \<Longrightarrow> \<exists>b'. h = Base_fns b'"
    "fe_pool_set_strp E pl n' m (Base_fns b) = Some (r, h) \<Longrightarrow> \<exists>b'. h = Base_fns b'"
  using assms unfolding missing_ok_def by blast+

lemma init_pool_base:
  assumes ok: "missing_ok E" and run: "init_pool E td opts (Base_fns b) = Some (x, h)"
  shows "\<exists>b'. h = Base_fns b'"
proof -
  let ?lb = "word_of_int (fla_fs_lb_nbytes (ba_fs b)) :: u64"
  obtain r h1 pool where c: "fe_pool_create E (pool_name opts td) (to_file_size_low (td_o td) div ?lb) (Base_fns b) = Some (r, h1, pool)"
    using run by (cases "fe_pool_create E (pool_name opts td) (to_file_size_low (td_o td) div ?lb) (Base_fns b)")
      (auto simp: init_pool_def handle_fs_def Let_def split: if_splits)
  from missing_okD(1) [OF ok c] obtain b1 where h1: "h1 = Base_fns b1" by blast
  show ?thesis using run c h1
    by (auto simp: init_pool_def handle_fs_def Let_def split: if_splits bind_splits dest: missing_okD(2) [OF ok])
qed

text \<open>
  How far a thread is, read off its pointer and its data: before its initialisation or after fio has
  taken the pointer out (\<open>Idle\<close>); with published data that has no file system yet (\<open>Published\<close>);
  initialised (\<open>Ready\<close>); cleaned up, with a pointer to freed data (\<open>Freed\<close>).
\<close>

datatype phase = Idle | Published | Ready | Freed

definition phase_of :: "('d, 'w) fio_state \<Rightarrow> nat \<Rightarrow> phase" where
  "phase_of S i = (case td_io_ops_data (fi_tds S ! i) of None \<Rightarrow> Idle
     | Some a \<Rightarrow> (case fi_data S a of None \<Rightarrow> Freed | Some fad \<Rightarrow> if fa_fs fad = None then Published else Ready))"

definition dev_at :: "('d, 'w) fio_state \<Rightarrow> nat \<Rightarrow> string option" where
  "dev_at S i = td_dev (fi_tds S ! i)"

text \<open>No other thread on the device of thread \<open>i\<close> is between two of these points.\<close>

definition settled :: "('d, 'w) fio_state \<Rightarrow> nat \<Rightarrow> bool" where
  "settled S i \<longleftrightarrow> (\<forall>j<length (fi_tds S). j \<noteq> i \<and> ours (fi_tds S ! j) \<and> dev_at S j = dev_at S i \<longrightarrow> phase_of S j \<in> {Idle, Ready})"

text \<open>
  A run: the steps of the threads in any order. The parts of \<open>init\<close> and \<open>cleanup\<close> under the lock are one
  step each; what other threads do meanwhile outside the lock changes only their own pointer, which
  such a part reads once, so that it can be put before or after the part. A transfer is one step, and
  nothing is said about what transfers at the same time do to the content of a file system. An
  initialisation may fail to create or to stripe its pool; a run in which \<open>fla_open\<close> fails is not
  followed any further (see \<open>fio_failed_open_dangles\<close>). The first value is whether every \<open>fla_close\<close>
  has succeeded and every cleanup was in a settled state.
\<close>

definition opens_ok :: "('d, 'w) fio_env \<Rightarrow> nat \<Rightarrow> ('d, 'w) fio_state \<Rightarrow> bool" where
  "opens_ok E i S \<longleftrightarrow> (\<exists>opts p S'. td_eo (fi_tds S ! i) = Some opts
     \<and> fio_flexalloc_open_direct E (fo_dev_uri opts) (fo_md_dev_uri opts) (td_thread_number (fi_tds S ! i)) S = Some (0, p, S'))"

inductive fio_run :: "('d, 'w) fio_env \<Rightarrow> ('d, 'w) fio_state \<Rightarrow> bool \<Rightarrow> ('d, 'w) fio_state \<Rightarrow> bool" for E S0 where
  start: "fio_run E S0 True S0"
| publish: "fio_run E S0 ok S \<Longrightarrow> i < length (fi_tds S) \<Longrightarrow> ours (fi_tds S ! i) \<Longrightarrow> phase_of S i = Idle
    \<Longrightarrow> init_publish i S = Some (ret, S') \<Longrightarrow> fio_run E S0 ok S'"
| opens: "fio_run E S0 ok S \<Longrightarrow> i < length (fi_tds S) \<Longrightarrow> ours (fi_tds S ! i) \<Longrightarrow> phase_of S i = Published
    \<Longrightarrow> opens_ok E i S \<Longrightarrow> init_open E i S = Some (ret, S') \<Longrightarrow> fio_run E S0 ok S'"
| queue: "fio_run E S0 ok S \<Longrightarrow> i < length (fi_tds S) \<Longrightarrow> ours (fi_tds S ! i) \<Longrightarrow> phase_of S i = Ready
    \<Longrightarrow> fio_flexalloc_queue E i f u S = Some (u', S') \<Longrightarrow> fio_run E S0 ok S'"
| object_open: "fio_run E S0 ok S \<Longrightarrow> i < length (fi_tds S) \<Longrightarrow> ours (fi_tds S ! i) \<Longrightarrow> phase_of S i = Ready
    \<Longrightarrow> fio_flexalloc_object_open E i f S = Some (ret, f', S') \<Longrightarrow> fio_run E S0 ok S'"
| cleanup: "fio_run E S0 ok S \<Longrightarrow> i < length (fi_tds S) \<Longrightarrow> ours (fi_tds S ! i) \<Longrightarrow> phase_of S i = Ready
    \<Longrightarrow> fio_flexalloc_cleanup E i S = Some (err, S') \<Longrightarrow> fio_run E S0 (ok \<and> err = 0 \<and> settled S i) S'"
| reset: "fio_run E S0 ok S \<Longrightarrow> i < length (fi_tds S) \<Longrightarrow> ours (fi_tds S ! i) \<Longrightarrow> phase_of S i = Freed
    \<Longrightarrow> fio_run E S0 ok (set_td_data i None S)"

section \<open>Sharing\<close>

text \<open>The thread at index \<open>i\<close> has a pointer to \<open>a\<close>; it has data there and the file system at \<open>p\<close>.\<close>

definition has_data :: "('d, 'w) fio_state \<Rightarrow> nat \<Rightarrow> nat \<Rightarrow> bool" where
  "has_data S i a \<longleftrightarrow> i < length (fi_tds S) \<and> ours (fi_tds S ! i) \<and> td_io_ops_data (fi_tds S ! i) = Some a"

definition holds_fs :: "('d, 'w) fio_state \<Rightarrow> nat \<Rightarrow> nat \<Rightarrow> nat \<Rightarrow> bool" where
  "holds_fs S i a p \<longleftrightarrow> has_data S i a \<and> (\<exists>fad. fi_data S a = Some fad \<and> fa_fs fad = Some p)"

lemma phase_holds:
  assumes "i < length (fi_tds S)" "ours (fi_tds S ! i)"
  shows "phase_of S i = Ready \<longleftrightarrow> (\<exists>a p. holds_fs S i a p)"
    "phase_of S i = Published \<longleftrightarrow> (\<exists>a fad. has_data S i a \<and> fi_data S a = Some fad \<and> fa_fs fad = None)"
    "phase_of S i = Freed \<longleftrightarrow> (\<exists>a. has_data S i a \<and> fi_data S a = None)" "phase_of S i = Idle \<longleftrightarrow> td_io_ops_data (fi_tds S ! i) = None"
  using assms by (auto simp: phase_of_def holds_fs_def has_data_def split: option.splits)

definition fio_inv :: "('d, 'w) fio_state \<Rightarrow> bool" where
  "fio_inv S \<longleftrightarrow> direct_job S
     \<and> (\<forall>i a p. holds_fs S i a p \<longrightarrow> (\<exists>fs buf. fi_fs S p = Some (Direct_fs (path_bytes (the (dev_at S i))) fs buf)))
     \<and> (\<forall>i j a b p q. holds_fs S i a p \<longrightarrow> holds_fs S j b q \<longrightarrow> dev_at S i = dev_at S j \<longrightarrow> p = q)
     \<and> (\<forall>i j a. has_data S i a \<longrightarrow> has_data S j a \<longrightarrow> i = j)
     \<and> (\<forall>i a. has_data S i a \<longrightarrow> a < fi_next S)
     \<and> (\<forall>p. fi_next S \<le> p \<longrightarrow> fi_fs S p = None \<and> fi_data S p = None)"

lemma fio_invD:
  assumes "fio_inv S"
  shows "direct_job S"
    and "holds_fs S i a p \<Longrightarrow> \<exists>fs buf. fi_fs S p = Some (Direct_fs (path_bytes (the (dev_at S i))) fs buf)"
    and "holds_fs S i a p \<Longrightarrow> holds_fs S j b q \<Longrightarrow> dev_at S i = dev_at S j \<Longrightarrow> p = q"
    and "has_data S i a \<Longrightarrow> has_data S j a \<Longrightarrow> i = j"
    and "has_data S i a \<Longrightarrow> a < fi_next S"
    and "fi_next S \<le> p \<Longrightarrow> fi_fs S p = None" "fi_next S \<le> p \<Longrightarrow> fi_data S p = None"
  using assms unfolding fio_inv_def by blast+

definition no_leak :: "('d, 'w) fio_state \<Rightarrow> bool" where
  "no_leak S \<longleftrightarrow> (\<forall>p. fi_fs S p \<noteq> None \<longrightarrow> (\<exists>i a. holds_fs S i a p))"


text \<open>The invariant looks at the pointers and at the paths of the file systems, not at their content.\<close>

definition direct_path :: "'w fio_fs \<Rightarrow> u8 list option" where
  "direct_path c = (case c of Direct_fs uri fs buf \<Rightarrow> Some uri | Daemon_fs C \<Rightarrow> None)"

definition same_shape :: "('d, 'w) fio_state \<Rightarrow> ('d, 'w) fio_state \<Rightarrow> bool" where
  "same_shape S S' \<longleftrightarrow> fi_tds S' = fi_tds S \<and> fi_next S' = fi_next S
     \<and> (\<forall>a. map_option fa_fs (fi_data S' a) = map_option fa_fs (fi_data S a))
     \<and> (\<forall>p. map_option direct_path (fi_fs S' p) = map_option direct_path (fi_fs S p))"

lemma same_shape_refl: "same_shape S S"
  by (simp add: same_shape_def)

lemma same_shape_trans: "same_shape S S' \<Longrightarrow> same_shape S' S'' \<Longrightarrow> same_shape S S''"
  by (simp add: same_shape_def)

lemma direct_path_Some: "map_option direct_path c = Some (Some uri) \<longleftrightarrow> (\<exists>fs buf. c = Some (Direct_fs uri fs buf))"
proof (cases c)
  case (Some z)
  then show ?thesis by (cases z) (auto simp: direct_path_def)
qed simp

lemma data_fs_Some: "map_option fa_fs x = Some (Some p) \<longleftrightarrow> (\<exists>fad. x = Some fad \<and> fa_fs fad = Some p)"
  by auto

text \<open>The same invariant over these parts.\<close>

lemma holds_fs_alt:
  "holds_fs S i a p \<longleftrightarrow> has_data S i a \<and> map_option fa_fs (fi_data S a) = Some (Some p)"
  by (simp only: holds_fs_def data_fs_Some)

lemma same_shape_holds:
  assumes "same_shape S S'"
  shows "has_data S' = has_data S" "holds_fs S' = holds_fs S"
proof -
  show "has_data S' = has_data S" using assms by (simp add: fun_eq_iff has_data_def same_shape_def)
  then show "holds_fs S' = holds_fs S" using assms by (simp add: fun_eq_iff holds_fs_alt same_shape_def)
qed

lemma map_option_None_eq: "map_option f x = map_option g y \<Longrightarrow> x = None \<longleftrightarrow> y = None"
  by (metis map_option_is_None)

lemma same_shape_inv:
  assumes "same_shape S S'"
  shows "fio_inv S \<Longrightarrow> fio_inv S'" "no_leak S \<Longrightarrow> no_leak S'"
proof -
  have s: "fi_next S' = fi_next S" "has_data S' = has_data S" "holds_fs S' = holds_fs S" "dev_at S' = dev_at S" "direct_job S' = direct_job S"
    "\<And>p uri. (\<exists>fs buf. fi_fs S' p = Some (Direct_fs uri fs buf)) \<longleftrightarrow> (\<exists>fs buf. fi_fs S p = Some (Direct_fs uri fs buf))"
    using assms same_shape_holds [OF assms] by (auto simp: same_shape_def dev_at_def direct_job_def fun_eq_iff simp flip: direct_path_Some)
  have n: "fi_fs S' p = None \<longleftrightarrow> fi_fs S p = None" "fi_data S' p = None \<longleftrightarrow> fi_data S p = None" for p
    using assms map_option_None_eq unfolding same_shape_def by metis+
  show "fio_inv S'" if "fio_inv S" using that unfolding fio_inv_def s n by blast
  show "no_leak S'" if "no_leak S" using that unfolding no_leak_def s n by blast
qed

lemma on_fs_direct:
  assumes "fi_fs S p = Some (Direct_fs uri fs buf)" "on_fs E p call S = Some (r, S')"
    and "\<And>X b r h. call X (Base_fns b) = Some (r, h) \<Longrightarrow> \<exists>b'. h = Base_fns b'"
  shows "same_shape S S'" "\<exists>fs' buf' d'. S' = S\<lparr>fi_fs := (fi_fs S)(p \<mapsto> Direct_fs uri fs' buf'), fi_devs := (fi_devs S)(uri := d')\<rparr>"
proof -
  from assms(1,2) obtain h where "call (fe_xnvme E uri) (Base_fns \<lparr>ba_fs = fs, ba_buf = buf, ba_dev = fi_devs S uri\<rparr>) = Some (r, h)"
    "S' = put_handle p uri h S" by (auto simp: on_fs_def get_handle_def fs_path_def split: bind_splits)
  then show *: "\<exists>fs' buf' d'. S' = S\<lparr>fi_fs := (fi_fs S)(p \<mapsto> Direct_fs uri fs' buf'), fi_devs := (fi_devs S)(uri := d')\<rparr>"
    using assms(3) by (fastforce simp: put_handle_def)
  then show "same_shape S S'" using assms(1) by (auto simp: same_shape_def direct_path_def)
qed

lemma set_fad_shape: "fi_data S a = Some fad \<Longrightarrow> fa_fs fad' = fa_fs fad \<Longrightarrow> same_shape S (set_fad a fad' S)"
  by (simp add: same_shape_def set_fad_def)

section \<open>Transfers keep the shape\<close>

lemma inv_fs:
  assumes "fio_inv S" "i < length (fi_tds S)" "ours (fi_tds S ! i)" "get_fad S i = Some fad" "fa_fs fad = Some p"
  obtains uri fs buf where "fi_fs S p = Some (Direct_fs uri fs buf)"
proof -
  from assms(2-5) obtain a where "holds_fs S i a p" by (auto simp: holds_fs_def has_data_def get_fad_def get_td_def split: bind_splits)
  then show ?thesis using assms(1) that unfolding fio_inv_def by blast
qed

lemma queue_shape:
  assumes inv: "fio_inv S" "i < length (fi_tds S)" "ours (fi_tds S ! i)" and run: "fio_flexalloc_queue E i f u S = Some (u', S')"
  shows "same_shape S S'"
proof -
  have w: "same_shape S S'" if "get_fad S i = Some fad" "fa_fs fad = Some p" "fio_object_write E p pool ob w S = Some (ret, S')" for fad p pool ob w ret
    by (rule inv_fs [OF inv that(1,2)])
      (use that(3) in \<open>auto simp: fio_object_write_def Let_def same_shape_def direct_path_def fs_path_def split: bind_splits\<close>)
  have y: "same_shape S S'" if "get_fad S i = Some fad" "fa_fs fad = Some p" "on_fs E p (\<lambda>X h. fla_sync X (fe_peer E) h) S = Some (ret, S')" for fad p ret
    by (rule inv_fs [OF inv that(1,2)], erule on_fs_direct(1) [OF _ that(3)]) (auto simp: fla_sync_def split: bind_splits)
  show ?thesis using run w y same_shape_refl
    by (cases "io_ddir u") (auto simp: fio_flexalloc_queue_def Let_def split: bind_splits)
qed

lemma object_open_shape:
  assumes inv: "fio_inv S" "i < length (fi_tds S)" "ours (fi_tds S ! i)" and run: "fio_flexalloc_object_open E i f S = Some (ret, f', S')"
  shows "same_shape S S'"
proof -
  obtain a fad p pool where g: "td_io_ops_data (fi_tds S ! i) = Some a" "fi_data S a = Some fad" "fa_fs fad = Some p" "fa_pool fad = Some pool"
    using run inv(2) by (auto simp: fio_flexalloc_object_open_def get_td_def split: bind_splits)
  have fad: "get_fad S i = Some fad" using g inv(2) by (simp add: get_fad_def get_td_def)
  obtain uri fs buf where c: "fi_fs S p = Some (Direct_fs uri fs buf)" by (rule inv_fs [OF inv fad g(3)])
  show ?thesis
  proof (cases "ff_engine_pos f")
    case True
    then obtain ob where "on_fs E p (\<lambda>X h. fla_object_open X (fe_peer E) h pool ob) S = Some (ret, S')"
      using run g inv(2) by (auto simp: fio_flexalloc_object_open_def get_td_def split: bind_splits if_splits)
    then show ?thesis by (rule on_fs_direct(1) [OF c]) (auto simp: fla_object_open_def split: bind_splits)
  next
    case False
    then obtain ob S1 objs where o: "on_fs E p (\<lambda>X h. do { (ret, h, ob) \<leftarrow> fla_object_create X (fe_peer E) h pool; Some ((ret, ob), h) }) S = Some ((ret, ob), S1)"
      "S' = set_fad a (fad\<lparr>fa_object := objs\<rparr>) S1"
      using run g inv(2) by (auto simp: fio_flexalloc_object_open_def get_td_def split: bind_splits if_splits)
    have "same_shape S S1" and r: "\<exists>fs' buf' d'. S1 = S\<lparr>fi_fs := (fi_fs S)(p \<mapsto> Direct_fs uri fs' buf'), fi_devs := (fi_devs S)(uri := d')\<rparr>"
      by (rule on_fs_direct [OF c o(1)]; auto simp: fla_object_create_def split: bind_splits)+
    have "fi_data S1 a = Some fad" using r g(2) by auto
    then have "same_shape S1 S'" using o(2) set_fad_shape [of S1 a fad] by simp
    with \<open>same_shape S S1\<close> show ?thesis by (rule same_shape_trans)
  qed
qed


section \<open>Opening and closing\<close>

lemma find_fs_spec:
  assumes "\<forall>td\<in>set tds. ours td \<longrightarrow> direct_td td" "find_fs n (Some u) S tds = Some r"
  shows "case r of
      None \<Rightarrow> \<forall>td a fad. td \<in> set tds \<and> ours td \<and> td_thread_number td \<noteq> n \<and> td_dev td = Some u \<and> td_io_ops_data td = Some a
        \<and> fi_data S a = Some fad \<longrightarrow> fa_fs fad = None
    | Some p \<Rightarrow> \<exists>td a fad. td \<in> set tds \<and> ours td \<and> td_thread_number td \<noteq> n \<and> td_dev td = Some u \<and> td_io_ops_data td = Some a
        \<and> fi_data S a = Some fad \<and> fa_fs fad = Some p"
  using assms
proof (induction tds)
  case (Cons td tds)
  let ?r = "find_fs n (Some u) S tds"
  consider (other) "\<not> (ours td \<and> td_thread_number td \<noteq> n \<and> td_dev td = Some u \<and> td_io_ops_data td \<noteq> None)"
    | (data) a where "ours td" "td_thread_number td \<noteq> n" "td_dev td = Some u" "td_io_ops_data td = Some a" by blast
  then show ?case
  proof cases
    case other
    then have "?r = Some r" using Cons.prems
      by (auto simp: ours_def direct_td_def td_dev_def split: option.splits if_splits)
    then show ?thesis using Cons.IH Cons.prems other by (auto split: option.splits)
  next
    case data
    then obtain fad where fad: "fi_data S a = Some fad" "if fa_fs fad \<noteq> None then r = fa_fs fad else ?r = Some r"
      using Cons.prems by (auto simp: ours_def td_dev_def split: bind_splits if_splits)
    show ?thesis
    proof (cases "fa_fs fad")
      case None
      then show ?thesis using fad data Cons.IH Cons.prems by (auto split: option.splits)
    next
      case (Some p)
      then show ?thesis using fad data by auto
    qed
  qed
qed simp

lemma other_user_iff:
  assumes "\<forall>td\<in>set tds. ours td \<longrightarrow> direct_td td"
  shows "other_user n (Some u) tds \<longleftrightarrow> (\<exists>td\<in>set tds. ours td \<and> td_thread_number td \<noteq> n \<and> td_dev td = Some u \<and> td_io_ops_data td \<noteq> None)"
  using assms
proof (induction tds)
  case (Cons td tds)
  then show ?case by (auto simp: ours_def direct_td_def td_dev_def split: option.splits)
qed simp

lemma td_number_inj:
  "direct_job S \<Longrightarrow> i < length (fi_tds S) \<Longrightarrow> j < length (fi_tds S) \<Longrightarrow> td_thread_number (fi_tds S ! i) = td_thread_number (fi_tds S ! j) \<longleftrightarrow> i = j"
  unfolding direct_job_def using nth_eq_iff_index_eq [of "map td_thread_number (fi_tds S)" i j] by simp

lemma direct_job_td: "direct_job S \<Longrightarrow> i < length (fi_tds S) \<Longrightarrow> ours (fi_tds S ! i) \<Longrightarrow> \<exists>opts u. td_eo (fi_tds S ! i) = Some opts \<and> fo_daemon_uri opts = None \<and> fo_dev_uri opts = Some u \<and> dev_at S i = Some u"
  by (auto simp: direct_job_def direct_td_def dev_at_def td_dev_def)

lemma set_td_data_sel:
  "i < length (fi_tds S) \<Longrightarrow> j < length (fi_tds S) \<Longrightarrow> fi_tds (set_td_data i a S) ! j = (if i = j then (fi_tds S ! i)\<lparr>td_io_ops_data := a\<rparr> else fi_tds S ! j)"
  "length (fi_tds (set_td_data i a S)) = length (fi_tds S)"
  by (simp_all add: set_td_data_def)

lemma td_data_sel [simp]: "ours (td\<lparr>td_io_ops_data := a\<rparr>) = ours td" "td_dev (td\<lparr>td_io_ops_data := a\<rparr>) = td_dev td"
    "direct_td (td\<lparr>td_io_ops_data := a\<rparr>) = direct_td td"
  by (simp_all add: ours_def td_dev_def direct_td_def)

lemma direct_job_set:
  assumes "direct_job S" "i < length (fi_tds S)" "fi_tds S' = fi_tds (set_td_data i a S)"
  shows "direct_job S'" "dev_at S' j = dev_at S j"
proof -
  have m: "map td_thread_number (fi_tds S') = map td_thread_number (fi_tds S)"
    using assms(2,3) by (intro nth_equalityI) (simp_all add: set_td_data_sel set_td_data_def nth_list_update)
  have "ours td \<longrightarrow> direct_td td" if "td \<in> set (fi_tds S')" for td
  proof -
    from that obtain j where "j < length (fi_tds S)" "td = fi_tds S' ! j" using assms(3) by (auto simp: in_set_conv_nth set_td_data_sel)
    then show ?thesis using assms by (auto simp: set_td_data_sel direct_job_def)
  qed
  then show "direct_job S'" using m assms(1) by (simp add: direct_job_def)
  show "dev_at S' j = dev_at S j" using assms(2,3) by (cases "j < length (fi_tds S)") (auto simp: dev_at_def set_td_data_def nth_list_update)
qed

text \<open>A thread that publishes its data.\<close>

lemma publish_inv:
  assumes inv: "fio_inv S" and i: "i < length (fi_tds S)" "ours (fi_tds S ! i)" "td_io_ops_data (fi_tds S ! i) = None"
    and S': "fi_tds S' = fi_tds (set_td_data i (Some (fi_next S)) S)" "fi_data S' = (fi_data S)(fi_next S \<mapsto> fad)" "fa_fs fad = None"
      "fi_next S' = Suc (fi_next S)" "fi_fs S' = fi_fs S"
  shows "fio_inv S'" "no_leak S \<Longrightarrow> no_leak S'"
proof -
  note I = fio_invD [OF inv]
  note dj = direct_job_set [OF I(1) i(1) S'(1)]
  have len: "length (fi_tds S') = length (fi_tds S)" using S'(1) by (simp add: set_td_data_sel)
  have d: "has_data S' j b \<longleftrightarrow> j = i \<and> b = fi_next S \<or> has_data S j b" for j b
    using i S'(1) len by (cases "j = i") (auto simp: has_data_def set_td_data_sel)
  have h: "holds_fs S' j b q \<longleftrightarrow> holds_fs S j b q" for j b q
    using I(5) [of j b] I(7) [of b] S'(2,3) by (auto simp: holds_fs_def d)
  have lt: "b < fi_next S" if "has_data S j b" for j b by (rule I(5) [OF that])
  have "j = k" if "has_data S' j b" "has_data S' k b" for j k b using that I(4) [of j b k] lt unfolding d by (metis less_irrefl)
  moreover have "b < fi_next S'" if "has_data S' j b" for j b using that lt S'(4) unfolding d by (metis less_Suc_eq)
  moreover have "fi_fs S' q = None" "fi_data S' q = None" if "fi_next S' \<le> q" for q using that I(6,7) [of q] S'(2,4,5) by auto
  ultimately show "fio_inv S'" using dj I(2,3) S'(5) unfolding fio_inv_def h by auto
  show "no_leak S'" if "no_leak S" using that S'(5) by (simp add: no_leak_def h)
qed

text \<open>A thread with published data that takes the file system at \<open>p\<close>.\<close>

lemma take_fs_inv:
  assumes inv: "fio_inv S" and i: "has_data S i a" "fi_data S a = Some fad0" "fa_fs fad0 = None"
    and S': "fi_tds S' = fi_tds S" "fi_data S' = (fi_data S)(a \<mapsto> fad)" "fa_fs fad = Some p" "fi_next S \<le> fi_next S'"
    and p: "fi_fs S' p = Some (Direct_fs (path_bytes (the (dev_at S i))) fs buf)" "p < fi_next S'" "fi_fs S' = (fi_fs S)(p := fi_fs S' p)"
    and new: "\<And>j b q. holds_fs S j b q \<Longrightarrow> q = p \<longleftrightarrow> dev_at S j = dev_at S i"
  shows "fio_inv S'" "no_leak S \<Longrightarrow> no_leak S'"
proof -
  note I = fio_invD [OF inv]
  have d: "has_data S' = has_data S" "dev_at S' = dev_at S" "direct_job S' = direct_job S"
    using S'(1) by (auto simp: fun_eq_iff has_data_def dev_at_def direct_job_def)
  have h: "holds_fs S' j b q \<longleftrightarrow> j = i \<and> b = a \<and> q = p \<or> holds_fs S j b q" for j b q
    using I(4) [OF i(1), of j] i S'(2,3) by (auto simp: holds_fs_def d(1))
  have cell: "\<exists>fs buf. fi_fs S' q = Some (Direct_fs (path_bytes (the (dev_at S j))) fs buf)" if "holds_fs S j b q" for j b q
  proof (cases "q = p")
    case True
    then show ?thesis using p(1) new [OF that] by auto
  next
    case False
    then show ?thesis using I(2) [OF that] p(3) by (metis fun_upd_other)
  qed
  have "fi_fs S' q = None" "fi_data S' q = None" if q: "fi_next S' \<le> q" for q
  proof -
    have "q \<noteq> p" "q \<noteq> a" "fi_next S \<le> q" using q p(2) I(5) [OF i(1)] S'(4) by auto
    then show "fi_fs S' q = None" "fi_data S' q = None" using I(6,7) [of q] S'(2) p(3) by (metis fun_upd_other)+
  qed
  moreover have "b < fi_next S'" if "has_data S j b" for j b using I(5) [OF that] S'(4) by simp
  moreover have "q = r" if "holds_fs S' j b q" "holds_fs S' k c r" "dev_at S j = dev_at S k" for j k b c q r
    using that I(3) new unfolding h by metis
  moreover have "\<exists>fs buf. fi_fs S' q = Some (Direct_fs (path_bytes (the (dev_at S j))) fs buf)" if "holds_fs S' j b q" for j b q
    using that cell p(1) unfolding h by blast
  ultimately show "fio_inv S'" using I(1,4) unfolding fio_inv_def d by blast
  show "no_leak S'" if "no_leak S"
  proof -
    have "\<exists>j b. holds_fs S' j b q" if "fi_fs S' q \<noteq> None" for q
    proof (cases "q = p")
      case False
      then have "fi_fs S q \<noteq> None" using that p(3) by (metis fun_upd_other)
      then have "\<exists>j b. holds_fs S j b q" using \<open>no_leak S\<close> unfolding no_leak_def by blast
      then show ?thesis using h by blast
    qed (use h in blast)
    then show ?thesis by (simp add: no_leak_def)
  qed
qed

text \<open>A thread whose data is freed, with its file system closed when no other thread holds it.\<close>

lemma leave_fs_inv:
  assumes inv: "fio_inv S" and i: "holds_fs S i a p"
    and S': "fi_tds S' = fi_tds S" "fi_data S' = (fi_data S)(a := None)" "fi_next S' = fi_next S" "\<And>q. q \<noteq> p \<Longrightarrow> fi_fs S' q = fi_fs S q"
    and p: "(\<exists>j b. j \<noteq> i \<and> holds_fs S j b p) \<Longrightarrow> fi_fs S' p = fi_fs S p"
  shows "fio_inv S'" "no_leak S \<Longrightarrow> (\<exists>j b. j \<noteq> i \<and> holds_fs S j b p) \<or> fi_fs S' p = None \<Longrightarrow> no_leak S'"
proof -
  note I = fio_invD [OF inv]
  have d: "has_data S' = has_data S" "dev_at S' = dev_at S" "direct_job S' = direct_job S"
    using S'(1) by (auto simp: fun_eq_iff has_data_def dev_at_def direct_job_def)
  have ia: "has_data S i a" using i by (simp add: holds_fs_def)
  have h: "holds_fs S' j b q \<longleftrightarrow> j \<noteq> i \<and> holds_fs S j b q" for j b q
  proof (cases "j = i")
    case True
    then show ?thesis using ia S'(2) d(1) by (auto simp: holds_fs_def has_data_def)
  next
    case False
    then show ?thesis using I(4) [OF ia, of j] S'(2) d(1) by (auto simp: holds_fs_def)
  qed
  have same: "fi_fs S' q = fi_fs S q" if "j \<noteq> i" "holds_fs S j b q" for j b q using that p S'(4) by (cases "q = p") blast+
  have "fi_fs S p \<noteq> None" using I(2) [OF i] by auto
  then have "p < fi_next S" using I(6) [of p] by (metis not_le)
  then have "fi_fs S' q = None" "fi_data S' q = None" if "fi_next S' \<le> q" for q using that S'(2,3) S'(4) [of q] I(6,7) [of q] by auto
  moreover have "\<exists>fs buf. fi_fs S' q = Some (Direct_fs (path_bytes (the (dev_at S j))) fs buf)" if "holds_fs S' j b q" for j b q
    using that I(2) [of j b q] same [of j b q] unfolding h by auto
  ultimately show "fio_inv S'" using I(1,3,4,5) S'(3) unfolding fio_inv_def d h by auto
  show "no_leak S'" if "no_leak S" and gone: "(\<exists>j b. j \<noteq> i \<and> holds_fs S j b p) \<or> fi_fs S' p = None"
  proof -
    have "\<exists>j b. holds_fs S' j b q" if q: "fi_fs S' q \<noteq> None" for q
    proof (cases "q = p")
      case True
      then show ?thesis using gone q h by auto
    next
      case False
      then obtain j b where j: "holds_fs S j b q" using q S'(4) \<open>no_leak S\<close> by (auto simp: no_leak_def)
      have "j \<noteq> i" using j i False by (auto simp: holds_fs_def has_data_def)
      then show ?thesis using j h by blast
    qed
    then show ?thesis by (simp add: no_leak_def)
  qed
qed

text \<open>fio takes the pointer to freed data out of the thread.\<close>

lemma reset_inv:
  assumes inv: "fio_inv S" and i: "has_data S i a" "fi_data S a = None"
  shows "fio_inv (set_td_data i None S)" "no_leak S \<Longrightarrow> no_leak (set_td_data i None S)"
proof -
  note I = fio_invD [OF inv]
  let ?S = "set_td_data i None S"
  have l: "i < length (fi_tds S)" using i(1) by (simp add: has_data_def)
  note dj = direct_job_set [OF I(1) l, of ?S None, OF refl]
  have rest: "fi_data ?S = fi_data S" "fi_fs ?S = fi_fs S" "fi_next ?S = fi_next S" by (simp_all add: set_td_data_def)
  have d: "has_data ?S j b \<longleftrightarrow> j \<noteq> i \<and> has_data S j b" for j b
    using l by (cases "j = i") (auto simp: has_data_def set_td_data_sel)
  have h: "holds_fs ?S j b q \<longleftrightarrow> holds_fs S j b q" for j b q
    unfolding holds_fs_def d rest using i by (auto simp: has_data_def)
  show "fio_inv ?S" using dj I(2-7) unfolding fio_inv_def d h rest by auto
  show "no_leak ?S" if "no_leak S" using that by (simp add: no_leak_def h rest)
qed


lemma path_bytes_inj: "path_bytes s = path_bytes t \<Longrightarrow> s = t"
proof (rule map_injective [where f = "of_char :: char \<Rightarrow> u8"])
  have "(of_char c :: nat) = unat (of_char c :: u8)" for c
    unfolding of_nat_of_char [symmetric, where 'a = u8] using of_char_mod_256 [of c, where 'a = nat] by (simp add: unat_of_nat)
  then show "inj (of_char :: char \<Rightarrow> u8)" by (intro injI) (metis of_char_eq_iff)
qed

text \<open>Threads that hold the same file system have the same device.\<close>

lemma holds_dev:
  assumes "fio_inv S" "holds_fs S i a p" "holds_fs S j b q"
  shows "p = q \<longleftrightarrow> dev_at S i = dev_at S j"
proof
  note I = fio_invD [OF assms(1)]
  have dev: "\<exists>u. dev_at S k = Some u" if "holds_fs S k c r" for k c r
    using direct_job_td [OF I(1), of k] that by (auto simp: holds_fs_def has_data_def)
  obtain u v where uv: "dev_at S i = Some u" "dev_at S j = Some v" using dev assms(2,3) by blast
  show "dev_at S i = dev_at S j" if "p = q"
    using I(2) [OF assms(2)] I(2) [OF assms(3)] that path_bytes_inj [of u v] uv by auto
  show "p = q" if "dev_at S i = dev_at S j" using I(3) [OF assms(2,3) that] .
qed

text \<open>The file system that an initialisation finds or opens is taken.\<close>

lemma open_takes:
  assumes inv: "fio_inv S" and i: "has_data S i a" "fi_data S a = Some fad" "fa_fs fad = None" "dev_at S i = Some u"
    and run: "fio_flexalloc_open_direct E (Some u) md (td_thread_number (fi_tds S ! i)) S = Some (0, Some p, S2)"
    and fs: "fa_fs fad' = Some p"
  defines "T \<equiv> set_fad a fad' S2"
  shows "fio_inv T" "no_leak S \<Longrightarrow> no_leak T" "\<exists>uri fs buf. fi_fs T p = Some (Direct_fs uri fs buf)"
proof -
  note I = fio_invD [OF inv]
  let ?n = "td_thread_number (fi_tds S ! i)"
  have l: "i < length (fi_tds S)" using i(1) by (simp add: has_data_def)
  obtain r where r: "find_fs ?n (Some u) S (fi_tds S) = Some r" using run by (auto simp: fio_flexalloc_open_direct_def split: bind_splits)
  have spec: "case r of
      None \<Rightarrow> \<forall>td a fad. td \<in> set (fi_tds S) \<and> ours td \<and> td_thread_number td \<noteq> ?n \<and> td_dev td = Some u \<and> td_io_ops_data td = Some a
        \<and> fi_data S a = Some fad \<longrightarrow> fa_fs fad = None
    | Some p \<Rightarrow> \<exists>td a fad. td \<in> set (fi_tds S) \<and> ours td \<and> td_thread_number td \<noteq> ?n \<and> td_dev td = Some u \<and> td_io_ops_data td = Some a
        \<and> fi_data S a = Some fad \<and> fa_fs fad = Some p"
    using I(1) by (intro find_fs_spec [OF _ r]) (simp add: direct_job_def)
  have "(\<exists>fs buf. fi_fs T p = Some (Direct_fs (path_bytes (the (dev_at S i))) fs buf)) \<and> p < fi_next T \<and> fi_next S \<le> fi_next T
      \<and> fi_fs T = (fi_fs S)(p := fi_fs T p) \<and> fi_tds T = fi_tds S \<and> fi_data T = (fi_data S)(a \<mapsto> fad')
      \<and> (\<forall>j b q. holds_fs S j b q \<longrightarrow> (q = p \<longleftrightarrow> dev_at S j = dev_at S i))"
  proof (cases r)
    case None
    then obtain fs buf where o: "S2 = S\<lparr>fi_fs := (fi_fs S)(fi_next S \<mapsto> Direct_fs (path_bytes u) fs buf), fi_next := Suc (fi_next S)\<rparr>" "p = fi_next S"
      using run r by (auto simp: fio_flexalloc_open_direct_def split: bind_splits if_splits)
    have "q \<noteq> p \<and> dev_at S j \<noteq> dev_at S i" if h: "holds_fs S j b q" for j b q
    proof -
      have j: "j < length (fi_tds S)" "ours (fi_tds S ! j)" "td_io_ops_data (fi_tds S ! j) = Some b" using h by (simp_all add: holds_fs_def has_data_def)
      have "j \<noteq> i" using h i by (auto simp: holds_fs_def has_data_def)
      then have "td_thread_number (fi_tds S ! j) \<noteq> ?n" using td_number_inj [OF I(1) j(1) l] by simp
      moreover have "fi_tds S ! j \<in> set (fi_tds S)" using j(1) by simp
      moreover obtain g where "fi_data S b = Some g" "fa_fs g = Some q" using h by (auto simp: holds_fs_def)
      ultimately have "td_dev (fi_tds S ! j) \<noteq> Some u" using spec j(2,3) unfolding None by fastforce
      moreover have "q \<noteq> fi_next S" using I(2) [OF h] I(6) [of "fi_next S"] by auto
      ultimately show ?thesis using i(4) o(2) by (simp add: dev_at_def)
    qed
    then show ?thesis using o i(4) by (auto simp: T_def set_fad_def)
  next
    case (Some q)
    then have o: "S2 = S" "p = q" using run r by (auto simp: fio_flexalloc_open_direct_def)
    from spec Some obtain j b where h: "holds_fs S j b p" "td_dev (fi_tds S ! j) = Some u"
      using o(2) by (fastforce simp: holds_fs_def has_data_def in_set_conv_nth)
    have dev: "dev_at S j = dev_at S i" using h(2) i(4) by (simp add: dev_at_def)
    have "p < fi_next S" using I(2) [OF h(1)] I(6) [of p] by (metis not_le option.distinct(1))
    then show ?thesis using o I(2) [OF h(1)] dev holds_dev [OF inv _ h(1)] by (auto simp: T_def set_fad_def)
  qed
  then obtain fs buf where p: "fi_fs T p = Some (Direct_fs (path_bytes (the (dev_at S i))) fs buf)" "p < fi_next T" "fi_next S \<le> fi_next T"
    "fi_fs T = (fi_fs S)(p := fi_fs T p)" "fi_tds T = fi_tds S" "fi_data T = (fi_data S)(a \<mapsto> fad')"
    "\<And>j b q. holds_fs S j b q \<Longrightarrow> q = p \<longleftrightarrow> dev_at S j = dev_at S i" by blast
  note t = take_fs_inv [OF inv i(1-3) p(5,6) fs p(3,1,2,4)]
  show "fio_inv T" by (rule t(1)) (rule p(7))
  show "no_leak T" if "no_leak S" by (rule t(2) [OF _ that]) (rule p(7))
  show "\<exists>uri fs buf. fi_fs T p = Some (Direct_fs uri fs buf)" using p(1) by blast
qed

text \<open>The two parts of an initialisation.\<close>

lemma init_publish_inv:
  assumes inv: "fio_inv S" and i: "i < length (fi_tds S)" "ours (fi_tds S ! i)" "phase_of S i = Idle"
    and run: "init_publish i S = Some (ret, S')"
  shows "fio_inv S'" "no_leak S \<Longrightarrow> no_leak S'"
proof -
  let ?td = "fi_tds S ! i" and ?a = "fi_next S"
  let ?fad = "\<lparr>fa_fs = None, fa_pool = None, fa_object = replicate (to_nr_files (td_o ?td)) \<lparr>ob_slab_id = 0, ob_entry_ndx = 0\<rparr>\<rparr>"
  let ?S = "set_td_data i (Some ?a) (set_fad ?a ?fad (S\<lparr>fi_next := Suc ?a\<rparr>))"
  have S': "S' = S \<or> S' = ?S"
    using run i(1) by (auto simp: init_publish_def get_td_def Let_def split: bind_splits if_splits)
  have "td_io_ops_data ?td = None" using i phase_holds(4) [OF i(1,2)] by simp
  note p = publish_inv [OF inv i(1,2) this, of ?S ?fad]
  have "fio_inv ?S" by (rule p(1)) (simp_all add: set_td_data_def set_fad_def)
  then show "fio_inv S'" using S' inv by blast
  have "no_leak ?S" if "no_leak S" by (rule p(2)) (simp_all add: set_td_data_def set_fad_def that)
  then show "no_leak S'" if "no_leak S" using S' that by blast
qed

lemma init_open_inv:
  assumes ok: "missing_ok E" and inv: "fio_inv S" and i: "i < length (fi_tds S)" "ours (fi_tds S ! i)" "phase_of S i = Published"
    and run: "opens_ok E i S" "init_open E i S = Some (ret, S')"
  shows "fio_inv S'" "no_leak S \<Longrightarrow> no_leak S'"
proof -
  let ?td = "fi_tds S ! i"
  obtain opts u where o: "td_eo ?td = Some opts" "fo_daemon_uri opts = None" "fo_dev_uri opts = Some u" "dev_at S i = Some u"
    using direct_job_td [OF fio_invD(1) [OF inv] i(1,2)] by blast
  obtain a fad where a: "has_data S i a" "fi_data S a = Some fad" "fa_fs fad = None" using i(3) phase_holds(2) [OF i(1,2)] by blast
  let ?T = "\<lambda>p S2. set_fad a (fad\<lparr>fa_fs := Some p\<rparr>) S2"
  obtain p S2 S3 pool where r: "fio_flexalloc_open_direct E (Some u) (fo_md_dev_uri opts) (td_thread_number ?td) S = Some (0, Some p, S2)"
    "on_fs E p (\<lambda>X h. init_pool E ?td opts h) (?T p S2) = Some ((ret, pool), S3)"
    "S' = set_fad a (fad\<lparr>fa_fs := Some p, fa_pool := pool\<rparr>) S3"
    using run i(1) o(1-3) a unfolding init_open_def opens_ok_def has_data_def
    by (auto simp: get_td_def Let_def split: bind_splits if_splits)
  have "fa_fs (fad\<lparr>fa_fs := Some p\<rparr>) = Some p" by simp
  note t = open_takes [OF inv a o(4) r(1) this]
  from t(3) obtain uri fs buf where c: "fi_fs (?T p S2) p = Some (Direct_fs uri fs buf)" by blast
  have s: "same_shape (?T p S2) S3"
    "\<exists>fs' buf' d'. S3 = (?T p S2)\<lparr>fi_fs := (fi_fs (?T p S2))(p \<mapsto> Direct_fs uri fs' buf'), fi_devs := (fi_devs (?T p S2))(uri := d')\<rparr>"
    by (rule on_fs_direct [OF c r(2)], erule init_pool_base [OF ok])+
  have "fi_data S3 = fi_data (?T p S2)" using s(2) by auto
  then have "same_shape S3 S'" unfolding r(3) by (intro set_fad_shape [where fad = "fad\<lparr>fa_fs := Some p\<rparr>"]) (simp_all add: set_fad_def)
  with s(1) have "same_shape (?T p S2) S'" by (rule same_shape_trans)
  then show "fio_inv S'" "no_leak S \<Longrightarrow> no_leak S'" using t(1,2) same_shape_inv by blast+
qed


lemma bex_nth: "(\<exists>x\<in>set xs. P x) \<longleftrightarrow> (\<exists>j<length xs. P (xs ! j))"
  by (metis in_set_conv_nth)

lemma other_user_index:
  assumes inv: "fio_inv S" and i: "i < length (fi_tds S)" and u: "dev_at S i = Some u"
  shows "other_user (td_thread_number (fi_tds S ! i)) (Some u) (fi_tds S) \<longleftrightarrow> (\<exists>j b. j \<noteq> i \<and> has_data S j b \<and> dev_at S j = dev_at S i)"
proof -
  note I = fio_invD [OF inv]
  let ?n = "td_thread_number (fi_tds S ! i)"
  have "other_user ?n (Some u) (fi_tds S) \<longleftrightarrow> (\<exists>td\<in>set (fi_tds S). ours td \<and> td_thread_number td \<noteq> ?n \<and> td_dev td = Some u \<and> td_io_ops_data td \<noteq> None)"
    using I(1) by (intro other_user_iff) (simp add: direct_job_def)
  also have "\<dots> \<longleftrightarrow> (\<exists>j<length (fi_tds S). ours (fi_tds S ! j) \<and> j \<noteq> i \<and> dev_at S j = dev_at S i \<and> td_io_ops_data (fi_tds S ! j) \<noteq> None)"
    unfolding bex_nth using td_number_inj [OF I(1) _ i] u by (auto simp: dev_at_def)
  also have "\<dots> \<longleftrightarrow> (\<exists>j b. j \<noteq> i \<and> has_data S j b \<and> dev_at S j = dev_at S i)" by (auto simp: has_data_def)
  finally show ?thesis .
qed

text \<open>A thread that shares the file system is found; in a settled state nobody else is.\<close>

lemma other_holds:
  assumes inv: "fio_inv S" and h: "holds_fs S i a p" and u: "dev_at S i = Some u"
  defines "found \<equiv> other_user (td_thread_number (fi_tds S ! i)) (Some u) (fi_tds S)"
  shows "\<exists>j b. j \<noteq> i \<and> holds_fs S j b p \<Longrightarrow> found" "found \<Longrightarrow> settled S i \<Longrightarrow> \<exists>j b. j \<noteq> i \<and> holds_fs S j b p"
proof -
  have i: "i < length (fi_tds S)" using h by (simp add: holds_fs_def has_data_def)
  note f = other_user_index [OF inv i u, folded found_def]
  show found if "\<exists>j b. j \<noteq> i \<and> holds_fs S j b p"
  proof -
    from that obtain j b where "j \<noteq> i" "holds_fs S j b p" by blast
    then have "j \<noteq> i \<and> has_data S j b \<and> dev_at S j = dev_at S i" using holds_dev [OF inv _ h, of j b p] by (simp add: holds_fs_def)
    then show ?thesis using f by blast
  qed
  show "\<exists>j b. j \<noteq> i \<and> holds_fs S j b p" if found and s: "settled S i"
  proof -
    from \<open>found\<close> f obtain j b where j: "j \<noteq> i" "has_data S j b" "dev_at S j = dev_at S i" by blast
    then have l: "j < length (fi_tds S)" "ours (fi_tds S ! j)" "td_io_ops_data (fi_tds S ! j) \<noteq> None" by (simp_all add: has_data_def)
    then have "phase_of S j = Ready" using s j phase_holds(4) [OF l(1,2)] by (auto simp: settled_def)
    then obtain c q where q: "holds_fs S j c q" using phase_holds(1) [OF l(1,2)] by blast
    then have "q = p" using holds_dev [OF inv q h] j(3) by blast
    then show ?thesis using q j(1) by blast
  qed
qed

lemma fla_close_base: "fla_close X (Base_fns b) = Some (r, h) \<Longrightarrow> \<exists>b'. h = Base_fns b'"
  by (auto simp: fla_close_def split: bind_splits)

text \<open>The file system is left alone when it has another user, and is closed otherwise.\<close>

lemma release_step:
  assumes c: "fi_fs S p = Some (Direct_fs uri fs buf)" and run: "(if other then Some (0, S) else close_fs E p S) = Some (err, S1)"
  shows "fi_tds S1 = fi_tds S" "fi_data S1 = fi_data S" "fi_next S1 = fi_next S" "q \<noteq> p \<Longrightarrow> fi_fs S1 q = fi_fs S q"
    "other \<Longrightarrow> fi_fs S1 p = fi_fs S p" "err = 0 \<Longrightarrow> other \<or> fi_fs S1 p = None"
proof -
  have "fi_tds S1 = fi_tds S \<and> fi_data S1 = fi_data S \<and> fi_next S1 = fi_next S \<and> (\<forall>q. q \<noteq> p \<longrightarrow> fi_fs S1 q = fi_fs S q)
    \<and> (other \<longrightarrow> fi_fs S1 p = fi_fs S p) \<and> (err = 0 \<longrightarrow> other \<or> fi_fs S1 p = None)"
  proof (cases other)
    case False
    then obtain S2 where S2: "on_fs E p fla_close S = Some (err, S2)" "S1 = (if err = 0 then S2\<lparr>fi_fs := (fi_fs S2)(p := None)\<rparr> else S2)"
      using run by (auto simp: close_fs_def split: bind_splits if_splits)
    have "\<exists>fs' buf' d'. S2 = S\<lparr>fi_fs := (fi_fs S)(p \<mapsto> Direct_fs uri fs' buf'), fi_devs := (fi_devs S)(uri := d')\<rparr>"
      by (rule on_fs_direct(2) [OF c S2(1)]) (erule fla_close_base)
    then show ?thesis using S2(2) False by auto
  qed (use run in simp)
  then show "fi_tds S1 = fi_tds S" "fi_data S1 = fi_data S" "fi_next S1 = fi_next S" "q \<noteq> p \<Longrightarrow> fi_fs S1 q = fi_fs S q"
    "other \<Longrightarrow> fi_fs S1 p = fi_fs S p" "err = 0 \<Longrightarrow> other \<or> fi_fs S1 p = None" by simp_all
qed

lemma cleanup_inv:
  assumes inv: "fio_inv S" and i: "i < length (fi_tds S)" "ours (fi_tds S ! i)" "phase_of S i = Ready"
    and run: "fio_flexalloc_cleanup E i S = Some (err, S')"
  shows "fio_inv S'" "no_leak S \<Longrightarrow> err = 0 \<Longrightarrow> settled S i \<Longrightarrow> no_leak S'"
proof -
  note I = fio_invD [OF inv]
  let ?td = "fi_tds S ! i"
  obtain opts u where o: "td_eo ?td = Some opts" "fo_daemon_uri opts = None" "fo_dev_uri opts = Some u" "dev_at S i = Some u"
    using direct_job_td [OF I(1) i(1,2)] by blast
  obtain a p where h: "holds_fs S i a p" using i phase_holds(1) [OF i(1,2)] by blast
  then obtain fad where fad: "td_io_ops_data ?td = Some a" "fi_data S a = Some fad" "fa_fs fad = Some p" by (auto simp: holds_fs_def has_data_def)
  obtain uri fs buf where c: "fi_fs S p = Some (Direct_fs uri fs buf)" using I(2) [OF h] by blast
  let ?found = "other_user (td_thread_number ?td) (Some u) (fi_tds S)"
  from run obtain S1 where S1: "(if ?found then Some (0, S) else close_fs E p S) = Some (err, S1)" "S' = S1\<lparr>fi_data := (fi_data S1)(a := None)\<rparr>"
    using i(1) o(1-3) fad
    by (auto simp: fio_flexalloc_cleanup_def daemon_mode_def fio_flexalloc_cleanup_direct_def get_td_def split: bind_splits if_splits)
  note k = release_step [OF c S1(1)] and user = other_holds [OF inv h o(4)]
  have T: "fi_tds S' = fi_tds S" "fi_data S' = (fi_data S)(a := None)" "fi_next S' = fi_next S" "fi_fs S' = fi_fs S1"
    using S1(2) k(1-3) by simp_all
  note l = leave_fs_inv [OF inv h T(1-3), unfolded T(4)]
  have keep: "fi_fs S1 p = fi_fs S p" if "\<exists>j b. j \<noteq> i \<and> holds_fs S j b p" using k(5) user(1) that by blast
  show "fio_inv S'" by (rule l(1) [OF k(4) keep])
  show "no_leak S'" if "no_leak S" "err = 0" "settled S i"
  proof (rule l(2) [OF k(4) keep that(1)])
    show "(\<exists>j b. j \<noteq> i \<and> holds_fs S j b p) \<or> fi_fs S1 p = None" using k(6) [OF that(2)] user(2) that(3) by argo
  qed
qed




text \<open>Two threads on one formatted device.\<close>

definition td_example :: "nat \<Rightarrow> thread_data" where
  "td_example k = \<lparr>td_thread_number = k, td_subjob_number = k,
     td_o = \<lparr>to_ioengine = ioengine_name, to_name = ''job'', to_file_size_low = 1024, to_file_size_high = 1024, to_odirect = True,
             to_use_thread = True, to_nr_files = 1\<rparr>,
     td_eo = Some \<lparr>fo_daemon_uri = None, fo_dev_uri = Some ''disk'', fo_md_dev_uri = None, fo_poolname = None, fo_strp_nobj = 0, fo_strp_nbyte = 0\<rparr>,
     td_io_ops_data = None\<rparr>"

definition job_example :: "'d \<Rightarrow> ('d, 'w) fio_state" where
  "job_example d = \<lparr>fi_tds = [td_example 0, td_example 1], fi_fs = Map.empty, fi_data = Map.empty, fi_next = 0, fi_devs = (\<lambda>_. d)\<rparr>"

definition env_example :: "(xdev \<Rightarrow> nat \<Rightarrow> u8 list, unit) fio_env" where
  "env_example = \<lparr>fe_xnvme = (\<lambda>_. mem_xnvme), fe_peer = (\<lambda>_ _. None),
     fe_client = (\<lambda>_. (0, 0, ex_sock, \<lparr>cl_fs = None, cl_dev_uri = None, cl_md_dev_uri = None, cl_server_version = \<lparr>id_type = 0, id_version = 0\<rparr>,
       cl_open = False, cl_send = [], cl_recv = [], cl_sock = ex_sock, cl_peer = ()\<rparr>)),
     fe_pool_create = (\<lambda>name n h. Some (0, h, Some \<lparr>ph_h2 = 0, ph_ndx = 0\<rparr>)), fe_pool_set_strp = (\<lambda>pool n m h. Some (0, h))\<rparr>"


definition fad_example :: "nat \<Rightarrow> flexalloc_data" where
  "fad_example p = \<lparr>fa_fs = Some p, fa_pool = Some \<lparr>ph_h2 = 0, ph_ndx = 0\<rparr>, fa_object = [\<lparr>ob_slab_id = 0, ob_entry_ndx = 0\<rparr>]\<rparr>"

definition fad_published :: flexalloc_data where
  "fad_published = \<lparr>fa_fs = None, fa_pool = None, fa_object = [\<lparr>ob_slab_id = 0, ob_entry_ndx = 0\<rparr>]\<rparr>"

text \<open>The threads of the example with their pointers, and its states with one open file system.\<close>

definition tds_example :: "nat option \<Rightarrow> nat option \<Rightarrow> thread_data list" where
  "tds_example x y = [(td_example 0)\<lparr>td_io_ops_data := x\<rparr>, (td_example 1)\<lparr>td_io_ops_data := y\<rparr>]"

definition job_state :: "'d \<Rightarrow> flexalloc \<Rightarrow> u8 list \<Rightarrow> nat option \<Rightarrow> nat option \<Rightarrow> (nat \<Rightarrow> flexalloc_data option) \<Rightarrow> nat \<Rightarrow> ('d, 'w) fio_state" where
  "job_state d fs buf x y data n = \<lparr>fi_tds = tds_example x y, fi_fs = [1 \<mapsto> Direct_fs (path_bytes ''disk'') fs buf], fi_data = data, fi_next = n,
     fi_devs = (\<lambda>_. d)\<rparr>"

lemma job_example_steps:
  assumes "fla_open mem_xnvme False d = Some (0, Some (fs, buf))" "dv_lb_nbytes (fs_dev fs) = 512"
  defines "S1 \<equiv> (job_example d)\<lparr>fi_tds := tds_example (Some 0) None, fi_data := [0 \<mapsto> fad_published], fi_next := 1\<rparr>"
  defines "S2 \<equiv> job_state d fs buf (Some 0) None [0 \<mapsto> fad_example 1] 2"
  defines "S3 \<equiv> job_state d fs buf (Some 0) (Some 2) [0 \<mapsto> fad_example 1, 2 \<mapsto> fad_published] 3"
  defines "S4 \<equiv> job_state d fs buf (Some 0) (Some 2) [0 \<mapsto> fad_example 1, 2 \<mapsto> fad_example 1] 3"
  shows "init_publish 0 (job_example d) = Some (0, S1)" "init_open env_example 0 S1 = Some (0, S2)" "opens_ok env_example 0 S1"
    "init_publish 1 S2 = Some (0, S3)" "init_open env_example 1 S3 = Some (0, S4)" "opens_ok env_example 1 S3"
proof -
  have lb: "(word_of_int (fla_fs_lb_nbytes fs) :: u64) \<noteq> 0" using assms(2) by (simp add: fla_fs_lb_nbytes_def c_int_def)
  note defs = get_td_def Let_def init_refused_def td_example_def env_example_def set_td_data_def set_fad_def fio_flexalloc_open_direct_def
    ioengine_name_def on_fs_def get_handle_def fs_path_def init_pool_def handle_fs_def put_handle_def fad_example_def fad_published_def
    tds_example_def job_state_def job_example_def S1_def S2_def S3_def S4_def init_publish_def init_open_def opens_ok_def
  have eta: "(\<lambda>_. d)(x := d) = (\<lambda>_. d)" for x :: "u8 list" by auto
  show "init_publish 0 (job_example d) = Some (0, S1)" by (simp add: defs)
  show "init_open env_example 0 S1 = Some (0, S2)" using assms(1) lb by (simp add: defs eta)
  show "opens_ok env_example 0 S1" using assms(1) by (simp add: defs)
  show "init_publish 1 S2 = Some (0, S3)" by (simp add: defs)
  show "init_open env_example 1 S3 = Some (0, S4)" using lb by (simp add: defs eta)
  show "opens_ok env_example 1 S3" by (simp add: defs)
qed

lemma job_example_start: "fio_start (job_example d)" "missing_ok env_example"
  by (simp_all add: fio_start_def direct_job_def job_example_def td_example_def direct_td_def missing_ok_def env_example_def)

text \<open>What the runs of the example need to know of its states.\<close>

lemma tds_example_sel [simp]:
  "length (tds_example x y) = 2" "ours (tds_example x y ! 0)" "ours (tds_example x y ! Suc 0)"
  "td_io_ops_data (tds_example x y ! 0) = x" "td_io_ops_data (tds_example x y ! Suc 0) = y"
  "td_dev (tds_example x y ! 0) = Some ''disk''" "td_dev (tds_example x y ! Suc 0) = Some ''disk''"
  by (simp_all add: tds_example_def ours_def td_example_def td_dev_def)

lemma job_state_sel [simp]: "fi_tds (job_state d fs buf x y data n) = tds_example x y" "fi_data (job_state d fs buf x y data n) = data"
  "fi_fs (job_state d fs buf x y data n) = [1 \<mapsto> Direct_fs (path_bytes ''disk'') fs buf]"
  by (simp_all add: job_state_def)

lemma job_state_phase [simp]:
  "phase_of (job_state d fs buf x y data n) 0 = (case x of None \<Rightarrow> Idle | Some a \<Rightarrow>
     (case data a of None \<Rightarrow> Freed | Some fad \<Rightarrow> if fa_fs fad = None then Published else Ready))"
  "phase_of (job_state d fs buf x y data n) (Suc 0) = (case y of None \<Rightarrow> Idle | Some a \<Rightarrow>
     (case data a of None \<Rightarrow> Freed | Some fad \<Rightarrow> if fa_fs fad = None then Published else Ready))"
  by (simp_all add: phase_of_def split: option.split)

lemma fad_example_sel [simp]: "fa_fs (fad_example p) = Some p" "fa_fs fad_published = None"
  by (simp_all add: fad_example_def fad_published_def)

text \<open>The first thread is initialised, the second one has published its data; and both are initialised.\<close>

lemma job_example_runs:
  "\<exists>d fs buf. fio_run env_example (job_example d) True (job_state d fs buf (Some 0) (Some 2) [0 \<mapsto> fad_example 1, 2 \<mapsto> fad_published] 3)
     \<and> fio_run env_example (job_example d) True (job_state d fs buf (Some 0) (Some 2) [0 \<mapsto> fad_example 1, 2 \<mapsto> fad_example 1] 3)"
proof -
  from mkfs_open_run [OF mem_media mem_works mem_plain mkfs_example_geo, of "\<lambda>_ _. []" "\<lambda>_. 0"] obtain d fs buf where
    o: "fla_open mem_xnvme False d = Some (0, Some (fs, buf))" and m: "mounted mem_xnvme fs buf" by (auto simp: geo_example_def)
  have "dv_lb_nbytes (fs_dev fs) = 512" using m by (simp add: mounted_def mem_xnvme_def mem_geo_def)
  note r = job_example_steps [OF o this]
  have idle: "phase_of (job_example d) 0 = Idle" "ours (td_example 0)" by (simp_all add: phase_of_def job_example_def td_example_def ours_def)
  have a: "fio_run env_example (job_example d) True
      ((job_example d)\<lparr>fi_tds := tds_example (Some 0) None, fi_data := [0 \<mapsto> fad_published], fi_next := 1\<rparr>)"
    by (rule fio_run.publish [OF fio_run.start _ _ idle(1) r(1)]) (simp_all add: job_example_def idle)
  have b: "fio_run env_example (job_example d) True (job_state d fs buf (Some 0) None [0 \<mapsto> fad_example 1] 2)"
    by (rule fio_run.opens [OF a _ _ _ r(3,2)]) (simp_all add: phase_of_def)
  have c: "fio_run env_example (job_example d) True (job_state d fs buf (Some 0) (Some 2) [0 \<mapsto> fad_example 1, 2 \<mapsto> fad_published] 3)"
    by (rule fio_run.publish [OF b _ _ _ r(4)]) simp_all
  moreover have "fio_run env_example (job_example d) True (job_state d fs buf (Some 0) (Some 2) [0 \<mapsto> fad_example 1, 2 \<mapsto> fad_example 1] 3)"
    by (rule fio_run.opens [OF c _ _ _ r(6,5)]) simp_all
  ultimately show ?thesis by blast
qed


text \<open>
  What the two steps outside the lock can do. When both threads are cleaned up before fio takes their
  pointers out, each cleanup sees the pointer of the other thread: none closes the file system, and it
  is still open when both threads are idle again.
\<close>

lemma cleanup_keeps_open:
  "data 0 = Some (fad_example 1) \<Longrightarrow> fio_flexalloc_cleanup env_example 0 (job_state d fs buf (Some 0) (Some b) data n)
     = Some (0, job_state d fs buf (Some 0) (Some b) (data(0 := None)) n)"
  "data 2 = Some (fad_example 1) \<Longrightarrow> fio_flexalloc_cleanup env_example 1 (job_state d fs buf (Some a) (Some 2) data n)
     = Some (0, job_state d fs buf (Some a) (Some 2) (data(2 := None)) n)"
  by (simp_all add: fio_flexalloc_cleanup_def fio_flexalloc_cleanup_direct_def get_td_def daemon_mode_def job_state_def tds_example_def td_example_def
      ioengine_name_def)

lemma job_state_reset:
  "set_td_data 0 None (job_state d fs buf x y data n) = job_state d fs buf None y data n"
  "set_td_data (Suc 0) None (job_state d fs buf x y data n) = job_state d fs buf x None data n"
  by (simp_all add: set_td_data_def job_state_def tds_example_def)

lemma fio_cleanups_before_resets:
  "\<exists>d ok S. fio_run env_example (job_example d) ok S \<and> (\<forall>i<2. phase_of S i = Idle) \<and> fi_fs S 1 \<noteq> None"
proof -
  from job_example_runs obtain d fs buf where
    run: "fio_run env_example (job_example d) True (job_state d fs buf (Some 0) (Some 2) [0 \<mapsto> fad_example 1, 2 \<mapsto> fad_example 1] 3)" by blast
  let ?S = "\<lambda>x y data. job_state d fs buf x y data 3 :: (xdev \<Rightarrow> nat \<Rightarrow> u8 list, unit) fio_state"
  obtain ok1 where a: "fio_run env_example (job_example d) ok1 (?S (Some 0) (Some 2) ([0 \<mapsto> fad_example 1, 2 \<mapsto> fad_example 1](0 := None)))"
    by (rule that, rule fio_run.cleanup [OF run _ _ _ cleanup_keeps_open(1)]) simp_all
  obtain ok2 where b: "fio_run env_example (job_example d) ok2 (?S (Some 0) (Some 2) ([0 \<mapsto> fad_example 1, 2 \<mapsto> fad_example 1](0 := None, 2 := None)))"
    by (rule that, rule fio_run.cleanup [OF a _ _ _ cleanup_keeps_open(2)]) simp_all
  have c: "fio_run env_example (job_example d) ok2 (?S None (Some 2) ([0 \<mapsto> fad_example 1, 2 \<mapsto> fad_example 1](0 := None, 2 := None)))"
    using fio_run.reset [OF b, of 0] by (simp add: job_state_reset)
  have "fio_run env_example (job_example d) ok2 (?S None None ([0 \<mapsto> fad_example 1, 2 \<mapsto> fad_example 1](0 := None, 2 := None)))"
    using fio_run.reset [OF c, of "Suc 0"] by (simp add: job_state_reset)
  moreover have "phase_of (?S None None data) i = Idle" if "i < 2" for i data using that by (auto simp: less_2_cases_iff)
  moreover have "fi_fs (?S None None data) 1 \<noteq> None" for data by simp
  ultimately show ?thesis by blast
qed

text \<open>
  The last initialised thread is cleaned up while another one has published its data and waits for the
  lock: the file system stays open and belongs to no thread. The waiting thread then reads freed data
  when it takes the lock before the pointer of the first one is taken out, and opens the device a
  second time when it takes it later.
\<close>

lemma fio_cleanup_of_published:
  "\<exists>d ok S. fio_run env_example (job_example d) ok S \<and> phase_of S 0 = Freed \<and> phase_of S 1 = Published
     \<and> fi_fs S 1 \<noteq> None \<and> (\<nexists>i a. holds_fs S i a 1) \<and> init_open env_example 1 S = None
     \<and> find_fs 1 (Some ''disk'') (set_td_data 0 None S) (fi_tds (set_td_data 0 None S)) = Some None"
proof -
  from job_example_runs obtain d fs buf where
    run: "fio_run env_example (job_example d) True (job_state d fs buf (Some 0) (Some 2) [0 \<mapsto> fad_example 1, 2 \<mapsto> fad_published] 3)" by blast
  let ?S = "job_state d fs buf (Some 0) (Some 2) ([0 \<mapsto> fad_example 1, 2 \<mapsto> fad_published](0 := None)) 3 :: (xdev \<Rightarrow> nat \<Rightarrow> u8 list, unit) fio_state"
  obtain ok where a: "fio_run env_example (job_example d) ok ?S" by (rule that, rule fio_run.cleanup [OF run _ _ _ cleanup_keeps_open(1)]) simp_all
  have "\<not> holds_fs ?S i a 1" for i a by (auto simp: holds_fs_def has_data_def less_2_cases_iff)
  moreover have "init_open env_example 1 ?S = None"
    by (simp add: init_open_def get_td_def fio_flexalloc_open_direct_def tds_example_def td_example_def ioengine_name_def Let_def)
  moreover have "find_fs 1 (Some ''disk'') (set_td_data 0 None ?S) (fi_tds (set_td_data 0 None ?S)) = Some None"
    by (simp add: job_state_reset) (simp add: tds_example_def td_example_def ioengine_name_def)
  ultimately show ?thesis using a by (intro exI [of _ d] exI [of _ ok] exI [of _ ?S]) simp
qed

text \<open>
  After an \<open>fla_open\<close> that has failed the data of the thread has a pointer to the freed structure, and
  the cleanup of the thread closes the file system it points to.
\<close>

lemma find_fs_idle:
  "\<forall>td\<in>set tds. ours td \<longrightarrow> direct_td td \<and> (td_thread_number td \<noteq> n \<longrightarrow> td_io_ops_data td = None) \<Longrightarrow> find_fs n (Some u) S tds = Some None"
  by (induction tds) (auto simp: ours_def direct_td_def)

lemma fio_failed_open_dangles:
  assumes "fio_start S" and i: "i < length (fi_tds S)" "ours (fi_tds S ! i)" and o: "td_eo (fi_tds S ! i) = Some opts" "fo_dev_uri opts = Some u"
    and init: "\<not> init_refused (fi_tds S ! i) opts" and X: "x_malloc (fe_xnvme E (path_bytes u)) Malloc_fs"
    and fail: "fla_open (fe_xnvme E (path_bytes u)) (fo_md_dev_uri opts \<noteq> None) (fi_devs S (path_bytes u)) = Some (err, x)" "err \<noteq> 0"
  shows "\<exists>S'. fio_flexalloc_init E i S = Some (err, S') \<and> fio_flexalloc_cleanup E i S' = None"
proof -
  have st: "direct_job S" "\<And>td. td \<in> set (fi_tds S) \<Longrightarrow> ours td \<Longrightarrow> td_io_ops_data td = None" "fi_fs S = Map.empty" "fi_data S = Map.empty"
    using assms(1) by (simp_all add: fio_start_def)
  have dm: "fo_daemon_uri opts = None" using direct_job_td [OF st(1) i] o(1) by auto
  let ?a = "fi_next S" and ?n = "td_thread_number (fi_tds S ! i)"
  define fad where "fad = \<lparr>fa_fs = None, fa_pool = None, fa_object = replicate (to_nr_files (td_o (fi_tds S ! i))) \<lparr>ob_slab_id = 0, ob_entry_ndx = 0\<rparr>\<rparr>"
  define S1 where "S1 = set_td_data i (Some ?a) (set_fad ?a fad (S\<lparr>fi_next := Suc ?a\<rparr>))"
  have S1: "fi_tds S1 = fi_tds (set_td_data i (Some ?a) S)" "fi_next S1 = Suc ?a" "fi_devs S1 = fi_devs S" "fi_fs S1 = Map.empty"
    using st(3) by (simp_all add: S1_def set_td_data_def set_fad_def)
  have dj: "direct_job S1" by (rule direct_job_set(1) [OF st(1) i(1) S1(1)])
  have idle: "td_io_ops_data td = None" if td: "td \<in> set (fi_tds S1)" "ours td" "td_thread_number td \<noteq> ?n" for td
  proof -
    obtain j where "j < length (fi_tds S)" "td = fi_tds S ! j"
      using td(1,3) i(1) unfolding S1(1) by (auto simp: in_set_conv_nth set_td_data_sel split: if_splits)
    then show ?thesis using st(2) [of td] td(2) by simp
  qed
  have none: "find_fs ?n (Some u) S1 (fi_tds S1) = Some None"
    using find_fs_idle [of "fi_tds S1" ?n u S1] idle dj by (simp add: direct_job_def)
  define S' where "S' = set_fad ?a (fad\<lparr>fa_fs := Some (Suc ?a)\<rparr>) (S1\<lparr>fi_next := Suc (Suc ?a)\<rparr>)"
  have "init_publish i S = Some (0, S1)" using i(1) o(1) init by (simp add: init_publish_def get_td_def Let_def fad_def S1_def)
  moreover have "rd (fi_tds S1) i = Some ((fi_tds S ! i)\<lparr>td_io_ops_data := Some ?a\<rparr>)" "fi_data S1 ?a = Some fad"
    using i(1) by (simp_all add: S1_def set_td_data_def set_fad_def)
  then have "init_open E i S1 = Some (err, S')"
    using i(1) o dm X fail none S1(2,3)
    by (simp add: init_open_def get_td_def Let_def fio_flexalloc_open_direct_def fla_fs_alloc_def S'_def)
  ultimately have "fio_flexalloc_init E i S = Some (err, S')" by (simp add: fio_flexalloc_init_def)
  moreover have "\<not> other_user ?n (Some u) (fi_tds S')"
    using idle dj other_user_iff [of "fi_tds S1" ?n u] by (auto simp: S'_def set_fad_def direct_job_def)
  then have "fio_flexalloc_cleanup E i S' = None"
    using i(1) o dm S1 by (simp add: fio_flexalloc_cleanup_def fio_flexalloc_cleanup_direct_def daemon_mode_def get_td_def S'_def set_fad_def
      set_td_data_def close_fs_def on_fs_def)
  ultimately show ?thesis by blast
qed

end
